(* ===== verification/Prelude.thy ===== *)
theory Prelude
  imports Complex_Main "HOL-Library.Multiset"
begin

text \<open>
  Shared vocabulary of the development: clock readings and durations as the Go code uses them,
  64-bit wrap-around, the stable sort of the standard library with its contract as a locale over
  strict weak orders, the back-off discipline every Redis-backed component repeats, concurrency
  slots, bounded drop-on-full queues, and string helpers.
\<close>

named_theorems go_simps \<open>unfolding rules for clock arithmetic\<close>
named_theorems model_defs \<open>definitions a component proof unfolds\<close>

section \<open>Clock readings, durations and machine integers\<close>

text \<open>
  A \<open>time.Time\<close> is the number of nanoseconds since the Unix epoch, a \<open>time.Duration\<close> a number of
  nanoseconds; both as unbounded integers. Where the code multiplies a duration (doubling a
  cooldown, scaling milliseconds) the product is written with \<open>wrap64\<close>, the value a signed 64-bit
  multiplication leaves.
\<close>

type_synonym gotime = int
type_synonym duration = int

abbreviation millisecond :: duration where "millisecond \<equiv> 1000000"
abbreviation second :: duration where "second \<equiv> 1000000000"
abbreviation minute :: duration where "minute \<equiv> 60000000000"
abbreviation hour :: duration where "hour \<equiv> 3600000000000"

definition wrap64 :: "int \<Rightarrow> int" where
  "wrap64 x = (x + 2 ^ 63) mod 2 ^ 64 - 2 ^ 63"

definition in_int64 :: "int \<Rightarrow> bool" where
  "in_int64 x \<longleftrightarrow> - (2 ^ 63) \<le> x \<and> x < 2 ^ 63"

lemma wrap64_id [simp]: "in_int64 x \<Longrightarrow> wrap64 x = x"
  by (simp add: wrap64_def in_int64_def)

lemma wrap64_0 [simp]: "wrap64 0 = 0"
  by (simp add: wrap64_def)

lemma wrap64_in [simp]: "in_int64 (wrap64 x)"
proof -
  have "0 \<le> (x + 2 ^ 63) mod 2 ^ 64" "(x + 2 ^ 63) mod 2 ^ 64 < 2 ^ 64" by simp_all
  then show ?thesis by (simp add: wrap64_def in_int64_def)
qed

lemma in_int64_small: "\<lbrakk>- (2 ^ 62) \<le> x; x < 2 ^ 62\<rbrakk> \<Longrightarrow> in_int64 x"
  by (simp add: in_int64_def)

text \<open>\<open>UnixMilli\<close> rounds down to the millisecond; \<open>time.UnixMilli\<close> goes back.\<close>

definition unix_milli :: "gotime \<Rightarrow> int" where
  "unix_milli t = t div millisecond"

definition from_milli :: "int \<Rightarrow> gotime" where
  "from_milli ms = ms * millisecond"

lemma unix_milli_from [simp]: "unix_milli (from_milli ms) = ms"
  by (simp add: unix_milli_def from_milli_def)

lemma unix_milli_mono [intro]: "s \<le> t \<Longrightarrow> unix_milli s \<le> unix_milli t"
  by (simp add: unix_milli_def zdiv_mono1)

lemma from_milli_le: "from_milli (unix_milli t) \<le> t"
proof -
  have "t div millisecond * millisecond + t mod millisecond = t" by (rule div_mult_mod_eq)
  moreover have "0 \<le> t mod millisecond" by simp
  ultimately show ?thesis unfolding from_milli_def unix_milli_def by linarith
qed

lemma less_unix_milliD: "unix_milli s < unix_milli t \<Longrightarrow> s < t"
  using unix_milli_mono [of t s] by (meson not_le)

lemma unix_milli_add: "unix_milli (t + d * millisecond) = unix_milli t + d"
  by (simp add: unix_milli_def)

text \<open>\<open>Duration.Milliseconds\<close> truncates towards zero.\<close>

definition dur_millis :: "duration \<Rightarrow> int" where
  "dur_millis d = (if d < 0 then - ((- d) div millisecond) else d div millisecond)"

lemma dur_millis_scale [simp]: "dur_millis (ms * millisecond) = ms"
proof (cases "ms < 0")
  case True
  then have "(- (ms * millisecond)) div millisecond = - ms"
    using nonzero_mult_div_cancel_right [of millisecond "- ms"] by simp
  with True show ?thesis by (simp add: dur_millis_def)
qed (simp add: dur_millis_def)

lemma dur_millis_mono: "a \<le> b \<Longrightarrow> dur_millis a \<le> dur_millis b"
  by (auto simp: dur_millis_def zdiv_mono1 intro: order_trans [of _ 0])

section \<open>Decimal integers\<close>

text \<open>
  \<open>strconv.Itoa\<close> and \<open>strconv.ParseInt(s, 10, 64)\<close>: an optional sign and decimal digits, in the
  range of a signed 64-bit integer.
\<close>

definition digit_char :: "nat \<Rightarrow> char" where
  "digit_char d = char_of (48 + d)"

definition is_digit :: "char \<Rightarrow> bool" where
  "is_digit c \<longleftrightarrow> 48 \<le> (of_char c :: nat) \<and> (of_char c :: nat) \<le> 57"

definition digit_val :: "char \<Rightarrow> nat" where
  "digit_val c = of_char c - 48"

fun nat_digits :: "nat \<Rightarrow> string" where
  "nat_digits n =
     (if n < 10 then [digit_char n] else nat_digits (n div 10) @ [digit_char (n mod 10)])"

declare nat_digits.simps [simp del]

definition digits_val :: "string \<Rightarrow> nat" where
  "digits_val s = foldl (\<lambda>a c. 10 * a + digit_val c) 0 s"

definition itoa :: "int \<Rightarrow> string" where
  "itoa n = (if n < 0 then CHR ''-'' # nat_digits (nat (- n)) else nat_digits (nat n))"

definition parse_int :: "string \<Rightarrow> int option" where
  "parse_int s =
     (let neg = (s \<noteq> [] \<and> hd s = CHR ''-'');
          body = (if s \<noteq> [] \<and> (hd s = CHR ''-'' \<or> hd s = CHR ''+'') then tl s else s);
          v = (if neg then - int (digits_val body) else int (digits_val body))
      in if body = [] \<or> \<not> list_all is_digit body \<or> \<not> in_int64 v then None else Some v)"

lemma of_char_digit: "d < 10 \<Longrightarrow> (of_char (digit_char d) :: nat) = 48 + d"
  by (simp add: digit_char_def)

lemma is_digit_char [simp]: "d < 10 \<Longrightarrow> is_digit (digit_char d)"
  by (simp add: is_digit_def of_char_digit)

lemma digit_val_char [simp]: "d < 10 \<Longrightarrow> digit_val (digit_char d) = d"
  by (simp add: digit_val_def of_char_digit)

lemma digits_val_snoc [simp]: "digits_val (s @ [c]) = 10 * digits_val s + digit_val c"
  by (simp add: digits_val_def)

lemma nat_digits_correct:
  "nat_digits n \<noteq> [] \<and> list_all is_digit (nat_digits n) \<and> digits_val (nat_digits n) = n"
proof (induction n rule: nat_digits.induct)
  case (1 n)
  show ?case
  proof (cases "n < 10")
    case True
    then show ?thesis by (subst (1 2 3) nat_digits.simps) (simp add: digits_val_def)
  next
    case False
    with 1 have "nat_digits (n div 10) \<noteq> []" "list_all is_digit (nat_digits (n div 10))"
      "digits_val (nat_digits (n div 10)) = n div 10" by simp_all
    with False show ?thesis by (subst (1 2 3) nat_digits.simps) simp
  qed
qed

lemma digit_no_sign: "is_digit c \<Longrightarrow> c \<noteq> CHR ''-'' \<and> c \<noteq> CHR ''+'' \<and> c \<noteq> CHR '':''"
  by (auto simp: is_digit_def)

lemma parse_int_itoa [simp]:
  assumes "in_int64 n"
  shows "parse_int (itoa n) = Some n"
proof -
  note d = nat_digits_correct
  show ?thesis
  proof (cases "n < 0")
    case True
    with d [of "nat (- n)"] assms show ?thesis by (simp add: itoa_def parse_int_def)
  next
    case False
    have "is_digit (hd (nat_digits (nat n)))"
      using d [of "nat n"] by (cases "nat_digits (nat n)") auto
    from digit_no_sign [OF this] False d [of "nat n"] assms show ?thesis
      by (simp add: itoa_def parse_int_def)
  qed
qed

lemma itoa_no_colon: "CHR '':'' \<notin> set (itoa n)"
proof -
  have "CHR '':'' \<notin> set (nat_digits m)" for m
    using nat_digits_correct [of m] digit_no_sign by (auto simp: list_all_iff)
  then show ?thesis by (simp add: itoa_def)
qed

lemma itoa_inject [simp]: "itoa m = itoa n \<longleftrightarrow> m = n"
proof
  have hd_digit: "hd (nat_digits k) \<noteq> CHR ''-''" for k
    using nat_digits_correct [of k] digit_no_sign by (cases "nat_digits k") auto
  have inj: "nat_digits j = nat_digits k \<Longrightarrow> j = k" for j k
    by (metis nat_digits_correct)
  assume eq: "itoa m = itoa n"
  then have "m < 0 \<longleftrightarrow> n < 0"
    using hd_digit by (auto simp: itoa_def split: if_splits) (metis list.sel(1))+
  with eq show "m = n"
    by (auto simp: itoa_def split: if_splits dest!: inj)
qed simp

text \<open>A separator that does not occur in the last field makes a two-field key injective.\<close>

lemma split_last_field:
  assumes "c \<notin> set t" and "c \<notin> set t'"
  shows "a @ c # t = a' @ c # t' \<longleftrightarrow> a = a' \<and> t = t'"
proof
  assume "a @ c # t = a' @ c # t'"
  then have eq: "rev t @ c # rev a = rev t' @ c # rev a'"
    by (metis rev.simps(2) rev_append append.assoc append_Cons append_Nil)
  have tw: "takeWhile (\<lambda>x. x \<noteq> c) (rev u @ c # v) = rev u" if "c \<notin> set u" for u v
    using that by (subst takeWhile_append2) auto
  from eq tw [OF assms(1)] tw [OF assms(2)] have "rev t = rev t'" by metis
  with eq show "a = a' \<and> t = t'" by simp
qed simp

section \<open>Floating-point values\<close>

text \<open>
  \<open>float64\<close> quantities (rates, prices, availability) are exact rationals. \<open>math.Round\<close> rounds half
  away from zero.
\<close>

definition go_round :: "rat \<Rightarrow> int" where
  "go_round x = (if 0 \<le> x then \<lfloor>x + 1 / 2\<rfloor> else - \<lfloor>- x + 1 / 2\<rfloor>)"

lemma go_round_of_int [simp]: "go_round (of_int n) = n"
proof -
  have "\<lfloor>(of_int m :: rat) + 1 / 2\<rfloor> = m" for m
    by (rule floor_unique) simp_all
  from this [of n] this [of "- n"] show ?thesis by (simp add: go_round_def)
qed

lemma go_round_nonneg: "0 \<le> x \<Longrightarrow> 0 \<le> go_round x"
  by (simp add: go_round_def)

lemma go_round_mono: "x \<le> y \<Longrightarrow> go_round x \<le> go_round y"
proof -
  assume le: "x \<le> y"
  consider "0 \<le> x" | "x < 0" "0 \<le> y" | "y < 0" using le by linarith
  then show ?thesis
  proof cases
    case 1
    with le show ?thesis by (simp add: go_round_def floor_mono)
  next
    case 2
    then have "0 \<le> \<lfloor>- x + 1 / 2\<rfloor>" "0 \<le> \<lfloor>y + 1 / 2\<rfloor>" by simp_all
    then have "- \<lfloor>- x + 1 / 2\<rfloor> \<le> \<lfloor>y + 1 / 2\<rfloor>" by linarith
    with 2 show ?thesis by (simp add: go_round_def del: zero_le_floor)
  next
    case 3
    with le have "\<lfloor>- y + 1 / 2\<rfloor> \<le> \<lfloor>- x + 1 / 2\<rfloor>" by (intro floor_mono) simp
    with 3 le show ?thesis by (simp add: go_round_def)
  qed
qed

section \<open>The stable sort of the standard library\<close>

text \<open>
  \<open>sort.SliceStable xs less\<close>: insertion from the right keeps equal elements in their order, so for
  a strict weak order this is the unique stable arrangement.
\<close>

fun insert_stable :: "('a \<Rightarrow> 'a \<Rightarrow> bool) \<Rightarrow> 'a \<Rightarrow> 'a list \<Rightarrow> 'a list" where
  "insert_stable lt x [] = [x]"
| "insert_stable lt x (y # ys) = (if lt y x then y # insert_stable lt x ys else x # y # ys)"

fun sort_stable :: "('a \<Rightarrow> 'a \<Rightarrow> bool) \<Rightarrow> 'a list \<Rightarrow> 'a list" where
  "sort_stable lt [] = []"
| "sort_stable lt (x # xs) = insert_stable lt x (sort_stable lt xs)"

lemma mset_insert_stable [simp]: "mset (insert_stable lt x xs) = add_mset x (mset xs)"
  by (induction xs) auto

lemma mset_sort_stable [simp]: "mset (sort_stable lt xs) = mset xs"
  by (induction xs) auto

lemma set_insert_stable [simp]: "set (insert_stable lt x xs) = insert x (set xs)"
  using mset_insert_stable [of lt x xs] by (metis set_mset_add_mset_insert set_mset_mset)

lemma set_sort_stable [simp]: "set (sort_stable lt xs) = set xs"
  by (metis mset_sort_stable set_mset_mset)

lemma length_sort_stable [simp]: "length (sort_stable lt xs) = length xs"
  by (metis mset_sort_stable size_mset)

lemma distinct_sort_stable [simp]: "distinct (sort_stable lt xs) = distinct xs"
  by (metis mset_sort_stable mset_eq_imp_distinct_iff)

text \<open>No later element precedes an earlier one.\<close>

abbreviation ordered_by :: "('a \<Rightarrow> 'a \<Rightarrow> bool) \<Rightarrow> 'a list \<Rightarrow> bool" where
  "ordered_by lt \<equiv> sorted_wrt (\<lambda>x y. \<not> lt y x)"

locale weak_order =
  fixes lt :: "'a \<Rightarrow> 'a \<Rightarrow> bool"
  assumes lt_irrefl: "\<not> lt x x"
    and lt_trans: "\<lbrakk>lt x y; lt y z\<rbrakk> \<Longrightarrow> lt x z"
    and lt_incomp: "\<lbrakk>\<not> lt x y; \<not> lt y z\<rbrakk> \<Longrightarrow> \<not> lt x z"
begin

lemma lt_asym: "lt x y \<Longrightarrow> \<not> lt y x"
  using lt_irrefl lt_trans by blast

lemma insert_ordered: "ordered_by lt xs \<Longrightarrow> ordered_by lt (insert_stable lt x xs)"
proof (induction xs)
  case Nil
  show ?case by simp
next
  case (Cons y ys)
  show ?case
  proof (cases "lt y x")
    case True
    with Cons show ?thesis by (auto dest: lt_asym)
  next
    case False
    with Cons.prems show ?thesis by (auto dest: lt_incomp)
  qed
qed

lemma sort_ordered: "ordered_by lt (sort_stable lt xs)"
  by (induction xs) (auto intro: insert_ordered)

lemma insert_filter_tied:
  assumes "ordered_by lt xs" and P: "\<And>a b. \<lbrakk>P a; P b\<rbrakk> \<Longrightarrow> \<not> lt a b"
  shows "filter P (insert_stable lt x xs) = filter P (x # xs)"
  using assms(1)
proof (induction xs)
  case Nil
  show ?case by simp
next
  case (Cons y ys)
  then show ?case using P by auto
qed

text \<open>Stability: a class of mutually incomparable elements keeps its original order.\<close>

lemma sort_stable_tied:
  assumes "\<And>a b. \<lbrakk>P a; P b\<rbrakk> \<Longrightarrow> \<not> lt a b"
  shows "filter P (sort_stable lt xs) = filter P xs"
proof (induction xs)
  case Nil
  show ?case by simp
next
  case (Cons x xs)
  have "filter P (sort_stable lt (x # xs)) = filter P (x # sort_stable lt xs)"
    using insert_filter_tied [OF sort_ordered, of P] assms by simp
  with Cons.IH show ?case by simp
qed

end

text \<open>The two shapes every comparator of the program has: one key, or a key with a tie-break.\<close>

lemma weak_order_key: "weak_order (\<lambda>x y. (f x :: 'b::linorder) < f y)"
  by unfold_locales auto

lemma weak_order_key_desc: "weak_order (\<lambda>x y. (f x :: 'b::linorder) > f y)"
  by unfold_locales auto

lemma weak_order_lex:
  assumes "weak_order lt"
  shows "weak_order (\<lambda>x y. if (f x :: 'b::linorder) \<noteq> f y then f x < f y else lt x y)"
proof -
  note irr = weak_order.lt_irrefl [OF assms] and tr = weak_order.lt_trans [OF assms]
    and inc = weak_order.lt_incomp [OF assms]
  show ?thesis
    by unfold_locales (auto simp: irr split: if_splits dest: tr inc)
qed

section \<open>Back-off from an unreachable Redis\<close>

text \<open>
  Three components keep \<open>remoteDownTill\<close> and share one discipline: a failed call keeps the replica
  away from Redis for \<open>remoteRetryAfter\<close>, a successful one clears it. The state is the instant
  before which Redis is left alone, \<open>None\<close> for the zero time.
\<close>

locale remote_backoff =
  fixes use_remote :: "'s \<Rightarrow> gotime \<Rightarrow> bool"
    and failed :: "'s \<Rightarrow> gotime \<Rightarrow> 's"
    and okay :: "'s \<Rightarrow> 's"
    and rest :: duration
  assumes rest_pos: "0 < rest"
    and failed_rests: "use_remote (failed s t) u \<longleftrightarrow> t + rest < u"
    and okay_uses: "use_remote (okay s) u"
begin

text \<open>
  A run of calls at non-decreasing instants that all fail: one call is paid for per rest period,
  however many requests arrive in it.
\<close>

fun paid :: "'s \<Rightarrow> gotime list \<Rightarrow> gotime list" where
  "paid s [] = []"
| "paid s (t # ts) = (if use_remote s t then t # paid (failed s t) ts else paid s ts)"

lemma paid_after_failure:
  "u \<in> set (paid (failed s t) ts) \<Longrightarrow> t + rest < u"
proof (induction ts arbitrary: s t)
  case Nil
  then show ?case by simp
next
  case (Cons v ts)
  show ?case
  proof (cases "use_remote (failed s t) v")
    case True
    then have v: "t + rest < v" by (simp add: failed_rests)
    from True Cons.prems consider "u = v" | "u \<in> set (paid (failed (failed s t) v) ts)" by auto
    then show ?thesis
    proof cases
      case 1
      with v show ?thesis by simp
    next
      case 2
      then have "v + rest < u" by (rule Cons.IH)
      with v rest_pos show ?thesis by linarith
    qed
  next
    case False
    with Cons.prems Cons.IH show ?thesis by simp
  qed
qed

lemma paid_spaced: "sorted_wrt (\<lambda>t u. t + rest < u) (paid s ts)"
proof (induction ts arbitrary: s)
  case Nil
  show ?case by simp
next
  case (Cons t ts)
  then show ?case by (auto dest: paid_after_failure)
qed

end

section \<open>Concurrency slots\<close>

text \<open>
  A provider entry and a sidecar endpoint guard their calls alike: a non-blocking acquire that
  fails at the cap, a release after the call. \<open>load\<close> is the number of slots taken and \<open>cap\<close> the
  limit, zero or less for none.
\<close>

locale slots =
  fixes acquire :: "'e \<Rightarrow> ('e \<times> bool)"
    and release :: "'e \<Rightarrow> 'e"
    and load :: "'e \<Rightarrow> int"
    and cap :: "'e \<Rightarrow> int"
    and wf :: "'e \<Rightarrow> bool"
  assumes acquire_wf: "wf e \<Longrightarrow> wf (fst (acquire e))"
    and acquire_cap [simp]: "cap (fst (acquire e)) = cap e"
    and acquire_iff: "wf e \<Longrightarrow> snd (acquire e) \<longleftrightarrow> cap e \<le> 0 \<or> load e < cap e"
    and acquire_load: "wf e \<Longrightarrow> load (fst (acquire e)) = load e + (if snd (acquire e) then 1 else 0)"
    and release_wf: "\<lbrakk>wf e; 0 < load e\<rbrakk> \<Longrightarrow> wf (release e)"
    and release_cap [simp]: "cap (release e) = cap e"
    and release_load: "\<lbrakk>wf e; 0 < load e\<rbrakk> \<Longrightarrow> load (release e) = load e - 1"
    and wf_load: "wf e \<Longrightarrow> 0 \<le> load e \<and> (0 < cap e \<longrightarrow> load e \<le> cap e)"
begin

text \<open>A call takes a slot and gives it back: the entry is as loaded as before.\<close>

lemma acquire_release_load:
  assumes "wf e" and "snd (acquire e)"
  shows "load (release (fst (acquire e))) = load e"
proof -
  have l: "load (fst (acquire e)) = load e + 1" using assms by (simp add: acquire_load)
  moreover have "0 \<le> load e" using wf_load [OF assms(1)] by simp
  ultimately show ?thesis using release_load [OF acquire_wf [OF assms(1)]] by simp
qed

text \<open>
  Requests acquire in any order and release only what they hold (\<open>True\<close> acquires, \<open>False\<close>
  releases one of the slots held): the cap is never exceeded and what is held is what is counted.
\<close>

fun slot_run :: "'e \<Rightarrow> int \<Rightarrow> bool list \<Rightarrow> 'e \<times> int" where
  "slot_run e held [] = (e, held)"
| "slot_run e held (True # ops) =
     slot_run (fst (acquire e)) (if snd (acquire e) then held + 1 else held) ops"
| "slot_run e held (False # ops) =
     (if 0 < held then slot_run (release e) (held - 1) ops else slot_run e held ops)"

lemma slot_run_held:
  assumes "wf e" and "load e = held"
  shows "wf (fst (slot_run e held ops)) \<and> load (fst (slot_run e held ops)) = snd (slot_run e held ops)
    \<and> cap (fst (slot_run e held ops)) = cap e"
  using assms
proof (induction e held ops rule: slot_run.induct)
  case (1 e held)
  then show ?case by simp
next
  case (2 e held ops)
  then show ?case by (simp add: acquire_wf acquire_load)
next
  case (3 e held ops)
  then show ?case by (auto simp: release_wf release_load)
qed

lemma slot_run_capped:
  assumes "wf e" and "load e = held" and "0 < cap e"
  shows "snd (slot_run e held ops) \<le> cap e"
  using slot_run_held [OF assms(1,2), of ops] wf_load assms(3) by metis

end

section \<open>Bounded queues that drop when full\<close>

text \<open>
  The usage ledger, the webhook sender and the capture pipeline put work on a bounded channel and
  count what a full channel turns away, rather than block the request.
\<close>

locale drop_queue =
  fixes offer :: "'a \<Rightarrow> 'q \<Rightarrow> 'q"
    and take1 :: "'q \<Rightarrow> ('a \<times> 'q) option"
    and items :: "'q \<Rightarrow> 'a list"
    and dropped :: "'q \<Rightarrow> nat"
    and accepts :: "'q \<Rightarrow> bool"
    and bound :: nat
  assumes offer_full: "\<lbrakk>accepts q; bound \<le> length (items q)\<rbrakk>
      \<Longrightarrow> items (offer x q) = items q \<and> dropped (offer x q) = Suc (dropped q)"
    and offer_room: "\<lbrakk>accepts q; length (items q) < bound\<rbrakk>
      \<Longrightarrow> items (offer x q) = items q @ [x] \<and> dropped (offer x q) = dropped q"
    and offer_closed: "\<not> accepts q \<Longrightarrow> offer x q = q"
    and offer_accepts: "accepts (offer x q) = accepts q"
    and take1_None: "take1 q = None \<longleftrightarrow> items q = []"
    and take1_Some: "take1 q = Some (x, q')
      \<Longrightarrow> items q = x # items q' \<and> dropped q' = dropped q \<and> accepts q' = accepts q"
begin

lemma offer_bounded: "length (items q) \<le> bound \<Longrightarrow> length (items (offer x q)) \<le> bound"
  using offer_full [of q x] offer_room [of q x] offer_closed [of q x]
  by (cases "accepts q"; cases "length (items q) < bound") auto

text \<open>
  A run of producers (\<open>Some x\<close>) and consumers (\<open>None\<close>) over the queue; the consumed items in order.
\<close>

fun queue_run :: "'q \<Rightarrow> 'a option list \<Rightarrow> 'q \<times> 'a list" where
  "queue_run q [] = (q, [])"
| "queue_run q (Some x # ops) = queue_run (offer x q) ops"
| "queue_run q (None # ops) =
     (case take1 q of
        None \<Rightarrow> queue_run q ops
      | Some (x, q') \<Rightarrow> (let (r, xs) = queue_run q' ops in (r, x # xs)))"

text \<open>Nothing is lost uncounted: every offer is consumed, still queued, or counted as dropped.\<close>

lemma queue_run_conservation:
  assumes "accepts q"
  shows "length (snd (queue_run q ops)) + length (items (fst (queue_run q ops)))
      + dropped (fst (queue_run q ops))
    = length (items q) + dropped q + length (filter (\<lambda>op. op \<noteq> None) ops)"
  using assms
proof (induction q ops rule: queue_run.induct)
  case (1 q)
  show ?case by simp
next
  case (2 q x ops)
  have "length (items (offer x q)) + dropped (offer x q) = Suc (length (items q) + dropped q)"
    using offer_full [OF 2(2)] offer_room [OF 2(2)] by (cases "length (items q) < bound") auto
  with 2 show ?case by (simp add: offer_accepts)
next
  case (3 q ops)
  show ?case
  proof (cases "take1 q")
    case None
    with 3 show ?thesis by simp
  next
    case (Some p)
    obtain x q' where p: "p = (x, q')" by fastforce
    from take1_Some [OF Some [unfolded p]] 3(3) have "accepts q'" and i: "items q = x # items q'"
      and d: "dropped q' = dropped q" by auto
    from 3(2) [OF Some p [symmetric] \<open>accepts q'\<close>] i d show ?thesis
      by (cases "queue_run q' ops") (simp add: Some p)
  qed
qed


end

end
