(* ===== verification/GoStrings.thy ===== *)
theory GoStrings
  imports Prelude
begin

text \<open>
  The string functions of the Go standard library the components call, on byte strings. A string
  is the list of its bytes; case mapping and white space are those of ASCII, which is what the
  callers (language tags, identifiers, headers, model names) feed them.
\<close>

definition char_code :: "char \<Rightarrow> nat" where
  "char_code c = of_char c"

definition is_space :: "char \<Rightarrow> bool" where
  "is_space c \<longleftrightarrow> char_code c = 32 \<or> (9 \<le> char_code c \<and> char_code c \<le> 13)"

definition is_upper :: "char \<Rightarrow> bool" where
  "is_upper c \<longleftrightarrow> 65 \<le> char_code c \<and> char_code c \<le> 90"

definition is_lower :: "char \<Rightarrow> bool" where
  "is_lower c \<longleftrightarrow> 97 \<le> char_code c \<and> char_code c \<le> 122"

definition is_letter :: "char \<Rightarrow> bool" where
  "is_letter c \<longleftrightarrow> is_lower c \<or> is_upper c"

definition lower_char :: "char \<Rightarrow> char" where
  "lower_char c = (if is_upper c then char_of (char_code c + 32) else c)"

definition upper_char :: "char \<Rightarrow> char" where
  "upper_char c = (if is_lower c then char_of (char_code c - 32) else c)"

abbreviation to_lower :: "string \<Rightarrow> string" where "to_lower \<equiv> map lower_char"
abbreviation to_upper :: "string \<Rightarrow> string" where "to_upper \<equiv> map upper_char"

lemmas char_class_defs = is_space_def is_upper_def is_lower_def is_letter_def char_code_def

lemma code_lower_char: "char_code (lower_char c) = (if is_upper c then char_code c + 32 else char_code c)"
  by (auto simp: lower_char_def char_code_def is_upper_def)

lemma code_upper_char: "char_code (upper_char c) = (if is_lower c then char_code c - 32 else char_code c)"
  by (auto simp: upper_char_def char_code_def is_lower_def)

lemma char_code_inject [simp]: "char_code c = char_code d \<longleftrightarrow> c = d"
  by (simp add: char_code_def)

lemma lower_lower [simp]: "lower_char (lower_char c) = lower_char c"
  by (auto simp: lower_char_def is_upper_def char_code_def)

lemma upper_upper [simp]: "upper_char (upper_char c) = upper_char c"
  by (auto simp: upper_char_def is_lower_def char_code_def)

lemma letter_lower [simp]: "is_letter (lower_char c) = is_letter c"
  unfolding is_letter_def is_lower_def is_upper_def code_lower_char by (auto simp: is_upper_def)

lemma letter_upper [simp]: "is_letter (upper_char c) = is_letter c"
  unfolding is_letter_def is_lower_def is_upper_def code_upper_char by (auto simp: is_lower_def)

lemma space_lower [simp]: "is_space (lower_char c) = is_space c"
  unfolding is_space_def code_lower_char by (auto simp: is_upper_def)

lemma space_upper [simp]: "is_space (upper_char c) = is_space c"
  unfolding is_space_def code_upper_char by (auto simp: is_lower_def)

text \<open>A byte that is no letter is not produced from another one by case mapping.\<close>

lemma lower_char_eq: "\<not> is_letter d \<Longrightarrow> lower_char c = d \<longleftrightarrow> c = d"
  by (metis letter_lower lower_char_def is_letter_def)

lemma upper_char_eq: "\<not> is_letter d \<Longrightarrow> upper_char c = d \<longleftrightarrow> c = d"
  by (metis letter_upper upper_char_def is_letter_def)

section \<open>Trimming, prefixes, replacement\<close>

definition trim_left :: "(char \<Rightarrow> bool) \<Rightarrow> string \<Rightarrow> string" where
  "trim_left P s = dropWhile P s"

definition trim_right :: "(char \<Rightarrow> bool) \<Rightarrow> string \<Rightarrow> string" where
  "trim_right P s = rev (dropWhile P (rev s))"

definition trim_space :: "string \<Rightarrow> string" where
  "trim_space s = trim_right is_space (trim_left is_space s)"

definition has_prefix :: "string \<Rightarrow> string \<Rightarrow> bool" where
  "has_prefix s p \<longleftrightarrow> take (length p) s = p"

definition trim_prefix :: "string \<Rightarrow> string \<Rightarrow> string" where
  "trim_prefix s p = (if has_prefix s p then drop (length p) s else s)"

definition has_suffix :: "string \<Rightarrow> string \<Rightarrow> bool" where
  "has_suffix s p \<longleftrightarrow> length p \<le> length s \<and> drop (length s - length p) s = p"

fun contains_str :: "string \<Rightarrow> string \<Rightarrow> bool" where
  "contains_str [] p = (p = [])"
| "contains_str (c # s) p = (has_prefix (c # s) p \<or> contains_str s p)"

definition replace_char :: "char \<Rightarrow> char \<Rightarrow> string \<Rightarrow> string" where
  "replace_char a b s = map (\<lambda>c. if c = a then b else c) s"

lemma trim_space_id:
  assumes "s = [] \<or> (\<not> is_space (hd s) \<and> \<not> is_space (last s))"
  shows "trim_space s = s"
proof (cases s)
  case (Cons c t)
  with assms have "dropWhile is_space s = s" by simp
  moreover have "dropWhile is_space (rev s) = rev s"
    using assms Cons by (metis dropWhile_eq_self_iff hd_rev list.simps(3))
  ultimately show ?thesis by (simp add: trim_space_def trim_left_def trim_right_def)
qed (simp add: trim_space_def trim_left_def trim_right_def)

lemma trim_right_ends:
  assumes "trim_right P s \<noteq> []"
  shows "\<not> P (last (trim_right P s)) \<and> hd (trim_right P s) = hd s"
proof -
  have ne: "dropWhile P (rev s) \<noteq> []" using assms by (simp add: trim_right_def)
  have "\<not> P (last (trim_right P s))"
    using ne hd_dropWhile [OF ne] by (simp add: trim_right_def last_rev)
  moreover have "s = trim_right P s @ rev (takeWhile P (rev s))"
    by (metis rev_append rev_rev_ident takeWhile_dropWhile_id trim_right_def)
  ultimately show ?thesis using assms by (metis hd_append2)
qed

lemma trim_space_ends:
  assumes "trim_space s \<noteq> []"
  shows "\<not> is_space (hd (trim_space s)) \<and> \<not> is_space (last (trim_space s))"
proof -
  have ne: "dropWhile is_space s \<noteq> []"
  proof
    assume "dropWhile is_space s = []"
    then have "trim_space s = rev (dropWhile is_space (rev []))"
      unfolding trim_space_def trim_left_def trim_right_def by (simp only:)
    with assms show False by simp
  qed
  have "\<not> is_space (hd (dropWhile is_space s))" by (rule hd_dropWhile [OF ne])
  then show ?thesis using assms trim_right_ends [of is_space "dropWhile is_space s"]
    by (simp add: trim_space_def trim_left_def)
qed

lemma trim_space_idem [simp]: "trim_space (trim_space s) = trim_space s"
  using trim_space_ends trim_space_id by blast

lemma set_trim_space: "set (trim_space s) \<subseteq> set s"
  unfolding trim_space_def trim_left_def trim_right_def
  by (metis (mono_tags) dual_order.trans set_dropWhileD set_rev subsetI)

lemma contains_str_char: "contains_str s [c] \<longleftrightarrow> c \<in> set s"
  by (induction s) (auto simp: has_prefix_def)

lemma replace_char_notin: "a \<notin> set s \<Longrightarrow> replace_char a b s = s"
  by (induction s) (auto simp: replace_char_def)

lemma replace_char_gone: "a \<noteq> b \<Longrightarrow> a \<notin> set (replace_char a b s)"
  by (auto simp: replace_char_def split: if_splits)

section \<open>Splitting and joining\<close>

fun split_on :: "char \<Rightarrow> string \<Rightarrow> string list" where
  "split_on c [] = [[]]"
| "split_on c (x # xs) =
     (if x = c then [] # split_on c xs
      else (x # hd (split_on c xs)) # tl (split_on c xs))"

fun join_on :: "string \<Rightarrow> string list \<Rightarrow> string" where
  "join_on sep [] = []"
| "join_on sep [p] = p"
| "join_on sep (p # q # ps) = p @ sep @ join_on sep (q # ps)"

text \<open>\<open>strings.Cut\<close> at a single byte: before, after, found.\<close>

definition cut_at :: "char \<Rightarrow> string \<Rightarrow> string \<times> string \<times> bool" where
  "cut_at c s =
     (takeWhile (\<lambda>x. x \<noteq> c) s, tl (dropWhile (\<lambda>x. x \<noteq> c) s), c \<in> set s)"

fun split_n :: "nat \<Rightarrow> char \<Rightarrow> string \<Rightarrow> string list" where
  "split_n 0 c s = []"
| "split_n (Suc 0) c s = [s]"
| "split_n (Suc n) c s =
     (let (a, b, found) = cut_at c s in if found then a # split_n n c b else [s])"

lemma split_on_ne [simp]: "split_on c s \<noteq> []"
  by (cases s) auto

lemma split_on_notin: "p \<in> set (split_on c s) \<Longrightarrow> c \<notin> set p"
proof (induction s arbitrary: p)
  case Nil
  then show ?case by simp
next
  case (Cons x xs)
  have "hd (split_on c xs) \<in> set (split_on c xs)" by simp
  with Cons show ?case
    by (auto split: if_splits dest: list.set_sel(2) [OF split_on_ne])
qed

lemma split_on_subset: "p \<in> set (split_on c s) \<Longrightarrow> set p \<subseteq> set s"
proof (induction s arbitrary: p)
  case Nil
  then show ?case by simp
next
  case (Cons x xs)
  have h: "set (hd (split_on c xs)) \<subseteq> set xs" by (rule Cons.IH) simp
  have t: "set q \<subseteq> set xs" if "q \<in> set (tl (split_on c xs))" for q
    using that by (intro Cons.IH) (rule list.set_sel(2), simp_all)
  from Cons.prems consider "p = []" | "p \<in> set (split_on c xs)"
    | "p = x # hd (split_on c xs)" | "p \<in> set (tl (split_on c xs))"
    by (auto split: if_splits)
  then show ?case
  proof cases
    case 2
    then have "set p \<subseteq> set xs" by (rule Cons.IH)
    then show ?thesis by auto
  next
    case 3
    with h show ?thesis by auto
  next
    case 4
    with t [OF 4] show ?thesis by auto
  qed simp
qed

lemma split_on_append: "c \<notin> set p \<Longrightarrow> split_on c (p @ c # s) = p # split_on c s"
  by (induction p) auto

lemma split_on_single: "c \<notin> set p \<Longrightarrow> split_on c p = [p]"
  by (induction p) auto

lemma split_join:
  assumes "ps \<noteq> []" and "\<forall>p \<in> set ps. c \<notin> set p"
  shows "split_on c (join_on [c] ps) = ps"
  using assms
  by (induction "[c]" ps rule: join_on.induct) (auto simp: split_on_append split_on_single)

lemma join_split: "join_on [c] (split_on c s) = s"
proof (induction s)
  case Nil
  show ?case by simp
next
  case (Cons x xs)
  obtain p ps where sp: "split_on c xs = p # ps" by (cases "split_on c xs") auto
  with Cons show ?case by (cases ps) auto
qed

lemma split_on_length: "length (split_on c s) = Suc (count_list s c)"
  by (induction s) (auto simp: neq_Nil_conv)

lemma set_join_on: "set (join_on sep ps) \<subseteq> set sep \<union> (\<Union>p \<in> set ps. set p)"
  by (induction sep ps rule: join_on.induct) auto

end
