(* ===== verification/Thinking.thy ===== *)
theory Thinking
  imports GoStrings
begin

text \<open>
  The filter that cuts a model's inline thoughts out of a streamed reply
  (\<open>internal/httpapi/thinking.go\<close>). The filter sees the reply in the chunks the upstream happens to
  send, so its correctness is a statement about every way of cutting the same reply: the text that
  reaches the client is that of the whole reply filtered at once.
\<close>

section \<open>Model\<close>

definition thinkOpen :: string where "thinkOpen = ''<think>''"
definition thinkClose :: string where "thinkClose = ''</think>''"

record thinkFilter =
  tf_replying :: bool
  tf_inside :: bool
  tf_pending :: string
  tf_trim :: bool

definition zero_filter :: thinkFilter where
  "zero_filter = \<lparr>tf_replying = False, tf_inside = False, tf_pending = [], tf_trim = False\<rparr>"

definition hasASCIIFoldPrefix :: "string \<Rightarrow> string \<Rightarrow> bool" where
  "hasASCIIFoldPrefix s prefix \<longleftrightarrow>
     length prefix \<le> length s \<and> map lower_char (take (length prefix) s) = prefix"

text \<open>\<open>None\<close> is the index \<open>-1\<close> of the code.\<close>

fun indexASCIIFold :: "string \<Rightarrow> string \<Rightarrow> nat option" where
  "indexASCIIFold [] tag = (if hasASCIIFoldPrefix [] tag then Some 0 else None)"
| "indexASCIIFold (c # s) tag =
     (if hasASCIIFoldPrefix (c # s) tag then Some 0 else map_option Suc (indexASCIIFold s tag))"

fun tag_tail :: "string \<Rightarrow> string \<Rightarrow> nat \<Rightarrow> string" where
  "tag_tail s tag 0 = []"
| "tag_tail s tag (Suc n) =
     (if hasASCIIFoldPrefix (drop (length s - Suc n) s) (take (Suc n) tag)
      then drop (length s - Suc n) s else tag_tail s tag n)"

definition partialTagTail :: "string \<Rightarrow> string \<Rightarrow> string" where
  "partialTagTail s tag = tag_tail s tag (min (length tag - 1) (length s))"

definition trim_set :: "char \<Rightarrow> bool" where
  "trim_set c \<longleftrightarrow> c \<in> {CHR '' '', CHR 0x09, CHR 0x0D, CHR 0x0A}"

definition tf_text :: "thinkFilter \<Rightarrow> string \<Rightarrow> string" where
  "tf_text f s = (if tf_trim f then trim_left trim_set s else s)"

text \<open>The loop of \<open>push\<close>: every round but the last drops a tag, so the text gets shorter.\<close>

function push_loop :: "thinkFilter \<Rightarrow> string \<Rightarrow> string \<times> thinkFilter" where
  "push_loop f s =
     (if tf_inside f then
        (case indexASCIIFold s thinkClose of
           None \<Rightarrow> ([], f\<lparr>tf_pending := partialTagTail s thinkClose\<rparr>)
         | Some i \<Rightarrow> push_loop (f\<lparr>tf_inside := False, tf_trim := True\<rparr>)
                       (drop (i + length thinkClose) s))
      else
        (let rest = trim_left trim_set s in
         if hasASCIIFoldPrefix rest thinkOpen then
           push_loop (f\<lparr>tf_inside := True\<rparr>) (drop (length thinkOpen) rest)
         else if length rest < length thinkOpen \<and>
                 hasASCIIFoldPrefix rest (take (length rest) thinkOpen) then
           ([], f\<lparr>tf_pending := s\<rparr>)
         else (tf_text (f\<lparr>tf_replying := True\<rparr>) s, f\<lparr>tf_replying := True\<rparr>)))"
  by pat_completeness auto

definition push :: "thinkFilter \<Rightarrow> string \<Rightarrow> string \<times> thinkFilter" where
  "push f s =
     (if tf_replying f then (s, f)
      else push_loop (f\<lparr>tf_pending := []\<rparr>) (tf_pending f @ s))"

definition flush :: "thinkFilter \<Rightarrow> string \<times> thinkFilter" where
  "flush f =
     (if tf_inside f then [] else tf_text (f\<lparr>tf_pending := []\<rparr>) (tf_pending f),
      f\<lparr>tf_pending := []\<rparr>)"

definition stripThinkBlocks :: "string \<Rightarrow> string" where
  "stripThinkBlocks s =
     (let (a, f) = push zero_filter s; (b, _) = flush f in a @ b)"

section \<open>Tags in a text\<close>

lemma foldPrefix_length: "hasASCIIFoldPrefix s p \<Longrightarrow> length p \<le> length s"
  by (simp add: hasASCIIFoldPrefix_def)

lemma foldPrefix_append:
  "length p \<le> length s \<Longrightarrow> hasASCIIFoldPrefix (s @ t) p = hasASCIIFoldPrefix s p"
  by (simp add: hasASCIIFoldPrefix_def)

lemma foldPrefix_short:
  assumes "hasASCIIFoldPrefix (s @ t) p" and "length s \<le> length p"
  shows "hasASCIIFoldPrefix s (take (length s) p)"
proof -
  have "map lower_char (take (length p) (s @ t)) = p" using assms(1) by (simp add: hasASCIIFoldPrefix_def)
  then have "take (length s) (map lower_char (take (length p) (s @ t))) = take (length s) p" by simp
  then show ?thesis using assms(2) by (simp add: hasASCIIFoldPrefix_def take_map min_def)
qed

lemma index_at:
  "indexASCIIFold s tag = Some i \<Longrightarrow>
     hasASCIIFoldPrefix (drop i s) tag \<and> (\<forall>j < i. \<not> hasASCIIFoldPrefix (drop j s) tag)"
  by (induction s arbitrary: i) (auto split: if_splits simp: less_Suc_eq_0_disj)

lemma index_none: "indexASCIIFold s tag = None \<longleftrightarrow> (\<forall>i. \<not> hasASCIIFoldPrefix (drop i s) tag)"
proof (induction s)
  case (Cons c s)
  have "(\<forall>i. \<not> hasASCIIFoldPrefix (drop i (c # s)) tag) \<longleftrightarrow>
        \<not> hasASCIIFoldPrefix (c # s) tag \<and> (\<forall>i. \<not> hasASCIIFoldPrefix (drop i s) tag)"
    by (metis drop0 drop_Suc_Cons not0_implies_Suc)
  with Cons show ?case by simp
qed simp

lemma index_someI:
  assumes "hasASCIIFoldPrefix (drop i s) tag" and "\<forall>j < i. \<not> hasASCIIFoldPrefix (drop j s) tag"
  shows "indexASCIIFold s tag = Some i"
proof (cases "indexASCIIFold s tag")
  case None
  with assms(1) show ?thesis by (simp add: index_none)
next
  case (Some k)
  with index_at [OF Some] assms show ?thesis by (metis linorder_neqE_nat)
qed

lemma index_bound: "indexASCIIFold s tag = Some i \<Longrightarrow> tag \<noteq> [] \<Longrightarrow> i + length tag \<le> length s"
  using index_at [of s tag i] foldPrefix_length [of "drop i s" tag] by (cases "i \<le> length s") auto

termination push_loop
proof (relation "measure (\<lambda>(f, s). length s)")
  show "wf (measure (\<lambda>(f :: thinkFilter, s :: string). length s))" by simp
next
  fix f :: thinkFilter and s i
  assume "indexASCIIFold s thinkClose = Some i"
  then have "i + length thinkClose \<le> length s" by (rule index_bound) (simp add: thinkClose_def)
  then show "((f\<lparr>tf_inside := False, tf_trim := True\<rparr>, drop (i + length thinkClose) s), f, s)
      \<in> measure (\<lambda>(f, s). length s)" by (simp add: thinkClose_def)
next
  fix f :: thinkFilter and s rest
  assume r: "rest = trim_left trim_set s" "hasASCIIFoldPrefix rest thinkOpen"
  have "length rest \<le> length s" by (simp add: r(1) trim_left_def length_dropWhile_le)
  with foldPrefix_length [OF r(2)]
  show "((f\<lparr>tf_inside := True\<rparr>, drop (length thinkOpen) rest), f, s) \<in> measure (\<lambda>(f, s). length s)"
    by (simp add: thinkOpen_def)
qed

declare push_loop.simps [simp del]

lemma tail_is_drop: "n \<le> length s \<Longrightarrow> tag_tail s tag n = drop (length s - length (tag_tail s tag n)) s"
  by (induction n) auto

lemma tail_length_le: "n \<le> length s \<Longrightarrow> length (tag_tail s tag n) \<le> n"
  by (induction n) auto

lemma tail_matches: "n \<le> length s \<Longrightarrow>
    hasASCIIFoldPrefix (tag_tail s tag n) (take (length (tag_tail s tag n)) tag)"
  by (induction n) (auto simp: hasASCIIFoldPrefix_def)

lemma tail_longest:
  "\<lbrakk>m \<le> n; n \<le> length s; hasASCIIFoldPrefix (drop (length s - m) s) (take m tag)\<rbrakk>
     \<Longrightarrow> m \<le> length (tag_tail s tag n)"
  by (induction n) (auto simp: le_Suc_eq)

text \<open>The tail kept back is the longest one a closing tag may have been cut through.\<close>

lemma partialTagTail_spec:
  fixes s tag
  defines "p \<equiv> partialTagTail s tag"
  shows "p = drop (length s - length p) s \<and> length p \<le> length s \<and> length p \<le> length tag - 1
    \<and> hasASCIIFoldPrefix p (take (length p) tag)
    \<and> (\<forall>m. m < length tag \<longrightarrow> m \<le> length s \<longrightarrow>
         hasASCIIFoldPrefix (drop (length s - m) s) (take m tag) \<longrightarrow> m \<le> length p)"
proof -
  let ?n = "min (length tag - 1) (length s)"
  have n: "?n \<le> length s" by simp
  show ?thesis unfolding p_def partialTagTail_def
    using tail_is_drop [OF n, of tag] tail_length_le [OF n, of tag] tail_matches [OF n, of tag]
      tail_longest [OF _ n, of _ tag] by auto
qed

lemma partialTagTail_unique:
  assumes "n \<le> length s" "n < length tag" "hasASCIIFoldPrefix (drop (length s - n) s) (take n tag)"
    and "\<And>m. \<lbrakk>m < length tag; m \<le> length s;
        hasASCIIFoldPrefix (drop (length s - m) s) (take m tag)\<rbrakk> \<Longrightarrow> m \<le> n"
  shows "partialTagTail s tag = drop (length s - n) s"
proof -
  note p = partialTagTail_spec [of s tag]
  have "length tag > 0" using assms(2) by (cases tag) auto
  then have "length (partialTagTail s tag) \<le> n" using p assms(4) [of "length (partialTagTail s tag)"]
    by (metis One_nat_def Suc_pred le_imp_less_Suc)
  moreover have "n \<le> length (partialTagTail s tag)" using p assms(1-3) by blast
  ultimately show ?thesis using p by simp
qed

text \<open>
  What makes the hold-back enough: once a text without the tag has been reduced to its partial tail,
  neither an occurrence that a later chunk completes nor a later partial tail starts before it.
\<close>

lemma no_tag_before_tail:
  assumes "indexASCIIFold s tag = None" and "p = partialTagTail s tag" and "j < length s - length p"
    and "n \<le> length tag" and "n = length tag \<or> j + n = length (s @ b)"
  shows "\<not> hasASCIIFoldPrefix (drop j (s @ b)) (take n tag)"
proof
  assume h: "hasASCIIFoldPrefix (drop j (s @ b)) (take n tag)"
  have d: "drop j (s @ b) = drop j s @ b" using assms(3) by simp
  have ns: "\<not> hasASCIIFoldPrefix (drop j s) tag" using assms(1) by (simp add: index_none)
  have lt: "length s - j < length tag"
  proof (cases "n = length tag")
    case True
    with h ns show ?thesis unfolding d by (metis foldPrefix_append length_drop linorder_not_le take_all_iff order_refl)
  next
    case False
    with assms(4,5) show ?thesis by simp
  qed
  have "hasASCIIFoldPrefix (drop j s) (take (length (drop j s)) (take n tag))"
    using h lt assms(3,4,5) unfolding d by (intro foldPrefix_short) auto
  moreover have "length s - j \<le> n" using lt assms(5) by auto
  ultimately have "hasASCIIFoldPrefix (drop (length s - (length s - j)) s) (take (length s - j) tag)"
    using assms(3) by (simp add: min_def)
  then have "length s - j \<le> length p"
    using partialTagTail_spec [of s tag] lt unfolding assms(2) by (meson diff_le_self)
  with assms(3) show False by simp
qed

lemma index_resume:
  assumes "indexASCIIFold s tag = None" and "p = partialTagTail s tag"
  shows "indexASCIIFold (s @ b) tag =
    map_option (\<lambda>i. i + (length s - length p)) (indexASCIIFold (p @ b) tag)"
proof -
  let ?k = "length s - length p"
  have d: "drop (i + ?k) (s @ b) = drop i (p @ b)" for i
    using partialTagTail_spec [of s tag] unfolding assms(2)
    by (metis add.commute drop_append drop_drop diff_is_0_eq diff_le_self drop0)
  have nb: "\<not> hasASCIIFoldPrefix (drop j (s @ b)) tag" if "j < ?k" for j
    using no_tag_before_tail [OF assms that, of "length tag" b] by simp
  show ?thesis
  proof (cases "indexASCIIFold (p @ b) tag")
    case None
    have "\<not> hasASCIIFoldPrefix (drop i (s @ b)) tag" for i
      using nb [of i] None d [of "i - ?k"] by (cases "i < ?k") (auto simp: index_none simp del: drop_append)
    then have "indexASCIIFold (s @ b) tag = None" unfolding index_none by blast
    with None show ?thesis by simp
  next
    case (Some i)
    note i = index_at [OF Some]
    have "\<not> hasASCIIFoldPrefix (drop j (s @ b)) tag" if "j < i + ?k" for j
      using nb [of j] i d [of "j - ?k"] that by (cases "j < ?k") (auto simp del: drop_append)
    with i d [of i] have "indexASCIIFold (s @ b) tag = Some (i + ?k)" by (intro index_someI) auto
    with Some show ?thesis by simp
  qed
qed

lemma tail_resume:
  assumes "indexASCIIFold s tag = None" and "p = partialTagTail s tag" and "tag \<noteq> []"
  shows "partialTagTail (s @ b) tag = partialTagTail (p @ b) tag"
proof -
  note sp = partialTagTail_spec [of s tag, folded assms(2)]
  let ?q = "partialTagTail (p @ b) tag"
  note q = partialTagTail_spec [of "p @ b" tag]
  have d: "drop (length (s @ b) - m) (s @ b) = drop (length (p @ b) - m) (p @ b)"
    if "m \<le> length (p @ b)" for m
  proof -
    have e: "s @ b = take (length s - length p) s @ (p @ b)" using sp by (metis append.assoc append_take_drop_id)
    have "length (s @ b) - m = (length s - length p) + (length (p @ b) - m)" using that sp by auto
    then show ?thesis by (subst (2) e) simp
  qed
  have "partialTagTail (s @ b) tag = drop (length (s @ b) - length ?q) (s @ b)"
  proof (rule partialTagTail_unique)
    show "length ?q \<le> length (s @ b)" using q sp by auto
    show "length ?q < length tag" using q assms(3) by (metis One_nat_def Suc_pred le_imp_less_Suc length_greater_0_conv)
    show "hasASCIIFoldPrefix (drop (length (s @ b) - length ?q) (s @ b)) (take (length ?q) tag)"
      using q d [of "length ?q"] by metis
  next
    fix m assume m: "m < length tag" "m \<le> length (s @ b)"
      "hasASCIIFoldPrefix (drop (length (s @ b) - m) (s @ b)) (take m tag)"
    have "m \<le> length (p @ b)"
    proof (rule ccontr)
      assume "\<not> ?thesis"
      then have "length (s @ b) - m < length s - length p" using m(2) sp by auto
      from no_tag_before_tail [OF assms(1,2) this, of m b] m show False by simp
    qed
    with m q d show "m \<le> length ?q" by metis
  qed
  also have "\<dots> = ?q" using q d [of "length ?q"] by metis
  finally show ?thesis .
qed

section \<open>Resuming after a chunk\<close>

lemma rest_append:
  "trim_left P s \<noteq> [] \<Longrightarrow> trim_left P (s @ b) = trim_left P s @ b"
  by (auto simp: trim_left_def dropWhile_append dropWhile_eq_Nil_conv)

lemma push_loop_close:
  assumes "tf_inside f" and "indexASCIIFold s thinkClose = Some i"
  shows "push_loop f s =
    push_loop (f\<lparr>tf_inside := False, tf_trim := True\<rparr>) (drop (i + length thinkClose) s)"
  using assms by (subst push_loop.simps) simp

lemma push_loop_inside:
  assumes "tf_inside f" and "indexASCIIFold s thinkClose = None"
  shows "push_loop f s = ([], f\<lparr>tf_pending := partialTagTail s thinkClose\<rparr>)"
  using assms by (subst push_loop.simps) simp

lemma push_loop_open:
  assumes "\<not> tf_inside f" and "hasASCIIFoldPrefix (trim_left trim_set s) thinkOpen"
  shows "push_loop f s =
    push_loop (f\<lparr>tf_inside := True\<rparr>) (drop (length thinkOpen) (trim_left trim_set s))"
  using assms by (subst push_loop.simps) simp

definition maybe_open :: "string \<Rightarrow> bool" where
  "maybe_open rest \<longleftrightarrow> length rest < length thinkOpen \<and>
     hasASCIIFoldPrefix rest (take (length rest) thinkOpen)"

lemma push_loop_hold:
  assumes "\<not> tf_inside f" and "maybe_open (trim_left trim_set s)"
  shows "push_loop f s = ([], f\<lparr>tf_pending := s\<rparr>)"
proof -
  have "\<not> hasASCIIFoldPrefix (trim_left trim_set s) thinkOpen"
    using assms(2) by (auto simp: maybe_open_def dest: foldPrefix_length)
  with assms show ?thesis by (subst push_loop.simps) (simp add: maybe_open_def)
qed

lemma push_loop_reply:
  assumes "\<not> tf_inside f" and "\<not> hasASCIIFoldPrefix (trim_left trim_set s) thinkOpen"
    and "\<not> maybe_open (trim_left trim_set s)"
  shows "push_loop f s = (tf_text f s, f\<lparr>tf_replying := True\<rparr>)"
  using assms by (subst push_loop.simps) (auto simp: maybe_open_def tf_text_def)

lemma index_append:
  assumes "indexASCIIFold s tag = Some i" and "tag \<noteq> []"
  shows "indexASCIIFold (s @ b) tag = Some i"
proof (rule index_someI)
  note i = index_at [OF assms(1)] index_bound [OF assms]
  show "hasASCIIFoldPrefix (drop i (s @ b)) tag"
    using i foldPrefix_append [of tag "drop i s" b] by simp
  show "\<forall>j < i. \<not> hasASCIIFoldPrefix (drop j (s @ b)) tag"
    using i foldPrefix_append [of tag "drop _ s" b] by simp
qed

lemma tags_ne [simp]: "thinkOpen \<noteq> []" "thinkClose \<noteq> []"
  by (simp_all add: thinkOpen_def thinkClose_def)

lemma reply_append:
  assumes "\<not> hasASCIIFoldPrefix r thinkOpen" and "\<not> maybe_open r"
  shows "r \<noteq> [] \<and> \<not> hasASCIIFoldPrefix (r @ b) thinkOpen \<and> \<not> maybe_open (r @ b)"
proof -
  have ne: "r \<noteq> []" using assms(2) by (auto simp: maybe_open_def hasASCIIFoldPrefix_def)
  show ?thesis
  proof (cases "length thinkOpen \<le> length r")
    case True
    then show ?thesis using ne assms by (simp add: foldPrefix_append maybe_open_def)
  next
    case False
    then have n: "\<not> hasASCIIFoldPrefix r (take (length r) thinkOpen)" using assms(2) by (simp add: maybe_open_def)
    have "\<not> hasASCIIFoldPrefix (r @ b) thinkOpen" using n False foldPrefix_short [of r b thinkOpen] by auto
    moreover have "\<not> maybe_open (r @ b)"
    proof
      assume m: "maybe_open (r @ b)"
      then have "hasASCIIFoldPrefix r (take (length r) (take (length (r @ b)) thinkOpen))"
        by (intro foldPrefix_short [of r b]) (simp_all add: maybe_open_def)
      with n show False by (simp add: min_def)
    qed
    ultimately show ?thesis using ne by simp
  qed
qed

text \<open>A loop that is fed a text in two parts ends as the loop fed the whole text.\<close>

lemma push_loop_append:
  assumes "push_loop f s = (o1, f1)" and "\<not> tf_replying f" and "tf_pending f = []"
  shows "push_loop f (s @ b) = (let (o2, f2) = push f1 b in (o1 @ o2, f2))"
  using assms
proof (induction f s arbitrary: o1 f1 rule: push_loop.induct)
  case (1 f s)
  let ?r = "trim_left trim_set s"
  consider (close) i where "tf_inside f" "indexASCIIFold s thinkClose = Some i"
    | (inside) "tf_inside f" "indexASCIIFold s thinkClose = None"
    | (opn) "\<not> tf_inside f" "hasASCIIFoldPrefix ?r thinkOpen"
    | (hold) "\<not> tf_inside f" "maybe_open ?r"
    | (reply) "\<not> tf_inside f" "\<not> hasASCIIFoldPrefix ?r thinkOpen" "\<not> maybe_open ?r"
    by blast
  then show ?case
  proof cases
    case close
    let ?f = "f\<lparr>tf_inside := False, tf_trim := True\<rparr>"
    have "push_loop ?f (drop (i + length thinkClose) s @ b) = (let (o2, f2) = push f1 b in (o1 @ o2, f2))"
      using 1(1) [OF close, of o1 f1] 1(3-5) push_loop_close [OF close] by simp
    moreover have "drop (i + length thinkClose) (s @ b) = drop (i + length thinkClose) s @ b"
      using index_bound [OF close(2)] by simp
    ultimately show ?thesis
      using push_loop_close [OF close(1) index_append [OF close(2)], of b] by simp
  next
    case inside
    let ?p = "partialTagTail s thinkClose"
    have f1: "o1 = []" "f1 = f\<lparr>tf_pending := ?p\<rparr>" using 1(3) push_loop_inside [OF inside] by simp_all
    have g: "f\<lparr>tf_pending := []\<rparr> = f" using 1(5) by (cases f) simp
    have "push_loop f (s @ b) = push_loop f (?p @ b)"
    proof (cases "indexASCIIFold (?p @ b) thinkClose")
      case None
      with inside show ?thesis
        by (simp add: push_loop_inside index_resume [OF inside(2) refl] tail_resume [OF inside(2) refl])
    next
      case (Some i)
      let ?k = "length s - length ?p"
      have e: "indexASCIIFold (s @ b) thinkClose = Some (i + ?k)"
        using Some by (simp add: index_resume [OF inside(2) refl])
      have "drop ?k (s @ b) = ?p @ b"
        using partialTagTail_spec [of s thinkClose] by (metis drop_append diff_is_0_eq diff_le_self drop0)
      then have "drop (i + ?k + length thinkClose) (s @ b) = drop (i + length thinkClose) (?p @ b)"
        by (metis add.commute add.left_commute drop_drop)
      then show ?thesis using push_loop_close [OF inside(1) Some] push_loop_close [OF inside(1) e] by simp
    qed
    then show ?thesis using f1 g 1(4) by (simp add: push_def)
  next
    case opn
    let ?f = "f\<lparr>tf_inside := True\<rparr>"
    have r: "length thinkOpen \<le> length ?r" using foldPrefix_length [OF opn(2)] .
    then have ra: "trim_left trim_set (s @ b) = ?r @ b" by (intro rest_append) auto
    have "push_loop ?f (drop (length thinkOpen) ?r @ b) = (let (o2, f2) = push f1 b in (o1 @ o2, f2))"
      using 1(2) [OF opn(1) refl opn(2), of o1 f1] 1(3-5) push_loop_open [OF opn] by simp
    then show ?thesis using push_loop_open [OF opn(1), of "s @ b"] opn(2) r
      by (simp add: ra foldPrefix_append)
  next
    case hold
    have "f\<lparr>tf_pending := []\<rparr> = f" using 1(5) by (cases f) simp
    then show ?thesis using 1(3,4) push_loop_hold [OF hold] by (auto simp: push_def split: prod.splits)
  next
    case reply
    note ra = reply_append [OF reply(2,3), of b]
    then have t: "trim_left trim_set (s @ b) = ?r @ b" by (intro rest_append) simp
    have "push_loop f (s @ b) = (tf_text f (s @ b), f\<lparr>tf_replying := True\<rparr>)"
      using ra reply(1) by (intro push_loop_reply) (simp_all add: t)
    moreover have "tf_text f (s @ b) = tf_text f s @ b" by (simp add: tf_text_def t)
    ultimately show ?thesis using 1(3) push_loop_reply [OF reply] by (auto simp: push_def)
  qed
qed

lemma push_append:
  assumes "push f a = (o1, f1)"
  shows "push f (a @ b) = (let (o2, f2) = push f1 b in (o1 @ o2, f2))"
proof (cases "tf_replying f")
  case True
  with assms show ?thesis by (auto simp: push_def)
next
  case False
  then have "push_loop (f\<lparr>tf_pending := []\<rparr>) (tf_pending f @ a) = (o1, f1)" using assms by (simp add: push_def)
  from push_loop_append [OF this, of b] False show ?thesis by (simp add: push_def)
qed

section \<open>Properties\<close>

text \<open>Feeding the chunks of a reply one after the other, as \<open>runStream\<close> does, and flushing at its end.\<close>

fun push_all :: "thinkFilter \<Rightarrow> string list \<Rightarrow> string \<times> thinkFilter" where
  "push_all f [] = ([], f)"
| "push_all f (c # cs) =
     (let (a, f1) = push f c; (b, f2) = push_all f1 cs in (a @ b, f2))"

lemma push_nothing:
  assumes "push f s = (a, f1)"
  shows "push f1 [] = ([], f1)"
  using push_append [OF assms, of "[]"] assms by (auto split: prod.splits)

lemma push_all_concat:
  assumes "push f s = (a, f1)" and "push_all f1 cs = (b, f2)"
  shows "push f (s @ concat cs) = (a @ b, f2)"
  using assms
proof (induction cs arbitrary: f1 s a b f2)
  case Nil
  then show ?case by simp
next
  case (Cons c cs)
  obtain o1 g where p: "push f1 c = (o1, g)" by fastforce
  obtain o2 h where q: "push_all g cs = (o2, h)" by fastforce
  have "push f (s @ c) = (a @ o1, g)" using push_append [OF Cons.prems(1), of c] p by simp
  from Cons.IH [OF this q] Cons.prems(2) p q show ?case by simp
qed

text \<open>The text a client ends up with, for the loop started in a given state.\<close>

definition reply_text :: "thinkFilter \<Rightarrow> string \<Rightarrow> string" where
  "reply_text f s = (let (a, g) = push_loop f s in a @ fst (flush g))"

lemma strip_reply_text: "stripThinkBlocks s = reply_text zero_filter s"
  by (simp add: stripThinkBlocks_def reply_text_def push_def zero_filter_def split: prod.splits)

lemma trim_left_idem [simp]: "trim_left P (trim_left P s) = trim_left P s"
  by (simp add: trim_left_def)

lemma reply_text_cases:
  assumes "\<not> tf_inside f" and "tf_pending f = []"
  shows "reply_text f s =
    (let r = trim_left trim_set s in
     if \<not> hasASCIIFoldPrefix r thinkOpen then tf_text f s
     else case indexASCIIFold (drop (length thinkOpen) r) thinkClose of
            None \<Rightarrow> []
          | Some i \<Rightarrow> reply_text (f\<lparr>tf_trim := True\<rparr>) (drop (i + length thinkClose) (drop (length thinkOpen) r)))"
proof -
  let ?r = "trim_left trim_set s" and ?f = "f\<lparr>tf_inside := True\<rparr>"
  let ?s = "drop (length thinkOpen) (trim_left trim_set s)"
  consider (opn) "hasASCIIFoldPrefix ?r thinkOpen" | (hold) "maybe_open ?r"
    | (reply) "\<not> hasASCIIFoldPrefix ?r thinkOpen" "\<not> maybe_open ?r" by blast
  then show ?thesis
  proof cases
    case opn
    note o = push_loop_open [OF assms(1) opn]
    show ?thesis
    proof (cases "indexASCIIFold ?s thinkClose")
      case None
      then show ?thesis using o push_loop_inside [of ?f ?s] opn by (simp add: reply_text_def flush_def)
    next
      case (Some i)
      have "f\<lparr>tf_inside := False, tf_trim := True\<rparr> = f\<lparr>tf_trim := True\<rparr>" using assms(1) by (cases f) simp
      then show ?thesis using o push_loop_close [of ?f ?s i] Some opn by (simp add: reply_text_def)
    qed
  next
    case hold
    then have "\<not> hasASCIIFoldPrefix ?r thinkOpen" by (auto simp: maybe_open_def dest: foldPrefix_length)
    then show ?thesis using push_loop_hold [OF assms(1) hold] assms
      by (simp add: reply_text_def flush_def tf_text_def)
  next
    case reply
    then show ?thesis using push_loop_reply [OF assms(1) reply] assms
      by (simp add: reply_text_def flush_def tf_text_def trim_left_def)
  qed
qed

lemma reply_text_trim:
  assumes "\<not> tf_inside f" and "tf_pending f = []"
  shows "reply_text (f\<lparr>tf_trim := True\<rparr>) s = trim_left trim_set (reply_text f s)"
proof (induction s rule: length_induct)
  case (1 s)
  let ?r = "trim_left trim_set s"
  note c = reply_text_cases [OF assms, of s] reply_text_cases [of "f\<lparr>tf_trim := True\<rparr>" s]
  show ?case
  proof (cases "hasASCIIFoldPrefix ?r thinkOpen")
    case False
    then show ?thesis using c assms by (simp add: tf_text_def)
  next
    case opn: True
    show ?thesis
    proof (cases "indexASCIIFold (drop (length thinkOpen) ?r) thinkClose")
      case None
      then show ?thesis using c opn assms by (simp add: trim_left_def)
    next
      case (Some i)
      let ?t = "drop (i + length thinkClose) (drop (length thinkOpen) ?r)"
      have "length ?r \<le> length s" by (simp add: trim_left_def length_dropWhile_le)
      moreover have "?r \<noteq> []" using foldPrefix_length [OF opn] by auto
      ultimately have "length ?t < length s"
        using foldPrefix_length [OF opn] by (simp add: thinkOpen_def del: drop_drop)
      then have "reply_text (f\<lparr>tf_trim := True\<rparr>) ?t = trim_left trim_set (reply_text f ?t)"
        using 1 by blast
      then show ?thesis using c opn Some assms by (simp del: drop_drop)
    qed
  qed
qed

lemma chunking_strip:
  "(let (a, f) = push_all zero_filter cs; (b, _) = flush f in a @ b) = stripThinkBlocks (concat cs)"
proof -
  obtain a f where p: "push_all zero_filter cs = (a, f)" by fastforce
  have "push zero_filter [] = ([], zero_filter)"
    by (simp add: push_def zero_filter_def push_loop_hold maybe_open_def trim_left_def
        hasASCIIFoldPrefix_def)
  from push_all_concat [OF this p] p show ?thesis by (simp add: stripThinkBlocks_def)
qed

text \<open>
  C9: However a reply is cut into chunks, the pieces the filter lets through as it
  streams, with what the flush at the end adds, are the whole reply filtered at once. So a tag
  split over any number of chunks, one byte at a time included, neither leaks nor swallows text.
\<close>
theorem thinking_chunking:
  "(let (a, f) = push_all zero_filter cs; (b, _) = flush f in a @ b) = stripThinkBlocks (concat cs)"
  by (rule chunking_strip)

lemma strip_step:
  "stripThinkBlocks s =
    (let r = trim_left trim_set s in
     if \<not> hasASCIIFoldPrefix r thinkOpen then s
     else case indexASCIIFold (drop (length thinkOpen) r) thinkClose of
            None \<Rightarrow> []
          | Some i \<Rightarrow> trim_left trim_set
              (stripThinkBlocks (drop (i + length thinkClose) (drop (length thinkOpen) r))))"
proof -
  have z: "\<not> tf_inside zero_filter" "tf_pending zero_filter = []" "\<not> tf_trim zero_filter"
    by (simp_all add: zero_filter_def)
  show ?thesis unfolding strip_reply_text reply_text_trim [OF z(1,2), symmetric]
    using reply_text_cases [OF z(1,2), of s] z(3) by (simp only: tf_text_def if_False)
qed

text \<open>
  What is cut from a reply: nothing when it does not begin with a thinking tag
  (later tags are reply text), everything when its block is never closed, and otherwise the block
  together with the white space around it, and so on for the blocks that follow. The first closing
  tag ends the block, so blocks do not nest.
\<close>
theorem strip_cuts_leading_blocks:
  "stripThinkBlocks s =
    (let r = trim_left trim_set s in
     if \<not> hasASCIIFoldPrefix r thinkOpen then s
     else case indexASCIIFold (drop (length thinkOpen) r) thinkClose of
            None \<Rightarrow> []
          | Some i \<Rightarrow> trim_left trim_set
              (stripThinkBlocks (drop (i + length thinkClose) (drop (length thinkOpen) r))))"
  by (rule strip_step)

end
