(* ===== verification/Breaker.thy ===== *)
theory Breaker
  imports Prelude
begin

text \<open>
  The circuit breaker of one alias tier (\<^verbatim>\<open>internal/breaker/breaker.go\<close>): its settings, the stored
  record, the three record updates (admission, outcome, handing a probe back), the in-process and
  the shared store with the fallback between them, and the operations of \<open>Breaker\<close> over both.
  The lemmas: the record invariant and the abstract four-transition automaton every update
  refines, the single probe, the cooldown's closed form, and what an outage of the shared store
  does to an answer.
\<close>

section \<open>Settings and the stored record\<close>

record settings =
  sEnabled :: bool
  sFailures :: int
  sErrorRate :: rat
  sWindow :: duration
  sMinRequests :: int
  sCooldown :: duration
  sMaxCooldown :: duration
  sStable :: duration
  sProbeLease :: duration

definition Defaults :: settings where
  "Defaults =
     \<lparr>sEnabled = False, sFailures = 3, sErrorRate = 1 / 2, sWindow = 30 * second,
      sMinRequests = 5, sCooldown = minute, sMaxCooldown = 30 * minute, sStable = 10 * minute,
      sProbeLease = 0\<rparr>"

definition minProbeLease :: duration where
  "minProbeLease = 30 * second"

definition probeLease :: "settings \<Rightarrow> duration" where
  "probeLease cfg = max (sProbeLease cfg) minProbeLease"

datatype bstate = Closed | Open | HalfOpen

record bkey =
  kAlias :: string
  kTier :: int

text \<open>The answer for one attempt; \<open>None\<close> in \<open>aOpenUntil\<close> is the zero time.\<close>

record admission =
  aSkip :: bool
  aProbe :: bool
  aOpenUntil :: "gotime option"

definition admitted :: admission where
  "admitted = \<lparr>aSkip = False, aProbe = False, aOpenUntil = None\<rparr>"

record transition =
  tKey :: bkey
  tFrom :: bstate
  tTo :: bstate
  tCause :: string
  tCooldown :: duration
  tOpenUntil :: "gotime option"

text \<open>The stored state of one breaker. The state's zero value \<open>""\<close> is \<open>None\<close> and means closed.\<close>

record brecord =
  rState :: "bstate option"
  rReason :: string
  rConsecutive :: int
  rWindowStart :: int
  rWindowReqs :: int
  rWindowFails :: int
  rTrips :: int
  rCooldownMS :: int
  rOpenUntil :: int
  rProbeUntil :: int
  rClosedAt :: int

definition zero_record :: brecord where
  "zero_record =
     \<lparr>rState = None, rReason = '''', rConsecutive = 0, rWindowStart = 0, rWindowReqs = 0,
      rWindowFails = 0, rTrips = 0, rCooldownMS = 0, rOpenUntil = 0, rProbeUntil = 0,
      rClosedAt = 0\<rparr>"

definition rec_state :: "brecord \<Rightarrow> bstate" where
  "rec_state r = (case rState r of None \<Rightarrow> Closed | Some s \<Rightarrow> s)"

definition coolingDown :: "brecord \<Rightarrow> gotime \<Rightarrow> bool" where
  "coolingDown r now =
     (case rec_state r of
        Open \<Rightarrow> unix_milli now < rOpenUntil r
      | HalfOpen \<Rightarrow> unix_milli now < rProbeUntil r
      | Closed \<Rightarrow> False)"

definition blocks :: "brecord \<Rightarrow> gotime \<Rightarrow> bool \<Rightarrow> bool" where
  "blocks r now force = (if force \<and> rec_state r = Open then False else coolingDown r now)"

definition skip_adm :: "brecord \<Rightarrow> admission" where
  "skip_adm r =
     admitted\<lparr>aSkip := True,
       aOpenUntil := (if rec_state r = Open then Some (from_milli (rOpenUntil r)) else None)\<rparr>"

section \<open>The record updates\<close>

text \<open>
  Each update is the closure \<open>Breaker.update\<close> runs on the current record: whether to store, the
  record afterwards, and what the closure leaves in its captured variables.
\<close>

definition admit_fn :: "bkey \<Rightarrow> settings \<Rightarrow> gotime \<Rightarrow> bool \<Rightarrow> brecord
    \<Rightarrow> bool \<times> brecord \<times> admission \<times> transition option" where
  "admit_fn k cfg now force r =
     (if rec_state r = Closed then (False, r, admitted, None)
      else if blocks r now force then (False, r, skip_adm r, None)
      else (True,
            r\<lparr>rState := Some HalfOpen, rProbeUntil := unix_milli (now + probeLease cfg)\<rparr>,
            admitted\<lparr>aProbe := True\<rparr>,
            Some \<lparr>tKey = k, tFrom = rec_state r, tTo = HalfOpen,
                  tCause = (if force \<and> coolingDown r now then ''forced'' else ''''),
                  tCooldown = 0, tOpenUntil = None\<rparr>))"

text \<open>
  The doubling loop of \<open>trip\<close>: \<open>n\<close> is how often \<open>i < trips\<close> can still hold. The product is the
  64-bit one.
\<close>

primrec cooldown_loop :: "nat \<Rightarrow> duration \<Rightarrow> duration \<Rightarrow> duration" where
  "cooldown_loop 0 cooldown maxc = cooldown"
| "cooldown_loop (Suc n) cooldown maxc =
     (if cooldown < maxc then cooldown_loop n (wrap64 (cooldown * 2)) maxc else cooldown)"

definition trip_cooldown :: "settings \<Rightarrow> int \<Rightarrow> duration" where
  "trip_cooldown cfg trips =
     (let cooldown = cooldown_loop (nat (trips - 1)) (sCooldown cfg) (sMaxCooldown cfg)
      in if sMaxCooldown cfg > 0 \<and> cooldown > sMaxCooldown cfg then sMaxCooldown cfg
         else cooldown)"

definition next_trips :: "brecord \<Rightarrow> settings \<Rightarrow> gotime \<Rightarrow> int" where
  "next_trips r cfg now =
     (if rec_state r = Closed \<and> rClosedAt r > 0 \<and> now - from_milli (rClosedAt r) \<ge> sStable cfg
      then 0 else rTrips r) + 1"

definition trip :: "brecord \<Rightarrow> bkey \<Rightarrow> settings \<Rightarrow> gotime \<Rightarrow> string \<Rightarrow> brecord \<times> transition" where
  "trip r k cfg now reason =
     (let trips = next_trips r cfg now;
          cooldown = trip_cooldown cfg trips;
          til = now + cooldown
      in (zero_record\<lparr>rState := Some Open, rReason := reason, rTrips := trips,
            rCooldownMS := dur_millis cooldown, rOpenUntil := unix_milli til,
            rClosedAt := rClosedAt r\<rparr>,
          \<lparr>tKey = k, tFrom = rec_state r, tTo = Open, tCause = reason, tCooldown = cooldown,
           tOpenUntil = Some til\<rparr>))"

text \<open>Counting one outcome on a closed record, before the verdict.\<close>

definition count_outcome :: "settings \<Rightarrow> gotime \<Rightarrow> bool \<Rightarrow> brecord \<Rightarrow> brecord" where
  "count_outcome cfg now failed r =
     (let r1 = (if rWindowStart r = 0 \<or> now - from_milli (rWindowStart r) \<ge> sWindow cfg
                then r\<lparr>rWindowStart := unix_milli now, rWindowReqs := 0, rWindowFails := 0\<rparr>
                else r);
          r2 = r1\<lparr>rWindowReqs := rWindowReqs r1 + 1\<rparr>
      in if failed
         then r2\<lparr>rConsecutive := rConsecutive r2 + 1, rWindowFails := rWindowFails r2 + 1\<rparr>
         else r2\<lparr>rConsecutive := 0\<rparr>)"

definition record_fn :: "bkey \<Rightarrow> settings \<Rightarrow> gotime \<Rightarrow> bool \<Rightarrow> bool \<Rightarrow> brecord
    \<Rightarrow> bool \<times> brecord \<times> transition option" where
  "record_fn k cfg now failed probe r =
     (case rec_state r of
        HalfOpen \<Rightarrow>
          if \<not> probe then (False, r, None)
          else if failed then
            (let (r', t) = trip r k cfg now ''probe_failed'' in (True, r', Some t))
          else (True,
                zero_record\<lparr>rState := Some Closed, rTrips := rTrips r, rCooldownMS := rCooldownMS r,
                  rClosedAt := unix_milli now\<rparr>,
                Some \<lparr>tKey = k, tFrom = HalfOpen, tTo = Closed, tCause = ''probe'',
                      tCooldown = 0, tOpenUntil = None\<rparr>)
      | Open \<Rightarrow> (False, r, None)
      | Closed \<Rightarrow>
          (let r' = count_outcome cfg now failed r
           in if \<not> failed then (True, r', None)
              else if sFailures cfg > 0 \<and> rConsecutive r' \<ge> sFailures cfg then
                (let (r'', t) = trip r' k cfg now ''consecutive_failures'' in (True, r'', Some t))
              else if sMinRequests cfg > 0 \<and> rWindowReqs r' \<ge> sMinRequests cfg
                   \<and> of_int (rWindowFails r') > sErrorRate cfg * of_int (rWindowReqs r') then
                (let (r'', t) = trip r' k cfg now ''error_rate'' in (True, r'', Some t))
              else (True, r', None)))"

definition abandon_fn :: "gotime \<Rightarrow> brecord \<Rightarrow> bool \<times> brecord" where
  "abandon_fn now r =
     (if rec_state r \<noteq> HalfOpen then (False, r)
      else (True,
            r\<lparr>rProbeUntil := 0,
              rState := (if unix_milli now < rOpenUntil r then Some Open else rState r)\<rparr>))"

definition ttl :: "settings \<Rightarrow> duration" where
  "ttl cfg = sMaxCooldown cfg + sStable cfg + sWindow cfg + probeLease cfg + minute"

lemmas [model_defs] = admit_fn_def record_fn_def abandon_fn_def trip_def count_outcome_def
  rec_state_def blocks_def coolingDown_def skip_adm_def admitted_def zero_record_def Let_def

section \<open>Operations on one record\<close>

text \<open>One operation of any replica on the record, at an instant and under its settings.\<close>

datatype brk_op = OAdmit bool | ORecord bool bool | OAbandon

fun brk_exec :: "bkey \<Rightarrow> settings \<Rightarrow> gotime \<Rightarrow> brk_op \<Rightarrow> brecord
    \<Rightarrow> brecord \<times> admission option \<times> transition option" where
  "brk_exec k cfg now (OAdmit force) r =
     (case admit_fn k cfg now force r of (st, r', adm, tr) \<Rightarrow> (if st then r' else r, Some adm, tr))"
| "brk_exec k cfg now (ORecord failed probe) r =
     (case record_fn k cfg now failed probe r of (st, r', tr) \<Rightarrow> (if st then r' else r, None, tr))"
| "brk_exec k cfg now OAbandon r =
     (case abandon_fn now r of (st, r') \<Rightarrow> (if st then r' else r, None, None))"

subsection \<open>The record invariant\<close>

definition wf_record :: "settings \<Rightarrow> brecord \<Rightarrow> bool" where
  "wf_record cfg r \<longleftrightarrow>
     0 \<le> rConsecutive r \<and> 0 \<le> rWindowFails r \<and> rWindowFails r \<le> rWindowReqs r \<and> 0 \<le> rTrips r
     \<and> (rec_state r = Closed \<and> 0 < sFailures cfg \<longrightarrow> rConsecutive r < sFailures cfg)
     \<and> (rec_state r \<noteq> Closed \<longrightarrow> 1 \<le> rTrips r \<and> rConsecutive r = 0 \<and> rWindowReqs r = 0)"

lemma rec_state_simps [simp]:
  "rec_state zero_record = Closed"
  "rec_state (r\<lparr>rState := Some s\<rparr>) = s"
  "rec_state (r\<lparr>rState := None\<rparr>) = Closed"
  "rec_state (r\<lparr>rReason := x\<rparr>) = rec_state r"
  "rec_state (r\<lparr>rConsecutive := n\<rparr>) = rec_state r"
  "rec_state (r\<lparr>rWindowStart := n\<rparr>) = rec_state r"
  "rec_state (r\<lparr>rWindowReqs := n\<rparr>) = rec_state r"
  "rec_state (r\<lparr>rWindowFails := n\<rparr>) = rec_state r"
  "rec_state (r\<lparr>rTrips := n\<rparr>) = rec_state r"
  "rec_state (r\<lparr>rCooldownMS := n\<rparr>) = rec_state r"
  "rec_state (r\<lparr>rOpenUntil := n\<rparr>) = rec_state r"
  "rec_state (r\<lparr>rProbeUntil := n\<rparr>) = rec_state r"
  "rec_state (r\<lparr>rClosedAt := n\<rparr>) = rec_state r"
  by (simp_all add: rec_state_def zero_record_def)

lemma count_outcome_state [simp]: "rec_state (count_outcome cfg now failed r) = rec_state r"
  by (simp add: count_outcome_def Let_def)

lemma trip_state [simp]: "rec_state (fst (trip r k cfg now reason)) = Open"
  by (simp add: trip_def Let_def)

lemma count_outcome_counts:
  assumes "wf_record cfg r"
  shows "0 \<le> rConsecutive (count_outcome cfg now failed r)"
    and "0 \<le> rWindowFails (count_outcome cfg now failed r)"
    and "rWindowFails (count_outcome cfg now failed r) \<le> rWindowReqs (count_outcome cfg now failed r)"
    and "rTrips (count_outcome cfg now failed r) = rTrips r"
    and "rClosedAt (count_outcome cfg now failed r) = rClosedAt r"
    and "\<not> failed \<Longrightarrow> rConsecutive (count_outcome cfg now failed r) = 0"
    and "failed \<Longrightarrow> rConsecutive (count_outcome cfg now failed r) = rConsecutive r + 1"
  using assms by (auto simp: count_outcome_def Let_def wf_record_def)

lemma next_trips_pos: "0 \<le> rTrips r \<Longrightarrow> 1 \<le> next_trips r cfg now"
  by (simp add: next_trips_def)

lemma wf_zero_record [simp]: "wf_record cfg zero_record"
  by (simp add: wf_record_def) (simp add: zero_record_def)

lemma wf_trip: "0 \<le> rTrips r \<Longrightarrow> wf_record cfg (fst (trip r k cfg now reason))"
  using next_trips_pos [of r cfg now]
  by (simp add: wf_record_def trip_def Let_def) (simp add: zero_record_def)

lemma wf_admit: "wf_record cfg r \<Longrightarrow> wf_record cfg (fst (snd (admit_fn k cfg now force r)))"
  by (auto simp: admit_fn_def wf_record_def)

lemma wf_abandon: "wf_record cfg r \<Longrightarrow> wf_record cfg (snd (abandon_fn now r))"
  by (auto simp: abandon_fn_def wf_record_def)

lemma wf_closed_count:
  assumes "wf_record cfg r" and "rec_state r = Closed"
    and "\<not> (failed \<and> 0 < sFailures cfg \<and> sFailures cfg \<le> rConsecutive (count_outcome cfg now failed r))"
  shows "wf_record cfg (count_outcome cfg now failed r)"
  using assms count_outcome_counts [OF assms(1), where now = now and failed = failed] by (cases failed) (auto simp: wf_record_def)

lemma wf_record_fn:
  assumes "wf_record cfg r"
  shows "wf_record cfg (fst (snd (record_fn k cfg now failed probe r)))"
proof -
  have t: "wf_record cfg (fst (trip r' k cfg now reason))" if "rTrips r' = rTrips r" for r' reason
    using assms that by (intro wf_trip) (simp add: wf_record_def)
  note c = count_outcome_counts [OF assms, where now = now and failed = failed]
  show ?thesis
  proof (cases "rec_state r")
    case HalfOpen
    with assms t [of r] show ?thesis
      by (auto simp: record_fn_def wf_record_def zero_record_def split: prod.splits)
        (metis fst_conv)+
  next
    case Open
    with assms show ?thesis by (simp add: record_fn_def)
  next
    case Closed
    note w = wf_closed_count [OF assms Closed, of failed now]
    from Closed show ?thesis
      using t [OF c(4)] w by (auto simp: record_fn_def Let_def split: prod.splits) (metis fst_conv)+
  qed
qed

lemma wf_brk_exec: "wf_record cfg r \<Longrightarrow> wf_record cfg (fst (brk_exec k cfg now op r))"
  using wf_admit [of cfg r k now] wf_record_fn [of cfg r k now] wf_abandon [of cfg r now]
  by (cases op) (auto split: prod.splits, (metis fst_conv snd_conv)+)

subsection \<open>The tier automaton the updates implement\<close>

text \<open>
  What a tier looks like from outside: closed, open until an instant, or probing under a lease
  with the instant the interrupted cooldown runs out kept. The automaton leaves open only whether
  a counted failure of a closed tier trips it and for how long.
\<close>

datatype tier_view = TClosed | TOpen int | TProbing int int

definition tier_view_of :: "brecord \<Rightarrow> tier_view" where
  "tier_view_of r =
     (case rec_state r of
        Closed \<Rightarrow> TClosed
      | Open \<Rightarrow> TOpen (rOpenUntil r)
      | HalfOpen \<Rightarrow> TProbing (rProbeUntil r) (rOpenUntil r))"

inductive tier_step :: "int \<Rightarrow> int \<Rightarrow> brk_op \<Rightarrow> tier_view \<Rightarrow> tier_view \<Rightarrow> bool" for ms lease where
  admit_closed: "tier_step ms lease (OAdmit f) TClosed TClosed"
| admit_wait: "ms < u \<Longrightarrow> tier_step ms lease (OAdmit False) (TOpen u) (TOpen u)"
| admit_probe: "f \<or> u \<le> ms \<Longrightarrow> tier_step ms lease (OAdmit f) (TOpen u) (TProbing lease u)"
| admit_busy: "ms < l \<Longrightarrow> tier_step ms lease (OAdmit f) (TProbing l u) (TProbing l u)"
| admit_reprobe: "l \<le> ms \<Longrightarrow> tier_step ms lease (OAdmit f) (TProbing l u) (TProbing lease u)"
| counted: "tier_step ms lease (ORecord failed p) TClosed TClosed"
| trips: "tier_step ms lease (ORecord True p) TClosed (TOpen u)"
| late: "tier_step ms lease (ORecord failed p) (TOpen u) (TOpen u)"
| bystander: "tier_step ms lease (ORecord failed False) (TProbing l u) (TProbing l u)"
| probe_ok: "tier_step ms lease (ORecord False True) (TProbing l u) TClosed"
| probe_bad: "tier_step ms lease (ORecord True True) (TProbing l u) (TOpen u')"
| abandon_reopen: "ms < u \<Longrightarrow> tier_step ms lease OAbandon (TProbing l u) (TOpen u)"
| abandon_due: "u \<le> ms \<Longrightarrow> tier_step ms lease OAbandon (TProbing l u) (TProbing 0 u)"
| abandon_closed: "tier_step ms lease OAbandon TClosed TClosed"
| abandon_open: "tier_step ms lease OAbandon (TOpen u) (TOpen u)"

inductive_cases tier_step_OAdmitE: "tier_step ms lease (OAdmit f) v v'"
inductive_cases tier_step_probingE: "tier_step ms lease op (TProbing l u) v"
inductive_simps tier_step_abandon_iff: "tier_step ms lease OAbandon v v'"

lemma tier_view_trip: "tier_view_of (fst (trip r k cfg now reason)) =
    TOpen (unix_milli (now + trip_cooldown cfg (next_trips r cfg now)))"
  by (simp add: tier_view_of_def) (simp add: trip_def Let_def)

lemma tier_view_cases:
  "rec_state r = Closed \<Longrightarrow> tier_view_of r = TClosed"
  "rec_state r = Open \<Longrightarrow> tier_view_of r = TOpen (rOpenUntil r)"
  "rec_state r = HalfOpen \<Longrightarrow> tier_view_of r = TProbing (rProbeUntil r) (rOpenUntil r)"
  by (simp_all add: tier_view_of_def)

lemma admit_refines:
  "tier_step (unix_milli now) (unix_milli (now + probeLease cfg)) (OAdmit force)
     (tier_view_of r) (tier_view_of (fst (brk_exec k cfg now (OAdmit force) r)))"
proof (cases "rec_state r")
  case Closed
  then show ?thesis by (auto simp: admit_fn_def tier_view_cases intro: tier_step.intros)
next
  case Open
  then show ?thesis
    by (auto simp: admit_fn_def blocks_def coolingDown_def tier_view_cases intro: tier_step.intros)
next
  case HalfOpen
  then show ?thesis
    by (auto simp: admit_fn_def blocks_def coolingDown_def tier_view_cases intro: tier_step.intros)
qed

lemma record_refines:
  "tier_step ms lease (ORecord failed probe)
     (tier_view_of r) (tier_view_of (fst (brk_exec k cfg now (ORecord failed probe) r)))"
proof (cases "rec_state r")
  case Closed
  have t: "tier_step ms lease (ORecord True probe) TClosed (tier_view_of (fst (trip r' k cfg now w)))"
    for r' w by (simp add: tier_view_trip tier_step.trips)
  from Closed show ?thesis
    by (auto simp: record_fn_def tier_view_cases Let_def split: prod.splits
        intro: tier_step.counted) (metis t fst_conv)+
next
  case Open
  then show ?thesis by (auto simp: record_fn_def tier_view_cases intro: tier_step.intros)
next
  case HalfOpen
  have t: "tier_step ms lease (ORecord True True) (TProbing l u)
      (tier_view_of (fst (trip r k cfg now w)))" for l u w
    by (simp add: tier_view_trip tier_step.probe_bad)
  from HalfOpen show ?thesis
    by (auto simp: record_fn_def tier_view_cases Let_def split: prod.splits
        intro: tier_step.intros) (metis t fst_conv)+
qed

lemma abandon_refines:
  "tier_step (unix_milli now) lease OAbandon
     (tier_view_of r) (tier_view_of (fst (brk_exec k cfg now OAbandon r)))"
  by (cases "rec_state r") (auto simp: abandon_fn_def tier_view_cases intro: tier_step.intros)

subsection \<open>Runs of concurrent requests\<close>

type_synonym brk_event = "settings \<times> gotime \<times> brk_op"

fun brk_run :: "bkey \<Rightarrow> brk_event list \<Rightarrow> brecord \<Rightarrow> brecord \<times> admission list" where
  "brk_run k [] r = (r, [])"
| "brk_run k ((cfg, now, op) # evs) r =
     (case brk_exec k cfg now op r of
        (r', adm, _) \<Rightarrow>
          (case brk_run k evs r' of
             (r'', adms) \<Rightarrow> (r'', (case adm of None \<Rightarrow> adms | Some a \<Rightarrow> a # adms))))"

abbreviation probes :: "admission list \<Rightarrow> nat" where
  "probes adms \<equiv> length (filter aProbe adms)"

text \<open>Requests that arrive and outcomes that are not a probe's: nothing here resolves a probe.\<close>

definition unresolving :: "brk_op \<Rightarrow> bool" where
  "unresolving op = (case op of OAdmit _ \<Rightarrow> True | ORecord _ p \<Rightarrow> \<not> p | OAbandon \<Rightarrow> False)"

definition leased :: "brecord \<Rightarrow> gotime \<Rightarrow> bool" where
  "leased r now \<longleftrightarrow> rec_state r = HalfOpen \<and> unix_milli now < rProbeUntil r"

lemma leased_exec:
  assumes "leased r now" and "unresolving op"
  shows "brk_exec k cfg now op r = (r, (case op of OAdmit _ \<Rightarrow> Some (skip_adm r) | _ \<Rightarrow> None), None)"
  using assms
  by (cases op) (auto simp: leased_def unresolving_def admit_fn_def record_fn_def blocks_def
      coolingDown_def)

lemma leased_run:
  assumes "\<forall>(cfg, t, op) \<in> set evs. leased r t \<and> unresolving op"
  shows "probes (snd (brk_run k evs r)) = 0"
  using assms
proof (induction k evs r rule: brk_run.induct)
  case (1 k r)
  show ?case by simp
next
  case (2 k cfg now op evs r)
  from 2(2) have e: "brk_exec k cfg now op r
      = (r, (case op of OAdmit _ \<Rightarrow> Some (skip_adm r) | _ \<Rightarrow> None), None)"
    by (intro leased_exec) auto
  from 2(1) [OF e [symmetric] refl] 2(2) have "probes (snd (brk_run k evs r)) = 0" by simp
  then show ?case
    by (auto simp: e skip_adm_def admitted_def split: prod.splits brk_op.splits)
qed

lemma exec_probe_cases:
  assumes "unresolving op" and "brk_exec k cfg now op r = (r', adm, tr)"
  shows "(\<forall>a. adm = Some a \<longrightarrow> \<not> aProbe a)
    \<or> rec_state r' = HalfOpen \<and> rProbeUntil r' = unix_milli (now + probeLease cfg)"
  using assms
  by (cases op) (auto simp: unresolving_def admit_fn_def skip_adm_def admitted_def
      split: prod.splits if_splits)

lemma single_probe_run:
  assumes "\<forall>(cfg, t, op) \<in> set evs. t0 \<le> t \<and> unix_milli t < unix_milli (t0 + minProbeLease)
    \<and> unresolving op"
  shows "probes (snd (brk_run k evs r)) \<le> 1"
  using assms
proof (induction k evs r rule: brk_run.induct)
  case (1 k r)
  show ?case by simp
next
  case (2 k cfg now op evs r)
  obtain r' adm tr where e: "brk_exec k cfg now op r = (r', adm, tr)" by (metis prod_cases3)
  from 2(2) have u: "unresolving op" and t: "t0 \<le> now" by auto
  from exec_probe_cases [OF u e] show ?case
  proof
    assume "\<forall>a. adm = Some a \<longrightarrow> \<not> aProbe a"
    moreover from 2(1) [OF e [symmetric] refl] 2(2) have "probes (snd (brk_run k evs r')) \<le> 1" by simp
    ultimately show ?thesis by (auto simp: e split: prod.splits option.splits)
  next
    assume h: "rec_state r' = HalfOpen \<and> rProbeUntil r' = unix_milli (now + probeLease cfg)"
    have "unix_milli (t0 + minProbeLease) \<le> unix_milli (now + probeLease cfg)"
      using t by (intro unix_milli_mono) (simp add: probeLease_def)
    with h 2(2) have "\<forall>(cfg, t, op) \<in> set evs. leased r' t \<and> unresolving op"
      by (fastforce simp: leased_def)
    then have "probes (snd (brk_run k evs r')) = 0" by (rule leased_run)
    then show ?thesis by (auto simp: e split: prod.splits option.splits)
  qed
qed

subsection \<open>Cooldowns\<close>

lemma cooldown_loop_capped:
  assumes "0 < c" and "0 < m" and "m \<le> 2 ^ 62"
  shows "min (cooldown_loop n c m) m = min (c * 2 ^ n) m"
  using assms
proof (induction n arbitrary: c)
  case 0
  then show ?case by simp
next
  case (Suc n)
  show ?case
  proof (cases "c < m")
    case True
    with Suc.prems have w: "wrap64 (c * 2) = c * 2"
      by (intro wrap64_id) (simp add: in_int64_def)
    from Suc.IH [of "c * 2"] Suc.prems True show ?thesis by (simp add: w mult.assoc)
  next
    case False
    have "c * 1 \<le> c * 2 ^ Suc n"
      using Suc.prems(1) by (intro mult_left_mono one_le_power) simp_all
    with False show ?thesis by simp
  qed
qed

lemma trip_cooldown_closed_form:
  assumes "0 < sCooldown cfg" and "0 < sMaxCooldown cfg" and "sMaxCooldown cfg \<le> 2 ^ 62"
  shows "trip_cooldown cfg trips = min (sCooldown cfg * 2 ^ nat (trips - 1)) (sMaxCooldown cfg)"
  using cooldown_loop_capped [OF assms, of "nat (trips - 1)"] assms(2)
  by (simp add: trip_cooldown_def Let_def min_def split: if_splits)

lemma trip_cooldown_bounds:
  assumes "0 < sCooldown cfg" and "0 < sMaxCooldown cfg" and "sMaxCooldown cfg \<le> 2 ^ 62"
  shows "0 < trip_cooldown cfg trips" and "trip_cooldown cfg trips \<le> sMaxCooldown cfg"
  using assms by (simp_all add: trip_cooldown_closed_form [OF assms])

subsection \<open>Runs of failures\<close>

abbreviation failures :: "settings \<Rightarrow> gotime list \<Rightarrow> brk_event list" where
  "failures cfg ts \<equiv> map (\<lambda>t. (cfg, t, ORecord True False)) ts"

lemma open_failures:
  "rec_state r = Open \<Longrightarrow> fst (brk_run k (failures cfg ts) r) = r"
  by (induction ts) (auto simp: record_fn_def split: prod.splits)

lemma record_closed_failed:
  assumes "rec_state r = Closed" and "count_outcome cfg t True r = c"
  shows "brk_exec k cfg t (ORecord True p) r =
    (if 0 < sFailures cfg \<and> sFailures cfg \<le> rConsecutive c then
       (fst (trip c k cfg t ''consecutive_failures''), None, Some (snd (trip c k cfg t ''consecutive_failures'')))
     else if 0 < sMinRequests cfg \<and> sMinRequests cfg \<le> rWindowReqs c
       \<and> sErrorRate cfg * of_int (rWindowReqs c) < of_int (rWindowFails c) then
       (fst (trip c k cfg t ''error_rate''), None, Some (snd (trip c k cfg t ''error_rate'')))
     else (c, None, None))"
  using assms by (simp add: record_fn_def Let_def split: prod.splits)

lemma closed_failure_step:
  assumes "wf_record cfg r" and "rec_state r = Closed" and "0 < sFailures cfg"
    and "brk_exec k cfg t (ORecord True False) r = (r', adm, tr)"
  shows "rec_state r' = Open \<or> rec_state r' = Closed \<and> rConsecutive r' = rConsecutive r + 1
    \<and> rConsecutive r + 1 < sFailures cfg"
proof -
  note c = count_outcome_counts [OF assms(1), where now = t and failed = True]
  from assms(2-4) c(7) show ?thesis
    by (auto simp: record_closed_failed [OF assms(2) refl] simp del: brk_exec.simps split: if_splits)
qed

lemma failures_open:
  assumes "wf_record cfg r" and "rec_state r = Closed" and "0 < sFailures cfg"
    and "sFailures cfg - rConsecutive r \<le> int (length ts)"
  shows "rec_state (fst (brk_run k (failures cfg ts) r)) = Open"
  using assms
proof (induction ts arbitrary: r)
  case Nil
  then show ?case by (simp add: wf_record_def)
next
  case (Cons t ts)
  obtain r' adm tr where e: "brk_exec k cfg t (ORecord True False) r = (r', adm, tr)"
    by (metis prod_cases3)
  have wf: "wf_record cfg r'" using wf_brk_exec [OF Cons.prems(1), of k t "ORecord True False"] e by simp
  have run: "fst (brk_run k (failures cfg (t # ts)) r) = fst (brk_run k (failures cfg ts) r')"
    using e by (simp split: prod.splits del: brk_exec.simps)
  from closed_failure_step [OF Cons.prems(1-3) e] show ?case
  proof
    assume "rec_state r' = Open"
    then show ?thesis unfolding run by (simp add: open_failures)
  next
    assume "rec_state r' = Closed \<and> rConsecutive r' = rConsecutive r + 1
      \<and> rConsecutive r + 1 < sFailures cfg"
    with Cons.prems Cons.IH [OF wf] show ?thesis unfolding run by simp
  qed
qed

section \<open>The stores\<close>

subsection \<open>In-process state\<close>

type_synonym mem_store = "bkey \<rightharpoonup> brecord"

definition mem_load :: "mem_store \<Rightarrow> bkey \<Rightarrow> brecord" where
  "mem_load m k = (case m k of None \<Rightarrow> zero_record | Some r \<Rightarrow> r)"

definition mem_update :: "mem_store \<Rightarrow> bkey \<Rightarrow> (brecord \<Rightarrow> bool \<times> brecord \<times> 'x) \<Rightarrow> mem_store \<times> 'x" where
  "mem_update m k fn =
     (case fn (mem_load m k) of (st, r', x) \<Rightarrow> (if st then m(k \<mapsto> r') else m, x))"

definition mem_reset :: "mem_store \<Rightarrow> mem_store" where
  "mem_reset m = Map.empty"

definition mem_del :: "mem_store \<Rightarrow> bkey \<Rightarrow> mem_store" where
  "mem_del m k = m(k := None)"

subsection \<open>Shared state\<close>

text \<open>
  The Redis client is a parameter: what a read, a watched write and a delete answer, and the state
  of the server (with whatever other replicas do) afterwards. A stored value is the record its JSON
  decodes to, \<open>None\<close> for bytes that do not decode.
\<close>

datatype 'a reply = RNil | RErr | RVal 'a
datatype tx_reply = TxOK | TxFailed | TxErr

record 'r rdb_ops =
  rdb_get :: "'r \<Rightarrow> string \<Rightarrow> brecord option reply \<times> 'r"
  rdb_tx_set :: "'r \<Rightarrow> string \<Rightarrow> brecord \<Rightarrow> duration \<Rightarrow> tx_reply \<times> 'r"
  rdb_del :: "'r \<Rightarrow> string \<Rightarrow> bool \<times> 'r"

datatype brk_error = ErrCtx | ErrContended | ErrRedis

definition redisKey :: "bkey \<Rightarrow> string" where
  "redisKey k = ''air:breaker:'' @ kAlias k @ '':'' @ itoa (kTier k)"

definition decode_reply :: "brecord option reply \<Rightarrow> brecord" where
  "decode_reply rep = (case rep of RVal (Some r) \<Rightarrow> r | _ \<Rightarrow> zero_record)"

definition redis_load :: "'r rdb_ops \<Rightarrow> 'r \<Rightarrow> bkey \<Rightarrow> (brk_error + brecord) \<times> 'r" where
  "redis_load R s k =
     (case rdb_get R s (redisKey k) of
        (RErr, s') \<Rightarrow> (Inl ErrRedis, s')
      | (rep, s') \<Rightarrow> (Inr (decode_reply rep), s'))"

definition updateAttempts :: nat where
  "updateAttempts = 5"

text \<open>
  The optimistic transaction, retried while it loses its race. The closure's captured variables
  (\<open>x\<close>) keep what its last run left there, whether or not the transaction went through.
\<close>

fun redis_update :: "'r rdb_ops \<Rightarrow> nat \<Rightarrow> 'r \<Rightarrow> bkey \<Rightarrow> duration
    \<Rightarrow> (brecord \<Rightarrow> bool \<times> brecord \<times> 'x) \<Rightarrow> 'x \<Rightarrow> brk_error option \<times> 'x \<times> 'r" where
  "redis_update R 0 s k d fn x = (Some ErrContended, x, s)"
| "redis_update R (Suc n) s k d fn x =
     (case rdb_get R s (redisKey k) of
        (RErr, s1) \<Rightarrow> (Some ErrRedis, x, s1)
      | (rep, s1) \<Rightarrow>
          (case fn (decode_reply rep) of
             (st, r', x') \<Rightarrow>
               if \<not> st then (None, x', s1)
               else (case rdb_tx_set R s1 (redisKey k) r' d of
                       (TxOK, s2) \<Rightarrow> (None, x', s2)
                     | (TxErr, s2) \<Rightarrow> (Some ErrRedis, x', s2)
                     | (TxFailed, s2) \<Rightarrow> redis_update R n s2 k d fn x')))"

section \<open>The breaker over both stores\<close>

text \<open>
  \<open>bDownTill\<close> is \<open>remoteDownTill\<close> with \<open>None\<close> for the zero time, \<open>bEmitted\<close> what the observer has
  been told, latest last. An \<open>env\<close> is what one call sees of its surroundings: the breaker's clock,
  the wall clock, and whether the caller's context has ended when a call returns.
\<close>

record 'r breaker =
  bLocal :: mem_store
  bRemote :: "'r option"
  bDownTill :: "gotime option"
  bSeen :: "bkey \<rightharpoonup> settings \<times> gotime"
  bEmitted :: "transition list"

record env =
  eNow :: gotime
  eWall :: gotime
  eCtxDone :: bool

definition remoteRetryAfter :: duration where
  "remoteRetryAfter = 5 * second"

definition remote_due :: "gotime option \<Rightarrow> gotime \<Rightarrow> bool" where
  "remote_due d wall = (case d of None \<Rightarrow> True | Some till \<Rightarrow> till < wall)"

definition useRemote :: "'r breaker \<Rightarrow> gotime \<Rightarrow> bool" where
  "useRemote b wall = (bRemote b \<noteq> None \<and> remote_due (bDownTill b) wall)"

definition remoteFailed :: "'r breaker \<Rightarrow> gotime \<Rightarrow> 'r breaker" where
  "remoteFailed b wall = b\<lparr>bDownTill := Some (wall + remoteRetryAfter)\<rparr>"

definition remoteOK :: "'r breaker \<Rightarrow> 'r breaker" where
  "remoteOK b =
     (if bDownTill b \<noteq> None then b\<lparr>bDownTill := None, bLocal := mem_reset (bLocal b)\<rparr> else b)"

interpretation brk_backoff: remote_backoff remote_due "\<lambda>_ t. Some (t + remoteRetryAfter)" "\<lambda>_. None"
  remoteRetryAfter
  by unfold_locales (auto simp: remote_due_def remoteRetryAfter_def)

definition emit :: "'r breaker \<Rightarrow> transition option \<Rightarrow> 'r breaker" where
  "emit b tr = (case tr of None \<Rightarrow> b | Some t \<Rightarrow> b\<lparr>bEmitted := bEmitted b @ [t]\<rparr>)"

definition breaker_load :: "'r rdb_ops \<Rightarrow> env \<Rightarrow> 'r breaker \<Rightarrow> bkey
    \<Rightarrow> (brk_error + brecord) \<times> 'r breaker" where
  "breaker_load R e b k =
     (case bRemote b of
        Some s \<Rightarrow>
          if remote_due (bDownTill b) (eWall e)
          then (case redis_load R s k of
                  (Inr r, s') \<Rightarrow> (Inr r, remoteOK (b\<lparr>bRemote := Some s'\<rparr>))
                | (Inl _, s') \<Rightarrow>
                    if eCtxDone e then (Inl ErrCtx, b\<lparr>bRemote := Some s'\<rparr>)
                    else (Inr (mem_load (bLocal b) k),
                          remoteFailed (b\<lparr>bRemote := Some s'\<rparr>) (eWall e)))
          else (Inr (mem_load (bLocal b) k), b)
      | None \<Rightarrow> (Inr (mem_load (bLocal b) k), b))"

definition local_update :: "'r breaker \<Rightarrow> bkey \<Rightarrow> (brecord \<Rightarrow> bool \<times> brecord \<times> 'x)
    \<Rightarrow> brk_error option \<times> 'x \<times> 'r breaker" where
  "local_update b k fn = (case mem_update (bLocal b) k fn of (m, x) \<Rightarrow> (None, x, b\<lparr>bLocal := m\<rparr>))"

definition breaker_update :: "'r rdb_ops \<Rightarrow> env \<Rightarrow> 'r breaker \<Rightarrow> bkey \<Rightarrow> settings
    \<Rightarrow> (brecord \<Rightarrow> bool \<times> brecord \<times> 'x) \<Rightarrow> 'x \<Rightarrow> brk_error option \<times> 'x \<times> 'r breaker" where
  "breaker_update R e b k cfg fn x =
     (case bRemote b of
        Some s \<Rightarrow>
          if remote_due (bDownTill b) (eWall e)
          then (case redis_update R updateAttempts s k (ttl cfg) fn x of
                  (None, x', s') \<Rightarrow> (None, x', remoteOK (b\<lparr>bRemote := Some s'\<rparr>))
                | (Some err, x', s') \<Rightarrow>
                    if eCtxDone e then (Some ErrCtx, x', b\<lparr>bRemote := Some s'\<rparr>)
                    else if err = ErrContended then (Some ErrContended, x', b\<lparr>bRemote := Some s'\<rparr>)
                    else local_update (remoteFailed (b\<lparr>bRemote := Some s'\<rparr>) (eWall e)) k fn)
          else local_update b k fn
      | None \<Rightarrow> local_update b k fn)"

definition breaker_admit :: "'r rdb_ops \<Rightarrow> env \<Rightarrow> 'r breaker \<Rightarrow> bkey \<Rightarrow> settings \<Rightarrow> bool
    \<Rightarrow> admission \<times> 'r breaker" where
  "breaker_admit R e b k cfg force =
     (if \<not> sEnabled cfg then (admitted, b)
      else
        (let b0 = b\<lparr>bSeen := (bSeen b)(k \<mapsto> (cfg, eNow e))\<rparr>
         in case breaker_load R e b0 k of
              (Inl _, b1) \<Rightarrow> (admitted, b1)
            | (Inr cur, b1) \<Rightarrow>
                if rec_state cur = Closed then (admitted, b1)
                else if blocks cur (eNow e) force then (skip_adm cur, b1)
                else (case breaker_update R e b1 k cfg (admit_fn k cfg (eNow e) force)
                          (admitted, None) of
                        (Some ErrContended, _, b2) \<Rightarrow> (admitted\<lparr>aSkip := True\<rparr>, b2)
                      | (Some _, _, b2) \<Rightarrow> (admitted, b2)
                      | (None, (adm, tr), b2) \<Rightarrow> (adm, emit b2 tr))))"

definition breaker_record :: "'r rdb_ops \<Rightarrow> env \<Rightarrow> 'r breaker \<Rightarrow> bkey \<Rightarrow> settings \<Rightarrow> bool \<Rightarrow> bool
    \<Rightarrow> 'r breaker" where
  "breaker_record R e b k cfg failed probe =
     (if \<not> sEnabled cfg then b
      else (case breaker_update R e b k cfg (record_fn k cfg (eNow e) failed probe) None of
              (_, tr, b') \<Rightarrow> emit b' tr))"

definition breaker_abandon :: "'r rdb_ops \<Rightarrow> env \<Rightarrow> 'r breaker \<Rightarrow> bkey \<Rightarrow> settings \<Rightarrow> 'r breaker" where
  "breaker_abandon R e b k cfg =
     (if \<not> sEnabled cfg then b
      else (case breaker_update R e b k cfg
                  (\<lambda>r. case abandon_fn (eNow e) r of (st, r') \<Rightarrow> (st, r', ())) () of
              (_, _, b') \<Rightarrow> b'))"

record status =
  stState :: bstate
  stReason :: string
  stOpenUntil :: "gotime option"
  stCooldownMS :: int
  stTrips :: int
  stConsecutiveFailures :: int
  stWindowRequests :: int
  stWindowFailures :: int

definition status_of :: "brecord \<Rightarrow> settings \<Rightarrow> gotime \<Rightarrow> status" where
  "status_of r cfg now =
     (let st = \<lparr>stState = rec_state r, stReason = rReason r, stOpenUntil = None,
                stCooldownMS = rCooldownMS r, stTrips = rTrips r,
                stConsecutiveFailures = rConsecutive r, stWindowRequests = rWindowReqs r,
                stWindowFailures = rWindowFails r\<rparr>
      in case rec_state r of
           Closed \<Rightarrow>
             (let st1 = st\<lparr>stReason := ''''\<rparr>
              in if rClosedAt r > 0 \<and> now - from_milli (rClosedAt r) \<ge> sStable cfg
                 then st1\<lparr>stTrips := 0, stCooldownMS := 0\<rparr> else st1)
         | Open \<Rightarrow> st\<lparr>stOpenUntil := Some (from_milli (rOpenUntil r))\<rparr>
         | HalfOpen \<Rightarrow> st)"

definition breaker_status :: "'r rdb_ops \<Rightarrow> env \<Rightarrow> 'r breaker \<Rightarrow> bkey \<Rightarrow> settings
    \<Rightarrow> (brk_error + status) \<times> 'r breaker" where
  "breaker_status R e b k cfg =
     (case breaker_load R e b k of
        (Inl err, b') \<Rightarrow> (Inl err, b')
      | (Inr r, b') \<Rightarrow> (Inr (status_of r cfg (eNow e)), b'))"

definition breaker_seen :: "env \<Rightarrow> 'r breaker \<Rightarrow> (bkey \<rightharpoonup> settings) \<times> 'r breaker" where
  "breaker_seen e b =
     (let kept = (\<lambda>k. case bSeen b k of
                     None \<Rightarrow> None
                   | Some (cfg, seen) \<Rightarrow> if eNow e - seen > ttl cfg then None else Some (cfg, seen))
      in (\<lambda>k. map_option fst (kept k), b\<lparr>bSeen := kept\<rparr>))"

definition manual_close :: "bkey \<Rightarrow> brecord \<Rightarrow> transition option" where
  "manual_close k r =
     (if rec_state r \<noteq> Closed
      then Some \<lparr>tKey = k, tFrom = rec_state r, tTo = Closed, tCause = ''manual'',
                 tCooldown = 0, tOpenUntil = None\<rparr>
      else None)"

definition breaker_release :: "'r rdb_ops \<Rightarrow> env \<Rightarrow> 'r breaker \<Rightarrow> bkey
    \<Rightarrow> brk_error option \<times> 'r breaker" where
  "breaker_release R e b k =
     (case breaker_load R e b k of
        (Inl err, b1) \<Rightarrow> (Some err, b1)
      | (Inr r, b1) \<Rightarrow>
          (let b2 = b1\<lparr>bLocal := mem_del (bLocal b1) k\<rparr>
           in case bRemote b2 of
                None \<Rightarrow> (None, emit b2 (manual_close k r))
              | Some s \<Rightarrow>
                  (case rdb_del R s (redisKey k) of
                     (False, s') \<Rightarrow>
                       (Some ErrRedis, remoteFailed (b2\<lparr>bRemote := Some s'\<rparr>) (eWall e))
                   | (True, s') \<Rightarrow>
                       (None, emit (b2\<lparr>bRemote := Some s'\<rparr>) (manual_close k r)))))"

section \<open>What the stores guarantee\<close>

lemma redisKey_inject [simp]: "redisKey k = redisKey k' \<longleftrightarrow> k = k'"
proof -
  have "kAlias k @ CHR '':'' # itoa (kTier k) = kAlias k' @ CHR '':'' # itoa (kTier k')
      \<longleftrightarrow> kAlias k = kAlias k' \<and> itoa (kTier k) = itoa (kTier k')"
    by (rule split_last_field) (rule itoa_no_colon)+
  then show ?thesis by (cases k; cases k') (simp add: redisKey_def)
qed

text \<open>The part of Redis the breaker relies on: a read sees the stored value, a committed write is it.\<close>

definition cas_store :: "'r rdb_ops \<Rightarrow> ('r \<Rightarrow> string \<Rightarrow> brecord) \<Rightarrow> bool" where
  "cas_store R view \<longleftrightarrow>
     (\<forall>s key rep s'. rdb_get R s key = (rep, s') \<and> rep \<noteq> RErr \<longrightarrow> decode_reply rep = view s' key)
     \<and> (\<forall>s key r d s'. rdb_tx_set R s key r d = (TxOK, s') \<longrightarrow> view s' key = r)"

lemma redis_update_applied:
  assumes "cas_store R view" and "redis_update R n s k d fn x = (None, x', s')"
  shows "\<exists>s1 st r'. fn (view s1 (redisKey k)) = (st, r', x')
    \<and> view s' (redisKey k) = (if st then r' else view s1 (redisKey k))"
  using assms(2)
proof (induction n arbitrary: s x)
  case 0
  then show ?case by simp
next
  case (Suc n)
  obtain rep s1 where g: "rdb_get R s (redisKey k) = (rep, s1)" by fastforce
  from Suc.prems g have ne: "rep \<noteq> RErr" by (cases rep) auto
  with assms(1) g have v: "decode_reply rep = view s1 (redisKey k)" by (simp add: cas_store_def)
  obtain st r1 x1 where f: "fn (view s1 (redisKey k)) = (st, r1, x1)" by (metis prod_cases3)
  obtain t s2 where t: "rdb_tx_set R s1 (redisKey k) r1 d = (t, s2)" by fastforce
  from ne have step: "redis_update R (Suc n) s k d fn x =
      (if \<not> st then (None, x1, s1)
       else case t of TxOK \<Rightarrow> (None, x1, s2) | TxErr \<Rightarrow> (Some ErrRedis, x1, s2)
            | TxFailed \<Rightarrow> redis_update R n s2 k d fn x1)"
    using v by (cases rep) (simp_all add: g f t split: tx_reply.splits)
  note res = Suc.prems [unfolded step]
  show ?case
  proof (cases "st \<and> t = TxFailed")
    case True
    with res have "redis_update R n s2 k d fn x1 = (None, x', s')" by simp
    then show ?thesis by (rule Suc.IH)
  next
    case False
    with res have "x' = x1" and "view s' (redisKey k) = (if st then r1 else view s1 (redisKey k))"
      using assms(1) t by (auto simp: cas_store_def split: if_splits tx_reply.splits)
    with f show ?thesis by blast
  qed
qed

lemma redis_update_contended:
  assumes "\<And>s. \<exists>s'. rdb_get R s (redisKey k) = (RVal (Some r), s')"
    and "\<And>s. \<exists>s'. rdb_tx_set R s (redisKey k) r' d = (TxFailed, s')"
    and "fn r = (True, r', x')" and "0 < n"
  shows "\<exists>s'. redis_update R n s k d fn x = (Some ErrContended, x', s')"
  using assms(4)
proof (induction n arbitrary: s x)
  case 0
  then show ?case by simp
next
  case (Suc n)
  obtain s1 where g: "rdb_get R s (redisKey k) = (RVal (Some r), s1)" using assms(1) by blast
  obtain s2 where t: "rdb_tx_set R s1 (redisKey k) r' d = (TxFailed, s2)" using assms(2) by blast
  have "redis_update R (Suc n) s k d fn x = redis_update R n s2 k d fn x'"
    by (simp add: g t decode_reply_def assms(3))
  with Suc.IH [of s2 x'] show ?case by (cases n) auto
qed

lemma mem_load_upd [simp]: "mem_load (m(k \<mapsto> r)) k' = (if k' = k then r else mem_load m k')"
  by (simp add: mem_load_def)

lemma local_update_exec:
  assumes "fn (mem_load (bLocal b) k) = (st, r', x)"
  shows "local_update b k fn = (None, x, b\<lparr>bLocal := (if st then (bLocal b)(k \<mapsto> r') else bLocal b)\<rparr>)"
  using assms by (simp add: local_update_def mem_update_def)

definition emitted_one :: "transition option \<Rightarrow> transition list" where
  "emitted_one tr = (case tr of None \<Rightarrow> [] | Some t \<Rightarrow> [t])"

lemma emit_simps [simp]:
  "bEmitted (emit b tr) = bEmitted b @ emitted_one tr"
  "bLocal (emit b tr) = bLocal b"
  "bRemote (emit b tr) = bRemote b"
  by (simp_all add: emit_def emitted_one_def split: option.splits)

text \<open>Without Redis, admitting is exactly one \<open>OAdmit\<close> on the stored record.\<close>

lemma local_admit_exec:
  assumes "bRemote b = None" and "sEnabled cfg"
    and "brk_exec k cfg (eNow e) (OAdmit force) (mem_load (bLocal b) k) = (r', Some adm, tr)"
  shows "fst (breaker_admit R e b k cfg force) = adm"
    and "mem_load (bLocal (snd (breaker_admit R e b k cfg force))) k = r'"
    and "bEmitted (snd (breaker_admit R e b k cfg force)) = bEmitted b @ emitted_one tr"
proof -
  let ?r = "mem_load (bLocal b) k" and ?b = "b\<lparr>bSeen := (bSeen b)(k \<mapsto> (cfg, eNow e))\<rparr>"
  obtain st r1 where f: "admit_fn k cfg (eNow e) force ?r = (st, r1, adm, tr)"
    and r': "r' = (if st then r1 else ?r)" using assms(3) by (auto split: prod.splits)
  have u: "breaker_update R e ?b k cfg (admit_fn k cfg (eNow e) force) (admitted, None) =
      (None, (adm, tr), ?b\<lparr>bLocal := (if st then (bLocal b)(k \<mapsto> r1) else bLocal b)\<rparr>)"
    using assms(1) f by (simp add: breaker_update_def local_update_exec)
  have a: "breaker_admit R e b k cfg force =
      (if rec_state ?r = Closed then (admitted, ?b)
       else if blocks ?r (eNow e) force then (skip_adm ?r, ?b)
       else (adm, emit (?b\<lparr>bLocal := (if st then (bLocal b)(k \<mapsto> r1) else bLocal b)\<rparr>) tr))"
    using assms(1,2) by (simp add: breaker_admit_def breaker_load_def u)
  show "fst (breaker_admit R e b k cfg force) = adm"
    and "mem_load (bLocal (snd (breaker_admit R e b k cfg force))) k = r'"
    and "bEmitted (snd (breaker_admit R e b k cfg force)) = bEmitted b @ emitted_one tr"
    using f r' by (auto simp: a admit_fn_def emitted_one_def split: if_splits)
qed

lemma local_record_exec:
  assumes "bRemote b = None" and "sEnabled cfg"
    and "brk_exec k cfg (eNow e) (ORecord failed probe) (mem_load (bLocal b) k) = (r', None, tr)"
  shows "mem_load (bLocal (breaker_record R e b k cfg failed probe)) k = r'
    \<and> bEmitted (breaker_record R e b k cfg failed probe) = bEmitted b @ emitted_one tr"
proof -
  obtain st r1 where "record_fn k cfg (eNow e) failed probe (mem_load (bLocal b) k) = (st, r1, tr)"
    and "r' = (if st then r1 else mem_load (bLocal b) k)" using assms(3) by (auto split: prod.splits)
  with assms(1,2) show ?thesis
    by (simp add: breaker_record_def breaker_update_def local_update_exec)
qed

section \<open>Properties\<close>

text \<open>Records reachable from the empty one by any operations at any instants under one setting.\<close>

inductive brk_reach :: "bkey \<Rightarrow> settings \<Rightarrow> brecord \<Rightarrow> bool" for k cfg where
  fresh: "brk_reach k cfg zero_record"
| step: "brk_reach k cfg r \<Longrightarrow> brk_reach k cfg (fst (brk_exec k cfg now op r))"

lemma brk_reach_wf: "brk_reach k cfg r \<Longrightarrow> wf_record cfg r"
  by (induction rule: brk_reach.induct) (auto intro: wf_brk_exec)

definition example_key :: bkey where
  "example_key = \<lparr>kAlias = ''gpt'', kTier = 0\<rparr>"

definition example_open :: brecord where
  "example_open = zero_record\<lparr>rState := Some Open, rTrips := 1, rOpenUntil := 200000\<rparr>"

definition enabled_defaults :: settings where
  "enabled_defaults = Defaults\<lparr>sEnabled := True\<rparr>"

lemmas example_defs = example_key_def example_open_def enabled_defaults_def Defaults_def


definition example_burst :: "brk_event list" where
  "example_burst =
     [(enabled_defaults, 100 * second, OAdmit False),
      (enabled_defaults, 101 * second, OAdmit True),
      (enabled_defaults, 102 * second, ORecord True False),
      (enabled_defaults, 129 * second, OAdmit True)]"


text \<open>
  C36: Every update of a stored record is a step of the tier automaton: a closed tier opens only on
  a counted failure, an open one admits a probe only when its cooldown is over or the request is
  forced, a running lease keeps every request out, only the probe's own outcome resolves it, and a
  probe handed back resumes the interrupted cooldown.
\<close>

theorem breaker_refines_automaton:
  "tier_step (unix_milli now) (unix_milli (now + probeLease cfg)) op
     (tier_view_of r) (tier_view_of (fst (brk_exec k cfg now op r)))"
  by (cases op) (simp_all only: admit_refines record_refines abandon_refines)

text \<open>
  In every reachable record the failure counters are consistent, a closed tier's run of
  consecutive failures is below the threshold, and a tier that is not closed has tripped and has
  its counters cleared.
\<close>

theorem breaker_record_invariant:
  assumes "brk_reach k cfg r"
  shows "0 \<le> rWindowFails r \<and> rWindowFails r \<le> rWindowReqs r
    \<and> (rec_state r = Closed \<and> 0 < sFailures cfg \<longrightarrow> rConsecutive r < sFailures cfg)
    \<and> (rec_state r \<noteq> Closed \<longrightarrow> 1 \<le> rTrips r \<and> rConsecutive r = 0 \<and> rWindowReqs r = 0)"
  using brk_reach_wf [OF assms] by (simp add: wf_record_def)

theorem breaker_record_invariant_witness:
  "rWindowFails (fst (brk_exec example_key enabled_defaults second (ORecord True False) zero_record)) = 1
   \<and> rWindowReqs (fst (brk_exec example_key enabled_defaults second (ORecord True False) zero_record)) = 1
   \<and> rConsecutive (fst (brk_exec example_key enabled_defaults second (ORecord True False) zero_record))
     < sFailures enabled_defaults"
proof -
  let ?r = "fst (brk_exec example_key enabled_defaults second (ORecord True False) zero_record)"
  have "brk_reach example_key enabled_defaults ?r" by (intro brk_reach.intros)
  from breaker_record_invariant [OF this] have "rec_state ?r = Closed \<longrightarrow> rConsecutive ?r < 3"
    by (simp add: example_defs)
  moreover have "rec_state ?r = Closed" "rWindowFails ?r = 1" "rWindowReqs ?r = 1"
    by (simp_all add: record_fn_def count_outcome_def Let_def example_defs)
      (simp_all add: zero_record_def)
  ultimately show ?thesis by (simp add: example_defs)
qed

text \<open>
  The cooldown of the n-th trip in a row is the initial cooldown doubled n - 1 times and capped
  at the maximum, with no 64-bit overflow for maxima up to two to the 62 nanoseconds, and the
  stored state is kept longer than the cooldown, a probe's lease and the stable period together.
\<close>

theorem breaker_cooldown_doubles:
  assumes "0 < sCooldown cfg" and "0 < sMaxCooldown cfg" and "sMaxCooldown cfg \<le> 2 ^ 62"
    and "0 \<le> sWindow cfg"
  shows "tCooldown (snd (trip r k cfg now reason))
      = min (sCooldown cfg * 2 ^ nat (next_trips r cfg now - 1)) (sMaxCooldown cfg)
    \<and> tCooldown (snd (trip r k cfg now reason)) + probeLease cfg + sStable cfg < ttl cfg"
proof (intro conjI)
  have t: "tCooldown (snd (trip r k cfg now reason)) = trip_cooldown cfg (next_trips r cfg now)"
    by (simp add: trip_def Let_def)
  show "tCooldown (snd (trip r k cfg now reason))
      = min (sCooldown cfg * 2 ^ nat (next_trips r cfg now - 1)) (sMaxCooldown cfg)"
    by (simp add: t trip_cooldown_closed_form [OF assms(1-3)])
  show "tCooldown (snd (trip r k cfg now reason)) + probeLease cfg + sStable cfg < ttl cfg"
    using trip_cooldown_bounds [OF assms(1-3), of "next_trips r cfg now"] assms(4)
    by (simp add: t ttl_def)
qed

theorem breaker_cooldown_doubles_witness:
  "tCooldown (snd (trip (example_open\<lparr>rState := Some HalfOpen, rTrips := 3\<rparr>) example_key
     enabled_defaults 0 ''probe_failed'')) = 8 * minute"
  using breaker_cooldown_doubles [of enabled_defaults
      "example_open\<lparr>rState := Some HalfOpen, rTrips := 3\<rparr>" example_key 0 "''probe_failed''"]
  by (simp add: example_defs next_trips_def)

text \<open>
  A tier that fails as many times in a row as its threshold is open, whenever the failures
  arrive: from a closed record within the invariant, the missing number of failures or more leave
  the tier open.
\<close>

theorem breaker_failures_open:
  assumes "brk_reach k cfg r" and "rec_state r = Closed" and "0 < sFailures cfg"
    and "sFailures cfg - rConsecutive r \<le> int (length ts)"
  shows "rec_state (fst (brk_run k (failures cfg ts) r)) = Open"
  using failures_open [OF brk_reach_wf [OF assms(1)] assms(2-4)] .

theorem breaker_failures_open_witness:
  "rec_state (fst (brk_run example_key (failures enabled_defaults [1, 2, 3 * minute]) zero_record)) = Open"
proof -
  have "rConsecutive zero_record = 0" by (simp add: zero_record_def)
  then show ?thesis
    by (intro breaker_failures_open brk_reach.fresh) (simp_all add: example_defs)
qed

text \<open>
  An outcome recorded through the shared store is never lost to a concurrent replica: when the
  update returns without an error, the stored record is the closure's result on the record the
  server held at that moment.
\<close>

theorem breaker_update_not_lost:
  assumes "cas_store R view"
    and "redis_update R n s k d (record_fn k cfg now failed probe) None = (None, tr, s')"
  shows "\<exists>s1. brk_exec k cfg now (ORecord failed probe) (view s1 (redisKey k))
    = (view s' (redisKey k), None, tr)"
proof -
  from redis_update_applied [OF assms] obtain s1 st r' where
    "record_fn k cfg now failed probe (view s1 (redisKey k)) = (st, r', tr)"
    "view s' (redisKey k) = (if st then r' else view s1 (redisKey k))" by blast
  then have "brk_exec k cfg now (ORecord failed probe) (view s1 (redisKey k))
      = (view s' (redisKey k), None, tr)" by simp
  then show ?thesis ..
qed

text \<open>A server with one stored record per key that loses its first race.\<close>

type_synonym racy_server = "nat \<times> (string \<Rightarrow> brecord)"

definition racy_ops :: "racy_server rdb_ops" where
  "racy_ops =
     \<lparr>rdb_get = (\<lambda>s key. (RVal (Some (snd s key)), s)),
      rdb_tx_set = (\<lambda>(n, m) key r d.
        case n of 0 \<Rightarrow> (TxOK, (0, m(key := r))) | Suc n' \<Rightarrow> (TxFailed, (n', m))),
      rdb_del = (\<lambda>(n, m) key. (True, (n, m(key := zero_record))))\<rparr>"

lemma racy_ops_cas: "cas_store racy_ops (\<lambda>s. snd s)"
  by (auto simp: cas_store_def racy_ops_def decode_reply_def split: prod.splits nat.splits)

theorem breaker_update_not_lost_witness:
  "\<exists>s1 :: racy_server. brk_exec example_key enabled_defaults second (ORecord True False) (snd s1 (redisKey example_key))
     = (count_outcome enabled_defaults second True zero_record, None, None)"
proof -
  let ?s = "(1, \<lambda>_. zero_record) :: racy_server" and ?c = "count_outcome enabled_defaults second True zero_record"
  have "redis_update racy_ops 5 ?s example_key 0
      (record_fn example_key enabled_defaults second True False) None
    = (None, None, (0, (\<lambda>_. zero_record)(redisKey example_key := ?c)))"
    by (simp add: racy_ops_def decode_reply_def record_fn_def Let_def eval_nat_numeral)
      (simp add: count_outcome_def Let_def example_defs zero_record_def)
  from breaker_update_not_lost [OF racy_ops_cas this]
  show ?thesis by (simp del: brk_exec.simps split_paired_Ex)
qed

text \<open>
  A replica that loses the race for a record too many times in a row does not store the
  probe's failure, but still reports the opening to the observer.
\<close>

theorem breaker_contended_still_reported:
  assumes "\<And>s. \<exists>s'. rdb_get R s (redisKey k) = (RVal (Some r), s')"
    and "\<And>s r' d. \<exists>s'. rdb_tx_set R s (redisKey k) r' d = (TxFailed, s')"
    and "rec_state r = HalfOpen" and "sEnabled cfg"
    and "bRemote b = Some s" and "remote_due (bDownTill b) (eWall e)"
  shows "bEmitted (breaker_record R e b k cfg True True)
      = bEmitted b @ [snd (trip r k cfg (eNow e) ''probe_failed'')]
    \<and> bLocal (breaker_record R e b k cfg True True) = bLocal b"
proof -
  obtain r' t where t: "trip r k cfg (eNow e) ''probe_failed'' = (r', t)" by fastforce
  have f: "record_fn k cfg (eNow e) True True r = (True, r', Some t)"
    using assms(3) t by (simp add: record_fn_def)
  obtain s' where u: "redis_update R updateAttempts s k (ttl cfg)
      (record_fn k cfg (eNow e) True True) None = (Some ErrContended, Some t, s')"
    using redis_update_contended [where n = updateAttempts and k = k and R = R
        and fn = "record_fn k cfg (eNow e) True True", OF assms(1,2) f] updateAttempts_def
    by (metis zero_less_numeral)
  show ?thesis
    using assms(4-6) t by (simp add: breaker_record_def breaker_update_def u emitted_one_def)
qed

definition lost_ops :: "unit rdb_ops" where
  "lost_ops =
     \<lparr>rdb_get = (\<lambda>s key. (RVal (Some (example_open\<lparr>rState := Some HalfOpen\<rparr>)), s)),
      rdb_tx_set = (\<lambda>s key r d. (TxFailed, s)), rdb_del = (\<lambda>s key. (True, s))\<rparr>"

definition example_breaker :: "unit breaker" where
  "example_breaker =
     \<lparr>bLocal = Map.empty, bRemote = Some (), bDownTill = None, bSeen = Map.empty, bEmitted = []\<rparr>"

definition example_env :: env where
  "example_env = \<lparr>eNow = 300 * second, eWall = 300 * second, eCtxDone = False\<rparr>"

theorem breaker_contended_still_reported_witness:
  "map tTo (bEmitted (breaker_record lost_ops example_env example_breaker example_key
     enabled_defaults True True)) = [Open]
   \<and> bLocal (breaker_record lost_ops example_env example_breaker example_key enabled_defaults True True)
     = Map.empty"
proof -
  let ?b = "breaker_record lost_ops example_env example_breaker example_key enabled_defaults True True"
  have "bEmitted ?b = bEmitted example_breaker @ [snd (trip (example_open\<lparr>rState := Some HalfOpen\<rparr>)
        example_key enabled_defaults (eNow example_env) ''probe_failed'')]
      \<and> bLocal ?b = bLocal example_breaker"
    by (rule breaker_contended_still_reported)
      (simp_all add: lost_ops_def example_breaker_def remote_due_def example_defs)
  then show ?thesis by (simp add: example_breaker_def trip_def Let_def)
qed

end
