(* ===== verification/Language.thy ===== *)
theory Language
  imports GoStrings
begin

text \<open>
  Language tags of the audio routes (\<open>internal/audio/language.go\<close>): the canonical spelling of a
  BCP-47 tag, the look-up of a tag in an operator's map, the language a voice name carries, and the
  Whisper language table.
\<close>

section \<open>Model\<close>

definition isLetters :: "string \<Rightarrow> bool" where
  "isLetters s = list_all is_letter s"

text \<open>The spelling of one subtag; \<open>first\<close> is the language subtag.\<close>

definition canonical_part :: "bool \<Rightarrow> string \<Rightarrow> string" where
  "canonical_part first p =
     (if first then to_lower p
      else if length p = 4 \<and> isLetters p then to_upper (take 1 p) @ to_lower (drop 1 p)
      else if length p = 2 \<and> isLetters p \<or> length p = 3 \<and> \<not> isLetters p then to_upper p
      else to_lower p)"

fun canonical_parts :: "string list \<Rightarrow> string list" where
  "canonical_parts [] = []"
| "canonical_parts (p # ps) = canonical_part True p # map (canonical_part False) ps"

definition CanonicalLanguage :: "string \<Rightarrow> string" where
  "CanonicalLanguage tag0 =
     (let tag = trim_space (replace_char CHR ''_'' CHR ''-'' tag0)
      in if tag = [] then []
         else join_on ''-'' (canonical_parts (split_on CHR ''-'' tag)))"

definition PrimaryLanguage :: "string \<Rightarrow> string" where
  "PrimaryLanguage tag = fst (cut_at CHR ''-'' (CanonicalLanguage tag))"

text \<open>
  The loop over the map: an exact match returns at once, a match on the primary language is
  remembered. Go walks a map in an unspecified order, so the map is the list of its entries in the
  order of one walk.
\<close>

fun for_language_loop :: "string \<Rightarrow> string \<Rightarrow> 'v option \<Rightarrow> (string \<times> 'v) list \<Rightarrow> 'v option" where
  "for_language_loop want primary fallback [] = fallback"
| "for_language_loop want primary fallback ((k, v) # m) =
     (if CanonicalLanguage k = want then Some v
      else if CanonicalLanguage k = primary then for_language_loop want primary (Some v) m
      else for_language_loop want primary fallback m)"

definition ForLanguage :: "(string \<times> 'v) list \<Rightarrow> string \<Rightarrow> 'v option" where
  "ForLanguage m tag =
     (if m = [] \<or> tag = [] then None
      else for_language_loop (CanonicalLanguage tag) (PrimaryLanguage tag) None m)"

definition VoiceLanguage :: "string \<Rightarrow> string" where
  "VoiceLanguage vid =
     (case split_n 3 CHR ''-'' (replace_char CHR ''_'' CHR ''-'' vid) of
        [a, b, _] \<Rightarrow>
          if length a < 2 \<or> length a > 3 \<or> \<not> isLetters a \<or> length b \<noteq> 2 \<or> \<not> isLetters b then []
          else CanonicalLanguage (a @ ''-'' @ b)
      | _ \<Rightarrow> [])"

definition whisperLanguageNames :: "(string \<times> string) list" where
  "whisperLanguageNames = [
    (''afrikaans'', ''af''), (''albanian'', ''sq''), (''amharic'', ''am''), (''arabic'', ''ar''),
    (''armenian'', ''hy''), (''assamese'', ''as''), (''azerbaijani'', ''az''), (''bashkir'', ''ba''),
    (''basque'', ''eu''), (''belarusian'', ''be''), (''bengali'', ''bn''), (''bosnian'', ''bs''),
    (''breton'', ''br''), (''bulgarian'', ''bg''), (''burmese'', ''my''), (''cantonese'', ''yue''),
    (''castilian'', ''es''), (''catalan'', ''ca''), (''chinese'', ''zh''), (''croatian'', ''hr''),
    (''czech'', ''cs''), (''danish'', ''da''), (''dutch'', ''nl''), (''english'', ''en''),
    (''estonian'', ''et''), (''faroese'', ''fo''), (''finnish'', ''fi''), (''flemish'', ''nl''),
    (''french'', ''fr''), (''galician'', ''gl''), (''georgian'', ''ka''), (''german'', ''de''),
    (''greek'', ''el''), (''gujarati'', ''gu''), (''haitian'', ''ht''), (''haitian creole'', ''ht''),
    (''hausa'', ''ha''), (''hawaiian'', ''haw''), (''hebrew'', ''he''), (''hindi'', ''hi''),
    (''hungarian'', ''hu''), (''icelandic'', ''is''), (''indonesian'', ''id''), (''italian'', ''it''),
    (''japanese'', ''ja''), (''javanese'', ''jv''), (''kannada'', ''kn''), (''kazakh'', ''kk''),
    (''khmer'', ''km''), (''korean'', ''ko''), (''lao'', ''lo''), (''latin'', ''la''),
    (''latvian'', ''lv''), (''letzeburgesch'', ''lb''), (''lingala'', ''ln''), (''lithuanian'', ''lt''),
    (''luxembourgish'', ''lb''), (''macedonian'', ''mk''), (''malagasy'', ''mg''), (''malay'', ''ms''),
    (''malayalam'', ''ml''), (''maltese'', ''mt''), (''mandarin'', ''zh''), (''maori'', ''mi''),
    (''marathi'', ''mr''), (''moldavian'', ''ro''), (''moldovan'', ''ro''), (''mongolian'', ''mn''),
    (''myanmar'', ''my''), (''nepali'', ''ne''), (''norwegian'', ''no''), (''nynorsk'', ''nn''),
    (''occitan'', ''oc''), (''panjabi'', ''pa''), (''pashto'', ''ps''), (''persian'', ''fa''),
    (''polish'', ''pl''), (''portuguese'', ''pt''), (''punjabi'', ''pa''), (''pushto'', ''ps''),
    (''romanian'', ''ro''), (''russian'', ''ru''), (''sanskrit'', ''sa''), (''serbian'', ''sr''),
    (''shona'', ''sn''), (''sindhi'', ''sd''), (''sinhala'', ''si''), (''sinhalese'', ''si''),
    (''slovak'', ''sk''), (''slovenian'', ''sl''), (''somali'', ''so''), (''spanish'', ''es''),
    (''sundanese'', ''su''), (''swahili'', ''sw''), (''swedish'', ''sv''), (''tagalog'', ''tl''),
    (''tajik'', ''tg''), (''tamil'', ''ta''), (''tatar'', ''tt''), (''telugu'', ''te''),
    (''thai'', ''th''), (''tibetan'', ''bo''), (''turkish'', ''tr''), (''turkmen'', ''tk''),
    (''ukrainian'', ''uk''), (''urdu'', ''ur''), (''uzbek'', ''uz''), (''valencian'', ''ca''),
    (''vietnamese'', ''vi''), (''welsh'', ''cy''), (''yiddish'', ''yi''), (''yoruba'', ''yo'')
   ]"

definition LanguageFromName :: "string \<Rightarrow> string" where
  "LanguageFromName name =
     (let n = to_lower (trim_space name)
      in if n = [] then []
         else case map_of whisperLanguageNames n of
                Some code \<Rightarrow> code
              | None \<Rightarrow> if length n \<le> 3 \<or> CHR ''-'' \<in> set n then CanonicalLanguage n else [])"

definition TelephonyLanguages :: "string list" where
  "TelephonyLanguages = [''en'', ''ru'', ''uk'', ''es'', ''de'', ''fr'', ''it'', ''pt'', ''pl'', ''nl'',
     ''tr'', ''ar'', ''zh'', ''ja'', ''ko'', ''hi'', ''cs'', ''sv'', ''da'', ''fi'',
     ''el'', ''ro'', ''hu'', ''id'', ''vi'']"


section \<open>The canonical spelling\<close>

lemma isLetters_lower [simp]: "isLetters (to_lower p) = isLetters p"
  by (simp add: isLetters_def list.pred_map comp_def)

lemma isLetters_upper [simp]: "isLetters (to_upper p) = isLetters p"
  by (simp add: isLetters_def list.pred_map comp_def)

lemma isLetters_append [simp]: "isLetters (p @ q) \<longleftrightarrow> isLetters p \<and> isLetters q"
  by (simp add: isLetters_def)

lemma isLetters_title [simp]:
  "isLetters (to_upper (take n p) @ to_lower (drop n p)) = isLetters p"
  by (metis append_take_drop_id isLetters_append isLetters_lower isLetters_upper)

lemma canonical_part_length [simp]: "length (canonical_part b p) = length p"
  by (simp add: canonical_part_def)

lemma canonical_part_idem: "canonical_part b (canonical_part b p) = canonical_part b p"
proof (cases "\<not> b \<and> length p = 4 \<and> isLetters p")
  case True
  then have e: "canonical_part b p = to_upper (take 1 p) @ to_lower (drop 1 p)"
    by (simp add: canonical_part_def)
  have "take 1 (to_upper (take 1 p) @ to_lower (drop 1 p)) = to_upper (take 1 p)"
    and "drop 1 (to_upper (take 1 p) @ to_lower (drop 1 p)) = to_lower (drop 1 p)"
    using True by simp_all
  moreover have "length (canonical_part b p) = 4" using True by simp
  moreover have "isLetters (canonical_part b p)" using True isLetters_title unfolding e by blast
  ultimately show ?thesis using True unfolding e canonical_part_def by simp
next
  case False
  then show ?thesis by (auto simp: canonical_part_def comp_def)
qed

lemma canonical_parts_idem: "canonical_parts (canonical_parts ps) = canonical_parts ps"
  by (cases ps) (auto simp: canonical_part_idem)

lemma canonical_parts_ne [simp]: "canonical_parts ps = [] \<longleftrightarrow> ps = []"
  by (cases ps) auto

lemma canonical_part_set:
  assumes "c \<in> set (canonical_part b p)"
  shows "\<exists>d \<in> set p. c = lower_char d \<or> c = upper_char d"
  using assms
  by (auto simp: canonical_part_def split: if_splits dest: in_set_takeD in_set_dropD)

lemma canonical_part_notin:
  assumes "\<not> is_letter c" and "c \<notin> set p"
  shows "c \<notin> set (canonical_part b p)"
proof
  assume "c \<in> set (canonical_part b p)"
  then obtain d where "d \<in> set p" "c = lower_char d \<or> c = upper_char d"
    using canonical_part_set by blast
  then show False using assms lower_char_eq [of c d] upper_char_eq [of c d] by metis
qed

lemma canonical_parts_notin:
  assumes "\<not> is_letter c" and "\<forall>p \<in> set ps. c \<notin> set p"
  shows "\<forall>p \<in> set (canonical_parts ps). c \<notin> set p"
  using assms by (cases ps) (auto dest: canonical_part_notin)

lemma dash_us_not_letter [simp]: "\<not> is_letter CHR ''-''" "\<not> is_letter CHR ''_''"
  by (simp_all add: char_class_defs)

text \<open>Case mapping keeps a byte at each position, up to case: white space stays where it was.\<close>

definition case_of :: "char \<Rightarrow> char \<Rightarrow> bool" where
  "case_of c d \<longleftrightarrow> c = d \<or> c = lower_char d \<or> c = upper_char d"

lemma case_of_space: "case_of c d \<Longrightarrow> is_space c = is_space d"
  by (auto simp: case_of_def)

lemma list_all2_map1: "(\<And>x. R (f x) x) \<Longrightarrow> list_all2 R (map f xs) xs"
  by (induction xs) auto

lemma canonical_part_case_of: "list_all2 case_of (canonical_part b p) p"
proof -
  have l: "list_all2 case_of (to_lower q) q" and u: "list_all2 case_of (to_upper q) q" for q
    by (rule list_all2_map1, simp add: case_of_def)+
  have "list_all2 case_of (to_upper (take 1 p) @ to_lower (drop 1 p)) (take 1 p @ drop 1 p)"
    using l u by (rule_tac list_all2_appendI) auto
  then show ?thesis using l u by (simp add: canonical_part_def)
qed

lemma join_case_of:
  assumes "list_all2 (list_all2 case_of) ps qs"
  shows "list_all2 case_of (join_on sep ps) (join_on sep qs)"
  using assms
proof (induction sep ps arbitrary: qs rule: join_on.induct)
  case (1 sep)
  then show ?case by simp
next
  case (2 sep p)
  then obtain q where "qs = [q]" by (auto simp: list_all2_Cons1)
  with 2 show ?case by simp
next
  case (3 sep p p' ps)
  then obtain q q' qs' where q: "qs = q # q' # qs'" by (auto simp: list_all2_Cons1)
  moreover have "list_all2 case_of sep sep" by (rule list_all2_refl) (simp add: case_of_def)
  ultimately show ?case using 3 by (auto intro!: list_all2_appendI)
qed

lemma canonical_parts_case_of: "list_all2 (list_all2 case_of) (canonical_parts ps) ps"
proof (cases ps)
  case (Cons p qs)
  then show ?thesis
    by (simp add: canonical_part_case_of)
      (rule list_all2_map1, rule canonical_part_case_of)
qed simp

text \<open>The body of the function on a tag that is already trimmed and dashed.\<close>

definition canonical_body :: "string \<Rightarrow> string" where
  "canonical_body tag = join_on ''-'' (canonical_parts (split_on CHR ''-'' tag))"

lemma canonical_body_case_of: "list_all2 case_of (canonical_body tag) tag"
  using join_case_of [OF canonical_parts_case_of, of "''-''" "split_on CHR ''-'' tag"]
  by (simp add: canonical_body_def join_split)

lemma canonical_body_split:
  "split_on CHR ''-'' (canonical_body tag) = canonical_parts (split_on CHR ''-'' tag)"
  unfolding canonical_body_def
  by (rule split_join) (simp, rule canonical_parts_notin, simp, blast dest: split_on_notin)

lemma canonical_body_idem: "canonical_body (canonical_body tag) = canonical_body tag"
  unfolding canonical_body_def [of "canonical_body tag"] canonical_body_split canonical_parts_idem
  by (simp add: canonical_body_def)

lemma list_all2_ends:
  assumes "list_all2 R xs ys" and "ys \<noteq> []"
  shows "R (hd xs) (hd ys)" and "R (last xs) (last ys)" and "xs \<noteq> []"
  using assms by (induction rule: list_all2_induct) auto

lemma canonical_body_trimmed:
  assumes "tag \<noteq> []" and "\<not> is_space (hd tag)" and "\<not> is_space (last tag)"
  shows "trim_space (canonical_body tag) = canonical_body tag"
  using list_all2_ends [OF canonical_body_case_of assms(1)] assms
  by (intro trim_space_id) (auto dest!: case_of_space)

lemma canonical_body_no_underscore:
  assumes "CHR ''_'' \<notin> set tag"
  shows "CHR ''_'' \<notin> set (canonical_body tag)"
proof -
  have "\<forall>p \<in> set (split_on CHR ''-'' tag). set p \<subseteq> set tag"
    using split_on_subset by blast
  then have "\<forall>p \<in> set (split_on CHR ''-'' tag). CHR ''_'' \<notin> set p" using assms by blast
  then have "\<forall>p \<in> set (canonical_parts (split_on CHR ''-'' tag)). CHR ''_'' \<notin> set p"
    by (rule canonical_parts_notin [rotated]) simp
  then show ?thesis unfolding canonical_body_def using set_join_on by fastforce
qed

definition cleaned :: "string \<Rightarrow> string" where
  "cleaned tag = trim_space (replace_char CHR ''_'' CHR ''-'' tag)"

lemma CanonicalLanguage_alt:
  "CanonicalLanguage tag = (if cleaned tag = [] then [] else canonical_body (cleaned tag))"
  by (simp add: CanonicalLanguage_def cleaned_def canonical_body_def Let_def)

lemma cleaned_no_underscore: "CHR ''_'' \<notin> set (cleaned tag)"
proof -
  have "CHR ''_'' \<notin> set (replace_char CHR ''_'' CHR ''-'' tag)" by (rule replace_char_gone) simp
  then show ?thesis using set_trim_space unfolding cleaned_def by blast
qed

lemma cleaned_canonical: "cleaned (CanonicalLanguage tag) = CanonicalLanguage tag"
proof (cases "cleaned tag = []")
  case True
  then show ?thesis
    by (simp add: CanonicalLanguage_alt cleaned_def replace_char_def trim_space_id)
next
  case False
  have "CHR ''_'' \<notin> set (canonical_body (cleaned tag))"
    by (rule canonical_body_no_underscore [OF cleaned_no_underscore])
  moreover have "trim_space (canonical_body (cleaned tag)) = canonical_body (cleaned tag)"
    using False trim_space_ends unfolding cleaned_def by (intro canonical_body_trimmed) auto
  ultimately show ?thesis using False
    by (simp add: CanonicalLanguage_alt cleaned_def replace_char_notin)
qed

lemma CanonicalLanguage_idem [simp]: "CanonicalLanguage (CanonicalLanguage tag) = CanonicalLanguage tag"
proof (cases "cleaned tag = []")
  case True
  then show ?thesis by (simp add: CanonicalLanguage_alt cleaned_def replace_char_def trim_space_id)
next
  case False
  then have "CanonicalLanguage tag \<noteq> []"
    using list_all2_ends(3) [OF canonical_body_case_of] by (simp add: CanonicalLanguage_alt)
  then have "CanonicalLanguage (CanonicalLanguage tag) = canonical_body (CanonicalLanguage tag)"
    by (simp add: CanonicalLanguage_alt [of "CanonicalLanguage tag"] cleaned_canonical)
  then show ?thesis using False by (simp add: CanonicalLanguage_alt canonical_body_idem)
qed

section \<open>Looking a language up\<close>

text \<open>The entries under their canonical tag.\<close>

definition canonical_map :: "(string \<times> 'v) list \<Rightarrow> string \<rightharpoonup> 'v" where
  "canonical_map m = map_of (map (\<lambda>(k, v). (CanonicalLanguage k, v)) m)"

definition one_per_language :: "(string \<times> 'v) list \<Rightarrow> bool" where
  "one_per_language m \<longleftrightarrow> distinct (map (\<lambda>e. CanonicalLanguage (fst e)) m)"

lemma canonical_map_simps [simp]:
  "canonical_map [] = Map.empty"
  "canonical_map ((k, v) # m) = (canonical_map m)(CanonicalLanguage k \<mapsto> v)"
  by (simp_all add: canonical_map_def)

lemma canonical_map_None:
  "canonical_map m t = None \<longleftrightarrow> t \<notin> (\<lambda>e. CanonicalLanguage (fst e)) ` set m"
  unfolding canonical_map_def map_of_eq_None_iff by (auto simp: image_image split_beta)

lemma for_language_loop_spec:
  assumes "one_per_language m" and "fallback \<noteq> None \<longrightarrow> canonical_map m primary = None"
  shows "for_language_loop want primary fallback m
    = (case canonical_map m want of
         Some v \<Rightarrow> Some v
       | None \<Rightarrow> (case canonical_map m primary of Some v \<Rightarrow> Some v | None \<Rightarrow> fallback))"
  using assms
proof (induction want primary fallback m rule: for_language_loop.induct)
  case (1 want primary fallback)
  show ?case by simp
next
  case (2 want primary fallback k v m)
  have d: "one_per_language m" "canonical_map m (CanonicalLanguage k) = None"
    using 2(3) by (auto simp: one_per_language_def canonical_map_None)
  consider (hit) "CanonicalLanguage k = want"
    | (prim) "CanonicalLanguage k \<noteq> want" "CanonicalLanguage k = primary"
    | (other) "CanonicalLanguage k \<noteq> want" "CanonicalLanguage k \<noteq> primary" by blast
  then show ?case
  proof cases
    case hit
    then show ?thesis by simp
  next
    case prim
    with 2(1) [OF prim d(1)] d(2) show ?thesis by (simp split: option.split)
  next
    case other
    with 2(2) [OF other d(1)] 2(4) show ?thesis by (simp split: option.split)
  qed
qed

lemma ForLanguage_spec:
  assumes "one_per_language m" and "tag \<noteq> []"
  shows "ForLanguage m tag
    = (case canonical_map m (CanonicalLanguage tag) of
         Some v \<Rightarrow> Some v | None \<Rightarrow> canonical_map m (PrimaryLanguage tag))"
  using assms for_language_loop_spec [OF assms(1), of None]
  by (auto simp: ForLanguage_def canonical_map_def split: option.splits)

lemma canonical_map_perm:
  assumes "one_per_language m" and "mset m' = mset m"
  shows "canonical_map m' = canonical_map m" and "one_per_language m'"
proof -
  let ?c = "\<lambda>(k, v). (CanonicalLanguage k, v)"
  have keys: "map (\<lambda>e. CanonicalLanguage (fst e)) xs = map fst (map ?c xs)" for xs :: "(string \<times> 'v) list"
    by auto
  have d: "distinct (map fst (map ?c m))" using assms(1) keys unfolding one_per_language_def by metis
  have "mset (map fst (map ?c m')) = mset (map fst (map ?c m))" using assms(2) by (metis mset_map)
  with d have d': "distinct (map fst (map ?c m'))" by (metis mset_eq_imp_distinct_iff)
  then show "one_per_language m'" using keys unfolding one_per_language_def by metis
  have "set (map ?c m') = set (map ?c m)" using assms(2) by (metis mset_map set_mset_mset)
  with d d' show "canonical_map m' = canonical_map m" unfolding canonical_map_def
    by (simp only: map_of_inject_set)
qed

section \<open>Names and voices\<close>

lemma whisper_codes_canonical:
  "list_all (\<lambda>e. CanonicalLanguage (snd e) = snd e) whisperLanguageNames"
  by code_simp

lemma LanguageFromName_canonical: "CanonicalLanguage (LanguageFromName name) = LanguageFromName name"
proof -
  have nil: "CanonicalLanguage [] = []" by code_simp
  have "CanonicalLanguage code = code" if "map_of whisperLanguageNames n = Some code" for n code
    using map_of_SomeD [OF that] whisper_codes_canonical by (force simp: list_all_iff)
  then show ?thesis by (simp add: LanguageFromName_def Let_def nil split: option.split)
qed

lemma VoiceLanguage_canonical: "CanonicalLanguage (VoiceLanguage vid) = VoiceLanguage vid"
proof -
  have nil: "CanonicalLanguage [] = []" by code_simp
  then show ?thesis by (simp add: VoiceLanguage_def split: list.split)
qed

section \<open>Properties\<close>

text \<open>
  Every language the package answers is spelled canonically: the canonical spelling is a fixed
  point, and so are the language read from a voice name and the one a Whisper provider reports by
  name. Tags from a configuration, a request and any provider therefore compare as strings.
\<close>
theorem languages_are_canonical:
  "CanonicalLanguage (CanonicalLanguage tag) = CanonicalLanguage tag
   \<and> CanonicalLanguage (VoiceLanguage voice) = VoiceLanguage voice
   \<and> CanonicalLanguage (LanguageFromName name) = LanguageFromName name"
  by (simp add: VoiceLanguage_canonical LanguageFromName_canonical)

text \<open>
  In a map with one entry per language, as the option parser enforces, the look-up does not
  depend on the order in which Go walks the map: an entry for the exact tag wins over one for the
  bare language, and without either there is no answer.
\<close>
theorem for_language_order_independent:
  assumes "one_per_language m" and "mset walk = mset m" and "tag \<noteq> []"
  shows "ForLanguage walk tag
    = (case canonical_map m (CanonicalLanguage tag) of
         Some v \<Rightarrow> Some v | None \<Rightarrow> canonical_map m (PrimaryLanguage tag))"
  using ForLanguage_spec [OF canonical_map_perm(2) [OF assms(1,2)] assms(3)]
  unfolding canonical_map_perm(1) [OF assms(1,2)] .

theorem for_language_order_independent_witness:
  "ForLanguage [(''en_us'', 1 :: int), (''EN'', 2)] ''en-US'' = Some 1
   \<and> ForLanguage [(''en_us'', 1 :: int), (''EN'', 2)] ''en-gb'' = Some 2
   \<and> ForLanguage [(''EN'', 2 :: int), (''en_us'', 1)] ''en-US'' = Some 1"
proof -
  let ?m = "[(''en_us'', 1 :: int), (''EN'', 2)]"
  let ?w = "[(''EN'', 2 :: int), (''en_us'', 1)]"
  have one: "one_per_language ?m" by code_simp
  have p: "mset ?m = mset ?m" "mset ?w = mset ?m" by simp_all
  have c: "canonical_map ?m (CanonicalLanguage ''en-US'') = Some 1"
    "canonical_map ?m (CanonicalLanguage ''en-gb'') = None"
    "canonical_map ?m (PrimaryLanguage ''en-gb'') = Some 2" by code_simp+
  show ?thesis
    using for_language_order_independent [OF one p(1), of "''en-US''"]
      for_language_order_independent [OF one p(1), of "''en-gb''"]
      for_language_order_independent [OF one p(2), of "''en-US''"]
    by (simp only: c option.case) simp
qed

end
