(* ===== verification/LookupCache.thy ===== *)
theory LookupCache
  imports Prelude
begin

text \<open>
  The lookup cache in front of the database (\<open>internal/lookupcache\<close>): fresh answers, stale answers
  while the database cannot answer, eviction on a definitive miss, purges, and the single flight
  that concurrent requests for one key share. \<open>Get\<close> is split where it releases the mutex, so
  requests, loads and purges interleave as explicit sequences of steps.
\<close>

section \<open>Model\<close>

abbreviation backoff :: duration where "backoff \<equiv> 5 * second"

record lc_options =
  opt_ttl :: duration
  opt_max_stale :: duration

record 'v lc_entry =
  ent_v :: 'v
  ent_at :: gotime

text \<open>\<open>quietUntil\<close> is \<open>None\<close> for the zero time, which no clock reading is before.\<close>

record 'v lcache =
  lc_entries :: "string \<rightharpoonup> 'v lc_entry"
  lc_gen :: nat
  lc_quiet :: "gotime option"

text \<open>What a load fails with: the database's definitive answer, or its inability to answer.\<close>

datatype lc_error = Miss string | LoadFailed string | Canceled

type_synonym 'v lc_result = "lc_error + 'v"

definition lc_new :: "'v lcache" where
  "lc_new = \<lparr>lc_entries = Map.empty, lc_gen = 0, lc_quiet = None\<rparr>"

text \<open>
  \<open>Get\<close> up to its call of the flight group: the answer is served, or the request asks, remembering
  the generation it saw and the stale answer it may fall back on.
\<close>

datatype 'v lc_begun = Served 'v | Ask nat "'v lc_entry option"

definition lc_quiet_now :: "'v lcache \<Rightarrow> gotime \<Rightarrow> bool" where
  "lc_quiet_now c now = (case lc_quiet c of None \<Rightarrow> False | Some q \<Rightarrow> now < q)"

definition lc_begin :: "lc_options \<Rightarrow> gotime \<Rightarrow> string \<Rightarrow> 'v lcache \<Rightarrow> 'v lc_begun" where
  "lc_begin opts now key c =
     (case lc_entries c key of
        None \<Rightarrow> Ask (lc_gen c) None
      | Some e \<Rightarrow>
          if now - ent_at e < opt_ttl opts then Served (ent_v e)
          else if now - ent_at e < opt_max_stale opts
            then (if lc_quiet_now c now then Served (ent_v e) else Ask (lc_gen c) (Some e))
          else Ask (lc_gen c) None)"

text \<open>The body of the flight after \<open>load\<close>: store a good answer of the same generation, evict on a miss.\<close>

definition lc_store :: "string \<Rightarrow> gotime \<Rightarrow> nat \<Rightarrow> 'v lc_result \<Rightarrow> 'v lcache \<Rightarrow> 'v lcache" where
  "lc_store key now gen res c =
     (case res of
        Inr v \<Rightarrow> if lc_gen c = gen
                 then c\<lparr>lc_entries := (lc_entries c)(key \<mapsto> \<lparr>ent_v = v, ent_at = now\<rparr>)\<rparr> else c
      | Inl (Miss _) \<Rightarrow> c\<lparr>lc_entries := (lc_entries c)(key := None)\<rparr>
      | Inl _ \<Rightarrow> c)"

text \<open>\<open>Get\<close> after the flight answered: an error that is no miss falls back on the usable stale answer.\<close>

definition lc_return ::
  "gotime \<Rightarrow> nat \<Rightarrow> 'v lc_entry option \<Rightarrow> 'v lc_result \<Rightarrow> 'v lcache \<Rightarrow> 'v lcache \<times> 'v lc_result" where
  "lc_return now2 gen usable res c =
     (case res of
        Inr v \<Rightarrow> (c, res)
      | Inl (Miss _) \<Rightarrow> (c, res)
      | Inl _ \<Rightarrow>
          (case usable of
             None \<Rightarrow> (c, res)
           | Some e \<Rightarrow> if lc_gen c \<noteq> gen then (c, res)
                       else (c\<lparr>lc_quiet := Some (now2 + backoff)\<rparr>, Inr (ent_v e))))"

definition lc_purge :: "'v lcache \<Rightarrow> 'v lcache" where
  "lc_purge c = \<lparr>lc_entries = Map.empty, lc_gen = Suc (lc_gen c), lc_quiet = None\<rparr>"

text \<open>A request with no other one around: begin, load, store, return.\<close>

definition lc_get ::
  "lc_options \<Rightarrow> gotime \<Rightarrow> gotime \<Rightarrow> string \<Rightarrow> 'v lc_result \<Rightarrow> 'v lcache \<Rightarrow> 'v lcache \<times> 'v lc_result" where
  "lc_get opts now now2 key res c =
     (case lc_begin opts now key c of
        Served v \<Rightarrow> (c, Inr v)
      | Ask gen usable \<Rightarrow> lc_return now2 gen usable res (lc_store key now gen res c))"

text \<open>
  The concurrent system: the cache, the flights in the air (the first caller's clock reading and
  generation), and the requests waiting for one, each until the flight of its key delivers.
\<close>

record flight =
  fl_at :: gotime
  fl_gen :: nat

record 'v waiter =
  w_key :: string
  w_at :: gotime
  w_gen :: nat
  w_usable :: "'v lc_entry option"
  w_result :: "'v lc_result option"

record 'v lc_sys =
  sys_cache :: "'v lcache"
  sys_flights :: "string \<rightharpoonup> flight"
  sys_waiting :: "nat \<rightharpoonup> 'v waiter"

datatype 'v lc_event =
    EvGet nat string gotime
  | EvLoaded string "'v lc_result"
  | EvReturn nat gotime
  | EvCancel nat
  | EvPurge

definition sys_new :: "'v lc_sys" where
  "sys_new = \<lparr>sys_cache = lc_new, sys_flights = Map.empty, sys_waiting = Map.empty\<rparr>"

definition join_flight :: "string \<Rightarrow> gotime \<Rightarrow> nat \<Rightarrow> (string \<rightharpoonup> flight) \<Rightarrow> string \<rightharpoonup> flight" where
  "join_flight key now gen fs =
     (if fs key = None then fs(key \<mapsto> \<lparr>fl_at = now, fl_gen = gen\<rparr>) else fs)"

definition deliver :: "string \<Rightarrow> 'v lc_result \<Rightarrow> 'v waiter \<Rightarrow> 'v waiter" where
  "deliver key res w = (if w_key w = key \<and> w_result w = None then w\<lparr>w_result := Some res\<rparr> else w)"

text \<open>One step; the output is the request that got its answer, if any.\<close>

fun sys_step :: "lc_options \<Rightarrow> 'v lc_event \<Rightarrow> 'v lc_sys \<Rightarrow> 'v lc_sys \<times> (nat \<times> 'v lc_result) option" where
  "sys_step opts (EvGet rid key now) s =
     (if sys_waiting s rid \<noteq> None then (s, None)
      else case lc_begin opts now key (sys_cache s) of
        Served v \<Rightarrow> (s, Some (rid, Inr v))
      | Ask gen usable \<Rightarrow>
          (s\<lparr>sys_flights := join_flight key now gen (sys_flights s),
             sys_waiting := (sys_waiting s)(rid \<mapsto>
               \<lparr>w_key = key, w_at = now, w_gen = gen, w_usable = usable, w_result = None\<rparr>)\<rparr>, None))"
| "sys_step opts (EvLoaded key res) s =
     (case sys_flights s key of
        None \<Rightarrow> (s, None)
      | Some f \<Rightarrow>
          (s\<lparr>sys_cache := lc_store key (fl_at f) (fl_gen f) res (sys_cache s),
             sys_flights := (sys_flights s)(key := None),
             sys_waiting := (\<lambda>rid. map_option (deliver key res) (sys_waiting s rid))\<rparr>, None))"
| "sys_step opts (EvReturn rid now2) s =
     (case sys_waiting s rid of
        None \<Rightarrow> (s, None)
      | Some w \<Rightarrow>
          (case w_result w of
             None \<Rightarrow> (s, None)
           | Some res \<Rightarrow>
               (let (c, r) = lc_return now2 (w_gen w) (w_usable w) res (sys_cache s)
                in (s\<lparr>sys_cache := c, sys_waiting := (sys_waiting s)(rid := None)\<rparr>, Some (rid, r)))))"
| "sys_step opts (EvCancel rid) s =
     (case sys_waiting s rid of
        None \<Rightarrow> (s, None)
      | Some w \<Rightarrow> (s\<lparr>sys_waiting := (sys_waiting s)(rid := None)\<rparr>, Some (rid, Inl Canceled)))"
| "sys_step opts EvPurge s = (s\<lparr>sys_cache := lc_purge (sys_cache s)\<rparr>, None)"

fun sys_run :: "lc_options \<Rightarrow> 'v lc_event list \<Rightarrow> 'v lc_sys \<Rightarrow> 'v lc_sys" where
  "sys_run opts [] s = s"
| "sys_run opts (e # es) s = sys_run opts es (fst (sys_step opts e s))"

section \<open>Where answers come from\<close>

text \<open>
  A ghost log of the good answers the database gave: the key, the value, when the query was asked
  and in which generation. Reachability runs the system and the log together.
\<close>

type_synonym 'v lc_log = "(string \<times> 'v \<times> gotime \<times> nat) set"

fun answers :: "'v lc_event \<Rightarrow> 'v lc_sys \<Rightarrow> 'v lc_log" where
  "answers (EvLoaded key (Inr v)) s =
     (case sys_flights s key of None \<Rightarrow> {} | Some f \<Rightarrow> {(key, v, fl_at f, fl_gen f)})"
| "answers _ s = {}"

inductive lc_reach :: "lc_options \<Rightarrow> 'v lc_sys \<Rightarrow> 'v lc_log \<Rightarrow> bool" for opts where
  init: "lc_reach opts sys_new {}"
| step: "lc_reach opts s L \<Longrightarrow> lc_reach opts (fst (sys_step opts e s)) (L \<union> answers e s)"

inductive_cases lc_reachE: "lc_reach opts s L"

text \<open>A waiting request: its fallback is logged and young enough, and so is what it was delivered.\<close>

definition waiter_ok :: "lc_options \<Rightarrow> 'v lc_log \<Rightarrow> 'v waiter \<Rightarrow> bool" where
  "waiter_ok opts L w \<longleftrightarrow>
     (\<forall>e. w_usable w = Some e \<longrightarrow>
        (w_key w, ent_v e, ent_at e, w_gen w) \<in> L \<and> w_at w - ent_at e < opt_max_stale opts)
     \<and> (\<forall>v. w_result w = Some (Inr v) \<longrightarrow> (\<exists>t g. (w_key w, v, t, g) \<in> L))"

definition sys_ok :: "lc_options \<Rightarrow> 'v lc_log \<Rightarrow> 'v lc_sys \<Rightarrow> bool" where
  "sys_ok opts L s \<longleftrightarrow>
     (\<forall>k e. lc_entries (sys_cache s) k = Some e
        \<longrightarrow> (k, ent_v e, ent_at e, lc_gen (sys_cache s)) \<in> L)
     \<and> (\<forall>r w. sys_waiting s r = Some w \<longrightarrow> waiter_ok opts L w)"

lemma sys_okD:
  assumes "sys_ok opts L s"
  shows "lc_entries (sys_cache s) k = Some e \<Longrightarrow> (k, ent_v e, ent_at e, lc_gen (sys_cache s)) \<in> L"
    and "sys_waiting s r = Some w \<Longrightarrow> waiter_ok opts L w"
  using assms by (auto simp: sys_ok_def)

lemma waiter_ok_mono: "waiter_ok opts L w \<Longrightarrow> L \<subseteq> L' \<Longrightarrow> waiter_ok opts L' w"
  unfolding waiter_ok_def by blast

lemma lc_begin_Ask:
  assumes "lc_begin opts now key c = Ask gen usable"
  shows "gen = lc_gen c"
    and "usable = Some e \<Longrightarrow> lc_entries c key = Some e \<and> now - ent_at e < opt_max_stale opts"
  using assms by (auto simp: lc_begin_def split: option.splits if_splits)

lemma lc_begin_Served:
  assumes "lc_begin opts now key c = Served v"
  obtains e where "lc_entries c key = Some e" and "v = ent_v e"
    and "now - ent_at e < opt_ttl opts \<or> now - ent_at e < opt_max_stale opts"
  using assms by (auto simp: lc_begin_def split: option.splits if_splits)

lemma lc_return_cache:
  "lc_return now2 gen u res c = (c', r) \<Longrightarrow> lc_entries c' = lc_entries c \<and> lc_gen c' = lc_gen c"
  by (auto simp: lc_return_def split: sum.splits lc_error.splits option.splits if_splits)

lemma deliver_ok:
  assumes "waiter_ok opts L w" and "\<And>v. res = Inr v \<Longrightarrow> \<exists>t g. (key, v, t, g) \<in> L'" and "L \<subseteq> L'"
  shows "waiter_ok opts L' (deliver key res w)"
  using assms unfolding waiter_ok_def deliver_def by (auto; blast)

lemma sys_step_ok:
  assumes "sys_ok opts L s"
  shows "sys_ok opts (L \<union> answers e s) (fst (sys_step opts e s))"
proof (cases e)
  case (EvGet rid key now)
  show ?thesis
  proof (cases "lc_begin opts now key (sys_cache s)")
    case (Served v)
    with assms EvGet show ?thesis by simp
  next
    case (Ask gen usable)
    have "waiter_ok opts L \<lparr>w_key = key, w_at = now, w_gen = gen, w_usable = usable, w_result = None\<rparr>"
      using lc_begin_Ask [OF Ask] sys_okD(1) [OF assms] by (auto simp: waiter_ok_def)
    with assms EvGet Ask show ?thesis by (auto simp: sys_ok_def)
  qed
next
  case (EvLoaded key res)
  show ?thesis
  proof (cases "sys_flights s key")
    case None
    with assms EvLoaded show ?thesis by (cases res) simp_all
  next
    case (Some f)
    let ?L = "L \<union> answers e s"
    have "\<And>v. res = Inr v \<Longrightarrow> \<exists>t g. (key, v, t, g) \<in> ?L" using EvLoaded Some by auto
    then have w: "waiter_ok opts ?L (deliver key res w)" if "sys_waiting s r = Some w" for r w
      using deliver_ok [OF sys_okD(2) [OF assms that]] by blast
    have "(k, ent_v x, ent_at x, lc_gen (sys_cache s)) \<in> ?L"
      if "lc_entries (lc_store key (fl_at f) (fl_gen f) res (sys_cache s)) k = Some x" for k x
      using that EvLoaded Some sys_okD(1) [OF assms]
      by (auto simp: lc_store_def split: sum.splits lc_error.splits if_splits)
    moreover have "lc_gen (lc_store key (fl_at f) (fl_gen f) res (sys_cache s)) = lc_gen (sys_cache s)"
      by (auto simp: lc_store_def split: sum.splits lc_error.splits)
    ultimately show ?thesis using EvLoaded Some w by (auto simp: sys_ok_def)
  qed
next
  case (EvReturn rid now2)
  then show ?thesis using assms
    by (auto simp: sys_ok_def split: option.splits prod.splits dest!: lc_return_cache)
next
  case (EvCancel rid)
  then show ?thesis using assms by (auto simp: sys_ok_def split: option.splits)
next
  case EvPurge
  then show ?thesis using assms by (auto simp: sys_ok_def lc_purge_def)
qed

lemma lc_reach_ok: "lc_reach opts s L \<Longrightarrow> sys_ok opts L s"
proof (induction rule: lc_reach.induct)
  case init
  show ?case by (simp add: sys_ok_def sys_new_def lc_new_def)
next
  case (step s L e)
  then show ?case by (rule_tac sys_step_ok)
qed

section \<open>Properties\<close>

text \<open>
  However requests, loads and purges interleave, an answer served from the cache was given by
  the database, for the same key, to a query asked since the last purge, and no longer ago than the
  TTL or the staleness bound; a request that waited for a query is answered with what that query
  returned or, when the database could not answer, with such a stale answer of its own generation.
\<close>
theorem lookup_answers_bounded_stale:
  assumes "lc_reach opts s L" and "sys_step opts e s = (s', Some (rid, Inr v))"
  shows "(\<exists>key now t. e = EvGet rid key now \<and> (key, v, t, lc_gen (sys_cache s)) \<in> L
            \<and> now - t < max (opt_ttl opts) (opt_max_stale opts))
       \<or> (\<exists>now2 w. e = EvReturn rid now2 \<and> sys_waiting s rid = Some w
            \<and> (w_result w = Some (Inr v)
               \<or> (\<exists>m. w_result w = Some (Inl m) \<and> (\<forall>x. m \<noteq> Miss x))
                 \<and> (\<exists>t. (w_key w, v, t, lc_gen (sys_cache s)) \<in> L
                      \<and> w_at w - t < opt_max_stale opts)))"
proof (cases e)
  case (EvGet r key now)
  with assms(2) have r: "r = rid" and b: "lc_begin opts now key (sys_cache s) = Served v"
    by (auto split: if_splits lc_begun.splits)
  from b obtain x where x: "lc_entries (sys_cache s) key = Some x" "v = ent_v x"
    "now - ent_at x < opt_ttl opts \<or> now - ent_at x < opt_max_stale opts" by (rule lc_begin_Served)
  then show ?thesis using EvGet r sys_okD(1) [OF lc_reach_ok [OF assms(1)] x(1)] by auto
next
  case (EvReturn r now2)
  with assms(2) obtain w res where w: "r = rid" "sys_waiting s rid = Some w" "w_result w = Some res"
    "snd (lc_return now2 (w_gen w) (w_usable w) res (sys_cache s)) = Inr v"
    by (auto split: option.splits prod.splits)
  have ok: "waiter_ok opts L w" using sys_okD(2) [OF lc_reach_ok [OF assms(1)] w(2)] .
  show ?thesis
  proof (cases res)
    case (Inr x)
    with w EvReturn show ?thesis by (auto simp: lc_return_def)
  next
    case (Inl m)
    with w obtain x where "w_usable w = Some x" "v = ent_v x" "w_gen w = lc_gen (sys_cache s)"
      "\<forall>y. m \<noteq> Miss y"
      by (auto simp: lc_return_def split: lc_error.splits option.splits if_splits)
    with ok Inl w EvReturn show ?thesis unfolding waiter_ok_def by fastforce
  qed
qed (use assms(2) in \<open>auto split: option.splits\<close>)


definition demo_opts :: lc_options where
  "demo_opts = \<lparr>opt_ttl = 10, opt_max_stale = 100\<rparr>"

definition demo_sys :: "int lc_sys" where
  "demo_sys = sys_run demo_opts [EvGet 1 ''k'' 0, EvLoaded ''k'' (Inr 7), EvReturn 1 0] sys_new"

lemmas demo_defs = demo_opts_def demo_sys_def sys_new_def lc_new_def lc_begin_def join_flight_def
  lc_store_def lc_return_def deliver_def lc_quiet_now_def

lemma demo_reach: "lc_reach demo_opts demo_sys {(''k'', 7, 0, 0)}"
proof -
  note step1 = lc_reach.step [OF lc_reach.init [of demo_opts], of "EvGet 1 ''k'' 0"]
  note step2 = lc_reach.step [OF step1, of "EvLoaded ''k'' (Inr (7 :: int))"]
  note step3 = lc_reach.step [OF step2, of "EvReturn 1 0"]
  have "answers (EvLoaded ''k'' (Inr (7 :: int))) (fst (sys_step demo_opts (EvGet 1 ''k'' 0) sys_new))
      = {(''k'', 7, 0, 0)}" by (simp add: demo_defs)
  with step3 show ?thesis by (simp add: demo_sys_def del: sys_step.simps)
qed

theorem lookup_answers_bounded_stale_witness:
  "\<exists>t :: gotime. (''k'', 7 :: int, t, lc_gen (sys_cache demo_sys)) \<in> {(''k'', 7, 0, 0)} \<and> 5 - t < 100"
proof -
  have "sys_step demo_opts (EvGet 2 ''k'' 5) demo_sys = (demo_sys, Some (2, Inr 7))"
    by (simp add: demo_defs)
  from lookup_answers_bounded_stale [OF demo_reach this] show ?thesis by (auto simp: demo_opts_def)
qed

lemma store_keeps_none:
  assumes "lc_entries c key = None" and "\<And>v. k = key \<Longrightarrow> res \<noteq> Inr v"
  shows "lc_entries (lc_store k now gen res c) key = None"
  using assms by (auto simp: lc_store_def split: sum.splits lc_error.splits)

lemma sys_step_keeps_none:
  assumes "lc_entries (sys_cache s) key = None" and "\<And>v. e \<noteq> EvLoaded key (Inr v)"
  shows "lc_entries (sys_cache (fst (sys_step opts e s))) key = None"
proof (cases e)
  case (EvReturn rid now2)
  with assms(1) show ?thesis
    by (auto split: option.splits prod.splits dest!: lc_return_cache)
qed (use assms in \<open>auto simp: lc_purge_def split: option.splits lc_begun.splits intro!: store_keeps_none\<close>)

lemma sys_run_keeps_none:
  assumes "lc_entries (sys_cache s) key = None" and "\<And>v. EvLoaded key (Inr v) \<notin> set es"
  shows "lc_entries (sys_cache (sys_run opts es s)) key = None"
  using assms
proof (induction es arbitrary: s)
  case (Cons e es)
  have "lc_entries (sys_cache (fst (sys_step opts e s))) key = None"
    using Cons.prems by (intro sys_step_keeps_none) (metis list.set_intros(1))+
  then show ?case using Cons.IH Cons.prems(2) by simp
qed simp

text \<open>
  Revocation takes effect at once: when the database answers that there is no such thing, the
  entry is gone, and until the database gives a good answer for the key again no later request is
  served from the cache, whatever other requests, failed queries and purges happen in between.
\<close>
theorem lookup_miss_evicts:
  assumes "sys_flights s key \<noteq> None"
    and "\<And>v. EvLoaded key (Inr v) \<notin> set es"
  shows "\<exists>gen. lc_begin opts now key
      (sys_cache (sys_run opts (EvLoaded key (Inl (Miss m)) # es) s)) = Ask gen None"
proof -
  have "lc_entries (sys_cache (fst (sys_step opts (EvLoaded key (Inl (Miss m))) s))) key = None"
    using assms(1) by (auto simp: lc_store_def)
  from sys_run_keeps_none [OF this assms(2)] show ?thesis by (simp add: lc_begin_def)
qed

theorem lookup_miss_evicts_witness:
  "\<exists>gen. lc_begin demo_opts 21 ''k'' (sys_cache (sys_run demo_opts
     [EvLoaded ''k'' (Inl (Miss ''revoked'')), EvReturn 2 21]
     (fst (sys_step demo_opts (EvGet 2 ''k'' 20) demo_sys)))) = Ask gen None"
proof (rule lookup_miss_evicts [of _ _ "[EvReturn 2 21]"])
  show "sys_flights (fst (sys_step demo_opts (EvGet 2 ''k'' 20) demo_sys)) ''k'' \<noteq> None"
    by (simp add: demo_defs)
qed simp

text \<open>
  A request that begins after a purge can still be answered by a query asked before it: it joins
  the flight the earlier request started, because a purge does not forget flights in the air. The
  answer is not stored, so only the requests that joined see it.
\<close>
theorem lookup_purge_joined_flight:
  "let s = sys_run demo_opts
         [EvGet 1 ''k'' 0, EvPurge, EvGet 2 ''k'' 1, EvLoaded ''k'' (Inr (7 :: int))] sys_new
   in snd (sys_step demo_opts (EvReturn 2 2) s) = Some (2, Inr 7)
      \<and> lc_entries (sys_cache s) ''k'' = None"
  by (simp add: demo_defs lc_purge_def)

end
