(* ===== verification/Routing.thy ===== *)
theory Routing
  imports Language LookupCache
begin

text \<open>
  Request routing (\<open>internal/routing/routing.go\<close>): targets and their options with the validation of
  stored options, the plan of a request and the order its targets are tried in, round-robin
  counters, and the resolution of a model name against the catalog. The database is a parameter:
  the rows its queries return.
\<close>

section \<open>Targets and their options\<close>

record breaker_options =
  bo_Enabled :: "bool option"
  bo_Failures :: "int option"
  bo_ErrorRate :: "rat option"
  bo_WindowMS :: "int option"
  bo_MinRequests :: "int option"
  bo_CooldownMS :: "int option"
  bo_MaxCooldownMS :: "int option"
  bo_StableMS :: "int option"

record voice_choice =
  vc_Voice :: string
  vc_Model :: string
  vc_Language :: string
  vc_Gender :: string

text \<open>A Go map is the list of its entries, one per key, in the order of one walk.\<close>

record target_options =
  to_TimeoutMS :: "int option"
  to_FallbackOnAuth :: "bool option"
  to_Breaker :: "breaker_options option"
  to_Thinking :: "string option"
  to_RecognitionModels :: "(string \<times> string) list"
  to_Voices :: "(string \<times> voice_choice) list"
  to_DefaultVoices :: "(string \<times> voice_choice) list"
  to_SendLanguage :: "bool option"
  to_StreamSpeech :: "bool option"

definition no_options :: target_options where
  "no_options = \<lparr>to_TimeoutMS = None, to_FallbackOnAuth = None, to_Breaker = None, to_Thinking = None,
     to_RecognitionModels = [], to_Voices = [], to_DefaultVoices = [], to_SendLanguage = None,
     to_StreamSpeech = None\<rparr>"

definition SendsLanguage :: "target_options \<Rightarrow> bool" where
  "SendsLanguage o' \<longleftrightarrow> to_SendLanguage o' = Some True"

definition StreamsSpeech :: "target_options \<Rightarrow> bool" where
  "StreamsSpeech o' \<longleftrightarrow> to_StreamSpeech o' = Some True"

abbreviation thinkingOff :: string where "thinkingOff \<equiv> ''off''"

definition ThinkingOff :: "target_options \<Rightarrow> bool" where
  "ThinkingOff o' \<longleftrightarrow> to_Thinking o' = Some thinkingOff"

text \<open>\<open>Validate\<close> looks at the counts and durations in order, then at the error rate.\<close>

fun first_nonpositive :: "(string \<times> int option) list \<Rightarrow> string option" where
  "first_nonpositive [] = None"
| "first_nonpositive ((name, v) # fs) =
     (case v of
        None \<Rightarrow> first_nonpositive fs
      | Some n \<Rightarrow> if n \<le> 0 then Some (''breaker.'' @ name @ '' must be positive'')
                  else first_nonpositive fs)"

definition breaker_Validate :: "breaker_options option \<Rightarrow> string option" where
  "breaker_Validate b0 =
     (case b0 of
        None \<Rightarrow> None
      | Some b \<Rightarrow>
          (case first_nonpositive [(''failures'', bo_Failures b), (''window_ms'', bo_WindowMS b),
                 (''min_requests'', bo_MinRequests b), (''cooldown_ms'', bo_CooldownMS b),
                 (''max_cooldown_ms'', bo_MaxCooldownMS b), (''stable_ms'', bo_StableMS b)] of
             Some err \<Rightarrow> Some err
           | None \<Rightarrow>
               (case bo_ErrorRate b of
                  None \<Rightarrow> None
                | Some r \<Rightarrow> if r \<le> 0 \<or> r > 1 then Some ''breaker.error_rate must be in (0, 1]''
                           else None)))"

definition voiceGenders :: "string list" where
  "voiceGenders = ['''', ''male'', ''female'', ''neutral'']"

text \<open>The loops over the option maps; \<open>seen\<close> are the canonical tags met so far.\<close>

fun check_recognition :: "string list \<Rightarrow> (string \<times> string) list \<Rightarrow> string option" where
  "check_recognition seen [] = None"
| "check_recognition seen ((lang, model) # ms) =
     (if trim_space lang = [] \<or> trim_space model = []
      then Some ''recognition_models needs a language and a model in every entry''
      else let tag = CanonicalLanguage lang
           in if tag \<in> set seen then Some (''recognition_models lists '' @ tag @ '' twice'')
              else check_recognition (tag # seen) ms)"

fun check_voices :: "(string \<times> voice_choice) list \<Rightarrow> string option" where
  "check_voices [] = None"
| "check_voices ((vid, v) # vs) =
     (if trim_space vid = [] then Some ''voices needs a canonical voice in every entry''
      else if vc_Gender v \<notin> set voiceGenders
        then Some (''voices: gender of '' @ vid @ '' must be male, female or neutral'')
      else check_voices vs)"

fun check_default_voices :: "string list \<Rightarrow> (string \<times> voice_choice) list \<Rightarrow> string option" where
  "check_default_voices seen [] = None"
| "check_default_voices seen ((lang, v) # vs) =
     (if trim_space lang = [] \<or> trim_space (vc_Voice v) = []
      then Some ''default_voices needs a language and a voice in every entry''
      else let tag = CanonicalLanguage lang
           in if tag \<in> set seen then Some (''default_voices lists '' @ tag @ '' twice'')
              else check_default_voices (tag # seen) vs)"

definition invalid_options :: "string \<Rightarrow> string" where
  "invalid_options e = ''invalid options: '' @ e"

text \<open>\<open>unmarshal\<close> is the JSON decoder applied to the options object.\<close>

definition ParseTargetOptions ::
  "(string \<Rightarrow> string + target_options) \<Rightarrow> string \<Rightarrow> string + target_options" where
  "ParseTargetOptions unmarshal raw =
     (let trimmed = trim_space raw
      in if trimmed = [] \<or> trimmed = ''null'' then Inr no_options
         else if \<not> has_prefix trimmed ''{'' then Inl ''options must be a JSON object''
         else case unmarshal raw of
           Inl e \<Rightarrow> Inl (invalid_options e)
         | Inr o' \<Rightarrow>
             if (case to_TimeoutMS o' of None \<Rightarrow> False | Some t \<Rightarrow> t < 0)
             then Inl (invalid_options ''timeout_ms must not be negative'')
             else case breaker_Validate (to_Breaker o') of
               Some e \<Rightarrow> Inl (invalid_options e)
             | None \<Rightarrow>
                 if to_Thinking o' \<noteq> None \<and> to_Thinking o' \<noteq> Some thinkingOff
                 then Inl (invalid_options ''thinking must be \"off\"'')
                 else case check_recognition [] (to_RecognitionModels o') of
                   Some e \<Rightarrow> Inl (invalid_options e)
                 | None \<Rightarrow>
                     (case check_voices (to_Voices o') of
                        Some e \<Rightarrow> Inl (invalid_options e)
                      | None \<Rightarrow>
                          (case check_default_voices [] (to_DefaultVoices o') of
                             Some e \<Rightarrow> Inl (invalid_options e)
                           | None \<Rightarrow> Inr o')))"

definition DefaultAffinityTTL :: duration where "DefaultAffinityTTL = 4 * hour"

definition MaxAffinityTTLSeconds :: int where "MaxAffinityTTLSeconds = 7 * 24 * 3600"

definition AffinityTTL :: "int \<Rightarrow> duration" where
  "AffinityTTL seconds = (if seconds \<le> 0 then DefaultAffinityTTL else wrap64 (seconds * second))"

definition DefaultSynthesisCacheTTL :: duration where "DefaultSynthesisCacheTTL = 7 * 24 * hour"

definition MaxSynthesisCacheTTLSeconds :: int where "MaxSynthesisCacheTTLSeconds = 30 * 24 * 3600"

definition SynthesisCacheTTL :: "int \<Rightarrow> duration" where
  "SynthesisCacheTTL seconds =
     (if seconds \<le> 0 then DefaultSynthesisCacheTTL else wrap64 (seconds * second))"

text \<open>\<open>None\<close> is \<open>ok = false\<close>: the target has no place for the voice.\<close>

definition SpeakAs :: "target_options \<Rightarrow> string \<Rightarrow> string \<Rightarrow> voice_choice option" where
  "SpeakAs o' voice language0 =
     (case map_of (to_Voices o') voice of
        Some v \<Rightarrow> Some (if vc_Voice v = [] then v\<lparr>vc_Voice := voice\<rparr> else v)
      | None \<Rightarrow>
          (let language = (if language0 = [] then VoiceLanguage voice else language0)
           in case ForLanguage (to_DefaultVoices o') language of
                Some v \<Rightarrow> Some v
              | None \<Rightarrow>
                  if voice = [] \<or> to_Voices o' = [] \<and> to_DefaultVoices o' = []
                  then Some \<lparr>vc_Voice = voice, vc_Model = [], vc_Language = [], vc_Gender = []\<rparr>
                  else None))"

record target =
  tg_Provider :: string
  tg_UpstreamModel :: string
  tg_UpstreamProtocol :: string
  tg_DisplayLabel :: string
  tg_Options :: target_options
  tg_Tier :: int

section \<open>The order targets are tried in\<close>

text \<open>A price, \<open>math.Inf(1)\<close> for a target without a known one.\<close>

datatype price = Priced rat | Unpriced

instantiation price :: linorder
begin

definition less_eq_price :: "price \<Rightarrow> price \<Rightarrow> bool" where
  "less_eq_price p q = (case q of Unpriced \<Rightarrow> True
     | Priced y \<Rightarrow> (case p of Unpriced \<Rightarrow> False | Priced x \<Rightarrow> x \<le> y))"

definition less_price :: "price \<Rightarrow> price \<Rightarrow> bool" where
  "less_price p q = (case p of Unpriced \<Rightarrow> False
     | Priced x \<Rightarrow> (case q of Unpriced \<Rightarrow> True | Priced y \<Rightarrow> x < y))"

instance
  by intro_classes (auto simp: less_eq_price_def less_price_def split: price.splits)

end

record lcr_rank =
  rk_Price :: price
  rk_Availability :: rat

record plan =
  pl_Alias :: string
  pl_Strategy :: string
  pl_DLPModelScan :: bool
  pl_ExposeBackendHeaders :: bool
  pl_DLPAudioScan :: bool
  pl_Tiers :: "target list list"
  pl_SessionAffinity :: bool
  pl_SessionAffinityTTL :: duration
  pl_SynthesisCache :: bool
  pl_SynthesisCacheTTL :: duration
  pl_LCRMode :: string
  pl_LCRMinAvailability :: rat

text \<open>\<open>out[i] = xs[(rot + i) % n]\<close>.\<close>

definition rotated :: "nat \<Rightarrow> 'a list \<Rightarrow> 'a list" where
  "rotated rr xs = map (\<lambda>i. xs ! ((rr mod length xs + i) mod length xs)) [0..<length xs]"

definition orderTier :: "target list \<Rightarrow> string \<Rightarrow> nat \<Rightarrow> (string \<Rightarrow> int) \<Rightarrow> target list" where
  "orderTier tier strategy rr free =
     (let n = length tier
      in if n \<le> 1 then tier
         else if strategy = ''least_busy''
         then map ((!) tier)
                (sort_stable (\<lambda>a b. free (tg_Provider (tier ! a)) > free (tg_Provider (tier ! b))) [0..<n])
         else rotated rr tier)"

definition lessLCR :: "lcr_rank list \<Rightarrow> nat \<Rightarrow> nat \<Rightarrow> string \<Rightarrow> rat \<Rightarrow> bool" where
  "lessLCR ranks a b mode minAvail =
     (if mode = ''availability'' then rk_Availability (ranks ! a) > rk_Availability (ranks ! b)
      else if mode = ''both'' then
        (let ga = (rk_Availability (ranks ! a) \<ge> minAvail); gb = (rk_Availability (ranks ! b) \<ge> minAvail)
         in if ga \<noteq> gb then ga else rk_Price (ranks ! a) < rk_Price (ranks ! b))
      else rk_Price (ranks ! a) < rk_Price (ranks ! b))"

definition tiedLCR :: "lcr_rank list \<Rightarrow> nat \<Rightarrow> nat \<Rightarrow> string \<Rightarrow> rat \<Rightarrow> bool" where
  "tiedLCR ranks a b mode minAvail =
     (if mode = ''availability'' then rk_Availability (ranks ! a) = rk_Availability (ranks ! b)
      else if mode = ''both'' then
        (rk_Availability (ranks ! a) \<ge> minAvail) = (rk_Availability (ranks ! b) \<ge> minAvail)
        \<and> rk_Price (ranks ! a) = rk_Price (ranks ! b)
      else rk_Price (ranks ! a) = rk_Price (ranks ! b))"

text \<open>The walk over the sorted indices: each maximal run tied with its first element is rotated.\<close>

function rotate_runs :: "('a \<Rightarrow> 'a \<Rightarrow> bool) \<Rightarrow> nat \<Rightarrow> 'a list \<Rightarrow> 'a list" where
  "rotate_runs tied rr [] = []"
| "rotate_runs tied rr (i # idx) =
     (let grp = i # takeWhile (tied i) idx
      in (if length grp > 1 then rotated rr grp else grp) @ rotate_runs tied rr (dropWhile (tied i) idx))"
  by pat_completeness auto

termination rotate_runs
  by (relation "measure (\<lambda>(_, _, idx). length idx)") (auto simp: le_imp_less_Suc length_dropWhile_le)

definition orderTierLCR ::
  "target list \<Rightarrow> string \<Rightarrow> rat \<Rightarrow> nat \<Rightarrow> (target \<Rightarrow> lcr_rank) \<Rightarrow> target list" where
  "orderTierLCR tier mode minAvail rr rank =
     (let n = length tier; ranks = map rank tier
      in if n \<le> 1 then tier
         else map ((!) tier)
                (rotate_runs (\<lambda>a b. tiedLCR ranks a b mode minAvail) rr
                   (sort_stable (\<lambda>a b. lessLCR ranks a b mode minAvail) [0..<n])))"

definition Ordered :: "plan \<Rightarrow> nat \<Rightarrow> (string \<Rightarrow> int) \<Rightarrow> (target \<Rightarrow> lcr_rank) \<Rightarrow> target list" where
  "Ordered p rr free rank =
     concat (map (\<lambda>tier. if pl_Strategy p = ''lcr''
                         then orderTierLCR tier (pl_LCRMode p) (pl_LCRMinAvailability p) rr rank
                         else orderTier tier (pl_Strategy p) rr free) (pl_Tiers p))"

section \<open>The router\<close>

record router =
  rt_rr :: "string \<Rightarrow> nat"
  rt_aliases :: "plan lcache"

text \<open>The counter is 64 bits wide; an alias not seen yet starts at zero.\<close>

definition NextRR :: "string \<Rightarrow> router \<Rightarrow> router \<times> nat" where
  "NextRR alias r =
     (r\<lparr>rt_rr := (rt_rr r)(alias := (rt_rr r alias + 1) mod 2 ^ 64)\<rparr>, rt_rr r alias)"

definition PurgeCache :: "router \<Rightarrow> router" where
  "PurgeCache r = r\<lparr>rt_aliases := lc_purge (rt_aliases r)\<rparr>"

text \<open>The catalog: what the three queries answer, \<open>Inl\<close> for a database error.\<close>

record alias_row =
  ar_strategy :: string
  ar_lcr_mode :: string
  ar_lcr_min_availability :: rat
  ar_dlp_model_scan :: bool
  ar_expose_backend_headers :: bool
  ar_dlp_audio_scan :: bool
  ar_session_affinity :: bool
  ar_session_affinity_ttl_s :: int
  ar_synthesis_cache :: bool
  ar_synthesis_cache_ttl_s :: int

record target_row =
  tr_priority :: int
  tr_provider :: string
  tr_upstream_model :: string
  tr_kind :: string
  tr_display_label :: string
  tr_options :: string

record catalog =
  cat_alias :: "string \<Rightarrow> string + alias_row option"
  cat_targets :: "string \<Rightarrow> string + target_row list"
  cat_provider :: "string \<Rightarrow> string + (string \<times> bool) option"

definition protocol_of :: "string \<Rightarrow> string" where
  "protocol_of kind = (if kind = ''anthropic'' then ''anthropic'' else ''openai'')"

definition row_target :: "(string \<Rightarrow> string + target_options) \<Rightarrow> target_row \<Rightarrow> target" where
  "row_target unmarshal r =
     \<lparr>tg_Provider = tr_provider r, tg_UpstreamModel = tr_upstream_model r,
      tg_UpstreamProtocol = protocol_of (tr_kind r), tg_DisplayLabel = tr_display_label r,
      tg_Options = (case ParseTargetOptions unmarshal (tr_options r) of
                      Inl _ \<Rightarrow> no_options | Inr o' \<Rightarrow> o'),
      tg_Tier = tr_priority r\<rparr>"

text \<open>The loop over the rows: a new tier whenever the priority changes.\<close>

fun group_tiers ::
  "(string \<Rightarrow> string + target_options) \<Rightarrow> target list list \<Rightarrow> int \<Rightarrow> target_row list \<Rightarrow> target list list" where
  "group_tiers unmarshal tiers lastPriority [] = tiers"
| "group_tiers unmarshal tiers lastPriority (r # rows) =
     (let opened = (if tiers = [] \<or> tr_priority r \<noteq> lastPriority then tiers @ [[]] else tiers)
      in group_tiers unmarshal (butlast opened @ [last opened @ [row_target unmarshal r]])
           (tr_priority r) rows)"

definition resolveAlias ::
  "(string \<Rightarrow> string + target_options) \<Rightarrow> catalog \<Rightarrow> string \<Rightarrow> plan lc_result" where
  "resolveAlias unmarshal cat model =
     (case cat_alias cat model of
        Inl e \<Rightarrow> Inl (LoadFailed e)
      | Inr None \<Rightarrow> Inl (Miss (''model not found: '' @ model))
      | Inr (Some a) \<Rightarrow>
          (case cat_targets cat model of
             Inl e \<Rightarrow> Inl (LoadFailed e)
           | Inr rows \<Rightarrow>
               (let tiers = group_tiers unmarshal [] (- 1) rows
                in if tiers = [] then Inl (Miss (''no available targets: '' @ model))
                   else Inr \<lparr>pl_Alias = model, pl_Strategy = ar_strategy a,
                     pl_DLPModelScan = ar_dlp_model_scan a,
                     pl_ExposeBackendHeaders = ar_expose_backend_headers a,
                     pl_DLPAudioScan = ar_dlp_audio_scan a, pl_Tiers = tiers,
                     pl_SessionAffinity = ar_session_affinity a,
                     pl_SessionAffinityTTL = AffinityTTL (ar_session_affinity_ttl_s a),
                     pl_SynthesisCache = ar_synthesis_cache a,
                     pl_SynthesisCacheTTL = SynthesisCacheTTL (ar_synthesis_cache_ttl_s a),
                     pl_LCRMode = ar_lcr_mode a,
                     pl_LCRMinAvailability = ar_lcr_min_availability a\<rparr>)))"

datatype resolve_error =
    NotPermitted
  | MissingUpstream string
  | ProviderNotFound string
  | ProviderDisabled string
  | DatabaseError string
  | AliasError lc_error

definition passthroughTarget :: "catalog \<Rightarrow> string \<Rightarrow> string \<Rightarrow> resolve_error + target" where
  "passthroughTarget cat provider upstreamModel =
     (if upstreamModel = [] then Inl (MissingUpstream provider)
      else case cat_provider cat provider of
        Inl e \<Rightarrow> Inl (DatabaseError e)
      | Inr None \<Rightarrow> Inl (ProviderNotFound provider)
      | Inr (Some (kind, enabled)) \<Rightarrow>
          if \<not> enabled then Inl (ProviderDisabled provider)
          else Inr \<lparr>tg_Provider = provider, tg_UpstreamModel = upstreamModel,
                 tg_UpstreamProtocol = protocol_of kind, tg_DisplayLabel = [],
                 tg_Options = no_options, tg_Tier = 0\<rparr>)"

text \<open>\<open>now\<close> and \<open>now2\<close> are the cache's clock readings before and after the query.\<close>

definition Resolve ::
  "(string \<Rightarrow> string + target_options) \<Rightarrow> catalog \<Rightarrow> lc_options \<Rightarrow> gotime \<Rightarrow> gotime \<Rightarrow> string \<Rightarrow> bool
     \<Rightarrow> router \<Rightarrow> router \<times> (resolve_error + plan)" where
  "Resolve unmarshal cat opts now now2 model allowPassthrough r =
     (if CHR ''/'' \<in> set model then
        (if \<not> allowPassthrough then (r, Inl NotPermitted)
         else let (provider, upstream, _) = cut_at CHR ''/'' model
              in case passthroughTarget cat provider upstream of
                   Inl e \<Rightarrow> (r, Inl e)
                 | Inr t \<Rightarrow> (r, Inr \<lparr>pl_Alias = model, pl_Strategy = ''round_robin'',
                      pl_DLPModelScan = True, pl_ExposeBackendHeaders = True, pl_DLPAudioScan = True,
                      pl_Tiers = [[t]], pl_SessionAffinity = False, pl_SessionAffinityTTL = 0,
                      pl_SynthesisCache = False, pl_SynthesisCacheTTL = 0, pl_LCRMode = [],
                      pl_LCRMinAvailability = 0\<rparr>))
      else let (c, res) = lc_get opts now now2 model (resolveAlias unmarshal cat model) (rt_aliases r)
           in (r\<lparr>rt_aliases := c\<rparr>, case res of Inl e \<Rightarrow> Inl (AliasError e) | Inr p \<Rightarrow> Inr p))"

section \<open>Rotation and ranking\<close>

lemma rotated_rotate: "rotated rr xs = rotate rr xs"
proof (rule nth_equalityI)
  fix i assume "i < length (rotated rr xs)"
  then have i: "i < length xs" by (simp add: rotated_def)
  then show "rotated rr xs ! i = rotate rr xs ! i"
    by (simp add: rotated_def nth_rotate mod_add_left_eq)
qed (simp add: rotated_def)

lemma mset_rotate [simp]: "mset (rotate n xs) = mset xs"
  by (metis append_take_drop_id mset_append rotate_drop_take union_commute)

lemma rotate_Nil: "rotate n [] = []"
  by simp

lemma mset_rotate_runs [simp]: "mset (rotate_runs tied rr xs) = mset xs"
proof (induction tied rr xs rule: rotate_runs.induct)
  case (2 tied rr i idx)
  have "mset (takeWhile (tied i) idx) + mset (dropWhile (tied i) idx) = mset idx"
    by (metis mset_append takeWhile_dropWhile_id)
  then have "mset (i # takeWhile (tied i) idx) + mset (dropWhile (tied i) idx) = mset (i # idx)"
    by simp
  moreover have "mset (if 1 < length xs then rotated rr xs else xs) = mset xs" for xs :: "'a list"
    by (simp add: rotated_rotate)
  ultimately show ?case using 2 by (simp only: rotate_runs.simps Let_def mset_append)
qed simp

lemma set_rotate_runs [simp]: "set (rotate_runs tied rr xs) = set xs"
  using mset_eq_setD [OF mset_rotate_runs] .

lemma map_nth_perm:
  assumes "mset idx = mset [0..<length tier]"
  shows "mset (map ((!) tier) idx) = mset tier"
  by (metis assms map_nth mset_map)

lemma mset_orderTier: "mset (orderTier tier strategy rr free) = mset tier"
  by (simp add: orderTier_def Let_def rotated_rotate map_nth_perm del: mset_map)

lemma mset_orderTierLCR: "mset (orderTierLCR tier mode minAvail rr rank) = mset tier"
  by (simp add: orderTierLCR_def Let_def map_nth_perm del: mset_map)

lemma set_Ordered: "set (Ordered p rr free rank) = set (concat (pl_Tiers p))"
  by (simp add: Ordered_def mset_eq_setD [OF mset_orderTier] mset_eq_setD [OF mset_orderTierLCR])

lemma lessLCR_weak_order: "weak_order (\<lambda>a b. lessLCR ranks a b mode minAvail)"
proof -
  have "weak_order (\<lambda>a b. rk_Price (ranks ! a) < rk_Price (ranks ! b))" by (rule weak_order_key)
  moreover have "weak_order (\<lambda>a b. rk_Availability (ranks ! a) > rk_Availability (ranks ! b))"
    by (rule weak_order_key_desc)
  moreover have "(\<lambda>a b. lessLCR ranks a b ''both'' minAvail)
      = (\<lambda>a b. if (rk_Availability (ranks ! a) < minAvail) \<noteq> (rk_Availability (ranks ! b) < minAvail)
               then (rk_Availability (ranks ! a) < minAvail) < (rk_Availability (ranks ! b) < minAvail)
               else rk_Price (ranks ! a) < rk_Price (ranks ! b))"
    by (intro ext) (auto simp: lessLCR_def Let_def not_le)
  then have "weak_order (\<lambda>a b. lessLCR ranks a b ''both'' minAvail)"
    by (rule ssubst) (rule weak_order_lex [OF weak_order_key])
  ultimately show ?thesis
    by (cases "mode = ''availability''"; cases "mode = ''both''") (simp_all add: lessLCR_def)
qed

interpretation lcr: weak_order "\<lambda>a b. lessLCR ranks a b mode minAvail" for ranks mode minAvail
  by (rule lessLCR_weak_order)

interpretation busy: weak_order "\<lambda>a b. free (tg_Provider (tier ! a)) > (free (tg_Provider (tier ! b)) :: int)"
  for free tier
  by (rule weak_order_key_desc)

lemma tiedLCR_iff:
  "tiedLCR ranks a b mode minAvail
   \<longleftrightarrow> \<not> lessLCR ranks a b mode minAvail \<and> \<not> lessLCR ranks b a mode minAvail"
proof -
  consider "mode = ''availability''" | "mode = ''both''" "mode \<noteq> ''availability''"
    | "mode \<noteq> ''both''" "mode \<noteq> ''availability''" by blast
  then show ?thesis
    by cases (auto simp only: tiedLCR_def lessLCR_def Let_def if_True if_False refl split: if_split)
qed

lemma lessLCR_pair:
  "lessLCR ranks a b mode minAvail = lessLCR [ranks ! a, ranks ! b] 0 1 mode minAvail"
  by (simp add: lessLCR_def)

lemma tiedLCR_pair:
  "tiedLCR ranks a b mode minAvail = tiedLCR [ranks ! a, ranks ! b] 0 1 mode minAvail"
  by (simp add: tiedLCR_def)

text \<open>For any strict weak order, runs of tied elements in an ordered list.\<close>

context weak_order
begin

abbreviation tied :: "'a \<Rightarrow> 'a \<Rightarrow> bool" where
  "tied a b \<equiv> \<not> lt a b \<and> \<not> lt b a"

lemma ordered_dropWhile: "ordered_by lt (x # xs) \<Longrightarrow> ordered_by lt (dropWhile P xs)"
proof -
  assume "ordered_by lt (x # xs)"
  then have "ordered_by lt (takeWhile P xs @ dropWhile P xs)" by simp
  then show ?thesis by (simp only: sorted_wrt_append)
qed

lemma run_is_class:
  assumes ord: "ordered_by lt (x # xs)" and y: "y \<in> set (dropWhile (tied x) xs)"
  shows "lt x y"
proof -
  obtain z zs where zs: "dropWhile (tied x) xs = z # zs"
    using y by (cases "dropWhile (tied x) xs") auto
  have "z \<in> set xs" using zs set_dropWhileD [of z "tied x" xs] by simp
  then have "\<not> lt z x" using ord by simp
  moreover have "\<not> tied x z" using zs dropWhile_eq_Cons_conv [of "tied x" xs z zs] by blast
  ultimately have z: "lt x z" by blast
  have "ordered_by lt (z # zs)" using ordered_dropWhile [OF ord, of "tied x"] zs by simp
  then have "y = z \<or> \<not> lt y z" using y zs by auto
  then show ?thesis using z lt_incomp [of x y z] by blast
qed

lemma tied_trans: "tied x y \<Longrightarrow> tied y z \<Longrightarrow> tied x z"
  using lt_incomp by blast

lemma ordered_class: "(\<And>a b. \<lbrakk>a \<in> set xs; b \<in> set xs\<rbrakk> \<Longrightarrow> \<not> lt a b) \<Longrightarrow> ordered_by lt xs"
  by (induction xs) auto

text \<open>The first run of an ordered list is the class of its first element.\<close>

lemma run_tied:
  assumes "a \<in> set (x # takeWhile (tied x) xs)"
  shows "tied x a"
  using assms lt_irrefl by (auto dest: set_takeWhileD)

lemma run_tied_class: "\<lbrakk>a \<in> set (x # takeWhile (tied x) xs); tied y x\<rbrakk> \<Longrightarrow> tied y a"
  using run_tied [of a x xs] tied_trans [of y x a] by blast

lemma run_not_tied_class: "\<lbrakk>a \<in> set (x # takeWhile (tied x) xs); \<not> tied y x\<rbrakk> \<Longrightarrow> \<not> tied y a"
  using run_tied [of a x xs] tied_trans [of y a x] by blast

lemma rest_not_tied:
  assumes "ordered_by lt (x # xs)" and "tied y x" and "z \<in> set (dropWhile (tied x) xs)"
  shows "\<not> tied y z"
  using run_is_class [OF assms(1)] assms(2,3) lt_incomp by metis

lemma run_filter:
  assumes "ordered_by lt (x # xs)"
  shows "filter (tied y) (x # xs)
    = (if tied y x then x # takeWhile (tied x) xs else filter (tied y) (dropWhile (tied x) xs))"
proof -
  let ?run = "x # takeWhile (tied x) xs" and ?rest = "dropWhile (tied x) xs"
  have split: "filter (tied y) (x # xs) = filter (tied y) ?run @ filter (tied y) ?rest"
    by (metis append_Cons filter_append takeWhile_dropWhile_id)
  show ?thesis
  proof (cases "tied y x")
    case True
    then have "filter (tied y) ?run = ?run"
      using run_tied_class [OF _ True] by (intro filter_True ballI)
    moreover have "filter (tied y) ?rest = []"
      using rest_not_tied [OF assms True] by (intro filter_False ballI)
    ultimately show ?thesis by (simp only: split if_P [OF True] append_Nil2)
  next
    case False
    then have "filter (tied y) ?run = []"
      using run_not_tied_class [OF _ False] by (intro filter_False ballI)
    then show ?thesis by (simp only: split if_not_P [OF False] append_Nil)
  qed
qed

text \<open>Rotating the runs keeps the order and rotates each class of tied elements by itself.\<close>

lemma ordered_append_run:
  assumes "ordered_by lt (x # xs)" and "set run = set (x # takeWhile (tied x) xs)"
    and "ordered_by lt rest" and "set rest = set (dropWhile (tied x) xs)"
  shows "ordered_by lt (run @ rest)"
proof -
  have "ordered_by lt run"
    using assms(2) run_tied [of _ x xs] tied_trans by (intro ordered_class) blast
  moreover have "\<not> lt b a" if "a \<in> set run" "b \<in> set rest" for a b
    using that run_tied [of a x xs] run_is_class [OF assms(1)] assms(2,4) lt_incomp lt_asym by metis
  ultimately show ?thesis using assms(3) by (auto simp: sorted_wrt_append)
qed

lemma rotate_runs_ordered:
  "ordered_by lt xs \<Longrightarrow> ordered_by lt (rotate_runs tied rr xs)"
proof (induction "tied" rr xs rule: rotate_runs.induct)
  case (2 rr i idx)
  let ?run = "i # takeWhile (tied i) idx"
  have "ordered_by lt (dropWhile (tied i) idx)"
    by (rule ordered_dropWhile [OF 2(2)])
  then have rest: "ordered_by lt (rotate_runs tied rr (dropWhile (tied i) idx))"
    using 2(1) by simp
  have "set (rotate_runs tied rr (dropWhile (tied i) idx)) = set (dropWhile (tied i) idx)"
    by (rule set_rotate_runs)
  from ordered_append_run [OF 2(2) _ rest this, of "if 1 < length ?run then rotated rr ?run else ?run"]
  show ?case by (simp add: rotated_rotate Let_def del: takeWhile.simps)
qed simp

lemma rotate_runs_filter:
  "ordered_by lt xs \<Longrightarrow> filter (tied y) (rotate_runs tied rr xs) = rotate rr (filter (tied y) xs)"
proof (induction "tied" rr xs rule: rotate_runs.induct)
  case (2 rr i idx)
  let ?run = "i # takeWhile (tied i) idx" and ?rest = "dropWhile (tied i) idx"
  let ?rot = "if 1 < length ?run then rotated rr ?run else ?run"
  have rot: "?rot = rotate rr ?run"
    by (cases "takeWhile (tied i) idx") (simp_all add: rotated_rotate)
  have "ordered_by lt ?rest"
    by (rule ordered_dropWhile [OF 2(2)])
  with 2(1) have IH: "filter (tied y) (rotate_runs tied rr ?rest) = rotate rr (filter (tied y) ?rest)"
    by simp
  have out: "rotate_runs tied rr (i # idx) = rotate rr ?run @ rotate_runs tied rr ?rest"
    using rot by (simp only: rotate_runs.simps Let_def)
  show ?case
  proof (cases "tied y i")
    case True
    have "filter (tied y) (rotate rr ?run) = rotate rr ?run"
      by (intro filter_True ballI) (rule run_tied_class [OF _ True], simp only: set_rotate)
    moreover have "filter (tied y) ?rest = []"
      using rest_not_tied [OF 2(2) True] by (intro filter_False ballI)
    ultimately show ?thesis
      by (simp only: out filter_append IH run_filter [OF 2(2), of y] if_P [OF True] rotate_Nil append_Nil2)
  next
    case False
    have "filter (tied y) (rotate rr ?run) = []"
      by (intro filter_False ballI) (rule run_not_tied_class [OF _ False], simp only: set_rotate)
    then show ?thesis
      by (simp only: out filter_append IH run_filter [OF 2(2), of y] if_not_P [OF False] append_Nil)
  qed
qed simp

end

section \<open>Ranking at the level of targets\<close>

abbreviation ranked_before :: "(target \<Rightarrow> lcr_rank) \<Rightarrow> string \<Rightarrow> rat \<Rightarrow> target \<Rightarrow> target \<Rightarrow> bool" where
  "ranked_before rank mode minAvail t u \<equiv> lessLCR [rank t, rank u] 0 1 mode minAvail"

abbreviation ranked_equal :: "(target \<Rightarrow> lcr_rank) \<Rightarrow> string \<Rightarrow> rat \<Rightarrow> target \<Rightarrow> target \<Rightarrow> bool" where
  "ranked_equal rank mode minAvail t u \<equiv> tiedLCR [rank t, rank u] 0 1 mode minAvail"

definition lcr_indices :: "target list \<Rightarrow> string \<Rightarrow> rat \<Rightarrow> nat \<Rightarrow> (target \<Rightarrow> lcr_rank) \<Rightarrow> nat list" where
  "lcr_indices tier mode minAvail rr rank =
     rotate_runs (\<lambda>a b. \<not> lessLCR (map rank tier) a b mode minAvail
                       \<and> \<not> lessLCR (map rank tier) b a mode minAvail) rr
       (sort_stable (\<lambda>a b. lessLCR (map rank tier) a b mode minAvail) [0..<length tier])"

lemma set_lcr_indices [simp]: "set (lcr_indices tier mode minAvail rr rank) = {0..<length tier}"
  by (simp add: lcr_indices_def)

lemma orderTierLCR_indices:
  "orderTierLCR tier mode minAvail rr rank = map ((!) tier) (lcr_indices tier mode minAvail rr rank)"
proof (cases "length tier \<le> 1")
  case True
  then consider "tier = []" | t where "tier = [t]" by (cases tier) auto
  then show ?thesis
    by cases (simp_all add: orderTierLCR_def lcr_indices_def rotated_rotate)
next
  case False
  then show ?thesis
    by (simp add: orderTierLCR_def lcr_indices_def Let_def tiedLCR_iff)
qed

lemma orderTierLCR_ordered:
  "sorted_wrt (\<lambda>t u. \<not> ranked_before rank mode minAvail u t) (orderTierLCR tier mode minAvail rr rank)"
proof -
  have "ordered_by (\<lambda>a b. lessLCR (map rank tier) a b mode minAvail)
      (lcr_indices tier mode minAvail rr rank)"
    unfolding lcr_indices_def by (rule lcr.rotate_runs_ordered [OF lcr.sort_ordered])
  then show ?thesis
    unfolding orderTierLCR_indices sorted_wrt_map
    by (rule sorted_wrt_mono_rel [rotated]) (simp add: lessLCR_pair [of "map rank tier"])
qed

lemma filter_map_nth:
  assumes "\<And>i. i \<in> set idx \<Longrightarrow> P (xs ! i) = Q i"
  shows "filter P (map ((!) xs) idx) = map ((!) xs) (filter Q idx)"
  using assms by (induction idx) auto

lemma orderTierLCR_ties:
  assumes "t0 \<in> set tier"
  shows "filter (ranked_equal rank mode minAvail t0) (orderTierLCR tier mode minAvail rr rank)
    = rotate rr (filter (ranked_equal rank mode minAvail t0) tier)"
proof -
  obtain y where y: "y < length tier" "tier ! y = t0" using assms by (auto simp: in_set_conv_nth)
  let ?lt = "\<lambda>a b. lessLCR (map rank tier) a b mode minAvail"
  let ?tied = "\<lambda>b. \<not> ?lt y b \<and> \<not> ?lt b y"
  have tie: "ranked_equal rank mode minAvail t0 (tier ! i) = ?tied i" if "i < length tier" for i
    using that y tiedLCR_iff [of "map rank tier" y i mode minAvail]
      tiedLCR_pair [of "map rank tier" y i mode minAvail] by simp
  have "filter ?tied (lcr_indices tier mode minAvail rr rank)
      = rotate rr (filter ?tied (sort_stable ?lt [0..<length tier]))"
    unfolding lcr_indices_def by (rule lcr.rotate_runs_filter [OF lcr.sort_ordered])
  also have "\<dots> = rotate rr (filter ?tied [0..<length tier])"
  proof (subst lcr.sort_stable_tied)
    fix a b assume "?tied a" and "?tied b"
    then show "\<not> ?lt a b" using lcr.lt_incomp [of "map rank tier" a y mode minAvail b] by blast
  qed (rule refl)
  finally have idx: "filter ?tied (lcr_indices tier mode minAvail rr rank)
      = rotate rr (filter ?tied [0..<length tier])" .
  have "filter (ranked_equal rank mode minAvail t0) (orderTierLCR tier mode minAvail rr rank)
      = map ((!) tier) (filter ?tied (lcr_indices tier mode minAvail rr rank))"
    unfolding orderTierLCR_indices by (rule filter_map_nth) (rule tie, simp)
  also have "\<dots> = rotate rr (map ((!) tier) (filter ?tied [0..<length tier]))"
    unfolding idx by (rule rotate_map [symmetric])
  also have "map ((!) tier) (filter ?tied [0..<length tier])
      = filter (ranked_equal rank mode minAvail t0) (map ((!) tier) [0..<length tier])"
    by (rule filter_map_nth [symmetric]) (rule tie, simp)
  finally show ?thesis by (simp add: map_nth)
qed

section \<open>Grouping rows into tiers\<close>

lemma group_tiers_concat:
  "concat (group_tiers unmarshal tiers lp rows) = concat tiers @ map (row_target unmarshal) rows"
proof (induction rows arbitrary: tiers lp)
  case (Cons r rows)
  have "concat (butlast ts @ [last ts @ [x]]) = concat ts @ [x]" if "ts \<noteq> []" for ts :: "target list list" and x
    using that by (cases ts rule: rev_cases) auto
  with Cons show ?case by (simp add: Let_def)
qed simp

text \<open>Tiers open so far: none empty, each of one priority, priorities increasing, the last one open.\<close>

definition tiers_ok :: "target list list \<Rightarrow> int \<Rightarrow> bool" where
  "tiers_ok tiers lp \<longleftrightarrow>
     [] \<notin> set tiers
     \<and> (\<forall>tier \<in> set tiers. \<forall>t \<in> set tier. tg_Tier t = tg_Tier (hd tier))
     \<and> sorted_wrt (<) (map (\<lambda>tier. tg_Tier (hd tier)) tiers)
     \<and> (tiers \<noteq> [] \<longrightarrow> tg_Tier (hd (last tiers)) = lp)"

lemma tier_of_row [simp]: "tg_Tier (row_target unmarshal r) = tr_priority r"
  by (simp add: row_target_def)

lemma tiers_ok_extend:
  assumes "tiers_ok tiers lp" and "tiers \<noteq> []" and "tg_Tier t = lp"
  shows "tiers_ok (butlast tiers @ [last tiers @ [t]]) lp"
proof (cases tiers rule: rev_cases)
  case (snoc us u)
  with assms have "u \<noteq> []" by (auto simp: tiers_ok_def)
  with snoc assms show ?thesis by (auto simp: tiers_ok_def sorted_wrt_append)
qed (use assms in simp)

lemma tiers_ok_open:
  assumes "tiers_ok tiers lp" and "tiers \<noteq> [] \<Longrightarrow> lp < tg_Tier t"
  shows "tiers_ok (tiers @ [[t]]) (tg_Tier t)"
proof (cases tiers rule: rev_cases)
  case Nil
  then show ?thesis by (simp add: tiers_ok_def)
next
  case (snoc us u)
  have u: "tg_Tier (hd u) = lp" "sorted_wrt (<) (map (\<lambda>tier. tg_Tier (hd tier)) us @ [tg_Tier (hd u)])"
    using assms(1) snoc by (auto simp: tiers_ok_def)
  have new: "lp < tg_Tier t" using assms(2) snoc by simp
  have "\<forall>x \<in> set us. tg_Tier (hd x) < lp" using u by (simp add: sorted_wrt_append)
  with new have "\<forall>x \<in> set us. tg_Tier (hd x) < tg_Tier t" by auto
  then have "sorted_wrt (<) (map (\<lambda>tier. tg_Tier (hd tier)) (tiers @ [[t]]))"
    using u new snoc by (simp add: sorted_wrt_append)
  then show ?thesis using assms(1) unfolding tiers_ok_def by auto
qed

lemma group_tiers_ok:
  assumes "tiers_ok tiers lp" and "sorted (map tr_priority rows)"
    and "\<And>r. \<lbrakk>tiers \<noteq> []; r \<in> set rows\<rbrakk> \<Longrightarrow> lp \<le> tr_priority r"
  shows "\<exists>lp'. tiers_ok (group_tiers unmarshal tiers lp rows) lp'"
  using assms
proof (induction rows arbitrary: tiers lp)
  case Nil
  then show ?case by auto
next
  case (Cons r rows)
  let ?t = "row_target unmarshal r"
  let ?new = "tiers = [] \<or> tr_priority r \<noteq> lp"
  define opened where "opened = (if ?new then tiers @ [[]] else tiers)"
  have "tiers_ok (butlast opened @ [last opened @ [?t]]) (tr_priority r)"
  proof (cases ?new)
    case True
    have "tiers_ok (tiers @ [[?t]]) (tg_Tier ?t)"
    proof (rule tiers_ok_open [OF Cons.prems(1)])
      assume ne: "tiers \<noteq> []"
      have "lp \<le> tr_priority r" by (rule Cons.prems(3) [OF ne]) simp
      with True ne show "lp < tg_Tier ?t" by simp
    qed
    with True show ?thesis by (simp add: opened_def)
  next
    case False
    then show ?thesis using tiers_ok_extend [of tiers lp ?t] Cons.prems(1) by (simp add: opened_def)
  qed
  then have "\<exists>lp'. tiers_ok (group_tiers unmarshal (butlast opened @ [last opened @ [?t]])
      (tr_priority r) rows) lp'"
    using Cons.prems(2) by (intro Cons.IH) auto
  then show ?case by (simp add: opened_def Let_def)
qed


section \<open>Validated options\<close>

lemma check_recognition_ok:
  assumes "check_recognition seen ms = None"
  shows "distinct (map (\<lambda>e. CanonicalLanguage (fst e)) ms)
    \<and> set (map (\<lambda>e. CanonicalLanguage (fst e)) ms) \<inter> set seen = {}"
  using assms
  by (induction seen ms rule: check_recognition.induct) (auto simp: Let_def split: if_splits)

lemma check_default_voices_ok:
  assumes "check_default_voices seen vs = None"
  shows "distinct (map (\<lambda>e. CanonicalLanguage (fst e)) vs)
    \<and> set (map (\<lambda>e. CanonicalLanguage (fst e)) vs) \<inter> set seen = {}"
  using assms
  by (induction seen vs rule: check_default_voices.induct) (auto simp: Let_def split: if_splits)

definition positive_opt :: "int option \<Rightarrow> bool" where
  "positive_opt v = (case v of None \<Rightarrow> True | Some n \<Rightarrow> 0 < n)"

lemma first_nonpositive_None: "first_nonpositive fs = None \<longleftrightarrow> (\<forall>(name, v) \<in> set fs. positive_opt v)"
  by (induction fs rule: first_nonpositive.induct) (auto simp: positive_opt_def split: option.splits)

definition valid_breaker :: "breaker_options \<Rightarrow> bool" where
  "valid_breaker b \<longleftrightarrow>
     positive_opt (bo_Failures b) \<and> positive_opt (bo_WindowMS b) \<and> positive_opt (bo_MinRequests b)
     \<and> positive_opt (bo_CooldownMS b) \<and> positive_opt (bo_MaxCooldownMS b) \<and> positive_opt (bo_StableMS b)
     \<and> (case bo_ErrorRate b of None \<Rightarrow> True | Some r \<Rightarrow> 0 < r \<and> r \<le> 1)"

lemma breaker_Validate_None:
  "breaker_Validate b0 = None \<longleftrightarrow> (case b0 of None \<Rightarrow> True | Some b \<Rightarrow> valid_breaker b)"
proof (cases b0)
  case (Some b)
  define fs where "fs = [(''failures'', bo_Failures b), (''window_ms'', bo_WindowMS b),
    (''min_requests'', bo_MinRequests b), (''cooldown_ms'', bo_CooldownMS b),
    (''max_cooldown_ms'', bo_MaxCooldownMS b), (''stable_ms'', bo_StableMS b)]"
  have "first_nonpositive fs = None \<longleftrightarrow> positive_opt (bo_Failures b) \<and> positive_opt (bo_WindowMS b)
      \<and> positive_opt (bo_MinRequests b) \<and> positive_opt (bo_CooldownMS b)
      \<and> positive_opt (bo_MaxCooldownMS b) \<and> positive_opt (bo_StableMS b)"
    unfolding first_nonpositive_None by (simp add: fs_def)
  moreover have "breaker_Validate (Some b)
      = (case first_nonpositive fs of
           Some err \<Rightarrow> Some err
         | None \<Rightarrow> (case bo_ErrorRate b of
                    None \<Rightarrow> None
                  | Some r \<Rightarrow> if r \<le> 0 \<or> r > 1 then Some ''breaker.error_rate must be in (0, 1]''
                             else None))"
    by (simp only: breaker_Validate_def option.case fs_def)
  ultimately show ?thesis unfolding Some valid_breaker_def
    by (cases "first_nonpositive fs"; cases "bo_ErrorRate b") (auto simp: not_le)
qed (simp add: breaker_Validate_def)

definition valid_options :: "target_options \<Rightarrow> bool" where
  "valid_options o' \<longleftrightarrow>
     (case to_TimeoutMS o' of None \<Rightarrow> True | Some t \<Rightarrow> 0 \<le> t)
     \<and> (case to_Breaker o' of None \<Rightarrow> True | Some b \<Rightarrow> valid_breaker b)
     \<and> (to_Thinking o' = None \<or> ThinkingOff o')
     \<and> one_per_language (to_RecognitionModels o') \<and> one_per_language (to_DefaultVoices o')"

lemma no_options_valid [simp]: "valid_options no_options"
  by (simp add: valid_options_def no_options_def one_per_language_def)

lemma ParseTargetOptions_valid:
  assumes "ParseTargetOptions unmarshal raw = Inr o'"
  shows "valid_options o'"
proof (cases "trim_space raw = [] \<or> trim_space raw = ''null''")
  case True
  with assms show ?thesis by (auto simp: ParseTargetOptions_def Let_def)
next
  case False
  with assms have "unmarshal raw = Inr o'"
    "\<not> (case to_TimeoutMS o' of None \<Rightarrow> False | Some t \<Rightarrow> t < 0)"
    "breaker_Validate (to_Breaker o') = None"
    "to_Thinking o' = None \<or> to_Thinking o' = Some thinkingOff"
    "check_recognition [] (to_RecognitionModels o') = None"
    "check_default_voices [] (to_DefaultVoices o') = None"
    by (auto simp: ParseTargetOptions_def Let_def split: if_splits sum.splits option.splits)
  then show ?thesis
    using check_recognition_ok [of "[]"] check_default_voices_ok [of "[]"] breaker_Validate_None
    by (auto simp: valid_options_def ThinkingOff_def one_per_language_def split: option.splits)
qed

lemma row_target_valid [simp]: "valid_options (tg_Options (row_target unmarshal r))"
  by (auto simp: row_target_def split: sum.split dest: ParseTargetOptions_valid)

section \<open>Properties\<close>

text \<open>
  A request tries every target of its plan exactly once, and finishes a tier before it starts
  the next one: the first targets tried, as many as the first \<open>k\<close> tiers hold, are the targets of
  those tiers, under every strategy.
\<close>
theorem ordered_tier_by_tier:
  "mset (take (length (concat (take k (pl_Tiers p)))) (Ordered p rr free rank))
     = mset (concat (take k (pl_Tiers p)))
   \<and> mset (Ordered p rr free rank) = mset (concat (pl_Tiers p))"
proof -
  define f where "f = (\<lambda>tier. if pl_Strategy p = ''lcr''
      then orderTierLCR tier (pl_LCRMode p) (pl_LCRMinAvailability p) rr rank
      else orderTier tier (pl_Strategy p) rr free)"
  have f: "mset (f tier) = mset tier" for tier
    by (simp add: f_def mset_orderTier mset_orderTierLCR)
  then have len: "length (f tier) = length tier" for tier by (metis size_mset)
  have m: "mset (concat (map f ts)) = mset (concat ts)" for ts by (induction ts) (simp_all add: f)
  have l: "length (concat (map f ts)) = length (concat ts)" for ts by (induction ts) (simp_all add: len)
  have "Ordered p rr free rank
      = concat (map f (take k (pl_Tiers p))) @ concat (map f (drop k (pl_Tiers p)))"
    unfolding Ordered_def f_def [symmetric] by (metis append_take_drop_id concat_append map_append)
  then have "take (length (concat (take k (pl_Tiers p)))) (Ordered p rr free rank)
      = concat (map f (take k (pl_Tiers p)))" by (simp add: l)
  moreover have "Ordered p rr free rank = concat (map f (pl_Tiers p))"
    by (simp add: Ordered_def f_def)
  ultimately show ?thesis using m by simp
qed

text \<open>
  Under least-cost routing no target is tried before one that ranks better in its tier (cheaper,
  more available, or above the availability gate, by mode), and the targets that rank equally are
  tried in their configured order rotated by the tick, whatever else is in the tier.
\<close>
theorem lcr_ranked_and_ties_rotate:
  assumes "t0 \<in> set tier"
  shows "sorted_wrt (\<lambda>t u. \<not> ranked_before rank mode minAvail u t)
      (orderTierLCR tier mode minAvail rr rank)
    \<and> filter (ranked_equal rank mode minAvail t0) (orderTierLCR tier mode minAvail rr rank)
      = rotate rr (filter (ranked_equal rank mode minAvail t0) tier)"
  using orderTierLCR_ordered orderTierLCR_ties [OF assms] by blast

definition demo_target :: "string \<Rightarrow> target" where
  "demo_target p = \<lparr>tg_Provider = p, tg_UpstreamModel = ''m'', tg_UpstreamProtocol = ''openai'',
     tg_DisplayLabel = [], tg_Options = no_options, tg_Tier = 0\<rparr>"

definition demo_rank :: "target \<Rightarrow> lcr_rank" where
  "demo_rank t = \<lparr>rk_Price = (if tg_Provider t = ''x'' then Unpriced else Priced 2), rk_Availability = 1\<rparr>"

theorem lcr_ranked_and_ties_rotate_witness:
  "filter (ranked_equal demo_rank ''price'' 0 (demo_target ''a''))
     (orderTierLCR [demo_target ''x'', demo_target ''a'', demo_target ''b''] ''price'' 0 3 demo_rank)
   = [demo_target ''b'', demo_target ''a'']"
proof -
  have "demo_target ''a'' \<in> set [demo_target ''x'', demo_target ''a'', demo_target ''b'']" by simp
  from lcr_ranked_and_ties_rotate [OF this, of demo_rank "''price''" 0 3] show ?thesis
    by (simp add: tiedLCR_def demo_rank_def demo_target_def numeral_3_eq_3)
qed

text \<open>The ticks \<open>n\<close> requests in a row get.\<close>

fun rr_ticks :: "string \<Rightarrow> nat \<Rightarrow> router \<Rightarrow> nat list" where
  "rr_ticks alias 0 r = []"
| "rr_ticks alias (Suc n) r = snd (NextRR alias r) # rr_ticks alias n (fst (NextRR alias r))"

lemma rr_ticks_upt:
  "rt_rr r alias + n \<le> 2 ^ 64 \<Longrightarrow> rr_ticks alias n r = [rt_rr r alias..<rt_rr r alias + n]"
proof (induction n arbitrary: r)
  case (Suc n)
  show ?case
  proof (cases n)
    case 0
    then show ?thesis by (simp add: NextRR_def)
  next
    case (Suc m)
    with Suc.prems have "(rt_rr r alias + 1) mod 2 ^ 64 = rt_rr r alias + 1" by simp
    then show ?thesis using Suc.IH [of "fst (NextRR alias r)"] Suc.prems
      by (simp add: NextRR_def upt_conv_Cons)
  qed
qed simp

lemma hd_rotations: "xs \<noteq> [] \<Longrightarrow> mset (map (\<lambda>r. hd (rotate r xs)) [k..<k + length xs]) = mset xs"
proof -
  assume ne: "xs \<noteq> []"
  have "map (\<lambda>r. hd (rotate r xs)) [k..<k + length xs] = rotate k xs"
  proof (rule nth_equalityI)
    fix i assume "i < length (map (\<lambda>r. hd (rotate r xs)) [k..<k + length xs])"
    then have i: "i < length xs" by simp
    then show "map (\<lambda>r. hd (rotate r xs)) [k..<k + length xs] ! i = rotate k xs ! i"
      using ne by (simp add: hd_rotate_conv_nth nth_rotate)
  qed simp
  then show ?thesis by simp
qed

text \<open>
  Round robin is fair: over as many requests in a row as the tier has targets, each target is
  tried first exactly once, from whatever tick the alias's counter stands at (up to the wrap of the
  64-bit counter).
\<close>
theorem round_robin_fair:
  assumes "tier \<noteq> []" and "strategy \<noteq> ''least_busy''" and "rt_rr r alias + length tier \<le> 2 ^ 64"
  shows "mset (map (\<lambda>tick. hd (orderTier tier strategy tick free)) (rr_ticks alias (length tier) r))
    = mset tier"
proof -
  have "orderTier tier strategy tick free = rotate tick tier" for tick
  proof (cases "length tier \<le> 1")
    case True
    with assms(1) obtain t where "tier = [t]" by (cases tier) auto
    then show ?thesis by (simp add: orderTier_def)
  next
    case False
    then show ?thesis using assms(2) by (simp add: orderTier_def Let_def rotated_rotate)
  qed
  then show ?thesis using rr_ticks_upt [OF assms(3)] hd_rotations [OF assms(1)] by simp
qed

theorem round_robin_fair_witness:
  "mset (map (\<lambda>tick. hd (orderTier [demo_target ''a'', demo_target ''b''] ''round_robin'' tick (\<lambda>_. 0)))
     (rr_ticks ''m'' (length [demo_target ''a'', demo_target ''b''])
        \<lparr>rt_rr = (\<lambda>_. 41), rt_aliases = lc_new\<rparr>))
   = mset [demo_target ''a'', demo_target ''b'']"
  by (rule round_robin_fair) simp_all

text \<open>
  A resolved alias has at least one tier and no empty one; its tiers hold the catalog's rows in
  their order, one priority per tier and priorities strictly increasing, given that the database
  returns the rows ordered by priority; and the options of every target are within their documented
  ranges, since rows with invalid options fall back to the defaults.
\<close>
theorem resolve_alias_tiers:
  assumes "resolveAlias unmarshal cat model = Inr p" and "cat_targets cat model = Inr rows"
    and "sorted (map tr_priority rows)"
  shows "pl_Tiers p \<noteq> [] \<and> [] \<notin> set (pl_Tiers p)
    \<and> concat (pl_Tiers p) = map (row_target unmarshal) rows
    \<and> (\<forall>tier \<in> set (pl_Tiers p). \<forall>t \<in> set tier. tg_Tier t = tg_Tier (hd tier))
    \<and> sorted_wrt (<) (map (\<lambda>tier. tg_Tier (hd tier)) (pl_Tiers p))
    \<and> (\<forall>t \<in> set (concat (pl_Tiers p)). valid_options (tg_Options t))"
proof -
  have tiers: "pl_Tiers p = group_tiers unmarshal [] (- 1) rows" "pl_Tiers p \<noteq> []"
    using assms(1,2)
    by (auto simp: resolveAlias_def Let_def split: sum.splits option.splits if_splits)
  obtain lp where "tiers_ok (pl_Tiers p) lp"
    using group_tiers_ok [of "[]" "- 1" rows unmarshal] assms(3) tiers(1) by (auto simp: tiers_ok_def)
  moreover have c: "concat (pl_Tiers p) = map (row_target unmarshal) rows"
    using group_tiers_concat [of unmarshal "[]"] tiers(1) by simp
  ultimately show ?thesis using tiers(2) by (auto simp: tiers_ok_def simp del: set_concat)
qed

definition demo_row :: "int \<Rightarrow> string \<Rightarrow> target_row" where
  "demo_row n p = \<lparr>tr_priority = n, tr_provider = p, tr_upstream_model = ''m'', tr_kind = ''openai'',
     tr_display_label = [], tr_options = ''{}''\<rparr>"

definition demo_catalog :: catalog where
  "demo_catalog = \<lparr>cat_alias = (\<lambda>_. Inr (Some \<lparr>ar_strategy = ''lcr'', ar_lcr_mode = ''price'',
       ar_lcr_min_availability = 0, ar_dlp_model_scan = False, ar_expose_backend_headers = False,
       ar_dlp_audio_scan = False, ar_session_affinity = True, ar_session_affinity_ttl_s = 60,
       ar_synthesis_cache = False, ar_synthesis_cache_ttl_s = 0\<rparr>)),
     cat_targets = (\<lambda>_. Inr [demo_row 0 ''a'', demo_row 0 ''b'', demo_row 7 ''c'']),
     cat_provider = (\<lambda>p. Inr (Some (''openai'', p = ''a'')))\<rparr>"

theorem resolve_alias_tiers_witness:
  "\<exists>p. resolveAlias (\<lambda>_. Inr no_options) demo_catalog ''fast'' = Inr p
     \<and> length (pl_Tiers p) = 2
     \<and> sorted_wrt (<) (map (\<lambda>tier. tg_Tier (hd tier)) (pl_Tiers p))"
proof -
  define p where "p = projr (resolveAlias (\<lambda>_. Inr no_options) demo_catalog ''fast'')"
  have r: "resolveAlias (\<lambda>_. Inr no_options) demo_catalog ''fast'' = Inr p" "length (pl_Tiers p) = 2"
    by (simp_all add: p_def resolveAlias_def demo_catalog_def demo_row_def Let_def)
  have rows: "cat_targets demo_catalog ''fast'' = Inr [demo_row 0 ''a'', demo_row 0 ''b'', demo_row 7 ''c'']"
    by (simp add: demo_catalog_def)
  from resolve_alias_tiers [OF r(1) rows] r show ?thesis by (auto simp: demo_row_def)
qed

lemma cut_at_join: "c \<in> set s \<Longrightarrow> fst (cut_at c s) @ c # fst (snd (cut_at c s)) = s"
  by (induction s) (auto simp: cut_at_def)

text \<open>
  Explicit provider routing is gated: a model name with a slash resolves only for a key that may
  route explicitly, to the single target the name spells (the part before the first slash is the
  provider, the rest the upstream model), and only when that provider is enabled. The alias cache is
  not touched.
\<close>
theorem resolve_passthrough_gated:
  assumes "CHR ''/'' \<in> set model"
    and "Resolve unmarshal cat opts now now2 model allowed r = (r', Inr p)"
  shows "allowed \<and> r' = r
    \<and> (\<exists>t kind. pl_Tiers p = [[t]] \<and> tg_Provider t @ CHR ''/'' # tg_UpstreamModel t = model
         \<and> tg_UpstreamModel t \<noteq> [] \<and> cat_provider cat (tg_Provider t) = Inr (Some (kind, True)))"
proof -
  obtain a b f where c: "cut_at CHR ''/'' model = (a, b, f)" by (metis prod_cases3)
  have ab: "a @ CHR ''/'' # b = model" using cut_at_join [OF assms(1)] c by simp
  from assms c obtain t where "allowed" "r' = r" and t: "passthroughTarget cat a b = Inr t"
    and p: "pl_Tiers p = [[t]]"
    by (auto simp: Resolve_def split: if_splits sum.splits)
  from t have "b \<noteq> []" "tg_Provider t = a" "tg_UpstreamModel t = b"
    "\<exists>kind. cat_provider cat a = Inr (Some (kind, True))"
    by (auto simp: passthroughTarget_def split: if_splits sum.splits option.splits)
  then show ?thesis using \<open>allowed\<close> \<open>r' = r\<close> p ab by auto
qed

theorem resolve_passthrough_gated_witness:
  "\<exists>p t kind. snd (Resolve (\<lambda>_. Inr no_options) demo_catalog demo_opts 0 0 ''a/b/c'' True
        \<lparr>rt_rr = (\<lambda>_. 0), rt_aliases = lc_new\<rparr>) = Inr p
     \<and> pl_Tiers p = [[t]] \<and> tg_Provider t @ CHR ''/'' # tg_UpstreamModel t = ''a/b/c''
     \<and> cat_provider demo_catalog (tg_Provider t) = Inr (Some (kind, True))"
proof -
  let ?r = "\<lparr>rt_rr = (\<lambda>_. 0), rt_aliases = lc_new\<rparr>"
  obtain p where p: "Resolve (\<lambda>_. Inr no_options) demo_catalog demo_opts 0 0 ''a/b/c'' True ?r = (?r, Inr p)"
    by (simp add: Resolve_def cut_at_def passthroughTarget_def demo_catalog_def)
  from resolve_passthrough_gated [OF _ p] p show ?thesis by auto
qed

text \<open>
  How a target speaks a voice does not depend on the order in which Go walks its maps once the
  options were accepted by the parser, and a target without voice maps passes every voice on.
\<close>
theorem speak_as_deterministic:
  assumes "ParseTargetOptions unmarshal raw = Inr o'"
    and "mset walk = mset (to_DefaultVoices o')"
  shows "SpeakAs (o'\<lparr>to_DefaultVoices := walk\<rparr>) voice language = SpeakAs o' voice language"
proof -
  have one: "one_per_language (to_DefaultVoices o')"
    using ParseTargetOptions_valid [OF assms(1)] by (simp add: valid_options_def)
  have empty: "walk = [] \<longleftrightarrow> to_DefaultVoices o' = []" using assms(2) by auto
  have "ForLanguage walk tag = ForLanguage (to_DefaultVoices o') tag" for tag
  proof (cases "tag = []")
    case False
    then show ?thesis
      using ForLanguage_spec [OF one False] ForLanguage_spec [OF canonical_map_perm(2) [OF one assms(2)] False]
      unfolding canonical_map_perm(1) [OF one assms(2)] by simp
  qed (simp add: ForLanguage_def)
  then show ?thesis by (simp add: SpeakAs_def empty Let_def cong: option.case_cong)
qed

definition demo_voices :: "(string \<times> voice_choice) list" where
  "demo_voices = [(''en'', \<lparr>vc_Voice = ''amy'', vc_Model = [], vc_Language = [], vc_Gender = []\<rparr>),
     (''en-GB'', \<lparr>vc_Voice = ''alan'', vc_Model = [], vc_Language = [], vc_Gender = []\<rparr>)]"

theorem speak_as_deterministic_witness:
  "SpeakAs (no_options\<lparr>to_DefaultVoices := demo_voices, to_DefaultVoices := rev demo_voices\<rparr>) ''x'' ''en-gb''
   = SpeakAs (no_options\<lparr>to_DefaultVoices := demo_voices\<rparr>) ''x'' ''en-gb''"
proof -
  have "ParseTargetOptions (\<lambda>_. Inr (no_options\<lparr>to_DefaultVoices := demo_voices\<rparr>)) ''{}''
      = Inr (no_options\<lparr>to_DefaultVoices := demo_voices\<rparr>)"
    by code_simp
  from speak_as_deterministic [OF this, of "rev demo_voices"] show ?thesis
    by (simp add: no_options_def)
qed

end
