(* ===== verification/Usage.thy ===== *)
theory Usage
  imports GoStrings
begin

text \<open>
  Token accounting of one response (\<open>internal/llm/usage.go\<close>): the counts, their wire shape, and the
  normalisation that reconciles the vendors' reports. Counts are 64-bit integers, so every sum is
  written with \<open>wrap64\<close>.
\<close>

section \<open>Model\<close>

record usage =
  PromptTokens :: int
  CompletionTokens :: int
  TotalTokens :: int
  ReasoningTokens :: int

record usage_wire =
  uw_PromptTokens :: int
  uw_CompletionTokens :: int
  uw_TotalTokens :: int
  uw_Details :: "int option"

definition zero_usage :: usage where
  "zero_usage = \<lparr>PromptTokens = 0, CompletionTokens = 0, TotalTokens = 0, ReasoningTokens = 0\<rparr>"

definition fold_residual :: "usage \<Rightarrow> usage" where
  "fold_residual u =
     (let residual = wrap64 (wrap64 (TotalTokens u - PromptTokens u) - CompletionTokens u)
      in if residual > 0
         then u\<lparr>CompletionTokens := wrap64 (CompletionTokens u + residual),
                ReasoningTokens := (if residual > ReasoningTokens u then residual else ReasoningTokens u)\<rparr>
         else u)"

definition cover_reasoning :: "usage \<Rightarrow> usage" where
  "cover_reasoning u =
     (if ReasoningTokens u > CompletionTokens u then u\<lparr>CompletionTokens := ReasoningTokens u\<rparr> else u)"

definition raise_total :: "usage \<Rightarrow> usage" where
  "raise_total u =
     (let sum = wrap64 (PromptTokens u + CompletionTokens u)
      in if TotalTokens u < sum then u\<lparr>TotalTokens := sum\<rparr> else u)"

definition Normalize :: "usage \<Rightarrow> usage" where
  "Normalize u = raise_total (cover_reasoning (fold_residual u))"

definition BilledTokens :: "usage \<Rightarrow> int" where
  "BilledTokens u = wrap64 (PromptTokens u + CompletionTokens u)"

definition usage_MarshalJSON :: "usage \<Rightarrow> usage_wire" where
  "usage_MarshalJSON u =
     \<lparr>uw_PromptTokens = PromptTokens u, uw_CompletionTokens = CompletionTokens u,
      uw_TotalTokens = TotalTokens u,
      uw_Details = (if ReasoningTokens u > 0 then Some (ReasoningTokens u) else None)\<rparr>"

text \<open>What the receiver holds after a decode; \<open>None\<close> is a JSON \<open>null\<close>, which leaves it alone.\<close>

definition usage_UnmarshalJSON :: "usage \<Rightarrow> usage_wire option \<Rightarrow> usage" where
  "usage_UnmarshalJSON u0 w0 =
     (case w0 of
        None \<Rightarrow> u0
      | Some w \<Rightarrow> Normalize
          \<lparr>PromptTokens = uw_PromptTokens w, CompletionTokens = uw_CompletionTokens w,
           TotalTokens = uw_TotalTokens w,
           ReasoningTokens = (case uw_Details w of None \<Rightarrow> 0 | Some r \<Rightarrow> r)\<rparr>)"

section \<open>The invariant\<close>

text \<open>Counts far from the edge of the 64-bit range, where no sum of the code wraps.\<close>

definition sane :: "usage \<Rightarrow> bool" where
  "sane u \<longleftrightarrow>
     (\<forall>n \<in> {PromptTokens u, CompletionTokens u, TotalTokens u, ReasoningTokens u}.
        - (2 ^ 59) \<le> n \<and> n < 2 ^ 59)"

definition usage_ok :: "usage \<Rightarrow> bool" where
  "usage_ok u \<longleftrightarrow>
     TotalTokens u = PromptTokens u + CompletionTokens u \<and> ReasoningTokens u \<le> CompletionTokens u"

lemma Normalize_sane:
  assumes "sane u"
  shows "usage_ok (Normalize u)
    \<and> PromptTokens (Normalize u) = PromptTokens u
    \<and> CompletionTokens u \<le> CompletionTokens (Normalize u)
    \<and> TotalTokens u \<le> TotalTokens (Normalize u) \<and> ReasoningTokens u \<le> ReasoningTokens (Normalize u)"
  using assms
  unfolding Normalize_def raise_total_def cover_reasoning_def fold_residual_def usage_ok_def sane_def
  by (simp add: Let_def in_int64_def)

lemma Normalize_fixed:
  assumes "usage_ok u" and "in_int64 (TotalTokens u)" and "in_int64 (CompletionTokens u)"
  shows "Normalize u = u"
  using assms unfolding Normalize_def raise_total_def cover_reasoning_def fold_residual_def usage_ok_def
  by (simp add: Let_def)

section \<open>Properties\<close>

text \<open>
  Normalising a vendor's report establishes the accounting invariant: the total is prompt plus
  completion and reasoning is a share of completion. It never lowers a count and never touches the
  prompt, so no reported output goes unbilled; and it is idempotent, so meeting it again at another
  decode layer changes nothing.
\<close>
theorem normalize_invariant:
  assumes "sane u"
  shows "TotalTokens (Normalize u) = PromptTokens (Normalize u) + CompletionTokens (Normalize u)
    \<and> ReasoningTokens (Normalize u) \<le> CompletionTokens (Normalize u)
    \<and> PromptTokens (Normalize u) = PromptTokens u
    \<and> CompletionTokens u \<le> CompletionTokens (Normalize u)
    \<and> TotalTokens u \<le> TotalTokens (Normalize u)
    \<and> BilledTokens (Normalize u) = TotalTokens (Normalize u)
    \<and> Normalize (Normalize u) = Normalize u"
proof -
  note n = Normalize_sane [OF assms]
  have b: "in_int64 (TotalTokens (Normalize u))" "in_int64 (CompletionTokens (Normalize u))"
    using assms unfolding Normalize_def raise_total_def cover_reasoning_def fold_residual_def sane_def
    by (simp_all add: Let_def in_int64_def)
  then have "Normalize (Normalize u) = Normalize u" using n by (intro Normalize_fixed) auto
  moreover have "BilledTokens (Normalize u) = TotalTokens (Normalize u)"
    using n b unfolding usage_ok_def BilledTokens_def by (metis wrap64_id)
  ultimately show ?thesis using n by (simp add: usage_ok_def)
qed

text \<open>A Vertex report: 10 prompt, 5 visible, 40 in total, so 25 went into thinking.\<close>

definition vertex_report :: usage where
  "vertex_report = \<lparr>PromptTokens = 10, CompletionTokens = 5, TotalTokens = 40, ReasoningTokens = 0\<rparr>"

theorem normalize_invariant_witness:
  "BilledTokens (Normalize vertex_report) = 40 \<and> ReasoningTokens (Normalize vertex_report) = 25
   \<and> Normalize (Normalize vertex_report) = Normalize vertex_report"
proof -
  have "sane vertex_report" by (simp add: sane_def vertex_report_def)
  note n = normalize_invariant [OF this]
  have "TotalTokens (Normalize vertex_report) = 40" "ReasoningTokens (Normalize vertex_report) = 25"
    by (simp_all add: Normalize_def raise_total_def cover_reasoning_def fold_residual_def
        vertex_report_def Let_def in_int64_def)
  with n show ?thesis by simp
qed

text \<open>
  The wire form round-trips: decoding what a normalised usage encodes to gives the usage back,
  the reasoning share included, whatever the receiver held before.
\<close>
theorem usage_wire_roundtrip:
  assumes "usage_ok u" and "0 \<le> ReasoningTokens u"
    and "in_int64 (TotalTokens u)" and "in_int64 (CompletionTokens u)"
  shows "usage_UnmarshalJSON u0 (Some (usage_MarshalJSON u)) = u"
proof -
  have "(case uw_Details (usage_MarshalJSON u) of None \<Rightarrow> 0 | Some r \<Rightarrow> r) = ReasoningTokens u"
    using assms(2) by (simp add: usage_MarshalJSON_def)
  then have "usage_UnmarshalJSON u0 (Some (usage_MarshalJSON u)) = Normalize u"
    by (cases u) (simp add: usage_UnmarshalJSON_def usage_MarshalJSON_def)
  then show ?thesis using Normalize_fixed [OF assms(1,3,4)] by simp
qed

theorem usage_wire_roundtrip_witness:
  "usage_UnmarshalJSON zero_usage (Some (usage_MarshalJSON
     \<lparr>PromptTokens = 10, CompletionTokens = 30, TotalTokens = 40, ReasoningTokens = 25\<rparr>))
   = \<lparr>PromptTokens = 10, CompletionTokens = 30, TotalTokens = 40, ReasoningTokens = 25\<rparr>"
  by (rule usage_wire_roundtrip) (simp_all add: usage_ok_def in_int64_def)

end
