(* ===== verification/Encoding.thy ===== *)
theory Encoding
  imports GoStrings
begin

text \<open>
  Byte encodings that are hashed into keys and fingerprints: big-endian numbers, and prefix codes,
  encodings that can be read off the front of a byte stream, which is what makes a concatenation of
  length-prefixed fields identify its fields.
\<close>

section \<open>Big-endian numbers\<close>

text \<open>\<open>binary.BigEndian\<close>: \<open>k\<close> bytes, the most significant first.\<close>

fun be_bytes :: "nat \<Rightarrow> nat \<Rightarrow> nat list" where
  "be_bytes 0 n = []"
| "be_bytes (Suc k) n = be_bytes k (n div 256) @ [n mod 256]"

lemma length_be_bytes [simp]: "length (be_bytes k n) = k"
  by (induction k arbitrary: n) auto

lemma be_bytes_inject:
  "\<lbrakk>m < 256 ^ k; n < 256 ^ k; be_bytes k m = be_bytes k n\<rbrakk> \<Longrightarrow> m = n"
proof (induction k arbitrary: m n)
  case (Suc k)
  have "m div 256 < 256 ^ k" "n div 256 < 256 ^ k"
    using Suc.prems(1,2) by (simp_all add: less_mult_imp_div_less mult.commute)
  moreover have "be_bytes k (m div 256) = be_bytes k (n div 256)" "m mod 256 = n mod 256"
    using Suc.prems(3) by simp_all
  ultimately have "m div 256 = n div 256" using Suc.IH by blast
  then show ?case using \<open>m mod 256 = n mod 256\<close> by (metis div_mult_mod_eq)
qed simp

section \<open>Prefix codes\<close>

text \<open>Encodings that can be read off the front of a byte stream.\<close>

definition prefix_code :: "('a \<Rightarrow> bool) \<Rightarrow> ('a \<Rightarrow> 'b list) \<Rightarrow> bool" where
  "prefix_code ok enc \<longleftrightarrow>
     (\<forall>x y u v. ok x \<longrightarrow> ok y \<longrightarrow> enc x @ u = enc y @ v \<longrightarrow> x = y \<and> u = v)"

lemma prefix_codeD: "\<lbrakk>prefix_code ok enc; ok x; ok y; enc x @ u = enc y @ v\<rbrakk> \<Longrightarrow> x = y \<and> u = v"
  unfolding prefix_code_def by blast

lemma prefix_code_pair:
  assumes "prefix_code okA encA" and "prefix_code okB encB"
  shows "prefix_code (\<lambda>(a, b). okA a \<and> okB b) (\<lambda>(a, b). encA a @ encB b)"
  unfolding prefix_code_def
proof (clarsimp)
  fix a b a' b' u v
  assume ok: "okA a" "okB b" "okA a'" "okB b'" and "encA a @ encB b @ u = encA a' @ encB b' @ v"
  then have "a = a'" and "encB b @ u = encB b' @ v" using prefix_codeD [OF assms(1)] by blast+
  then show "a = a' \<and> b = b' \<and> u = v" using prefix_codeD [OF assms(2) ok(2,4)] by blast
qed

lemma prefix_code_map:
  assumes "prefix_code ok enc" and "inj f" and "\<And>x. ok' x \<Longrightarrow> ok (f x)"
  shows "prefix_code ok' (\<lambda>x. enc (f x))"
  using assms unfolding prefix_code_def inj_def by blast

lemma prefix_code_concat:
  assumes "prefix_code ok enc" and "\<And>x. enc x \<noteq> []"
    and "list_all ok xs" and "list_all ok ys" and "concat (map enc xs) = concat (map enc ys)"
  shows "xs = ys"
  using assms(3-5)
proof (induction xs arbitrary: ys)
  case Nil
  then show ?case using assms(2) by (cases ys) auto
next
  case (Cons x xs)
  obtain y ys' where ys: "ys = y # ys'" using Cons.prems(3) assms(2) by (cases ys) auto
  have "enc x @ concat (map enc xs) = enc y @ concat (map enc ys')" using Cons.prems(3) ys by simp
  moreover have "ok x" "ok y" using Cons.prems(1,2) ys by simp_all
  ultimately have "x = y" "concat (map enc xs) = concat (map enc ys')"
    using prefix_codeD [OF assms(1)] by blast+
  then show ?case using Cons.IH [of ys'] Cons.prems(1,2) ys by simp
qed

lemma prefix_code_be_bytes: "prefix_code (\<lambda>n. n < 256 ^ k) (be_bytes k)"
  unfolding prefix_code_def
proof (intro allI impI)
  fix x y :: nat and u v
  assume b: "x < 256 ^ k" "y < 256 ^ k" and "be_bytes k x @ u = be_bytes k y @ v"
  then have "be_bytes k x = be_bytes k y" "u = v" by (simp_all add: append_eq_append_conv)
  then show "x = y \<and> u = v" using be_bytes_inject [OF b] by blast
qed

text \<open>A string after its length in \<open>k\<close> bytes.\<close>

definition len_str :: "nat \<Rightarrow> string \<Rightarrow> nat list" where
  "len_str k s = be_bytes k (length s mod 256 ^ k) @ map of_char s"

lemma prefix_code_len_str: "prefix_code (\<lambda>s. length s < 256 ^ k) (len_str k)"
proof -
  have inj: "inj (of_char :: char \<Rightarrow> nat)" by (rule injI) simp
  have "s = t \<and> u = v"
    if "length s < 256 ^ k" "length t < 256 ^ k" "len_str k s @ u = len_str k t @ v" for s t u v
  proof -
    have "length s mod 256 ^ k = length s" "length t mod 256 ^ k = length t"
      using that(1,2) by (simp_all only: mod_less)
    with that(3) have "be_bytes k (length s) @ map of_char s @ u = be_bytes k (length t) @ map of_char t @ v"
      by (simp only: len_str_def append_assoc)
    from prefix_codeD [OF prefix_code_be_bytes that(1,2) this] have "length s = length t"
      and "map of_char s @ u = map of_char t @ v" by blast+
    then have "map (of_char :: char \<Rightarrow> nat) s = map of_char t \<and> u = v"
      by (metis append_eq_append_conv length_map)
    then show ?thesis using inj inj_map_eq_map by blast
  qed
  then show ?thesis unfolding prefix_code_def by blast
qed

end
