(* ===== verification/Pricing.thy ===== *)
theory Pricing
  imports Usage Encoding
begin

text \<open>
  Prices (\<open>internal/pricing/pricing.go\<close>): a price row and its validation, the table with its exact
  and wildcard look-up, replacement by fingerprint, and the cost of a call. SHA-256 and the bit
  pattern of a \<open>float64\<close> are parameters; rates and costs are exact rationals, rounded where the code
  rounds.
\<close>

section \<open>Model\<close>

record price_row =
  InputPer1M :: rat
  OutputPer1M :: rat
  Unit :: string
  ContextThreshold :: int
  InputPer1MAbove :: rat
  OutputPer1MAbove :: rat

definition rates :: "price_row \<Rightarrow> int \<Rightarrow> rat \<times> rat" where
  "rates p promptTokens =
     (if ContextThreshold p > 0 \<and> promptTokens > ContextThreshold p
      then (InputPer1MAbove p, OutputPer1MAbove p) else (InputPer1M p, OutputPer1M p))"

definition price_Validate :: "price_row \<Rightarrow> string option" where
  "price_Validate p =
     (if Unit p \<notin> {'''', ''tokens'', ''audio_second'', ''text_char''} then Some (''unknown unit '' @ Unit p)
      else if InputPer1M p < 0 \<or> OutputPer1M p < 0 \<or> InputPer1MAbove p < 0 \<or> OutputPer1MAbove p < 0
        then Some ''rates cannot be negative''
      else if ContextThreshold p < 0 then Some ''context threshold cannot be negative''
      else if ContextThreshold p = 0 then None
      else if Unit p \<noteq> '''' \<and> Unit p \<noteq> ''tokens''
        then Some ''a context threshold prices a prompt in tokens''
      else if InputPer1MAbove p \<le> 0 \<or> OutputPer1MAbove p \<le> 0
        then Some ''a context threshold needs both above-threshold rates''
      else None)"

record row =
  row_Provider :: string
  row_Model :: string
  row_Price :: price_row

definition price_key :: "string \<Rightarrow> string \<Rightarrow> string" where
  "price_key provider model = provider @ CHR 0x00 # model"

text \<open>The table: \<open>None\<close> is the zero fingerprint of a fresh table or after a \<open>Set\<close>.\<close>

record 'h price_table =
  pt_prices :: "string \<rightharpoonup> price_row"
  pt_fp :: "'h option"

definition new_table :: "'h price_table" where
  "new_table = \<lparr>pt_prices = Map.empty, pt_fp = None\<rparr>"

text \<open>The bytes that are hashed: numbers as eight bytes big endian, strings after their length.\<close>

definition be64 :: "nat \<Rightarrow> nat list" where
  "be64 n = be_bytes 8 n"

definition enc_str :: "string \<Rightarrow> nat list" where
  "enc_str s = len_str 8 s"

definition enc_row :: "(rat \<Rightarrow> nat) \<Rightarrow> row \<Rightarrow> nat list" where
  "enc_row bits r =
     (let p = row_Price r
      in enc_str (row_Provider r) @ enc_str (row_Model r) @ enc_str (Unit p)
         @ be64 (bits (InputPer1M p)) @ be64 (bits (OutputPer1M p))
         @ be64 (nat (ContextThreshold p mod 2 ^ 64))
         @ be64 (bits (InputPer1MAbove p)) @ be64 (bits (OutputPer1MAbove p)))"

definition fingerprint :: "(nat list \<Rightarrow> 'h) \<Rightarrow> (rat \<Rightarrow> nat) \<Rightarrow> row list \<Rightarrow> 'h" where
  "fingerprint sha bits rows = sha (concat (map (enc_row bits) rows))"

definition prices_of :: "row list \<Rightarrow> string \<rightharpoonup> price_row" where
  "prices_of rows =
     foldl (\<lambda>m r. m(price_key (row_Provider r) (row_Model r) \<mapsto> row_Price r)) Map.empty rows"

definition Replace ::
  "(nat list \<Rightarrow> 'h) \<Rightarrow> (rat \<Rightarrow> nat) \<Rightarrow> row list \<Rightarrow> 'h price_table \<Rightarrow> 'h price_table \<times> bool" where
  "Replace sha bits rows t =
     (let fp = fingerprint sha bits rows
      in if pt_fp t = Some fp then (t, False)
         else (\<lparr>pt_prices = prices_of rows, pt_fp = Some fp\<rparr>, True))"

definition price_Set :: "string \<Rightarrow> string \<Rightarrow> price_row \<Rightarrow> 'h price_table \<Rightarrow> 'h price_table" where
  "price_Set provider model p t =
     \<lparr>pt_prices = (pt_prices t)(price_key provider model \<mapsto> p), pt_fp = None\<rparr>"

text \<open>\<open>Load\<close>: what the store's rows, in the query's order, make of an empty table.\<close>

definition Load :: "(nat list \<Rightarrow> 'h) \<Rightarrow> (rat \<Rightarrow> nat) \<Rightarrow> string + row list \<Rightarrow> string + 'h price_table" where
  "Load sha bits rows =
     (case rows of Inl e \<Rightarrow> Inl e | Inr rs \<Rightarrow> Inr (fst (Replace sha bits rs new_table)))"

definition price_lookup :: "'h price_table \<Rightarrow> string \<Rightarrow> string \<Rightarrow> price_row option" where
  "price_lookup t provider model =
     (case pt_prices t (price_key provider model) of
        Some p \<Rightarrow> Some p
      | None \<Rightarrow> pt_prices t (price_key [] model))"

definition CostMicroUSD :: "'h price_table \<Rightarrow> string \<Rightarrow> string \<Rightarrow> int \<Rightarrow> int \<Rightarrow> int" where
  "CostMicroUSD t provider model promptTokens completionTokens =
     (case price_lookup t provider model of
        None \<Rightarrow> 0
      | Some p \<Rightarrow>
          (let (inPer1M, outPer1M) = rates p promptTokens;
               usd = of_int promptTokens / 1000000 * inPer1M + of_int completionTokens / 1000000 * outPer1M
           in go_round (usd * 1000000)))"

definition Rate :: "'h price_table \<Rightarrow> string \<Rightarrow> string \<Rightarrow> rat option" where
  "Rate t provider model =
     (case price_lookup t provider model of
        None \<Rightarrow> None
      | Some p \<Rightarrow> Some (InputPer1M p + OutputPer1M p))"

definition AudioCostMicroUSD :: "'h price_table \<Rightarrow> string \<Rightarrow> string \<Rightarrow> rat \<Rightarrow> int" where
  "AudioCostMicroUSD t provider model seconds =
     (case price_lookup t provider model of
        None \<Rightarrow> 0
      | Some p \<Rightarrow> go_round (seconds / 1000000 * InputPer1M p * 1000000))"

definition TTSCostMicroUSD :: "'h price_table \<Rightarrow> string \<Rightarrow> string \<Rightarrow> int \<Rightarrow> int" where
  "TTSCostMicroUSD t provider model chars =
     (case price_lookup t provider model of
        None \<Rightarrow> 0
      | Some p \<Rightarrow> go_round (of_int chars / 1000000 * InputPer1M p * 1000000))"

section \<open>The fingerprint identifies the rows\<close>

lemma length_be64 [simp]: "length (be64 n) = 8"
  by (simp only: be64_def length_be_bytes)

lemma prefix_code_be64: "prefix_code (\<lambda>n. n < 2 ^ 64) be64"
  using prefix_code_be_bytes [of 8] by (simp add: be64_def [abs_def])

lemma prefix_code_str: "prefix_code (\<lambda>s. length s < 2 ^ 64) enc_str"
  using prefix_code_len_str [of 8] by (simp add: enc_str_def [abs_def])

text \<open>
  Rows as the gateway holds them: strings that fit in memory, a 64-bit threshold, and rates among the
  finitely many values \<open>F\<close> a \<open>float64\<close> takes, which its bit pattern tells apart.
\<close>

definition float_bits :: "rat set \<Rightarrow> (rat \<Rightarrow> nat) \<Rightarrow> bool" where
  "float_bits F bits \<longleftrightarrow> inj_on bits F \<and> (\<forall>x \<in> F. bits x < 2 ^ 64)"

definition row_ok :: "rat set \<Rightarrow> row \<Rightarrow> bool" where
  "row_ok F r \<longleftrightarrow> length (row_Provider r) < 2 ^ 64 \<and> length (row_Model r) < 2 ^ 64
     \<and> length (Unit (row_Price r)) < 2 ^ 64 \<and> in_int64 (ContextThreshold (row_Price r))
     \<and> {InputPer1M (row_Price r), OutputPer1M (row_Price r), InputPer1MAbove (row_Price r),
        OutputPer1MAbove (row_Price r)} \<subseteq> F"

lemma int64_bits_inject:
  assumes "in_int64 a" "in_int64 b" "nat (a mod 2 ^ 64) = nat (b mod 2 ^ 64)"
  shows "a = b"
proof -
  have "a mod 2 ^ 64 = b mod 2 ^ 64" using assms(3) by (simp add: eq_nat_nat_iff)
  then have "wrap64 a = wrap64 b" unfolding wrap64_def by (metis mod_add_left_eq)
  then show ?thesis using assms(1,2) by simp
qed

lemma prefix_code_bits:
  assumes "float_bits F bits"
  shows "prefix_code (\<lambda>x. x \<in> F) (\<lambda>x. be64 (bits x))"
  unfolding prefix_code_def
proof (intro allI impI)
  fix x y u v assume xy: "x \<in> F" "y \<in> F" and eq: "be64 (bits x) @ u = be64 (bits y) @ v"
  have "bits x < 2 ^ 64" "bits y < 2 ^ 64" using assms xy unfolding float_bits_def by blast+
  from prefix_codeD [OF prefix_code_be64 this eq] have "bits x = bits y" "u = v" by blast+
  then show "x = y \<and> u = v" using assms xy unfolding float_bits_def inj_on_def by blast
qed

lemma prefix_code_int64: "prefix_code in_int64 (\<lambda>c. be64 (nat (c mod 2 ^ 64)))"
  unfolding prefix_code_def
proof (intro allI impI)
  fix x y :: int and u v
  assume xy: "in_int64 x" "in_int64 y" and eq: "be64 (nat (x mod 2 ^ 64)) @ u = be64 (nat (y mod 2 ^ 64)) @ v"
  have "nat (z mod 2 ^ 64) < 2 ^ 64" for z :: int by (simp add: nat_less_iff)
  from prefix_codeD [OF prefix_code_be64 this this eq] show "x = y \<and> u = v"
    using int64_bits_inject [OF xy] by blast
qed

definition row_fields :: "row \<Rightarrow> string \<times> string \<times> string \<times> rat \<times> rat \<times> int \<times> rat \<times> rat" where
  "row_fields r = (row_Provider r, row_Model r, Unit (row_Price r), InputPer1M (row_Price r),
     OutputPer1M (row_Price r), ContextThreshold (row_Price r), InputPer1MAbove (row_Price r),
     OutputPer1MAbove (row_Price r))"

lemma inj_row_fields: "inj row_fields"
  by (rule injI) (simp add: row_fields_def)

lemma prefix_code_row:
  assumes "float_bits F bits"
  shows "prefix_code (row_ok F) (enc_row bits)"
proof -
  note b = prefix_code_bits [OF assms]
  note code = prefix_code_pair [OF prefix_code_str prefix_code_pair [OF prefix_code_str
      prefix_code_pair [OF prefix_code_str prefix_code_pair [OF b prefix_code_pair [OF b
      prefix_code_pair [OF prefix_code_int64 prefix_code_pair [OF b b]]]]]]]
  have e: "enc_row bits = (\<lambda>r. (\<lambda>(a, b). enc_str a @ (case b of (a, b) \<Rightarrow> enc_str a @ (case b of (a, b)
      \<Rightarrow> enc_str a @ (case b of (a, b) \<Rightarrow> be64 (bits a) @ (case b of (a, b) \<Rightarrow> be64 (bits a) @ (case b of
      (a, b) \<Rightarrow> be64 (nat (a mod 2 ^ 64)) @ (case b of (a, b) \<Rightarrow> be64 (bits a) @ be64 (bits b))))))))
      (row_fields r))"
    by (intro ext) (simp only: enc_row_def Let_def row_fields_def prod.case)
  show ?thesis unfolding e
    by (rule prefix_code_map [OF code inj_row_fields]) (simp only: row_ok_def row_fields_def prod.case, blast)
qed

abbreviation table_bytes :: "(rat \<Rightarrow> nat) \<Rightarrow> row list \<Rightarrow> nat list" where
  "table_bytes bits rows \<equiv> concat (map (enc_row bits) rows)"

lemma table_bytes_inject:
  assumes "float_bits F bits" and "list_all (row_ok F) xs" and "list_all (row_ok F) ys"
    and "table_bytes bits xs = table_bytes bits ys"
  shows "xs = ys"
proof (rule prefix_code_concat [OF prefix_code_row [OF assms(1)] _ assms(2-4)])
  fix r show "enc_row bits r \<noteq> []"
    using length_be64 [of "bits (InputPer1M (row_Price r))"]
    by (auto simp: enc_row_def Let_def simp del: length_be64)
qed

section \<open>A table under administration\<close>

datatype table_op = OpSet string string price_row | OpReplace "row list"

fun table_exec :: "(nat list \<Rightarrow> 'h) \<Rightarrow> (rat \<Rightarrow> nat) \<Rightarrow> table_op \<Rightarrow> 'h price_table \<Rightarrow> 'h price_table" where
  "table_exec sha bits (OpSet provider model p) t = price_Set provider model p t"
| "table_exec sha bits (OpReplace rows) t = fst (Replace sha bits rows t)"

definition table_run :: "(nat list \<Rightarrow> 'h) \<Rightarrow> (rat \<Rightarrow> nat) \<Rightarrow> table_op list \<Rightarrow> 'h price_table \<Rightarrow> 'h price_table" where
  "table_run sha bits ops t = fold (table_exec sha bits) ops t"

fun op_rows :: "table_op \<Rightarrow> row list set" where
  "op_rows (OpSet _ _ _) = {}"
| "op_rows (OpReplace rows) = {rows}"

definition installed :: "table_op list \<Rightarrow> row list set" where
  "installed ops = (\<Union>op \<in> set ops. op_rows op)"

text \<open>A fingerprint on the table is that of rows the table holds exactly.\<close>

definition table_ok :: "(nat list \<Rightarrow> 'h) \<Rightarrow> (rat \<Rightarrow> nat) \<Rightarrow> row list set \<Rightarrow> 'h price_table \<Rightarrow> bool" where
  "table_ok sha bits S t \<longleftrightarrow>
     (\<forall>fp. pt_fp t = Some fp \<longrightarrow>
        (\<exists>rows \<in> S. fp = fingerprint sha bits rows \<and> pt_prices t = prices_of rows))"

lemma table_run_ok:
  assumes "table_ok sha bits S t" and "installed ops \<subseteq> S"
  shows "table_ok sha bits S (table_run sha bits ops t)"
  using assms
proof (induction ops arbitrary: t)
  case Nil
  then show ?case by (simp add: table_run_def)
next
  case (Cons op ops)
  have "table_ok sha bits S (table_exec sha bits op t)"
  proof (cases op)
    case (OpSet provider model p)
    then show ?thesis by (simp add: table_ok_def price_Set_def)
  next
    case (OpReplace rows)
    then have "rows \<in> S" using Cons.prems(2) by (auto simp: installed_def)
    with OpReplace Cons.prems(1) show ?thesis by (auto simp: table_ok_def Replace_def Let_def)
  qed
  with Cons show ?case by (simp add: table_run_def installed_def)
qed

section \<open>Properties\<close>

text \<open>
  Polling the store never leaves stale prices behind: after any history of admin updates and
  replacements, replacing with the store's rows makes the table exactly those rows, even though
  the code skips the rebuild when the fingerprint is unchanged. The bytes under the fingerprint tell
  different row lists apart; of SHA-256 it is only used that no two of the byte strings actually
  hashed collide.
\<close>
theorem replace_installs_rows:
  assumes "float_bits F bits"
    and "inj_on sha (table_bytes bits ` insert rows (installed ops))"
    and "\<forall>rs \<in> insert rows (installed ops). list_all (row_ok F) rs"
  shows "pt_prices (fst (Replace sha bits rows (table_run sha bits ops new_table))) = prices_of rows"
proof -
  let ?t = "table_run sha bits ops new_table"
  have ok: "table_ok sha bits (installed ops) ?t"
    by (rule table_run_ok) (simp_all add: table_ok_def new_table_def)
  show ?thesis
  proof (cases "pt_fp ?t = Some (fingerprint sha bits rows)")
    case True
    then obtain rs where rs: "rs \<in> installed ops" "fingerprint sha bits rows = fingerprint sha bits rs"
      "pt_prices ?t = prices_of rs" using ok unfolding table_ok_def by blast
    have "table_bytes bits rows = table_bytes bits rs"
      using assms(2) rs(1,2) unfolding fingerprint_def by (auto dest: inj_onD)
    then have "rows = rs" using assms(3) rs(1) by (intro table_bytes_inject [OF assms(1)]) auto
    with True rs(3) show ?thesis by (simp add: Replace_def Let_def)
  qed (simp add: Replace_def Let_def)
qed

definition demo_price :: "rat \<Rightarrow> price_row" where
  "demo_price r = \<lparr>InputPer1M = r, OutputPer1M = r, Unit = ''tokens'', ContextThreshold = 0,
     InputPer1MAbove = 0, OutputPer1MAbove = 0\<rparr>"

definition demo_prow :: row where
  "demo_prow = \<lparr>row_Provider = ''openai'', row_Model = ''m'', row_Price = demo_price 1\<rparr>"

theorem replace_installs_rows_witness:
  "pt_prices (fst (Replace id (\<lambda>x. if x = 1 then 1 else 0) [demo_prow]
     (table_run id (\<lambda>x. if x = 1 then 1 else 0)
        [OpReplace [demo_prow], OpSet ''openai'' ''m'' (demo_price 0)] new_table)))
   = prices_of [demo_prow]"
proof (rule replace_installs_rows [where F = "{0, 1}"])
  show "float_bits {0, 1} (\<lambda>x. if x = 1 then 1 else 0)" by (simp add: float_bits_def)
  show "\<forall>rs \<in> insert [demo_prow] (installed [OpReplace [demo_prow], OpSet ''openai'' ''m'' (demo_price 0)]).
      list_all (row_ok {0, 1}) rs"
    by (simp add: installed_def row_ok_def demo_prow_def demo_price_def in_int64_def)
qed simp

lemma price_key_inject:
  assumes "CHR 0x00 \<notin> set p" and "CHR 0x00 \<notin> set p'"
  shows "price_key p m = price_key p' m' \<longleftrightarrow> p = p' \<and> m = m'"
proof
  assume eq: "price_key p m = price_key p' m'"
  have tw: "takeWhile (\<lambda>c. c \<noteq> CHR 0x00) (q @ CHR 0x00 # n) = q" if "CHR 0x00 \<notin> set q" for q n
    using that by (subst takeWhile_append2) auto
  from eq have "p = p'" unfolding price_key_def using tw [OF assms(1)] tw [OF assms(2)] by metis
  with eq show "p = p' \<and> m = m'" by (simp add: price_key_def)
qed simp

lemma validated_rates:
  assumes "price_Validate p = None"
  shows "0 \<le> fst (rates p n) \<and> 0 \<le> snd (rates p n)"
  using assms by (auto simp: price_Validate_def rates_def split: if_splits)

text \<open>
  A provider's own row wins over the wildcard row and neither touches another pair: after an
  admin sets a price, the pair is charged by it, every other pair that has a row of its own is
  charged as before, and a pair without one is charged by the wildcard row of its model. Provider
  names are free of the NUL byte that separates the parts of the key.
\<close>
theorem price_set_lookup:
  assumes "CHR 0x00 \<notin> set provider" and "CHR 0x00 \<notin> set provider'"
  shows "price_lookup (price_Set provider model p t) provider' model'
    = (if provider' = provider \<and> model' = model then Some p
       else case pt_prices t (price_key provider' model') of
              Some q \<Rightarrow> Some q
            | None \<Rightarrow> if provider = [] \<and> model' = model then Some p
                      else pt_prices t (price_key [] model'))"
proof -
  have w: "price_key [] model' = price_key provider model \<longleftrightarrow> provider = [] \<and> model' = model"
    using price_key_inject [OF _ assms(1), of "[]"] by auto
  have k: "price_key provider' model' = price_key provider model \<longleftrightarrow> provider' = provider \<and> model' = model"
    by (rule price_key_inject [OF assms(2,1)])
  show ?thesis by (simp add: price_lookup_def price_Set_def k w split: option.split)
qed

theorem price_set_lookup_witness:
  "price_lookup (price_Set [] ''m'' (demo_price 2) (new_table :: unit price_table)) ''groq'' ''m''
   = Some (demo_price 2)"
  using price_set_lookup [of "[]" "''groq''" "''m''" "demo_price 2" "new_table :: unit price_table" "''m''"]
  by (simp add: new_table_def)

text \<open>
  Under a validated row a call never costs a negative amount, and more completion tokens never
  cost less, on either side of the context threshold; a model without a row costs nothing, while its
  routing rate is unknown rather than zero.
\<close>
theorem cost_monotone:
  assumes "\<forall>p. price_lookup t provider model = Some p \<longrightarrow> price_Validate p = None"
    and "0 \<le> prompt" and "0 \<le> completion" and "completion \<le> completion'"
  shows "0 \<le> CostMicroUSD t provider model prompt completion
    \<and> CostMicroUSD t provider model prompt completion \<le> CostMicroUSD t provider model prompt completion'
    \<and> (Rate t provider model = None
       \<longleftrightarrow> (\<forall>p. price_lookup t provider model \<noteq> Some p))"
proof (cases "price_lookup t provider model")
  case None
  then show ?thesis by (simp add: CostMicroUSD_def Rate_def)
next
  case (Some p)
  obtain i out where r: "rates p prompt = (i, out)" by fastforce
  have nn: "0 \<le> i" "0 \<le> out" using validated_rates [of p prompt] assms(1) Some r by simp_all
  let ?usd = "\<lambda>c. of_int prompt / 1000000 * i + of_int c / 1000000 * out :: rat"
  have cost: "CostMicroUSD t provider model prompt c = go_round (?usd c * 1000000)" for c
    by (simp add: CostMicroUSD_def Some r)
  have "0 \<le> ?usd completion" using nn assms(2,3) by simp
  then have "0 \<le> go_round (?usd completion * 1000000)" by (intro go_round_nonneg) simp
  moreover have "of_int completion / 1000000 * out \<le> of_int completion' / 1000000 * (out :: rat)"
    using nn assms(4) by (intro mult_right_mono) (simp_all add: divide_right_mono)
  then have "go_round (?usd completion * 1000000) \<le> go_round (?usd completion' * 1000000)"
    by (intro go_round_mono) simp
  ultimately show ?thesis by (simp add: cost Rate_def Some)
qed

theorem cost_monotone_witness:
  "CostMicroUSD (price_Set [] ''m'' (demo_price 2) (new_table :: unit price_table)) ''groq'' ''m'' 10 5
   \<le> CostMicroUSD (price_Set [] ''m'' (demo_price 2) (new_table :: unit price_table)) ''groq'' ''m'' 10 7"
proof -
  let ?t = "price_Set [] ''m'' (demo_price 2) (new_table :: unit price_table)"
  have "\<forall>p. price_lookup ?t ''groq'' ''m'' = Some p \<longrightarrow> price_Validate p = None"
    by (simp add: price_lookup_def price_Set_def new_table_def price_key_def demo_price_def price_Validate_def)
  from cost_monotone [OF this, of 10 5 7] show ?thesis by simp
qed

end
