(* ===== verification/UsageLimits.thy ===== *)
theory UsageLimits
  imports GoStrings
begin

text \<open>
  Rolling usage caps (\<open>internal/limits/limits.go\<close>) and the policy of an API key
  (\<open>internal/policy/policy.go\<close>). Usage is counted in Redis hashes, one per key and unit, whose fields
  are five-minute buckets. Redis is a parameter: reading hashes in a pipeline, executing a pipeline
  of commands, taking and releasing the per-key lock.
\<close>

section \<open>Policies\<close>

text \<open>Maps of a configuration as association lists; \<open>len(m) == 0\<close> is the empty list.\<close>

record limits =
  lim_Tokens :: "(string \<times> int) list"
  lim_CostUSD :: "(string \<times> rat) list"
  lim_AudioSeconds :: "(string \<times> int) list"
  lim_TTSChars :: "(string \<times> int) list"

record key_policy =
  kp_AllowedModels :: "string list"
  kp_AllowPassthrough :: bool
  kp_Limits :: string

definition no_limits :: limits where
  "no_limits = \<lparr>lim_Tokens = [], lim_CostUSD = [], lim_AudioSeconds = [], lim_TTSChars = []\<rparr>"

definition zero_policy :: key_policy where
  "zero_policy = \<lparr>kp_AllowedModels = [], kp_AllowPassthrough = False, kp_Limits = []\<rparr>"

text \<open>
  The JSON decoder is a parameter that returns what it left in the target, which after an error is
  what it had decoded by then; the callers ignore the error.
\<close>

definition ParseLimits :: "(string \<Rightarrow> limits) \<Rightarrow> key_policy \<Rightarrow> limits" where
  "ParseLimits decode p = (if kp_Limits p \<noteq> [] then decode (kp_Limits p) else no_limits)"

definition policy_Parse :: "(string \<Rightarrow> key_policy) \<Rightarrow> string \<Rightarrow> key_policy" where
  "policy_Parse decode raw = (if raw \<noteq> [] then decode raw else zero_policy)"

fun allows_loop :: "string list \<Rightarrow> string \<Rightarrow> bool" where
  "allows_loop [] model = False"
| "allows_loop (m # ms) model = (if m = ''*'' \<or> m = model then True else allows_loop ms model)"

definition Allows :: "key_policy \<Rightarrow> string \<Rightarrow> bool" where
  "Allows p model = allows_loop (kp_AllowedModels p) model"

section \<open>Buckets and windows\<close>

abbreviation BucketSize :: duration where "BucketSize \<equiv> 5 * minute"

definition Windows :: "(string \<times> duration) list" where
  "Windows = [(''5h'', 5 * hour), (''24h'', 24 * hour), (''7d'', 7 * 24 * hour)]"

definition maxWindow :: duration where
  "maxWindow = snd (last Windows)"

definition tokKey :: "string \<Rightarrow> string" where "tokKey key = ''air:u:'' @ key @ '':tok''"
definition costKey :: "string \<Rightarrow> string" where "costKey key = ''air:u:'' @ key @ '':cost''"
definition audioSecKey :: "string \<Rightarrow> string" where "audioSecKey key = ''air:u:'' @ key @ '':asec''"
definition ttsCharKey :: "string \<Rightarrow> string" where "ttsCharKey key = ''air:u:'' @ key @ '':ttsc''"

text \<open>\<open>Time.Unix\<close> rounds down, integer division truncates.\<close>

definition unix_sec :: "gotime \<Rightarrow> int" where
  "unix_sec t = t div second"

definition trunc_div :: "int \<Rightarrow> int \<Rightarrow> int" where
  "trunc_div a b = (if a < 0 then - ((- a) div b) else a div b)"

definition BucketStamp :: "gotime \<Rightarrow> int" where
  "BucketStamp t = (let sz = BucketSize div second in trunc_div (unix_sec t) sz * sz)"

text \<open>A hash as \<open>HGETALL\<close> returns it: fields and values, both decimal strings.\<close>

type_synonym fields = "(string \<times> string) list"

definition field_amount :: "int \<Rightarrow> string \<times> string \<Rightarrow> int" where
  "field_amount cutoff fv =
     (case parse_int (fst fv) of
        None \<Rightarrow> 0
      | Some ts \<Rightarrow> if ts < cutoff then 0 else (case parse_int (snd fv) of None \<Rightarrow> 0 | Some n \<Rightarrow> n))"

definition sum_window :: "int \<Rightarrow> fields \<Rightarrow> int" where
  "sum_window cutoff fs = foldl (\<lambda>sum fv. wrap64 (sum + field_amount cutoff fv)) 0 fs"

definition SumWindows :: "gotime \<Rightarrow> fields \<Rightarrow> string \<Rightarrow> int" where
  "SumWindows now fs name =
     (case map_of Windows name of None \<Rightarrow> 0 | Some dur \<Rightarrow> sum_window (unix_sec (now - dur)) fs)"

definition expiredFields :: "int \<Rightarrow> fields \<Rightarrow> string list" where
  "expiredFields cutoff fs =
     map fst (filter (\<lambda>fv. case parse_int (fst fv) of None \<Rightarrow> True | Some ts \<Rightarrow> ts < cutoff) fs)"

section \<open>The limiter\<close>

datatype hcmd = HIncrBy string string int | HDel string "string list" | Expire string duration

record 's limit_ops =
  lo_read :: "'s \<Rightarrow> string list \<Rightarrow> (string \<Rightarrow> fields) option \<times> 's"
  lo_exec :: "'s \<Rightarrow> hcmd list \<Rightarrow> bool \<times> 's"
  lo_setnx :: "'s \<Rightarrow> string \<Rightarrow> string \<Rightarrow> duration \<Rightarrow> bool option \<times> 's"
  lo_unlock :: "'s \<Rightarrow> string \<Rightarrow> string \<Rightarrow> 's"

record decision =
  dAllowed :: bool
  dWindow :: string
  dUnit :: string
  dLimit :: int
  dUsed :: int
  dReservedTokens :: int
  dReservedBucket :: int

definition allowed_decision :: decision where
  "allowed_decision = \<lparr>dAllowed = True, dWindow = [], dUnit = [], dLimit = 0, dUsed = 0,
     dReservedTokens = 0, dReservedBucket = 0\<rparr>"

definition deny :: "string \<Rightarrow> string \<Rightarrow> int \<Rightarrow> int \<Rightarrow> decision" where
  "deny window unit lims used = \<lparr>dAllowed = False, dWindow = window, dUnit = unit, dLimit = lims,
     dUsed = used, dReservedTokens = 0, dReservedBucket = 0\<rparr>"

abbreviation lockTTL :: duration where "lockTTL \<equiv> 2 * second"
definition lockRetries :: nat where "lockRetries = 5"

definition lock_name :: "string \<Rightarrow> string" where
  "lock_name key = ''air:lock:'' @ key"

text \<open>The attempts at the lock; \<open>True\<close> when taken, \<open>False\<close> on an error or when they run out.\<close>

fun lockKey :: "'s limit_ops \<Rightarrow> nat \<Rightarrow> string \<Rightarrow> string \<Rightarrow> 's \<Rightarrow> bool \<times> 's" where
  "lockKey L 0 key token s = (False, s)"
| "lockKey L (Suc n) key token s =
     (case lo_setnx L s (lock_name key) token lockTTL of
        (None, s1) \<Rightarrow> (False, s1)
      | (Some True, s1) \<Rightarrow> (True, s1)
      | (Some False, s1) \<Rightarrow> lockKey L n key token s1)"

definition prune_cmds :: "string \<Rightarrow> gotime \<Rightarrow> fields \<Rightarrow> fields \<Rightarrow> fields \<Rightarrow> fields \<Rightarrow> hcmd list" where
  "prune_cmds key now tok cost audio tts =
     (let cutoff = unix_sec (now - maxWindow - BucketSize);
          del = (\<lambda>k fs. if expiredFields cutoff fs = [] then [] else [HDel k (expiredFields cutoff fs)])
      in del (tokKey key) tok @ del (costKey key) cost @ del (audioSecKey key) audio
         @ del (ttsCharKey key) tts)"

definition prune ::
  "'s limit_ops \<Rightarrow> string \<Rightarrow> gotime \<Rightarrow> fields \<Rightarrow> fields \<Rightarrow> fields \<Rightarrow> fields \<Rightarrow> 's \<Rightarrow> 's" where
  "prune L key now tok cost audio tts s =
     (let cmds = prune_cmds key now tok cost audio tts
      in if cmds = [] then s else snd (lo_exec L s cmds))"

text \<open>The caps of one window, in the order the code looks at them.\<close>

definition cap_reached :: "(string \<times> int) list \<Rightarrow> string \<Rightarrow> int \<Rightarrow> int option" where
  "cap_reached caps name used =
     (case map_of caps name of
        None \<Rightarrow> None
      | Some m \<Rightarrow> if m > 0 \<and> used \<ge> m then Some m else None)"

definition cost_cap_reached :: "(string \<times> rat) list \<Rightarrow> string \<Rightarrow> int \<Rightarrow> int option" where
  "cost_cap_reached caps name used =
     (case map_of caps name of
        None \<Rightarrow> None
      | Some usd \<Rightarrow>
          if usd > 0 then (let maxMicro = \<lfloor>usd * 1000000\<rfloor> in if used \<ge> maxMicro then Some maxMicro else None)
          else None)"

definition check_window ::
  "limits \<Rightarrow> gotime \<Rightarrow> fields \<Rightarrow> fields \<Rightarrow> fields \<Rightarrow> fields \<Rightarrow> string \<Rightarrow> decision option" where
  "check_window lims now tok cost audio tts win =
     (case cap_reached (lim_Tokens lims) win (SumWindows now tok win) of
        Some m \<Rightarrow> Some (deny win ''tokens'' m (SumWindows now tok win))
      | None \<Rightarrow>
     (case cost_cap_reached (lim_CostUSD lims) win (SumWindows now cost win) of
        Some m \<Rightarrow> Some (deny win ''cost_usd'' m (SumWindows now cost win))
      | None \<Rightarrow>
     (case cap_reached (lim_AudioSeconds lims) win (SumWindows now audio win) of
        Some m \<Rightarrow> Some (deny win ''audio_seconds'' m (SumWindows now audio win))
      | None \<Rightarrow>
     (case cap_reached (lim_TTSChars lims) win (SumWindows now tts win) of
        Some m \<Rightarrow> Some (deny win ''tts_chars'' m (SumWindows now tts win))
      | None \<Rightarrow> None))))"

fun check_windows ::
  "limits \<Rightarrow> gotime \<Rightarrow> fields \<Rightarrow> fields \<Rightarrow> fields \<Rightarrow> fields \<Rightarrow> (string \<times> duration) list \<Rightarrow> decision option" where
  "check_windows lims now tok cost audio tts [] = None"
| "check_windows lims now tok cost audio tts ((win, _) # ws) =
     (case check_window lims now tok cost audio tts win of
        Some d \<Rightarrow> Some d
      | None \<Rightarrow> check_windows lims now tok cost audio tts ws)"

text \<open>
  \<open>Check\<close> between taking and releasing the lock: \<open>reserve\<close> says whether the lock is held. The second
  component tells whether a backend error is returned beside the decision.
\<close>

definition check_locked ::
  "'s limit_ops \<Rightarrow> gotime \<Rightarrow> string \<Rightarrow> limits \<Rightarrow> int \<Rightarrow> bool \<Rightarrow> 's \<Rightarrow> decision \<times> bool \<times> 's" where
  "check_locked L now key lims reserveTokens reserve s =
     (case lo_read L s [tokKey key, costKey key, audioSecKey key, ttsCharKey key] of
        (None, s1) \<Rightarrow> (allowed_decision, True, s1)
      | (Some f, s1) \<Rightarrow>
          (let tok = f (tokKey key); cost = f (costKey key); audio = f (audioSecKey key);
               tts = f (ttsCharKey key);
               s2 = prune L key now tok cost audio tts s1
           in case check_windows lims now tok cost audio tts Windows of
                Some d \<Rightarrow> (d, False, s2)
              | None \<Rightarrow>
                  if reserve then
                    (case lo_exec L s2 [HIncrBy (tokKey key) (itoa (BucketStamp now)) reserveTokens] of
                       (True, s3) \<Rightarrow> (allowed_decision\<lparr>dReservedTokens := reserveTokens,
                                        dReservedBucket := BucketStamp now\<rparr>, False, s3)
                     | (False, s3) \<Rightarrow> (allowed_decision, False, s3))
                  else (allowed_decision, False, s2)))"

definition Check ::
  "'s limit_ops \<Rightarrow> gotime \<Rightarrow> string \<Rightarrow> string \<Rightarrow> limits \<Rightarrow> int \<Rightarrow> 's \<Rightarrow> decision \<times> bool \<times> 's" where
  "Check L now token key lims reserveTokens s =
     (if lim_Tokens lims = [] \<and> lim_CostUSD lims = [] \<and> lim_AudioSeconds lims = [] \<and> lim_TTSChars lims = []
      then (allowed_decision, False, s)
      else if reserveTokens > 0 \<and> lim_Tokens lims \<noteq> [] then
        (case lockKey L lockRetries key token s of
           (True, s1) \<Rightarrow>
             (let (d, err, s2) = check_locked L now key lims reserveTokens True s1
              in (d, err, lo_unlock L s2 (lock_name key) token))
         | (False, s1) \<Rightarrow> check_locked L now key lims reserveTokens False s1)
      else check_locked L now key lims reserveTokens False s)"

definition add_cmds :: "gotime \<Rightarrow> string \<Rightarrow> int \<Rightarrow> int \<Rightarrow> int \<Rightarrow> int \<Rightarrow> int \<Rightarrow> int \<Rightarrow> hcmd list" where
  "add_cmds now key tokens costMicroUSD audioSeconds ttsChars reservedTokens reservedBucket =
     (let nowField = itoa (BucketStamp now);
          tokField = (if reservedTokens \<noteq> 0 then itoa reservedBucket else nowField);
          tokDelta = (if reservedTokens \<noteq> 0 then wrap64 (tokens - reservedTokens) else tokens);
          ttl = maxWindow + 2 * BucketSize;
          inc = (\<lambda>k f n. if n \<noteq> 0 then [HIncrBy k f n, Expire k ttl] else [])
      in inc (tokKey key) tokField tokDelta @ inc (costKey key) nowField costMicroUSD
         @ inc (audioSecKey key) nowField audioSeconds @ inc (ttsCharKey key) nowField ttsChars)"

text \<open>\<open>Add\<close>; the result is whether an error is returned.\<close>

definition Add ::
  "'s limit_ops \<Rightarrow> gotime \<Rightarrow> string \<Rightarrow> int \<Rightarrow> int \<Rightarrow> int \<Rightarrow> int \<Rightarrow> int \<Rightarrow> int \<Rightarrow> 's \<Rightarrow> bool \<times> 's" where
  "Add L now key tokens costMicroUSD audioSeconds ttsChars reservedTokens reservedBucket s =
     (let cmds = add_cmds now key tokens costMicroUSD audioSeconds ttsChars reservedTokens reservedBucket
      in if cmds = [] then (False, s)
         else let (ok, s') = lo_exec L s cmds in (\<not> ok, s'))"

section \<open>The server\<close>

text \<open>
  What the limiter relies on: the server holds integer-valued hashes, a read returns them, a pipeline
  applies its commands, and neither locking nor unlocking touches them. \<open>view\<close> is the server's
  content, per hash and field. Expiry of whole hashes is left out: the limiter renews it to longer
  than the longest window.
\<close>

type_synonym hashes = "string \<Rightarrow> string \<rightharpoonup> int"

fun exec_cmd :: "hcmd \<Rightarrow> hashes \<Rightarrow> hashes" where
  "exec_cmd (HIncrBy k f n) h =
     h(k := (h k)(f \<mapsto> (case h k f of None \<Rightarrow> n | Some v \<Rightarrow> v + n)))"
| "exec_cmd (HDel k fs) h = h(k := (h k) |` (- set fs))"
| "exec_cmd (Expire k d) h = h"

definition represents :: "fields \<Rightarrow> (string \<rightharpoonup> int) \<Rightarrow> bool" where
  "represents fs m \<longleftrightarrow> distinct (map fst fs) \<and> map_of fs = (\<lambda>f. map_option itoa (m f))"

definition hash_server :: "'s limit_ops \<Rightarrow> ('s \<Rightarrow> hashes) \<Rightarrow> bool" where
  "hash_server L view \<longleftrightarrow>
     (\<forall>s ks. \<exists>f s'. lo_read L s ks = (Some f, s') \<and> view s' = view s
        \<and> (\<forall>k \<in> set ks. represents (f k) (view s k)))
     \<and> (\<forall>s cmds. \<exists>s'. lo_exec L s cmds = (True, s') \<and> view s' = fold exec_cmd cmds (view s))
     \<and> (\<forall>s n t d. \<exists>s'. lo_setnx L s n t d = (Some True, s') \<and> view s' = view s)
     \<and> (\<forall>s n t. view (lo_unlock L s n t) = view s)"

lemma hash_serverD:
  assumes "hash_server L view"
  obtains (read) f s' where "lo_read L s ks = (Some f, s')" "view s' = view s"
      "\<And>k. k \<in> set ks \<Longrightarrow> represents (f k) (view s k)"
  using assms unfolding hash_server_def by meson

lemma hash_exec:
  assumes "hash_server L view" and "lo_exec L s cmds = (ok, s')"
  shows "ok \<and> view s' = fold exec_cmd cmds (view s)"
  using assms unfolding hash_server_def by (metis prod.inject)

lemma hash_lock:
  assumes "hash_server L view"
  shows "\<exists>s'. lockKey L lockRetries key token s = (True, s') \<and> view s' = view s"
proof -
  obtain s' where "lo_setnx L s (lock_name key) token lockTTL = (Some True, s')" "view s' = view s"
    using assms unfolding hash_server_def by metis
  then show ?thesis by (simp add: lockRetries_def eval_nat_numeral)
qed

lemma hash_unlock: "hash_server L view \<Longrightarrow> view (lo_unlock L s n t) = view s"
  by (simp add: hash_server_def)

section \<open>Window sums\<close>

definition live :: "int \<Rightarrow> string \<Rightarrow> bool" where
  "live cutoff f = (case parse_int f of None \<Rightarrow> False | Some ts \<Rightarrow> cutoff \<le> ts)"

definition total :: "int \<Rightarrow> (string \<rightharpoonup> int) \<Rightarrow> int" where
  "total cutoff m = (\<Sum>f \<in> dom m. if live cutoff f then the (m f) else 0)"

lemma wrap64_add: "wrap64 (wrap64 a + b) = wrap64 (a + b)"
proof -
  have "((a + 2 ^ 63) mod 2 ^ 64 - 2 ^ 63 + b + 2 ^ 63) mod 2 ^ 64 = ((a + 2 ^ 63) mod 2 ^ 64 + b) mod 2 ^ 64"
    by (simp add: algebra_simps)
  also have "\<dots> = (a + 2 ^ 63 + b) mod 2 ^ 64" by (simp add: mod_add_left_eq)
  finally show ?thesis by (simp add: wrap64_def algebra_simps)
qed

lemma sum_window_list: "sum_window cutoff fs = wrap64 (sum_list (map (field_amount cutoff) fs))"
proof -
  have "foldl (\<lambda>sum fv. wrap64 (sum + field_amount cutoff fv)) (wrap64 a) fs
      = wrap64 (a + sum_list (map (field_amount cutoff) fs))" for a
    by (induction fs arbitrary: a) (simp_all add: wrap64_add add.assoc)
  from this [of 0] show ?thesis by (simp add: sum_window_def)
qed

lemma represents_dom: "represents fs m \<Longrightarrow> dom m = fst ` set fs \<and> finite (dom m)"
proof -
  assume "represents fs m"
  then have "dom (map_of fs) = dom m" by (auto simp: represents_def dom_def)
  then show ?thesis using dom_map_of_conv_image_fst [of fs] finite_dom_map_of [of fs] by simp
qed

lemma represents_amount:
  assumes "represents fs m" and "fv \<in> set fs" and "\<And>f v. m f = Some v \<Longrightarrow> in_int64 v"
  shows "field_amount cutoff fv = (if live cutoff (fst fv) then the (m (fst fv)) else 0)"
proof -
  obtain f v where fv: "fv = (f, v)" by fastforce
  have "distinct (map fst fs)" using assms(1) by (simp add: represents_def)
  then have "map_of fs f = Some v" using assms(2) fv by (simp only: map_of_eq_Some_iff)
  then obtain n where n: "m f = Some n" "v = itoa n" using assms(1) by (auto simp: represents_def)
  then have "parse_int v = Some n" using assms(3) by (simp add: parse_int_itoa)
  then show ?thesis by (auto simp: fv n field_amount_def live_def split: option.split)
qed

lemma sum_window_total:
  assumes "represents fs m" and "\<And>f v. m f = Some v \<Longrightarrow> in_int64 v"
  shows "sum_window cutoff fs = wrap64 (total cutoff m)"
proof -
  have d: "distinct (map fst fs)" using assms(1) by (simp add: represents_def)
  have "sum_list (map (field_amount cutoff) fs)
      = sum_list (map (\<lambda>f. if live cutoff f then the (m f) else 0) (map fst fs))"
    using represents_amount [OF assms(1) _ assms(2)] by (simp add: comp_def cong: map_cong)
  also have "\<dots> = total cutoff m"
    unfolding total_def sum_list_distinct_conv_sum_set [OF d]
    using represents_dom [OF assms(1)] by simp
  finally show ?thesis by (simp add: sum_window_list)
qed

section \<open>Denials\<close>

lemma check_window_denies: "check_window lims now tok cost audio tts win = Some d \<Longrightarrow> \<not> dAllowed d"
  by (auto simp: check_window_def deny_def split: option.splits)

lemma check_windows_denies:
  "check_windows lims now tok cost audio tts ws = Some d \<Longrightarrow> \<not> dAllowed d"
proof (induction ws)
  case (Cons w ws)
  obtain win dur where "w = (win, dur)" by fastforce
  with Cons show ?case
    by (cases "check_window lims now tok cost audio tts win") (auto dest: check_window_denies)
qed simp

lemma check_windows_unreserved:
  "check_windows lims now tok cost audio tts ws = Some d \<Longrightarrow> dReservedTokens d = 0"
proof (induction ws)
  case (Cons w ws)
  obtain win dur where "w = (win, dur)" by fastforce
  moreover have "check_window lims now tok cost audio tts win = Some d \<Longrightarrow> dReservedTokens d = 0"
    by (auto simp: check_window_def deny_def split: option.splits)
  ultimately show ?case using Cons
    by (cases "check_window lims now tok cost audio tts win") auto
qed simp

lemma check_windows_None:
  assumes "check_windows lims now tok cost audio tts ws = None" and "(win, dur) \<in> set ws"
    and "map_of (lim_Tokens lims) win = Some m" and "0 < m"
  shows "SumWindows now tok win < m"
  using assms(1,2)
proof (induction ws)
  case (Cons w ws)
  obtain win' dur' where w: "w = (win', dur')" by fastforce
  show ?case
  proof (cases "w = (win, dur)")
    case True
    with Cons.prems(1) have "check_window lims now tok cost audio tts win = None"
      by (simp split: option.splits)
    then show ?thesis using assms(3,4)
      by (auto simp: check_window_def cap_reached_def split: option.splits if_splits)
  next
    case False
    with Cons w show ?thesis by (auto split: option.splits)
  qed
qed simp

section \<open>What a check does to the counters\<close>

text \<open>The amount in a field; a field that is absent counts as zero.\<close>

definition amount :: "hashes \<Rightarrow> string \<Rightarrow> string \<Rightarrow> int" where
  "amount h k f = (case h k f of None \<Rightarrow> 0 | Some v \<Rightarrow> v)"

fun incr_of :: "string \<Rightarrow> string \<Rightarrow> hcmd \<Rightarrow> int" where
  "incr_of k f (HIncrBy k' f' n) = (if k' = k \<and> f' = f then n else 0)"
| "incr_of k f _ = 0"

fun only_counts :: "hcmd \<Rightarrow> bool" where
  "only_counts (HDel _ _) = False"
| "only_counts _ = True"

lemma amount_exec:
  "only_counts c \<Longrightarrow> amount (exec_cmd c h) k f = amount h k f + incr_of k f c"
  by (cases c) (auto simp: amount_def split: option.splits)

lemma amount_fold:
  "list_all only_counts cmds
   \<Longrightarrow> amount (fold exec_cmd cmds h) k f = amount h k f + sum_list (map (incr_of k f) cmds)"
  by (induction cmds arbitrary: h) (simp_all add: amount_exec)

lemma HDel_keeps:
  assumes "\<And>fs. HDel k fs \<in> set cmds \<Longrightarrow> f \<notin> set fs"
    and "list_all (\<lambda>c. \<exists>k fs. c = HDel k fs) cmds"
  shows "fold exec_cmd cmds h k f = h k f"
  using assms
proof (induction cmds arbitrary: h)
  case (Cons c cmds)
  then obtain k' fs where c: "c = HDel k' fs" by auto
  have "exec_cmd c h k f = h k f"
    using Cons.prems(1) [of fs] c by (auto simp: restrict_map_def)
  then show ?case using Cons by (auto simp: c)
qed simp

lemma prune_cmds_dels: "list_all (\<lambda>c. \<exists>k fs. c = HDel k fs) (prune_cmds key now tok cost audio tts)"
  by (simp add: prune_cmds_def Let_def)

lemma key_kinds: "tokKey key \<noteq> costKey key" "tokKey key \<noteq> audioSecKey key" "tokKey key \<noteq> ttsCharKey key"
  by (simp_all add: tokKey_def costKey_def audioSecKey_def ttsCharKey_def)

text \<open>A bucket younger than the longest window survives the pruning.\<close>

lemma prune_cmds_live:
  assumes "HDel (tokKey key) fs \<in> set (prune_cmds key now tok cost audio tts)"
    and "live (unix_sec (now - maxWindow - BucketSize)) f"
  shows "f \<notin> set fs"
  using assms key_kinds [of key]
  by (auto simp: prune_cmds_def Let_def expiredFields_def live_def split: option.splits if_splits)

lemma prune_keeps:
  assumes "hash_server L view" and "live (unix_sec (now - maxWindow - BucketSize)) f"
  shows "view (prune L key now tok cost audio tts s) (tokKey key) f = view s (tokKey key) f"
proof -
  let ?cmds = "prune_cmds key now tok cost audio tts"
  obtain ok s' where e: "lo_exec L s ?cmds = (ok, s')" by fastforce
  then have "view s' = fold exec_cmd ?cmds (view s)" using hash_exec [OF assms(1)] by blast
  moreover have "fold exec_cmd ?cmds (view s) (tokKey key) f = view s (tokKey key) f"
    using prune_cmds_live [OF _ assms(2)] prune_cmds_dels by (rule HDel_keeps)
  ultimately show ?thesis by (simp add: prune_def Let_def e)
qed

lemma bucket_ge: "0 \<le> t \<Longrightarrow> unix_sec t - 299 \<le> BucketStamp t"
proof -
  assume "0 \<le> t"
  then have n: "0 \<le> unix_sec t" by (simp add: unix_sec_def pos_imp_zdiv_nonneg_iff)
  have "unix_sec t = unix_sec t div 300 * 300 + unix_sec t mod 300" by simp
  moreover have "unix_sec t mod 300 < 300" by simp
  ultimately show ?thesis using n by (simp add: BucketStamp_def Let_def trunc_div_def del: mult_div_mod_eq div_mult_mod_eq)
qed

lemma unix_sec_mono: "s \<le> t \<Longrightarrow> unix_sec s \<le> unix_sec t"
  by (simp add: unix_sec_def zdiv_mono1)

lemma unix_sec_shift: "unix_sec (t - n * second) = unix_sec t - n"
  by (simp add: unix_sec_def)

text \<open>The current bucket is always young enough to survive.\<close>

lemma bucket_live:
  assumes "0 \<le> t" and "cutoff \<le> unix_sec t - 299" and "in_int64 (BucketStamp t)"
  shows "live cutoff (itoa (BucketStamp t))"
  using bucket_ge [OF assms(1)] assms(2,3) by (simp add: live_def)

lemma check_locked_effect:
  assumes "hash_server L view" and "check_locked L now key lims r reserve s = (d, err, s1)"
    and "live (unix_sec (now - maxWindow - BucketSize)) f"
  shows "\<not> err"
    and "dReservedTokens d = (if reserve \<and> dAllowed d then r else 0)"
    and "dReservedTokens d \<noteq> 0 \<longrightarrow> dReservedBucket d = BucketStamp now"
    and "amount (view s1) (tokKey key) f = amount (view s) (tokKey key) f
           + (if f = itoa (BucketStamp now) then dReservedTokens d else 0)"
proof -
  let ?ks = "[tokKey key, costKey key, audioSecKey key, ttsCharKey key]"
  obtain g s' where rd: "lo_read L s ?ks = (Some g, s')" "view s' = view s"
    using hash_serverD [OF assms(1)] by metis
  define s2 where "s2 = prune L key now (g (tokKey key)) (g (costKey key)) (g (audioSecKey key))
      (g (ttsCharKey key)) s'"
  have p: "amount (view s2) (tokKey key) f = amount (view s) (tokKey key) f"
    using prune_keeps [OF assms(1,3)] rd(2) by (simp add: amount_def s2_def)
  let ?cw = "check_windows lims now (g (tokKey key)) (g (costKey key)) (g (audioSecKey key))
      (g (ttsCharKey key)) Windows"
  obtain ok s3 where e: "lo_exec L s2 [HIncrBy (tokKey key) (itoa (BucketStamp now)) r] = (ok, s3)"
    by fastforce
  have s3: "ok" "view s3 = exec_cmd (HIncrBy (tokKey key) (itoa (BucketStamp now)) r) (view s2)"
    using hash_exec [OF assms(1) e] by simp_all
  have a: "amount (view s3) (tokKey key) f
      = amount (view s2) (tokKey key) f + (if f = itoa (BucketStamp now) then r else 0)"
    unfolding s3(2) by (subst amount_exec) (auto simp del: exec_cmd.simps)
  have out: "(d, err, s1) = (case ?cw of Some d \<Rightarrow> (d, False, s2)
      | None \<Rightarrow> if reserve then (allowed_decision\<lparr>dReservedTokens := r, dReservedBucket := BucketStamp now\<rparr>,
                                False, s3)
               else (allowed_decision, False, s2))"
    using assms(2) s3(1)
    by (auto simp: check_locked_def rd(1) Let_def e [unfolded s2_def] s2_def split: option.splits if_splits)
  have den: "?cw = Some d' \<Longrightarrow> \<not> dAllowed d' \<and> dReservedTokens d' = 0" for d'
    by (rule conjI, erule check_windows_denies, erule check_windows_unreserved)
  show "\<not> err" and "dReservedTokens d = (if reserve \<and> dAllowed d then r else 0)"
    and "dReservedTokens d \<noteq> 0 \<longrightarrow> dReservedBucket d = BucketStamp now"
    and "amount (view s1) (tokKey key) f = amount (view s) (tokKey key) f
           + (if f = itoa (BucketStamp now) then dReservedTokens d else 0)"
    using out p a den by (cases ?cw; cases reserve; simp add: allowed_decision_def)+
qed

lemma Check_effect:
  assumes "hash_server L view" and "Check L now token key lims r s = (d, err, s1)"
    and "live (unix_sec (now - maxWindow - BucketSize)) f"
  shows "dReservedTokens d \<noteq> 0 \<longrightarrow> dReservedBucket d = BucketStamp now"
    and "amount (view s1) (tokKey key) f = amount (view s) (tokKey key) f
           + (if f = itoa (BucketStamp now) then dReservedTokens d else 0)"
    and "\<lbrakk>lim_Tokens lims \<noteq> []; 0 < r\<rbrakk> \<Longrightarrow> dReservedTokens d = (if dAllowed d then r else 0)"
proof -
  obtain sl where lk: "lockKey L lockRetries key token s = (True, sl)" "view sl = view s"
    using hash_lock [OF assms(1)] by blast
  obtain dl el s2 where cl: "check_locked L now key lims r True sl = (dl, el, s2)" by (metis prod_cases3)
  obtain dn en sn where cn: "check_locked L now key lims r False s = (dn, en, sn)" by (metis prod_cases3)
  note l = check_locked_effect [OF assms(1) cl assms(3)] and n = check_locked_effect [OF assms(1) cn assms(3)]
  consider (unlimited) "d = allowed_decision" "s1 = s" "lim_Tokens lims = []"
    | (locked) "d = dl" "s1 = lo_unlock L s2 (lock_name key) token"
    | (plain) "d = dn" "s1 = sn" "\<not> (lim_Tokens lims \<noteq> [] \<and> 0 < r)"
    using assms(2) by (auto simp: Check_def lk(1) cl cn split: if_splits)
  then show "dReservedTokens d \<noteq> 0 \<longrightarrow> dReservedBucket d = BucketStamp now"
    and "amount (view s1) (tokKey key) f = amount (view s) (tokKey key) f
           + (if f = itoa (BucketStamp now) then dReservedTokens d else 0)"
    and "\<lbrakk>lim_Tokens lims \<noteq> []; 0 < r\<rbrakk> \<Longrightarrow> dReservedTokens d = (if dAllowed d then r else 0)"
    using l n lk(2) hash_unlock [OF assms(1)] by (cases; simp add: allowed_decision_def amount_def)+
qed

lemma Check_no_error:
  assumes "hash_server L view" and "Check L now token key lims r s = (d, err, s1)"
  shows "\<not> err"
proof -
  obtain sl where lk: "lockKey L lockRetries key token s = (True, sl)" using hash_lock [OF assms(1)] by blast
  have ne: "\<not> fst (snd (check_locked L now key lims r b t))" for b t
  proof -
    obtain g t' where rd: "lo_read L t [tokKey key, costKey key, audioSecKey key, ttsCharKey key] = (Some g, t')"
      using hash_serverD [OF assms(1)] by metis
    show ?thesis by (auto simp: check_locked_def rd Let_def split: option.splits prod.splits bool.splits)
  qed
  show ?thesis using assms(2) ne [of True sl] ne [of False s]
    by (auto simp: Check_def lk split: if_splits prod.splits)
qed

lemma Check_denied:
  assumes "Check L now token key lims r s = (d, err, s1)" and "\<not> dAllowed d"
  shows "dReservedTokens d = 0"
proof -
  have l: "dReservedTokens (fst (check_locked L now key lims r b t)) = 0" if "\<not> dAllowed (fst (check_locked L now key lims r b t))"
    for b t using that check_windows_unreserved
    by (fastforce simp: check_locked_def Let_def allowed_decision_def split: option.splits prod.splits bool.splits if_splits)
  show ?thesis using assms l by (auto simp: Check_def allowed_decision_def split: if_splits prod.splits bool.splits) (metis fst_conv)+
qed

text \<open>\<open>Add\<close> moves the token hash by the corrected amount, in the bucket of the reservation.\<close>

lemma Add_effect:
  assumes "hash_server L view"
    and "Add L now key tokens c a t reserved bucket s = (err, s1)"
  shows "amount (view s1) (tokKey key) f = amount (view s) (tokKey key) f
    + (if f = itoa (if reserved \<noteq> 0 then bucket else BucketStamp now)
       then (if reserved \<noteq> 0 then wrap64 (tokens - reserved) else tokens) else 0)"
proof -
  let ?cmds = "add_cmds now key tokens c a t reserved bucket"
  obtain ok s' where e: "lo_exec L s ?cmds = (ok, s')" by fastforce
  have only: "list_all only_counts ?cmds" by (simp add: add_cmds_def Let_def)
  have "amount (view s1) (tokKey key) f = amount (fold exec_cmd ?cmds (view s)) (tokKey key) f"
    using assms(2) hash_exec [OF assms(1) e]
    by (auto simp: Add_def Let_def e split: if_splits)
  also have "\<dots> = amount (view s) (tokKey key) f + sum_list (map (incr_of (tokKey key) f) ?cmds)"
    by (rule amount_fold [OF only])
  finally show ?thesis using key_kinds [of key] by (auto simp: add_cmds_def Let_def)
qed

section \<open>Outstanding reservations\<close>

definition hash_sum :: "(string \<rightharpoonup> int) \<Rightarrow> int" where
  "hash_sum m = (\<Sum>f \<in> dom m. the (m f))"

text \<open>A token hash that holds reservations of at least \<open>lo\<close>'s age, \<open>n\<close> in total, and nothing else.\<close>

definition reserved_only :: "int \<Rightarrow> int \<Rightarrow> (string \<rightharpoonup> int) \<Rightarrow> bool" where
  "reserved_only lo n m \<longleftrightarrow>
     finite (dom m) \<and> (\<forall>f \<in> dom m. live lo f) \<and> (\<forall>f \<in> dom m. 0 \<le> the (m f)) \<and> hash_sum m = n"

lemma live_mono: "\<lbrakk>live c f; c' \<le> c\<rbrakk> \<Longrightarrow> live c' f"
  by (auto simp: live_def split: option.splits)

lemma hash_sum_incr:
  assumes "finite (dom m)"
  shows "hash_sum (m(f \<mapsto> (case m f of None \<Rightarrow> r | Some v \<Rightarrow> v + r))) = hash_sum m + r"
proof (cases "m f")
  case None
  then have "f \<notin> dom m" by auto
  moreover from this have "(\<Sum>g \<in> dom m. the ((m(f \<mapsto> r)) g)) = hash_sum m"
    unfolding hash_sum_def by (intro sum.cong) auto
  ultimately show ?thesis using assms None
    by (simp add: hash_sum_def del: fun_upd_apply) simp
next
  case (Some v)
  then have d: "insert f (dom m) = dom m" "f \<in> dom m" by auto
  have "(\<Sum>g \<in> dom m - {f}. the ((m(f \<mapsto> v + r)) g)) = (\<Sum>g \<in> dom m - {f}. the (m g))"
    by (rule sum.cong) auto
  then show ?thesis using assms d Some
    by (simp add: hash_sum_def sum.remove [OF assms d(2)] del: fun_upd_apply) simp
qed

lemma reserved_only_incr:
  assumes "reserved_only lo n m" and "live lo f" and "0 \<le> r"
  shows "reserved_only lo (n + r) (m(f \<mapsto> (case m f of None \<Rightarrow> r | Some v \<Rightarrow> v + r)))"
proof -
  have "\<forall>g \<in> dom m. 0 \<le> the (m g)" using assms(1) by (simp add: reserved_only_def)
  then have "0 \<le> (case m f of None \<Rightarrow> r | Some v \<Rightarrow> v + r)" using assms(3) by (force split: option.split)
  then show ?thesis using assms hash_sum_incr [of m f r] by (auto simp: reserved_only_def)
qed

lemma reserved_only_sum:
  assumes "reserved_only lo n m" and "represents fs m" and "cutoff \<le> lo" and "n < 2 ^ 63"
  shows "sum_window cutoff fs = n"
proof -
  have m: "finite (dom m)" "\<forall>f \<in> dom m. live lo f" "\<forall>f \<in> dom m. 0 \<le> the (m f)" "hash_sum m = n"
    using assms(1) by (auto simp: reserved_only_def)
  have "in_int64 v" if "m f = Some v" for f v
  proof -
    have "the (m f) \<le> hash_sum m" unfolding hash_sum_def
      by (rule member_le_sum) (use m that in auto)
    moreover have "0 \<le> the (m f)" using m(3) that by (metis domI)
    ultimately show ?thesis using m(4) assms(4) that by (simp add: in_int64_def)
  qed
  moreover have "total cutoff m = n"
  proof -
    have "(\<Sum>f \<in> dom m. if live cutoff f then the (m f) else 0) = (\<Sum>f \<in> dom m. the (m f))"
      using m(2) live_mono [OF _ assms(3)] by (intro sum.cong) auto
    then show ?thesis using m(4) by (simp add: total_def hash_sum_def)
  qed
  moreover have "0 \<le> n" using m(3,4) unfolding hash_sum_def by (auto intro: sum_nonneg)
  ultimately show ?thesis using sum_window_total [OF assms(2)] assms(4) by (simp add: in_int64_def)
qed

lemma HDel_none:
  "\<lbrakk>list_all (\<lambda>c. \<exists>k fs. c = HDel k fs) cmds; h k f = None\<rbrakk> \<Longrightarrow> fold exec_cmd cmds h k f = None"
proof (induction cmds arbitrary: h)
  case (Cons c cmds)
  then obtain k' fs where "c = HDel k' fs" by auto
  then have "exec_cmd c h k f = None" using Cons.prems(2) by (auto simp: restrict_map_def)
  then show ?case using Cons by simp
qed simp

lemma prune_view:
  assumes "hash_server L view"
    and "\<forall>f \<in> dom (view s (tokKey key)). live (unix_sec (now - maxWindow - BucketSize)) f"
  shows "view (prune L key now tok cost audio tts s) (tokKey key) = view s (tokKey key)"
proof
  fix f
  let ?cmds = "prune_cmds key now tok cost audio tts"
  show "view (prune L key now tok cost audio tts s) (tokKey key) f = view s (tokKey key) f"
  proof (cases "f \<in> dom (view s (tokKey key))")
    case True
    then show ?thesis using prune_keeps [OF assms(1)] assms(2) by blast
  next
    case False
    obtain ok s' where e: "lo_exec L s ?cmds = (ok, s')" by fastforce
    have "fold exec_cmd ?cmds (view s) (tokKey key) f = None"
      using False by (intro HDel_none [OF prune_cmds_dels]) auto
    then show ?thesis using False hash_exec [OF assms(1) e] by (auto simp: prune_def Let_def e)
  qed
qed

text \<open>A check with a token cap, on a hash the pruning leaves alone.\<close>

lemma Check_reserves:
  assumes srv: "hash_server L view" and chk: "Check L now token key lims r s = (d, err, s1)"
    and cap: "map_of (lim_Tokens lims) win = Some m" "0 < m" "(win, dur) \<in> set Windows" and r: "0 < r"
    and live: "\<forall>f \<in> dom (view s (tokKey key)). live (unix_sec (now - maxWindow - BucketSize)) f"
  shows "\<exists>fs. represents fs (view s (tokKey key))
      \<and> (dAllowed d \<longrightarrow> SumWindows now fs win < m)
      \<and> view s1 (tokKey key)
        = (if dAllowed d then exec_cmd (HIncrBy (tokKey key) (itoa (BucketStamp now)) r)
             (\<lambda>_. view s (tokKey key)) (tokKey key) else view s (tokKey key))"
proof -
  let ?ks = "[tokKey key, costKey key, audioSecKey key, ttsCharKey key]"
  obtain sl where lk: "lockKey L lockRetries key token s = (True, sl)" "view sl = view s"
    using hash_lock [OF srv] by blast
  obtain g s' where rd: "lo_read L sl ?ks = (Some g, s')" "view s' = view s"
    and rep: "represents (g (tokKey key)) (view s (tokKey key))"
    using hash_serverD [OF srv, of sl ?ks] lk(2) by (metis list.set_intros(1))
  define s2 where "s2 = prune L key now (g (tokKey key)) (g (costKey key)) (g (audioSecKey key))
      (g (ttsCharKey key)) s'"
  have p: "view s2 (tokKey key) = view s (tokKey key)"
    using prune_view [OF srv] live rd(2) unfolding s2_def by metis
  let ?cw = "check_windows lims now (g (tokKey key)) (g (costKey key)) (g (audioSecKey key))
      (g (ttsCharKey key)) Windows"
  obtain ok s3 where e: "lo_exec L s2 [HIncrBy (tokKey key) (itoa (BucketStamp now)) r] = (ok, s3)"
    by fastforce
  have s3: "ok" "view s3 = exec_cmd (HIncrBy (tokKey key) (itoa (BucketStamp now)) r) (view s2)"
    using hash_exec [OF srv e] by simp_all
  have "lim_Tokens lims \<noteq> []" using cap(1) by auto
  then have out: "case ?cw of
        Some d' \<Rightarrow> d = d' \<and> s1 = lo_unlock L s2 (lock_name key) token
      | None \<Rightarrow> dAllowed d \<and> s1 = lo_unlock L s3 (lock_name key) token"
    using chk r s3(1)
    by (auto simp: Check_def check_locked_def lk(1) rd(1) Let_def e [unfolded s2_def] s2_def
        allowed_decision_def split: option.splits if_splits)
  show ?thesis
  proof (cases ?cw)
    case None
    then have "SumWindows now (g (tokKey key)) win < m" using check_windows_None cap by blast
    with None out rep p s3(2) hash_unlock [OF srv] show ?thesis by auto
  next
    case (Some d')
    then show ?thesis using out rep p hash_unlock [OF srv] check_windows_denies [OF Some] by auto
  qed
qed

section \<open>Properties\<close>


text \<open>A server that keeps its hashes as association lists.\<close>

type_synonym demo_server = "string \<Rightarrow> (string \<times> int) list"

definition demo_view :: "demo_server \<Rightarrow> hashes" where
  "demo_view s = (\<lambda>k. map_of (s k))"

fun demo_incr :: "string \<Rightarrow> int \<Rightarrow> (string \<times> int) list \<Rightarrow> (string \<times> int) list" where
  "demo_incr f n [] = [(f, n)]"
| "demo_incr f n ((g, v) # xs) = (if g = f then (g, v + n) # xs else (g, v) # demo_incr f n xs)"

fun demo_exec :: "hcmd \<Rightarrow> demo_server \<Rightarrow> demo_server" where
  "demo_exec (HIncrBy k f n) s = s(k := demo_incr f n (s k))"
| "demo_exec (HDel k fs) s = s(k := filter (\<lambda>e. fst e \<notin> set fs) (s k))"
| "demo_exec (Expire k d) s = s"

fun dedup :: "(string \<times> int) list \<Rightarrow> (string \<times> int) list" where
  "dedup [] = []"
| "dedup ((f, v) # xs) = (f, v) # filter (\<lambda>e. fst e \<noteq> f) (dedup xs)"

definition demo_ops :: "demo_server limit_ops" where
  "demo_ops = \<lparr>lo_read = (\<lambda>s ks. (Some (\<lambda>k. map (\<lambda>(f, v). (f, itoa v)) (dedup (s k))), s)),
     lo_exec = (\<lambda>s cmds. (True, fold demo_exec cmds s)),
     lo_setnx = (\<lambda>s n t d. (Some True, s)), lo_unlock = (\<lambda>s n t. s)\<rparr>"

lemma map_of_filter_fst: "map_of (filter (\<lambda>e. P (fst e)) xs) f = (if P f then map_of xs f else None)"
  by (induction xs) auto

lemma map_of_dedup: "map_of (dedup xs) = map_of xs"
proof (induction xs rule: dedup.induct)
  case (2 f v xs)
  have "map_of (filter (\<lambda>e. fst e \<noteq> f) (dedup xs)) g = (if g \<noteq> f then map_of xs g else None)" for g
    using map_of_filter_fst [of "\<lambda>x. x \<noteq> f" "dedup xs" g] 2 by simp
  then show ?case by (auto simp: fun_eq_iff)
qed simp

lemma distinct_dedup: "distinct (map fst (dedup xs))"
  by (induction xs rule: dedup.induct) (auto simp: distinct_map_filter)

lemma demo_represents: "represents (map (\<lambda>(f, v). (f, itoa v)) (dedup xs)) (map_of xs)"
proof -
  have "map fst (map (\<lambda>(f, v). (f, itoa v)) ys) = map fst ys" for ys :: "(string \<times> int) list" by auto
  moreover have "map_of (map (\<lambda>(f, v). (f, itoa v)) ys) = (\<lambda>f. map_option itoa (map_of ys f))"
    for ys :: "(string \<times> int) list" by (induction ys) auto
  ultimately show ?thesis using distinct_dedup [of xs] by (simp only: represents_def map_of_dedup)
qed

lemma demo_incr_map:
  "map_of (demo_incr f n xs) = (map_of xs)(f \<mapsto> (case map_of xs f of None \<Rightarrow> n | Some v \<Rightarrow> v + n))"
  by (induction xs) (auto simp: fun_eq_iff)

lemma demo_exec_view: "demo_view (demo_exec c s) = exec_cmd c (demo_view s)"
proof (cases c)
  case (HIncrBy k f n)
  then show ?thesis by (auto simp: demo_view_def fun_eq_iff demo_incr_map split: option.split)
next
  case (HDel k fs)
  then show ?thesis
    by (auto simp: demo_view_def fun_eq_iff restrict_map_def map_of_filter_fst [of "\<lambda>x. x \<notin> set fs"])
qed (simp add: demo_view_def)

lemma demo_fold_view: "demo_view (fold demo_exec cmds s) = fold exec_cmd cmds (demo_view s)"
  by (induction cmds arbitrary: s) (simp_all add: demo_exec_view)

lemma demo_hash_server: "hash_server demo_ops demo_view"
  unfolding hash_server_def using demo_represents
  by (simp add: demo_ops_def demo_fold_view) (simp add: demo_view_def)


definition demo_limits :: limits where
  "demo_limits = no_limits\<lparr>lim_Tokens := [(''5h'', 1000)]\<rparr>"


text \<open>A run of checks at given times with no usage recorded in between: how many were allowed.\<close>

fun check_run ::
  "'s limit_ops \<Rightarrow> string \<Rightarrow> string \<Rightarrow> limits \<Rightarrow> int \<Rightarrow> gotime list \<Rightarrow> 's \<Rightarrow> nat \<times> 's" where
  "check_run L token key lims r [] s = (0, s)"
| "check_run L token key lims r (now # ts) s =
     (let (d, err, s1) = Check L now token key lims r s;
          (n, s2) = check_run L token key lims r ts s1
      in (if dAllowed d then Suc n else n, s2))"

lemma window_cutoffs:
  assumes "(win, dur) \<in> set Windows" and "now \<le> t0 + 5 * hour - BucketSize"
  shows "unix_sec (now - dur) \<le> unix_sec t0 - 300"
    and "unix_sec (now - maxWindow - BucketSize) \<le> unix_sec t0 - 300"
proof -
  have "5 * hour \<le> dur" using assms(1) by (auto simp: Windows_def)
  then have a: "now - dur \<le> t0 - 300 * second" and b: "now - maxWindow - BucketSize \<le> t0 - 300 * second"
    using assms(2) by (simp_all add: maxWindow_def Windows_def)
  show "unix_sec (now - dur) \<le> unix_sec t0 - 300"
    and "unix_sec (now - maxWindow - BucketSize) \<le> unix_sec t0 - 300"
    using unix_sec_mono [OF a] unix_sec_mono [OF b] unfolding unix_sec_shift by simp_all
qed

lemma distinct_Windows: "(win, dur) \<in> set Windows \<Longrightarrow> map_of Windows win = Some dur"
  by (auto simp: Windows_def)

lemma check_run_bounded:
  assumes srv: "hash_server L view"
    and cap: "map_of (lim_Tokens lims) win = Some m" "0 < m" "(win, dur) \<in> set Windows"
    and r: "0 < r" "m + r < 2 ^ 63" and t0: "0 \<le> t0"
    and times: "\<forall>t \<in> set ts. t0 \<le> t \<and> t \<le> t0 + 5 * hour - BucketSize \<and> in_int64 (BucketStamp t)"
    and inv: "reserved_only (unix_sec t0 - 299) n (view s (tokKey key))" "0 \<le> n" "n < m + r"
  shows "n + int (fst (check_run L token key lims r ts s)) * r < m + r"
  using times inv
proof (induction ts arbitrary: s n)
  case Nil
  then show ?case by simp
next
  case (Cons now ts)
  let ?lo = "unix_sec t0 - 299" and ?m = "view s (tokKey key)"
  obtain d err s1 where chk: "Check L now token key lims r s = (d, err, s1)" by (metis prod_cases3)
  have now: "t0 \<le> now" "now \<le> t0 + 5 * hour - BucketSize" "in_int64 (BucketStamp now)"
    using Cons.prems(1) by simp_all
  have "unix_sec (now - maxWindow - BucketSize) \<le> ?lo" using window_cutoffs(2) [OF cap(3) now(2)] by linarith
  then have "\<forall>f \<in> dom ?m. live (unix_sec (now - maxWindow - BucketSize)) f"
    using Cons.prems(2) live_mono unfolding reserved_only_def by blast
  from Check_reserves [OF srv chk cap r(1) this] obtain fs where fs: "represents fs ?m"
    "dAllowed d \<longrightarrow> SumWindows now fs win < m"
    "view s1 (tokKey key) = (if dAllowed d then ?m(itoa (BucketStamp now) \<mapsto>
       (case ?m (itoa (BucketStamp now)) of None \<Rightarrow> r | Some v \<Rightarrow> v + r)) else ?m)" by auto
  show ?case
  proof (cases "dAllowed d")
    case False
    then show ?thesis using Cons.IH [of n s1] Cons.prems fs(3) by (simp add: chk split_beta)
  next
    case True
    have "unix_sec (now - dur) \<le> ?lo" using window_cutoffs(1) [OF cap(3) now(2)] by linarith
    then have "sum_window (unix_sec (now - dur)) fs = n"
      using reserved_only_sum [OF Cons.prems(2) fs(1)] Cons.prems(4) r(2) by simp
    then have "n < m" using True fs(2) distinct_Windows [OF cap(3)] by (simp add: SumWindows_def)
    moreover have "?lo \<le> unix_sec now - 299" using unix_sec_mono [OF now(1)] by simp
    then have "live ?lo (itoa (BucketStamp now))" using now t0 by (intro bucket_live) auto
    then have "reserved_only ?lo (n + r) (view s1 (tokKey key))"
      using reserved_only_incr [OF Cons.prems(2)] r(1) fs(3) True by simp
    ultimately show ?thesis
      using Cons.IH [of "n + r" s1] Cons.prems(1,3) r(1) True
      by (simp add: chk split_beta algebra_simps)
  qed
qed

text \<open>
  Concurrent requests cannot overrun a token cap together: starting from a key with no usage,
  checks that reserve \<open>r\<close> tokens each, made one after the other as the per-key lock orders them and
  before any of them finishes, let through fewer than \<open>m / r + 1\<close> requests, so what is reserved
  exceeds the cap \<open>m\<close> by less than one reservation.
\<close>
theorem reservations_bounded:
  assumes "hash_server L view"
    and "map_of (lim_Tokens lims) win = Some m" and "0 < m" and "win \<in> fst ` set Windows"
    and "0 < r" and "m + r < 2 ^ 63" and "0 \<le> t0"
    and "\<forall>t \<in> set ts. t0 \<le> t \<and> t \<le> t0 + 5 * hour - BucketSize \<and> in_int64 (BucketStamp t)"
    and "view s (tokKey key) = Map.empty"
  shows "int (fst (check_run L token key lims r ts s)) * r < m + r"
proof -
  obtain dur where "(win, dur) \<in> set Windows" using assms(4) by auto
  moreover have "reserved_only (unix_sec t0 - 299) 0 (view s (tokKey key))"
    by (simp add: assms(9) reserved_only_def hash_sum_def)
  ultimately show ?thesis
    using check_run_bounded [OF assms(1-3) _ assms(5-8), of dur 0 s key token] assms(3,5) by simp
qed

theorem reservations_bounded_witness:
  "int (fst (check_run demo_ops ''t'' ''k'' demo_limits 400 (replicate 9 (12 * hour)) (\<lambda>_. []))) * 400
     < 1000 + 400"
proof (rule reservations_bounded [OF demo_hash_server, where win = "''5h''" and ?t0.0 = "12 * hour"])
  show "map_of (lim_Tokens demo_limits) ''5h'' = Some 1000" by (simp add: demo_limits_def)
  show "''5h'' \<in> fst ` set Windows" by (simp add: Windows_def)
  show "\<forall>t \<in> set (replicate 9 (12 * hour)). 12 * hour \<le> t \<and> t \<le> 12 * hour + 5 * hour - BucketSize
      \<and> in_int64 (BucketStamp t)"
    by (simp add: BucketStamp_def unix_sec_def trunc_div_def Let_def in_int64_def)
  show "demo_view (\<lambda>_. []) (tokKey ''k'') = Map.empty" by (simp add: demo_view_def)
qed simp_all

end
