(* ===== verification/KeyValue.thy ===== *)
theory KeyValue
  imports Prelude
begin

text \<open>
  The Redis string commands the health and affinity stores issue, as a parameter: what each command
  answers and the server it leaves. Values are those the caller stores, decoded; a reply says whether
  the stored bytes decoded.
\<close>

datatype 'v kv_reply = KVal 'v | KBad | KNil | KErr

record ('s, 'v) kv_ops =
  kv_get :: "'s \<Rightarrow> string \<Rightarrow> 'v kv_reply \<times> 's"
  kv_set :: "'s \<Rightarrow> string \<Rightarrow> 'v \<Rightarrow> duration \<Rightarrow> bool \<times> 's"
  kv_del :: "'s \<Rightarrow> string \<Rightarrow> bool \<times> 's"
  kv_pexpire :: "'s \<Rightarrow> string \<Rightarrow> duration \<Rightarrow> bool \<times> 's"

text \<open>
  A reachable server within the lifetime of its keys: \<open>GET\<close> returns what the last \<open>SET\<close> stored, a
  deleted or absent key answers nil.
\<close>

definition kv_server :: "('s, 'v) kv_ops \<Rightarrow> ('s \<Rightarrow> string \<rightharpoonup> 'v) \<Rightarrow> bool" where
  "kv_server K view \<longleftrightarrow>
     (\<forall>s k. \<exists>s'. kv_get K s k = ((case view s k of None \<Rightarrow> KNil | Some v \<Rightarrow> KVal v), s') \<and> view s' = view s)
     \<and> (\<forall>s k v d. \<exists>s'. kv_set K s k v d = (True, s') \<and> view s' = (view s)(k \<mapsto> v))
     \<and> (\<forall>s k. \<exists>s'. kv_del K s k = (True, s') \<and> view s' = (view s)(k := None))
     \<and> (\<forall>s k d. \<exists>s'. kv_pexpire K s k d = (True, s') \<and> view s' = view s)"

lemma kv_serverD:
  assumes "kv_server K view"
  shows "\<exists>s'. kv_get K s k = ((case view s k of None \<Rightarrow> KNil | Some v \<Rightarrow> KVal v), s') \<and> view s' = view s"
    and "\<exists>s'. kv_set K s k v d = (True, s') \<and> view s' = (view s)(k \<mapsto> v)"
    and "\<exists>s'. kv_del K s k = (True, s') \<and> view s' = (view s)(k := None)"
    and "\<exists>s'. kv_pexpire K s k d = (True, s') \<and> view s' = view s"
  using assms unfolding kv_server_def by blast+

text \<open>A server that is a map, for concrete evaluation.\<close>

definition map_ops :: "(string \<rightharpoonup> 'v, 'v) kv_ops" where
  "map_ops = \<lparr>kv_get = (\<lambda>s k. ((case s k of None \<Rightarrow> KNil | Some v \<Rightarrow> KVal v), s)),
     kv_set = (\<lambda>s k v d. (True, s(k \<mapsto> v))), kv_del = (\<lambda>s k. (True, s(k := None))),
     kv_pexpire = (\<lambda>s k d. (True, s))\<rparr>"

lemma map_ops_server: "kv_server map_ops (\<lambda>s. s)"
  by (simp add: kv_server_def map_ops_def)

end
