(* ===== verification/Unavail.thy ===== *)
theory Unavail
  imports KeyValue
begin

text \<open>
  Marks on unavailable targets (\<open>internal/unavail\<close>): how long a provider's model is skipped after a
  retryable failure, with the vendor's own \<open>Retry-After\<close> honoured and a doubling back-off otherwise.
\<close>

section \<open>Model\<close>

record ukey =
  uk_Provider :: string
  uk_UpstreamModel :: string

definition unavail_redisKey :: "ukey \<Rightarrow> string" where
  "unavail_redisKey k = ''air:unavail:'' @ uk_Provider k @ '':'' @ uk_UpstreamModel k"

record urecord =
  UntilMS :: int
  BackoffMS :: int

abbreviation unavail_recordTTL :: duration where "unavail_recordTTL \<equiv> hour"

text \<open>The store: the local marks and, when there is one, the Redis server.\<close>

record 's ustore =
  us_local :: "ukey \<rightharpoonup> urecord"
  us_rdb :: "'s option"

type_synonym 's ukv = "('s, urecord) kv_ops"

definition unavail_new :: "'s option \<Rightarrow> 's ustore" where
  "unavail_new rdb = \<lparr>us_local = Map.empty, us_rdb = rdb\<rparr>"

definition unavail_load :: "'s ukv \<Rightarrow> ukey \<Rightarrow> 's ustore \<Rightarrow> urecord option \<times> 's ustore" where
  "unavail_load K k s =
     (case us_rdb s of
        None \<Rightarrow> (us_local s k, s)
      | Some r \<Rightarrow>
          (case kv_get K r (unavail_redisKey k) of
             (KVal v, r') \<Rightarrow> (Some v, s\<lparr>us_rdb := Some r'\<rparr>)
           | (KBad, r') \<Rightarrow> (None, s\<lparr>us_rdb := Some r'\<rparr>)
           | (KNil, r') \<Rightarrow> (None, s\<lparr>us_rdb := Some r'\<rparr>)
           | (KErr, r') \<Rightarrow> (us_local s k, s\<lparr>us_rdb := Some r'\<rparr>)))"

definition unavail_store :: "'s ukv \<Rightarrow> ukey \<Rightarrow> urecord \<Rightarrow> 's ustore \<Rightarrow> 's ustore" where
  "unavail_store K k v s0 =
     (let s = s0\<lparr>us_local := (us_local s0)(k \<mapsto> v)\<rparr>
      in case us_rdb s of
           None \<Rightarrow> s
         | Some r \<Rightarrow> s\<lparr>us_rdb := Some (snd (kv_set K r (unavail_redisKey k) v unavail_recordTTL))\<rparr>)"

text \<open>The remaining time when the target is to be skipped.\<close>

definition unavail_Check :: "'s ukv \<Rightarrow> gotime \<Rightarrow> ukey \<Rightarrow> 's ustore \<Rightarrow> duration option \<times> 's ustore" where
  "unavail_Check K now k s =
     (case unavail_load K k s of
        (None, s') \<Rightarrow> (None, s')
      | (Some r, s') \<Rightarrow>
          (let until = from_milli (UntilMS r)
           in (if now < until then Some (until - now) else None, s')))"

definition mark_duration :: "duration option \<Rightarrow> duration \<Rightarrow> duration \<Rightarrow> urecord option \<Rightarrow> duration" where
  "mark_duration retryAfter initial mx prev =
     (let backoff = (case prev of None \<Rightarrow> 0 | Some r \<Rightarrow> BackoffMS r);
          dur = (case retryAfter of
                   Some ra \<Rightarrow> ra
                 | None \<Rightarrow>
                     if backoff > 0 then
                       (let d = wrap64 (wrap64 (backoff * millisecond) * 2)
                        in if mx > 0 \<and> d > mx then mx else d)
                     else initial)
      in if dur < 0 then 0 else dur)"

definition unavail_Mark ::
  "'s ukv \<Rightarrow> gotime \<Rightarrow> ukey \<Rightarrow> duration option \<Rightarrow> duration \<Rightarrow> duration \<Rightarrow> 's ustore \<Rightarrow> duration \<times> 's ustore" where
  "unavail_Mark K now k retryAfter initial mx s =
     (let (prev, s1) = unavail_load K k s;
          dur = mark_duration retryAfter initial mx prev
      in (dur, unavail_store K k
                 \<lparr>UntilMS = unix_milli (now + dur), BackoffMS = dur_millis dur\<rparr> s1))"

definition unavail_Clear :: "'s ukv \<Rightarrow> ukey \<Rightarrow> 's ustore \<Rightarrow> 's ustore" where
  "unavail_Clear K k s0 =
     (let s = s0\<lparr>us_local := (us_local s0)(k := None)\<rparr>
      in case us_rdb s of
           None \<Rightarrow> s
         | Some r \<Rightarrow> s\<lparr>us_rdb := Some (snd (kv_del K r (unavail_redisKey k)))\<rparr>)"

section \<open>Reading back\<close>

text \<open>What a target's mark is, in process or on the shared server.\<close>

definition mark_of :: "('s \<Rightarrow> string \<rightharpoonup> urecord) \<Rightarrow> ukey \<Rightarrow> 's ustore \<Rightarrow> urecord option" where
  "mark_of view k s =
     (case us_rdb s of None \<Rightarrow> us_local s k | Some r \<Rightarrow> view r (unavail_redisKey k))"

lemma unavail_load_mark:
  assumes "kv_server K view"
  shows "fst (unavail_load K k s) = mark_of view k s"
    and "mark_of view k (snd (unavail_load K k s)) = mark_of view k s"
proof -
  have "fst (unavail_load K k s) = mark_of view k s \<and> mark_of view k (snd (unavail_load K k s)) = mark_of view k s"
  proof (cases "us_rdb s")
    case None
    then show ?thesis by (simp add: unavail_load_def mark_of_def)
  next
    case (Some r)
    obtain r' where "kv_get K r (unavail_redisKey k)
        = ((case view r (unavail_redisKey k) of None \<Rightarrow> KNil | Some v \<Rightarrow> KVal v), r')" "view r' = view r"
      using kv_serverD(1) [OF assms] by blast
    with Some show ?thesis
      by (cases "view r (unavail_redisKey k)") (simp_all add: unavail_load_def mark_of_def)
  qed
  then show "fst (unavail_load K k s) = mark_of view k s"
    and "mark_of view k (snd (unavail_load K k s)) = mark_of view k s" by blast+
qed

lemma unavail_store_mark:
  assumes "kv_server K view"
  shows "mark_of view k (unavail_store K k v s) = Some v"
proof (cases "us_rdb s")
  case None
  then show ?thesis by (simp add: unavail_store_def mark_of_def Let_def)
next
  case (Some r)
  obtain r' where "kv_set K r (unavail_redisKey k) v unavail_recordTTL = (True, r')"
    "view r' = (view r)(unavail_redisKey k \<mapsto> v)" using kv_serverD(2) [OF assms] by blast
  with Some show ?thesis by (simp add: unavail_store_def mark_of_def Let_def)
qed

lemma Mark_mark:
  assumes "kv_server K view"
  shows "mark_of view k (snd (unavail_Mark K now k ra initial mx s))
      = Some \<lparr>UntilMS = unix_milli (now + fst (unavail_Mark K now k ra initial mx s)),
              BackoffMS = dur_millis (fst (unavail_Mark K now k ra initial mx s))\<rparr>"
    and "fst (unavail_Mark K now k ra initial mx s) = mark_duration ra initial mx (mark_of view k s)"
  using unavail_load_mark [OF assms] unavail_store_mark [OF assms]
  by (simp_all add: unavail_Mark_def split_beta Let_def)

lemma upt_0_Suc: "[0..<Suc n] = 0 # map Suc [0..<n]"
  by (metis map_Suc_upt upt_conv_Cons zero_less_Suc)

text \<open>A run of failures in a row, each marking the target; the durations used.\<close>

fun mark_run :: "'s ukv \<Rightarrow> ukey \<Rightarrow> duration \<Rightarrow> duration \<Rightarrow> gotime list \<Rightarrow> 's ustore \<Rightarrow> duration list" where
  "mark_run K k initial mx [] s = []"
| "mark_run K k initial mx (now # ts) s =
     (let (d, s') = unavail_Mark K now k None initial mx s in d # mark_run K k initial mx ts s')"

lemma mark_run_doubling:
  assumes "kv_server K view" and "0 < b" and "b \<le> M"
    and "mark_of view k s = Some r" and "BackoffMS r = b" and "M < 2 ^ 40"
  shows "mark_run K k initial (M * millisecond) ts s
    = map (\<lambda>n. min (b * 2 ^ Suc n) M * millisecond) [0..<length ts]"
  using assms(2-5)
proof (induction ts arbitrary: b r s)
  case Nil
  then show ?case by simp
next
  case (Cons now ts)
  let ?m = "unavail_Mark K now k None initial (M * millisecond) s"
  let ?b = "min (b * 2) M"
  have small: "in_int64 (b * millisecond)" "in_int64 (b * millisecond * 2)"
    using Cons.prems(1,2) assms(6) by (simp_all add: in_int64_def)
  have d: "fst ?m = ?b * millisecond"
    using Mark_mark(2) [OF assms(1)] Cons.prems small
    by (simp add: mark_duration_def Let_def min_def)
  have bs: "0 < ?b" "?b \<le> M" using Cons.prems by auto
  have "mark_of view k (snd ?m) = Some \<lparr>UntilMS = unix_milli (now + fst ?m), BackoffMS = ?b\<rparr>"
    using Mark_mark(1) [OF assms(1)] by (simp only: d dur_millis_scale)
  from Cons.IH [OF bs this] have IH: "mark_run K k initial (M * millisecond) ts (snd ?m)
      = map (\<lambda>n. min (?b * 2 ^ Suc n) M * millisecond) [0..<length ts]" by simp
  have sat: "min (?b * 2 ^ Suc n) M = min (b * 2 ^ Suc (Suc n)) M" for n
  proof (cases "b * 2 \<le> M")
    case False
    have p: "(1 :: int) \<le> 2 ^ Suc n" by (rule one_le_power) simp
    have "M * 1 \<le> M * 2 ^ Suc n" using bs p by (intro mult_left_mono) auto
    then have l: "min (M * 2 ^ Suc n) M = M" by (intro min_absorb2) simp
    have "M * 1 \<le> b * 2 * 2 ^ Suc n" using False bs p by (intro mult_mono) auto
    then have r: "min (b * 2 ^ Suc (Suc n)) M = M" by (intro min_absorb2) simp
    have "?b = M" using False by simp
    then show ?thesis using l r by metis
  qed (simp add: min_def)
  have "[0..<length (now # ts)] = 0 # map Suc [0..<length ts]"
    using upt_0_Suc by simp
  then show ?case using IH d sat by (simp add: split_beta comp_def)
qed

section \<open>Properties\<close>

text \<open>
  A mark holds for exactly its duration, to the millisecond, in process and on a shared server:
  a later check skips the target until the mark runs out and never after; and a vendor's
  \<open>Retry-After\<close> is that duration, whatever the gateway's own maximum.
\<close>
theorem mark_holds_for_duration:
  assumes "kv_server K view" and "unavail_Mark K now k (Some ra) initial mx s = (d, s1)" and "0 \<le> ra"
  shows "d = ra
    \<and> (t < now + ra - millisecond \<longrightarrow> fst (unavail_Check K t k s1) \<noteq> None)
    \<and> (now + ra \<le> t \<longrightarrow> fst (unavail_Check K t k s1) = None)"
proof -
  have d: "d = ra"
    using Mark_mark(2) [OF assms(1), of now k "Some ra" initial mx s] assms(2,3)
    by (simp add: mark_duration_def)
  have m: "fst (unavail_load K k s1)
      = Some \<lparr>UntilMS = unix_milli (now + ra), BackoffMS = dur_millis ra\<rparr>"
    using unavail_load_mark(1) [OF assms(1)] Mark_mark(1) [OF assms(1), of k now "Some ra" initial mx s]
      assms(2) d by simp
  have chk: "fst (unavail_Check K t k s1)
      = (if t < from_milli (unix_milli (now + ra)) then Some (from_milli (unix_milli (now + ra)) - t) else None)"
    using m by (cases "unavail_load K k s1") (simp add: unavail_Check_def Let_def)
  have "now + ra - millisecond < from_milli (unix_milli (now + ra))"
    using pos_mod_bound [of millisecond "now + ra"] div_mult_mod_eq [of "now + ra" millisecond]
    unfolding from_milli_def unix_milli_def by linarith
  then show ?thesis using d chk from_milli_le [of "now + ra"] by auto
qed

definition demo_ukey :: ukey where
  "demo_ukey = \<lparr>uk_Provider = ''p'', uk_UpstreamModel = ''m''\<rparr>"

theorem mark_holds_for_duration_witness:
  "let (d, s1) = unavail_Mark map_ops 0 demo_ukey (Some minute) second second (unavail_new (Some Map.empty))
   in d = minute \<and> fst (unavail_Check map_ops second demo_ukey s1) \<noteq> None
      \<and> fst (unavail_Check map_ops minute demo_ukey s1) = None"
proof -
  let ?s = "unavail_new (Some Map.empty)"
  obtain d s1 where m: "unavail_Mark map_ops 0 demo_ukey (Some minute) second second ?s = (d, s1)" by fastforce
  from mark_holds_for_duration [OF map_ops_server m, of second] mark_holds_for_duration [OF map_ops_server m, of minute]
  show ?thesis by (simp add: m)
qed

text \<open>
  Failures in a row without a \<open>Retry-After\<close> back off exponentially: the durations start at the
  initial one, double with each failure and stay at the maximum once it is reached, on a target with
  no mark; no duration overflows.
\<close>
theorem marks_double:
  assumes "kv_server K view" and "mark_of view k s = None"
    and "0 < i" and "i \<le> M" and "M < 2 ^ 40"
  shows "mark_run K k (i * millisecond) (M * millisecond) ts s
    = map (\<lambda>n. min (i * 2 ^ n) M * millisecond) [0..<length ts]"
proof (cases ts)
  case (Cons now ts')
  let ?m = "unavail_Mark K now k None (i * millisecond) (M * millisecond) s"
  have d: "fst ?m = i * millisecond"
    using Mark_mark(2) [OF assms(1)] assms(2,3) by (simp add: mark_duration_def Let_def)
  have "mark_of view k (snd ?m) = Some \<lparr>UntilMS = unix_milli (now + fst ?m), BackoffMS = i\<rparr>"
    using Mark_mark(1) [OF assms(1)] by (simp only: d dur_millis_scale)
  from mark_run_doubling [OF assms(1,3,4) this _ assms(5)]
  have rest: "mark_run K k (i * millisecond) (M * millisecond) ts' (snd ?m)
      = map (\<lambda>n. min (i * 2 ^ Suc n) M * millisecond) [0..<length ts']" by simp
  have "[0..<length ts] = 0 # map Suc [0..<length ts']"
    using Cons upt_0_Suc by simp
  then show ?thesis using Cons d rest assms(4) by (simp add: split_beta comp_def)
qed simp

theorem marks_double_witness:
  "mark_run map_ops demo_ukey (200 * millisecond) (1000 * millisecond) [0, 1, 2, 3, 4] (unavail_new None)
   = [200 * millisecond, 400 * millisecond, 800 * millisecond, 1000 * millisecond, 1000 * millisecond]"
proof -
  have "mark_of (\<lambda>s. s) demo_ukey (unavail_new None) = None" by (simp add: mark_of_def unavail_new_def)
  from marks_double [OF map_ops_server this, of 200 1000 "[0, 1, 2, 3, 4]"] show ?thesis
    by (simp add: upt_rec numeral_nat)
qed

end
