(* ===== verification/Affinity.thy ===== *)
theory Affinity
  imports KeyValue
begin

text \<open>
  Session pins (\<open>internal/affinity\<close>): which tier of an alias a client session was moved to. The local
  pins with their expiry and sweep, the shared pins with the Lua script that raises them, and the
  back-off from an unreachable Redis.
\<close>

section \<open>Model\<close>

record akey =
  ak_alias :: string
  ak_session :: string

record pin =
  pin_tier :: int
  pin_until :: gotime

abbreviation aff_remoteRetryAfter :: duration where "aff_remoteRetryAfter \<equiv> 5 * second"
abbreviation sweepAt :: nat where "sweepAt \<equiv> 1024"
abbreviation sweepEvery :: duration where "sweepEvery \<equiv> minute"

text \<open>The local map is the list of its entries, one per key.\<close>

record 's astore =
  as_local :: "(akey \<times> pin) list"
  as_nextSweep :: "gotime option"
  as_rdb :: "'s option"
  as_downTill :: "gotime option"

type_synonym 's akv = "('s, int) kv_ops"

definition aff_new :: "'s option \<Rightarrow> 's astore" where
  "aff_new rdb = \<lparr>as_local = [], as_nextSweep = None, as_rdb = rdb, as_downTill = None\<rparr>"

text \<open>\<open>sha\<close> is the hex digest of SHA-256.\<close>

definition aff_redisKey :: "(string \<Rightarrow> string) \<Rightarrow> akey \<Rightarrow> string" where
  "aff_redisKey sha k = ''air:affinity:'' @ ak_alias k @ '':'' @ sha (ak_session k)"

definition aff_due :: "gotime option \<Rightarrow> gotime \<Rightarrow> bool" where
  "aff_due down wall = (case down of None \<Rightarrow> True | Some till \<Rightarrow> till < wall)"

definition aff_useRemote :: "gotime \<Rightarrow> 's astore \<Rightarrow> bool" where
  "aff_useRemote wall s = (as_rdb s \<noteq> None \<and> aff_due (as_downTill s) wall)"

definition aff_remoteFailed :: "gotime \<Rightarrow> 's astore \<Rightarrow> 's astore" where
  "aff_remoteFailed wall s = s\<lparr>as_downTill := Some (wall + aff_remoteRetryAfter)\<rparr>"

definition aff_remoteOK :: "'s astore \<Rightarrow> 's astore" where
  "aff_remoteOK s = s\<lparr>as_downTill := None\<rparr>"

interpretation aff_backoff: remote_backoff aff_due "\<lambda>_ t. Some (t + aff_remoteRetryAfter)" "\<lambda>_. None"
  aff_remoteRetryAfter
  by unfold_locales (auto simp: aff_due_def)

definition localPinned :: "gotime \<Rightarrow> akey \<Rightarrow> 's astore \<Rightarrow> int option" where
  "localPinned now k s =
     (case map_of (as_local s) k of
        None \<Rightarrow> None
      | Some p \<Rightarrow> if now < pin_until p then Some (pin_tier p) else None)"

definition aff_sweep :: "gotime \<Rightarrow> 's astore \<Rightarrow> 's astore" where
  "aff_sweep now s =
     (if length (as_local s) \<ge> sweepAt \<and> (case as_nextSweep s of None \<Rightarrow> True | Some t \<Rightarrow> t \<le> now)
      then s\<lparr>as_nextSweep := Some (now + sweepEvery),
             as_local := filter (\<lambda>e. now < pin_until (snd e)) (as_local s)\<rparr>
      else s)"

definition set_pin :: "akey \<Rightarrow> pin \<Rightarrow> (akey \<times> pin) list \<Rightarrow> (akey \<times> pin) list" where
  "set_pin k p ps = (k, p) # filter (\<lambda>e. fst e \<noteq> k) ps"

definition localPin :: "gotime \<Rightarrow> akey \<Rightarrow> int \<Rightarrow> duration \<Rightarrow> 's astore \<Rightarrow> bool \<times> 's astore" where
  "localPin now k tier ttl s0 =
     (let s = aff_sweep now s0;
          (tier', moved) = (case map_of (as_local s) k of
                              None \<Rightarrow> (tier, True)
                            | Some p \<Rightarrow> if now < pin_until p \<and> pin_tier p \<ge> tier then (pin_tier p, False)
                                       else (tier, True))
      in (moved, s\<lparr>as_local := set_pin k \<lparr>pin_tier = tier', pin_until = now + ttl\<rparr> (as_local s)\<rparr>))"

text \<open>The Lua script: the tier held before, -1 for none; \<open>None\<close> when a command fails.\<close>

definition pinScript :: "'s akv \<Rightarrow> string \<Rightarrow> int \<Rightarrow> duration \<Rightarrow> 's \<Rightarrow> int option \<times> 's" where
  "pinScript K key tier ttl r =
     (case kv_get K r key of
        (KErr, r1) \<Rightarrow> (None, r1)
      | (KVal cur, r1) \<Rightarrow>
          if cur \<ge> tier then (case kv_pexpire K r1 key ttl of (ok, r2) \<Rightarrow> (if ok then Some cur else None, r2))
          else (case kv_set K r1 key tier ttl of (ok, r2) \<Rightarrow> (if ok then Some cur else None, r2))
      | (_, r1) \<Rightarrow> (case kv_set K r1 key tier ttl of (ok, r2) \<Rightarrow> (if ok then Some (- 1) else None, r2)))"

text \<open>\<open>ctxDone\<close>: the caller's own context has ended, so a failure says nothing about Redis.\<close>

definition Pinned ::
  "'s akv \<Rightarrow> (string \<Rightarrow> string) \<Rightarrow> gotime \<Rightarrow> gotime \<Rightarrow> bool \<Rightarrow> akey \<Rightarrow> 's astore \<Rightarrow> int option \<times> 's astore" where
  "Pinned K sha now wall ctxDone k s =
     (let own = localPinned now k s
      in case as_rdb s of
           None \<Rightarrow> (own, s)
         | Some r \<Rightarrow>
             if \<not> aff_useRemote wall s then (own, s)
             else (case kv_get K r (aff_redisKey sha k) of
                 (KVal rt, r') \<Rightarrow>
                   ((case own of None \<Rightarrow> Some rt | Some t \<Rightarrow> if rt > t then Some rt else Some t),
                    aff_remoteOK (s\<lparr>as_rdb := Some r'\<rparr>))
               | (KBad, r') \<Rightarrow> (own, aff_remoteOK (s\<lparr>as_rdb := Some r'\<rparr>))
               | (KNil, r') \<Rightarrow> (own, aff_remoteOK (s\<lparr>as_rdb := Some r'\<rparr>))
               | (KErr, r') \<Rightarrow>
                   (own, if ctxDone then s\<lparr>as_rdb := Some r'\<rparr>
                         else aff_remoteFailed wall (s\<lparr>as_rdb := Some r'\<rparr>))))"

definition Pin ::
  "'s akv \<Rightarrow> (string \<Rightarrow> string) \<Rightarrow> gotime \<Rightarrow> gotime \<Rightarrow> bool \<Rightarrow> akey \<Rightarrow> int \<Rightarrow> duration \<Rightarrow> 's astore
     \<Rightarrow> bool \<times> 's astore" where
  "Pin K sha now wall ctxDone k tier ttl s0 =
     (let (moved, s) = localPin now k tier ttl s0
      in case as_rdb s of
           None \<Rightarrow> (moved, s)
         | Some r \<Rightarrow>
             if \<not> aff_useRemote wall s then (moved, s)
             else (case pinScript K (aff_redisKey sha k) tier ttl r of
                 (Some prev, r') \<Rightarrow> (prev < tier, aff_remoteOK (s\<lparr>as_rdb := Some r'\<rparr>))
               | (None, r') \<Rightarrow>
                   (moved, if ctxDone then s\<lparr>as_rdb := Some r'\<rparr>
                           else aff_remoteFailed wall (s\<lparr>as_rdb := Some r'\<rparr>))))"

definition Forget ::
  "'s akv \<Rightarrow> (string \<Rightarrow> string) \<Rightarrow> gotime \<Rightarrow> bool \<Rightarrow> akey \<Rightarrow> 's astore \<Rightarrow> 's astore" where
  "Forget K sha wall ctxDone k s0 =
     (let s = s0\<lparr>as_local := filter (\<lambda>e. fst e \<noteq> k) (as_local s0)\<rparr>
      in case as_rdb s of
           None \<Rightarrow> s
         | Some r \<Rightarrow>
             if \<not> aff_useRemote wall s then s
             else (case kv_del K r (aff_redisKey sha k) of
                 (True, r') \<Rightarrow> aff_remoteOK (s\<lparr>as_rdb := Some r'\<rparr>)
               | (False, r') \<Rightarrow> if ctxDone then s\<lparr>as_rdb := Some r'\<rparr>
                                else aff_remoteFailed wall (s\<lparr>as_rdb := Some r'\<rparr>)))"

section \<open>Pins move forward\<close>

lemma map_of_set_pin: "map_of (set_pin k p ps) j = (if j = k then Some p else map_of ps j)"
proof -
  have "map_of (filter (\<lambda>e. fst e \<noteq> k) ps) j = (if j = k then None else map_of ps j)"
    by (induction ps) auto
  then show ?thesis by (simp add: set_pin_def)
qed

lemma map_of_filter_live:
  assumes "distinct (map fst ps)"
  shows "map_of (filter (\<lambda>e. P (snd e)) ps) k
    = (case map_of ps k of None \<Rightarrow> None | Some p \<Rightarrow> if P p then Some p else None)"
  using assms
proof (induction ps)
  case (Cons e ps)
  obtain j q where e: "e = (j, q)" by fastforce
  have "map_of ps j = None" using Cons.prems e by (simp add: map_of_eq_None_iff)
  then show ?case using Cons e by auto
qed simp

definition aff_wf :: "'s astore \<Rightarrow> bool" where
  "aff_wf s \<longleftrightarrow> distinct (map fst (as_local s))"

lemma aff_sweep_pinned:
  assumes "aff_wf s"
  shows "aff_wf (aff_sweep now s)" and "localPinned now k (aff_sweep now s) = localPinned now k s"
  using assms map_of_filter_live [of "as_local s" "\<lambda>p. now < pin_until p" k]
  by (auto simp: aff_wf_def aff_sweep_def localPinned_def distinct_map_filter split: option.splits)

lemma localPin_wf: "aff_wf s \<Longrightarrow> aff_wf (snd (localPin now k tier ttl s))"
  using aff_sweep_pinned(1) [of s now]
  by (auto simp: localPin_def aff_wf_def set_pin_def Let_def distinct_map_filter split: option.splits)

lemma localPin_pinned:
  assumes "aff_wf s" and "t < now + ttl"
  shows "localPinned t k (snd (localPin now k tier ttl s))
    = Some (case localPinned now k s of None \<Rightarrow> tier | Some p \<Rightarrow> max p tier)"
proof -
  have "localPinned now k (aff_sweep now s) = localPinned now k s" by (rule aff_sweep_pinned(2) [OF assms(1)])
  then show ?thesis using assms(2)
    by (auto simp: localPin_def Let_def localPinned_def map_of_set_pin max_def split: option.splits if_splits)
qed

lemma localPin_other:
  assumes "aff_wf s" and "j \<noteq> k" and "now \<le> t"
  shows "localPinned t j (snd (localPin now k tier ttl s)) = localPinned t j s"
proof -
  have "localPinned t j (aff_sweep now s) = localPinned t j s"
    using assms map_of_filter_live [of "as_local s" "\<lambda>p. now < pin_until p" j]
    by (auto simp: aff_wf_def aff_sweep_def localPinned_def split: option.splits)
  then show ?thesis using assms(2)
    by (auto simp: localPin_def Let_def localPinned_def map_of_set_pin split: option.splits)
qed

lemma Pin_local: "as_local (snd (Pin K sha now wall ctx k tier ttl s)) = as_local (snd (localPin now k tier ttl s))"
  by (auto simp: Pin_def split_beta Let_def aff_remoteOK_def aff_remoteFailed_def split: option.splits)

lemma localPinned_local: "as_local s = as_local s' \<Longrightarrow> localPinned now k s = localPinned now k s'"
  by (simp add: localPinned_def)

text \<open>A call's requests: each pins the session to the tier that served it, at its time.\<close>

record serving =
  sv_at :: gotime
  sv_wall :: gotime
  sv_tier :: int

fun pin_run ::
  "'s akv \<Rightarrow> (string \<Rightarrow> string) \<Rightarrow> akey \<Rightarrow> duration \<Rightarrow> serving list \<Rightarrow> 's astore \<Rightarrow> 's astore" where
  "pin_run K sha k ttl [] s = s"
| "pin_run K sha k ttl (v # vs) s =
     pin_run K sha k ttl vs (snd (Pin K sha (sv_at v) (sv_wall v) False k (sv_tier v) ttl s))"

text \<open>Each request comes before the pin of the one before it expires.\<close>

fun within_ttl :: "duration \<Rightarrow> gotime \<Rightarrow> serving list \<Rightarrow> gotime \<Rightarrow> bool" where
  "within_ttl ttl prev [] t = (t < prev + ttl)"
| "within_ttl ttl prev (v # vs) t = (sv_at v < prev + ttl \<and> within_ttl ttl (sv_at v) vs t)"

lemma pin_run_pinned:
  assumes "aff_wf s" and "\<And>t. t < prev + ttl \<Longrightarrow> localPinned t k s = Some p"
    and "within_ttl ttl prev vs t"
  shows "localPinned t k (pin_run K sha k ttl vs s) = Some (foldl max p (map sv_tier vs))"
  using assms
proof (induction vs arbitrary: s prev p)
  case Nil
  then show ?case by simp
next
  case (Cons v vs)
  let ?s = "snd (Pin K sha (sv_at v) (sv_wall v) False k (sv_tier v) ttl s)"
  have wf: "aff_wf ?s" using localPin_wf [OF Cons.prems(1)] by (simp add: aff_wf_def Pin_local)
  have at: "localPinned (sv_at v) k s = Some p" using Cons.prems(2,3) by simp
  have "localPinned u k ?s = Some (max p (sv_tier v))" if "u < sv_at v + ttl" for u
    using localPin_pinned [OF Cons.prems(1) that] at by (simp add: localPinned_def Pin_local)
  from Cons.IH [OF wf this] Cons.prems(3) show ?case by simp
qed

lemma foldl_max_ge: "p \<le> foldl max (p :: int) xs \<and> (\<forall>x \<in> set xs. x \<le> foldl max p xs)"
proof (induction xs arbitrary: p)
  case (Cons x xs)
  have "max p x \<le> foldl max (max p x) xs" "\<forall>y \<in> set xs. y \<le> foldl max (max p x) xs"
    using Cons.IH by blast+
  then show ?case by auto
qed simp

lemma Pinned_ge_local:
  "\<lbrakk>localPinned now k s = Some p; Pinned K sha now wall ctx k s = (r, s')\<rbrakk> \<Longrightarrow> \<exists>t \<ge> p. r = Some t"
  by (auto simp: Pinned_def Let_def split: option.splits if_splits prod.splits kv_reply.splits)

section \<open>Properties\<close>

text \<open>
  A session never moves back: however its requests were served, in process or with a shared
  server in any state, as long as each request comes before its pin expires the replica reads a tier
  at least as late as every tier that served the session so far.
\<close>
theorem pin_moves_forward:
  assumes "aff_wf s" and "0 < ttl" and "within_ttl ttl (sv_at v) vs t"
    and "Pinned K sha t wall ctx k (pin_run K sha k ttl (v # vs) s) = (r, s')"
  shows "\<exists>tier. r = Some tier \<and> (\<forall>u \<in> set (v # vs). sv_tier u \<le> tier)"
proof -
  let ?s = "snd (Pin K sha (sv_at v) (sv_wall v) False k (sv_tier v) ttl s)"
  define p where "p = (case localPinned (sv_at v) k s of None \<Rightarrow> sv_tier v | Some q \<Rightarrow> max q (sv_tier v))"
  have wf: "aff_wf ?s" using localPin_wf [OF assms(1)] by (simp add: aff_wf_def Pin_local)
  have "localPinned u k ?s = Some p" if "u < sv_at v + ttl" for u
    using localPin_pinned [OF assms(1) that] by (simp add: localPinned_def Pin_local p_def)
  from pin_run_pinned [OF wf this assms(3)]
  have "localPinned t k (pin_run K sha k ttl (v # vs) s) = Some (foldl max p (map sv_tier vs))" by simp
  from Pinned_ge_local [OF this assms(4)] obtain tier where t: "r = Some tier"
    "foldl max p (map sv_tier vs) \<le> tier" by blast
  moreover have "sv_tier v \<le> p" by (auto simp: p_def split: option.splits)
  ultimately show ?thesis using foldl_max_ge [of p "map sv_tier vs"] by fastforce
qed

definition demo_call :: akey where
  "demo_call = \<lparr>ak_alias = ''tts'', ak_session = ''call-1''\<rparr>"

definition demo_servings :: "serving list" where
  "demo_servings = [\<lparr>sv_at = second, sv_wall = 1, sv_tier = 2\<rparr>, \<lparr>sv_at = 2 * second, sv_wall = 2, sv_tier = 1\<rparr>]"

theorem pin_moves_forward_witness:
  "\<exists>tier. fst (Pinned map_ops id (3 * second) 3 False demo_call
       (pin_run map_ops id demo_call minute (\<lparr>sv_at = 0, sv_wall = 0, sv_tier = 0\<rparr> # demo_servings)
          (aff_new (Some Map.empty)))) = Some tier \<and> 2 \<le> tier"
proof -
  let ?v = "\<lparr>sv_at = 0, sv_wall = 0, sv_tier = 0\<rparr>"
  let ?run = "pin_run map_ops id demo_call minute (?v # demo_servings) (aff_new (Some Map.empty))"
  obtain r s' where p: "Pinned map_ops id (3 * second) 3 False demo_call ?run = (r, s')" by fastforce
  have "aff_wf (aff_new (Some Map.empty))" by (simp add: aff_wf_def aff_new_def)
  moreover have "within_ttl minute (sv_at ?v) demo_servings (3 * second)" by (simp add: demo_servings_def)
  ultimately obtain tier where "r = Some tier" "\<forall>u \<in> set (?v # demo_servings). sv_tier u \<le> tier"
    using pin_moves_forward [OF _ _ _ p] by auto
  then show ?thesis using p by (auto simp: demo_servings_def)
qed

end
