(* ===== verification/Lcr.thy ===== *)
theory Lcr
  imports KeyValue
begin

text \<open>
  Availability for least-cost routing (\<open>internal/lcr\<close>): a moving average of request success per
  target, kept in Redis, read in a batch and failing open to full availability.
\<close>

section \<open>Model\<close>

record lkey =
  lk_Provider :: string
  lk_UpstreamModel :: string

definition lcr_redisKey :: "lkey \<Rightarrow> string" where
  "lcr_redisKey k = ''air:lcr:avail:'' @ lk_Provider k @ '':'' @ lk_UpstreamModel k"

definition alpha :: rat where "alpha = 1 / 10"

abbreviation lcr_recordTTL :: duration where "lcr_recordTTL \<equiv> 15 * minute"
abbreviation lcr_remoteRetryAfter :: duration where "lcr_remoteRetryAfter \<equiv> 5 * second"

record 's lstore =
  ls_rdb :: "'s option"
  ls_downTill :: "gotime option"

type_synonym 's lkv = "('s, rat) kv_ops"

definition lcr_due :: "gotime option \<Rightarrow> gotime \<Rightarrow> bool" where
  "lcr_due down wall = (case down of None \<Rightarrow> True | Some till \<Rightarrow> till < wall)"

definition lcr_useRemote :: "gotime \<Rightarrow> 's lstore \<Rightarrow> bool" where
  "lcr_useRemote wall s = (ls_rdb s \<noteq> None \<and> lcr_due (ls_downTill s) wall)"

definition lcr_remoteFailed :: "gotime \<Rightarrow> 's lstore \<Rightarrow> 's lstore" where
  "lcr_remoteFailed wall s = s\<lparr>ls_downTill := Some (wall + lcr_remoteRetryAfter)\<rparr>"

definition lcr_remoteOK :: "'s lstore \<Rightarrow> 's lstore" where
  "lcr_remoteOK s = s\<lparr>ls_downTill := None\<rparr>"

interpretation lcr_backoff: remote_backoff lcr_due "\<lambda>_ t. Some (t + lcr_remoteRetryAfter)" "\<lambda>_. None"
  lcr_remoteRetryAfter
  by unfold_locales (auto simp: lcr_due_def)

text \<open>The pipeline of reads: every key is asked; a transport error on one fails the whole pipeline.\<close>

fun pipe_get :: "'s lkv \<Rightarrow> lkey list \<Rightarrow> 's \<Rightarrow> (lkey \<times> rat kv_reply) list \<times> 's" where
  "pipe_get K [] r = ([], r)"
| "pipe_get K (k # ks) r =
     (let (rep, r1) = kv_get K r (lcr_redisKey k); (reps, r2) = pipe_get K ks r1
      in ((k, rep) # reps, r2))"

definition avail_of :: "(lkey \<times> rat kv_reply) list \<Rightarrow> lkey \<Rightarrow> rat" where
  "avail_of reps k = (case map_of reps k of Some (KVal a) \<Rightarrow> a | _ \<Rightarrow> 1)"

text \<open>The availability of every key asked for, 1 for any other.\<close>

definition Snapshot :: "'s lkv \<Rightarrow> gotime \<Rightarrow> lkey list \<Rightarrow> 's lstore \<Rightarrow> (lkey \<Rightarrow> rat) \<times> 's lstore" where
  "Snapshot K wall keys s =
     (case ls_rdb s of
        None \<Rightarrow> ((\<lambda>_. 1), s)
      | Some r \<Rightarrow>
          if keys = [] \<or> \<not> lcr_useRemote wall s then ((\<lambda>_. 1), s)
          else (let (reps, r') = pipe_get K keys r; s' = s\<lparr>ls_rdb := Some r'\<rparr>
                in if KErr \<in> snd ` set reps then ((\<lambda>_. 1), lcr_remoteFailed wall s')
                   else (avail_of reps, lcr_remoteOK s')))"

definition ewma :: "bool \<Rightarrow> rat \<Rightarrow> rat" where
  "ewma success prev =
     (let outcome = (if success then 1 else 0) in alpha * outcome + (1 - alpha) * prev)"

definition lcr_record :: "'s lkv \<Rightarrow> gotime \<Rightarrow> lkey \<Rightarrow> bool \<Rightarrow> 's lstore \<Rightarrow> 's lstore" where
  "lcr_record K wall k success s =
     (case ls_rdb s of
        None \<Rightarrow> s
      | Some r \<Rightarrow>
          if \<not> lcr_useRemote wall s then s
          else (case kv_get K r (lcr_redisKey k) of
              (KErr, r1) \<Rightarrow> lcr_remoteFailed wall (s\<lparr>ls_rdb := Some r1\<rparr>)
            | (rep, r1) \<Rightarrow>
                (let prev = (case rep of KVal a \<Rightarrow> a | _ \<Rightarrow> 1);
                     (ok, r2) = kv_set K r1 (lcr_redisKey k) (ewma success prev) lcr_recordTTL;
                     s' = s\<lparr>ls_rdb := Some r2\<rparr>
                 in if ok then lcr_remoteOK s' else lcr_remoteFailed wall s')))"

section \<open>The average\<close>

lemma ewma_between:
  assumes "0 \<le> p" and "p \<le> 1"
  shows "0 \<le> ewma b p \<and> ewma b p \<le> 1"
  using assms by (simp add: ewma_def alpha_def field_simps)

lemma ewma_moves:
  assumes "0 \<le> p" and "p \<le> 1"
  shows "ewma False p \<le> p \<and> p \<le> ewma True p"
  using assms by (simp add: ewma_def alpha_def field_simps)

lemma ewma_failure: "ewma False p = 9 / 10 * p"
  by (simp add: ewma_def alpha_def)

text \<open>What the shared server holds of a key; a key without a record counts as available.\<close>

definition held :: "('s \<Rightarrow> string \<rightharpoonup> rat) \<Rightarrow> lkey \<Rightarrow> 's \<Rightarrow> rat" where
  "held view k r = (case view r (lcr_redisKey k) of None \<Rightarrow> 1 | Some a \<Rightarrow> a)"

lemma lcr_record_held:
  assumes "kv_server K view" and "ls_rdb s = Some r" and "lcr_useRemote wall s"
  shows "\<exists>r'. lcr_record K wall k b s = lcr_remoteOK (s\<lparr>ls_rdb := Some r'\<rparr>)
    \<and> view r' = (view r)(lcr_redisKey k \<mapsto> ewma b (held view k r))"
proof -
  obtain r1 where g: "kv_get K r (lcr_redisKey k)
      = ((case view r (lcr_redisKey k) of None \<Rightarrow> KNil | Some v \<Rightarrow> KVal v), r1)" "view r1 = view r"
    using kv_serverD(1) [OF assms(1)] by blast
  obtain r2 where w: "kv_set K r1 (lcr_redisKey k) (ewma b (held view k r)) lcr_recordTTL = (True, r2)"
    "view r2 = (view r1)(lcr_redisKey k \<mapsto> ewma b (held view k r))"
    using kv_serverD(2) [OF assms(1)] by blast
  show ?thesis
    using assms(2,3) g w
    by (cases "view r (lcr_redisKey k)") (auto simp: lcr_record_def held_def Let_def)
qed

fun record_run :: "'s lkv \<Rightarrow> lkey \<Rightarrow> (gotime \<times> bool) list \<Rightarrow> 's lstore \<Rightarrow> 's lstore" where
  "record_run K k [] s = s"
| "record_run K k ((wall, b) # os) s = record_run K k os (lcr_record K wall k b s)"

lemma record_run_held:
  assumes "kv_server K view" and "ls_rdb s = Some r" and "ls_downTill s = None"
  shows "\<exists>r'. ls_rdb (record_run K k os s) = Some r' \<and> ls_downTill (record_run K k os s) = None
    \<and> held view k r' = fold (\<lambda>o' p. ewma (snd o') p) os (held view k r)"
  using assms(2,3)
proof (induction os arbitrary: s r)
  case Nil
  then show ?case by simp
next
  case (Cons o' os)
  obtain wall b where o: "o' = (wall, b)" by fastforce
  have "lcr_useRemote wall s" using Cons.prems by (simp add: lcr_useRemote_def lcr_due_def)
  from lcr_record_held [OF assms(1) Cons.prems(1) this, of k b] obtain r' where
    "lcr_record K wall k b s = lcr_remoteOK (s\<lparr>ls_rdb := Some r'\<rparr>)"
    "view r' = (view r)(lcr_redisKey k \<mapsto> ewma b (held view k r))" by blast
  moreover from this(2) have "held view k r' = ewma b (held view k r)" by (simp add: held_def)
  ultimately show ?case using Cons.IH [of "lcr_remoteOK (s\<lparr>ls_rdb := Some r'\<rparr>)" r']
    by (simp add: o lcr_remoteOK_def)
qed

lemma fold_ewma_bounds:
  assumes "0 \<le> p" and "p \<le> 1"
  shows "0 \<le> fold (\<lambda>o' p. ewma (snd o') p) os p \<and> fold (\<lambda>o' p. ewma (snd o') p) os p \<le> 1"
  using assms
proof (induction os arbitrary: p)
  case (Cons o' os)
  from ewma_between [OF Cons.prems] Cons.IH [of "ewma (snd o') p"] show ?case by simp
qed simp

lemma fold_ewma_failures:
  "\<forall>o' \<in> set os. \<not> snd o' \<Longrightarrow> fold (\<lambda>o' p. ewma (snd o') p) os p = (9 / 10) ^ length os * p"
proof (induction os arbitrary: p)
  case (Cons o' os)
  then have "snd o' = False" by simp
  with Cons show ?case by (simp add: ewma_failure)
qed simp

lemma pipe_get_map:
  assumes "kv_server K view"
  shows "\<exists>r'. pipe_get K ks r = (map (\<lambda>k. (k, case view r (lcr_redisKey k) of None \<Rightarrow> KNil | Some v \<Rightarrow> KVal v)) ks, r')
    \<and> view r' = view r"
proof (induction ks arbitrary: r)
  case Nil
  show ?case by simp
next
  case (Cons k ks)
  obtain r1 where g: "kv_get K r (lcr_redisKey k)
      = ((case view r (lcr_redisKey k) of None \<Rightarrow> KNil | Some v \<Rightarrow> KVal v), r1)" "view r1 = view r"
    using kv_serverD(1) [OF assms] by blast
  from Cons.IH [of r1] g show ?case by (auto simp: Let_def)
qed

lemma Snapshot_held:
  assumes "kv_server K view" and "ls_rdb s = Some r" and "ls_downTill s = None" and "k \<in> set keys"
  shows "fst (Snapshot K wall keys s) k = held view k r"
proof -
  let ?rep = "\<lambda>k. case view r (lcr_redisKey k) of None \<Rightarrow> KNil | Some v \<Rightarrow> KVal v"
  obtain r' where p: "pipe_get K keys r = (map (\<lambda>k. (k, ?rep k)) keys, r')"
    using pipe_get_map [OF assms(1)] by blast
  have "KErr \<notin> snd ` set (map (\<lambda>k. (k, ?rep k)) keys)" by (auto split: option.splits)
  moreover have "map_of (map (\<lambda>k. (k, ?rep k)) keys) k = Some (?rep k)"
    using assms(4) by (simp add: map_of_map_restrict)
  ultimately show ?thesis using assms p
    by (auto simp: Snapshot_def lcr_useRemote_def lcr_due_def Let_def avail_of_def held_def split: option.splits)
qed

section \<open>Properties\<close>

text \<open>
  Availability stays a fraction between 0 and 1 whatever the outcomes recorded, as a batch read
  after them returns it; a target that was never tried and then fails \<open>n\<close> times in a row reads
  \<open>0.9 ^ n\<close>.
\<close>
theorem availability_average:
  assumes "kv_server K view" and "ls_rdb s = Some r" and "ls_downTill s = None"
    and "0 \<le> held view k r" and "held view k r \<le> 1" and "k \<in> set keys"
  shows "let a = fst (Snapshot K wall keys (record_run K k os s)) k
    in 0 \<le> a \<and> a \<le> 1
       \<and> ((\<forall>o' \<in> set os. \<not> snd o') \<and> held view k r = 1 \<longrightarrow> a = (9 / 10) ^ length os)"
proof -
  obtain r' where r': "ls_rdb (record_run K k os s) = Some r'" "ls_downTill (record_run K k os s) = None"
    "held view k r' = fold (\<lambda>o' p. ewma (snd o') p) os (held view k r)"
    using record_run_held [OF assms(1-3)] by blast
  have "fst (Snapshot K wall keys (record_run K k os s)) k = held view k r'"
    by (rule Snapshot_held [OF assms(1) r'(1,2) assms(6)])
  then show ?thesis
    using r'(3) fold_ewma_bounds [OF assms(4,5)] fold_ewma_failures [of os] by (auto simp: Let_def)
qed

definition demo_lkey :: lkey where
  "demo_lkey = \<lparr>lk_Provider = ''p'', lk_UpstreamModel = ''m''\<rparr>"

theorem availability_average_witness:
  "fst (Snapshot map_ops 0 [demo_lkey]
      (record_run map_ops demo_lkey [(0, False), (0, False)] \<lparr>ls_rdb = Some Map.empty, ls_downTill = None\<rparr>))
     demo_lkey = 81 / 100"
proof -
  let ?s = "\<lparr>ls_rdb = Some Map.empty, ls_downTill = None\<rparr> :: (string \<rightharpoonup> rat) lstore"
  have h: "held (\<lambda>s. s) demo_lkey Map.empty = 1" by (simp add: held_def)
  show ?thesis
    using availability_average [OF map_ops_server, of ?s Map.empty demo_lkey "[demo_lkey]" 0
        "[(0, False), (0, False)]"] h
    by (simp add: Let_def power2_eq_square)
qed

end
