(* ===== verification/SpeechCache.thy ===== *)
theory SpeechCache
  imports Encoding KeyValue
begin

text \<open>
  The synthesis cache (\<open>internal/speechcache\<close>): clips under everything that decides how they sound,
  the stored value format with its older version, and the in-process and Redis stores.
\<close>

section \<open>Model\<close>

record skey =
  sk_Alias :: string
  sk_Provider :: string
  sk_Model :: string
  sk_Voice :: string
  sk_Language :: string
  sk_Format :: string
  sk_Text :: string

record clip =
  cl_Audio :: string
  cl_ContentType :: string
  cl_Model :: string
  cl_Label :: string

definition MaxClipBytes :: nat where "MaxClipBytes = 4 * 2 ^ 20"

abbreviation newline :: char where "newline \<equiv> CHR 0x0A"

text \<open>\<open>sha\<close> is the hex digest of SHA-256.\<close>

definition key_bytes :: "skey \<Rightarrow> nat list" where
  "key_bytes k = concat (map (len_str 4)
     [sk_Provider k, sk_Model k, sk_Voice k, sk_Language k, sk_Format k, sk_Text k])"

definition key_id :: "(nat list \<Rightarrow> string) \<Rightarrow> skey \<Rightarrow> string" where
  "key_id sha k = ''air:tts:'' @ sk_Alias k @ '':'' @ sha (key_bytes k)"

abbreviation valueVersion :: string where "valueVersion \<equiv> ''v2''"

definition encode :: "clip \<Rightarrow> string" where
  "encode c =
     (let label = replace_char newline CHR '' '' (cl_Label c)
      in valueVersion @ [newline] @ cl_ContentType c @ [newline] @ cl_Model c @ [newline]
         @ label @ [newline] @ cl_Audio c)"

definition version_fields :: "string \<Rightarrow> nat" where
  "version_fields v = (if v = ''v1'' then 2 else if v = valueVersion then 3 else 0)"

definition decode :: "string \<Rightarrow> clip option" where
  "decode raw =
     (let (version, rest, _) = cut_at newline raw;
          fields = version_fields version
      in if fields = 0 then None
         else let parts = split_n (fields + 1) newline rest
              in if length parts \<noteq> fields + 1 then None
                 else Some \<lparr>cl_Audio = parts ! fields, cl_ContentType = parts ! 0, cl_Model = parts ! 1,
                            cl_Label = (if fields = 3 then parts ! 2 else [])\<rparr>)"

record local_clip =
  lc_clip :: clip
  lc_until :: gotime

record 's scache =
  sc_local :: "string \<rightharpoonup> local_clip"
  sc_rdb :: "'s option"
  sc_downTill :: "gotime option"

type_synonym 's skv = "('s, string) kv_ops"

datatype cache_error = ErrUnavailable | ErrStore

definition sc_new :: "'s option \<Rightarrow> 's scache" where
  "sc_new rdb = \<lparr>sc_local = Map.empty, sc_rdb = rdb, sc_downTill = None\<rparr>"

definition remoteUp :: "gotime \<Rightarrow> 's scache \<Rightarrow> bool" where
  "remoteUp wall c = (case sc_downTill c of None \<Rightarrow> True | Some t \<Rightarrow> \<not> wall < t)"

definition sc_remoteFailed :: "gotime \<Rightarrow> bool \<Rightarrow> 's scache \<Rightarrow> 's scache" where
  "sc_remoteFailed wall ctxDone c = (if ctxDone then c else c\<lparr>sc_downTill := Some (wall + 5 * second)\<rparr>)"

definition sc_Get ::
  "'s skv \<Rightarrow> (nat list \<Rightarrow> string) \<Rightarrow> gotime \<Rightarrow> gotime \<Rightarrow> bool \<Rightarrow> skey \<Rightarrow> 's scache
     \<Rightarrow> (cache_error + clip option) \<times> 's scache" where
  "sc_Get K sha now wall ctxDone k c =
     (let i = key_id sha k
      in case sc_rdb c of
           None \<Rightarrow>
             (case sc_local c i of
                None \<Rightarrow> (Inr None, c\<lparr>sc_local := (sc_local c)(i := None)\<rparr>)
              | Some l \<Rightarrow> if \<not> now < lc_until l then (Inr None, c\<lparr>sc_local := (sc_local c)(i := None)\<rparr>)
                         else (Inr (Some (lc_clip l)), c))
         | Some r \<Rightarrow>
             if \<not> remoteUp wall c then (Inl ErrUnavailable, c)
             else (case kv_get K r i of
                 (KVal raw, r') \<Rightarrow> (Inr (decode raw), c\<lparr>sc_rdb := Some r'\<rparr>)
               | (KNil, r') \<Rightarrow> (Inr None, c\<lparr>sc_rdb := Some r'\<rparr>)
               | (_, r') \<Rightarrow> (Inl ErrStore, sc_remoteFailed wall ctxDone (c\<lparr>sc_rdb := Some r'\<rparr>))))"

definition sc_Put ::
  "'s skv \<Rightarrow> (nat list \<Rightarrow> string) \<Rightarrow> gotime \<Rightarrow> gotime \<Rightarrow> bool \<Rightarrow> skey \<Rightarrow> clip \<Rightarrow> duration \<Rightarrow> 's scache
     \<Rightarrow> cache_error option \<times> 's scache" where
  "sc_Put K sha now wall ctxDone k cl ttl c =
     (if ttl \<le> 0 \<or> length (cl_Audio cl) > MaxClipBytes then (None, c)
      else let i = key_id sha k
           in case sc_rdb c of
                None \<Rightarrow> (None, c\<lparr>sc_local := (sc_local c)(i \<mapsto> \<lparr>lc_clip = cl, lc_until = now + ttl\<rparr>)\<rparr>)
              | Some r \<Rightarrow>
                  if \<not> remoteUp wall c then (Some ErrUnavailable, c)
                  else (case kv_set K r i (encode cl) ttl of
                      (True, r') \<Rightarrow> (None, c\<lparr>sc_rdb := Some r'\<rparr>)
                    | (False, r') \<Rightarrow> (Some ErrStore, sc_remoteFailed wall ctxDone (c\<lparr>sc_rdb := Some r'\<rparr>))))"

section \<open>The stored value\<close>

lemma cut_at_append: "c \<notin> set a \<Longrightarrow> cut_at c (a @ c # b) = (a, b, True)"
  by (induction a) (auto simp: cut_at_def)

lemma split_n_append:
  "c \<notin> set a \<Longrightarrow> split_n (Suc (Suc n)) c (a @ c # b) = a # split_n (Suc n) c b"
  by (simp add: cut_at_append)

definition labelled :: "clip \<Rightarrow> clip" where
  "labelled c = c\<lparr>cl_Label := replace_char newline CHR '' '' (cl_Label c)\<rparr>"

lemma decode_v2:
  assumes "newline \<notin> set ct" and "newline \<notin> set m" and "newline \<notin> set l"
  shows "decode (''v2'' @ newline # ct @ newline # m @ newline # l @ newline # audio)
    = Some \<lparr>cl_Audio = audio, cl_ContentType = ct, cl_Model = m, cl_Label = l\<rparr>"
proof -
  have v: "cut_at newline (''v2'' @ newline # rest) = (''v2'', rest, True)" for rest
    by (rule cut_at_append) simp
  have "split_n (Suc (Suc (Suc (Suc 0)))) newline (ct @ newline # m @ newline # l @ newline # audio)
      = [ct, m, l, audio]"
    using assms by (simp add: cut_at_append)
  then show ?thesis unfolding decode_def v by (simp add: version_fields_def numeral_3_eq_3)
qed

lemma decode_v1:
  assumes "newline \<notin> set ct" and "newline \<notin> set m"
  shows "decode (''v1'' @ newline # ct @ newline # m @ newline # audio)
    = Some \<lparr>cl_Audio = audio, cl_ContentType = ct, cl_Model = m, cl_Label = []\<rparr>"
proof -
  have v: "cut_at newline (''v1'' @ newline # rest) = (''v1'', rest, True)" for rest
    by (rule cut_at_append) simp
  have "split_n (Suc (Suc (Suc 0))) newline (ct @ newline # m @ newline # audio) = [ct, m, audio]"
    using assms by (simp add: cut_at_append)
  then show ?thesis unfolding decode_def v by (simp add: version_fields_def numeral_2_eq_2)
qed

lemma decode_encode:
  assumes "newline \<notin> set (cl_ContentType c)" and "newline \<notin> set (cl_Model c)"
  shows "decode (encode c) = Some (labelled c)"
proof -
  have "newline \<notin> set (replace_char newline CHR '' '' (cl_Label c))" by (rule replace_char_gone) simp
  from decode_v2 [OF assms this] show ?thesis by (simp add: encode_def labelled_def Let_def)
qed

section \<open>Keys\<close>

definition key_ok :: "skey \<Rightarrow> bool" where
  "key_ok k \<longleftrightarrow> CHR '':'' \<notin> set (sk_Alias k)
     \<and> list_all (\<lambda>f. length f < 2 ^ 32)
         [sk_Provider k, sk_Model k, sk_Voice k, sk_Language k, sk_Format k, sk_Text k]"

lemma key_bytes_inject:
  assumes "key_ok k" and "key_ok k'" and "key_bytes k = key_bytes k'"
  shows "k = k'\<lparr>sk_Alias := sk_Alias k\<rparr>"
proof -
  let ?f = "\<lambda>k. [sk_Provider k, sk_Model k, sk_Voice k, sk_Language k, sk_Format k, sk_Text k]"
  have ne: "len_str 4 s \<noteq> []" for s using length_be_bytes [of 4 "length s mod 256 ^ 4"]
    by (auto simp: len_str_def simp del: length_be_bytes)
  have "list_all (\<lambda>f. length f < 256 ^ 4) (?f k)" "list_all (\<lambda>f. length f < 256 ^ 4) (?f k')"
    using assms(1,2) by (simp_all add: key_ok_def)
  from prefix_code_concat [OF prefix_code_len_str ne this] assms(3) have "?f k = ?f k'"
    by (simp add: key_bytes_def)
  then show ?thesis by (cases k; cases k') simp
qed

lemma key_id_inject:
  assumes "key_ok k" and "key_ok k'" and "inj_on sha {key_bytes k, key_bytes k'}"
    and "key_id sha k = key_id sha k'"
  shows "k = k'"
proof -
  have tw: "takeWhile (\<lambda>c. c \<noteq> CHR '':'') (a @ CHR '':'' # b) = a" if "CHR '':'' \<notin> set a" for a b
    using that by (subst takeWhile_append2) auto
  have eq: "sk_Alias k @ CHR '':'' # sha (key_bytes k) = sk_Alias k' @ CHR '':'' # sha (key_bytes k')"
    using assms(4) by (simp add: key_id_def)
  moreover have "sk_Alias k = sk_Alias k'"
    using arg_cong [OF eq, of "takeWhile (\<lambda>c. c \<noteq> CHR '':'')"] tw assms(1,2) by (simp add: key_ok_def)
  ultimately have "sha (key_bytes k) = sha (key_bytes k')" by simp
  then have "key_bytes k = key_bytes k'" using assms(3) by (auto dest: inj_onD)
  from key_bytes_inject [OF assms(1,2) this] \<open>sk_Alias k = sk_Alias k'\<close> show ?thesis by simp
qed

section \<open>Properties\<close>

lemma put_effect:
  assumes "kv_server K view" and "0 < ttl" and "length (cl_Audio cl) \<le> MaxClipBytes"
    and "newline \<notin> set (cl_ContentType cl)" and "newline \<notin> set (cl_Model cl)" and "newline \<notin> set (cl_Label cl)"
    and "remoteUp wall c" and "remoteUp wall' c" and "sc_Put K sha now wall False k cl ttl c = (err, c')"
    and "t < now + ttl"
  shows "err = None \<and> fst (sc_Get K sha t wall' False k' c')
    = (if key_id sha k' = key_id sha k then Inr (Some cl) else fst (sc_Get K sha t wall' False k' c))"
proof -
  have lab: "labelled cl = cl" using assms(6) by (simp add: labelled_def replace_char_notin)
  show ?thesis
  proof (cases "sc_rdb c")
    case None
    with assms(2,3,9) have c': "err = None"
      "c' = c\<lparr>sc_local := (sc_local c)(key_id sha k \<mapsto> \<lparr>lc_clip = cl, lc_until = now + ttl\<rparr>)\<rparr>"
      by (auto simp: sc_Put_def Let_def)
    then show ?thesis using None assms(10) by (auto simp: sc_Get_def Let_def split: option.split)
  next
    case (Some r)
    obtain r' where w: "kv_set K r (key_id sha k) (encode cl) ttl = (True, r')"
      "view r' = (view r)(key_id sha k \<mapsto> encode cl)" using kv_serverD(2) [OF assms(1)] by blast
    with Some assms(2,3,7,9) have c': "err = None" "c' = c\<lparr>sc_rdb := Some r'\<rparr>"
      by (auto simp: sc_Put_def Let_def)
    have get: "fst (sc_Get K sha t wall' False k' (c\<lparr>sc_rdb := Some q\<rparr>))
        = Inr (case view q (key_id sha k') of None \<Rightarrow> None | Some raw \<Rightarrow> decode raw)" for q
    proof -
      obtain q' where "kv_get K q (key_id sha k')
          = ((case view q (key_id sha k') of None \<Rightarrow> KNil | Some v \<Rightarrow> KVal v), q')"
        using kv_serverD(1) [OF assms(1)] by blast
      then show ?thesis using assms(8)
        by (cases "view q (key_id sha k')") (simp_all add: sc_Get_def Let_def remoteUp_def)
    qed
    have old: "c = c\<lparr>sc_rdb := Some r\<rparr>" using Some by simp
    show ?thesis
      using get [of r'] get [of r] old c' w(2) decode_encode [OF assms(4,5)] lab by auto
  qed
qed

text \<open>
  A clip reads back: what \<open>Put\<close> stored under a key, \<open>Get\<close> returns byte for byte until the TTL runs
  out, from process memory and from Redis alike, when no header field holds a newline; and storing it
  changes what is read under no other key, unless SHA-256 collides on the two.
\<close>
theorem clip_put_get:
  assumes "kv_server K view" and "0 < ttl" and "length (cl_Audio cl) \<le> MaxClipBytes"
    and "newline \<notin> set (cl_ContentType cl)" and "newline \<notin> set (cl_Model cl)" and "newline \<notin> set (cl_Label cl)"
    and "remoteUp wall c" and "sc_Put K sha now wall False k cl ttl c = (err, c')"
    and "t < now + ttl" and "key_ok k" and "key_ok k'" and "inj_on sha {key_bytes k, key_bytes k'}"
  shows "err = None \<and> fst (sc_Get K sha t wall False k c') = Inr (Some cl)
    \<and> (k' \<noteq> k \<longrightarrow> fst (sc_Get K sha t wall False k' c') = fst (sc_Get K sha t wall False k' c))"
  using put_effect [OF assms(1-7) assms(7-9)] key_id_inject [OF assms(10-12)] by auto

definition demo_skey :: skey where
  "demo_skey = \<lparr>sk_Alias = ''tts'', sk_Provider = ''p'', sk_Model = ''m'', sk_Voice = ''v'',
     sk_Language = ''en'', sk_Format = ''mp3'', sk_Text = ''hi''\<rparr>"

definition demo_clip :: clip where
  "demo_clip = \<lparr>cl_Audio = ''ab'' @ [newline] @ ''cd'', cl_ContentType = ''audio/mpeg'', cl_Model = ''m'',
     cl_Label = ''Backup''\<rparr>"

theorem clip_put_get_witness:
  "fst (sc_Get map_ops (\<lambda>bs. map char_of bs) second 0 False demo_skey
     (snd (sc_Put map_ops (\<lambda>bs. map char_of bs) 0 0 False demo_skey demo_clip minute (sc_new (Some Map.empty)))))
   = Inr (Some demo_clip)"
proof -
  let ?sha = "\<lambda>bs. map char_of bs :: string"
  obtain err c' where p: "sc_Put map_ops ?sha 0 0 False demo_skey demo_clip minute (sc_new (Some Map.empty)) = (err, c')"
    by fastforce
  have "key_ok demo_skey" by (simp add: key_ok_def demo_skey_def)
  moreover have "0 < minute" "length (cl_Audio demo_clip) \<le> MaxClipBytes"
    "newline \<notin> set (cl_ContentType demo_clip)" "newline \<notin> set (cl_Model demo_clip)"
    "newline \<notin> set (cl_Label demo_clip)" "remoteUp 0 (sc_new (Some Map.empty))" "second < 0 + minute"
    by (simp_all add: demo_clip_def MaxClipBytes_def remoteUp_def sc_new_def)
  moreover have "inj_on ?sha {key_bytes demo_skey, key_bytes demo_skey}" by simp
  ultimately have "fst (sc_Get map_ops ?sha second 0 False demo_skey c') = Inr (Some demo_clip)"
    using clip_put_get [OF map_ops_server _ _ _ _ _ _ p] by blast
  then show ?thesis by (simp only: p snd_conv)
qed

text \<open>
  A value stored before labels were kept still reads, without a label, whatever its audio
  contains; and a value of an unknown version is a miss.
\<close>
theorem clip_versions:
  assumes "newline \<notin> set ct" and "newline \<notin> set m"
  shows "decode (''v1'' @ newline # ct @ newline # m @ newline # audio)
      = Some \<lparr>cl_Audio = audio, cl_ContentType = ct, cl_Model = m, cl_Label = []\<rparr>
    \<and> decode (''v3'' @ newline # rest) = None"
proof -
  have "cut_at newline (''v3'' @ newline # rest) = (''v3'', rest, True)" by (rule cut_at_append) simp
  then have "decode (''v3'' @ newline # rest) = None" unfolding decode_def by (simp add: version_fields_def)
  then show ?thesis using decode_v1 [OF assms] by blast
qed

theorem clip_versions_witness:
  "decode (''v1'' @ newline # ''audio/mpeg'' @ newline # ''m'' @ newline # [newline, newline])
   = Some \<lparr>cl_Audio = [newline, newline], cl_ContentType = ''audio/mpeg'', cl_Model = ''m'', cl_Label = []\<rparr>"
  using clip_versions [of "''audio/mpeg''" "''m''" "[newline, newline]"] by simp

end
