(* ===== verification/Registry.thy ===== *)
theory Registry
  imports Prelude
begin

text \<open>
  Provider entries and their registry (\<open>internal/providers/provider.go\<close>): the concurrency slots a
  request takes before it calls a provider, and the load figure least-busy balancing reads. The
  semaphore channel is its number of tokens, \<open>None\<close> for the nil channel of an unlimited entry.
\<close>

section \<open>Model\<close>

record 'p entry =
  en_Provider :: 'p
  en_sem :: "nat option"
  en_inflight :: int
  en_maxConc :: int

definition Acquire :: "'p entry \<Rightarrow> 'p entry \<times> bool" where
  "Acquire e =
     (case en_sem e of
        None \<Rightarrow> (e\<lparr>en_inflight := en_inflight e + 1\<rparr>, True)
      | Some n \<Rightarrow>
          if int n < en_maxConc e
          then (e\<lparr>en_sem := Some (Suc n), en_inflight := en_inflight e + 1\<rparr>, True)
          else (e, False))"

definition Release :: "'p entry \<Rightarrow> 'p entry" where
  "Release e =
     (case en_sem e of
        None \<Rightarrow> e\<lparr>en_inflight := en_inflight e - 1\<rparr>
      | Some n \<Rightarrow> e\<lparr>en_inflight := en_inflight e - 1, en_sem := Some (n - 1)\<rparr>)"

definition Free :: "'p entry \<Rightarrow> int" where
  "Free e =
     (if en_maxConc e \<le> 0 then 2 ^ 30
      else let f = en_maxConc e - en_inflight e in if f > 0 then f else 0)"

type_synonym 'p registry = "string \<rightharpoonup> 'p entry"

definition NewRegistry :: "'p registry" where
  "NewRegistry = Map.empty"

definition Register :: "string \<Rightarrow> 'p \<Rightarrow> int \<Rightarrow> 'p registry \<Rightarrow> 'p registry" where
  "Register name p maxConcurrency r =
     r(name \<mapsto> \<lparr>en_Provider = p, en_sem = (if maxConcurrency > 0 then Some 0 else None),
               en_inflight = 0, en_maxConc = maxConcurrency\<rparr>)"

definition registry_Get :: "'p registry \<Rightarrow> string \<Rightarrow> 'p entry option" where
  "registry_Get r name = r name"

section \<open>Slots\<close>

text \<open>The tokens in the channel are the requests in flight.\<close>

definition entry_wf :: "'p entry \<Rightarrow> bool" where
  "entry_wf e \<longleftrightarrow> 0 \<le> en_inflight e
     \<and> (case en_sem e of
          None \<Rightarrow> en_maxConc e \<le> 0
        | Some n \<Rightarrow> 0 < en_maxConc e \<and> int n = en_inflight e \<and> int n \<le> en_maxConc e)"

interpretation entry: slots Acquire Release en_inflight en_maxConc entry_wf
  by unfold_locales
    (auto simp: Acquire_def Release_def entry_wf_def split: option.splits if_splits)

lemma Register_wf: "Register name p n r name = Some e \<Longrightarrow> entry_wf e \<and> en_inflight e = 0 \<and> en_maxConc e = n"
  by (auto simp: Register_def entry_wf_def)

lemma Free_positive:
  assumes "entry_wf e"
  shows "0 < Free e \<longleftrightarrow> snd (Acquire e)"
  using assms entry.acquire_iff [OF assms] by (auto simp: Free_def Let_def)

section \<open>Properties\<close>

text \<open>
  A registered provider never serves more requests at once than its limit, however requests
  acquire and release: the slots held are exactly what the entry counts, and its free figure is
  positive exactly when the next acquire succeeds.
\<close>
theorem provider_slots_capped:
  assumes "Register name p n r name = Some e"
  shows "let e' = fst (entry.slot_run e 0 ops); held = snd (entry.slot_run e 0 ops)
    in en_inflight e' = held \<and> (0 < n \<longrightarrow> held \<le> n) \<and> (0 < Free e' \<longleftrightarrow> snd (Acquire e'))"
proof -
  have e: "entry_wf e" "en_inflight e = 0" "en_maxConc e = n" using Register_wf [OF assms] by auto
  from entry.slot_run_held [OF e(1,2), of ops] have "entry_wf (fst (entry.slot_run e 0 ops))"
    "en_inflight (fst (entry.slot_run e 0 ops)) = snd (entry.slot_run e 0 ops)" by auto
  moreover have "0 < n \<longrightarrow> snd (entry.slot_run e 0 ops) \<le> n"
    using entry.slot_run_capped [OF e(1,2)] e(3) by simp
  ultimately show ?thesis using Free_positive by (simp add: Let_def)
qed

theorem provider_slots_capped_witness:
  "snd (entry.slot_run \<lparr>en_Provider = (), en_sem = Some 0, en_inflight = 0, en_maxConc = 2\<rparr> 0
     [True, True, True, False, True, True]) \<le> 2"
proof -
  have "Register ''p'' () 2 Map.empty ''p''
      = Some \<lparr>en_Provider = (), en_sem = Some 0, en_inflight = 0, en_maxConc = 2\<rparr>"
    by (simp add: Register_def)
  from provider_slots_capped [OF this, of "[True, True, True, False, True, True]"]
  show ?thesis by (simp only: Let_def zero_less_numeral simp_thms)
qed

end
