(* ===== verification/ModelPool.thy ===== *)
theory ModelPool
  imports GoStrings
begin

text \<open>
  The pool of scanner sidecars (\<open>internal/modelpool\<close>): endpoints with concurrency slots, resolution of
  configured hostnames with last-good retention, and the round-robin pick that skips busy endpoints.
  URL parsing, the IP-literal test and DNS are parameters.
\<close>

section \<open>Model\<close>

record endpoint =
  ep_baseURL :: string
  ep_host :: string
  ep_sem :: "nat option"
  ep_maxConc :: int
  ep_inflight :: int

definition newEndpoint :: "string \<Rightarrow> string \<Rightarrow> int \<Rightarrow> endpoint" where
  "newEndpoint baseURL host maxConc =
     \<lparr>ep_baseURL = baseURL, ep_host = host, ep_sem = (if maxConc > 0 then Some 0 else None),
      ep_maxConc = maxConc, ep_inflight = 0\<rparr>"

definition ep_acquire :: "endpoint \<Rightarrow> endpoint \<times> bool" where
  "ep_acquire e =
     (case ep_sem e of
        None \<Rightarrow> (e\<lparr>ep_inflight := ep_inflight e + 1\<rparr>, True)
      | Some n \<Rightarrow>
          if int n < ep_maxConc e
          then (e\<lparr>ep_sem := Some (Suc n), ep_inflight := ep_inflight e + 1\<rparr>, True)
          else (e, False))"

definition ep_release :: "endpoint \<Rightarrow> endpoint" where
  "ep_release e =
     (case ep_sem e of
        None \<Rightarrow> e\<lparr>ep_inflight := ep_inflight e - 1\<rparr>
      | Some n \<Rightarrow> e\<lparr>ep_inflight := ep_inflight e - 1, ep_sem := Some (n - 1)\<rparr>)"

record pool =
  po_eps :: "endpoint list"
  po_rr :: nat
  po_resolved :: bool

definition pool_Size :: "pool \<Rightarrow> nat" where "pool_Size p = length (po_eps p)"

definition pool_Inflight :: "pool \<Rightarrow> int" where
  "pool_Inflight p = sum_list (map ep_inflight (po_eps p))"

text \<open>A configured URL as the parser returns it: scheme, host name and port.\<close>

record parsed_url =
  pu_scheme :: string
  pu_host :: string
  pu_port :: string

definition add_ep :: "endpoint \<Rightarrow> endpoint list \<Rightarrow> endpoint list" where
  "add_ep e eps = (if ep_baseURL e \<in> ep_baseURL ` set eps then eps else eps @ [e])"

definition join_host :: "string \<Rightarrow> string \<Rightarrow> string" where
  "join_host ip port =
     (if port \<noteq> [] then (if CHR '':'' \<in> set ip then ''['' @ ip @ '']:'' @ port else ip @ '':'' @ port)
      else if CHR '':'' \<in> set ip then ''['' @ ip @ '']'' else ip)"

text \<open>\<open>byURL\<close> keeps the last endpoint of a base URL.\<close>

definition by_url :: "endpoint list \<Rightarrow> string \<rightharpoonup> endpoint" where
  "by_url cur = map_of (rev (map (\<lambda>e. (ep_baseURL e, e)) cur))"

definition resolve_ip :: "endpoint list \<Rightarrow> int \<Rightarrow> parsed_url \<Rightarrow> string \<Rightarrow> endpoint list \<Rightarrow> endpoint list" where
  "resolve_ip cur maxConc u ip next =
     (let base = pu_scheme u @ ''://'' @ join_host ip (pu_port u)
      in case by_url cur base of
           Some e \<Rightarrow> if ep_maxConc e = maxConc then add_ep e next
                     else add_ep (newEndpoint base (pu_host u) maxConc) next
         | None \<Rightarrow> add_ep (newEndpoint base (pu_host u) maxConc) next)"

definition resolve_url ::
  "(string \<Rightarrow> parsed_url option) \<Rightarrow> (string \<Rightarrow> bool) \<Rightarrow> (string \<Rightarrow> string list option) \<Rightarrow> endpoint list \<Rightarrow> int
     \<Rightarrow> string \<Rightarrow> endpoint list \<Rightarrow> endpoint list" where
  "resolve_url parse isIP dns cur maxConc raw next =
     (case parse raw of
        None \<Rightarrow> next
      | Some u \<Rightarrow>
          if pu_host u = [] then next
          else if isIP (pu_host u) then resolve_ip cur maxConc u (pu_host u) next
          else (case dns (pu_host u) of
              None \<Rightarrow> fold add_ep (filter (\<lambda>e. ep_host e = pu_host u) cur) next
            | Some [] \<Rightarrow> fold add_ep (filter (\<lambda>e. ep_host e = pu_host u) cur) next
            | Some ips \<Rightarrow> fold (resolve_ip cur maxConc u) ips next))"

definition pool_Resolve ::
  "(string \<Rightarrow> parsed_url option) \<Rightarrow> (string \<Rightarrow> bool) \<Rightarrow> (string \<Rightarrow> string list option)
     \<Rightarrow> string list \<Rightarrow> int \<Rightarrow> pool \<Rightarrow> pool" where
  "pool_Resolve parse isIP dns urls maxConc p =
     p\<lparr>po_eps := fold (resolve_url parse isIP dns (po_eps p) maxConc) urls [], po_resolved := True\<rparr>"

text \<open>The walk from the cursor: the index of the endpoint that gave a slot.\<close>

fun pick_loop :: "endpoint list \<Rightarrow> nat list \<Rightarrow> nat option \<times> endpoint list" where
  "pick_loop eps [] = (None, eps)"
| "pick_loop eps (i # is) =
     (case ep_acquire (eps ! i) of
        (e, True) \<Rightarrow> (Some i, eps[i := e])
      | (e, False) \<Rightarrow> pick_loop eps is)"

definition pick :: "pool \<Rightarrow> nat option \<times> pool" where
  "pick p =
     (let eps = po_eps p; n = length eps
      in if n = 0 then (None, p)
         else let rr = (po_rr p + 1) mod 2 ^ 64; start = rr mod n;
                  (r, eps') = pick_loop eps (map (\<lambda>i. (start + i) mod n) [0..<n])
              in (r, p\<lparr>po_rr := rr, po_eps := eps'\<rparr>))"

datatype pool_error = ErrNoEndpoints | ErrAllBusy | ErrSidecar

text \<open>
  \<open>Scan\<close>: pick, call the sidecar (its answer is an argument, by base URL), release.
\<close>

definition pool_Scan :: "(string \<Rightarrow> 'f option) \<Rightarrow> (pool \<Rightarrow> pool) \<Rightarrow> pool \<Rightarrow> (pool_error + 'f) \<times> pool" where
  "pool_Scan sidecar resolve p0 =
     (let p = (if po_resolved p0 then p0 else resolve p0)
      in case pick p of
           (None, p1) \<Rightarrow> (Inl (if pool_Size p1 = 0 then ErrNoEndpoints else ErrAllBusy), p1)
         | (Some i, p1) \<Rightarrow>
             ((case sidecar (ep_baseURL (po_eps p1 ! i)) of None \<Rightarrow> Inl ErrSidecar | Some f \<Rightarrow> Inr f),
              p1\<lparr>po_eps := (po_eps p1)[i := ep_release (po_eps p1 ! i)]\<rparr>))"

section \<open>Slots\<close>

definition endpoint_wf :: "endpoint \<Rightarrow> bool" where
  "endpoint_wf e \<longleftrightarrow> 0 \<le> ep_inflight e
     \<and> (case ep_sem e of
          None \<Rightarrow> ep_maxConc e \<le> 0
        | Some n \<Rightarrow> 0 < ep_maxConc e \<and> int n = ep_inflight e \<and> int n \<le> ep_maxConc e)"

interpretation endpoint: slots ep_acquire ep_release ep_inflight ep_maxConc endpoint_wf
  by unfold_locales
    (auto simp: ep_acquire_def ep_release_def endpoint_wf_def split: option.splits if_splits)

lemma newEndpoint_wf [simp]: "endpoint_wf (newEndpoint b h n)"
  by (simp add: newEndpoint_def endpoint_wf_def)

definition pool_wf :: "pool \<Rightarrow> bool" where
  "pool_wf p \<longleftrightarrow> list_all endpoint_wf (po_eps p) \<and> distinct (map ep_baseURL (po_eps p))"

lemma pick_loop_spec:
  assumes "list_all endpoint_wf eps" and "set is \<subseteq> {..<length eps}"
  shows "case fst (pick_loop eps is) of
      None \<Rightarrow> snd (pick_loop eps is) = eps
        \<and> (\<forall>i \<in> set is. 0 < ep_maxConc (eps ! i) \<and> ep_maxConc (eps ! i) \<le> ep_inflight (eps ! i))
    | Some i \<Rightarrow> i \<in> set is \<and> snd (ep_acquire (eps ! i))
        \<and> snd (pick_loop eps is) = eps[i := fst (ep_acquire (eps ! i))]"
  using assms(2)
proof (induction "is")
  case Nil
  show ?case by simp
next
  case (Cons j js)
  have wf: "endpoint_wf (eps ! j)" using assms(1) Cons.prems by (simp add: list_all_length)
  obtain e b where a: "ep_acquire (eps ! j) = (e, b)" by fastforce
  show ?case
  proof (cases b)
    case True
    then show ?thesis using a by simp
  next
    case False
    then have "0 < ep_maxConc (eps ! j) \<and> ep_maxConc (eps ! j) \<le> ep_inflight (eps ! j)"
      using endpoint.acquire_iff [OF wf] a by auto
    then show ?thesis using Cons a False by (auto split: option.splits)
  qed
qed

lemma rotation_covers:
  assumes "0 < (n :: nat)"
  shows "set (map (\<lambda>i. (start + i) mod n) [0..<n]) = {..<n}"
proof
  show "set (map (\<lambda>i. (start + i) mod n) [0..<n]) \<subseteq> {..<n}" using assms by auto
  show "{..<n} \<subseteq> set (map (\<lambda>i. (start + i) mod n) [0..<n])"
  proof
    fix j assume "j \<in> {..<n}"
    then have j: "j < n" by simp
    let ?i = "(j + (n - start mod n)) mod n"
    have "(start + ?i) mod n = (start mod n + (j + (n - start mod n))) mod n"
      by (metis mod_add_eq mod_mod_trivial)
    also have "start mod n + (j + (n - start mod n)) = j + n"
      using mod_less_divisor [OF assms, of start] by simp
    finally have "(start + ?i) mod n = j" using j by simp
    then show "j \<in> set (map (\<lambda>i. (start + i) mod n) [0..<n])" using assms by (auto intro!: image_eqI [of _ _ ?i])
  qed
qed

lemma pick_spec:
  assumes "pool_wf p"
  shows "case fst (pick p) of
      None \<Rightarrow> po_eps (snd (pick p)) = po_eps p
        \<and> (\<forall>e \<in> set (po_eps p). 0 < ep_maxConc e \<and> ep_maxConc e \<le> ep_inflight e)
    | Some i \<Rightarrow> i < length (po_eps p) \<and> snd (ep_acquire (po_eps p ! i))
        \<and> po_eps (snd (pick p)) = (po_eps p)[i := fst (ep_acquire (po_eps p ! i))]"
proof (cases "po_eps p = []")
  case True
  then show ?thesis by (simp add: pick_def)
next
  case False
  define n where "n = length (po_eps p)"
  define start where "start = (po_rr p + 1) mod 2 ^ 64 mod n"
  have n: "0 < n" using False by (simp add: n_def)
  let ?is = "map (\<lambda>i. (start + i) mod n) [0..<n]"
  have cov: "set ?is = {..<length (po_eps p)}" unfolding n_def [symmetric] by (rule rotation_covers [OF n])
  have fst: "fst (pick p) = fst (pick_loop (po_eps p) ?is)"
    and snd: "po_eps (snd (pick p)) = snd (pick_loop (po_eps p) ?is)"
    using False by (simp_all add: pick_def Let_def n_def start_def split_beta)
  have "list_all endpoint_wf (po_eps p)" using assms by (simp add: pool_wf_def)
  from pick_loop_spec [OF this, of ?is] cov show ?thesis
    unfolding fst snd
    by (auto simp: in_set_conv_nth split: option.splits)
qed

section \<open>Resolution\<close>

text \<open>What the rebuilt list holds: endpoints of the current one, or fresh ones where none can be reused.\<close>

definition resolved_ok :: "endpoint list \<Rightarrow> int \<Rightarrow> endpoint list \<Rightarrow> bool" where
  "resolved_ok cur maxConc eps \<longleftrightarrow>
     distinct (map ep_baseURL eps) \<and> list_all endpoint_wf eps
     \<and> (\<forall>e \<in> set eps. e \<in> set cur
          \<or> (\<forall>e' \<in> set cur. ep_baseURL e' = ep_baseURL e \<longrightarrow> ep_maxConc e' \<noteq> maxConc))"

lemma resolved_ok_add:
  assumes "resolved_ok cur maxConc eps" and "endpoint_wf e"
    and "e \<in> set cur \<or> (\<forall>e' \<in> set cur. ep_baseURL e' = ep_baseURL e \<longrightarrow> ep_maxConc e' \<noteq> maxConc)"
  shows "resolved_ok cur maxConc (add_ep e eps)"
  using assms by (auto simp: resolved_ok_def add_ep_def)

lemma by_url_spec:
  assumes "distinct (map ep_baseURL cur)"
  shows "by_url cur b = Some e \<longleftrightarrow> e \<in> set cur \<and> ep_baseURL e = b"
proof -
  have "distinct (map fst (rev (map (\<lambda>e. (ep_baseURL e, e)) cur)))"
    using assms by (simp add: rev_map [symmetric] comp_def)
  then show ?thesis unfolding by_url_def by (auto simp: map_of_eq_Some_iff)
qed

lemma resolved_ok_ip:
  assumes "resolved_ok cur maxConc eps" and "list_all endpoint_wf cur" and "distinct (map ep_baseURL cur)"
  shows "resolved_ok cur maxConc (resolve_ip cur maxConc u ip eps)"
proof -
  define base where "base = pu_scheme u @ ''://'' @ join_host ip (pu_port u)"
  let ?new = "newEndpoint base (pu_host u) maxConc"
  have b: "ep_baseURL ?new = base" by (simp add: newEndpoint_def)
  have new: "resolved_ok cur maxConc (add_ep ?new eps)"
    if "\<forall>e' \<in> set cur. ep_baseURL e' = base \<longrightarrow> ep_maxConc e' \<noteq> maxConc"
    using that by (intro resolved_ok_add [OF assms(1)]) (simp_all only: newEndpoint_wf b, blast)
  show ?thesis
  proof (cases "by_url cur base")
    case None
    then have "\<forall>e' \<in> set cur. ep_baseURL e' = base \<longrightarrow> ep_maxConc e' \<noteq> maxConc"
      using by_url_spec [OF assms(3)] by (metis option.distinct(1))
    with None new show ?thesis by (simp add: resolve_ip_def base_def Let_def)
  next
    case (Some e)
    then have e: "e \<in> set cur" "ep_baseURL e = base" using by_url_spec [OF assms(3)] by auto
    show ?thesis
    proof (cases "ep_maxConc e = maxConc")
      case True
      have "endpoint_wf e" using assms(2) e(1) by (simp add: list_all_iff)
      then have "resolved_ok cur maxConc (add_ep e eps)" using e(1) by (intro resolved_ok_add [OF assms(1)]) auto
      with Some True show ?thesis by (simp add: resolve_ip_def base_def Let_def)
    next
      case False
      have "\<forall>e' \<in> set cur. ep_baseURL e' = base \<longrightarrow> ep_maxConc e' \<noteq> maxConc"
        using by_url_spec [OF assms(3)] Some False by (metis option.inject)
      with Some False new show ?thesis by (simp add: resolve_ip_def base_def Let_def)
    qed
  qed
qed

lemma resolved_ok_fold:
  assumes "\<And>x eps. resolved_ok cur maxConc eps \<Longrightarrow> x \<in> set xs \<Longrightarrow> resolved_ok cur maxConc (f x eps)"
  shows "resolved_ok cur maxConc eps \<Longrightarrow> resolved_ok cur maxConc (fold f xs eps)"
  using assms by (induction xs arbitrary: eps) auto

lemma resolved_ok_url:
  assumes "resolved_ok cur maxConc eps" and "list_all endpoint_wf cur" and "distinct (map ep_baseURL cur)"
  shows "resolved_ok cur maxConc (resolve_url parse isIP dns cur maxConc raw eps)"
proof -
  have keep: "resolved_ok cur maxConc (fold add_ep (filter P cur) eps)" for P
    using assms(1,2) by (rule_tac resolved_ok_fold) (auto intro: resolved_ok_add simp: list_all_iff)
  have ips: "resolved_ok cur maxConc (fold (resolve_ip cur maxConc u) ips eps)" for u ips
    using assms by (rule_tac resolved_ok_fold) (auto intro: resolved_ok_ip)
  show ?thesis
    using assms keep ips resolved_ok_ip
    by (auto simp: resolve_url_def Let_def simp del: fold.simps split: option.split list.split)
qed

lemma add_ep_bases: "ep_baseURL ` set (add_ep e eps) = insert (ep_baseURL e) (ep_baseURL ` set eps)"
  by (auto simp: add_ep_def)

lemma fold_add_bases:
  "ep_baseURL ` set (fold add_ep es eps) = ep_baseURL ` set es \<union> ep_baseURL ` set eps"
  by (induction es arbitrary: eps) (auto simp: add_ep_bases)

lemma resolve_ip_bases: "ep_baseURL ` set eps \<subseteq> ep_baseURL ` set (resolve_ip cur maxConc u ip eps)"
  by (auto simp: resolve_ip_def Let_def add_ep_def split: option.split)

lemma fold_ip_bases: "ep_baseURL ` set eps \<subseteq> ep_baseURL ` set (fold (resolve_ip cur maxConc u) ips eps)"
proof (induction ips arbitrary: eps)
  case (Cons ip ips)
  then show ?case using resolve_ip_bases [of eps cur maxConc u ip] by (simp, meson order_trans)
qed simp

lemma resolve_url_bases:
  "ep_baseURL ` set eps \<subseteq> ep_baseURL ` set (resolve_url parse isIP dns cur maxConc raw eps)"
  using resolve_ip_bases fold_ip_bases [of eps] fold_add_bases [of _ eps]
  by (auto simp: resolve_url_def simp del: fold.simps split: option.split list.split)

lemma fold_url_bases:
  "ep_baseURL ` set eps \<subseteq> ep_baseURL ` set (fold (resolve_url parse isIP dns cur maxConc) urls eps)"
proof (induction urls arbitrary: eps)
  case (Cons url urls)
  then show ?case using resolve_url_bases [of eps] by (simp, meson order_trans)
qed simp

lemma fold_url_keeps:
  assumes "raw \<in> set urls" and "parse raw = Some u" and "pu_host u \<noteq> []" and "\<not> isIP (pu_host u)"
    and "dns (pu_host u) = None" and "e \<in> set cur" and "ep_host e = pu_host u"
  shows "ep_baseURL e \<in> ep_baseURL ` set (fold (resolve_url parse isIP dns cur maxConc) urls eps)"
  using assms(1)
proof (induction urls arbitrary: eps)
  case (Cons url urls)
  let ?f = "resolve_url parse isIP dns cur maxConc"
  show ?case
  proof (cases "url = raw")
    case True
    have "ep_baseURL e \<in> ep_baseURL ` set (?f raw eps)"
      using assms(2-7) fold_add_bases [of "filter (\<lambda>e. ep_host e = pu_host u) cur" eps]
      by (auto simp: resolve_url_def simp del: fold.simps)
    then show ?thesis using True fold_url_bases [of "?f raw eps"] by (simp, blast)
  next
    case False
    then show ?thesis using Cons by simp
  qed
qed simp

section \<open>Properties\<close>

text \<open>
  A pick overloads no endpoint and gives up only when it must: it takes one slot of an endpoint
  with room and touches no other, or every endpoint is at its cap. A scan gives the slot back, so the
  pool is as loaded after it as before, whether or not the sidecar answered.
\<close>
theorem pool_pick_sound:
  assumes "pool_wf p" and "po_resolved p"
  shows "(case fst (pick p) of
        None \<Rightarrow> \<forall>e \<in> set (po_eps p). 0 < ep_maxConc e \<and> ep_maxConc e \<le> ep_inflight e
      | Some i \<Rightarrow> i < length (po_eps p)
          \<and> (0 < ep_maxConc (po_eps p ! i) \<longrightarrow> ep_inflight (po_eps p ! i) < ep_maxConc (po_eps p ! i))
          \<and> po_eps (snd (pick p)) = (po_eps p)[i := fst (ep_acquire (po_eps p ! i))])
    \<and> map ep_inflight (po_eps (snd (pool_Scan sidecar resolve p))) = map ep_inflight (po_eps p)"
proof -
  obtain r p1 where pk: "pick p = (r, p1)" by fastforce
  note spec = pick_spec [OF assms(1), unfolded pk fst_conv snd_conv]
  show ?thesis
  proof (cases r)
    case None
    then show ?thesis using spec assms(2) by (simp add: pk pool_Scan_def)
  next
    case (Some i)
    let ?e = "po_eps p ! i"
    have i: "i < length (po_eps p)" "snd (ep_acquire ?e)" "po_eps p1 = (po_eps p)[i := fst (ep_acquire ?e)]"
      using spec Some by simp_all
    have wf: "endpoint_wf ?e" using assms(1) i(1) by (simp add: pool_wf_def list_all_length)
    have "ep_inflight (ep_release (fst (ep_acquire ?e))) = ep_inflight ?e"
      by (rule endpoint.acquire_release_load [OF wf i(2)])
    then have "map ep_inflight ((po_eps p)[i := ep_release (fst (ep_acquire ?e))]) = map ep_inflight (po_eps p)"
      using i(1) by (simp add: map_update list_update_same_conv)
    moreover have "0 < ep_maxConc ?e \<longrightarrow> ep_inflight ?e < ep_maxConc ?e"
      using endpoint.acquire_iff [OF wf] i(2) by auto
    ultimately show ?thesis using Some i assms(2) by (simp add: pk pool_Scan_def)
  qed
qed

definition demo_pool :: pool where
  "demo_pool = \<lparr>po_eps = [(newEndpoint ''http://a'' ''a'' 1)\<lparr>ep_sem := Some 1, ep_inflight := 1\<rparr>,
     newEndpoint ''http://b'' ''b'' 1], po_rr = 1, po_resolved = True\<rparr>"

theorem pool_pick_sound_witness:
  "fst (pick demo_pool) = Some 1
   \<and> map ep_inflight (po_eps (snd (pool_Scan (\<lambda>_. None :: unit option) id demo_pool))) = [1, 0]"
proof -
  have "pool_wf demo_pool" "po_resolved demo_pool"
    by (simp_all add: pool_wf_def demo_pool_def endpoint_wf_def newEndpoint_def)
  from pool_pick_sound [OF this, of "\<lambda>_. None :: unit option" id]
  have "map ep_inflight (po_eps (snd (pool_Scan (\<lambda>_. None :: unit option) id demo_pool)))
      = map ep_inflight (po_eps demo_pool)" by blast
  moreover have "fst (pick demo_pool) = Some 1"
    by (simp add: pick_def demo_pool_def newEndpoint_def ep_acquire_def Let_def upt_rec)
  ultimately show ?thesis by (simp add: demo_pool_def newEndpoint_def)
qed

text \<open>
  Re-resolving never duplicates an endpoint, never forgets the scans in flight on an endpoint it
  keeps (same base URL and cap), and a host whose look-up fails keeps the endpoints it had.
\<close>
theorem pool_resolve_keeps:
  assumes "pool_wf p" and "raw \<in> set urls" and "parse raw = Some u" and "pu_host u \<noteq> []"
    and "\<not> isIP (pu_host u)" and "dns (pu_host u) = None"
  shows "let p' = pool_Resolve parse isIP dns urls maxConc p
    in pool_wf p'
       \<and> (\<forall>e \<in> set (po_eps p). \<forall>e' \<in> set (po_eps p').
            ep_baseURL e = ep_baseURL e' \<and> ep_maxConc e = maxConc \<longrightarrow> e' = e)
       \<and> (\<forall>e \<in> set (po_eps p). ep_host e = pu_host u \<longrightarrow> ep_baseURL e \<in> ep_baseURL ` set (po_eps p'))"
proof -
  let ?cur = "po_eps p" and ?eps = "po_eps (pool_Resolve parse isIP dns urls maxConc p)"
  have cur: "list_all endpoint_wf ?cur" "distinct (map ep_baseURL ?cur)" using assms(1) by (auto simp: pool_wf_def)
  have "resolved_ok ?cur maxConc ?eps" unfolding pool_Resolve_def
  proof (simp, rule resolved_ok_fold)
    show "resolved_ok ?cur maxConc []" by (simp add: resolved_ok_def)
  qed (rule resolved_ok_url [OF _ cur])
  then have ok: "pool_wf (pool_Resolve parse isIP dns urls maxConc p)"
    and reuse: "\<forall>e' \<in> set ?eps. e' \<in> set ?cur
      \<or> (\<forall>e \<in> set ?cur. ep_baseURL e = ep_baseURL e' \<longrightarrow> ep_maxConc e \<noteq> maxConc)"
    by (auto simp: resolved_ok_def pool_wf_def)
  have "e' = e" if "e \<in> set ?cur" "e' \<in> set ?eps" "ep_baseURL e = ep_baseURL e'" "ep_maxConc e = maxConc" for e e'
    using reuse that cur(2) by (metis distinct_map inj_onD)
  moreover have "ep_baseURL e \<in> ep_baseURL ` set ?eps" if "e \<in> set ?cur" "ep_host e = pu_host u" for e
    using fold_url_keeps [where parse = parse and isIP = isIP and dns = dns, OF assms(2-6) that]
    by (simp add: pool_Resolve_def)
  ultimately show ?thesis using ok by (simp add: Let_def)
qed

theorem pool_resolve_keeps_witness:
  "''http://a'' \<in> ep_baseURL ` set (po_eps (pool_Resolve
     (\<lambda>raw. Some \<lparr>pu_scheme = ''http'', pu_host = raw, pu_port = []\<rparr>) (\<lambda>_. False) (\<lambda>_. None) [''a''] 1 demo_pool))"
proof -
  let ?parse = "\<lambda>raw. Some \<lparr>pu_scheme = ''http'', pu_host = raw, pu_port = []\<rparr>"
  let ?e = "(newEndpoint ''http://a'' ''a'' 1)\<lparr>ep_sem := Some 1, ep_inflight := 1\<rparr>"
  have wf: "pool_wf demo_pool" by (simp add: pool_wf_def demo_pool_def endpoint_wf_def newEndpoint_def)
  have e: "?e \<in> set (po_eps demo_pool)" "ep_host ?e = ''a''" "ep_baseURL ?e = ''http://a''"
    by (simp_all add: demo_pool_def newEndpoint_def)
  have "\<forall>e \<in> set (po_eps demo_pool). ep_host e = ''a'' \<longrightarrow> ep_baseURL e \<in> ep_baseURL ` set (po_eps
      (pool_Resolve ?parse (\<lambda>_. False) (\<lambda>_. None) [''a''] 1 demo_pool))"
    using pool_resolve_keeps [OF wf, of "''a''" "[''a'']" ?parse _ "\<lambda>_. False" "\<lambda>_. None" 1]
    by (simp add: Let_def)
  then show ?thesis using e by metis
qed

end
