(* ===== verification/Ledger.thy ===== *)
theory Ledger
  imports GoStrings
begin

text \<open>
  The usage ledger (\<open>internal/ledger\<close>): one row per request, put on a bounded queue that workers
  drain, so that metering never blocks a request. The database insert is an argument: whether the
  row was written.
\<close>

section \<open>Model\<close>

record ledger_entry =
  le_KeyID :: string
  le_UserID :: string
  le_Alias :: string
  le_ProviderName :: string
  le_UpstreamModel :: string
  le_IngressProtocol :: string
  le_UpstreamProtocol :: string
  le_PromptTokens :: int
  le_CompletionTokens :: int
  le_ReasoningTokens :: int
  le_Tier :: int
  le_Attempts :: int
  le_Session :: string
  le_Cached :: bool
  le_CostUSD :: rat
  le_Status :: int
  le_LatencyMS :: int
  le_ErrorMsg :: string

definition chanSize :: nat where "chanSize = 1024"

text \<open>A row of \<open>usage_ledger\<close>: the columns that may be NULL, and the entry the others are copied from.\<close>

record ledger_row =
  lr_key_id :: "string option"
  lr_user_id :: "string option"
  lr_session :: "string option"
  lr_columns :: ledger_entry

record ledger =
  lg_ch :: "ledger_entry list"
  lg_dropped :: nat
  lg_closed :: bool
  lg_rows :: "ledger_row list"

definition ledger_New :: ledger where
  "ledger_New = \<lparr>lg_ch = [], lg_dropped = 0, lg_closed = False, lg_rows = []\<rparr>"

definition ledger_Record :: "ledger_entry \<Rightarrow> ledger \<Rightarrow> ledger" where
  "ledger_Record e l =
     (if lg_closed l then l
      else if length (lg_ch l) < chanSize then l\<lparr>lg_ch := lg_ch l @ [e]\<rparr>
      else l\<lparr>lg_dropped := Suc (lg_dropped l)\<rparr>)"

text \<open>A worker receives the next entry from the channel.\<close>

definition ledger_receive :: "ledger \<Rightarrow> (ledger_entry \<times> ledger) option" where
  "ledger_receive l = (case lg_ch l of [] \<Rightarrow> None | e # es \<Rightarrow> Some (e, l\<lparr>lg_ch := es\<rparr>))"

text \<open>The optional columns: an empty string is stored as NULL.\<close>

definition nullString :: "string \<Rightarrow> string option" where
  "nullString s = (if s = [] then None else Some s)"

definition nullUUID :: "string \<Rightarrow> string option" where
  "nullUUID s = (if s = [] then None else Some s)"

definition row_of_entry :: "ledger_entry \<Rightarrow> ledger_row" where
  "row_of_entry e =
     \<lparr>lr_key_id = nullUUID (le_KeyID e), lr_user_id = nullUUID (le_UserID e),
      lr_session = nullString (le_Session e), lr_columns = e\<rparr>"

definition ledger_write :: "bool \<Rightarrow> ledger_entry \<Rightarrow> ledger \<Rightarrow> ledger" where
  "ledger_write ok e l = (if ok then l\<lparr>lg_rows := lg_rows l @ [row_of_entry e]\<rparr> else l)"

text \<open>\<open>Stop\<close> closes the channel and waits until the workers have written what is buffered.\<close>

fun ledger_drain :: "ledger_entry list \<Rightarrow> (ledger_entry \<Rightarrow> bool) \<Rightarrow> ledger \<Rightarrow> ledger" where
  "ledger_drain [] ok l = l"
| "ledger_drain (e # es) ok l = ledger_drain es ok (ledger_write (ok e) e (l\<lparr>lg_ch := es\<rparr>))"

definition ledger_Stop :: "(ledger_entry \<Rightarrow> bool) \<Rightarrow> ledger \<Rightarrow> ledger" where
  "ledger_Stop ok l = ledger_drain (lg_ch l) ok (l\<lparr>lg_closed := True\<rparr>)"

section \<open>The queue\<close>

interpretation ledgerq: drop_queue ledger_Record ledger_receive lg_ch lg_dropped "\<lambda>l. \<not> lg_closed l" chanSize
  by unfold_locales (auto simp: ledger_Record_def ledger_receive_def split: list.splits)

lemma ledger_drain_rows:
  "lg_rows (ledger_drain es ok l) = lg_rows l @ map row_of_entry (filter ok es) \<and> lg_closed (ledger_drain es ok l) = lg_closed l
   \<and> lg_dropped (ledger_drain es ok l) = lg_dropped l
   \<and> (es = [] \<longrightarrow> ledger_drain es ok l = l) \<and> (es \<noteq> [] \<longrightarrow> lg_ch (ledger_drain es ok l) = [])"
proof (induction es arbitrary: l)
  case (Cons e es)
  then show ?case by (cases es) (auto simp: ledger_write_def)
qed simp

section \<open>Properties\<close>

text \<open>
  No usage row disappears uncounted: in any interleaving of requests and workers every recorded
  entry was handed to a worker, waits on the queue, or is counted as dropped, and the queue never
  exceeds its capacity. Stopping hands every buffered entry to the database, and records after it are
  ignored.
\<close>
theorem ledger_conservation:
  assumes "\<not> lg_closed l" and "length (lg_ch l) \<le> chanSize"
  shows "length (snd (ledgerq.queue_run l ops)) + length (lg_ch (fst (ledgerq.queue_run l ops)))
      + lg_dropped (fst (ledgerq.queue_run l ops))
      = length (lg_ch l) + lg_dropped l + length (filter (\<lambda>op. op \<noteq> None) ops)
    \<and> length (lg_ch (ledger_Record e l)) \<le> chanSize
    \<and> (let l' = ledger_Stop (\<lambda>_. True) l
       in lg_rows l' = lg_rows l @ map row_of_entry (lg_ch l) \<and> lg_ch l' = [] \<and> ledger_Record e l' = l')"
proof -
  have "lg_ch (ledger_Stop (\<lambda>_. True) l) = []"
    using ledger_drain_rows [of "lg_ch l" "\<lambda>_. True" "l\<lparr>lg_closed := True\<rparr>"]
    by (cases "lg_ch l") (auto simp: ledger_Stop_def)
  moreover have "lg_rows (ledger_Stop (\<lambda>_. True) l) = lg_rows l @ map row_of_entry (lg_ch l)"
    "lg_closed (ledger_Stop (\<lambda>_. True) l)"
    using ledger_drain_rows [of "lg_ch l" "\<lambda>_. True" "l\<lparr>lg_closed := True\<rparr>"]
    by (simp_all add: ledger_Stop_def)
  ultimately show ?thesis
    using ledgerq.queue_run_conservation [OF assms(1), of ops] ledgerq.offer_bounded [OF assms(2), of e]
    by (simp add: Let_def ledger_Record_def)
qed

definition demo_entry :: ledger_entry where
  "demo_entry = \<lparr>le_KeyID = ''k'', le_UserID = [], le_Alias = ''a'', le_ProviderName = ''p'',
     le_UpstreamModel = ''m'', le_IngressProtocol = ''openai'', le_UpstreamProtocol = ''openai'',
     le_PromptTokens = 1, le_CompletionTokens = 2, le_ReasoningTokens = 0, le_Tier = 0, le_Attempts = 1,
     le_Session = [], le_Cached = False, le_CostUSD = 0, le_Status = 200, le_LatencyMS = 5, le_ErrorMsg = []\<rparr>"

theorem ledger_conservation_witness:
  "length (snd (ledgerq.queue_run ledger_New [Some demo_entry, None, Some demo_entry]))
     + length (lg_ch (fst (ledgerq.queue_run ledger_New [Some demo_entry, None, Some demo_entry])))
     + lg_dropped (fst (ledgerq.queue_run ledger_New [Some demo_entry, None, Some demo_entry])) = 2"
proof -
  have "\<not> lg_closed ledger_New" "length (lg_ch ledger_New) \<le> chanSize" by (simp_all add: ledger_New_def)
  from ledger_conservation [OF this, of "[Some demo_entry, None, Some demo_entry]" demo_entry]
  have "length (snd (ledgerq.queue_run ledger_New [Some demo_entry, None, Some demo_entry]))
      + length (lg_ch (fst (ledgerq.queue_run ledger_New [Some demo_entry, None, Some demo_entry])))
      + lg_dropped (fst (ledgerq.queue_run ledger_New [Some demo_entry, None, Some demo_entry]))
      = length (lg_ch ledger_New) + lg_dropped ledger_New
        + length (filter (\<lambda>op. op \<noteq> None) [Some demo_entry, None, Some demo_entry])" by blast
  also have "\<dots> = 2" by (simp add: ledger_New_def)
  finally show ?thesis .
qed

end
