(* ===== verification/Webhook.thy ===== *)
theory Webhook
  imports GoStrings
begin

text \<open>
  Outbound alerts (\<open>internal/webhook\<close>): the guard against internal addresses on every dial and at
  configuration time, the bounded delivery queue, and the signed request. DNS, URL parsing and HMAC are
  parameters. An address is the list of its bytes, 4 or 16 of them; the predicates are those of the
  standard library's \<open>net.IP\<close>.
\<close>

section \<open>Addresses\<close>

type_synonym ip = "nat list"

text \<open>\<open>To4\<close>: an IPv4 address, also in its IPv4-mapped IPv6 form.\<close>

definition To4 :: "ip \<Rightarrow> ip option" where
  "To4 a =
     (if length a = 4 then Some a
      else if length a = 16 \<and> take 12 a = replicate 10 0 @ [255, 255] then Some (drop 12 a)
      else None)"

definition IsLoopback :: "ip \<Rightarrow> bool" where
  "IsLoopback a =
     (case To4 a of Some b \<Rightarrow> b ! 0 = 127 | None \<Rightarrow> a = replicate 15 0 @ [1])"

definition IsPrivate :: "ip \<Rightarrow> bool" where
  "IsPrivate a =
     (case To4 a of
        Some b \<Rightarrow> b ! 0 = 10 \<or> b ! 0 = 172 \<and> b ! 1 div 16 = 1 \<or> b ! 0 = 192 \<and> b ! 1 = 168
      | None \<Rightarrow> length a = 16 \<and> a ! 0 div 2 = 126)"

definition IsLinkLocalUnicast :: "ip \<Rightarrow> bool" where
  "IsLinkLocalUnicast a =
     (case To4 a of
        Some b \<Rightarrow> b ! 0 = 169 \<and> b ! 1 = 254
      | None \<Rightarrow> length a = 16 \<and> a ! 0 = 254 \<and> a ! 1 div 64 = 2)"

definition IsLinkLocalMulticast :: "ip \<Rightarrow> bool" where
  "IsLinkLocalMulticast a =
     (case To4 a of
        Some b \<Rightarrow> b ! 0 = 224 \<and> b ! 1 = 0 \<and> b ! 2 = 0
      | None \<Rightarrow> length a = 16 \<and> a ! 0 = 255 \<and> a ! 1 mod 16 = 2)"

definition IsMulticast :: "ip \<Rightarrow> bool" where
  "IsMulticast a =
     (case To4 a of Some b \<Rightarrow> b ! 0 div 16 = 14 | None \<Rightarrow> length a = 16 \<and> a ! 0 = 255)"

definition IsUnspecified :: "ip \<Rightarrow> bool" where
  "IsUnspecified a =
     (a = replicate 4 0 \<or> a = replicate 10 0 @ [255, 255, 0, 0, 0, 0] \<or> a = replicate 16 0)"

section \<open>The guard\<close>

definition isDisallowedWebhookIP :: "ip \<Rightarrow> bool" where
  "isDisallowedWebhookIP a \<longleftrightarrow>
     IsLoopback a \<or> IsPrivate a \<or> IsLinkLocalUnicast a \<or> IsLinkLocalMulticast a \<or> IsMulticast a
     \<or> IsUnspecified a"

datatype dial_error = BadAddr | LookupFailed | NoAddresses | Disallowed ip

fun first_disallowed :: "ip list \<Rightarrow> ip option" where
  "first_disallowed [] = None"
| "first_disallowed (a # as) = (if isDisallowedWebhookIP a then Some a else first_disallowed as)"

text \<open>\<open>split\<close> separates host and port, \<open>lookup\<close> resolves the host; both may fail.\<close>

definition validateDialAddr ::
  "(string \<Rightarrow> (string \<times> string) option) \<Rightarrow> (string \<Rightarrow> ip list option) \<Rightarrow> string \<Rightarrow> dial_error + (ip \<times> string)" where
  "validateDialAddr split lookup addr =
     (case split addr of
        None \<Rightarrow> Inl BadAddr
      | Some (host, port) \<Rightarrow>
          (case lookup host of
             None \<Rightarrow> Inl LookupFailed
           | Some ips \<Rightarrow>
               if ips = [] then Inl NoAddresses
               else (case first_disallowed ips of
                   Some a \<Rightarrow> Inl (Disallowed a)
                 | None \<Rightarrow> Inr (ips ! 0, port))))"

text \<open>The transport's dial: \<open>connect\<close> opens a connection to the validated address.\<close>

definition guardedDialContext ::
  "(string \<Rightarrow> (string \<times> string) option) \<Rightarrow> (string \<Rightarrow> ip list option) \<Rightarrow> (ip \<Rightarrow> string \<Rightarrow> 'c)
     \<Rightarrow> string \<Rightarrow> dial_error + 'c" where
  "guardedDialContext split lookup connect addr =
     (case validateDialAddr split lookup addr of
        Inl e \<Rightarrow> Inl e
      | Inr (a, port) \<Rightarrow> Inr (connect a port))"

text \<open>\<open>parse\<close> returns scheme and host of the URL; \<open>None\<close> is success.\<close>

definition ValidateURL ::
  "(string \<Rightarrow> (string \<times> string) option) \<Rightarrow> (string \<Rightarrow> ip list option) \<Rightarrow> string \<Rightarrow> string option" where
  "ValidateURL parse lookup rawURL =
     (case parse rawURL of
        None \<Rightarrow> Some ''invalid URL''
      | Some (scheme, host) \<Rightarrow>
          if scheme \<noteq> ''http'' \<and> scheme \<noteq> ''https'' then Some ''URL scheme must be http or https''
          else if host = [] then Some ''URL is missing a host''
          else (case lookup host of
              None \<Rightarrow> Some ''resolve host''
            | Some ips \<Rightarrow>
                (case first_disallowed ips of
                   Some a \<Rightarrow> Some ''host resolves to a disallowed address''
                 | None \<Rightarrow> None)))"

section \<open>Delivery\<close>

record wh_endpoint =
  we_URL :: string
  we_Secret :: string

type_synonym delivery_job = "wh_endpoint \<times> string"

definition wh_chanSize :: nat where "wh_chanSize = 1024"

record wh_queue =
  wq_jobs :: "delivery_job list"
  wq_dropped :: nat

definition wh_enqueue :: "delivery_job \<Rightarrow> wh_queue \<Rightarrow> wh_queue" where
  "wh_enqueue j q =
     (if length (wq_jobs q) < wh_chanSize then q\<lparr>wq_jobs := wq_jobs q @ [j]\<rparr>
      else q\<lparr>wq_dropped := Suc (wq_dropped q)\<rparr>)"

definition wh_receive :: "wh_queue \<Rightarrow> (delivery_job \<times> wh_queue) option" where
  "wh_receive q = (case wq_jobs q of [] \<Rightarrow> None | j # js \<Rightarrow> Some (j, q\<lparr>wq_jobs := js\<rparr>))"

definition webhook_Send :: "wh_endpoint list \<Rightarrow> string \<Rightarrow> wh_queue \<Rightarrow> wh_queue" where
  "webhook_Send endpoints body q = fold (\<lambda>e. wh_enqueue (e, body)) endpoints q"

interpretation webhookq: drop_queue wh_enqueue wh_receive wq_jobs wq_dropped "\<lambda>_. True" wh_chanSize
  by unfold_locales (auto simp: wh_enqueue_def wh_receive_def split: list.splits)

text \<open>The request a worker sends: body, and the signature header when there is a secret.\<close>

definition deliver_headers :: "(string \<Rightarrow> string \<Rightarrow> string) \<Rightarrow> wh_endpoint \<Rightarrow> string \<Rightarrow> (string \<times> string) list" where
  "deliver_headers hmacHex e body =
     (''Content-Type'', ''application/json'')
     # (if we_Secret e \<noteq> [] then [(''X-AirLLM-Signature'', ''sha256='' @ hmacHex (we_Secret e) body)] else [])"

section \<open>Properties\<close>

lemma first_disallowed_None: "first_disallowed as = None \<longleftrightarrow> (\<forall>a \<in> set as. \<not> isDisallowedWebhookIP a)"
  by (induction as) auto

text \<open>The internal IPv4 ranges, octet by octet.\<close>

definition internal_v4 :: "ip \<Rightarrow> bool" where
  "internal_v4 b \<longleftrightarrow>
     b ! 0 = 127 \<or> b ! 0 = 10 \<or> (b ! 0 = 172 \<and> 16 \<le> b ! 1 \<and> b ! 1 \<le> 31) \<or> (b ! 0 = 192 \<and> b ! 1 = 168)
     \<or> (b ! 0 = 169 \<and> b ! 1 = 254) \<or> (224 \<le> b ! 0 \<and> b ! 0 \<le> 239) \<or> b = [0, 0, 0, 0]"

lemma div16_eq: "(n :: nat) div 16 = k \<longleftrightarrow> 16 * k \<le> n \<and> n < 16 * k + 16"
proof
  assume "n div 16 = k"
  then show "16 * k \<le> n \<and> n < 16 * k + 16"
    using mult_div_mod_eq [of 16 n] mod_less_divisor [of 16 n] by linarith
qed (auto intro: div_nat_eqI)

lemma div16: "(n :: nat) div 16 = 1 \<longleftrightarrow> 16 \<le> n \<and> n \<le> 31" "n div 16 = 14 \<longleftrightarrow> 224 \<le> n \<and> n \<le> 239"
  unfolding div16_eq by linarith+

definition mapped_prefix :: ip where
  "mapped_prefix = replicate 10 0 @ [255, 255]"

lemma To4_cases:
  assumes "To4 a = Some b"
  shows "length b = 4 \<and> (a = b \<or> a = mapped_prefix @ b)"
proof (cases "length a = 4")
  case True
  have "Some a = Some b" using assms unfolding To4_def if_P [OF True] .
  with True show ?thesis by simp
next
  case False
  have t: "(if length a = 16 \<and> take 12 a = mapped_prefix then Some (drop 12 a) else None) = Some b"
    using assms unfolding To4_def mapped_prefix_def if_not_P [OF False] .
  have C: "length a = 16 \<and> take 12 a = mapped_prefix"
  proof (rule ccontr)
    assume "\<not> (length a = 16 \<and> take 12 a = mapped_prefix)"
    from t [unfolded if_not_P [OF this]] show False by simp
  qed
  from t [unfolded if_P [OF this]] have "b = drop 12 a" by simp
  moreover have "length a = 16" using C by blast
  then have "length (drop 12 a) = 4" by simp
  moreover have "take 12 a @ drop 12 a = a" by (rule append_take_drop_id)
  then have "a = mapped_prefix @ drop 12 a" using C by metis
  ultimately show ?thesis by blast
qed

lemma unspecified_v4:
  assumes "To4 a = Some b"
  shows "IsUnspecified a \<longleftrightarrow> b = [0, 0, 0, 0]"
proof -
  have z: "replicate 4 (0 :: nat) = [0, 0, 0, 0]" by (simp add: eval_nat_numeral)
  have l: "length mapped_prefix = 12" by (simp add: mapped_prefix_def)
  have m: "replicate 10 0 @ [255, 255, 0, 0, 0, 0] = mapped_prefix @ [0, 0, 0, 0]"
    by (simp add: mapped_prefix_def)
  have "255 \<in> set (mapped_prefix @ b)" by (simp add: mapped_prefix_def)
  then have n: "mapped_prefix @ b \<noteq> replicate 16 0"
  proof -
    assume "255 \<in> set (mapped_prefix @ b)"
    moreover have "255 \<notin> set (replicate 16 (0 :: nat))" by (simp only: in_set_replicate) simp
    ultimately show ?thesis by metis
  qed
  have u: "IsUnspecified a \<longleftrightarrow> a = [0, 0, 0, 0] \<or> a = mapped_prefix @ [0, 0, 0, 0] \<or> a = replicate 16 0"
    unfolding IsUnspecified_def m z ..
  consider (v4) "length b = 4" "a = b" | (v6) "length b = 4" "a = mapped_prefix @ b"
    using To4_cases [OF assms] by blast
  then show ?thesis
  proof cases
    case v4
    then have "length a \<noteq> length (mapped_prefix @ [0, 0, 0, 0])" "length a \<noteq> length (replicate 16 (0 :: nat))"
      by (simp_all add: l)
    then show ?thesis using u v4(2) by blast
  next
    case v6
    then have "length a \<noteq> length [0, 0, 0, 0 :: nat]" by (simp add: l)
    then have "a \<noteq> [0, 0, 0, 0]" by blast
    moreover have "a = mapped_prefix @ [0, 0, 0, 0] \<longleftrightarrow> b = [0, 0, 0, 0]"
      unfolding v6(2) by (simp only: same_append_eq)
    ultimately show ?thesis using u n v6(2) by metis
  qed
qed

lemma disallowed_v4:
  assumes "To4 a = Some b"
  shows "isDisallowedWebhookIP a \<longleftrightarrow> internal_v4 b"
  unfolding isDisallowedWebhookIP_def internal_v4_def IsLoopback_def IsPrivate_def
    IsLinkLocalUnicast_def IsLinkLocalMulticast_def IsMulticast_def unspecified_v4 [OF assms] assms
    option.case div16
  by linarith

text \<open>
  C37: A delivery never connects to an internal address: whatever the webhook's host resolves to at
  the moment of the dial, the connection is opened to a resolved address that is not internal, and
  when any resolved address is internal none is opened. An IPv4 address counts as internal exactly in
  the loopback, private, link-local (metadata service included), multicast and unspecified ranges,
  in its IPv4-mapped IPv6 spelling too.
\<close>
theorem webhook_dial_guarded:
  assumes "guardedDialContext split lookup (\<lambda>a port. (a, port)) addr = Inr (a, port)"
  shows "\<exists>host ips. split addr = Some (host, port) \<and> lookup host = Some ips \<and> a \<in> set ips
    \<and> (\<forall>x \<in> set ips. \<not> isDisallowedWebhookIP x)
    \<and> (\<forall>b. To4 a = Some b \<longrightarrow> \<not> internal_v4 b)"
proof -
  from assms obtain host ips where h: "split addr = Some (host, port)" "lookup host = Some ips"
    "ips \<noteq> []" "first_disallowed ips = None" "a = ips ! 0"
    by (auto simp: guardedDialContext_def validateDialAddr_def split: option.splits if_splits sum.splits)
  have "\<forall>x \<in> set ips. \<not> isDisallowedWebhookIP x" using h(4) first_disallowed_None by blast
  moreover have "a \<in> set ips" using h(3,5) by simp
  ultimately show ?thesis using h disallowed_v4 by blast
qed

theorem webhook_dial_guarded_witness:
  "guardedDialContext (\<lambda>_. Some (''example.com'', ''443'')) (\<lambda>_. Some [[93, 184, 216, 34]])
     (\<lambda>a port. (a, port)) ''example.com:443'' = Inr ([93, 184, 216, 34], ''443'')
   \<and> \<not> internal_v4 [93, 184, 216, 34]"
proof -
  have t: "To4 [93, 184, 216, 34] = Some [93, 184, 216, 34]" by (simp add: To4_def)
  have "\<not> isDisallowedWebhookIP [93, 184, 216, 34]"
    unfolding disallowed_v4 [OF t] by (simp add: internal_v4_def)
  then have g: "guardedDialContext (\<lambda>_. Some (''example.com'', ''443'')) (\<lambda>_. Some [[93, 184, 216, 34]])
      (\<lambda>a port. (a, port)) ''example.com:443'' = Inr ([93, 184, 216, 34], ''443'')"
    by (simp add: guardedDialContext_def validateDialAddr_def)
  from webhook_dial_guarded [OF g] have "\<not> internal_v4 [93, 184, 216, 34]" using t by blast
  with g show ?thesis by blast
qed

end
