(* ===== verification/Capture.thy ===== *)
theory Capture
  imports GoStrings
begin

text \<open>
  The capture pipeline (\<open>internal/capture\<close>): the sampled, bounded queue of records, the worker that
  seals a record into the blob store and indexes it, and the two retention sweeps. Findings are of an
  arbitrary type. The sealer, the blob store's and the database's success, the random draw and the
  fresh identifier are arguments.
\<close>

section \<open>Records and the queue\<close>

record cap_config =
  cc_Enabled :: bool
  cc_SampleRate :: rat
  cc_Redact :: bool
  cc_RetentionDays :: int
  cc_RawTraining :: bool
  cc_RawTTLHours :: int

record 'f cap_record =
  cr_KeyID :: string
  cr_UserID :: string
  cr_Ingress :: string
  cr_Alias :: string
  cr_Provider :: string
  cr_UpstreamModel :: string
  cr_Status :: int
  cr_PromptTokens :: int
  cr_CompletionTokens :: int
  cr_CostUSD :: rat
  cr_ModelVersion :: string
  cr_Detected :: "'f list"
  cr_Body :: string
  cr_RawBody :: string
  cr_HadIncident :: bool
  cr_Redacted :: bool

definition cap_chanSize :: nat where "cap_chanSize = 1024"

record 'f pipeline =
  pp_ch :: "'f cap_record list"
  pp_dropped :: nat
  pp_closed :: bool

definition Enqueue :: "cap_config \<Rightarrow> rat \<Rightarrow> 'f cap_record \<Rightarrow> 'f pipeline \<Rightarrow> 'f pipeline" where
  "Enqueue cfg draw r p =
     (if pp_closed p then p
      else if \<not> cc_Enabled cfg then p
      else if \<not> cr_HadIncident r \<and> draw \<ge> cc_SampleRate cfg then p
      else if length (pp_ch p) < cap_chanSize then p\<lparr>pp_ch := pp_ch p @ [r]\<rparr>
      else p\<lparr>pp_dropped := Suc (pp_dropped p)\<rparr>)"

definition cap_receive :: "'f pipeline \<Rightarrow> ('f cap_record \<times> 'f pipeline) option" where
  "cap_receive p = (case pp_ch p of [] \<Rightarrow> None | r # rs \<Rightarrow> Some (r, p\<lparr>pp_ch := rs\<rparr>))"

definition cap_Stop :: "'f pipeline \<Rightarrow> 'f pipeline" where
  "cap_Stop p = p\<lparr>pp_closed := True\<rparr>"

text \<open>Records that pass the sampling, whatever the rate.\<close>

interpretation captureq: drop_queue "Enqueue cfg (cc_SampleRate cfg - 1)" cap_receive pp_ch pp_dropped
  "\<lambda>p. \<not> pp_closed p \<and> cc_Enabled cfg" cap_chanSize for cfg
  by unfold_locales (auto simp: Enqueue_def cap_receive_def split: list.splits)

section \<open>Storing a record\<close>

record 'f index_row =
  ir_ID :: string
  ir_TS :: gotime
  ir_KeyID :: string
  ir_UserID :: string
  ir_IngressProtocol :: string
  ir_Alias :: string
  ir_ProviderName :: string
  ir_UpstreamModel :: string
  ir_Status :: int
  ir_PromptTokens :: int
  ir_CompletionTokens :: int
  ir_CostUSD :: rat
  ir_BlobKey :: string
  ir_RawBlobKey :: string
  ir_RawExpiresAt :: "gotime option"
  ir_Redacted :: bool
  ir_ModelVersion :: string
  ir_Detected :: "'f list"
  ir_ReviewStatus :: string
  ir_SecondpassStatus :: string

text \<open>The blob store and the index, and what their operations answer during one step.\<close>

record 'f cap_world =
  cw_blobs :: "string \<rightharpoonup> string"
  cw_index :: "'f index_row list"

record cap_env =
  ce_seal :: "string \<Rightarrow> string option"
  ce_put :: "string \<Rightarrow> bool"
  ce_del :: "string \<Rightarrow> bool"
  ce_insert :: bool
  ce_rowdel :: "string \<Rightarrow> bool"
  ce_clear :: "string \<Rightarrow> bool"
  ce_now :: gotime

definition blob_put :: "cap_env \<Rightarrow> string \<Rightarrow> string \<Rightarrow> 'f cap_world \<Rightarrow> bool \<times> 'f cap_world" where
  "blob_put ev key v w =
     (if ce_put ev key then (True, w\<lparr>cw_blobs := (cw_blobs w)(key \<mapsto> v)\<rparr>) else (False, w))"

definition blob_delete :: "cap_env \<Rightarrow> string \<Rightarrow> 'f cap_world \<Rightarrow> bool \<times> 'f cap_world" where
  "blob_delete ev key w =
     (if ce_del ev key then (True, w\<lparr>cw_blobs := (cw_blobs w)(key := None)\<rparr>) else (False, w))"

text \<open>The raw copy: its key and expiry, empty when it could not be stored or there is none.\<close>

definition process_raw ::
  "cap_env \<Rightarrow> cap_config \<Rightarrow> string \<Rightarrow> 'f cap_record \<Rightarrow> 'f cap_world \<Rightarrow> string \<times> gotime option \<times> 'f cap_world" where
  "process_raw ev cfg ident r w =
     (if cr_RawBody r = [] then ([], None, w)
      else let ttl = (if cc_RawTTLHours cfg \<le> 0 then 24 else cc_RawTTLHours cfg);
               rawKey = ''captures-raw/'' @ ident
           in case ce_seal ev (cr_RawBody r) of
                None \<Rightarrow> ([], None, w)
              | Some sealedRaw \<Rightarrow>
                  (case blob_put ev rawKey sealedRaw w of
                     (False, w1) \<Rightarrow> ([], None, w1)
                   | (True, w1) \<Rightarrow> (rawKey, Some (ce_now ev + wrap64 (ttl * hour)), w1)))"

definition capture_row ::
  "cap_env \<Rightarrow> string \<Rightarrow> string \<Rightarrow> gotime option \<Rightarrow> 'f cap_record \<Rightarrow> 'f index_row" where
  "capture_row ev ident rawBlobKey rawExpiresAt r =
     \<lparr>ir_ID = ident, ir_TS = ce_now ev, ir_KeyID = cr_KeyID r, ir_UserID = cr_UserID r,
      ir_IngressProtocol = cr_Ingress r, ir_Alias = cr_Alias r, ir_ProviderName = cr_Provider r,
      ir_UpstreamModel = cr_UpstreamModel r, ir_Status = cr_Status r,
      ir_PromptTokens = cr_PromptTokens r, ir_CompletionTokens = cr_CompletionTokens r,
      ir_CostUSD = cr_CostUSD r, ir_BlobKey = ''captures/'' @ ident, ir_RawBlobKey = rawBlobKey,
      ir_RawExpiresAt = rawExpiresAt, ir_Redacted = cr_Redacted r, ir_ModelVersion = cr_ModelVersion r,
      ir_Detected = cr_Detected r, ir_ReviewStatus = ''unreviewed'', ir_SecondpassStatus = ''pending''\<rparr>"

definition process ::
  "cap_env \<Rightarrow> cap_config \<Rightarrow> string \<Rightarrow> 'f cap_record \<Rightarrow> 'f cap_world \<Rightarrow> 'f cap_world" where
  "process ev cfg ident r w =
     (let blobKey = ''captures/'' @ ident
      in case ce_seal ev (cr_Body r) of
           None \<Rightarrow> w
         | Some sealed \<Rightarrow>
             (case blob_put ev blobKey sealed w of
                (False, w1) \<Rightarrow> w1
              | (True, w1) \<Rightarrow>
                  (let (rawBlobKey, rawExpiresAt, w2) = process_raw ev cfg ident r w1
                   in if ce_insert ev
                      then w2\<lparr>cw_index := cw_index w2 @ [capture_row ev ident rawBlobKey rawExpiresAt r]\<rparr>
                      else let w3 = snd (blob_delete ev blobKey w2)
                           in if rawBlobKey \<noteq> [] then snd (blob_delete ev rawBlobKey w3) else w3)))"

section \<open>Retention\<close>

definition sweep_row :: "cap_env \<Rightarrow> 'f index_row \<Rightarrow> 'f cap_world \<Rightarrow> 'f cap_world" where
  "sweep_row ev row w =
     (let (ok1, w1) = (if ir_BlobKey row \<noteq> [] then blob_delete ev (ir_BlobKey row) w else (True, w));
          (ok2, w2) = (if ir_RawBlobKey row \<noteq> [] then blob_delete ev (ir_RawBlobKey row) w1 else (True, w1))
      in if \<not> (ok1 \<and> ok2) then w2
         else if ce_rowdel ev (ir_ID row)
         then w2\<lparr>cw_index := filter (\<lambda>x. ir_ID x \<noteq> ir_ID row) (cw_index w2)\<rparr> else w2)"

text \<open>\<open>expired\<close> is what the query for rows older than the retention period answers.\<close>

definition sweep :: "cap_env \<Rightarrow> 'f index_row list option \<Rightarrow> 'f cap_world \<Rightarrow> 'f cap_world" where
  "sweep ev expired w = (case expired of None \<Rightarrow> w | Some rows \<Rightarrow> fold (sweep_row ev) rows w)"

text \<open>The raw sweep reads the identifier and the raw key of each row whose raw copy has expired.\<close>

definition clear_raw :: "string \<Rightarrow> 'f index_row \<Rightarrow> 'f index_row" where
  "clear_raw ident x = (if ir_ID x = ident then x\<lparr>ir_RawBlobKey := [], ir_RawExpiresAt := None\<rparr> else x)"

definition sweep_raw_row :: "cap_env \<Rightarrow> string \<times> string \<Rightarrow> 'f cap_world \<Rightarrow> 'f cap_world" where
  "sweep_raw_row ev row w =
     (let (ident, rawKey) = row;
          (ok, w1) = (if rawKey \<noteq> [] then blob_delete ev rawKey w else (True, w))
      in if \<not> ok then w1
         else if ce_clear ev ident
         then w1\<lparr>cw_index := map (clear_raw ident) (cw_index w1)\<rparr> else w1)"

definition sweepRaw :: "cap_env \<Rightarrow> (string \<times> string) list option \<Rightarrow> 'f cap_world \<Rightarrow> 'f cap_world" where
  "sweepRaw ev expired w = (case expired of None \<Rightarrow> w | Some rows \<Rightarrow> fold (sweep_raw_row ev) rows w)"

section \<open>Every blob is reachable\<close>

definition points_to :: "'f index_row \<Rightarrow> string \<Rightarrow> bool" where
  "points_to r k \<longleftrightarrow> ir_BlobKey r = k \<or> ir_RawBlobKey r = k"

definition tracked :: "'f cap_world \<Rightarrow> bool" where
  "tracked w \<longleftrightarrow>
     [] \<notin> dom (cw_blobs w)
     \<and> (\<forall>k \<in> dom (cw_blobs w). \<exists>r \<in> set (cw_index w). points_to r k)"

definition index_ids :: "'f cap_world \<Rightarrow> bool" where
  "index_ids w \<longleftrightarrow> distinct (map ir_ID (cw_index w))"

lemma same_id: "\<lbrakk>distinct (map ir_ID rows); x \<in> set rows; y \<in> set rows; ir_ID x = ir_ID y\<rbrakk> \<Longrightarrow> x = y"
  by (metis distinct_map inj_onD)

lemma blob_delete_cases:
  "blob_delete ev key w = (ok, w') \<Longrightarrow> cw_index w' = cw_index w
     \<and> cw_blobs w' = (if ok then (cw_blobs w)(key := None) else cw_blobs w)"
  by (auto simp: blob_delete_def split: if_splits)

lemma sweep_row_effect:
  fixes w :: "'f cap_world"
  shows "\<exists>D \<subseteq> {ir_BlobKey row, ir_RawBlobKey row}. cw_blobs (sweep_row ev row w) = (cw_blobs w) |` (- D)
    \<and> (cw_index (sweep_row ev row w) = cw_index w
       \<or> cw_index (sweep_row ev row w) = filter (\<lambda>x. ir_ID x \<noteq> ir_ID row) (cw_index w)
         \<and> {ir_BlobKey row, ir_RawBlobKey row} - {[]} \<subseteq> D)"
proof -
  have upd: "m(k := None) = m |` (- {k})" for m :: "string \<rightharpoonup> string" and k
    by (auto simp: restrict_map_def)
  define d1 where "d1 = (if ir_BlobKey row \<noteq> [] then blob_delete ev (ir_BlobKey row) w else (True, w))"
  obtain ok1 w1 where 1: "d1 = (ok1, w1)" by fastforce
  define d2 where "d2 = (if ir_RawBlobKey row \<noteq> [] then blob_delete ev (ir_RawBlobKey row) w1 else (True, w1))"
  obtain ok2 w2 where 2: "d2 = (ok2, w2)" by fastforce
  define D1 where "D1 = (if ok1 \<and> ir_BlobKey row \<noteq> [] then {ir_BlobKey row} else {})"
  define D2 where "D2 = (if ok2 \<and> ir_RawBlobKey row \<noteq> [] then {ir_RawBlobKey row} else {})"
  have b1: "cw_blobs w1 = (cw_blobs w) |` (- D1)" "cw_index w1 = cw_index w"
    using 1 by (auto simp: d1_def D1_def upd split: if_splits dest!: blob_delete_cases)
  have b2: "cw_blobs w2 = (cw_blobs w1) |` (- D2)" "cw_index w2 = cw_index w1"
    using 2 by (auto simp: d2_def D2_def upd split: if_splits dest!: blob_delete_cases)
  have blobs: "cw_blobs w2 = (cw_blobs w) |` (- (D1 \<union> D2))" by (simp add: b1 b2 restrict_restrict)
  have sub: "D1 \<union> D2 \<subseteq> {ir_BlobKey row, ir_RawBlobKey row}" by (auto simp: D1_def D2_def)
  have res: "sweep_row ev row w = (if \<not> (ok1 \<and> ok2) then w2
      else if ce_rowdel ev (ir_ID row)
      then w2\<lparr>cw_index := filter (\<lambda>x. ir_ID x \<noteq> ir_ID row) (cw_index w2)\<rparr> else w2)"
    by (simp add: sweep_row_def d1_def [symmetric] 1 d2_def [symmetric] 2)
  show ?thesis
  proof (cases "ok1 \<and> ok2 \<and> ce_rowdel ev (ir_ID row)")
    case True
    then have "{ir_BlobKey row, ir_RawBlobKey row} - {[]} \<subseteq> D1 \<union> D2" by (auto simp: D1_def D2_def)
    moreover have "sweep_row ev row w
        = w2\<lparr>cw_index := filter (\<lambda>x. ir_ID x \<noteq> ir_ID row) (cw_index w2)\<rparr>" using True unfolding res by simp
    then have "cw_index (sweep_row ev row w) = filter (\<lambda>x. ir_ID x \<noteq> ir_ID row) (cw_index w)"
      "cw_blobs (sweep_row ev row w) = (cw_blobs w) |` (- (D1 \<union> D2))" using blobs b1(2) b2(2) by simp_all
    ultimately show ?thesis using sub by blast
  next
    case False
    then have "sweep_row ev row w = w2" unfolding res by metis
    then have "cw_index (sweep_row ev row w) = cw_index w"
      "cw_blobs (sweep_row ev row w) = (cw_blobs w) |` (- (D1 \<union> D2))" using blobs b1(2) b2(2) by simp_all
    then show ?thesis using sub by blast
  qed
qed

lemma sweep_row_tracked:
  assumes "tracked w" and "set (cw_index w) \<subseteq> set rows0" and "distinct (map ir_ID rows0)" and "row \<in> set rows0"
  shows "tracked (sweep_row ev row w) \<and> set (cw_index (sweep_row ev row w)) \<subseteq> set rows0"
proof -
  from sweep_row_effect [of row ev w] obtain D where D: "D \<subseteq> {ir_BlobKey row, ir_RawBlobKey row}"
    "cw_blobs (sweep_row ev row w) = (cw_blobs w) |` (- D)"
    "cw_index (sweep_row ev row w) = cw_index w
       \<or> cw_index (sweep_row ev row w) = filter (\<lambda>x. ir_ID x \<noteq> ir_ID row) (cw_index w)
         \<and> {ir_BlobKey row, ir_RawBlobKey row} - {[]} \<subseteq> D"
    by (elim exE conjE)
  have "\<exists>r \<in> set (cw_index (sweep_row ev row w)). points_to r k"
    if k: "k \<in> dom (cw_blobs (sweep_row ev row w))" for k
  proof -
    have kb: "k \<in> dom (cw_blobs w)" "k \<notin> D" using k D(2) by auto
    then obtain r where r: "r \<in> set (cw_index w)" "points_to r k" and ne: "k \<noteq> []"
      using assms(1) unfolding tracked_def by blast
    show ?thesis
    proof (cases "cw_index (sweep_row ev row w) = cw_index w")
      case True
      then show ?thesis using r by auto
    next
      case False
      have "ir_ID r \<noteq> ir_ID row"
      proof
        assume "ir_ID r = ir_ID row"
        then have "r = row" using same_id [OF assms(3)] r(1) assms(2,4) by blast
        then have "k \<in> {ir_BlobKey row, ir_RawBlobKey row} - {[]}" using r(2) ne by (auto simp: points_to_def)
        then show False using kb(2) D(3) False by blast
      qed
      then show ?thesis using r D(3) False by auto
    qed
  qed
  moreover have "[] \<notin> dom (cw_blobs (sweep_row ev row w))" using assms(1) D(2) by (auto simp: tracked_def)
  moreover have "set (cw_index (sweep_row ev row w)) \<subseteq> set (cw_index w)" using D(3) by auto
  ultimately show ?thesis using assms(2) unfolding tracked_def by blast
qed

lemma sweep_tracked:
  assumes "tracked w" and "index_ids w" and "set rows \<subseteq> set (cw_index w)"
  shows "tracked (fold (sweep_row ev) rows w)"
proof -
  have "tracked (fold (sweep_row ev) rows w')"
    if "tracked w'" "set (cw_index w') \<subseteq> set (cw_index w)" for w'
    using that assms(3)
  proof (induction rows arbitrary: w')
    case (Cons row rows)
    have "row \<in> set (cw_index w)" using Cons.prems(3) by simp
    with sweep_row_tracked [OF Cons.prems(1,2)] assms(2)
    have "tracked (sweep_row ev row w')" "set (cw_index (sweep_row ev row w')) \<subseteq> set (cw_index w)"
      unfolding index_ids_def by blast+
    with Cons.IH Cons.prems(3) show ?case by simp
  qed simp
  then show ?thesis using assms(1) by blast
qed

text \<open>A row after some of its pointers were cleared.\<close>

definition cleared_from :: "'f index_row list \<Rightarrow> 'f cap_world \<Rightarrow> bool" where
  "cleared_from rows0 w \<longleftrightarrow>
     (\<forall>r \<in> set (cw_index w). \<exists>r0 \<in> set rows0. ir_ID r = ir_ID r0
        \<and> ir_RawBlobKey r \<in> {ir_RawBlobKey r0, []})"

lemma sweep_raw_row_tracked:
  assumes "tracked w" and "cleared_from rows0 w" and "distinct (map ir_ID rows0)"
    and "r0 \<in> set rows0" and "row = (ir_ID r0, ir_RawBlobKey r0)"
  shows "tracked (sweep_raw_row ev row w) \<and> cleared_from rows0 (sweep_raw_row ev row w)"
proof -
  define d where "d = (if ir_RawBlobKey r0 \<noteq> [] then blob_delete ev (ir_RawBlobKey r0) w else (True, w))"
  obtain ok w1 where 1: "d = (ok, w1)" by fastforce
  have w1: "cw_index w1 = cw_index w"
    "\<And>k. k \<in> dom (cw_blobs w1) \<Longrightarrow> k \<in> dom (cw_blobs w) \<and> (ok \<and> ir_RawBlobKey r0 \<noteq> [] \<longrightarrow> k \<noteq> ir_RawBlobKey r0)"
    using 1 by (auto simp: d_def split: if_splits dest!: blob_delete_cases)
  have t1: "tracked w1" "cleared_from rows0 w1"
    using assms(1,2) w1 unfolding tracked_def cleared_from_def by auto
  have res: "sweep_raw_row ev row w = (if \<not> ok then w1 else if ce_clear ev (ir_ID r0)
      then w1\<lparr>cw_index := map (clear_raw (ir_ID r0)) (cw_index w1)\<rparr> else w1)"
    by (simp add: sweep_raw_row_def assms(5) d_def [symmetric] 1)
  show ?thesis
  proof (cases "ok \<and> ce_clear ev (ir_ID r0)")
    case False
    then show ?thesis using t1 unfolding res by auto
  next
    case True
    define w2 where "w2 = w1\<lparr>cw_index := map (clear_raw (ir_ID r0)) (cw_index w1)\<rparr>"
    have "\<exists>x \<in> set (cw_index w2). points_to x k" if k: "k \<in> dom (cw_blobs w2)" for k
    proof -
      have kb: "k \<in> dom (cw_blobs w1)" using k by (simp add: w2_def)
      then obtain r where r: "r \<in> set (cw_index w1)" "points_to r k" and ne: "k \<noteq> []"
        using t1(1) unfolding tracked_def by blast
      have "points_to (clear_raw (ir_ID r0) r) k"
      proof (cases "ir_ID r = ir_ID r0 \<and> ir_RawBlobKey r = k")
        case True
        obtain r1 where "r1 \<in> set rows0" "ir_ID r = ir_ID r1" "ir_RawBlobKey r \<in> {ir_RawBlobKey r1, []}"
          using t1(2) r(1) unfolding cleared_from_def by blast
        then have "ir_RawBlobKey r0 = k" using True ne same_id [OF assms(3) _ assms(4), of r1] by auto
        then show ?thesis using w1(2) [OF kb] \<open>ok \<and> ce_clear ev (ir_ID r0)\<close> ne by blast
      next
        case False
        then show ?thesis using r(2) by (auto simp: points_to_def clear_raw_def)
      qed
      then show ?thesis using r(1) by (auto simp: w2_def)
    qed
    then have "tracked w2" using t1(1) by (simp add: tracked_def w2_def)
    moreover have "cleared_from rows0 w2"
      unfolding cleared_from_def
    proof
      fix x assume "x \<in> set (cw_index w2)"
      then obtain r where r: "r \<in> set (cw_index w1)" "x = clear_raw (ir_ID r0) r" by (auto simp: w2_def)
      then obtain r1 where "r1 \<in> set rows0" "ir_ID r = ir_ID r1" "ir_RawBlobKey r \<in> {ir_RawBlobKey r1, []}"
        using t1(2) unfolding cleared_from_def by blast
      then show "\<exists>r1 \<in> set rows0. ir_ID x = ir_ID r1 \<and> ir_RawBlobKey x \<in> {ir_RawBlobKey r1, []}"
        using r(2) by (intro bexI [of _ r1]) (auto simp: clear_raw_def)
    qed
    ultimately show ?thesis using True unfolding res w2_def by simp
  qed
qed

lemma sweepRaw_tracked:
  assumes "tracked w" and "index_ids w"
    and "set rows \<subseteq> (\<lambda>r. (ir_ID r, ir_RawBlobKey r)) ` set (cw_index w)"
  shows "tracked (fold (sweep_raw_row ev) rows w)"
proof -
  have "tracked (fold (sweep_raw_row ev) rows w')" if "tracked w'" "cleared_from (cw_index w) w'" for w'
    using that assms(3)
  proof (induction rows arbitrary: w')
    case (Cons row rows)
    obtain r0 where r0: "r0 \<in> set (cw_index w)" "row = (ir_ID r0, ir_RawBlobKey r0)"
      using Cons.prems(3) by auto
    from sweep_raw_row_tracked [OF Cons.prems(1,2) _ r0] assms(2) Cons.IH Cons.prems(3)
    show ?case by (simp add: index_ids_def)
  qed simp
  moreover have "cleared_from (cw_index w) w" unfolding cleared_from_def by blast
  ultimately show ?thesis using assms(1) by blast
qed

lemma process_raw_effect:
  assumes "process_raw ev cfg ident r w = (k, e, w')"
  shows "cw_index w' = cw_index w \<and> (k = [] \<and> cw_blobs w' = cw_blobs w
    \<or> k = ''captures-raw/'' @ ident \<and> (\<exists>v. cw_blobs w' = (cw_blobs w)(k \<mapsto> v)))"
  using assms by (auto simp: process_raw_def blob_put_def Let_def split: if_splits option.splits)

lemma process_tracked:
  assumes "tracked w" and clean: "\<not> ce_insert ev \<Longrightarrow> \<forall>k. ce_del ev k"
  shows "tracked (process ev cfg ident r w)"
proof -
  define bk where "bk = ''captures/'' @ ident"
  have bk: "bk \<noteq> []" by (simp add: bk_def)
  show ?thesis
  proof (cases "ce_seal ev (cr_Body r) = None \<or> \<not> ce_put ev bk")
    case True
    then show ?thesis using assms(1)
      by (auto simp: process_def blob_put_def Let_def bk_def split: option.splits)
  next
    case False
    then obtain sealed where s: "ce_seal ev (cr_Body r) = Some sealed" "ce_put ev bk" by auto
    define w1 where "w1 = w\<lparr>cw_blobs := (cw_blobs w)(bk \<mapsto> sealed)\<rparr>"
    obtain k e w2 where raw: "process_raw ev cfg ident r w1 = (k, e, w2)" by (metis prod_cases3)
    have eff: "cw_index w2 = cw_index w"
      and doms: "\<And>j. j \<in> dom (cw_blobs w2) \<Longrightarrow> j \<in> dom (cw_blobs w) \<or> j = bk \<or> j = k \<and> k \<noteq> []"
      using process_raw_effect [OF raw] by (auto simp: w1_def split: if_splits)
    show ?thesis
    proof (cases "ce_insert ev")
      case True
      have p: "process ev cfg ident r w = w2\<lparr>cw_index := cw_index w2 @ [capture_row ev ident k e r]\<rparr>"
        using s raw True by (simp add: process_def blob_put_def Let_def w1_def bk_def)
      have "points_to (capture_row ev ident k e r) bk" "points_to (capture_row ev ident k e r) k"
        by (simp_all add: points_to_def capture_row_def bk_def)
      then show ?thesis using doms assms(1) bk unfolding p tracked_def eff by (simp, blast)
    next
      case ins: False
      have p: "process ev cfg ident r w
          = (if k \<noteq> [] then w2\<lparr>cw_blobs := (cw_blobs w2)(bk := None, k := None)\<rparr>
             else w2\<lparr>cw_blobs := (cw_blobs w2)(bk := None)\<rparr>)"
        using s raw ins clean [OF ins]
        by (simp add: process_def blob_put_def blob_delete_def Let_def w1_def bk_def)
      have idx: "cw_index (process ev cfg ident r w) = cw_index w" using eff unfolding p by simp
      have "j \<in> dom (cw_blobs w)" if "j \<in> dom (cw_blobs (process ev cfg ident r w))" for j
        using that doms [of j] unfolding p by (auto split: if_splits)
      then show ?thesis using assms(1) unfolding tracked_def idx by blast
    qed
  qed
qed

section \<open>Properties\<close>

text \<open>
  C38: No captured secret is orphaned: storing a record, the retention sweep and the raw-copy sweep
  keep every blob reachable from an index row, whichever deletions fail on the way, so that a later
  sweep can still find it. The one proviso is the code's own: when the index insert fails, the blobs
  just written are deleted again, and that deletion has to succeed.
\<close>
theorem capture_no_orphans:
  assumes "tracked w" and "index_ids w"
    and "set rows \<subseteq> set (cw_index w)"
    and "set raws \<subseteq> (\<lambda>r. (ir_ID r, ir_RawBlobKey r)) ` set (cw_index w)"
    and "\<not> ce_insert ev \<Longrightarrow> \<forall>k. ce_del ev k"
  shows "tracked (process ev cfg ident r w) \<and> tracked (sweep ev' (Some rows) w)
    \<and> tracked (sweepRaw ev'' (Some raws) w)"
  using process_tracked [OF assms(1,5)] sweep_tracked [OF assms(1-3)] sweepRaw_tracked [OF assms(1,2,4)]
  by (simp add: sweep_def sweepRaw_def)

definition demo_index_row :: "unit index_row" where
  "demo_index_row = \<lparr>ir_ID = ''1'', ir_TS = 0, ir_KeyID = [], ir_UserID = [], ir_IngressProtocol = [],
     ir_Alias = [], ir_ProviderName = [], ir_UpstreamModel = [], ir_Status = 200, ir_PromptTokens = 0,
     ir_CompletionTokens = 0, ir_CostUSD = 0, ir_BlobKey = ''captures/1'', ir_RawBlobKey = ''captures-raw/1'',
     ir_RawExpiresAt = None, ir_Redacted = True, ir_ModelVersion = [], ir_Detected = [],
     ir_ReviewStatus = [], ir_SecondpassStatus = []\<rparr>"

definition demo_world :: "unit cap_world" where
  "demo_world = \<lparr>cw_blobs = [''captures/1'' \<mapsto> ''x'', ''captures-raw/1'' \<mapsto> ''y''], cw_index = [demo_index_row]\<rparr>"

text \<open>A sweep whose deletion of the raw copy fails.\<close>

definition demo_cap_env :: cap_env where
  "demo_cap_env = \<lparr>ce_seal = Some, ce_put = (\<lambda>_. True), ce_del = (\<lambda>k. k = ''captures/1''), ce_insert = True,
     ce_rowdel = (\<lambda>_. True), ce_clear = (\<lambda>_. True), ce_now = 0\<rparr>"

theorem capture_no_orphans_witness:
  "tracked (sweep demo_cap_env (Some [demo_index_row]) demo_world)
   \<and> cw_blobs (sweep demo_cap_env (Some [demo_index_row]) demo_world) ''captures-raw/1'' = Some ''y''"
proof -
  have "tracked demo_world" "index_ids demo_world" "set [demo_index_row] \<subseteq> set (cw_index demo_world)"
    by (auto simp: tracked_def index_ids_def demo_world_def points_to_def demo_index_row_def)
  from capture_no_orphans [OF this, of "[]" demo_cap_env undefined undefined undefined demo_cap_env demo_cap_env]
  have "tracked (sweep demo_cap_env (Some [demo_index_row]) demo_world)" by (simp add: demo_cap_env_def)
  moreover have "cw_blobs (sweep demo_cap_env (Some [demo_index_row]) demo_world) ''captures-raw/1'' = Some ''y''"
    by (simp add: sweep_def sweep_row_def blob_delete_def demo_cap_env_def demo_world_def demo_index_row_def)
  ultimately show ?thesis by blast
qed

end
