(* ===== verification/Errors.thy ===== *)
theory Errors
  imports GoStrings
begin

text \<open>
  Upstream failures (\<open>internal/providers/errors.go\<close>) and what the gateway makes of them towards its
  client (\<open>classifyUpstreamErr\<close> in \<open>internal/httpapi/exec.go\<close>). JSON decoding of an error body into
  each vendor's shape and the HTTP-date parser are parameters; the three regular expressions are
  written out on bytes, with ASCII word characters.
\<close>

section \<open>Provider errors\<close>

abbreviation ErrCodeContextLengthExceeded :: string where "ErrCodeContextLengthExceeded \<equiv> ''context_length_exceeded''"
abbreviation ErrCodeModelNotFound :: string where "ErrCodeModelNotFound \<equiv> ''model_not_found''"
abbreviation ErrCodeMultimodalNotSupported :: string where "ErrCodeMultimodalNotSupported \<equiv> ''multimodal_not_supported''"
abbreviation ErrCodeReasoningEffortUnsupported :: string where
  "ErrCodeReasoningEffortUnsupported \<equiv> ''reasoning_effort_unsupported''"
abbreviation ErrCodeVoiceNotSupported :: string where "ErrCodeVoiceNotSupported \<equiv> ''voice_not_supported''"
abbreviation ErrCodeProviderAuth :: string where "ErrCodeProviderAuth \<equiv> ''provider_auth''"

record perror =
  pe_Status :: int
  pe_Retryable :: bool
  pe_Code :: string
  pe_Message :: string
  pe_RetryAfter :: "duration option"

text \<open>
  Go error values as far as the code tells them apart: a provider error (\<open>errors.As\<close>), the sentinels
  it compares with \<open>errors.Is\<close>, a cancelled context, and any other error by its text.
\<close>

datatype gerr =
    ProviderErr perror
  | ErrAllBusyTargets
  | ErrAllQuarantined
  | ErrAllUnavailable
  | ErrServedWithoutCall
  | ErrFirstChunkLate
  | ErrCanceled
  | ErrOther string

definition IsAuthFailure :: "gerr \<Rightarrow> bool" where
  "IsAuthFailure err = (case err of ProviderErr pe \<Rightarrow> pe_Code pe = ErrCodeProviderAuth | _ \<Rightarrow> False)"

definition IsRetryable :: "gerr \<Rightarrow> bool" where
  "IsRetryable err = (case err of ProviderErr pe \<Rightarrow> pe_Retryable pe | _ \<Rightarrow> False)"

definition mismatch_codes :: "string list" where
  "mismatch_codes =
     [ErrCodeContextLengthExceeded, ErrCodeModelNotFound, ErrCodeMultimodalNotSupported,
      ErrCodeReasoningEffortUnsupported, ErrCodeVoiceNotSupported]"

definition IsTargetMismatch :: "gerr \<Rightarrow> bool" where
  "IsTargetMismatch err = (case err of ProviderErr pe \<Rightarrow> pe_Code pe \<in> set mismatch_codes | _ \<Rightarrow> False)"

definition IsFallbackWorthy :: "gerr \<Rightarrow> bool" where
  "IsFallbackWorthy err = (IsRetryable err \<or> IsTargetMismatch err)"

section \<open>Patterns\<close>

definition is_word :: "char \<Rightarrow> bool" where
  "is_word c \<longleftrightarrow> is_letter c \<or> is_digit c \<or> c = CHR ''_''"

text \<open>A word boundary before position \<open>i\<close>.\<close>

definition boundary :: "string \<Rightarrow> nat \<Rightarrow> bool" where
  "boundary s i \<longleftrightarrow> (0 < i \<and> i \<le> length s \<and> is_word (s ! (i - 1))) \<noteq> (i < length s \<and> is_word (s ! i))"

definition match_at :: "string \<Rightarrow> nat \<Rightarrow> string \<Rightarrow> bool" where
  "match_at s i p \<longleftrightarrow> take (length p) (drop i s) = p"

text \<open>\<open>(?i)does not support multimodal\<close>\<close>

definition ollamaMultimodalRejectionPattern :: "string \<Rightarrow> bool" where
  "ollamaMultimodalRejectionPattern s = contains_str (to_lower s) ''does not support multimodal''"

text \<open>\<open>(?i)\bvoice\<close>\<close>

definition voiceRejection :: "string \<Rightarrow> bool" where
  "voiceRejection s = list_ex (\<lambda>i. boundary s i \<and> match_at (to_lower s) i ''voice'') [0..<length s]"

text \<open>\<open>(?i)\bmodel\b.{0,200}?\bnot found\b\<close>; the dot matches anything but a newline.\<close>

definition ollamaModelNotFoundPattern :: "string \<Rightarrow> bool" where
  "ollamaModelNotFoundPattern s =
     list_ex (\<lambda>i. boundary s i \<and> match_at (to_lower s) i ''model'' \<and> boundary s (i + 5)
        \<and> list_ex (\<lambda>n. i + 5 + n \<le> length s \<and> CHR 0x0A \<notin> set (take n (drop (i + 5) s))
              \<and> boundary s (i + 5 + n) \<and> match_at (to_lower s) (i + 5 + n) ''not found''
              \<and> boundary s (i + 5 + n + 9)) [0..<201])
       [0..<length s]"

section \<open>Classifying an upstream answer\<close>

record openAIErrorBody =
  oa_Type :: string
  oa_Code :: string
  oa_Message :: string
  oa_Param :: string

record googleErrorBody =
  ge_Message :: string
  ge_Status :: string
  ge_Reasons :: "string list"

text \<open>What \<open>json.Unmarshal\<close> makes of a body in each shape; \<open>None\<close> is a decoding error.\<close>

record body_decoders =
  bd_openai :: "string \<Rightarrow> openAIErrorBody option"
  bd_llamacpp :: "string \<Rightarrow> string option"
  bd_google :: "string \<Rightarrow> googleErrorBody option"

definition googleContextLimitHints :: "string list" where
  "googleContextLimitHints =
     [''token count'', ''maximum number of tokens'', ''token limit'', ''context length'', ''input is too long'']"

definition classify_openai :: "openAIErrorBody \<Rightarrow> string" where
  "classify_openai oa =
     (if oa_Code oa = ErrCodeContextLengthExceeded \<or> oa_Code oa = ErrCodeModelNotFound then oa_Code oa
      else if oa_Code oa = [] \<and> oa_Param oa = ''reasoning_effort'' then ErrCodeReasoningEffortUnsupported
      else if ollamaMultimodalRejectionPattern (oa_Message oa) then ErrCodeMultimodalNotSupported
      else [])"

definition classify_google :: "googleErrorBody \<Rightarrow> string" where
  "classify_google g =
     (if ''BILLING_DISABLED'' \<in> set (ge_Reasons g) then ErrCodeProviderAuth
      else if ge_Status g = ''PERMISSION_DENIED'' \<or> ge_Status g = ''UNAUTHENTICATED''
              \<or> ge_Status g = ''FAILED_PRECONDITION'' then ErrCodeProviderAuth
      else if ge_Status g = ''NOT_FOUND'' then ErrCodeModelNotFound
      else if ge_Status g = ''INVALID_ARGUMENT''
              \<and> list_ex (contains_str (to_lower (ge_Message g))) googleContextLimitHints
      then ErrCodeContextLengthExceeded
      else [])"

definition classifyErrorBody :: "body_decoders \<Rightarrow> string \<Rightarrow> string" where
  "classifyErrorBody D body =
     (let a = (case bd_openai D body of None \<Rightarrow> [] | Some oa \<Rightarrow> classify_openai oa)
      in if a \<noteq> [] then a
         else if bd_llamacpp D body = Some ''exceed_context_size_error'' then ErrCodeContextLengthExceeded
         else (case bd_google D body of None \<Rightarrow> [] | Some g \<Rightarrow> classify_google g))"

definition transportError :: "bool \<Rightarrow> string \<Rightarrow> perror" where
  "transportError canceled message =
     \<lparr>pe_Status = 502, pe_Retryable = \<not> canceled, pe_Code = [], pe_Message = message, pe_RetryAfter = None\<rparr>"

text \<open>\<open>parseTime\<close> is \<open>http.ParseTime\<close>.\<close>

definition parseRetryAfter :: "(string \<Rightarrow> gotime option) \<Rightarrow> string \<Rightarrow> gotime \<Rightarrow> duration option" where
  "parseRetryAfter parseTime v now =
     (if v = [] then None
      else case parse_int (trim_space v) of
             Some secs \<Rightarrow> if secs < 0 then None else Some (wrap64 (secs * second))
           | None \<Rightarrow>
               (case parseTime v of
                  None \<Rightarrow> None
                | Some t \<Rightarrow> Some (if t - now > 0 then t - now else 0)))"

definition http_code :: "body_decoders \<Rightarrow> int \<Rightarrow> string \<Rightarrow> string" where
  "http_code D status body =
     (let code = classifyErrorBody D body
      in if code \<noteq> [] then code
         else if status = 401 \<or> status = 403 then ErrCodeProviderAuth
         else if status = 402 then ErrCodeProviderAuth
         else if status = 404 \<and> ollamaModelNotFoundPattern body then ErrCodeModelNotFound
         else [])"

text \<open>\<open>header\<close> is the \<open>Retry-After\<close> value (empty when absent), or \<open>None\<close> without headers.\<close>

definition httpError ::
  "body_decoders \<Rightarrow> (string \<Rightarrow> gotime option) \<Rightarrow> gotime \<Rightarrow> string \<Rightarrow> int \<Rightarrow> string \<Rightarrow> string option \<Rightarrow> perror" where
  "httpError D parseTime now name status body header =
     \<lparr>pe_Status = status, pe_Retryable = (status = 429 \<or> status \<ge> 500), pe_Code = http_code D status body,
      pe_Message = ''upstream '' @ name @ '' returned '' @ itoa status @ '': '' @ trim_space body,
      pe_RetryAfter = (case header of None \<Rightarrow> None | Some v \<Rightarrow> parseRetryAfter parseTime v now)\<rparr>"

definition classifyVoiceRejection :: "gerr \<Rightarrow> gerr" where
  "classifyVoiceRejection err =
     (case err of
        ProviderErr pe \<Rightarrow>
          if pe_Code pe \<noteq> [] then err
          else if pe_Status pe \<in> {400, 404, 422} \<and> voiceRejection (pe_Message pe)
          then ProviderErr (pe\<lparr>pe_Code := ErrCodeVoiceNotSupported\<rparr>) else err
      | _ \<Rightarrow> err)"

section \<open>The client's view\<close>

definition nonRetryableClientStatus :: "gerr \<Rightarrow> int option" where
  "nonRetryableClientStatus err =
     (case err of
        ProviderErr pe \<Rightarrow>
          if \<not> pe_Retryable pe \<and> pe_Status pe \<ge> 400 \<and> pe_Status pe < 500 \<and> pe_Code pe \<noteq> ErrCodeProviderAuth
          then Some (pe_Status pe) else None
      | _ \<Rightarrow> None)"

definition classifyUpstreamErr :: "gerr \<Rightarrow> int \<times> string" where
  "classifyUpstreamErr err =
     (if err = ErrAllBusyTargets then (429, ''rate_limit_error'')
      else if err = ErrAllQuarantined \<or> err = ErrAllUnavailable then (503, ''upstream_error'')
      else if IsTargetMismatch err then (400, ''invalid_request_error'')
      else case nonRetryableClientStatus err of
             Some status \<Rightarrow> (status, ''invalid_request_error'')
           | None \<Rightarrow> (502, ''upstream_error''))"

section \<open>Properties\<close>

lemmas error_kind_defs = IsAuthFailure_def IsRetryable_def IsTargetMismatch_def IsFallbackWorthy_def mismatch_codes_def

lemma auth_not_mismatch: "IsAuthFailure err \<Longrightarrow> \<not> IsTargetMismatch err"
  by (cases err) (auto simp: error_kind_defs)

lemma classify_provider_err:
  "classifyUpstreamErr (ProviderErr pe) =
     (if pe_Code pe \<in> set mismatch_codes then (400, ''invalid_request_error'')
      else if \<not> pe_Retryable pe \<and> 400 \<le> pe_Status pe \<and> pe_Status pe < 500 \<and> pe_Code pe \<noteq> ErrCodeProviderAuth
      then (pe_Status pe, ''invalid_request_error'') else (502, ''upstream_error''))"
  by (simp add: classifyUpstreamErr_def IsTargetMismatch_def nonRetryableClientStatus_def)

lemma voice_rejection_keeps_fallback:
  "IsFallbackWorthy err \<Longrightarrow> IsFallbackWorthy (classifyVoiceRejection err)"
  by (cases err) (auto simp: classifyVoiceRejection_def error_kind_defs)

text \<open>
  What becomes of an upstream's HTTP error: a failure that neither another target nor
  working credentials could cure reaches the client with the upstream's own status; one about the
  gateway's credentials or account never does (502), and is no target mismatch; a failure worth
  another target reaches the client only when every target failed, as a 400 when the targets cannot
  serve the request and as a 502 otherwise.
\<close>
theorem http_error_disposition:
  assumes "400 \<le> status" and "e = ProviderErr (httpError D parseTime now name status body header)"
  shows "(\<not> IsFallbackWorthy e \<and> \<not> IsAuthFailure e \<longrightarrow> classifyUpstreamErr e = (status, ''invalid_request_error''))
    \<and> (IsAuthFailure e \<longrightarrow> fst (classifyUpstreamErr e) = 502 \<and> \<not> IsTargetMismatch e)
    \<and> (IsFallbackWorthy e \<longrightarrow> fst (classifyUpstreamErr e) = (if IsTargetMismatch e then 400 else 502))
    \<and> (status = 401 \<and> classifyErrorBody D body = [] \<longrightarrow> IsAuthFailure e)"
proof -
  let ?pe = "httpError D parseTime now name status body header"
  have f: "pe_Status ?pe = status" "pe_Retryable ?pe \<longleftrightarrow> status = 429 \<or> status \<ge> 500"
    "pe_Code ?pe = http_code D status body"
    by (simp_all add: httpError_def)
  have auth: "ErrCodeProviderAuth \<notin> set mismatch_codes" by (simp add: mismatch_codes_def)
  have k: "IsAuthFailure e \<longleftrightarrow> pe_Code ?pe = ErrCodeProviderAuth"
    "IsTargetMismatch e \<longleftrightarrow> pe_Code ?pe \<in> set mismatch_codes"
    "IsFallbackWorthy e \<longleftrightarrow> pe_Retryable ?pe \<or> pe_Code ?pe \<in> set mismatch_codes"
    unfolding assms(2) by (simp_all add: IsAuthFailure_def IsTargetMismatch_def IsFallbackWorthy_def IsRetryable_def)
  have u: "status = 401 \<and> classifyErrorBody D body = [] \<Longrightarrow> pe_Code ?pe = ErrCodeProviderAuth"
    unfolding f(3) by (simp add: http_code_def)
  have n: "pe_Code ?pe = ErrCodeProviderAuth \<Longrightarrow> pe_Code ?pe \<notin> set mismatch_codes" using auth by auto
  show ?thesis
    unfolding k unfolding assms(2) classify_provider_err f(1,2)
    using assms(1) u n by (intro conjI impI) (simp_all only: if_True if_False simp_thms fst_conv, auto)
qed

definition demo_decoders :: body_decoders where
  "demo_decoders = \<lparr>bd_openai = (\<lambda>_. None), bd_llamacpp = (\<lambda>_. None), bd_google = (\<lambda>_. None)\<rparr>"

theorem http_error_disposition_witness:
  "fst (classifyUpstreamErr (ProviderErr (httpError demo_decoders (\<lambda>_. None) 0 ''p'' 403 ''no'' None))) = 502"
proof -
  have "IsAuthFailure (ProviderErr (httpError demo_decoders (\<lambda>_. None) 0 ''p'' 403 ''no'' None))"
    by (simp add: IsAuthFailure_def httpError_def http_code_def classifyErrorBody_def demo_decoders_def Let_def)
  then show ?thesis using http_error_disposition [of 403 _ demo_decoders "\<lambda>_. None" 0 "''p''" "''no''" None] by simp
qed

lemma digits_no_space:
  assumes "list_all is_digit s"
  shows "trim_space s = s"
proof (rule trim_space_id)
  have "\<not> is_space c" if "is_digit c" for c
    using that by (auto simp: is_digit_def is_space_def char_code_def)
  then show "s = [] \<or> \<not> is_space (hd s) \<and> \<not> is_space (last s)"
    using assms by (cases s) (auto simp: list_all_iff)
qed

lemma itoa_nat_digits: "0 \<le> n \<Longrightarrow> list_all is_digit (itoa n) \<and> itoa n \<noteq> []"
  using nat_digits_correct [of "nat n"] by (simp add: itoa_def)

lemma retry_after_itoa:
  assumes "0 \<le> n" and "n < 2 ^ 63"
  shows "parseRetryAfter parseTime (itoa n) now = Some (wrap64 (n * second))"
proof -
  have "parse_int (trim_space (itoa n)) = Some n"
    using assms itoa_nat_digits [OF assms(1)] parse_int_itoa [of n] digits_no_space [of "itoa n"]
    by (simp add: in_int64_def)
  then show ?thesis using assms(1) itoa_nat_digits [OF assms(1)] by (simp add: parseRetryAfter_def)
qed

text \<open>
  A \<open>Retry-After\<close> in seconds is taken exactly up to 9223372036 seconds and never
  beyond: a larger number, which the header parser accepts, overflows the 64-bit duration and yields
  another one (18446744074 seconds become 290 milliseconds).
\<close>
theorem retry_after_seconds:
  assumes "0 \<le> n" and "n < 2 ^ 63"
  shows "(parseRetryAfter parseTime (itoa n) now = Some (n * second) \<longleftrightarrow> n \<le> 9223372036)
    \<and> parseRetryAfter parseTime (itoa 18446744074) now = Some 290448384"
proof
  have w: "wrap64 (n * second) = n * second \<longleftrightarrow> in_int64 (n * second)"
    by (metis wrap64_id wrap64_in)
  have "in_int64 (n * second) \<longleftrightarrow> n \<le> 9223372036"
    using assms(1) by (auto simp: in_int64_def)
  then show "parseRetryAfter parseTime (itoa n) now = Some (n * second) \<longleftrightarrow> n \<le> 9223372036"
    by (simp only: retry_after_itoa [OF assms] option.inject w)
  have "wrap64 (18446744074 * second) = 290448384" by (simp add: wrap64_def)
  then show "parseRetryAfter parseTime (itoa 18446744074) now = Some 290448384"
    using retry_after_itoa [of 18446744074 parseTime now] by simp
qed

theorem retry_after_seconds_witness:
  "parseRetryAfter (\<lambda>_. None) (itoa 120) 0 = Some (120 * second)"
proof -
  have "0 \<le> (120 :: int)" "(120 :: int) < 2 ^ 63" "(120 :: int) \<le> 9223372036" by simp_all
  with retry_after_seconds [of 120 "\<lambda>_. None" 0] show ?thesis by blast
qed

end
