(* ===== verification/TierPolicy.thy ===== *)
theory TierPolicy
  imports Routing Breaker Errors Unavail Affinity Lcr Pricing Registry
    "HOL-Library.List_Lexorder" "HOL-Library.Char_ord" "HOL-Library.Product_Lexorder"
begin

text \<open>
  The policy the executor applies to one tier or one target (\<open>internal/httpapi\<close>: \<open>failover.go\<close>,
  \<open>tier_breaker.go\<close>, \<open>session_affinity.go\<close>, \<open>client_session.go\<close>): gateway-wide failover defaults and
  per-target overrides, breaker thresholds of a tier, which failures move on and which count against
  a tier, unavailability marks, the session floor and pin, and the ranking of least-cost routing.
\<close>

section \<open>Failover defaults\<close>

record failoverConfig =
  fc_TimeoutMS :: int
  fc_FallbackOnAuth :: bool
  fc_Breaker :: breaker_options
  fc_UnavailableInitialMS :: int
  fc_UnavailableMaxMS :: int

definition no_breaker_options :: breaker_options where
  "no_breaker_options = \<lparr>bo_Enabled = None, bo_Failures = None, bo_ErrorRate = None, bo_WindowMS = None,
     bo_MinRequests = None, bo_CooldownMS = None, bo_MaxCooldownMS = None, bo_StableMS = None\<rparr>"

definition zero_failover :: failoverConfig where
  "zero_failover = \<lparr>fc_TimeoutMS = 0, fc_FallbackOnAuth = False, fc_Breaker = no_breaker_options,
     fc_UnavailableInitialMS = 0, fc_UnavailableMaxMS = 0\<rparr>"

definition defaultUnavailableInitialMS :: int where "defaultUnavailableInitialMS = 200"
definition defaultUnavailableMaxMS :: int where "defaultUnavailableMaxMS = 25600"

text \<open>\<open>unmarshal\<close> is what decoding a saved value leaves in the configuration.\<close>

definition applyFailover :: "(string \<Rightarrow> failoverConfig) \<Rightarrow> string \<Rightarrow> failoverConfig" where
  "applyFailover unmarshal raw =
     (let c0 = (if raw \<noteq> [] then unmarshal raw else zero_failover);
          c1 = (if fc_TimeoutMS c0 < 0 then c0\<lparr>fc_TimeoutMS := 0\<rparr> else c0);
          c2 = (if breaker_Validate (Some (fc_Breaker c1)) \<noteq> None then c1\<lparr>fc_Breaker := no_breaker_options\<rparr> else c1);
          c3 = (if fc_UnavailableInitialMS c2 \<le> 0
                then c2\<lparr>fc_UnavailableInitialMS := defaultUnavailableInitialMS\<rparr> else c2)
      in if fc_UnavailableMaxMS c3 \<le> 0 then c3\<lparr>fc_UnavailableMaxMS := defaultUnavailableMaxMS\<rparr> else c3)"

definition failoverCfg :: "failoverConfig option \<Rightarrow> failoverConfig" where
  "failoverCfg stored = (case stored of Some c \<Rightarrow> c | None \<Rightarrow> zero_failover)"

record attemptPolicy =
  ap_budget :: duration
  ap_fallbackOnAuth :: bool

definition policyFor :: "failoverConfig \<Rightarrow> target \<Rightarrow> attemptPolicy" where
  "policyFor cfg t =
     (let timeoutMS = (case to_TimeoutMS (tg_Options t) of Some v \<Rightarrow> v | None \<Rightarrow> fc_TimeoutMS cfg);
          onAuth = (case to_FallbackOnAuth (tg_Options t) of Some v \<Rightarrow> v | None \<Rightarrow> fc_FallbackOnAuth cfg)
      in \<lparr>ap_budget = wrap64 (timeoutMS * millisecond), ap_fallbackOnAuth = onAuth\<rparr>)"

definition fallsThrough :: "attemptPolicy \<Rightarrow> gerr \<Rightarrow> bool" where
  "fallsThrough p err =
     (if IsFallbackWorthy err then True else ap_fallbackOnAuth p \<and> IsAuthFailure err)"

abbreviation errCodeTierTimeout :: string where "errCodeTierTimeout \<equiv> ''tier_timeout''"

definition attemptFailureReason :: "gerr \<Rightarrow> string" where
  "attemptFailureReason err =
     (case err of
        ProviderErr pe \<Rightarrow>
          if pe_Code pe = errCodeTierTimeout then ''timeout''
          else if pe_Code pe \<noteq> [] then pe_Code pe
          else if pe_Status pe = 429 then ''rate_limited''
          else ''http_'' @ itoa (pe_Status pe)
      | _ \<Rightarrow> ''error'')"

definition request_codes :: "string list" where
  "request_codes =
     [ErrCodeContextLengthExceeded, ErrCodeMultimodalNotSupported, ErrCodeReasoningEffortUnsupported,
      ErrCodeVoiceNotSupported]"

text \<open>The error is non-nil here; \<open>executePlan\<close> asks only about failed attempts.\<close>

definition countsAgainstTier :: "attemptPolicy \<Rightarrow> gerr \<Rightarrow> bool" where
  "countsAgainstTier pol err =
     (if \<not> fallsThrough pol err then False
      else case err of ProviderErr pe \<Rightarrow> pe_Code pe \<notin> set request_codes | _ \<Rightarrow> True)"

section \<open>Breaker thresholds of a tier\<close>

fun pick_layer :: "('o \<Rightarrow> 'v option) \<Rightarrow> 'o list \<Rightarrow> 'v option" where
  "pick_layer get [] = None"
| "pick_layer get (l # ls) = (case get l of Some v \<Rightarrow> Some v | None \<Rightarrow> pick_layer get ls)"

definition less_target :: "target \<Rightarrow> target \<Rightarrow> bool" where
  "less_target a b =
     (if tg_Provider a \<noteq> tg_Provider b then tg_Provider a < tg_Provider b
      else tg_UpstreamModel a < tg_UpstreamModel b)"

definition breaker_targets :: "plan \<Rightarrow> int \<Rightarrow> target list" where
  "breaker_targets p tier =
     filter (\<lambda>t. tg_Tier t = tier \<and> to_Breaker (tg_Options t) \<noteq> None) (concat (pl_Tiers p))"

definition apply_layer :: "('v \<Rightarrow> settings \<Rightarrow> settings) \<Rightarrow> 'v option \<Rightarrow> settings \<Rightarrow> settings" where
  "apply_layer f v s = (case v of None \<Rightarrow> s | Some x \<Rightarrow> f x s)"

definition ms_dur :: "int \<Rightarrow> duration" where "ms_dur v = wrap64 (v * millisecond)"

definition layered_settings :: "breaker_options list \<Rightarrow> settings" where
  "layered_settings layers =
     (let s1 = apply_layer (\<lambda>v. sEnabled_update (\<lambda>_. v)) (pick_layer bo_Enabled layers) Defaults;
          s2 = apply_layer (\<lambda>v. sFailures_update (\<lambda>_. v)) (pick_layer bo_Failures layers) s1;
          s3 = apply_layer (\<lambda>v. sErrorRate_update (\<lambda>_. v)) (pick_layer bo_ErrorRate layers) s2;
          s4 = apply_layer (\<lambda>v. sMinRequests_update (\<lambda>_. v)) (pick_layer bo_MinRequests layers) s3;
          s5 = apply_layer (\<lambda>v. sWindow_update (\<lambda>_. ms_dur v)) (pick_layer bo_WindowMS layers) s4;
          s6 = apply_layer (\<lambda>v. sCooldown_update (\<lambda>_. ms_dur v)) (pick_layer bo_CooldownMS layers) s5;
          s7 = apply_layer (\<lambda>v. sMaxCooldown_update (\<lambda>_. ms_dur v)) (pick_layer bo_MaxCooldownMS layers) s6
      in apply_layer (\<lambda>v. sStable_update (\<lambda>_. ms_dur v)) (pick_layer bo_StableMS layers) s7)"

definition breakerSettings :: "failoverConfig \<Rightarrow> plan \<Rightarrow> int \<Rightarrow> settings" where
  "breakerSettings cfg p tier =
     layered_settings
       (map (\<lambda>t. the (to_Breaker (tg_Options t))) (sort_stable less_target (breaker_targets p tier))
        @ [fc_Breaker cfg])"

section \<open>Fallback accounting\<close>

record tierFallback =
  tf_tier :: int
  tf_reason :: string

text \<open>The counted fallbacks: from tier, to tier (or none), reason.\<close>

fun count_fallbacks :: "int option \<Rightarrow> tierFallback list \<Rightarrow> tierFallback list \<Rightarrow> (string \<times> string \<times> string) list" where
  "count_fallbacks served seen [] = []"
| "count_fallbacks served seen (f # fs) =
     (if f \<in> set seen \<or> served = Some (tf_tier f) then count_fallbacks served seen fs
      else (itoa (tf_tier f), case served of None \<Rightarrow> ''none'' | Some t \<Rightarrow> itoa t, tf_reason f)
             # count_fallbacks served (f # seen) fs)"

definition recordTierFallbacks :: "tierFallback list \<Rightarrow> int option \<Rightarrow> (string \<times> string \<times> string) list" where
  "recordTierFallbacks moved served = count_fallbacks served [] moved"

text \<open>The map of open tiers is the list of its entries in the order of one walk.\<close>

definition soonest_better :: "(int \<times> gotime) list \<Rightarrow> int \<times> gotime \<Rightarrow> int option \<Rightarrow> int option" where
  "soonest_better openUntil e best =
     (case best of
        None \<Rightarrow> Some (fst e)
      | Some tier \<Rightarrow>
          (case map_of openUntil tier of
             None \<Rightarrow> Some tier
           | Some cur \<Rightarrow> if snd e < cur \<or> (snd e = cur \<and> fst e < tier) then Some (fst e) else Some tier))"

definition soonestOpen :: "(int \<times> gotime) list \<Rightarrow> int option" where
  "soonestOpen openUntil = fold (soonest_better openUntil) openUntil None"

section \<open>Marks, session floor and ranking\<close>

definition unavailSource :: "duration option \<Rightarrow> string" where
  "unavailSource retryAfter = (if retryAfter \<noteq> None then ''retry_after'' else ''default_backoff'')"

definition mark_args :: "failoverConfig \<Rightarrow> gerr \<Rightarrow> duration option \<times> duration \<times> duration" where
  "mark_args cfg err =
     (let retryAfter = (case err of ProviderErr pe \<Rightarrow> pe_RetryAfter pe | _ \<Rightarrow> None);
          initialMS = (if fc_UnavailableInitialMS cfg \<le> 0 then defaultUnavailableInitialMS else fc_UnavailableInitialMS cfg);
          maxMS = (if fc_UnavailableMaxMS cfg \<le> 0 then defaultUnavailableMaxMS else fc_UnavailableMaxMS cfg)
      in (retryAfter, wrap64 (initialMS * millisecond), wrap64 (maxMS * millisecond)))"

definition markUnavailable ::
  "'s ukv \<Rightarrow> failoverConfig \<Rightarrow> gotime \<Rightarrow> ukey \<Rightarrow> gerr \<Rightarrow> 's ustore \<Rightarrow> duration \<times> 's ustore" where
  "markUnavailable K cfg now k err s =
     (case mark_args cfg err of (retryAfter, initial, mx) \<Rightarrow> unavail_Mark K now k retryAfter initial mx s)"

definition sessionFloor ::
  "'s akv \<Rightarrow> (string \<Rightarrow> string) \<Rightarrow> gotime \<Rightarrow> gotime \<Rightarrow> bool \<Rightarrow> plan \<Rightarrow> string \<Rightarrow> 's astore \<Rightarrow> int option \<times> 's astore" where
  "sessionFloor K sha now wall ctxDone p session s =
     (if \<not> pl_SessionAffinity p \<or> session = [] then (None, s)
      else let k = \<lparr>ak_alias = pl_Alias p, ak_session = session\<rparr>
           in case Pinned K sha now wall ctxDone k s of
                (None, s1) \<Rightarrow> (None, s1)
              | (Some lo, s1) \<Rightarrow>
                  if \<exists>t \<in> set (concat (pl_Tiers p)). tg_Tier t \<ge> lo then (Some lo, s1)
                  else (None, Forget K sha wall ctxDone k s1))"

definition pinSession ::
  "'s akv \<Rightarrow> (string \<Rightarrow> string) \<Rightarrow> gotime \<Rightarrow> gotime \<Rightarrow> plan \<Rightarrow> string \<Rightarrow> int \<Rightarrow> 's astore \<Rightarrow> 's astore" where
  "pinSession K sha now wall p session tier s =
     (case pl_Tiers p of
        ((t0 # _) # _) \<Rightarrow>
          if \<not> pl_SessionAffinity p \<or> session = [] \<or> tier \<le> tg_Tier t0 then s
          else snd (Pin K sha now wall False \<lparr>ak_alias = pl_Alias p, ak_session = session\<rparr> tier
                      (pl_SessionAffinityTTL p) s)
      | _ \<Rightarrow> s)"

definition maxClientSessionLen :: nat where "maxClientSessionLen = 128"

definition withClientSession :: "string \<Rightarrow> string" where
  "withClientSession hdr = (if length hdr > maxClientSessionLen then take maxClientSessionLen hdr else hdr)"

definition buildLCRRank :: "(string \<Rightarrow> string \<Rightarrow> rat option) \<Rightarrow> (lkey \<rightharpoonup> rat) \<Rightarrow> target \<Rightarrow> lcr_rank" where
  "buildLCRRank priceOf avail t =
     \<lparr>rk_Price = (case priceOf (tg_Provider t) (tg_UpstreamModel t) of Some r \<Rightarrow> Priced r | None \<Rightarrow> Unpriced),
      rk_Availability = (case avail \<lparr>lk_Provider = tg_Provider t, lk_UpstreamModel = tg_UpstreamModel t\<rparr> of
                           Some a \<Rightarrow> a | None \<Rightarrow> 1)\<rparr>"

text \<open>Without the \<open>lcr\<close> strategy there is no ranking and the order ignores it.\<close>

definition lcrRank :: "'s lkv \<Rightarrow> gotime \<Rightarrow> 'h price_table \<Rightarrow> plan \<Rightarrow> 's lstore \<Rightarrow> (target \<Rightarrow> lcr_rank) \<times> 's lstore" where
  "lcrRank K wall prices p s =
     (if pl_Strategy p \<noteq> ''lcr'' then (\<lambda>_. \<lparr>rk_Price = Unpriced, rk_Availability = 1\<rparr>, s)
      else let keys = map (\<lambda>t. \<lparr>lk_Provider = tg_Provider t, lk_UpstreamModel = tg_UpstreamModel t\<rparr>)
                        (concat (pl_Tiers p));
               (avail, s') = (if pl_LCRMode p \<noteq> ''price''
                              then (case Snapshot K wall keys s of (a, s1) \<Rightarrow> (\<lambda>k. if k \<in> set keys then Some (a k) else None, s1))
                              else (Map.empty, s))
           in (buildLCRRank (Rate prices) avail, s'))"

definition freeFunc :: "'p registry \<Rightarrow> string \<Rightarrow> int" where
  "freeFunc reg name = (case registry_Get reg name of Some e \<Rightarrow> Free e | None \<Rightarrow> - 1)"

section \<open>Thresholds do not depend on the catalog's order\<close>

abbreviation target_key :: "target \<Rightarrow> string \<times> string" where
  "target_key t \<equiv> (tg_Provider t, tg_UpstreamModel t)"

interpretation bytarget: weak_order less_target
  unfolding less_target_def by (rule weak_order_lex [OF weak_order_key])

lemma less_target_key: "less_target a b \<longleftrightarrow> target_key a < target_key b"
  by (auto simp: less_target_def less_prod_def)

lemma sorted_target_keys: "sorted (map target_key (sort_stable less_target ts))"
  using bytarget.sort_ordered [of ts] unfolding sorted_wrt_map less_target_key linorder_not_less .

lemma sort_targets_unique:
  assumes "mset ts = mset us" and "inj_on target_key (set ts)"
  shows "sort_stable less_target ts = sort_stable less_target us"
proof -
  have "sort_key target_key ts = sort_stable less_target vs" if "mset ts = mset vs" for vs
    using that sorted_target_keys [of vs] by (intro sort_key_inj_key_eq [OF _ assms(2)]) simp_all
  from this [of ts] this [of us] assms(1) show ?thesis by simp
qed

lemma breaker_targets_mset:
  assumes "mset (concat (pl_Tiers p)) = mset (concat (pl_Tiers q))"
  shows "mset (breaker_targets p tier) = mset (breaker_targets q tier)"
  using assms by (simp only: breaker_targets_def mset_filter)

text \<open>
  The thresholds of a tier do not depend on the order the catalog returned its targets
  in, as long as no two targets of the tier with thresholds of their own name the same upstream
  model of the same provider.
\<close>
theorem breaker_settings_order_independent:
  assumes "mset (concat (pl_Tiers p)) = mset (concat (pl_Tiers q))"
    and "inj_on target_key (set (breaker_targets p tier))"
  shows "breakerSettings cfg p tier = breakerSettings cfg q tier"
  using sort_targets_unique [OF breaker_targets_mset [OF assms(1)] assms(2)]
  by (simp add: breakerSettings_def)

definition demo_breaker :: "string \<Rightarrow> int \<Rightarrow> target" where
  "demo_breaker model n =
     (demo_target ''p'')\<lparr>tg_UpstreamModel := model, tg_Tier := 1,
        tg_Options := no_options\<lparr>to_Breaker := Some (no_breaker_options\<lparr>bo_Failures := Some n\<rparr>)\<rparr>\<rparr>"

definition demo_plan :: "target list \<Rightarrow> plan" where
  "demo_plan ts = \<lparr>pl_Alias = ''a'', pl_Strategy = ''round_robin'', pl_DLPModelScan = False,
     pl_ExposeBackendHeaders = False, pl_DLPAudioScan = False, pl_Tiers = [ts], pl_SessionAffinity = False,
     pl_SessionAffinityTTL = 0, pl_SynthesisCache = False, pl_SynthesisCacheTTL = 0, pl_LCRMode = [],
     pl_LCRMinAvailability = 0\<rparr>"

theorem breaker_settings_order_independent_witness:
  "breakerSettings zero_failover (demo_plan [demo_breaker ''b'' 7, demo_breaker ''a'' 5]) 1
   = breakerSettings zero_failover (demo_plan [demo_breaker ''a'' 5, demo_breaker ''b'' 7]) 1"
  by (rule breaker_settings_order_independent)
    (simp_all add: demo_plan_def breaker_targets_def demo_breaker_def add_mset_commute inj_on_def)

text \<open>
  With two targets of one tier on the same upstream model the catalog's order decides: the
  first of them in that order gives the threshold.
\<close>
theorem breaker_settings_duplicates:
  "sFailures (breakerSettings zero_failover (demo_plan [demo_breaker ''a'' 5, demo_breaker ''a'' 7]) 1) = 5
   \<and> sFailures (breakerSettings zero_failover (demo_plan [demo_breaker ''a'' 7, demo_breaker ''a'' 5]) 1) = 7"
  by (simp add: breakerSettings_def breaker_targets_def demo_plan_def demo_breaker_def less_target_def
      layered_settings_def apply_layer_def no_breaker_options_def zero_failover_def)

section \<open>The forced probe\<close>

abbreviation sooner :: "int \<times> gotime \<Rightarrow> int \<times> gotime \<Rightarrow> bool" where
  "sooner a b \<equiv> snd a < snd b \<or> (snd a = snd b \<and> fst a \<le> fst b)"

lemma soonest_fold:
  assumes "distinct (map fst m)" and "set ys \<subseteq> set m"
    and "case best of None \<Rightarrow> xs = [] | Some t \<Rightarrow> \<exists>e \<in> set m. fst e = t \<and> (\<forall>x \<in> set xs. sooner e x)"
  shows "case fold (soonest_better m) ys best of
      None \<Rightarrow> xs @ ys = []
    | Some t \<Rightarrow> \<exists>e \<in> set m. fst e = t \<and> (\<forall>x \<in> set (xs @ ys). sooner e x)"
  using assms(2,3)
proof (induction ys arbitrary: best xs)
  case (Cons y ys)
  have y: "y \<in> set m" using Cons.prems(1) by simp
  have step: "case soonest_better m y best of
      None \<Rightarrow> xs @ [y] = []
    | Some t \<Rightarrow> \<exists>e \<in> set m. fst e = t \<and> (\<forall>x \<in> set (xs @ [y]). sooner e x)"
  proof (cases best)
    case None
    then show ?thesis using Cons.prems(2) y by (auto simp: soonest_better_def)
  next
    case (Some t)
    then obtain e where e: "e \<in> set m" "fst e = t" and le: "\<forall>x \<in> set xs. sooner e x"
      using Cons.prems(2) by auto
    have "map_of m t = Some (snd e)" using e assms(1) by (metis map_of_eq_Some_iff prod.collapse)
    then show ?thesis using Some e le y by (fastforce simp: soonest_better_def)
  qed
  have app: "(xs @ [y]) @ ys = xs @ y # ys" by simp
  from Cons.prems(1) have "set ys \<subseteq> set m" by simp
  from Cons.IH [OF this step] show ?case unfolding app by (simp only: fold_simps)
qed (auto split: option.splits)

text \<open>
  The tier a request forces a probe on is the open one whose cooldown ends first, the
  lowest tier on a tie, whatever order Go walks the map of open tiers in; there is one whenever any
  tier is open.
\<close>
theorem soonest_open_spec:
  assumes "distinct (map fst m)"
  shows "(soonestOpen m = None \<longleftrightarrow> m = [])
    \<and> (\<forall>t. soonestOpen m = Some t \<longrightarrow>
          (\<exists>at'. (t, at') \<in> set m \<and> (\<forall>(u, bt) \<in> set m. at' < bt \<or> (at' = bt \<and> t \<le> u))))
    \<and> (\<forall>m'. mset m' = mset m \<longrightarrow> soonestOpen m' = soonestOpen m)"
proof -
  have spec: "case soonestOpen m of None \<Rightarrow> m = []
      | Some t \<Rightarrow> \<exists>e \<in> set m. fst e = t \<and> (\<forall>x \<in> set m. sooner e x)" if "distinct (map fst m)" for m
    unfolding soonestOpen_def by (rule soonest_fold [OF that order_refl, of "[]" None, unfolded append_Nil]) simp
  have perm: "soonestOpen m' = soonestOpen m" if eq: "mset m' = mset m" for m'
  proof -
    have d': "distinct (map fst m')" using eq assms by (metis mset_eq_imp_distinct_iff mset_map)
    have st: "set m' = set m" using eq by (metis set_mset_mset)
    show ?thesis
    proof (cases "soonestOpen m")
      case None
      then show ?thesis using spec [OF assms] spec [OF d'] st by (auto split: option.splits)
    next
      case (Some t)
      from spec [OF assms, unfolded Some option.case]
      obtain e where e: "e \<in> set m" "fst e = t" "\<forall>x \<in> set m. sooner e x" by blast
      have "m' \<noteq> []" using e(1) st by auto
      with spec [OF d'] obtain u where u: "soonestOpen m' = Some u" by (cases "soonestOpen m'") simp_all
      from spec [OF d', unfolded u option.case]
      obtain f where f: "f \<in> set m'" "fst f = u" "\<forall>x \<in> set m'. sooner f x" by blast
      have "sooner e f" "sooner f e" using e(1,3) f(1,3) st by blast+
      then have "fst e = fst f" by linarith
      then show ?thesis using Some e(2) f(2) u by simp
    qed
  qed
  have none: "soonestOpen m = None \<longleftrightarrow> m = []"
    using spec [OF assms] by (cases "soonestOpen m") (auto simp: soonestOpen_def)
  have some: "\<exists>at'. (t, at') \<in> set m \<and> (\<forall>(u, bt) \<in> set m. at' < bt \<or> (at' = bt \<and> t \<le> u))"
    if t: "soonestOpen m = Some t" for t
  proof -
    from spec [OF assms, unfolded t option.case]
    obtain e where "e \<in> set m" "fst e = t" "\<forall>x \<in> set m. sooner e x" by blast
    then show ?thesis by (intro exI [of _ "snd e"]) auto
  qed
  show ?thesis using none some perm by blast
qed

theorem soonest_open_spec_witness:
  "soonestOpen [(2, 30), (0, 10), (1, 10)] = Some 0 \<and> soonestOpen [(1, 10), (0, 10), (2, 30)] = Some 0"
proof -
  have d: "distinct (map fst [(2 :: int, 30 :: int), (0, 10), (1, 10)])" by simp
  have "soonestOpen [(2, 30), (0, 10), (1, 10)] = Some 0"
    by (simp add: soonestOpen_def soonest_better_def)
  moreover have "mset [(1 :: int, 10 :: int), (0, 10), (2, 30)] = mset [(2, 30), (0, 10), (1, 10)]" by simp
  ultimately show ?thesis using soonest_open_spec [OF d] by metis
qed

end
