(* ===== verification/Executor.thy ===== *)
theory Executor
  imports TierPolicy
begin

text \<open>
  The failover executor (\<open>executePlan\<close> and \<open>runAttempt\<close> in \<open>internal/httpapi/failover.go\<close>): the walk over a
  plan's targets with its breaker admissions, unavailability marks, concurrency slots, time budgets,
  busy retries and the forced probe of last resort.

  The shared state is the state of the components the server owns, with their own operations. Between
  any two steps other requests may change it arbitrarily (\<open>xe_other\<close>); what an upstream call does is an
  oracle (\<open>xe_call\<close>): the commits it asks for and the timer, in their order, and the error it returns.
  Time, the request's cancellation and both of these are indexed by a step counter. The failover
  settings are read once per request. The log lists what the request did, in order.
\<close>

section \<open>One attempt under a time budget\<close>

datatype attempt_state = AttemptPending | AttemptCommitted | AttemptExpired | AttemptReturned

datatype attempt_event = EvTimer | EvCommit

text \<open>Each event is a compare-and-swap from the pending state; a timer exists only with a budget.\<close>

fun attempt_step :: "duration \<Rightarrow> attempt_event \<Rightarrow> attempt_state \<Rightarrow> attempt_state" where
  "attempt_step budget EvTimer st = (if budget > 0 \<and> st = AttemptPending then AttemptExpired else st)"
| "attempt_step budget EvCommit st = (if st = AttemptPending then AttemptCommitted else st)"

text \<open>What \<open>commit\<close> reports to the call.\<close>

definition commit_result :: "attempt_state \<Rightarrow> bool" where
  "commit_result st \<longleftrightarrow> attempt_step 0 EvCommit st = AttemptCommitted"

definition tier_timeout :: "(duration \<Rightarrow> string) \<Rightarrow> string \<Rightarrow> duration \<Rightarrow> gerr" where
  "tier_timeout fmt provider budget =
     ProviderErr \<lparr>pe_Status = 504, pe_Retryable = True, pe_Code = errCodeTierTimeout,
       pe_Message = ''upstream '' @ provider @ '' did not answer within '' @ fmt budget, pe_RetryAfter = None\<rparr>"

text \<open>
  \<open>evs\<close> happen before the call returns \<open>ret\<close> (\<open>None\<close> is success), \<open>ctxDone\<close> is whether the request itself
  was cancelled by then. The result is whether the attempt committed, and its error.
\<close>

definition runAttempt ::
  "(duration \<Rightarrow> string) \<Rightarrow> string \<Rightarrow> duration \<Rightarrow> bool \<Rightarrow> attempt_event list \<Rightarrow> gerr option \<Rightarrow> bool \<times> gerr option" where
  "runAttempt fmt provider budget ctxDone evs ret =
     (let st = fold (attempt_step budget) evs AttemptPending;
          returnedFirst = (st = AttemptPending);
          st' = (if returnedFirst then AttemptReturned else st);
          err = (if ret \<noteq> None \<and> \<not> returnedFirst \<and> st' = AttemptExpired \<and> \<not> ctxDone
                 then Some (tier_timeout fmt provider budget) else ret)
      in (st' = AttemptCommitted, err))"

section \<open>State of a request\<close>

record ('p, 'r, 'u, 'a, 'l) gateway =
  gw_reg :: "'p registry"
  gw_breaker :: "'r breaker"
  gw_unavail :: "'u ustore"
  gw_affinity :: "'a astore"
  gw_lcr :: "'l lstore"
  gw_router :: router

record execResult =
  xr_Target :: target
  xr_Attempts :: int
  xr_Session :: string
  xr_Cache :: string

definition zero_target :: target where
  "zero_target = \<lparr>tg_Provider = [], tg_UpstreamModel = [], tg_UpstreamProtocol = [], tg_DisplayLabel = [],
     tg_Options = no_options, tg_Tier = 0\<rparr>"

datatype xevent =
    XAdmit bkey bool admission
  | XAbandon bkey
  | XRecord bkey bool bool
  | XAcquire string
  | XCall target bool "gerr option"
  | XRelease string
  | XMark ukey
  | XAvail lkey bool
  | XSkipped int string
  | XOutcome int string

record ('p, 'r, 'u, 'a, 'l) xstate =
  xs_gw :: "('p, 'r, 'u, 'a, 'l) gateway"
  xs_tick :: nat
  xs_res :: execResult
  xs_lastErr :: "gerr option"
  xs_skipErr :: "gerr option"
  xs_moved :: "tierFallback list"
  xs_quarantined :: bool
  xs_unavailable :: bool
  xs_openUntil :: "(int \<times> gotime) list"
  xs_sawBusy :: bool
  xs_anyBusy :: bool
  xs_forced :: "int option"
  xs_forcedCall :: bool
  xs_log :: "xevent list"

record ('p, 'r, 'u, 'a, 'l, 'h) xenv =
  xe_brk :: "'r rdb_ops"
  xe_unv :: "'u ukv"
  xe_aff :: "'a akv"
  xe_lcr :: "'l lkv"
  xe_sha :: "string \<Rightarrow> string"
  xe_fmt :: "duration \<Rightarrow> string"
  xe_cfg :: failoverConfig
  xe_prices :: "'h price_table"
  xe_supports :: "'p \<Rightarrow> gerr option"
  xe_now :: "nat \<Rightarrow> gotime"
  xe_wall :: "nat \<Rightarrow> gotime"
  xe_ctx :: "nat \<Rightarrow> bool"
  xe_call :: "nat \<Rightarrow> 'p \<Rightarrow> target \<Rightarrow> attempt_event list \<times> gerr option"
  xe_other :: "nat \<Rightarrow> ('p, 'r, 'u, 'a, 'l) gateway \<Rightarrow> ('p, 'r, 'u, 'a, 'l) gateway"

text \<open>Time passes and other requests run.\<close>

definition tick :: "('p,'r,'u,'a,'l,'h) xenv \<Rightarrow> ('p,'r,'u,'a,'l) xstate \<Rightarrow> ('p,'r,'u,'a,'l) xstate" where
  "tick E st = st\<lparr>xs_gw := xe_other E (xs_tick st) (xs_gw st), xs_tick := Suc (xs_tick st)\<rparr>"

definition log_ev :: "xevent \<Rightarrow> ('p,'r,'u,'a,'l) xstate \<Rightarrow> ('p,'r,'u,'a,'l) xstate" where
  "log_ev e st = st\<lparr>xs_log := xs_log st @ [e]\<rparr>"

text \<open>The context of a component call; \<open>detached\<close> is \<open>context.WithoutCancel\<close>.\<close>

definition brk_env :: "('p,'r,'u,'a,'l,'h) xenv \<Rightarrow> bool \<Rightarrow> ('p,'r,'u,'a,'l) xstate \<Rightarrow> env" where
  "brk_env E detached st =
     \<lparr>eNow = xe_now E (xs_tick st), eWall = xe_wall E (xs_tick st),
      eCtxDone = (\<not> detached \<and> xe_ctx E (xs_tick st))\<rparr>"

definition with_breaker ::
  "('r breaker \<Rightarrow> 'r breaker) \<Rightarrow> ('p,'r,'u,'a,'l) xstate \<Rightarrow> ('p,'r,'u,'a,'l) xstate" where
  "with_breaker f st = st\<lparr>xs_gw := (xs_gw st)\<lparr>gw_breaker := f (gw_breaker (xs_gw st))\<rparr>\<rparr>"

definition abandon_probe ::
  "('p,'r,'u,'a,'l,'h) xenv \<Rightarrow> bool \<Rightarrow> bkey \<Rightarrow> settings \<Rightarrow> admission \<Rightarrow> ('p,'r,'u,'a,'l) xstate \<Rightarrow> ('p,'r,'u,'a,'l) xstate" where
  "abandon_probe E detached key cfg adm st =
     (if aProbe adm
      then log_ev (XAbandon key)
             (with_breaker (\<lambda>b. breaker_abandon (xe_brk E) (brk_env E detached st) b key cfg) st)
      else st)"

definition record_outcome ::
  "('p,'r,'u,'a,'l,'h) xenv \<Rightarrow> bkey \<Rightarrow> settings \<Rightarrow> admission \<Rightarrow> bool \<Rightarrow> ('p,'r,'u,'a,'l) xstate \<Rightarrow> ('p,'r,'u,'a,'l) xstate" where
  "record_outcome E key cfg adm failed st =
     log_ev (XOutcome (kTier key) (if failed then ''failure'' else ''success''))
       (log_ev (XRecord key failed (aProbe adm))
         (with_breaker (\<lambda>b. breaker_record (xe_brk E) (brk_env E False st) b key cfg failed (aProbe adm)) st))"

definition record_avail ::
  "('p,'r,'u,'a,'l,'h) xenv \<Rightarrow> plan \<Rightarrow> target \<Rightarrow> bool \<Rightarrow> ('p,'r,'u,'a,'l) xstate \<Rightarrow> ('p,'r,'u,'a,'l) xstate" where
  "record_avail E p t success st =
     (if pl_Strategy p = ''lcr''
      then let k = \<lparr>lk_Provider = tg_Provider t, lk_UpstreamModel = tg_UpstreamModel t\<rparr>
           in log_ev (XAvail k success)
                (st\<lparr>xs_gw := (xs_gw st)\<lparr>gw_lcr := lcr_record (xe_lcr E) (xe_wall E (xs_tick st)) k success
                                                 (gw_lcr (xs_gw st))\<rparr>\<rparr>)
      else st)"

definition reg_acquire :: "string \<Rightarrow> ('p,'r,'u,'a,'l) xstate \<Rightarrow> bool \<times> ('p,'r,'u,'a,'l) xstate" where
  "reg_acquire name st =
     (case gw_reg (xs_gw st) name of
        None \<Rightarrow> (False, st)
      | Some e \<Rightarrow>
          (case Acquire e of (e', ok) \<Rightarrow>
             (ok, st\<lparr>xs_gw := (xs_gw st)\<lparr>gw_reg := (gw_reg (xs_gw st))(name \<mapsto> e')\<rparr>\<rparr>)))"

definition reg_release :: "string \<Rightarrow> ('p,'r,'u,'a,'l) xstate \<Rightarrow> ('p,'r,'u,'a,'l) xstate" where
  "reg_release name st =
     (case gw_reg (xs_gw st) name of
        None \<Rightarrow> st
      | Some e \<Rightarrow> st\<lparr>xs_gw := (xs_gw st)\<lparr>gw_reg := (gw_reg (xs_gw st))(name \<mapsto> Release e)\<rparr>\<rparr>)"

section \<open>One target\<close>

text \<open>The walk goes on with the next target, or the request ends.\<close>

datatype 'x ctl = Next 'x | Stop 'x bool "gerr option"

fun ctl_state :: "'x ctl \<Rightarrow> 'x" where
  "ctl_state (Next st) = st"
| "ctl_state (Stop st started err) = st"

definition record_success ::
  "('p,'r,'u,'a,'l,'h) xenv \<Rightarrow> plan \<Rightarrow> target \<Rightarrow> bkey \<Rightarrow> settings \<Rightarrow> admission \<Rightarrow> ('p,'r,'u,'a,'l) xstate \<Rightarrow> ('p,'r,'u,'a,'l) xstate" where
  "record_success E p t key cfg adm st = record_avail E p t True (record_outcome E key cfg adm False st)"

text \<open>The verdict on a failed, uncommitted attempt whose request is still there.\<close>

definition judge_failure ::
  "('p,'r,'u,'a,'l,'h) xenv \<Rightarrow> plan \<Rightarrow> target \<Rightarrow> bkey \<Rightarrow> settings \<Rightarrow> admission \<Rightarrow> attemptPolicy \<Rightarrow> gerr
     \<Rightarrow> ('p,'r,'u,'a,'l) xstate \<Rightarrow> ('p,'r,'u,'a,'l) xstate" where
  "judge_failure E p t key cfg adm pol err st =
     (if countsAgainstTier pol err
      then let uk = \<lparr>uk_Provider = tg_Provider t, uk_UpstreamModel = tg_UpstreamModel t\<rparr>;
               st1 = record_outcome E key cfg adm True st;
               st2 = log_ev (XMark uk)
                       (st1\<lparr>xs_gw := (xs_gw st1)\<lparr>gw_unavail :=
                          snd (markUnavailable (xe_unv E) (xe_cfg E) (xe_now E (xs_tick st1)) uk err
                                 (gw_unavail (xs_gw st1)))\<rparr>\<rparr>)
           in record_avail E p t False st2
      else log_ev (XOutcome (tg_Tier t) ''request_error'') (abandon_probe E False key cfg adm st))"

text \<open>What follows the call: \<open>committed\<close> and \<open>callErr\<close> are what \<open>runAttempt\<close> returned; success was recorded at the commit.\<close>

definition after_call ::
  "('p,'r,'u,'a,'l,'h) xenv \<Rightarrow> plan \<Rightarrow> target \<Rightarrow> bkey \<Rightarrow> settings \<Rightarrow> admission \<Rightarrow> attemptPolicy \<Rightarrow> bool \<Rightarrow> gerr option
     \<Rightarrow> ('p,'r,'u,'a,'l) xstate \<Rightarrow> ('p,'r,'u,'a,'l) xstate ctl" where
  "after_call E p t key cfg adm pol committed callErr st =
     (case callErr of
        None \<Rightarrow> Stop (if committed then st else record_success E p t key cfg adm st) committed None
      | Some err \<Rightarrow>
          if err = ErrServedWithoutCall
          then Stop ((abandon_probe E False key cfg adm st)
                       \<lparr>xs_res := (xs_res st)\<lparr>xr_Attempts := xr_Attempts (xs_res st) - 1\<rparr>\<rparr>) committed None
          else if committed then Stop st True (Some err)
          else if xe_ctx E (xs_tick st)
          then Stop (abandon_probe E True key cfg adm st) committed (Some err)
          else (let st1 = (judge_failure E p t key cfg adm pol err st)\<lparr>xs_lastErr := Some err\<rparr>
                in if \<not> fallsThrough pol err then Stop st1 False (Some err)
                   else Next (st1\<lparr>xs_moved := xs_moved st1
                          @ [\<lparr>tf_tier = tg_Tier t, tf_reason = attemptFailureReason err\<rparr>]\<rparr>)))"

definition attempt_stage ::
  "('p,'r,'u,'a,'l,'h) xenv \<Rightarrow> plan \<Rightarrow> target \<Rightarrow> 'p \<Rightarrow> bkey \<Rightarrow> settings \<Rightarrow> admission \<Rightarrow> attemptPolicy
     \<Rightarrow> ('p,'r,'u,'a,'l) xstate \<Rightarrow> ('p,'r,'u,'a,'l) xstate ctl" where
  "attempt_stage E p t prov key cfg adm pol st0 =
     (let st1 = tick E (log_ev (XAcquire (tg_Provider t)) (st0\<lparr>
            xs_res := (xs_res st0)\<lparr>xr_Attempts := xr_Attempts (xs_res st0) + 1\<rparr>,
            xs_forcedCall := (xs_forced st0 \<noteq> None)\<rparr>));
          (evs, ret) = xe_call E (xs_tick st1) prov t;
          (committed, callErr) = runAttempt (xe_fmt E) (tg_Provider t) (ap_budget pol) (xe_ctx E (xs_tick st1)) evs ret;
          st2 = log_ev (XCall t committed callErr) st1;
          st3 = (if committed then record_success E p t key cfg adm st2 else st2);
          st4 = log_ev (XRelease (tg_Provider t)) (reg_release (tg_Provider t) st3)
      in after_call E p t key cfg adm pol committed callErr st4)"

definition acquire_stage ::
  "('p,'r,'u,'a,'l,'h) xenv \<Rightarrow> plan \<Rightarrow> target \<Rightarrow> 'p \<Rightarrow> bkey \<Rightarrow> settings \<Rightarrow> admission \<Rightarrow> attemptPolicy
     \<Rightarrow> ('p,'r,'u,'a,'l) xstate \<Rightarrow> ('p,'r,'u,'a,'l) xstate ctl" where
  "acquire_stage E p t prov key cfg adm pol st =
     (case reg_acquire (tg_Provider t) st of
        (True, st1) \<Rightarrow> attempt_stage E p t prov key cfg adm pol st1
      | (False, st1) \<Rightarrow>
          Next ((abandon_probe E True key cfg adm st1)\<lparr>xs_anyBusy := True, xs_sawBusy := True\<rparr>))"

definition unavail_stage ::
  "('p,'r,'u,'a,'l,'h) xenv \<Rightarrow> plan \<Rightarrow> target \<Rightarrow> 'p \<Rightarrow> bkey \<Rightarrow> settings \<Rightarrow> admission \<Rightarrow> attemptPolicy
     \<Rightarrow> ('p,'r,'u,'a,'l) xstate \<Rightarrow> ('p,'r,'u,'a,'l) xstate ctl" where
  "unavail_stage E p t prov key cfg adm pol st =
     (let uk = \<lparr>uk_Provider = tg_Provider t, uk_UpstreamModel = tg_UpstreamModel t\<rparr>;
          (remaining, u') = unavail_Check (xe_unv E) (xe_now E (xs_tick st)) uk (gw_unavail (xs_gw st));
          st1 = st\<lparr>xs_gw := (xs_gw st)\<lparr>gw_unavail := u'\<rparr>\<rparr>
      in if remaining \<noteq> None
         then (let st2 = abandon_probe E True key cfg adm st1
               in Next (log_ev (XSkipped (tg_Tier t) ''unavailable'') (st2\<lparr>xs_unavailable := True,
                     xs_moved := xs_moved st2 @ [\<lparr>tf_tier = tg_Tier t, tf_reason = ''unavailable''\<rparr>]\<rparr>)))
         else acquire_stage E p t prov key cfg adm pol st1)"

definition set_open :: "int \<Rightarrow> gotime \<Rightarrow> (int \<times> gotime) list \<Rightarrow> (int \<times> gotime) list" where
  "set_open tier til m = (tier, til) # filter (\<lambda>e. fst e \<noteq> tier) m"

definition admit_stage ::
  "('p,'r,'u,'a,'l,'h) xenv \<Rightarrow> plan \<Rightarrow> target \<Rightarrow> 'p \<Rightarrow> ('p,'r,'u,'a,'l) xstate \<Rightarrow> ('p,'r,'u,'a,'l) xstate ctl" where
  "admit_stage E p t prov st =
     (let pol = policyFor (xe_cfg E) t;
          key = \<lparr>kAlias = pl_Alias p, kTier = tg_Tier t\<rparr>;
          cfg = (breakerSettings (xe_cfg E) p (tg_Tier t))\<lparr>sProbeLease := ap_budget pol + second\<rparr>;
          force = (xs_forced st \<noteq> None);
          (adm, b') = breaker_admit (xe_brk E) (brk_env E False st) (gw_breaker (xs_gw st)) key cfg force;
          st1 = log_ev (XAdmit key force adm) (with_breaker (\<lambda>_. b') st)
      in if aSkip adm
         then (if force then Next st1
               else Next (log_ev (XSkipped (tg_Tier t) ''quarantined'') (st1\<lparr>xs_quarantined := True,
                      xs_moved := xs_moved st1 @ [\<lparr>tf_tier = tg_Tier t, tf_reason = ''quarantined''\<rparr>],
                      xs_openUntil := (case aOpenUntil adm of
                                         None \<Rightarrow> xs_openUntil st1
                                       | Some til \<Rightarrow> set_open (tg_Tier t) til (xs_openUntil st1))\<rparr>)))
         else unavail_stage E p t prov key cfg adm pol st1)"

text \<open>Whether the walk passes over a target without looking at it.\<close>

definition passed_over :: "int option \<Rightarrow> target \<Rightarrow> ('p,'r,'u,'a,'l) xstate \<Rightarrow> bool" where
  "passed_over lo t st \<longleftrightarrow>
     (case lo of None \<Rightarrow> False | Some f \<Rightarrow> tg_Tier t < f)
     \<or> (case xs_forced st of None \<Rightarrow> False | Some f \<Rightarrow> tg_Tier t \<noteq> f \<or> xs_forcedCall st)"

definition visit ::
  "('p,'r,'u,'a,'l,'h) xenv \<Rightarrow> plan \<Rightarrow> int option \<Rightarrow> target \<Rightarrow> ('p,'r,'u,'a,'l) xstate \<Rightarrow> ('p,'r,'u,'a,'l) xstate ctl" where
  "visit E p lo t st0 =
     (if passed_over lo t st0 then Next st0
      else let st = tick E (st0\<lparr>xs_res := (xs_res st0)\<lparr>xr_Target := t\<rparr>\<rparr>)
           in case registry_Get (gw_reg (xs_gw st)) (tg_Provider t) of
                None \<Rightarrow> Next (st\<lparr>xs_lastErr := Some (ErrOther (''provider '' @ tg_Provider t @ '' not registered''))\<rparr>)
              | Some e \<Rightarrow>
                  (case xe_supports E (en_Provider e) of
                     Some err \<Rightarrow> Next (st\<lparr>xs_skipErr := Some err\<rparr>)
                   | None \<Rightarrow> admit_stage E p t (en_Provider e) st))"

section \<open>The walk\<close>

fun visit_all ::
  "('p,'r,'u,'a,'l,'h) xenv \<Rightarrow> plan \<Rightarrow> int option \<Rightarrow> target list \<Rightarrow> ('p,'r,'u,'a,'l) xstate \<Rightarrow> ('p,'r,'u,'a,'l) xstate ctl" where
  "visit_all E p lo [] st = Next st"
| "visit_all E p lo (t # ts) st =
     (case visit E p lo t st of
        Next st' \<Rightarrow> visit_all E p lo ts st'
      | Stop st' started err \<Rightarrow> Stop st' started err)"

text \<open>\<open>busyRetries + 1\<close> rounds at most; \<open>n\<close> is how many are left.\<close>

definition busyRetries :: nat where "busyRetries = 4"

definition next_round ::
  "plan \<Rightarrow> (target \<Rightarrow> lcr_rank) \<Rightarrow> ('p,'r,'u,'a,'l) xstate \<Rightarrow> target list \<times> ('p,'r,'u,'a,'l) xstate" where
  "next_round p rank st =
     (let (router', rr) = NextRR (pl_Alias p) (gw_router (xs_gw st));
          st' = st\<lparr>xs_anyBusy := False, xs_gw := (xs_gw st)\<lparr>gw_router := router'\<rparr>\<rparr>
      in (Ordered p rr (freeFunc (gw_reg (xs_gw st'))) rank, st'))"

fun rounds ::
  "('p,'r,'u,'a,'l,'h) xenv \<Rightarrow> plan \<Rightarrow> int option \<Rightarrow> (target \<Rightarrow> lcr_rank) \<Rightarrow> nat \<Rightarrow> ('p,'r,'u,'a,'l) xstate
     \<Rightarrow> ('p,'r,'u,'a,'l) xstate ctl" where
  "rounds E p lo rank 0 st = Next st"
| "rounds E p lo rank (Suc n) st0 =
     (let (ts, st) = next_round p rank st0
      in case visit_all E p lo ts st of
           Stop st' started err \<Rightarrow> Stop st' started err
         | Next st' \<Rightarrow>
             if \<not> xs_anyBusy st' then Next st'
             else let st'' = tick E st'
                  in if xe_ctx E (xs_tick st'') then Stop st'' False (Some ErrCanceled)
                     else rounds E p lo rank n st'')"

text \<open>The second pass: a forced probe, when the breaker alone left the request without a call.\<close>

definition passes ::
  "('p,'r,'u,'a,'l,'h) xenv \<Rightarrow> plan \<Rightarrow> int option \<Rightarrow> (target \<Rightarrow> lcr_rank) \<Rightarrow> ('p,'r,'u,'a,'l) xstate \<Rightarrow> ('p,'r,'u,'a,'l) xstate ctl" where
  "passes E p lo rank st0 =
     (case rounds E p lo rank (Suc busyRetries) st0 of
        Stop st started err \<Rightarrow> Stop st started err
      | Next st \<Rightarrow>
          if xs_sawBusy st \<or> xr_Attempts (xs_res st) > 0 then Next st
          else (case soonestOpen (xs_openUntil st) of
                  None \<Rightarrow> Next st
                | Some tier \<Rightarrow> rounds E p lo rank (Suc busyRetries) (st\<lparr>xs_forced := Some tier\<rparr>)))"

definition final_error :: "('p,'r,'u,'a,'l) xstate \<Rightarrow> gerr" where
  "final_error st =
     (case xs_lastErr st of
        Some e \<Rightarrow> e
      | None \<Rightarrow>
          if xs_sawBusy st then ErrAllBusyTargets
          else if xs_quarantined st then ErrAllQuarantined
          else if xs_unavailable st then ErrAllUnavailable
          else (case xs_skipErr st of Some e \<Rightarrow> e | None \<Rightarrow> ErrAllBusyTargets))"

definition initial_state ::
  "string \<Rightarrow> ('p,'r,'u,'a,'l) gateway \<Rightarrow> ('p,'r,'u,'a,'l) xstate" where
  "initial_state session gw =
     \<lparr>xs_gw = gw, xs_tick = 0, xs_res = \<lparr>xr_Target = zero_target, xr_Attempts = 0, xr_Session = session, xr_Cache = []\<rparr>,
      xs_lastErr = None, xs_skipErr = None, xs_moved = [], xs_quarantined = False, xs_unavailable = False,
      xs_openUntil = [], xs_sawBusy = False, xs_anyBusy = False, xs_forced = None, xs_forcedCall = False,
      xs_log = []\<rparr>"

text \<open>The session floor, the ranking and the walk; the result of the request and its state.\<close>

definition plan_walk ::
  "('p,'r,'u,'a,'l,'h) xenv \<Rightarrow> plan \<Rightarrow> string \<Rightarrow> ('p,'r,'u,'a,'l) gateway
     \<Rightarrow> int option \<times> ('p,'r,'u,'a,'l) xstate \<times> bool \<times> gerr option" where
  "plan_walk E p session gw =
     (let (lo, aff) = sessionFloor (xe_aff E) (xe_sha E) (xe_now E 0) (xe_wall E 0) (xe_ctx E 0) p session
                        (gw_affinity gw);
          (rank, lcr') = lcrRank (xe_lcr E) (xe_wall E 0) (xe_prices E) p (gw_lcr gw);
          st0 = initial_state session (gw\<lparr>gw_affinity := aff, gw_lcr := lcr'\<rparr>)
      in case passes E p lo rank st0 of
           Stop st started err \<Rightarrow> (lo, st, started, err)
         | Next st \<Rightarrow> (lo, st, False, Some (final_error st)))"

definition executePlan ::
  "('p,'r,'u,'a,'l,'h) xenv \<Rightarrow> plan \<Rightarrow> string \<Rightarrow> ('p,'r,'u,'a,'l) gateway
     \<Rightarrow> execResult \<times> bool \<times> gerr option \<times> (string \<times> string \<times> string) list \<times> ('p,'r,'u,'a,'l) gateway" where
  "executePlan E p session gw =
     (let (lo, st, started, err) = plan_walk E p session gw;
          served = (if err = None then Some (tg_Tier (xr_Target (xs_res st))) else None);
          i = xs_tick st;
          gw' = xs_gw st;
          gw'' = (if err = None \<or> started
                  then gw'\<lparr>gw_affinity := pinSession (xe_aff E) (xe_sha E) (xe_now E i) (xe_wall E i) p session
                             (tg_Tier (xr_Target (xs_res st))) (gw_affinity gw')\<rparr>
                  else gw')
      in (xs_res st, started, err, recordTierFallbacks (xs_moved st) served, gw''))"

section \<open>What the helpers change\<close>

named_theorems xframe

text \<open>The helpers touch the shared state and the log only; these are the log's equations.\<close>

lemma helper_log [xframe]:
  "xs_log (log_ev e st) = xs_log st @ [e]"
  "xs_log (tick E st) = xs_log st"
  "xs_log (with_breaker f st) = xs_log st"
  "xs_log (abandon_probe E d key cfg adm st) = xs_log st @ (if aProbe adm then [XAbandon key] else [])"
  "xs_log (record_outcome E key cfg adm failed st) = xs_log st @
     [XRecord key failed (aProbe adm), XOutcome (kTier key) (if failed then ''failure'' else ''success'')]"
  "xs_log (record_avail E p t b st) = xs_log st @
     (if pl_Strategy p = ''lcr''
      then [XAvail \<lparr>lk_Provider = tg_Provider t, lk_UpstreamModel = tg_UpstreamModel t\<rparr> b] else [])"
  "xs_log (reg_release n st) = xs_log st"
  "xs_log (snd (reg_acquire n st)) = xs_log st"
  by (simp_all add: log_ev_def tick_def with_breaker_def abandon_probe_def record_outcome_def record_avail_def
      reg_release_def reg_acquire_def Let_def split: option.splits prod.splits)

lemma helper_res [xframe]:
  "xs_res (log_ev e st) = xs_res st"
  "xs_res (tick E st) = xs_res st"
  "xs_res (with_breaker f st) = xs_res st"
  "xs_res (abandon_probe E d key cfg adm st) = xs_res st"
  "xs_res (record_outcome E key cfg adm failed st) = xs_res st"
  "xs_res (record_avail E p t b st) = xs_res st"
  "xs_res (reg_release n st) = xs_res st"
  "xs_res (snd (reg_acquire n st)) = xs_res st"
  by (simp_all add: log_ev_def tick_def with_breaker_def abandon_probe_def record_outcome_def record_avail_def
      reg_release_def reg_acquire_def Let_def split: option.splits prod.splits)

lemma helper_forced [xframe]:
  "xs_forced (log_ev e st) = xs_forced st"
  "xs_forced (tick E st) = xs_forced st"
  "xs_forced (with_breaker f st) = xs_forced st"
  "xs_forced (abandon_probe E d key cfg adm st) = xs_forced st"
  "xs_forced (record_outcome E key cfg adm failed st) = xs_forced st"
  "xs_forced (record_avail E p t b st) = xs_forced st"
  "xs_forced (reg_release n st) = xs_forced st"
  "xs_forced (snd (reg_acquire n st)) = xs_forced st"
  by (simp_all add: log_ev_def tick_def with_breaker_def abandon_probe_def record_outcome_def record_avail_def
      reg_release_def reg_acquire_def Let_def split: option.splits prod.splits)

lemma helper_forcedCall [xframe]:
  "xs_forcedCall (log_ev e st) = xs_forcedCall st"
  "xs_forcedCall (tick E st) = xs_forcedCall st"
  "xs_forcedCall (with_breaker f st) = xs_forcedCall st"
  "xs_forcedCall (abandon_probe E d key cfg adm st) = xs_forcedCall st"
  "xs_forcedCall (record_outcome E key cfg adm failed st) = xs_forcedCall st"
  "xs_forcedCall (record_avail E p t b st) = xs_forcedCall st"
  "xs_forcedCall (reg_release n st) = xs_forcedCall st"
  "xs_forcedCall (snd (reg_acquire n st)) = xs_forcedCall st"
  by (simp_all add: log_ev_def tick_def with_breaker_def abandon_probe_def record_outcome_def record_avail_def
      reg_release_def reg_acquire_def Let_def split: option.splits prod.splits)

lemma record_success_frame [xframe]:
  "xs_log (record_success E p t key cfg adm st) = xs_log st @
     [XRecord key False (aProbe adm), XOutcome (kTier key) ''success''] @
     (if pl_Strategy p = ''lcr''
      then [XAvail \<lparr>lk_Provider = tg_Provider t, lk_UpstreamModel = tg_UpstreamModel t\<rparr> True] else [])"
  "xs_res (record_success E p t key cfg adm st) = xs_res st"
  "xs_forced (record_success E p t key cfg adm st) = xs_forced st"
  "xs_forcedCall (record_success E p t key cfg adm st) = xs_forcedCall st"
  by (simp_all add: record_success_def xframe)

lemma judge_failure_frame [xframe]:
  "xs_log (judge_failure E p t key cfg adm pol err st) = xs_log st @
     (if countsAgainstTier pol err
      then [XRecord key True (aProbe adm), XOutcome (kTier key) ''failure'',
            XMark \<lparr>uk_Provider = tg_Provider t, uk_UpstreamModel = tg_UpstreamModel t\<rparr>] @
           (if pl_Strategy p = ''lcr''
            then [XAvail \<lparr>lk_Provider = tg_Provider t, lk_UpstreamModel = tg_UpstreamModel t\<rparr> False] else [])
      else (if aProbe adm then [XAbandon key] else []) @ [XOutcome (tg_Tier t) ''request_error''])"
  "xs_res (judge_failure E p t key cfg adm pol err st) = xs_res st"
  "xs_forced (judge_failure E p t key cfg adm pol err st) = xs_forced st"
  "xs_forcedCall (judge_failure E p t key cfg adm pol err st) = xs_forcedCall st"
  by (simp_all add: judge_failure_def xframe Let_def)

lemma after_call_forced [xframe]:
  "xs_forced (ctl_state (after_call E p t key cfg adm pol committed callErr st)) = xs_forced st"
  by (simp add: after_call_def xframe Let_def split: option.splits)

lemma attempt_forced [xframe]:
  "xs_forced (ctl_state (attempt_stage E p t prov key cfg adm pol st)) = xs_forced st"
  by (simp add: attempt_stage_def xframe Let_def split: prod.splits)

lemma acquire_forced [xframe]:
  "xs_forced (ctl_state (acquire_stage E p t prov key cfg adm pol st)) = xs_forced st"
proof -
  obtain ok st1 where r: "reg_acquire (tg_Provider t) st = (ok, st1)" by fastforce
  then have "xs_forced st1 = xs_forced st" using helper_forced(8) [of "tg_Provider t" st] by simp
  then show ?thesis using r by (cases ok) (simp_all add: acquire_stage_def xframe)
qed

lemma unavail_forced [xframe]:
  "xs_forced (ctl_state (unavail_stage E p t prov key cfg adm pol st)) = xs_forced st"
  by (simp add: unavail_stage_def xframe Let_def split: prod.splits)

lemma admit_forced [xframe]:
  "xs_forced (ctl_state (admit_stage E p t prov st)) = xs_forced st"
  by (simp add: admit_stage_def xframe Let_def split: prod.splits)

lemma visit_forced [xframe]: "xs_forced (ctl_state (visit E p lo t st)) = xs_forced st"
  by (simp add: visit_def xframe Let_def split: option.splits)

lemma visit_all_forced [xframe]: "xs_forced (ctl_state (visit_all E p lo ts st)) = xs_forced st"
proof (induction ts arbitrary: st)
  case (Cons t ts)
  then show ?case using visit_forced [of E p lo t st] by (cases "visit E p lo t st") simp_all
qed simp

lemma next_round_frame [xframe]:
  "xs_forced (snd (next_round p rank st)) = xs_forced st"
  by (simp add: next_round_def Let_def split: prod.splits)

lemma rounds_forced [xframe]: "xs_forced (ctl_state (rounds E p lo rank n st)) = xs_forced st"
proof (induction n arbitrary: st)
  case (Suc n)
  obtain ts st1 where r: "next_round p rank st = (ts, st1)" by fastforce
  then have "xs_forced st1 = xs_forced st" using next_round_frame [of p rank st] by simp
  then have "xs_forced (ctl_state (visit_all E p lo ts st1)) = xs_forced st" by (simp add: xframe)
  then show ?case using r Suc.IH by (cases "visit_all E p lo ts st1") (simp_all add: Let_def xframe)
qed simp

section \<open>The contract of one visit\<close>

text \<open>
  What one visit of a target keeps, the whole walk keeps: \<open>I\<close> is an invariant of the loop and \<open>F\<close> holds when
  the request ends with a result.
\<close>

locale walk_invariant =
  fixes E :: "('p,'r,'u,'a,'l,'h) xenv" and p :: plan and lo :: "int option"
    and I :: "('p,'r,'u,'a,'l) xstate \<Rightarrow> bool"
    and F :: "('p,'r,'u,'a,'l) xstate \<Rightarrow> bool \<Rightarrow> gerr option \<Rightarrow> bool"
  assumes visit_inv: "\<lbrakk>I st; t \<in> set (concat (pl_Tiers p)); \<not> passed_over lo t st\<rbrakk>
      \<Longrightarrow> case visit E p lo t st of Next st' \<Rightarrow> I st' | Stop st' started err \<Rightarrow> F st' started err"
    and round_inv: "I st \<Longrightarrow> I (st\<lparr>xs_anyBusy := b, xs_gw := g\<rparr>)"
    and tick_inv: "I st \<Longrightarrow> I (tick E st)"
    and cancel_inv: "I st \<Longrightarrow> F st False (Some ErrCanceled)"
    and force_inv: "\<lbrakk>I st; \<not> xs_sawBusy st; xr_Attempts (xs_res st) \<le> 0; xs_forced st = None\<rbrakk>
      \<Longrightarrow> I (st\<lparr>xs_forced := Some tier\<rparr>)"
begin

abbreviation holds :: "('p,'r,'u,'a,'l) xstate ctl \<Rightarrow> bool" where
  "holds c \<equiv> (case c of Next st' \<Rightarrow> I st' | Stop st' started err \<Rightarrow> F st' started err)"

lemma visit_holds: "\<lbrakk>I st; t \<in> set (concat (pl_Tiers p))\<rbrakk> \<Longrightarrow> holds (visit E p lo t st)"
  using visit_inv [of st t] by (cases "passed_over lo t st") (simp_all add: visit_def)

lemma visit_all_holds: "\<lbrakk>I st; set ts \<subseteq> set (concat (pl_Tiers p))\<rbrakk> \<Longrightarrow> holds (visit_all E p lo ts st)"
proof (induction ts arbitrary: st)
  case (Cons t ts)
  have "holds (visit E p lo t st)" using visit_holds [OF Cons.prems(1)] Cons.prems(2) by simp
  then show ?case using Cons.IH Cons.prems(2) by (cases "visit E p lo t st") simp_all
qed simp

lemma rounds_holds: "I st \<Longrightarrow> holds (rounds E p lo rank n st)"
proof (induction n arbitrary: st)
  case (Suc n)
  obtain ts st1 where r: "next_round p rank st = (ts, st1)" by fastforce
  then have ts: "set ts \<subseteq> set (concat (pl_Tiers p))" and i: "I st1"
    using round_inv [OF Suc.prems] by (auto simp: next_round_def Let_def set_Ordered split: prod.splits)
  show ?case
  proof (cases "visit_all E p lo ts st1")
    case (Stop st' started err)
    then show ?thesis using visit_all_holds [OF i ts] r by simp
  next
    case (Next st')
    then have i': "I st'" using visit_all_holds [OF i ts] by simp
    show ?thesis
    proof (cases "xs_anyBusy st'")
      case True
      then show ?thesis
        using Next r tick_inv [OF i'] cancel_inv [OF tick_inv [OF i']] Suc.IH [OF tick_inv [OF i']]
        by (simp add: Let_def)
    qed (use Next r i' in simp)
  qed
qed simp

lemma passes_holds:
  assumes "I st" and "xs_forced st = None"
  shows "holds (passes E p lo rank st)"
proof (cases "rounds E p lo rank (Suc busyRetries) st")
  case (Stop st' started err)
  then show ?thesis using rounds_holds [OF assms(1), of rank "Suc busyRetries"] by (simp add: passes_def)
next
  case (Next st')
  then have i: "I st'" using rounds_holds [OF assms(1), of rank "Suc busyRetries"] by simp
  have f: "xs_forced st' = None" using rounds_forced [of E p lo rank "Suc busyRetries" st] Next assms(2) by simp
  show ?thesis
  proof (cases "xs_sawBusy st' \<or> xr_Attempts (xs_res st') > 0 \<or> soonestOpen (xs_openUntil st') = None")
    case True
    then show ?thesis using Next i by (auto simp: passes_def)
  next
    case False
    then obtain tier where t: "soonestOpen (xs_openUntil st') = Some tier" by auto
    have "I (st'\<lparr>xs_forced := Some tier\<rparr>)" using force_inv [OF i _ _ f] False by simp
    then show ?thesis using Next t False rounds_holds by (simp add: passes_def del: rounds.simps)
  qed
qed

end

section \<open>Reading the log\<close>

fun is_acquire :: "string \<Rightarrow> xevent \<Rightarrow> bool" where
  "is_acquire n (XAcquire m) = (m = n)"
| "is_acquire n _ = False"

fun is_release :: "string \<Rightarrow> xevent \<Rightarrow> bool" where
  "is_release n (XRelease m) = (m = n)"
| "is_release n _ = False"

text \<open>An admission that made this request the probe of a tier, and the two ways to settle it.\<close>

fun is_probe :: "bkey \<Rightarrow> xevent \<Rightarrow> bool" where
  "is_probe k (XAdmit j force adm) = (j = k \<and> aProbe adm \<and> \<not> aSkip adm)"
| "is_probe k _ = False"

fun settles :: "bkey \<Rightarrow> xevent \<Rightarrow> bool" where
  "settles k (XAbandon j) = (j = k)"
| "settles k (XRecord j failed probe) = (j = k \<and> probe)"
| "settles k _ = False"

fun is_call :: "xevent \<Rightarrow> bool" where
  "is_call (XCall t committed err) = True"
| "is_call _ = False"

fun is_forced :: "xevent \<Rightarrow> bool" where
  "is_forced (XAdmit j force adm) = force"
| "is_forced _ = False"

text \<open>Events that neither take nor give back a slot, call an upstream or ask for admission.\<close>

fun is_verdict :: "xevent \<Rightarrow> bool" where
  "is_verdict (XAdmit _ _ _) = False"
| "is_verdict (XAcquire _) = False"
| "is_verdict (XCall _ _ _) = False"
| "is_verdict (XRelease _) = False"
| "is_verdict _ = True"

abbreviation count_ev :: "(xevent \<Rightarrow> bool) \<Rightarrow> xevent list \<Rightarrow> nat" where
  "count_ev P l \<equiv> length (filter P l)"

lemma verdict_excludes:
  "is_verdict e \<Longrightarrow> \<not> is_acquire n e \<and> \<not> is_release n e \<and> \<not> is_probe k e \<and> \<not> is_call e \<and> \<not> is_forced e"
  by (cases e) simp_all

lemma verdicts_silent:
  assumes "list_all is_verdict l"
  shows "filter (is_acquire n) l = []" "filter (is_release n) l = []" "filter (is_probe k) l = []"
    "filter is_call l = []" "filter is_forced l = []"
  using assms by (auto simp: list_all_iff filter_empty_conv dest: verdict_excludes)

text \<open>After the call only the verdict remains; an uncommitted probe is settled once.\<close>

lemma after_call_log:
  assumes "committed \<Longrightarrow> callErr \<noteq> Some ErrServedWithoutCall"
  shows "\<exists>new. xs_log (ctl_state (after_call E p t key cfg adm pol committed callErr st)) = xs_log st @ new
    \<and> list_all is_verdict new
    \<and> (\<forall>k. count_ev (settles k) new = (if k = key \<and> aProbe adm \<and> \<not> committed then 1 else 0))"
proof (cases callErr)
  case None
  then show ?thesis by (auto simp: after_call_def xframe)
next
  case (Some err)
  show ?thesis
  proof (cases "committed")
    case True
    with Some assms show ?thesis by (auto simp: after_call_def)
  next
    case False
    with Some show ?thesis by (auto simp: after_call_def xframe Let_def)
  qed
qed

lemma attempt_step_settled:
  "attempt_step budget ev AttemptCommitted = AttemptCommitted"
  "attempt_step budget ev AttemptExpired = AttemptExpired"
  by (cases ev; simp)+

lemma attempt_fold:
  "fold (attempt_step budget) evs AttemptCommitted = AttemptCommitted"
  "fold (attempt_step budget) evs AttemptExpired = AttemptExpired"
  by (induction evs) (simp_all add: attempt_step_settled)

lemma committed_asked:
  assumes "fold (attempt_step budget) evs AttemptPending = AttemptCommitted"
  shows "EvCommit \<in> set evs"
  using assms
proof (induction evs)
  case (Cons ev evs)
  then show ?case using attempt_fold(2) [of budget evs] by (cases ev) (auto split: if_splits)
qed simp

lemma runAttempt_served:
  assumes "runAttempt fmt provider budget ctxDone evs ret = (True, Some ErrServedWithoutCall)"
  shows "EvCommit \<in> set evs \<and> ret = Some ErrServedWithoutCall"
  using assms committed_asked [of budget evs]
  by (auto simp: runAttempt_def Let_def tier_timeout_def split: if_splits)

text \<open>An upstream call that is answered locally does not commit output first.\<close>

definition served_uncommitted :: "('p,'r,'u,'a,'l,'h) xenv \<Rightarrow> bool" where
  "served_uncommitted E \<longleftrightarrow>
     (\<forall>i prov t. snd (xe_call E i prov t) = Some ErrServedWithoutCall \<longrightarrow> EvCommit \<notin> set (fst (xe_call E i prov t)))"

text \<open>One attempt: a slot taken, the call, a slot given back, and the verdict.\<close>

definition attempt_segment :: "target \<Rightarrow> (bkey \<Rightarrow> nat) \<Rightarrow> xevent list \<Rightarrow> bool" where
  "attempt_segment t settled new \<longleftrightarrow>
     (\<exists>mid c e fin. new = XAcquire (tg_Provider t) # XCall t c e # mid @ XRelease (tg_Provider t) # fin
        \<and> list_all is_verdict mid \<and> list_all is_verdict fin
        \<and> (\<forall>k. count_ev (settles k) (mid @ fin) = settled k))"

lemma attempt_log:
  assumes "served_uncommitted E"
  shows "\<exists>new. xs_log (ctl_state (attempt_stage E p t prov key cfg adm pol st)) = xs_log st @ new
    \<and> attempt_segment t (\<lambda>k. if k = key \<and> aProbe adm then 1 else 0) new"
proof -
  define st1 where "st1 = tick E (log_ev (XAcquire (tg_Provider t)) (st\<lparr>
      xs_res := (xs_res st)\<lparr>xr_Attempts := xr_Attempts (xs_res st) + 1\<rparr>, xs_forcedCall := (xs_forced st \<noteq> None)\<rparr>))"
  obtain evs ret where c: "xe_call E (xs_tick st1) prov t = (evs, ret)" by fastforce
  obtain committed callErr where r:
    "runAttempt (xe_fmt E) (tg_Provider t) (ap_budget pol) (xe_ctx E (xs_tick st1)) evs ret = (committed, callErr)"
    by fastforce
  have ok: "committed \<Longrightarrow> callErr \<noteq> Some ErrServedWithoutCall"
    using r runAttempt_served assms c unfolding served_uncommitted_def by (metis fst_conv snd_conv)
  define st2 where "st2 = log_ev (XCall t committed callErr) st1"
  define st3 where "st3 = (if committed then record_success E p t key cfg adm st2 else st2)"
  define st4 where "st4 = log_ev (XRelease (tg_Provider t)) (reg_release (tg_Provider t) st3)"
  have a: "attempt_stage E p t prov key cfg adm pol st = after_call E p t key cfg adm pol committed callErr st4"
    unfolding attempt_stage_def Let_def st1_def [symmetric] c r prod.case st2_def [symmetric]
      st3_def [symmetric] st4_def [symmetric] by (rule refl)
  obtain mid where mid: "xs_log st3 = xs_log st2 @ mid" "list_all is_verdict mid"
    "\<And>k. count_ev (settles k) mid = (if k = key \<and> aProbe adm \<and> committed then 1 else 0)"
    unfolding st3_def by (cases committed) (auto simp: xframe)
  obtain fin where fin: "xs_log (ctl_state (after_call E p t key cfg adm pol committed callErr st4)) = xs_log st4 @ fin"
    "list_all is_verdict fin"
    "\<And>k. count_ev (settles k) fin = (if k = key \<and> aProbe adm \<and> \<not> committed then 1 else 0)"
    using after_call_log [of committed callErr E p t key cfg adm pol st4] ok by blast
  let ?new = "XAcquire (tg_Provider t) # XCall t committed callErr # mid @ XRelease (tg_Provider t) # fin"
  have "xs_log (ctl_state (attempt_stage E p t prov key cfg adm pol st)) = xs_log st @ ?new"
    unfolding a fin(1) by (simp add: st4_def mid(1) st2_def st1_def xframe)
  moreover have "attempt_segment t (\<lambda>k. if k = key \<and> aProbe adm then 1 else 0) ?new"
    unfolding attempt_segment_def
    by (intro exI [of _ mid] exI [of _ committed] exI [of _ callErr] exI [of _ fin])
      (simp add: mid(2,3) fin(2,3))
  ultimately show ?thesis by blast
qed

definition quiet_segment :: "(bkey \<Rightarrow> nat) \<Rightarrow> xevent list \<Rightarrow> bool" where
  "quiet_segment settled new \<longleftrightarrow> list_all is_verdict new \<and> (\<forall>k. count_ev (settles k) new = settled k)"

abbreviation probe_of :: "bkey \<Rightarrow> admission \<Rightarrow> bkey \<Rightarrow> nat" where
  "probe_of key adm \<equiv> (\<lambda>k. if k = key \<and> aProbe adm then 1 else 0)"

lemma abandon_segment:
  "quiet_segment (probe_of key adm) (if aProbe adm then [XAbandon key] else [])"
  by (simp add: quiet_segment_def)

lemma acquire_log:
  assumes "served_uncommitted E"
  shows "\<exists>new. xs_log (ctl_state (acquire_stage E p t prov key cfg adm pol st)) = xs_log st @ new
    \<and> (quiet_segment (probe_of key adm) new \<or> attempt_segment t (probe_of key adm) new)"
proof -
  obtain ok st1 where r: "reg_acquire (tg_Provider t) st = (ok, st1)" by fastforce
  then have l: "xs_log st1 = xs_log st" using helper_log(8) [of "tg_Provider t" st] by simp
  show ?thesis
  proof (cases ok)
    case True
    then show ?thesis using attempt_log [OF assms, of p t prov key cfg adm pol st1] r l
      by (auto simp: acquire_stage_def)
  next
    case False
    then show ?thesis using r l abandon_segment [of key adm] by (simp add: acquire_stage_def xframe)
  qed
qed

lemma unavail_log:
  assumes "served_uncommitted E"
  shows "\<exists>new. xs_log (ctl_state (unavail_stage E p t prov key cfg adm pol st)) = xs_log st @ new
    \<and> (quiet_segment (probe_of key adm) new \<or> attempt_segment t (probe_of key adm) new)"
proof -
  obtain rem u' where u: "unavail_Check (xe_unv E) (xe_now E (xs_tick st))
      \<lparr>uk_Provider = tg_Provider t, uk_UpstreamModel = tg_UpstreamModel t\<rparr> (gw_unavail (xs_gw st)) = (rem, u')"
    by fastforce
  show ?thesis
  proof (cases rem)
    case None
    then show ?thesis
      using acquire_log [OF assms, of p t prov key cfg adm pol "st\<lparr>xs_gw := (xs_gw st)\<lparr>gw_unavail := u'\<rparr>\<rparr>"]
      by (simp add: unavail_stage_def u)
  next
    case (Some d)
    have "quiet_segment (probe_of key adm)
        ((if aProbe adm then [XAbandon key] else []) @ [XSkipped (tg_Tier t) ''unavailable''])"
      by (simp add: quiet_segment_def)
    with Some show ?thesis by (simp add: unavail_stage_def u xframe Let_def)
  qed
qed

text \<open>A visit asks for admission once and settles it, with at most one attempt in between.\<close>

definition visit_segment :: "bool \<Rightarrow> bkey \<Rightarrow> target \<Rightarrow> xevent list \<Rightarrow> bool" where
  "visit_segment force key t new \<longleftrightarrow>
     (\<exists>adm rest. new = XAdmit key force adm # rest
        \<and> (if aSkip adm then quiet_segment (\<lambda>_. 0) rest
           else quiet_segment (probe_of key adm) rest \<or> attempt_segment t (probe_of key adm) rest))"

lemma admit_log:
  assumes "served_uncommitted E"
  shows "\<exists>new. xs_log (ctl_state (admit_stage E p t prov st)) = xs_log st @ new
    \<and> visit_segment (xs_forced st \<noteq> None) \<lparr>kAlias = pl_Alias p, kTier = tg_Tier t\<rparr> t new"
proof -
  define pol where "pol = policyFor (xe_cfg E) t"
  define key where "key = \<lparr>kAlias = pl_Alias p, kTier = tg_Tier t\<rparr>"
  define cfg where "cfg = (breakerSettings (xe_cfg E) p (tg_Tier t))\<lparr>sProbeLease := ap_budget pol + second\<rparr>"
  define force where "force = (xs_forced st \<noteq> None)"
  obtain adm b' where a: "breaker_admit (xe_brk E) (brk_env E False st) (gw_breaker (xs_gw st)) key cfg force = (adm, b')"
    by fastforce
  define st1 where "st1 = log_ev (XAdmit key force adm) (with_breaker (\<lambda>_. b') st)"
  have l1: "xs_log st1 = xs_log st @ [XAdmit key force adm]" by (simp add: st1_def xframe)
  note eq = admit_stage_def [of E p t prov st, unfolded Let_def, folded pol_def, folded key_def cfg_def force_def,
      unfolded a prod.case, folded st1_def]
  show ?thesis
  proof (cases "aSkip adm")
    case True
    have "\<exists>rest. xs_log (ctl_state (admit_stage E p t prov st)) = xs_log st1 @ rest \<and> quiet_segment (\<lambda>_. 0) rest"
      unfolding eq using True by (cases force) (simp_all add: quiet_segment_def xframe)
    then show ?thesis unfolding key_def [symmetric] force_def [symmetric] visit_segment_def
      using True l1 by auto
  next
    case False
    obtain rest where rest: "xs_log (ctl_state (admit_stage E p t prov st)) = xs_log st1 @ rest"
      "quiet_segment (probe_of key adm) rest \<or> attempt_segment t (probe_of key adm) rest"
      unfolding eq using unavail_log [OF assms, of p t prov key cfg adm pol st1] False by auto
    have "visit_segment force key t (XAdmit key force adm # rest)"
      unfolding visit_segment_def using False rest(2) by (intro exI [of _ adm] exI [of _ rest]) simp
    then show ?thesis unfolding key_def [symmetric] force_def [symmetric] using rest(1) l1 by auto
  qed
qed

lemma visit_log:
  assumes "served_uncommitted E"
  shows "\<exists>new. xs_log (ctl_state (visit E p lo t st)) = xs_log st @ new
    \<and> (new = [] \<or> (\<not> passed_over lo t st
         \<and> visit_segment (xs_forced st \<noteq> None) \<lparr>kAlias = pl_Alias p, kTier = tg_Tier t\<rparr> t new))"
proof (cases "passed_over lo t st")
  case False
  define st1 where "st1 = tick E (st\<lparr>xs_res := (xs_res st)\<lparr>xr_Target := t\<rparr>\<rparr>)"
  have l: "xs_log st1 = xs_log st" "xs_forced st1 = xs_forced st" by (simp_all add: st1_def xframe)
  show ?thesis
    using False l admit_log [OF assms, of p t _ st1]
    unfolding visit_def Let_def st1_def [symmetric] by (auto split: option.splits)
qed (simp add: visit_def)

lemma segment_counts:
  assumes "quiet_segment settled new \<or> attempt_segment t settled new"
  shows "count_ev (is_acquire n) new = count_ev (is_release n) new"
    and "count_ev (is_probe k) new = 0" and "count_ev (settles k) new = settled k"
    and "filter is_forced new = []"
    and "filter is_call new = [] \<or> (\<exists>c e. filter is_call new = [XCall t c e])"
proof -
  have *: "count_ev (is_acquire n) new = count_ev (is_release n) new \<and> count_ev (is_probe k) new = 0
      \<and> count_ev (settles k) new = settled k \<and> filter is_forced new = []
      \<and> (filter is_call new = [] \<or> (\<exists>c e. filter is_call new = [XCall t c e]))"
    using assms
  proof
    assume "quiet_segment settled new"
    then show ?thesis by (simp add: quiet_segment_def verdicts_silent)
  next
    assume "attempt_segment t settled new"
    then obtain mid c e fin where new: "new = XAcquire (tg_Provider t) # XCall t c e # mid @ XRelease (tg_Provider t) # fin"
      and v: "list_all is_verdict mid" "list_all is_verdict fin" "\<And>k. count_ev (settles k) (mid @ fin) = settled k"
      by (auto simp: attempt_segment_def)
    show ?thesis unfolding new using v(3) [of k]
      by (simp add: verdicts_silent [OF v(1)] verdicts_silent [OF v(2)])
  qed
  then show "count_ev (is_acquire n) new = count_ev (is_release n) new" "count_ev (is_probe k) new = 0"
    "count_ev (settles k) new = settled k" "filter is_forced new = []"
    "filter is_call new = [] \<or> (\<exists>c e. filter is_call new = [XCall t c e])" by blast+
qed

lemma visit_segment_counts:
  assumes "visit_segment force key t new"
  shows "count_ev (is_acquire n) new = count_ev (is_release n) new"
    and "count_ev (is_probe k) new = count_ev (settles k) new"
    and "filter is_call new = [] \<or> (\<exists>c e. filter is_call new = [XCall t c e])"
    and "filter is_forced new \<noteq> [] \<Longrightarrow> force"
proof -
  obtain adm rest where new: "new = XAdmit key force adm # rest"
    and r: "if aSkip adm then quiet_segment (\<lambda>_. 0) rest
            else quiet_segment (probe_of key adm) rest \<or> attempt_segment t (probe_of key adm) rest"
    using assms by (auto simp: visit_segment_def)
  define settled where "settled = (if aSkip adm then (\<lambda>_. 0) else probe_of key adm)"
  have "quiet_segment settled rest \<or> attempt_segment t settled rest"
    using r by (auto simp: settled_def split: if_splits)
  note c = segment_counts [OF this]
  show "count_ev (is_acquire n) new = count_ev (is_release n) new" unfolding new using c(1) [of n] by simp
  show "count_ev (is_probe k) new = count_ev (settles k) new"
    unfolding new using c(2,3) [of k] by (auto simp: settled_def)
  show "filter is_call new = [] \<or> (\<exists>c e. filter is_call new = [XCall t c e])" unfolding new using c(5) by simp
  show "filter is_forced new \<noteq> [] \<Longrightarrow> force" unfolding new using c(4) by (auto split: if_splits)
qed

text \<open>Slots are balanced, probes settled, and calls go to targets of the plan at or past the floor.\<close>

definition log_inv :: "plan \<Rightarrow> int option \<Rightarrow> xevent list \<Rightarrow> bool" where
  "log_inv p lo l \<longleftrightarrow>
     (\<forall>n. count_ev (is_acquire n) l = count_ev (is_release n) l)
     \<and> (\<forall>k. count_ev (is_probe k) l = count_ev (settles k) l)
     \<and> (\<forall>t c e. XCall t c e \<in> set l \<longrightarrow>
          t \<in> set (concat (pl_Tiers p)) \<and> (case lo of None \<Rightarrow> True | Some f \<Rightarrow> f \<le> tg_Tier t))"

lemma log_inv_visit:
  assumes "served_uncommitted E" and "log_inv p lo (xs_log st)" and "t \<in> set (concat (pl_Tiers p))"
  shows "log_inv p lo (xs_log (ctl_state (visit E p lo t st)))"
proof -
  obtain new where new: "xs_log (ctl_state (visit E p lo t st)) = xs_log st @ new"
    and seg: "new = [] \<or> (\<not> passed_over lo t st
      \<and> visit_segment (xs_forced st \<noteq> None) \<lparr>kAlias = pl_Alias p, kTier = tg_Tier t\<rparr> t new)"
    using visit_log [OF assms(1)] by blast
  show ?thesis
  proof (cases "new = []")
    case False
    with seg have over: "\<not> passed_over lo t st"
      and vs: "visit_segment (xs_forced st \<noteq> None) \<lparr>kAlias = pl_Alias p, kTier = tg_Tier t\<rparr> t new" by auto
    have calls: "u = t" if "XCall u c e \<in> set new" for u c e
    proof -
      have "XCall u c e \<in> set (filter is_call new)" using that by simp
      with visit_segment_counts(3) [OF vs] show ?thesis by (elim disjE exE) (simp_all only: list.set, auto)
    qed
    have fl: "case lo of None \<Rightarrow> True | Some f \<Rightarrow> f \<le> tg_Tier t"
      using over by (auto simp: passed_over_def split: option.splits)
    show ?thesis unfolding new log_inv_def
    proof (intro conjI allI impI)
      fix n
      show "count_ev (is_acquire n) (xs_log st @ new) = count_ev (is_release n) (xs_log st @ new)"
        using assms(2) visit_segment_counts(1) [OF vs, of n] by (simp add: log_inv_def)
    next
      fix k
      show "count_ev (is_probe k) (xs_log st @ new) = count_ev (settles k) (xs_log st @ new)"
        using assms(2) visit_segment_counts(2) [OF vs, of k] by (simp add: log_inv_def)
    next
      fix u c e
      assume "XCall u c e \<in> set (xs_log st @ new)"
      then consider "XCall u c e \<in> set (xs_log st)" | "u = t" using calls by auto
      then have "u \<in> set (concat (pl_Tiers p)) \<and> (case lo of None \<Rightarrow> True | Some f \<Rightarrow> f \<le> tg_Tier u)"
        using assms(2,3) fl unfolding log_inv_def by cases blast+
      then show "u \<in> set (concat (pl_Tiers p))" "case lo of None \<Rightarrow> True | Some f \<Rightarrow> f \<le> tg_Tier u" by blast+
    qed
  qed (use new assms(2) in simp)
qed

interpretation logged: walk_invariant E p lo
  "\<lambda>st. served_uncommitted E \<longrightarrow> log_inv p lo (xs_log st)"
  "\<lambda>st started err. served_uncommitted E \<longrightarrow> log_inv p lo (xs_log st)" for E p lo
proof (unfold_locales, goal_cases)
  case (1 st t)
  then have "served_uncommitted E \<longrightarrow> log_inv p lo (xs_log (ctl_state (visit E p lo t st)))"
    using log_inv_visit by blast
  then show ?case by (cases "visit E p lo t st") simp_all
qed (simp_all add: xframe)

section \<open>The calls of a request\<close>

abbreviation calls_of :: "('p,'r,'u,'a,'l) xstate \<Rightarrow> xevent list" where
  "calls_of st \<equiv> filter is_call (xs_log st)"

text \<open>A call after which the walk goes on: it failed before any output, in a way its policy falls through on.\<close>

fun moved_on :: "failoverConfig \<Rightarrow> xevent \<Rightarrow> bool" where
  "moved_on cfg (XCall t committed err) =
     (\<not> committed \<and> (case err of None \<Rightarrow> False | Some e \<Rightarrow> fallsThrough (policyFor cfg t) e))"
| "moved_on cfg _ = False"

text \<open>What a stage does to the calls: none and on to the next target, or one with its consequence.\<close>

definition stage_post ::
  "failoverConfig \<Rightarrow> target \<Rightarrow> ('p,'r,'u,'a,'l) xstate \<Rightarrow> ('p,'r,'u,'a,'l) xstate ctl \<Rightarrow> bool" where
  "stage_post cfg t st c \<longleftrightarrow>
     (\<exists>st'. c = Next st' \<and> calls_of st' = calls_of st \<and> xr_Attempts (xs_res st') = xr_Attempts (xs_res st)
        \<and> xs_forcedCall st' = xs_forcedCall st)
     \<or> (\<exists>committed e. calls_of (ctl_state c) = calls_of st @ [XCall t committed e]
          \<and> xr_Target (xs_res (ctl_state c)) = xr_Target (xs_res st)
          \<and> (case c of
               Next st' \<Rightarrow> moved_on cfg (XCall t committed e) \<and> xr_Attempts (xs_res st') = xr_Attempts (xs_res st) + 1
                 \<and> xs_forcedCall st' = (xs_forced st \<noteq> None)
             | Stop st' started err \<Rightarrow> (err = None \<longrightarrow> e = None \<or> e = Some ErrServedWithoutCall) \<and> (started \<longrightarrow> committed)))"

lemma after_call_post:
  assumes "pol = policyFor cfg0 t"
  shows "(case after_call E p t key cfg adm pol committed callErr st of
      Next st' \<Rightarrow> moved_on cfg0 (XCall t committed callErr) \<and> xr_Attempts (xs_res st') = xr_Attempts (xs_res st)
        \<and> xs_forcedCall st' = xs_forcedCall st
    | Stop st' started err \<Rightarrow> (err = None \<longrightarrow> callErr = None \<or> callErr = Some ErrServedWithoutCall) \<and> (started \<longrightarrow> committed))
    \<and> calls_of (ctl_state (after_call E p t key cfg adm pol committed callErr st)) = calls_of st
    \<and> xr_Target (xs_res (ctl_state (after_call E p t key cfg adm pol committed callErr st))) = xr_Target (xs_res st)"
  using assms by (cases callErr) (auto simp: after_call_def xframe Let_def)

lemma attempt_post:
  assumes "pol = policyFor cfg0 t"
  shows "stage_post cfg0 t st (attempt_stage E p t prov key cfg adm pol st)"
proof -
  define st1 where "st1 = tick E (log_ev (XAcquire (tg_Provider t)) (st\<lparr>
      xs_res := (xs_res st)\<lparr>xr_Attempts := xr_Attempts (xs_res st) + 1\<rparr>, xs_forcedCall := (xs_forced st \<noteq> None)\<rparr>))"
  obtain evs ret where c: "xe_call E (xs_tick st1) prov t = (evs, ret)" by fastforce
  obtain committed callErr where r:
    "runAttempt (xe_fmt E) (tg_Provider t) (ap_budget pol) (xe_ctx E (xs_tick st1)) evs ret = (committed, callErr)"
    by fastforce
  define st2 where "st2 = log_ev (XCall t committed callErr) st1"
  define st3 where "st3 = (if committed then record_success E p t key cfg adm st2 else st2)"
  define st4 where "st4 = log_ev (XRelease (tg_Provider t)) (reg_release (tg_Provider t) st3)"
  have a: "attempt_stage E p t prov key cfg adm pol st = after_call E p t key cfg adm pol committed callErr st4"
    unfolding attempt_stage_def Let_def st1_def [symmetric] c r prod.case st2_def [symmetric]
      st3_def [symmetric] st4_def [symmetric] by (rule refl)
  have s4: "calls_of st4 = calls_of st @ [XCall t committed callErr]"
    "xr_Attempts (xs_res st4) = xr_Attempts (xs_res st) + 1" "xs_forcedCall st4 = (xs_forced st \<noteq> None)"
    "xr_Target (xs_res st4) = xr_Target (xs_res st)"
    by (simp_all add: st4_def st3_def st2_def st1_def xframe)
  note post = after_call_post [OF assms, where E = E and p = p and key = key and cfg = cfg and adm = adm
      and committed = committed and callErr = callErr and st = st4]
  show ?thesis unfolding stage_post_def a
    by (rule disjI2, intro exI [of _ committed] exI [of _ callErr])
      (use post s4 in \<open>simp split: ctl.splits\<close>)
qed

lemma stage_post_shift:
  assumes "stage_post cfg t st1 c" and "calls_of st1 = calls_of st" and "xs_res st1 = xs_res st"
    and "xs_forcedCall st1 = xs_forcedCall st" and "xs_forced st1 = xs_forced st"
  shows "stage_post cfg t st c"
  using assms(1) unfolding stage_post_def assms(2-5) .

lemma stage_post_next:
  assumes "calls_of st' = calls_of st" and "xs_res st' = xs_res st" and "xs_forcedCall st' = xs_forcedCall st"
  shows "stage_post cfg t st (Next st')"
  using assms by (simp add: stage_post_def)

lemma acquire_post:
  assumes "pol = policyFor cfg0 t"
  shows "stage_post cfg0 t st (acquire_stage E p t prov key cfg adm pol st)"
proof -
  obtain ok st1 where r: "reg_acquire (tg_Provider t) st = (ok, st1)" by fastforce
  then have l: "xs_log st1 = xs_log st" "xs_res st1 = xs_res st" "xs_forcedCall st1 = xs_forcedCall st"
    "xs_forced st1 = xs_forced st"
    using helper_log(8) [of "tg_Provider t" st] helper_res(8) [of "tg_Provider t" st]
      helper_forced(8) [of "tg_Provider t" st] helper_forcedCall(8) [of "tg_Provider t" st] by simp_all
  show ?thesis
  proof (cases ok)
    case True
    have "stage_post cfg0 t st (attempt_stage E p t prov key cfg adm pol st1)"
      by (rule stage_post_shift [OF attempt_post [OF assms]]) (simp_all add: l)
    with True show ?thesis using r by (simp add: acquire_stage_def)
  next
    case False
    then show ?thesis using r l by (auto simp: acquire_stage_def xframe intro!: stage_post_next)
  qed
qed

lemma unavail_post:
  assumes "pol = policyFor cfg0 t"
  shows "stage_post cfg0 t st (unavail_stage E p t prov key cfg adm pol st)"
proof -
  obtain rem u' where u: "unavail_Check (xe_unv E) (xe_now E (xs_tick st))
      \<lparr>uk_Provider = tg_Provider t, uk_UpstreamModel = tg_UpstreamModel t\<rparr> (gw_unavail (xs_gw st)) = (rem, u')"
    by fastforce
  show ?thesis
  proof (cases rem)
    case None
    have "stage_post cfg0 t st (acquire_stage E p t prov key cfg adm pol (st\<lparr>xs_gw := (xs_gw st)\<lparr>gw_unavail := u'\<rparr>\<rparr>))"
      by (rule stage_post_shift [OF acquire_post [OF assms]]) simp_all
    with None show ?thesis by (simp add: unavail_stage_def u)
  next
    case (Some d)
    then show ?thesis by (auto simp: unavail_stage_def u xframe Let_def intro!: stage_post_next)
  qed
qed

lemma admit_post: "stage_post (xe_cfg E) t st (admit_stage E p t prov st)"
proof -
  define pol where "pol = policyFor (xe_cfg E) t"
  define key where "key = \<lparr>kAlias = pl_Alias p, kTier = tg_Tier t\<rparr>"
  define cfg where "cfg = (breakerSettings (xe_cfg E) p (tg_Tier t))\<lparr>sProbeLease := ap_budget pol + second\<rparr>"
  define force where "force = (xs_forced st \<noteq> None)"
  obtain adm b' where a: "breaker_admit (xe_brk E) (brk_env E False st) (gw_breaker (xs_gw st)) key cfg force = (adm, b')"
    by fastforce
  define st1 where "st1 = log_ev (XAdmit key force adm) (with_breaker (\<lambda>_. b') st)"
  note eq = admit_stage_def [of E p t prov st, unfolded Let_def, folded pol_def, folded key_def cfg_def force_def,
      unfolded a prod.case, folded st1_def]
  have f: "calls_of st1 = calls_of st" "xs_res st1 = xs_res st" "xs_forcedCall st1 = xs_forcedCall st"
    "xs_forced st1 = xs_forced st" by (simp_all add: st1_def xframe)
  show ?thesis
  proof (cases "aSkip adm")
    case True
    then show ?thesis unfolding eq using f by (auto simp: xframe intro!: stage_post_next)
  next
    case False
    then show ?thesis unfolding eq using stage_post_shift [OF unavail_post [OF pol_def] f] by simp
  qed
qed

lemma visit_post:
  assumes "\<not> passed_over lo t st"
  shows "stage_post (xe_cfg E) t (tick E (st\<lparr>xs_res := (xs_res st)\<lparr>xr_Target := t\<rparr>\<rparr>)) (visit E p lo t st)"
proof -
  define st1 where "st1 = tick E (st\<lparr>xs_res := (xs_res st)\<lparr>xr_Target := t\<rparr>\<rparr>)"
  show ?thesis
    using assms admit_post [of E t st1 p]
    unfolding visit_def Let_def st1_def [symmetric]
    by (auto split: option.splits intro!: stage_post_next)
qed

definition call_inv :: "failoverConfig \<Rightarrow> ('p,'r,'u,'a,'l) xstate \<Rightarrow> bool" where
  "call_inv cfg st \<longleftrightarrow>
     list_all (moved_on cfg) (calls_of st)
     \<and> xr_Attempts (xs_res st) = int (length (calls_of st))
     \<and> (if xs_forced st = None then \<not> xs_forcedCall st \<and> filter is_forced (xs_log st) = []
        else length (calls_of st) = (if xs_forcedCall st then 1 else 0))"

definition call_end :: "failoverConfig \<Rightarrow> ('p,'r,'u,'a,'l) xstate \<Rightarrow> bool \<Rightarrow> gerr option \<Rightarrow> bool" where
  "call_end cfg st started err \<longleftrightarrow>
     list_all (moved_on cfg) (butlast (calls_of st))
     \<and> (filter is_forced (xs_log st) \<noteq> [] \<longrightarrow> length (calls_of st) \<le> 1)
     \<and> (err = None \<longrightarrow> (\<exists>cs c e. calls_of st = cs @ [XCall (xr_Target (xs_res st)) c e]
          \<and> (e = None \<or> e = Some ErrServedWithoutCall)))
     \<and> (started \<longrightarrow> (\<exists>cs e. calls_of st = cs @ [XCall (xr_Target (xs_res st)) True e]))"

lemma visit_forced_log:
  assumes "served_uncommitted E" and "xs_forced st = None"
  shows "filter is_forced (xs_log (ctl_state (visit E p lo t st))) = filter is_forced (xs_log st)"
proof -
  obtain new where new: "xs_log (ctl_state (visit E p lo t st)) = xs_log st @ new"
    and seg: "new = [] \<or> visit_segment (xs_forced st \<noteq> None) \<lparr>kAlias = pl_Alias p, kTier = tg_Tier t\<rparr> t new"
    using visit_log [OF assms(1)] by blast
  from seg have "filter is_forced new = []"
  proof
    assume vs: "visit_segment (xs_forced st \<noteq> None) \<lparr>kAlias = pl_Alias p, kTier = tg_Tier t\<rparr> t new"
    show ?thesis using visit_segment_counts(4) [OF vs] assms(2) by blast
  qed simp
  with new show ?thesis by simp
qed

lemma call_inv_visit:
  assumes "served_uncommitted E" and inv: "call_inv (xe_cfg E) st" and over: "\<not> passed_over lo t st"
  shows "case visit E p lo t st of
      Next st' \<Rightarrow> call_inv (xe_cfg E) st' | Stop st' started err \<Rightarrow> call_end (xe_cfg E) st' started err"
proof -
  define st1 where "st1 = tick E (st\<lparr>xs_res := (xs_res st)\<lparr>xr_Target := t\<rparr>\<rparr>)"
  have s1: "calls_of st1 = calls_of st" "xr_Attempts (xs_res st1) = xr_Attempts (xs_res st)"
    "xr_Target (xs_res st1) = t" "xs_forced st1 = xs_forced st" "xs_forcedCall st1 = xs_forcedCall st"
    by (simp_all add: st1_def xframe)
  have fresh: "xs_forced st \<noteq> None \<Longrightarrow> calls_of st = []"
    using over inv by (auto simp: passed_over_def call_inv_def split: if_splits)
  have fl: "xs_forced st = None \<Longrightarrow> filter is_forced (xs_log (ctl_state (visit E p lo t st))) = []"
    using visit_forced_log [OF assms(1)] inv by (simp add: call_inv_def)
  note f = visit_forced [of E p lo t st]
  from visit_post [OF over, of E p, folded st1_def, unfolded stage_post_def s1] show ?thesis
  proof (elim disjE exE conjE)
    fix st'
    assume "visit E p lo t st = Next st'" "calls_of st' = calls_of st"
      "xr_Attempts (xs_res st') = xr_Attempts (xs_res st)" "xs_forcedCall st' = xs_forcedCall st"
    then show ?thesis using inv f fl by (auto simp: call_inv_def)
  next
    fix c e
    assume calls: "calls_of (ctl_state (visit E p lo t st)) = calls_of st @ [XCall t c e]"
      and tgt: "xr_Target (xs_res (ctl_state (visit E p lo t st))) = t"
      and post: "case visit E p lo t st of
         Next st' \<Rightarrow> moved_on (xe_cfg E) (XCall t c e) \<and> xr_Attempts (xs_res st') = xr_Attempts (xs_res st) + 1
           \<and> xs_forcedCall st' = (xs_forced st \<noteq> None)
       | Stop st' started err \<Rightarrow> (err = None \<longrightarrow> e = None \<or> e = Some ErrServedWithoutCall) \<and> (started \<longrightarrow> c)"
    show ?thesis
    proof (cases "visit E p lo t st")
      case (Next st')
      then show ?thesis using calls post f fl inv fresh by (auto simp: call_inv_def)
    next
      case (Stop st' started err)
      have "length (calls_of st') \<le> 1" if "filter is_forced (xs_log st') \<noteq> []"
        using that Stop fl fresh calls by (cases "xs_forced st") auto
      then show ?thesis using calls post tgt inv Stop by (auto simp: call_end_def call_inv_def)
    qed
  qed
qed

interpretation walked: walk_invariant E p lo
  "\<lambda>st. served_uncommitted E \<longrightarrow> call_inv (xe_cfg E) st"
  "\<lambda>st started err. served_uncommitted E \<longrightarrow> call_end (xe_cfg E) st started err" for E p lo
proof (unfold_locales, goal_cases)
  case (1 st t)
  then show ?case using call_inv_visit [of E st lo t p] by (cases "visit E p lo t st") simp_all
next
  case (4 st)
  then show ?case
    by (auto simp: call_inv_def call_end_def list_all_iff split: if_splits dest: in_set_butlastD)
next
  case (5 st tier)
  then show ?case by (auto simp: call_inv_def)
qed (simp_all add: call_inv_def xframe)

end
