(* ===== verification/ExecutorProps.thy ===== *)
theory ExecutorProps
  imports Executor
begin

text \<open>
  What the failover executor guarantees, for every environment: any interference by other requests,
  any timing and any outcome of the upstream calls.
\<close>

section \<open>From the walk to the request\<close>

lemma initial_invs [simp]:
  "log_inv p lo (xs_log (initial_state session gw))"
  "call_inv cfg (initial_state session gw)"
  "xs_forced (initial_state session gw) = None"
  by (simp_all add: log_inv_def call_inv_def initial_state_def)

abbreviation floor_of ::
  "('p,'r,'u,'a,'l,'h) xenv \<Rightarrow> plan \<Rightarrow> string \<Rightarrow> ('p,'r,'u,'a,'l) gateway \<Rightarrow> int option" where
  "floor_of E p session gw \<equiv>
     fst (sessionFloor (xe_aff E) (xe_sha E) (xe_now E 0) (xe_wall E 0) (xe_ctx E 0) p session (gw_affinity gw))"

lemma plan_walk_passes:
  assumes "plan_walk E p session gw = (lo, st, started, err)"
  shows "lo = floor_of E p session gw"
    and "\<exists>rank gw'. passes E p lo rank (initial_state session gw') = Stop st started err
      \<or> (passes E p lo rank (initial_state session gw') = Next st \<and> \<not> started \<and> err = Some (final_error st))"
  using assms by (auto simp: plan_walk_def Let_def split: prod.splits ctl.splits)

lemma plan_walk_log:
  assumes "served_uncommitted E" and "plan_walk E p session gw = (lo, st, started, err)"
  shows "log_inv p lo (xs_log st)"
proof -
  obtain rank gw' where p: "passes E p lo rank (initial_state session gw') = Stop st started err
      \<or> passes E p lo rank (initial_state session gw') = Next st"
    using plan_walk_passes(2) [OF assms(2)] by blast
  have "case passes E p lo rank (initial_state session gw') of
      Next st' \<Rightarrow> served_uncommitted E \<longrightarrow> log_inv p lo (xs_log st')
    | Stop st' started err \<Rightarrow> served_uncommitted E \<longrightarrow> log_inv p lo (xs_log st')"
    by (rule logged.passes_holds) simp_all
  with p assms(1) show ?thesis by auto
qed

lemma plan_walk_calls:
  assumes "served_uncommitted E" and "plan_walk E p session gw = (lo, st, started, err)"
  shows "call_end (xe_cfg E) st started err"
proof -
  obtain rank gw' where p: "passes E p lo rank (initial_state session gw') = Stop st started err
      \<or> (passes E p lo rank (initial_state session gw') = Next st \<and> \<not> started \<and> err = Some (final_error st))"
    using plan_walk_passes(2) [OF assms(2)] by blast
  have h: "case passes E p lo rank (initial_state session gw') of
      Next st' \<Rightarrow> served_uncommitted E \<longrightarrow> call_inv (xe_cfg E) st'
    | Stop st' started err \<Rightarrow> served_uncommitted E \<longrightarrow> call_end (xe_cfg E) st' started err"
    by (rule walked.passes_holds) simp_all
  from p show ?thesis
  proof (elim disjE conjE)
    assume "passes E p lo rank (initial_state session gw') = Stop st started err"
    with h assms(1) show ?thesis by simp
  next
    assume n: "passes E p lo rank (initial_state session gw') = Next st" "\<not> started" "err = Some (final_error st)"
    have "call_inv (xe_cfg E) st" using h n(1) assms(1) by simp
    then show ?thesis using n(2,3)
      by (auto simp: call_inv_def call_end_def list_all_iff split: if_splits dest: in_set_butlastD)
  qed
qed

section \<open>Properties\<close>

lemma attempt_race_fold:
  "fold (attempt_step budget) evs AttemptPending = AttemptCommitted
     \<longleftrightarrow> (\<exists>pre post. evs = pre @ EvCommit # post \<and> (budget > 0 \<longrightarrow> EvTimer \<notin> set pre))"
  "fold (attempt_step budget) evs AttemptPending = AttemptExpired \<Longrightarrow> budget > 0 \<and> EvTimer \<in> set evs"
proof (induction evs)
  case (Cons ev evs)
  { case 1
    show ?case
    proof (cases ev)
      case EvCommit
      then show ?thesis by (auto simp: attempt_fold intro: exI [of _ "[]"])
    next
      case EvTimer
      show ?thesis
      proof (cases "budget > 0")
        case True
        then show ?thesis using EvTimer by (auto simp: attempt_fold Cons_eq_append_conv)
      next
        case False
        then show ?thesis using EvTimer Cons.IH(1) by (auto simp: Cons_eq_append_conv)
      qed
    qed
  next
    case 2
    then show ?case using Cons.IH(2) by (cases ev) (auto simp: attempt_fold split: if_splits)
  }
qed simp_all

text \<open>
  The race between an answer and its time budget has one winner: output is committed exactly
  when the call asked for it before the budget ran out, a committed attempt keeps its own result, and
  the result of a call is replaced by a timeout only when the budget ran out first, the call failed and
  the request itself was not cancelled.
\<close>
theorem attempt_race:
  assumes "runAttempt fmt provider budget ctxDone evs ret = (committed, err)"
  shows "(committed \<longleftrightarrow> (\<exists>pre post. evs = pre @ EvCommit # post \<and> (budget > 0 \<longrightarrow> EvTimer \<notin> set pre)))
    \<and> (committed \<longrightarrow> err = ret)
    \<and> (err \<noteq> ret \<longrightarrow> err = Some (tier_timeout fmt provider budget) \<and> ret \<noteq> None \<and> budget > 0 \<and> EvTimer \<in> set evs
         \<and> \<not> ctxDone)"
proof -
  define st where "st = fold (attempt_step budget) evs AttemptPending"
  have c: "committed \<longleftrightarrow> st = AttemptCommitted"
    and e: "err = (if ret \<noteq> None \<and> st = AttemptExpired \<and> \<not> ctxDone then Some (tier_timeout fmt provider budget) else ret)"
    using assms by (auto simp: runAttempt_def Let_def st_def [symmetric] split: if_splits)
  show ?thesis
    using attempt_race_fold [of budget evs, folded st_def] unfolding c e by (auto split: if_splits)
qed

theorem attempt_race_witness:
  "runAttempt (\<lambda>_. []) ''p'' second False [EvCommit, EvTimer] (Some ErrCanceled) = (True, Some ErrCanceled)
   \<and> runAttempt (\<lambda>_. []) ''p'' second False [EvTimer, EvCommit] (Some ErrFirstChunkLate)
     = (False, Some (tier_timeout (\<lambda>_. []) ''p'' second))"
proof -
  obtain c e where r: "runAttempt (\<lambda>_. []) ''p'' second False [EvCommit, EvTimer] (Some ErrCanceled) = (c, e)"
    by fastforce
  have "[EvCommit, EvTimer] = [] @ EvCommit # [EvTimer]" by simp
  then have "c \<and> e = Some ErrCanceled" using attempt_race [OF r] by (metis empty_iff empty_set)
  with r show ?thesis by (simp add: runAttempt_def)
qed


text \<open>
  A session that is pinned to a backup tier is never served by an earlier one: every
  upstream call of a request goes to a target of its plan, and to none below the tier the session is
  pinned to.
\<close>
theorem executor_session_floor:
  assumes "served_uncommitted E" and "plan_walk E p session gw = (lo, st, started, err)"
    and "XCall t c e \<in> set (xs_log st)"
  shows "t \<in> set (concat (pl_Tiers p)) \<and> (\<forall>f. floor_of E p session gw = Some f \<longrightarrow> f \<le> tg_Tier t)"
  using plan_walk_log [OF assms(1,2)] plan_walk_passes(1) [OF assms(2)] assms(3)
  unfolding log_inv_def by (metis option.simps(5))

text \<open>
  C4: The walk moves on only when it may: after every call but the last, nothing had been
  sent to the client and the error was one the target's policy falls through on. A request that forces
  a probe makes at most one call. A request that succeeds was answered by its last call, and the result
  names that call's target; a response that has started belongs to the last call too.
\<close>
theorem executor_moves_on_only:
  assumes "served_uncommitted E" and "plan_walk E p session gw = (lo, st, started, err)"
  shows "list_all (moved_on (xe_cfg E)) (butlast (calls_of st))
    \<and> (filter is_forced (xs_log st) \<noteq> [] \<longrightarrow> length (calls_of st) \<le> 1)
    \<and> (err = None \<longrightarrow> (\<exists>cs c e. calls_of st = cs @ [XCall (xr_Target (xs_res st)) c e]
          \<and> (e = None \<or> e = Some ErrServedWithoutCall)))
    \<and> (started \<longrightarrow> (\<exists>cs e. calls_of st = cs @ [XCall (xr_Target (xs_res st)) True e]))"
  using plan_walk_calls [OF assms] by (simp add: call_end_def)

text \<open>
  Sessions stick across requests: once a backup tier has served a session's request (or
  started to), the next request of the session on the same plan, before the pin expires, makes no
  call to an earlier tier, provided the pin names a tier the plan still reaches.
\<close>
theorem executor_session_sticks:
  assumes "served_uncommitted E" and "served_uncommitted E'"
    and "executePlan E p session gw = (res, started, err, fallbacks, gw1)" and "err = None \<or> started"
    and "pl_SessionAffinity p" and "session \<noteq> []"
    and "pl_Tiers p = (t0 # ts) # rest" and "tg_Tier t0 < tg_Tier (xr_Target res)"
    and "gw_affinity gw2 = gw_affinity gw1"
    and "\<And>i. xe_now E' 0 < xe_now E i + pl_SessionAffinityTTL p"
    and "\<And>f. fst (Pinned (xe_aff E') (xe_sha E') (xe_now E' 0) (xe_wall E' 0) (xe_ctx E' 0)
             \<lparr>ak_alias = pl_Alias p, ak_session = session\<rparr> (gw_affinity gw2)) = Some f
           \<Longrightarrow> \<exists>u \<in> set (concat (pl_Tiers p)). f \<le> tg_Tier u"
    and "plan_walk E' p session gw2 = (lo, st', started', err')" and "XCall t c e \<in> set (xs_log st')"
  shows "tg_Tier (xr_Target res) \<le> tg_Tier t"
proof -
  obtain lo1 st where w: "plan_walk E p session gw = (lo1, st, started, err)" and r: "res = xs_res st"
    and g: "gw_affinity gw1 = pinSession (xe_aff E) (xe_sha E) (xe_now E (xs_tick st)) (xe_wall E (xs_tick st)) p
              session (tg_Tier (xr_Target res)) (gw_affinity (xs_gw st))"
    using assms(3,4) by (auto simp: executePlan_def Let_def split: prod.splits)
  let ?k = "\<lparr>ak_alias = pl_Alias p, ak_session = session\<rparr>"
  define tier where "tier = tg_Tier (xr_Target res)"
  define s1 where "s1 = snd (localPin (xe_now E (xs_tick st)) ?k tier (pl_SessionAffinityTTL p) (gw_affinity (xs_gw st)))"
  have local: "as_local (gw_affinity gw2) = as_local s1"
    using assms(5-9) g by (simp add: pinSession_def Pin_local s1_def tier_def)
  have "\<exists>q \<ge> tier. localPinned (xe_now E' 0) ?k s1 = Some q"
    using assms(10) [of "xs_tick st"]
    by (auto simp: s1_def localPin_def Let_def localPinned_def map_of_set_pin split: option.splits if_splits)
  then obtain q where q: "tier \<le> q" "localPinned (xe_now E' 0) ?k (gw_affinity gw2) = Some q"
    using localPinned_local [OF local] by metis
  obtain pr s2 where pn: "Pinned (xe_aff E') (xe_sha E') (xe_now E' 0) (xe_wall E' 0) (xe_ctx E' 0) ?k (gw_affinity gw2) = (pr, s2)"
    by fastforce
  from Pinned_ge_local [OF q(2) pn] obtain f where f: "q \<le> f" "pr = Some f" by auto
  have "floor_of E' p session gw2 = Some f"
    using assms(5,6) assms(11) [of f] pn f(2) by (simp add: sessionFloor_def)
  then have "lo = Some f" using plan_walk_passes(1) [OF assms(12)] by simp
  then have "f \<le> tg_Tier t"
    using plan_walk_log [OF assms(2,12)] assms(13) unfolding log_inv_def by (metis option.simps(5))
  then show ?thesis using q(1) f(1) by (simp add: tier_def)
qed

section \<open>A request that falls back\<close>

text \<open>Two tiers; the first provider is not in the live registry, the second answers with a stream.\<close>

definition demo_tiers :: plan where
  "demo_tiers = (demo_plan [])\<lparr>pl_Tiers := [[demo_target ''a''], [(demo_target ''b'')\<lparr>tg_Tier := 1\<rparr>]],
     pl_SessionAffinity := True, pl_SessionAffinityTTL := minute\<rparr>"

definition no_redis :: "unit rdb_ops" where
  "no_redis = \<lparr>rdb_get = (\<lambda>r k. (RNil, r)), rdb_tx_set = (\<lambda>r k v d. (TxOK, r)), rdb_del = (\<lambda>r k. (True, r))\<rparr>"

definition demo_gateway :: "(unit, unit, string \<rightharpoonup> urecord, string \<rightharpoonup> int, string \<rightharpoonup> rat) gateway" where
  "demo_gateway = \<lparr>gw_reg = Register ''b'' () 1 NewRegistry,
     gw_breaker = \<lparr>bLocal = Map.empty, bRemote = None, bDownTill = None, bSeen = Map.empty, bEmitted = []\<rparr>,
     gw_unavail = unavail_new None, gw_affinity = aff_new None,
     gw_lcr = \<lparr>ls_rdb = None, ls_downTill = None\<rparr>,
     gw_router = \<lparr>rt_rr = (\<lambda>_. 0), rt_aliases = lc_new\<rparr>\<rparr>"

definition demo_env ::
  "(unit, unit, string \<rightharpoonup> urecord, string \<rightharpoonup> int, string \<rightharpoonup> rat, unit) xenv" where
  "demo_env = \<lparr>xe_brk = no_redis, xe_unv = map_ops, xe_aff = map_ops, xe_lcr = map_ops, xe_sha = id,
     xe_fmt = (\<lambda>_. []), xe_cfg = zero_failover, xe_prices = new_table, xe_supports = (\<lambda>_. None),
     xe_now = (\<lambda>_. 0), xe_wall = (\<lambda>_. 0), xe_ctx = (\<lambda>_. False),
     xe_call = (\<lambda>_ _ t. ([EvCommit], None)),
     xe_other = (\<lambda>_ g. g)\<rparr>"

lemma demo_served: "served_uncommitted demo_env"
  by (simp add: served_uncommitted_def demo_env_def)

lemmas demo_eval = plan_walk_def demo_env_def demo_tiers_def demo_plan_def demo_gateway_def sessionFloor_def aff_new_def
  Pinned_def localPinned_def lcrRank_def initial_state_def passes_def next_round_def NextRR_def Ordered_def
  orderTier_def visit_def passed_over_def tick_def registry_Get_def Register_def NewRegistry_def demo_target_def
  admit_stage_def breakerSettings_def breaker_targets_def no_options_def layered_settings_def apply_layer_def
  zero_failover_def no_breaker_options_def Defaults_def breaker_admit_def admitted_def with_breaker_def log_ev_def
  unavail_stage_def unavail_Check_def unavail_load_def unavail_new_def acquire_stage_def reg_acquire_def Acquire_def
  attempt_stage_def runAttempt_def after_call_def policyFor_def record_outcome_def brk_env_def
  record_avail_def record_success_def reg_release_def Release_def breaker_record_def

abbreviation demo_b :: target where "demo_b \<equiv> (demo_target ''b'')\<lparr>tg_Tier := 1\<rparr>"

lemma demo_calls:
  "calls_of (fst (snd (plan_walk demo_env demo_tiers ''call'' demo_gateway))) = [XCall demo_b True None]"
  by (simp add: demo_eval Let_def)

text \<open>The gateway after that request: its session is pinned to the second tier.\<close>

definition demo_pinned :: "(unit, unit, string \<rightharpoonup> urecord, string \<rightharpoonup> int, string \<rightharpoonup> rat) gateway" where
  "demo_pinned = demo_gateway\<lparr>gw_affinity := (aff_new None)
     \<lparr>as_local := [(\<lparr>ak_alias = ''a'', ak_session = ''call''\<rparr>, \<lparr>pin_tier = 1, pin_until = minute\<rparr>)]\<rparr>\<rparr>"

lemma demo_executed:
  "\<exists>res fb gw1. executePlan demo_env demo_tiers ''call'' demo_gateway = (res, True, None, fb, gw1)
     \<and> xr_Target res = demo_b \<and> gw_affinity gw1 = gw_affinity demo_pinned"
  by (simp add: executePlan_def demo_eval Let_def demo_pinned_def pinSession_def Pin_def localPin_def aff_sweep_def
      set_pin_def)

lemma demo_pinned_floor: "floor_of demo_env demo_tiers ''call'' demo_pinned = Some 1"
  by (simp add: demo_pinned_def demo_eval)

lemma demo_pinned_calls:
  "calls_of (fst (snd (plan_walk demo_env demo_tiers ''call'' demo_pinned))) = [XCall demo_b True None]"
  by (simp add: demo_pinned_def demo_eval Let_def)

lemma calls_of_log: "calls_of st = [ev] \<Longrightarrow> ev \<in> set (xs_log st)"
  using filter_is_subset [of is_call "xs_log st"] by simp


theorem executor_session_floor_witness:
  "floor_of demo_env demo_tiers ''call'' demo_pinned = Some 1 \<and> demo_b \<in> set (concat (pl_Tiers demo_tiers))
   \<and> 1 \<le> tg_Tier demo_b"
proof -
  obtain lo st started err where w: "plan_walk demo_env demo_tiers ''call'' demo_pinned = (lo, st, started, err)"
    by (metis prod_cases4)
  have "XCall demo_b True None \<in> set (xs_log st)" using demo_pinned_calls w by (intro calls_of_log) simp
  from executor_session_floor [OF demo_served w this] demo_pinned_floor show ?thesis by blast
qed

theorem executor_moves_on_only_witness:
  "let (lo, st, started, err) = plan_walk demo_env demo_tiers ''call'' demo_gateway
   in list_all (moved_on zero_failover) (butlast (calls_of st)) \<and> calls_of st = [XCall demo_b True None]"
proof -
  obtain lo st started err where w: "plan_walk demo_env demo_tiers ''call'' demo_gateway = (lo, st, started, err)"
    by (metis prod_cases4)
  have "xe_cfg demo_env = zero_failover" by (simp add: demo_env_def)
  then show ?thesis using executor_moves_on_only [OF demo_served w] demo_calls w by simp
qed

theorem executor_session_sticks_witness:
  "\<exists>res fb gw1. executePlan demo_env demo_tiers ''call'' demo_gateway = (res, True, None, fb, gw1)
     \<and> 0 < tg_Tier (xr_Target res) \<and> tg_Tier (xr_Target res) \<le> tg_Tier demo_b
     \<and> calls_of (fst (snd (plan_walk demo_env demo_tiers ''call'' demo_pinned))) = [XCall demo_b True None]"
proof -
  obtain res fb gw1 where x: "executePlan demo_env demo_tiers ''call'' demo_gateway = (res, True, None, fb, gw1)"
    "xr_Target res = demo_b" "gw_affinity demo_pinned = gw_affinity gw1" using demo_executed by metis
  obtain lo st started err where w: "plan_walk demo_env demo_tiers ''call'' demo_pinned = (lo, st, started, err)"
    by (metis prod_cases4)
  have "XCall demo_b True None \<in> set (xs_log st)" using demo_pinned_calls w by (intro calls_of_log) simp
  from executor_session_sticks [OF demo_served demo_served x(1) _ _ _ _ _ x(3) _ _ w this]
  have "tg_Tier (xr_Target res) \<le> tg_Tier demo_b"
    by (auto simp: demo_tiers_def demo_plan_def x(2) demo_target_def demo_env_def demo_pinned_def aff_new_def
        Pinned_def localPinned_def demo_gateway_def)
  moreover have "0 < tg_Tier (xr_Target res)" by (simp add: x(2))
  ultimately show ?thesis using x(1) demo_pinned_calls by blast
qed

end
