(* ===== verification/ChatTypes.thy ===== *)
theory ChatTypes
  imports Usage
begin

text \<open>
  The provider-neutral requests, responses and stream chunks (\<open>internal/llm/types.go\<close>). Raw JSON
  is its text. What \<open>encoding/json\<close> finds in a text is a parameter: a record of decoders, one per
  shape the code asks for, with \<open>None\<close> for a text that does not have the shape.
\<close>

section \<open>Data\<close>

record image =
  im_URL :: string
  im_Detail :: string

record functionCall =
  fc_Name :: string
  fc_Arguments :: string

record toolCall =
  tc_ID :: string
  tc_Type :: string
  tc_Function :: functionCall
  tc_ExtraContent :: string

record message =
  m_Role :: string
  m_Content :: string
  m_Images :: "image list"
  m_Name :: string
  m_ToolCalls :: "toolCall list"
  m_ToolCallID :: string

record toolCallDelta =
  td_Index :: int
  td_ID :: string
  td_Type :: string
  td_Function :: functionCall
  td_ExtraContent :: string

record functionDef =
  fd_Name :: string
  fd_Description :: string
  fd_Parameters :: string

record tool =
  tl_Type :: string
  tl_Function :: functionDef

record chatRequest =
  cr_Model :: string
  cr_Messages :: "message list"
  cr_Tools :: "tool list"
  cr_ToolChoice :: string
  cr_ParallelToolCalls :: "bool option"
  cr_Temperature :: "rat option"
  cr_MaxTokens :: "int option"
  cr_Stream :: bool
  cr_IncludeStreamUsage :: bool
  cr_Extra :: "(string \<times> string) list"
  cr_ThinkingOff :: bool

record choice =
  ch_Index :: int
  ch_Message :: message
  ch_FinishReason :: string

record chatResponse =
  rs_ID :: string
  rs_Model :: string
  rs_Created :: int
  rs_Choices :: "choice list"
  rs_Usage :: usage

record streamChunk =
  sc_Role :: string
  sc_Content :: string
  sc_ToolCalls :: "toolCallDelta list"
  sc_FinishReason :: string
  sc_Usage :: "usage option"

definition zero_message :: message where
  "zero_message = \<lparr>m_Role = [], m_Content = [], m_Images = [], m_Name = [], m_ToolCalls = [],
     m_ToolCallID = []\<rparr>"

definition zero_chunk :: streamChunk where
  "zero_chunk = \<lparr>sc_Role = [], sc_Content = [], sc_ToolCalls = [], sc_FinishReason = [], sc_Usage = None\<rparr>"

section \<open>Decoding a message\<close>

record contentPart =
  cp_Type :: string
  cp_Text :: string
  cp_ImageURL :: "(string \<times> string) option"

record messageWire =
  mw_Role :: string
  mw_Content :: string
  mw_Name :: string
  mw_ToolCalls :: "toolCall list"
  mw_ToolCallID :: string

record message_decoders =
  dec_direct :: "string \<Rightarrow> message option"
  dec_wire :: "string \<Rightarrow> messageWire option"
  dec_parts :: "string \<Rightarrow> contentPart list option"

definition image_of_part :: "contentPart \<Rightarrow> image list" where
  "image_of_part p =
     (if cp_Type p = ''image_url'' then
        (case cp_ImageURL p of None \<Rightarrow> [] | Some (url, detail) \<Rightarrow> [\<lparr>im_URL = url, im_Detail = detail\<rparr>])
      else [])"

definition text_of_part :: "contentPart \<Rightarrow> string" where
  "text_of_part p = (if cp_Type p = ''text'' then cp_Text p else [])"

text \<open>\<open>Images\<close> carries the tag \<open>json:"-"\<close>, so the direct decode never fills it.\<close>

definition message_UnmarshalJSON :: "message_decoders \<Rightarrow> string \<Rightarrow> message option" where
  "message_UnmarshalJSON D b =
     (case dec_direct D b of
        Some m \<Rightarrow> Some (m\<lparr>m_Images := []\<rparr>)
      | None \<Rightarrow>
          (case dec_wire D b of
             None \<Rightarrow> None
           | Some w \<Rightarrow>
               (case dec_parts D (mw_Content w) of
                  None \<Rightarrow> None
                | Some parts \<Rightarrow>
                    Some \<lparr>m_Role = mw_Role w, m_Content = concat (map text_of_part parts),
                      m_Images = concat (map image_of_part parts), m_Name = mw_Name w,
                      m_ToolCalls = mw_ToolCalls w, m_ToolCallID = mw_ToolCallID w\<rparr>)))"

record function_decoders =
  dec_function :: "string \<Rightarrow> (string \<times> string) option"
  dec_string :: "string \<Rightarrow> string option"

definition functionCall_UnmarshalJSON :: "function_decoders \<Rightarrow> string \<Rightarrow> functionCall option" where
  "functionCall_UnmarshalJSON D b =
     (case dec_function D b of
        None \<Rightarrow> None
      | Some (name, raw) \<Rightarrow>
          Some \<lparr>fc_Name = name, fc_Arguments =
            (if raw = [] \<or> raw = ''null'' then []
             else case dec_string D raw of Some s \<Rightarrow> s | None \<Rightarrow> raw)\<rparr>)"

end
