(* ===== verification/StreamDecode.thy ===== *)
theory StreamDecode
  imports ChatTypes
begin

text \<open>
  Reading an upstream's event stream (\<open>internal/providers/sse_decode.go\<close>, \<open>ParseStreamChunk\<close> of
  \<open>internal/openai/client.go\<close>). The lines are those the scanner delivers before it stops, with the
  error it stopped on; the JSON decoder is a parameter. The callback \<open>yield\<close> is a state transformer
  that may fail, so the model covers every egress.
\<close>

section \<open>Model\<close>

record upstreamDelta =
  ud_Role :: string
  ud_Content :: string
  ud_ToolCalls :: "toolCallDelta list"
  ud_FinishReason :: "string option"

record upstreamChunk =
  uc_Choices :: "upstreamDelta list"
  uc_Usage :: "usage option"

definition ParseStreamChunk :: "(string \<Rightarrow> upstreamChunk option) \<Rightarrow> string \<Rightarrow> streamChunk option" where
  "ParseStreamChunk json data =
     (case json data of
        None \<Rightarrow> None
      | Some w \<Rightarrow>
          (let c = zero_chunk\<lparr>sc_Usage := uc_Usage w\<rparr> in
           Some (case uc_Choices w of
             [] \<Rightarrow> c
           | d # _ \<Rightarrow>
               c\<lparr>sc_Role := ud_Role d, sc_Content := ud_Content d, sc_ToolCalls := ud_ToolCalls d,
                 sc_FinishReason := (case ud_FinishReason d of None \<Rightarrow> [] | Some r \<Rightarrow> r)\<rparr>)))"

record streamDecodeOptions =
  opt_provider :: string
  coalesceUsage :: bool

definition hasDelta :: "streamChunk \<Rightarrow> bool" where
  "hasDelta c \<longleftrightarrow> sc_Role c \<noteq> [] \<or> sc_Content c \<noteq> [] \<or> sc_ToolCalls c \<noteq> []"

definition hasPayload :: "streamChunk \<Rightarrow> bool" where
  "hasPayload c \<longleftrightarrow> hasDelta c \<or> sc_FinishReason c \<noteq> []"

definition synthesizedFinishReason :: "bool \<Rightarrow> string" where
  "synthesizedFinishReason sawToolCalls = (if sawToolCalls then ''tool_calls'' else ''stop'')"

type_synonym ('s, 'e) yielder = "'s \<Rightarrow> streamChunk \<Rightarrow> 's \<times> 'e option"

definition yieldSplittingFinish :: "('s, 'e) yielder \<Rightarrow> 's \<Rightarrow> streamChunk \<Rightarrow> 's \<times> 'e option" where
  "yieldSplittingFinish yield s c =
     (if sc_FinishReason c = [] \<or> \<not> hasDelta c then yield s c
      else case yield s (c\<lparr>sc_FinishReason := []\<rparr>) of
             (s1, Some e) \<Rightarrow> (s1, Some e)
           | (s1, None) \<Rightarrow> yield s1 (zero_chunk\<lparr>sc_FinishReason := sc_FinishReason c\<rparr>))"

text \<open>The local variables of the loop.\<close>

record decode_state =
  ds_sawFinish :: bool
  ds_sawToolCalls :: bool
  ds_coalesced :: "usage option"

text \<open>One line: what the scanner's line is to the loop.\<close>

datatype sse_line = Skip | Done | Chunk streamChunk

definition classify_line :: "(string \<Rightarrow> upstreamChunk option) \<Rightarrow> string \<Rightarrow> sse_line" where
  "classify_line json line =
     (if \<not> has_prefix line ''data:'' then Skip
      else let data = trim_space (drop (length ''data:'') line) in
           if data = [] then Skip
           else if data = ''[DONE]'' then Done
           else case ParseStreamChunk json data of None \<Rightarrow> Skip | Some c \<Rightarrow> Chunk c)"

text \<open>The body of the loop for a chunk.\<close>

definition decode_chunk ::
  "streamDecodeOptions \<Rightarrow> ('s, 'e) yielder \<Rightarrow> decode_state \<Rightarrow> 's \<Rightarrow> streamChunk
     \<Rightarrow> decode_state \<times> 's \<times> 'e option" where
  "decode_chunk opts yield d0 s c0 =
     (let d = d0\<lparr>ds_sawFinish := ds_sawFinish d0 \<or> sc_FinishReason c0 \<noteq> [],
                 ds_sawToolCalls := ds_sawToolCalls d0 \<or> sc_ToolCalls c0 \<noteq> []\<rparr> in
      case sc_Usage c0 of
        None \<Rightarrow> (d, yieldSplittingFinish yield s c0)
      | Some u \<Rightarrow>
          (let c1 = c0\<lparr>sc_Usage := None\<rparr>;
               (d2, c, usage) =
                 (if coalesceUsage opts then (d\<lparr>ds_coalesced := Some u\<rparr>, c1, None)
                  else if \<not> ds_sawFinish d then
                    (d\<lparr>ds_sawFinish := True\<rparr>,
                     c1\<lparr>sc_FinishReason := synthesizedFinishReason (ds_sawToolCalls d)\<rparr>, Some u)
                  else (d, c1, Some u));
               (s1, e1) = (if hasPayload c then yieldSplittingFinish yield s c else (s, None))
           in case e1 of
                Some e \<Rightarrow> (d2, s1, Some e)
              | None \<Rightarrow>
                  (case usage of
                     None \<Rightarrow> (d2, s1, None)
                   | Some v \<Rightarrow> (d2, yield s1 (zero_chunk\<lparr>sc_Usage := Some v\<rparr>)))))"

fun decode_lines ::
  "(string \<Rightarrow> upstreamChunk option) \<Rightarrow> streamDecodeOptions \<Rightarrow> ('s, 'e) yielder \<Rightarrow> decode_state \<Rightarrow> 's
     \<Rightarrow> string list \<Rightarrow> decode_state \<times> 's \<times> 'e option" where
  "decode_lines json opts yield d s [] = (d, s, None)"
| "decode_lines json opts yield d s (line # lines) =
     (case classify_line json line of
        Skip \<Rightarrow> decode_lines json opts yield d s lines
      | Done \<Rightarrow> (d, s, None)
      | Chunk c \<Rightarrow>
          (case decode_chunk opts yield d s c of
             (d1, s1, Some e) \<Rightarrow> (d1, s1, Some e)
           | (d1, s1, None) \<Rightarrow> decode_lines json opts yield d1 s1 lines))"

definition init_decode :: decode_state where
  "init_decode = \<lparr>ds_sawFinish = False, ds_sawToolCalls = False, ds_coalesced = None\<rparr>"

text \<open>The end of the stream: a missing finish signal, then the usage held back.\<close>

definition decode_end :: "('s, 'e) yielder \<Rightarrow> decode_state \<Rightarrow> 's \<Rightarrow> 's \<times> 'e option" where
  "decode_end yield d s =
     (let (s1, e1) =
        (if \<not> ds_sawFinish d
         then yield s (zero_chunk\<lparr>sc_FinishReason := synthesizedFinishReason (ds_sawToolCalls d)\<rparr>)
         else (s, None))
      in case e1 of
           Some e \<Rightarrow> (s1, Some e)
         | None \<Rightarrow>
             (case ds_coalesced d of
                None \<Rightarrow> (s1, None)
              | Some u \<Rightarrow> yield s1 (zero_chunk\<lparr>sc_Usage := Some u\<rparr>)))"

definition decodeSSEStream ::
  "(string \<Rightarrow> upstreamChunk option) \<Rightarrow> streamDecodeOptions \<Rightarrow> ('s, 'e) yielder \<Rightarrow> 's
     \<Rightarrow> string list \<Rightarrow> 'e option \<Rightarrow> 's \<times> 'e option" where
  "decodeSSEStream json opts yield s lines scan_err =
     (case decode_lines json opts yield init_decode s lines of
        (d, s1, Some e) \<Rightarrow> (s1, Some e)
      | (d, s1, None) \<Rightarrow>
          (case scan_err of
             Some e \<Rightarrow> (s1, Some e)
           | None \<Rightarrow> decode_end yield d s1))"

section \<open>What a stream yields\<close>

text \<open>Handing a list of chunks to a callback until it fails.\<close>

fun feed :: "('s, 'e) yielder \<Rightarrow> 's \<Rightarrow> streamChunk list \<Rightarrow> 's \<times> 'e option" where
  "feed yield s [] = (s, None)"
| "feed yield s (c # cs) =
     (case yield s c of (s1, Some e) \<Rightarrow> (s1, Some e) | (s1, None) \<Rightarrow> feed yield s1 cs)"

lemma feed_append:
  "feed yield s (a @ b) =
     (case feed yield s a of (s1, Some e) \<Rightarrow> (s1, Some e) | (s1, None) \<Rightarrow> feed yield s1 b)"
  by (induction a arbitrary: s) (auto split: prod.splits option.splits)

lemma feed_one: "feed yield s [c] = yield s c"
  by (auto split: prod.splits option.splits)

text \<open>The chunks of the loop, apart from the callback.\<close>

definition split_finish :: "streamChunk \<Rightarrow> streamChunk list" where
  "split_finish c =
     (if sc_FinishReason c = [] \<or> \<not> hasDelta c then [c]
      else [c\<lparr>sc_FinishReason := []\<rparr>, zero_chunk\<lparr>sc_FinishReason := sc_FinishReason c\<rparr>])"

definition see :: "decode_state \<Rightarrow> streamChunk \<Rightarrow> decode_state" where
  "see d c = d\<lparr>ds_sawFinish := ds_sawFinish d \<or> sc_FinishReason c \<noteq> [],
     ds_sawToolCalls := ds_sawToolCalls d \<or> sc_ToolCalls c \<noteq> []\<rparr>"

definition payload :: "streamChunk \<Rightarrow> streamChunk list" where
  "payload c = (if hasPayload c then split_finish c else [])"

definition emit_chunk :: "streamDecodeOptions \<Rightarrow> decode_state \<Rightarrow> streamChunk \<Rightarrow> decode_state \<times> streamChunk list" where
  "emit_chunk opts d0 c =
     (let d = see d0 c; c1 = c\<lparr>sc_Usage := None\<rparr> in
      case sc_Usage c of
        None \<Rightarrow> (d, split_finish c)
      | Some u \<Rightarrow>
          if coalesceUsage opts then (d\<lparr>ds_coalesced := Some u\<rparr>, payload c1)
          else if \<not> ds_sawFinish d then
            (d\<lparr>ds_sawFinish := True\<rparr>,
             payload (c1\<lparr>sc_FinishReason := synthesizedFinishReason (ds_sawToolCalls d)\<rparr>)
               @ [zero_chunk\<lparr>sc_Usage := Some u\<rparr>])
          else (d, payload c1 @ [zero_chunk\<lparr>sc_Usage := Some u\<rparr>]))"

fun emit_all :: "streamDecodeOptions \<Rightarrow> decode_state \<Rightarrow> streamChunk list \<Rightarrow> decode_state \<times> streamChunk list" where
  "emit_all opts d [] = (d, [])"
| "emit_all opts d (c # cs) =
     (let (d1, xs) = emit_chunk opts d c; (d2, ys) = emit_all opts d1 cs in (d2, xs @ ys))"

definition end_chunks :: "decode_state \<Rightarrow> streamChunk list" where
  "end_chunks d =
     (if ds_sawFinish d then []
      else [zero_chunk\<lparr>sc_FinishReason := synthesizedFinishReason (ds_sawToolCalls d)\<rparr>])
     @ (case ds_coalesced d of None \<Rightarrow> [] | Some u \<Rightarrow> [zero_chunk\<lparr>sc_Usage := Some u\<rparr>])"

text \<open>The chunks an upstream sends before it is done, and what becomes of them.\<close>

fun sent :: "(string \<Rightarrow> upstreamChunk option) \<Rightarrow> string list \<Rightarrow> streamChunk list" where
  "sent json [] = []"
| "sent json (line # lines) =
     (case classify_line json line of
        Skip \<Rightarrow> sent json lines
      | Done \<Rightarrow> []
      | Chunk c \<Rightarrow> c # sent json lines)"

definition decoded :: "(string \<Rightarrow> upstreamChunk option) \<Rightarrow> streamDecodeOptions \<Rightarrow> string list \<Rightarrow> streamChunk list" where
  "decoded json opts lines = (let (d, cs) = emit_all opts init_decode (sent json lines) in cs @ end_chunks d)"

lemma split_finish_feed: "yieldSplittingFinish yield s c = feed yield s (split_finish c)"
  by (auto simp: yieldSplittingFinish_def split_finish_def feed_one split: prod.splits option.splits)

lemma decode_chunk_feed:
  "decode_chunk opts yield d s c = (case emit_chunk opts d c of (d1, cs) \<Rightarrow> (d1, feed yield s cs))"
proof (cases "sc_Usage c")
  case None
  then show ?thesis
    by (simp add: decode_chunk_def emit_chunk_def see_def split_finish_feed Let_def)
next
  case (Some u)
  have y: "(case feed yield s (payload c') of (s1, Some e) \<Rightarrow> (d', s1, Some e)
            | (s1, None) \<Rightarrow> (d', yield s1 x)) = (d', feed yield s (payload c' @ [x]))" for c' d' x
    by (auto simp: feed_append feed_one split: prod.splits option.splits)
  have p: "(if hasPayload c' then yieldSplittingFinish yield s c' else (s, None)) = feed yield s (payload c')" for c'
    by (simp add: payload_def split_finish_feed)
  have z: "(case feed yield s (payload c') of (s1, Some e) \<Rightarrow> (d', s1, Some e) | (s1, None) \<Rightarrow> (d', s1, None))
     = (d', feed yield s (payload c'))" for c' and d' :: decode_state
    by (auto split: prod.splits option.splits)
  show ?thesis unfolding decode_chunk_def emit_chunk_def Some option.case Let_def p see_def [symmetric]
    by (auto simp: y z split: prod.splits)
qed

lemma decode_lines_feed:
  "decode_lines json opts yield d s lines =
     (case emit_all opts d (sent json lines) of (d1, cs) \<Rightarrow>
        (case feed yield s cs of (s1, None) \<Rightarrow> (d1, s1, None) | (s1, Some e) \<Rightarrow>
           (fst (decode_lines json opts yield d s lines), s1, Some e)))"
proof (induction lines arbitrary: d s)
  case Nil
  show ?case by simp
next
  case (Cons line lines)
  show ?case
  proof (cases "classify_line json line")
    case (Chunk c)
    obtain d1 xs where x: "emit_chunk opts d c = (d1, xs)" by fastforce
    obtain s1 e1 where f: "feed yield s xs = (s1, e1)" by fastforce
    show ?thesis
    proof (cases e1)
      case None
      with Cons [of d1 s1] Chunk x f show ?thesis
        by (auto simp: decode_chunk_feed feed_append split: prod.splits option.splits)
    next
      case (Some e)
      with Chunk x f show ?thesis by (auto simp: decode_chunk_feed feed_append split: prod.splits)
    qed
  qed (use Cons [of d s] in \<open>auto split: prod.splits option.splits\<close>)
qed

lemma decode_end_feed: "decode_end yield d s = feed yield s (end_chunks d)"
  by (auto simp: decode_end_def end_chunks_def split: prod.splits option.splits)

lemma decode_feed: "decodeSSEStream json opts yield s lines None = feed yield s (decoded json opts lines)"
proof -
  obtain d cs where e: "emit_all opts init_decode (sent json lines) = (d, cs)" by fastforce
  show ?thesis using decode_lines_feed [of json opts yield init_decode s lines] e
    unfolding decodeSSEStream_def decoded_def
    by (auto simp: feed_append decode_end_feed split: prod.splits option.splits)
qed

section \<open>The contract of a stream\<close>

abbreviation finishes :: "streamChunk \<Rightarrow> bool" where "finishes c \<equiv> sc_FinishReason c \<noteq> []"

definition pure_chunk :: "streamChunk \<Rightarrow> bool" where
  "pure_chunk c \<longleftrightarrow>
     \<not> (hasDelta c \<and> finishes c) \<and> \<not> (hasDelta c \<and> sc_Usage c \<noteq> None) \<and> \<not> (finishes c \<and> sc_Usage c \<noteq> None)"

definition usages :: "streamChunk list \<Rightarrow> usage list" where
  "usages cs = List.map_filter sc_Usage cs"

definition finish_count :: "streamChunk list \<Rightarrow> nat" where
  "finish_count cs = length (filter finishes cs)"

definition texts :: "streamChunk list \<Rightarrow> string" where
  "texts cs = concat (map sc_Content cs)"

definition deltas :: "streamChunk list \<Rightarrow> toolCallDelta list" where
  "deltas cs = concat (map sc_ToolCalls cs)"

text \<open>The chunks up to the first usage report, that one included.\<close>

fun till_usage :: "streamChunk list \<Rightarrow> streamChunk list" where
  "till_usage [] = []"
| "till_usage (c # cs) = (if sc_Usage c = None then c # till_usage cs else [c])"

text \<open>Usage is only reported after a finish signal.\<close>

fun usage_last :: "bool \<Rightarrow> streamChunk list \<Rightarrow> bool" where
  "usage_last seen [] = True"
| "usage_last seen (c # cs) = ((sc_Usage c \<noteq> None \<longrightarrow> seen) \<and> usage_last (seen \<or> finishes c) cs)"

lemmas stream_counts = usages_def finish_count_def texts_def deltas_def map_filter_simps

lemma counts_Nil [simp]: "usages [] = []" "finish_count [] = 0" "texts [] = []" "deltas [] = []"
  by (simp_all add: stream_counts)

lemma counts_Cons [simp]:
  "usages (c # cs) = (case sc_Usage c of None \<Rightarrow> usages cs | Some u \<Rightarrow> u # usages cs)"
  "finish_count (c # cs) = (if finishes c then 1 else 0) + finish_count cs"
  "texts (c # cs) = sc_Content c @ texts cs"
  "deltas (c # cs) = sc_ToolCalls c @ deltas cs"
  by (simp_all add: stream_counts split: option.split)

lemma counts_append [simp]:
  "usages (a @ b) = usages a @ usages b"
  "finish_count (a @ b) = finish_count a + finish_count b"
  "texts (a @ b) = texts a @ texts b"
  "deltas (a @ b) = deltas a @ deltas b"
  by (induction a) (auto split: option.splits)

lemma usage_last_append [simp]:
  "usage_last seen (a @ b) \<longleftrightarrow> usage_last seen a \<and> usage_last (seen \<or> finish_count a > 0) b"
  by (induction a arbitrary: seen) auto

lemma zero_chunk_simps [simp]:
  "sc_Role zero_chunk = []" "sc_Content zero_chunk = []" "sc_ToolCalls zero_chunk = []"
  "sc_FinishReason zero_chunk = []" "sc_Usage zero_chunk = None"
  by (simp_all add: zero_chunk_def)

lemma synthesized_ne [simp]: "synthesizedFinishReason b \<noteq> []"
  by (simp add: synthesizedFinishReason_def)

lemma split_finish_counts:
  assumes "sc_Usage c = None"
  shows "usages (split_finish c) = []" and "finish_count (split_finish c) = (if finishes c then 1 else 0)"
    and "texts (split_finish c) = sc_Content c" and "deltas (split_finish c) = sc_ToolCalls c"
    and "list_all pure_chunk (split_finish c)" and "usage_last b (split_finish c)"
  using assms by (auto simp: split_finish_def pure_chunk_def hasDelta_def)

lemma payload_counts:
  assumes "sc_Usage c = None"
  shows "usages (payload c) = []" and "finish_count (payload c) = (if finishes c then 1 else 0)"
    and "texts (payload c) = sc_Content c" and "deltas (payload c) = sc_ToolCalls c"
    and "list_all pure_chunk (payload c)" and "usage_last b (payload c)"
  using split_finish_counts [OF assms] by (auto simp: payload_def hasPayload_def hasDelta_def)

text \<open>What one chunk of the upstream contributes.\<close>

lemma emit_chunk_spec:
  assumes "emit_chunk opts d c = (d1, xs)"
  shows "list_all pure_chunk xs" and "texts xs = sc_Content c" and "deltas xs = sc_ToolCalls c"
    and "usages xs = (if coalesceUsage opts then [] else usages [c])"
    and "ds_coalesced d1 = (if coalesceUsage opts \<and> sc_Usage c \<noteq> None then sc_Usage c else ds_coalesced d)"
    and "ds_sawFinish d1 \<longleftrightarrow> ds_sawFinish d \<or> finish_count xs > 0"
    and "finish_count xs = (if finishes c then 1 else 0) +
      (if \<not> coalesceUsage opts \<and> sc_Usage c \<noteq> None \<and> \<not> ds_sawFinish d \<and> \<not> finishes c then 1 else 0)"
    and "usage_last (ds_sawFinish d) xs"
  using assms unfolding emit_chunk_def Let_def
  by (auto simp: split_finish_counts payload_counts see_def pure_chunk_def hasDelta_def
      split: option.splits if_splits)

lemma emit_all_spec:
  assumes "emit_all opts d cs = (d1, xs)"
  shows "list_all pure_chunk xs \<and> texts xs = texts cs \<and> deltas xs = deltas cs
    \<and> usages xs = (if coalesceUsage opts then [] else usages cs)
    \<and> ds_coalesced d1 = (if coalesceUsage opts \<and> usages cs \<noteq> [] then Some (last (usages cs)) else ds_coalesced d)
    \<and> (ds_sawFinish d1 \<longleftrightarrow> ds_sawFinish d \<or> finish_count xs > 0)
    \<and> finish_count xs = finish_count cs +
        (if \<not> coalesceUsage opts \<and> \<not> ds_sawFinish d \<and> usages cs \<noteq> [] \<and> finish_count (till_usage cs) = 0
         then 1 else 0)
    \<and> usage_last (ds_sawFinish d) xs"
  using assms
proof (induction cs arbitrary: d d1 xs)
  case Nil
  then show ?case by simp
next
  case (Cons c cs)
  obtain d2 ys where e: "emit_chunk opts d c = (d2, ys)" by fastforce
  obtain d3 zs where a: "emit_all opts d2 cs = (d3, zs)" by fastforce
  have x: "d1 = d3" "xs = ys @ zs" using Cons.prems e a by auto
  note s = emit_chunk_spec [OF e] and i = Cons.IH [OF a]
  show ?case unfolding x
  proof (intro conjI)
    show "usages (ys @ zs) = (if coalesceUsage opts then [] else usages (c # cs))"
      using s(4) i by (auto split: option.splits)
    show "ds_coalesced d3 = (if coalesceUsage opts \<and> usages (c # cs) \<noteq> [] then Some (last (usages (c # cs))) else ds_coalesced d)"
      using s(5) i by (auto split: option.splits)
    show "finish_count (ys @ zs) = finish_count (c # cs) +
        (if \<not> coalesceUsage opts \<and> \<not> ds_sawFinish d \<and> usages (c # cs) \<noteq> [] \<and> finish_count (till_usage (c # cs)) = 0
         then 1 else 0)"
      using s(6,7) i by (auto split: option.splits if_splits)
    show "usage_last (ds_sawFinish d) (ys @ zs)" using s(6,8) i by simp
  qed (use s i in auto)
qed

lemma till_usage_le: "finish_count (till_usage xs) \<le> finish_count xs"
  by (induction xs) auto

lemma decoded_contract:
  "list_all pure_chunk (decoded json opts lines)
   \<and> usage_last False (decoded json opts lines)
   \<and> texts (decoded json opts lines) = texts (sent json lines)
   \<and> deltas (decoded json opts lines) = deltas (sent json lines)
   \<and> usages (decoded json opts lines) =
       (let us = usages (sent json lines) in
        if coalesceUsage opts then (if us = [] then [] else [last us]) else us)
   \<and> finish_count (decoded json opts lines) = finish_count (sent json lines) +
       (if finish_count (if coalesceUsage opts then sent json lines else till_usage (sent json lines)) = 0
        then 1 else 0)"
proof -
  obtain d cs where e: "emit_all opts init_decode (sent json lines) = (d, cs)" by fastforce
  have x: "decoded json opts lines = cs @ end_chunks d" by (simp add: decoded_def e)
  note i = emit_all_spec [OF e]
  note t = till_usage_le
  have u: "usages xs = [] \<Longrightarrow> till_usage xs = xs" for xs by (induction xs) (auto split: option.splits)
  have n: "\<not> ds_sawFinish init_decode" "ds_coalesced init_decode = None" by (simp_all add: init_decode_def)
  show ?thesis unfolding x
  proof (intro conjI)
    show "list_all pure_chunk (cs @ end_chunks d)"
      using i by (auto simp: end_chunks_def pure_chunk_def hasDelta_def split: option.splits)
    show "usage_last False (cs @ end_chunks d)"
      using i n by (auto simp: end_chunks_def split: option.splits)
    show "texts (cs @ end_chunks d) = texts (sent json lines)" "deltas (cs @ end_chunks d) = deltas (sent json lines)"
      using i by (auto simp: end_chunks_def split: option.splits)
    show "usages (cs @ end_chunks d) = (let us = usages (sent json lines) in
        if coalesceUsage opts then (if us = [] then [] else [last us]) else us)"
      using i n by (auto simp: end_chunks_def split: option.splits)
    show "finish_count (cs @ end_chunks d) = finish_count (sent json lines) +
       (if finish_count (if coalesceUsage opts then sent json lines else till_usage (sent json lines)) = 0
        then 1 else 0)"
      using i n u [of "sent json lines"] t [of "sent json lines"]
      by (auto simp: end_chunks_def split: option.splits)
  qed
qed

section \<open>Properties\<close>

text \<open>
  C7: The streaming loop keeps the contract the egresses read a stream by,
  whatever the upstream sends and whatever it is fed into. The callback gets one fixed sequence of
  chunks (cut short only by its own error). In it no delta, finish signal or usage report shares a
  chunk; usage comes after a finish signal only; text and tool-call fragments come out complete and
  in order; there is one usage chunk per report, or only the last one when reports are cumulative;
  and the finish signals are the upstream's own plus the one that is made up when a usage report or
  the end of the stream is reached without any.
\<close>
theorem stream_contract:
  "decodeSSEStream json opts yield s lines None = feed yield s (decoded json opts lines)
   \<and> list_all pure_chunk (decoded json opts lines)
   \<and> usage_last False (decoded json opts lines)
   \<and> texts (decoded json opts lines) = texts (sent json lines)
   \<and> deltas (decoded json opts lines) = deltas (sent json lines)
   \<and> usages (decoded json opts lines) =
       (let us = usages (sent json lines) in
        if coalesceUsage opts then (if us = [] then [] else [last us]) else us)
   \<and> finish_count (decoded json opts lines) = finish_count (sent json lines) +
       (if finish_count (if coalesceUsage opts then sent json lines else till_usage (sent json lines)) = 0
        then 1 else 0)"
  using decode_feed [of json opts yield s lines] decoded_contract [of json opts lines] by blast

text \<open>
  An upstream that reports usage on its first chunk and its finish reason later, without
  coalescing, gets a made-up finish signal before the usage report, so the client sees two of them,
  with text in between.
\<close>

definition early_usage :: "string \<Rightarrow> upstreamChunk option" where
  "early_usage data =
     (let d = \<lparr>ud_Role = [], ud_Content = ''hi'', ud_ToolCalls = [], ud_FinishReason = None\<rparr> in
      if data = ''1'' then Some \<lparr>uc_Choices = [d], uc_Usage = Some zero_usage\<rparr>
      else if data = ''2'' then Some \<lparr>uc_Choices = [d\<lparr>ud_FinishReason := Some ''stop''\<rparr>], uc_Usage = None\<rparr>
      else None)"

lemma two_finish_signals:
  "map sc_FinishReason (decoded early_usage \<lparr>opt_provider = [], coalesceUsage = False\<rparr>
     [''data: 1'', ''data: 2'', ''data: [DONE]'']) = [[], ''stop'', [], [], ''stop'']"
  by (simp add: decoded_def classify_line_def has_prefix_def trim_space_def trim_left_def trim_right_def
      is_space_def char_code_def ParseStreamChunk_def early_usage_def emit_chunk_def see_def init_decode_def
      split_finish_def payload_def hasPayload_def hasDelta_def end_chunks_def synthesizedFinishReason_def Let_def)

end
