(* ===== verification/AnthropicStream.thy ===== *)
theory AnthropicStream
  imports StreamDecode
begin

text \<open>
  The Anthropic egress of a stream (\<open>internal/anthropic/stream.go\<close>): the writer that turns stream
  chunks into Messages events. The connection is a parameter, a state transformer that may fail; the
  event payloads are a datatype with the fields of the JSON objects.
\<close>

section \<open>Model\<close>

datatype block_kind = NoBlock | TextBlock | ToolBlock

datatype sse_event =
    MessageStart string string int
  | BlockStartText int
  | BlockStartTool int string string
  | TextDelta int string
  | InputJsonDelta int string
  | BlockStop int
  | MessageDelta string int "int option"
  | MessageStop

record 'w streamWriter =
  sw_w :: 'w
  sw_id :: string
  sw_model :: string
  sw_inputTokens :: int
  sw_started :: bool
  sw_blockKind :: block_kind
  sw_blockIdx :: int
  sw_blockTool :: int
  sw_nextIdx :: int
  sw_stop :: string

definition NewStreamWriter :: "'w \<Rightarrow> string \<Rightarrow> string \<Rightarrow> int \<Rightarrow> 'w streamWriter" where
  "NewStreamWriter w id0 model n =
     \<lparr>sw_w = w, sw_id = id0, sw_model = model, sw_inputTokens = n, sw_started = False,
      sw_blockKind = NoBlock, sw_blockIdx = 0, sw_blockTool = 0, sw_nextIdx = 0, sw_stop = []\<rparr>"

definition StopReason :: "string \<Rightarrow> string" where
  "StopReason finish =
     (if finish = ''tool_calls'' then ''tool_use'' else if finish = ''length'' then ''max_tokens'' else ''end_turn'')"

text \<open>Go's \<open>if err := \<dots>; err != nil { return err }\<close>.\<close>

definition andThen :: "'s \<times> 'e option \<Rightarrow> ('s \<Rightarrow> 's \<times> 'e option) \<Rightarrow> 's \<times> 'e option" where
  "andThen r f = (case r of (s, Some e) \<Rightarrow> (s, Some e) | (s, None) \<Rightarrow> f s)"

definition sw_event ::
  "('w \<Rightarrow> sse_event \<Rightarrow> 'w \<times> 'e option) \<Rightarrow> 'w streamWriter \<Rightarrow> sse_event \<Rightarrow> 'w streamWriter \<times> 'e option" where
  "sw_event write s ev = (let (w, e) = write (sw_w s) ev in (s\<lparr>sw_w := w\<rparr>, e))"

definition closeBlock ::
  "('w \<Rightarrow> sse_event \<Rightarrow> 'w \<times> 'e option) \<Rightarrow> 'w streamWriter \<Rightarrow> 'w streamWriter \<times> 'e option" where
  "closeBlock write s =
     (if sw_blockKind s = NoBlock then (s, None)
      else andThen (sw_event write s (BlockStop (sw_blockIdx s))) (\<lambda>s. (s\<lparr>sw_blockKind := NoBlock\<rparr>, None)))"

definition ensureToolBlock ::
  "('w \<Rightarrow> sse_event \<Rightarrow> 'w \<times> 'e option) \<Rightarrow> toolCallDelta \<Rightarrow> 'w streamWriter \<Rightarrow> 'w streamWriter \<times> 'e option" where
  "ensureToolBlock write tc s =
     (if sw_blockKind s = ToolBlock \<and> sw_blockTool s = td_Index tc then (s, None)
      else andThen (closeBlock write s) (\<lambda>s.
           andThen (sw_event write s (BlockStartTool (sw_nextIdx s) (td_ID tc) (fc_Name (td_Function tc)))) (\<lambda>s.
             (s\<lparr>sw_blockKind := ToolBlock, sw_blockIdx := sw_nextIdx s, sw_blockTool := td_Index tc,
                sw_nextIdx := sw_nextIdx s + 1\<rparr>, None))))"

fun tool_deltas ::
  "('w \<Rightarrow> sse_event \<Rightarrow> 'w \<times> 'e option) \<Rightarrow> toolCallDelta list \<Rightarrow> 'w streamWriter \<Rightarrow> 'w streamWriter \<times> 'e option" where
  "tool_deltas write [] s = (s, None)"
| "tool_deltas write (tc # tcs) s =
     andThen (ensureToolBlock write tc s) (\<lambda>s.
       if fc_Arguments (td_Function tc) = [] then tool_deltas write tcs s
       else andThen (sw_event write s (InputJsonDelta (sw_blockIdx s) (fc_Arguments (td_Function tc))))
              (tool_deltas write tcs))"

definition text_delta ::
  "('w \<Rightarrow> sse_event \<Rightarrow> 'w \<times> 'e option) \<Rightarrow> string \<Rightarrow> 'w streamWriter \<Rightarrow> 'w streamWriter \<times> 'e option" where
  "text_delta write content s =
     andThen
       (if sw_blockKind s \<noteq> TextBlock then
          andThen (closeBlock write s) (\<lambda>s.
          andThen (sw_event write s (BlockStartText (sw_nextIdx s))) (\<lambda>s.
            (s\<lparr>sw_blockKind := TextBlock, sw_blockIdx := sw_nextIdx s, sw_nextIdx := sw_nextIdx s + 1\<rparr>, None)))
        else (s, None))
       (\<lambda>s. sw_event write s (TextDelta (sw_blockIdx s) content))"

definition end_message ::
  "('w \<Rightarrow> sse_event \<Rightarrow> 'w \<times> 'e option) \<Rightarrow> usage \<Rightarrow> 'w streamWriter \<Rightarrow> 'w streamWriter \<times> 'e option" where
  "end_message write u s =
     andThen (closeBlock write s) (\<lambda>s.
     andThen (sw_event write s (MessageDelta (sw_stop s) (CompletionTokens u)
                (if PromptTokens u > 0 then Some (PromptTokens u) else None))) (\<lambda>s.
       sw_event write s MessageStop))"

definition start_message ::
  "('w \<Rightarrow> sse_event \<Rightarrow> 'w \<times> 'e option) \<Rightarrow> 'w streamWriter \<Rightarrow> 'w streamWriter \<times> 'e option" where
  "start_message write s =
     (if \<not> sw_started s then
        andThen (sw_event write s (MessageStart (sw_id s) (sw_model s) (sw_inputTokens s)))
          (\<lambda>s. (s\<lparr>sw_started := True\<rparr>, None))
      else (s, None))"

definition sw_Chunk ::
  "('w \<Rightarrow> sse_event \<Rightarrow> 'w \<times> 'e option) \<Rightarrow> 'w streamWriter \<Rightarrow> streamChunk \<Rightarrow> 'w streamWriter \<times> 'e option" where
  "sw_Chunk write s c =
     andThen (start_message write s) (\<lambda>s.
       let s = (if sc_FinishReason c \<noteq> [] then s\<lparr>sw_stop := StopReason (sc_FinishReason c)\<rparr> else s) in
       if sc_ToolCalls c \<noteq> [] then tool_deltas write (sc_ToolCalls c) s
       else if sc_Content c \<noteq> [] then text_delta write (sc_Content c) s
       else if sc_FinishReason c \<noteq> [] then closeBlock write s
       else case sc_Usage c of Some u \<Rightarrow> end_message write u s | None \<Rightarrow> (s, None))"

section \<open>The Messages protocol\<close>

text \<open>
  The order of events an Anthropic client accepts: a start, content blocks numbered from 0 that are
  open one at a time and take deltas of their own kind and index, a final delta with every block
  closed, and the stop.
\<close>

datatype phase = Before | Idle int | InText int | InTool int | Closing | Ended

fun proto :: "phase \<Rightarrow> sse_event \<Rightarrow> phase option" where
  "proto Before (MessageStart _ _ _) = Some (Idle 0)"
| "proto (Idle n) (BlockStartText i) = (if i = n then Some (InText i) else None)"
| "proto (Idle n) (BlockStartTool i _ _) = (if i = n then Some (InTool i) else None)"
| "proto (InText n) (TextDelta i t) = (if i = n \<and> t \<noteq> [] then Some (InText n) else None)"
| "proto (InTool n) (InputJsonDelta i t) = (if i = n \<and> t \<noteq> [] then Some (InTool n) else None)"
| "proto (InText n) (BlockStop i) = (if i = n then Some (Idle (n + 1)) else None)"
| "proto (InTool n) (BlockStop i) = (if i = n then Some (Idle (n + 1)) else None)"
| "proto (Idle n) (MessageDelta _ _ _) = Some Closing"
| "proto Closing MessageStop = Some Ended"
| "proto _ _ = None"

fun proto_run :: "phase \<Rightarrow> sse_event list \<Rightarrow> phase option" where
  "proto_run p [] = Some p"
| "proto_run p (e # es) = (case proto p e of None \<Rightarrow> None | Some q \<Rightarrow> proto_run q es)"

lemma proto_run_append:
  "proto_run p (a @ b) = (case proto_run p a of None \<Rightarrow> None | Some q \<Rightarrow> proto_run q b)"
  by (induction a arbitrary: p) (auto split: option.splits)

text \<open>The phase of the protocol a writer is in, before the message has ended.\<close>

definition phase_of :: "'w streamWriter \<Rightarrow> phase" where
  "phase_of s =
     (if \<not> sw_started s then Before
      else case sw_blockKind s of
             NoBlock \<Rightarrow> Idle (sw_nextIdx s)
           | TextBlock \<Rightarrow> InText (sw_blockIdx s)
           | ToolBlock \<Rightarrow> InTool (sw_blockIdx s))"

definition sw_wf :: "'w streamWriter \<Rightarrow> bool" where
  "sw_wf s \<longleftrightarrow>
     (\<not> sw_started s \<longrightarrow> sw_nextIdx s = 0 \<and> sw_blockKind s = NoBlock) \<and>
     (sw_blockKind s \<noteq> NoBlock \<longrightarrow> sw_nextIdx s = sw_blockIdx s + 1)"

text \<open>A connection that keeps every event, and what the events carry.\<close>

definition keep :: "sse_event list \<Rightarrow> sse_event \<Rightarrow> sse_event list \<times> string option" where
  "keep w ev = (w @ [ev], None)"

fun event_text :: "sse_event \<Rightarrow> string" where
  "event_text (TextDelta _ t) = t"
| "event_text _ = []"

fun event_json :: "sse_event \<Rightarrow> string" where
  "event_json (InputJsonDelta _ t) = t"
| "event_json _ = []"

fun event_stop :: "sse_event \<Rightarrow> string list" where
  "event_stop (MessageDelta stop _ _) = [stop]"
| "event_stop _ = []"

text \<open>A step of the writer on that connection: what it appends, and that the phase follows it.\<close>

definition appends :: "sse_event list streamWriter \<Rightarrow> sse_event list streamWriter \<times> string option \<Rightarrow> sse_event list \<Rightarrow> bool" where
  "appends s r es \<longleftrightarrow>
     snd r = None \<and> sw_w (fst r) = sw_w s @ es \<and> sw_wf (fst r)
     \<and> proto_run (phase_of s) es = Some (phase_of (fst r))"

lemma appends_then:
  assumes "appends s r es" and "appends (fst r) (f (fst r)) fs"
  shows "appends s (andThen r f) (es @ fs)"
proof -
  obtain s1 where "r = (s1, None)" using assms(1) by (cases r) (auto simp: appends_def)
  with assms show ?thesis by (auto simp: appends_def andThen_def proto_run_append)
qed

lemma appends_nothing: "sw_wf s \<Longrightarrow> appends s (s, None) []"
  by (simp add: appends_def)

lemma keep_event: "sw_event keep s ev = (s\<lparr>sw_w := sw_w s @ [ev]\<rparr>, None)"
  by (simp add: sw_event_def keep_def)

lemmas sw_defs = appends_def andThen_def keep_event phase_of_def sw_wf_def

lemma closeBlock_appends:
  assumes "sw_wf s" and "sw_started s"
  shows "appends s (closeBlock keep s) (if sw_blockKind s = NoBlock then [] else [BlockStop (sw_blockIdx s)])
    \<and> sw_started (fst (closeBlock keep s)) \<and> sw_blockKind (fst (closeBlock keep s)) = NoBlock
    \<and> sw_nextIdx (fst (closeBlock keep s)) = sw_nextIdx s \<and> sw_stop (fst (closeBlock keep s)) = sw_stop s"
  using assms by (cases "sw_blockKind s") (auto simp: closeBlock_def sw_defs)

text \<open>A step that leaves the message open, with the text and the arguments it adds to it.\<close>

definition stepped ::
  "sse_event list streamWriter \<Rightarrow> sse_event list streamWriter \<times> string option \<Rightarrow> string \<Rightarrow> string \<Rightarrow> string \<Rightarrow> bool" where
  "stepped s r t j stop \<longleftrightarrow>
     (\<exists>es. appends s r es \<and> concat (map event_text es) = t \<and> concat (map event_json es) = j
          \<and> concat (map event_stop es) = [])
     \<and> sw_started (fst r) \<and> sw_stop (fst r) = stop"

lemma stepped_then:
  assumes "stepped s r t j stop" and "stepped (fst r) (f (fst r)) t' j' stop'"
  shows "stepped s (andThen r f) (t @ t') (j @ j') stop'"
proof -
  obtain es fs where e: "appends s r es" "concat (map event_text es) = t" "concat (map event_json es) = j"
      "concat (map event_stop es) = []"
    and f: "appends (fst r) (f (fst r)) fs" "concat (map event_text fs) = t'" "concat (map event_json fs) = j'"
      "concat (map event_stop fs) = []"
    using assms by (auto simp: stepped_def)
  have "andThen r f = f (fst r)" using e(1) by (cases r) (auto simp: appends_def andThen_def)
  then show ?thesis using appends_then [where f = f, OF e(1) f(1)] e f assms(2) unfolding stepped_def
    by (intro conjI exI [of _ "es @ fs"]) auto
qed

lemma stepped_wf: "stepped s r t j stop \<Longrightarrow> sw_wf (fst r) \<and> sw_started (fst r) \<and> snd r = None"
  by (auto simp: stepped_def appends_def)

lemma stepped_nothing: "\<lbrakk>sw_wf s; sw_started s\<rbrakk> \<Longrightarrow> stepped s (s, None) [] [] (sw_stop s)"
  by (auto simp: stepped_def intro: appends_nothing)

lemma closeBlock_stepped:
  assumes "sw_wf s" and "sw_started s"
  shows "stepped s (closeBlock keep s) [] [] (sw_stop s)"
  using closeBlock_appends [OF assms] unfolding stepped_def
  by (intro conjI exI [of _ "if sw_blockKind s = NoBlock then [] else [BlockStop (sw_blockIdx s)]"]) auto

text \<open>Opening a block in a writer that has none open.\<close>

lemma open_text:
  assumes "sw_wf s" and "sw_started s" and "sw_blockKind s = NoBlock"
  shows "stepped s (andThen (sw_event keep s (BlockStartText (sw_nextIdx s))) (\<lambda>s.
            (s\<lparr>sw_blockKind := TextBlock, sw_blockIdx := sw_nextIdx s, sw_nextIdx := sw_nextIdx s + 1\<rparr>, None)))
          [] [] (sw_stop s)"
  using assms unfolding stepped_def
  by (intro conjI exI [of _ "[BlockStartText (sw_nextIdx s)]"]) (auto simp: sw_defs)

lemma open_tool:
  assumes "sw_wf s" and "sw_started s" and "sw_blockKind s = NoBlock"
  shows "stepped s (andThen (sw_event keep s (BlockStartTool (sw_nextIdx s) (td_ID tc) (fc_Name (td_Function tc)))) (\<lambda>s.
             (s\<lparr>sw_blockKind := ToolBlock, sw_blockIdx := sw_nextIdx s, sw_blockTool := td_Index tc,
                sw_nextIdx := sw_nextIdx s + 1\<rparr>, None))) [] [] (sw_stop s)"
  using assms unfolding stepped_def
  by (intro conjI exI [of _ "[BlockStartTool (sw_nextIdx s) (td_ID tc) (fc_Name (td_Function tc))]"])
    (auto simp: sw_defs)

lemma ensureToolBlock_stepped:
  assumes "sw_wf s" and "sw_started s"
  shows "stepped s (ensureToolBlock keep tc s) [] [] (sw_stop s)
    \<and> sw_blockKind (fst (ensureToolBlock keep tc s)) = ToolBlock"
proof (cases "sw_blockKind s = ToolBlock \<and> sw_blockTool s = td_Index tc")
  case True
  then show ?thesis using stepped_nothing [OF assms] by (simp add: ensureToolBlock_def)
next
  case False
  note c = closeBlock_appends [OF assms] closeBlock_stepped [OF assms]
  let ?s = "fst (closeBlock keep s)"
  have w: "sw_wf ?s" using c by (simp add: appends_def)
  note o = open_tool [OF w, of tc]
  have e: "closeBlock keep s = (?s, None)" using c by (cases "closeBlock keep s") (auto simp: appends_def)
  have "stepped s (ensureToolBlock keep tc s) ([] @ []) ([] @ []) (sw_stop s)"
    using False c o unfolding ensureToolBlock_def by (simp only: if_False) (rule stepped_then, simp_all)
  moreover have "sw_blockKind (fst (ensureToolBlock keep tc s)) = ToolBlock"
    using False by (subst ensureToolBlock_def) (subst e, simp add: andThen_def keep_event)
  ultimately show ?thesis by simp
qed

lemma text_delta_stepped:
  assumes "sw_wf s" and "sw_started s" and "content \<noteq> []"
  shows "stepped s (text_delta keep content s) content [] (sw_stop s)"
proof -
  note c = closeBlock_appends [OF assms(1,2)] closeBlock_stepped [OF assms(1,2)]
  let ?s = "fst (closeBlock keep s)"
  have w: "sw_wf ?s" using c by (simp add: appends_def)
  let ?open = "\<lambda>s. andThen (sw_event keep s (BlockStartText (sw_nextIdx s))) (\<lambda>s.
            (s\<lparr>sw_blockKind := TextBlock, sw_blockIdx := sw_nextIdx s, sw_nextIdx := sw_nextIdx s + 1\<rparr>, None))"
  let ?r = "if sw_blockKind s \<noteq> TextBlock then andThen (closeBlock keep s) ?open else (s, None)"
  have e: "closeBlock keep s = (?s, None)" using c by (cases "closeBlock keep s") (auto simp: appends_def)
  have "stepped s (andThen (closeBlock keep s) ?open) ([] @ []) ([] @ []) (sw_stop ?s)"
    by (rule stepped_then [OF c(2)]) (use c(1) open_text [OF w] in auto)
  then have r: "stepped s ?r [] [] (sw_stop s)" using stepped_nothing [OF assms(1,2)] c(1) by simp
  have k: "sw_blockKind (fst ?r) = TextBlock"
    by (subst e) (simp add: andThen_def keep_event)
  have "stepped (fst ?r) (sw_event keep (fst ?r) (TextDelta (sw_blockIdx (fst ?r)) content)) content [] (sw_stop (fst ?r))"
    unfolding stepped_def using k stepped_wf [OF r] assms(3)
    by (intro conjI exI [of _ "[TextDelta (sw_blockIdx (fst ?r)) content]"]) (auto simp: sw_defs)
  from stepped_then [where f = "\<lambda>s. sw_event keep s (TextDelta (sw_blockIdx s) content)", OF r this] r
  show ?thesis unfolding text_delta_def by (simp add: stepped_def)
qed

lemma tool_deltas_stepped:
  assumes "sw_wf s" and "sw_started s"
  shows "stepped s (tool_deltas keep tcs s) [] (concat (map (\<lambda>tc. fc_Arguments (td_Function tc)) tcs)) (sw_stop s)"
  using assms
proof (induction tcs arbitrary: s)
  case Nil
  then show ?case by (simp add: stepped_nothing)
next
  case (Cons tc tcs)
  let ?e = "ensureToolBlock keep tc s" and ?a = "fc_Arguments (td_Function tc)"
  note e = ensureToolBlock_stepped [OF Cons.prems, of tc]
  note w = stepped_wf [OF conjunct1 [OF e]]
  have st: "sw_stop (fst ?e) = sw_stop s" using e by (simp add: stepped_def)
  show ?case
  proof (cases "?a = []")
    case True
    have "stepped (fst ?e) (tool_deltas keep tcs (fst ?e)) [] (concat (map (\<lambda>tc. fc_Arguments (td_Function tc)) tcs)) (sw_stop s)"
      using Cons.IH [of "fst ?e"] w st by simp
    with True stepped_then [OF conjunct1 [OF e], of "tool_deltas keep tcs"] show ?thesis by simp
  next
    case False
    let ?d = "sw_event keep (fst ?e) (InputJsonDelta (sw_blockIdx (fst ?e)) ?a)"
    have d: "stepped (fst ?e) ?d [] ?a (sw_stop s)"
      unfolding stepped_def using e w st False
      by (intro conjI exI [of _ "[InputJsonDelta (sw_blockIdx (fst ?e)) ?a]"]) (auto simp: sw_defs)
    have "stepped (fst ?d) (tool_deltas keep tcs (fst ?d)) [] (concat (map (\<lambda>tc. fc_Arguments (td_Function tc)) tcs)) (sw_stop s)"
      using Cons.IH [of "fst ?d"] stepped_wf [OF d] d by (simp add: stepped_def)
    from stepped_then [where f = "tool_deltas keep tcs", OF d this] have "stepped (fst ?e) (andThen ?d (tool_deltas keep tcs)) []
      (?a @ concat (map (\<lambda>tc. fc_Arguments (td_Function tc)) tcs)) (sw_stop s)" by simp
    with False stepped_then [OF conjunct1 [OF e], of "\<lambda>s. if ?a = [] then tool_deltas keep tcs s
       else andThen (sw_event keep s (InputJsonDelta (sw_blockIdx s) ?a)) (tool_deltas keep tcs)"]
    show ?thesis by simp
  qed
qed

lemma start_stepped:
  assumes "sw_wf s"
  shows "stepped s (start_message keep s) [] [] (sw_stop s)"
proof (cases "sw_started s")
  case True
  with assms show ?thesis by (simp add: start_message_def stepped_nothing)
next
  case False
  with assms show ?thesis unfolding stepped_def
    by (intro conjI exI [of _ "[MessageStart (sw_id s) (sw_model s) (sw_inputTokens s)]"])
      (auto simp: start_message_def sw_defs)
qed

definition visible :: "streamChunk \<Rightarrow> string" where
  "visible c = (if sc_ToolCalls c = [] then sc_Content c else [])"

definition arguments :: "toolCallDelta list \<Rightarrow> string" where
  "arguments tcs = concat (map (\<lambda>tc. fc_Arguments (td_Function tc)) tcs)"

definition stop_after :: "string \<Rightarrow> streamChunk list \<Rightarrow> string" where
  "stop_after st cs =
     (let rs = filter (\<lambda>r. r \<noteq> []) (map sc_FinishReason cs) in if rs = [] then st else StopReason (last rs))"

lemma arguments_append [simp]: "arguments (a @ b) = arguments a @ arguments b"
  by (simp add: arguments_def)

lemma stop_after_Cons: "stop_after (stop_after st [c]) cs = stop_after st (c # cs)"
  by (simp add: stop_after_def Let_def)

lemma phase_of_stop [simp]: "phase_of (s\<lparr>sw_stop := x\<rparr>) = phase_of s"
  by (simp add: phase_of_def split: block_kind.split)

lemma chunk_stepped:
  assumes "sw_wf s" and "sc_Usage c = None"
  shows "stepped s (sw_Chunk keep s c) (visible c) (arguments (sc_ToolCalls c)) (stop_after (sw_stop s) [c])"
proof -
  note a = start_stepped [OF assms(1)]
  note w = stepped_wf [OF a]
  let ?s = "fst (start_message keep s)"
  define t where "t = (if finishes c then ?s\<lparr>sw_stop := StopReason (sc_FinishReason c)\<rparr> else ?s)"
  have t: "sw_wf t" "sw_started t" "sw_w t = sw_w ?s" "phase_of t = phase_of ?s"
    and st: "sw_stop t = stop_after (sw_stop s) [c]"
    using w a by (auto simp: t_def sw_wf_def stepped_def stop_after_def)
  have move: "stepped t r x j b \<Longrightarrow> stepped ?s r x j b" for r x j b
    unfolding stepped_def appends_def using t by auto
  let ?f = "\<lambda>s. let s = (if sc_FinishReason c \<noteq> [] then s\<lparr>sw_stop := StopReason (sc_FinishReason c)\<rparr> else s) in
       if sc_ToolCalls c \<noteq> [] then tool_deltas keep (sc_ToolCalls c) s
       else if sc_Content c \<noteq> [] then text_delta keep (sc_Content c) s
       else if sc_FinishReason c \<noteq> [] then closeBlock keep s
       else case sc_Usage c of Some u \<Rightarrow> end_message keep u s | None \<Rightarrow> (s, None)"
  have "stepped t (?f ?s) (visible c) (arguments (sc_ToolCalls c)) (sw_stop t)"
    unfolding visible_def arguments_def Let_def t_def [symmetric] assms(2) option.case
    using tool_deltas_stepped [OF t(1,2)] text_delta_stepped [OF t(1,2)] closeBlock_stepped [OF t(1,2)]
      stepped_nothing [OF t(1,2)] by simp
  from stepped_then [where f = ?f, OF a move [OF this]] st show ?thesis by (simp add: sw_Chunk_def)
qed

text \<open>A usage chunk ends the message.\<close>

lemma end_stepped:
  assumes "sw_wf s" and "pure_chunk c" and "sc_Usage c = Some u"
  shows "\<exists>es. snd (sw_Chunk keep s c) = None \<and> sw_w (fst (sw_Chunk keep s c)) = sw_w s @ es
    \<and> proto_run (phase_of s) es = Some Ended
    \<and> concat (map event_text es) = [] \<and> concat (map event_json es) = []
    \<and> concat (map event_stop es) = [sw_stop s]"
proof -
  note a = start_stepped [OF assms(1)]
  let ?s = "fst (start_message keep s)"
  note b = closeBlock_stepped [of ?s] closeBlock_appends [of ?s]
  have w: "sw_wf ?s" "sw_started ?s" "sw_stop ?s = sw_stop s" using stepped_wf [OF a] a by (auto simp: stepped_def)
  let ?d = "MessageDelta (sw_stop s) (CompletionTokens u) (if PromptTokens u > 0 then Some (PromptTokens u) else None)"
  obtain es fs where e: "appends s (start_message keep s) es" "concat (map event_text es) = []" "concat (map event_json es) = []"
      "concat (map event_stop es) = []"
    and f: "appends ?s (closeBlock keep ?s) fs" "concat (map event_text fs) = []" "concat (map event_json fs) = []"
      "concat (map event_stop fs) = []"
    using a b(1) [OF w(1,2)] by (auto simp: stepped_def)
  define k where "k = fst (closeBlock keep ?s)"
  have g: "start_message keep s = (?s, None)" "closeBlock keep ?s = (k, None)"
    using e f by (auto simp: appends_def k_def intro: prod_eqI)
  have kw: "sw_w k = sw_w s @ es @ fs" "sw_stop k = sw_stop s"
    using e f b(2) [OF w(1,2)] w(3) by (auto simp: appends_def k_def)
  have "sw_Chunk keep s c = end_message keep u ?s"
    using assms(2,3) unfolding sw_Chunk_def by (subst g(1)) (simp add: andThen_def pure_chunk_def hasDelta_def)
  also have "\<dots> = (k\<lparr>sw_w := sw_w k @ [?d, MessageStop]\<rparr>, None)"
    unfolding end_message_def g(2) by (simp add: andThen_def keep_event kw(2))
  finally have r: "sw_Chunk keep s c = (k\<lparr>sw_w := sw_w s @ es @ fs @ [?d, MessageStop]\<rparr>, None)"
    using kw by simp
  have "proto_run (phase_of s) (es @ fs @ [?d, MessageStop]) = Some Ended"
    using e(1) f(1) b(2) [OF w(1,2)] by (simp add: proto_run_append appends_def phase_of_def)
  then show ?thesis using r e f by (intro exI [of _ "es @ fs @ [?d, MessageStop]"]) simp
qed

section \<open>A whole stream\<close>

lemma feed_stepped:
  assumes "sw_wf s" and "usages cs = []" and "cs \<noteq> []"
  shows "stepped s (feed (sw_Chunk keep) s cs) (concat (map visible cs)) (arguments (deltas cs)) (stop_after (sw_stop s) cs)"
  using assms
proof (induction cs arbitrary: s)
  case (Cons c cs)
  have u: "sc_Usage c = None" "usages cs = []" using Cons.prems(2) by (auto split: option.splits)
  note c = chunk_stepped [OF Cons.prems(1) u(1)]
  let ?r = "sw_Chunk keep s c"
  have r: "?r = (fst ?r, None)" using stepped_wf [OF c] by (auto intro: prod_eqI)
  have f: "feed (sw_Chunk keep) s (c # cs) = andThen ?r (\<lambda>s. feed (sw_Chunk keep) s cs)"
    by (auto simp: andThen_def split: prod.splits option.splits)
  have st: "sw_stop (fst ?r) = stop_after (sw_stop s) [c]" using c by (simp add: stepped_def)
  show ?case
  proof (cases "cs = []")
    case True
    then show ?thesis using c by (simp only: feed_one) simp
  next
    case False
    have "stepped (fst ?r) (feed (sw_Chunk keep) (fst ?r) cs) (concat (map visible cs)) (arguments (deltas cs))
        (stop_after (sw_stop (fst ?r)) cs)"
      using Cons.IH [OF _ u(2) False] stepped_wf [OF c] by blast
    from stepped_then [where f = "\<lambda>s. feed (sw_Chunk keep) s cs", OF c this] show ?thesis
      unfolding f st stop_after_Cons by simp
  qed
qed simp

text \<open>A stream with one usage report, at its end, or with none.\<close>

definition usage_at_end :: "streamDecodeOptions \<Rightarrow> streamChunk list \<Rightarrow> bool" where
  "usage_at_end opts cs \<longleftrightarrow> coalesceUsage opts \<or> usages (butlast cs) = []"

lemma emit_all_append:
  "emit_all opts d (a @ b) =
     (let (d1, xs) = emit_all opts d a; (d2, ys) = emit_all opts d1 b in (d2, xs @ ys))"
  by (induction a arbitrary: d) (auto split: prod.splits)

lemma decoded_shape:
  assumes "usage_at_end opts (sent json lines)"
  obtains body where "usages body = []" and
    "decoded json opts lines = body @ (if usages (sent json lines) = [] then []
       else [zero_chunk\<lparr>sc_Usage := Some (last (usages (sent json lines)))\<rparr>])"
proof -
  let ?cs = "sent json lines"
  obtain d xs where e: "emit_all opts init_decode ?cs = (d, xs)" by fastforce
  note i = emit_all_spec [OF e]
  have n: "\<not> ds_sawFinish init_decode" "ds_coalesced init_decode = None" by (simp_all add: init_decode_def)
  define fin where "fin = (if ds_sawFinish d then []
      else [zero_chunk\<lparr>sc_FinishReason := synthesizedFinishReason (ds_sawToolCalls d)\<rparr>])"
  have f: "usages fin = []" by (simp add: fin_def)
  have x: "decoded json opts lines =
      xs @ fin @ (case ds_coalesced d of None \<Rightarrow> [] | Some u \<Rightarrow> [zero_chunk\<lparr>sc_Usage := Some u\<rparr>])"
    by (simp add: decoded_def e end_chunks_def fin_def)
  show ?thesis
  proof (cases "coalesceUsage opts \<or> usages ?cs = []")
    case True
    with i n f show ?thesis by (intro that [of "xs @ fin"]) (auto simp: x)
  next
    case False
    then have ub: "usages (butlast ?cs) = []" and ne: "?cs \<noteq> []" using assms by (auto simp: usage_at_end_def)
    then obtain b c where bc: "?cs = b @ [c]" by (metis append_butlast_last_id)
    with ub have ub: "usages b = []" by simp
    obtain d1 ys where y: "emit_all opts init_decode b = (d1, ys)" by fastforce
    note j = emit_all_spec [OF y]
    obtain u where u: "sc_Usage c = Some u" using False bc ub by (auto split: option.splits)
    define c' where "c' = (if ds_sawFinish (see d1 c) then c\<lparr>sc_Usage := None\<rparr>
        else (c\<lparr>sc_Usage := None\<rparr>)\<lparr>sc_FinishReason := synthesizedFinishReason (ds_sawToolCalls (see d1 c))\<rparr>)"
    have "xs = ys @ payload c' @ [zero_chunk\<lparr>sc_Usage := Some u\<rparr>] \<and> ds_sawFinish d"
      using e y u False unfolding bc emit_all_append
      by (auto simp: emit_chunk_def Let_def c'_def split: if_splits)
    moreover have "ds_coalesced d = None" using i n False by auto
    moreover have "usages (payload c') = []" by (rule payload_counts) (simp add: c'_def)
    ultimately show ?thesis using j ub u False
      by (intro that [of "ys @ payload c'"]) (auto simp: x fin_def bc)
  qed
qed

lemma visible_emit: "concat (map visible (snd (emit_all opts d cs))) = concat (map visible cs)"
proof (induction cs arbitrary: d)
  case (Cons c cs)
  have s: "concat (map visible (split_finish x)) = visible x" for x
    by (auto simp: split_finish_def visible_def)
  have p: "concat (map visible (payload x)) = visible x" for x
    by (simp add: payload_def s) (auto simp: visible_def hasPayload_def hasDelta_def)
  have "concat (map visible (snd (emit_chunk opts d c))) = visible c"
    unfolding emit_chunk_def Let_def by (auto simp: s p split: option.split) (auto simp: visible_def)
  with Cons [of "fst (emit_chunk opts d c)"] show ?case by (auto split: prod.splits)
qed simp

lemma visible_decoded: "concat (map visible (decoded json opts lines)) = concat (map visible (sent json lines))"
  using visible_emit [of opts init_decode "sent json lines"]
  by (auto simp: decoded_def end_chunks_def visible_def split: prod.splits option.splits)

lemma NewStreamWriter_wf [simp]:
  "sw_wf (NewStreamWriter w a b n)" "phase_of (NewStreamWriter w a b n) = Before"
  "sw_w (NewStreamWriter w a b n) = w" "sw_stop (NewStreamWriter w a b n) = []"
  by (simp_all add: NewStreamWriter_def sw_wf_def phase_of_def)

lemma phase_of_open: "phase_of s \<noteq> Ended"
  by (simp add: phase_of_def split: block_kind.split)

section \<open>Properties\<close>


text \<open>Text, a tool call and usage, as an upstream that coalesces usage sends them.\<close>

definition demo_stream :: "string \<Rightarrow> upstreamChunk option" where
  "demo_stream data =
     (let d = \<lparr>ud_Role = [], ud_Content = [], ud_ToolCalls = [], ud_FinishReason = None\<rparr>;
          t = \<lparr>td_Index = 0, td_ID = ''c'', td_Type = ''function'',
                td_Function = \<lparr>fc_Name = ''f'', fc_Arguments = ''{}''\<rparr>, td_ExtraContent = []\<rparr>;
          u = \<lparr>PromptTokens = 3, CompletionTokens = 4, TotalTokens = 7, ReasoningTokens = 0\<rparr> in
      if data = ''1'' then Some \<lparr>uc_Choices = [d\<lparr>ud_Content := ''hi''\<rparr>], uc_Usage = None\<rparr>
      else if data = ''2'' then Some \<lparr>uc_Choices = [d\<lparr>ud_Content := ''lost'', ud_ToolCalls := [t]\<rparr>], uc_Usage = None\<rparr>
      else if data = ''3'' then Some \<lparr>uc_Choices = [d\<lparr>ud_FinishReason := Some ''tool_calls''\<rparr>], uc_Usage = Some u\<rparr>
      else None)"

lemmas demo_stream_eval = decoded_def classify_line_def has_prefix_def trim_space_def trim_left_def trim_right_def
  is_space_def char_code_def ParseStreamChunk_def demo_stream_def emit_chunk_def see_def init_decode_def
  split_finish_def payload_def hasPayload_def hasDelta_def end_chunks_def synthesizedFinishReason_def

lemma demo_sent:
  "map sc_Content (sent demo_stream [''data: 1'', ''data: 2'', ''data: 3'']) = [''hi'', ''lost'', []]
   \<and> concat (map visible (sent demo_stream [''data: 1'', ''data: 2'', ''data: 3''])) = ''hi''
   \<and> arguments (deltas (sent demo_stream [''data: 1'', ''data: 2'', ''data: 3''])) = ''{}''
   \<and> usages (sent demo_stream [''data: 1'', ''data: 2'', ''data: 3'']) \<noteq> []
   \<and> usages (butlast (sent demo_stream [''data: 1'', ''data: 2'', ''data: 3''])) = []"
  by (simp add: demo_stream_eval visible_def arguments_def Let_def)


end
