(* ===== verification/StreamRun.thy ===== *)
theory StreamRun
  imports Thinking StreamDecode Routing
begin

text \<open>
  One streamed attempt (\<open>runStream\<close> of \<open>internal/httpapi/exec.go\<close>): the callback the executor runs
  against one target, with the hold-back of silent chunks under a time budget and the thinking
  filter, in front of any sink. The provider is a list of chunks it would send and the error it ends
  with; it stops when its callback fails. \<open>commit\<close> is whether the attempt is still allowed to answer
  at the moment its first chunk is ready (\<open>runAttempt\<close> of the executor decides).
\<close>

section \<open>Model\<close>

record ('k, 'e) streamSink =
  sk_begin :: "'k \<Rightarrow> target \<Rightarrow> 'k"
  sk_chunk :: "'k \<Rightarrow> streamChunk \<Rightarrow> 'k \<times> 'e option"

record 'k stream_attempt =
  sa_started :: bool
  sa_usage :: usage
  sa_held :: "streamChunk list"
  sa_think :: "thinkFilter option"
  sa_sink :: 'k

definition attempt_init :: "target \<Rightarrow> 'k \<Rightarrow> 'k stream_attempt" where
  "attempt_init t k = \<lparr>sa_started = False, sa_usage = zero_usage, sa_held = [],
     sa_think = (if ThinkingOff (tg_Options t) then Some zero_filter else None), sa_sink = k\<rparr>"

definition upstreamRequest :: "chatRequest \<Rightarrow> target \<Rightarrow> chatRequest" where
  "upstreamRequest req t = req\<lparr>cr_Model := tg_UpstreamModel t, cr_ThinkingOff := ThinkingOff (tg_Options t)\<rparr>"

definition attempt_emit ::
  "('k, 'e) streamSink \<Rightarrow> 'e \<Rightarrow> bool \<Rightarrow> target \<Rightarrow> 'k stream_attempt \<Rightarrow> streamChunk \<Rightarrow> 'k stream_attempt \<times> 'e option" where
  "attempt_emit K late commit t st c =
     (if \<not> sa_started st then
        if \<not> commit then (st, Some late)
        else case feed (sk_chunk K) (sk_begin K (sa_sink st) t) (sa_held st) of
               (k, Some e) \<Rightarrow> (st\<lparr>sa_started := True, sa_sink := k\<rparr>, Some e)
             | (k, None) \<Rightarrow>
                 (let (k2, e) = sk_chunk K k c
                  in (st\<lparr>sa_started := True, sa_held := [], sa_sink := k2\<rparr>, e))
      else let (k, e) = sk_chunk K (sa_sink st) c in (st\<lparr>sa_sink := k\<rparr>, e))"

text \<open>The thinking filter on one chunk.\<close>

definition think_chunk :: "thinkFilter option \<Rightarrow> streamChunk \<Rightarrow> thinkFilter option \<times> streamChunk" where
  "think_chunk th c =
     (case th of
        None \<Rightarrow> (None, c)
      | Some f \<Rightarrow>
          (let (a, f1) = push f (sc_Content c);
               (b, f2) = (if sc_FinishReason c \<noteq> [] then flush f1 else ([], f1))
           in (Some f2, c\<lparr>sc_Content := a @ b\<rparr>)))"

definition silent :: "streamChunk \<Rightarrow> bool" where
  "silent c \<longleftrightarrow> sc_Content c = [] \<and> sc_ToolCalls c = []"

definition attempt_chunk ::
  "('k, 'e) streamSink \<Rightarrow> 'e \<Rightarrow> bool \<Rightarrow> bool \<Rightarrow> target \<Rightarrow> 'k stream_attempt \<Rightarrow> streamChunk \<Rightarrow> 'k stream_attempt \<times> 'e option" where
  "attempt_chunk K late commit wait t st c0 =
     (let (th, c) = think_chunk (sa_think st) c0;
          st1 = st\<lparr>sa_think := th\<rparr>;
          st2 = (case sc_Usage c of None \<Rightarrow> st1 | Some u \<Rightarrow> st1\<lparr>sa_usage := u\<rparr>)
      in if wait \<and> \<not> sa_started st2 \<and> silent c then (st2\<lparr>sa_held := sa_held st2 @ [c]\<rparr>, None)
         else attempt_emit K late commit t st2 c)"

text \<open>What is still due once the provider has returned without an error.\<close>

definition attempt_tail ::
  "('k, 'e) streamSink \<Rightarrow> 'e \<Rightarrow> bool \<Rightarrow> target \<Rightarrow> 'k stream_attempt \<Rightarrow> 'k stream_attempt \<times> 'e option" where
  "attempt_tail K late commit t st =
     (case sa_think st of
        None \<Rightarrow> (st, None)
      | Some f \<Rightarrow>
          (let (tail, f1) = flush f; st1 = st\<lparr>sa_think := Some f1\<rparr> in
           if tail \<noteq> [] then attempt_emit K late commit t st1 (zero_chunk\<lparr>sc_Content := tail\<rparr>) else (st1, None)))"

definition attempt_held ::
  "('k, 'e) streamSink \<Rightarrow> 'e \<Rightarrow> bool \<Rightarrow> target \<Rightarrow> 'k stream_attempt \<Rightarrow> 'k stream_attempt \<times> 'e option" where
  "attempt_held K late commit t st =
     (if \<not> sa_started st \<and> sa_held st \<noteq> [] then
        attempt_emit K late commit t (st\<lparr>sa_held := butlast (sa_held st)\<rparr>) (last (sa_held st))
      else (st, None))"

definition stream_call ::
  "('k, 'e) streamSink \<Rightarrow> 'e \<Rightarrow> bool \<Rightarrow> duration \<Rightarrow> target \<Rightarrow> 'k \<Rightarrow> streamChunk list \<Rightarrow> 'e option
     \<Rightarrow> 'k stream_attempt \<times> 'e option" where
  "stream_call K late commit budget t k cs provider_err =
     (case feed (attempt_chunk K late commit (budget > 0) t) (attempt_init t k) cs of
        (st, Some e) \<Rightarrow> (st, Some e)
      | (st, None) \<Rightarrow>
          (case provider_err of
             Some e \<Rightarrow> (st, Some e)
           | None \<Rightarrow>
               (case attempt_tail K late commit t st of
                  (st1, Some e) \<Rightarrow> (st1, Some e)
                | (st1, None) \<Rightarrow> attempt_held K late commit t st1)))"

text \<open>The usage and the \<open>started\<close> flag the handler gets, from those of the executor.\<close>

definition stream_result :: "usage \<Rightarrow> bool \<Rightarrow> 'e option \<Rightarrow> usage \<times> bool" where
  "stream_result u started err =
     (case err of
        None \<Rightarrow> (u, True)
      | Some _ \<Rightarrow> (if started then u else zero_usage, started))"

section \<open>What the client gets\<close>

text \<open>The chunks after the thinking filter, and what the filter still holds at the end.\<close>

fun think_all :: "thinkFilter option \<Rightarrow> streamChunk list \<Rightarrow> thinkFilter option \<times> streamChunk list" where
  "think_all th [] = (th, [])"
| "think_all th (c # cs) =
     (let (th1, d) = think_chunk th c; (th2, ds) = think_all th1 cs in (th2, d # ds))"

definition think_tail :: "thinkFilter option \<Rightarrow> streamChunk list" where
  "think_tail th =
     (case th of None \<Rightarrow> []
      | Some f \<Rightarrow> if fst (flush f) = [] then [] else [zero_chunk\<lparr>sc_Content := fst (flush f)\<rparr>])"

text \<open>A sink that records the targets it was started with and the chunks it was given.\<close>

definition log_sink :: "(target list \<times> streamChunk list, string) streamSink" where
  "log_sink = \<lparr>sk_begin = (\<lambda>(b, cs) t. (b @ [t], cs)), sk_chunk = (\<lambda>(b, cs) c. ((b, cs @ [c]), None))\<rparr>"

lemma log_feed: "feed (sk_chunk log_sink) (b, xs) cs = ((b, xs @ cs), None)"
  by (induction cs arbitrary: xs) (auto simp: log_sink_def)

text \<open>Before the first chunk is sent the attempt holds what it got; afterwards it has passed all on.\<close>

definition passed_on :: "bool \<Rightarrow> target \<Rightarrow> streamChunk list \<Rightarrow> (target list \<times> streamChunk list) stream_attempt \<Rightarrow> bool" where
  "passed_on wait t ds st \<longleftrightarrow>
     (if sa_started st then sa_sink st = ([t], ds) \<and> ds \<noteq> [] \<and> (wait \<longrightarrow> \<not> list_all silent ds)
      else sa_sink st = ([], []) \<and> sa_held st = ds \<and> list_all silent ds \<and> (wait \<or> ds = []))"

lemma emit_passed:
  assumes "passed_on wait t ds st"
  shows "snd (attempt_emit log_sink late True t st c) = None
    \<and> sa_started (fst (attempt_emit log_sink late True t st c))
    \<and> sa_sink (fst (attempt_emit log_sink late True t st c)) = ([t], ds @ [c])
    \<and> sa_think (fst (attempt_emit log_sink late True t st c)) = sa_think st"
proof (cases "sa_started st")
  case True
  with assms show ?thesis by (simp add: attempt_emit_def passed_on_def log_sink_def)
next
  case False
  with assms have "sk_begin log_sink (sa_sink st) t = ([t], [])" by (simp add: passed_on_def log_sink_def)
  with False assms show ?thesis
    by (simp add: attempt_emit_def passed_on_def log_feed) (simp add: log_sink_def)
qed

lemma chunk_passed:
  assumes "passed_on wait t ds st" and "think_chunk (sa_think st) c0 = (th, c)"
  shows "\<exists>st'. attempt_chunk log_sink late True wait t st c0 = (st', None)
    \<and> passed_on wait t (ds @ [c]) st' \<and> sa_think st' = th"
proof -
  let ?st1 = "st\<lparr>sa_think := th\<rparr>"
  let ?st = "case sc_Usage c of None \<Rightarrow> ?st1 | Some u \<Rightarrow> ?st1\<lparr>sa_usage := u\<rparr>"
  have p: "passed_on wait t ds ?st" "sa_think ?st = th" "sa_started ?st = sa_started st"
    using assms(1) by (auto simp: passed_on_def split: option.splits)
  have run: "attempt_chunk log_sink late True wait t st c0 =
      (if wait \<and> \<not> sa_started ?st \<and> silent c then (?st\<lparr>sa_held := sa_held ?st @ [c]\<rparr>, None)
       else attempt_emit log_sink late True t ?st c)"
    using assms(2) by (simp add: attempt_chunk_def Let_def)
  show ?thesis
  proof (cases "wait \<and> \<not> sa_started ?st \<and> silent c")
    case True
    with p show ?thesis unfolding run by (auto simp: passed_on_def)
  next
    case False
    let ?r = "attempt_emit log_sink late True t ?st c"
    note e = emit_passed [OF p(1), of late c]
    have "wait \<longrightarrow> \<not> list_all silent (ds @ [c])" using False p(1) by (auto simp: passed_on_def)
    with e have "passed_on wait t (ds @ [c]) (fst ?r)" by (simp add: passed_on_def)
    moreover have "?r = (fst ?r, None)" using e by (auto intro: prod_eqI)
    ultimately show ?thesis unfolding run using False e p(2) by (metis fst_conv)
  qed
qed

lemma feed_passed:
  assumes "passed_on wait t ds st" and "think_all (sa_think st) cs = (th, es)"
  shows "\<exists>st'. feed (attempt_chunk log_sink late True wait t) st cs = (st', None)
    \<and> passed_on wait t (ds @ es) st' \<and> sa_think st' = th"
  using assms
proof (induction cs arbitrary: st ds es)
  case Nil
  then show ?case by simp
next
  case (Cons c cs)
  obtain th1 d where d: "think_chunk (sa_think st) c = (th1, d)" by fastforce
  obtain es' where e: "think_all th1 cs = (th, es')" "es = d # es'"
    using Cons.prems(2) d by (auto split: prod.splits)
  from chunk_passed [OF Cons.prems(1) d, of late] obtain st1 where s:
    "attempt_chunk log_sink late True wait t st c = (st1, None)" "passed_on wait t (ds @ [d]) st1" "sa_think st1 = th1"
    by blast
  from Cons.IH [OF s(2), of es'] e s(1,3) show ?case by simp
qed

lemma tail_passed:
  assumes "passed_on wait t ds st"
  shows "\<exists>st'. attempt_tail log_sink late True t st = (st', None)
    \<and> (if think_tail (sa_think st) = [] then passed_on wait t ds st'
       else sa_started st' \<and> sa_sink st' = ([t], ds @ think_tail (sa_think st)))"
proof (cases "sa_think st")
  case None
  with assms show ?thesis by (simp add: attempt_tail_def think_tail_def)
next
  case (Some f)
  obtain tail f1 where f: "flush f = (tail, f1)" by fastforce
  let ?st = "st\<lparr>sa_think := Some f1\<rparr>" and ?c = "zero_chunk\<lparr>sc_Content := tail\<rparr>"
  have p: "passed_on wait t ds ?st" using assms by (simp add: passed_on_def)
  note e = emit_passed [OF p, of late ?c]
  let ?r = "attempt_emit log_sink late True t ?st ?c"
  have "?r = (fst ?r, None)" using e by (auto intro: prod_eqI)
  then show ?thesis using Some f p e by (auto simp: attempt_tail_def think_tail_def)
qed

lemma held_passed:
  assumes "passed_on wait t ds st"
  shows "\<exists>st'. attempt_held log_sink late True t st = (st', None)
    \<and> sa_sink st' = (if ds = [] then ([], []) else ([t], ds)) \<and> sa_started st' = (ds \<noteq> [])"
proof (cases "\<not> sa_started st \<and> sa_held st \<noteq> []")
  case False
  with assms show ?thesis
    by (auto simp: attempt_held_def passed_on_def split: if_splits)
next
  case True
  then have h: "sa_held st = ds" "ds \<noteq> []" using assms by (auto simp: passed_on_def)
  let ?st = "st\<lparr>sa_held := butlast (sa_held st)\<rparr>"
  have "set (butlast ds) \<subseteq> set ds" by (meson in_set_butlastD subsetI)
  then have "passed_on True t (butlast ds) ?st" using assms True by (auto simp: passed_on_def list_all_iff)
  note e = emit_passed [OF this, of late "last ds"]
  let ?r = "attempt_emit log_sink late True t ?st (last ds)"
  have "?r = (fst ?r, None)" using e by (auto intro: prod_eqI)
  with e h True show ?thesis by (auto simp: attempt_held_def)
qed

text \<open>The text behind the filter.\<close>

lemma flush_flush: "flush f = (a, g) \<Longrightarrow> fst (flush g) = []"
  by (auto simp: flush_def tf_text_def trim_left_def)

text \<open>A filter that holds nothing back lets no more text out of an empty rest of the reply.\<close>

lemma push_empty:
  assumes "tf_pending f = []"
  shows "push f [] = ([], f)"
proof -
  have f: "f\<lparr>tf_pending := []\<rparr> = f" using assms by (cases f) simp
  have "indexASCIIFold [] thinkClose = None" "partialTagTail [] thinkClose = []"
    by (simp_all add: hasASCIIFoldPrefix_def partialTagTail_def)
  moreover have "maybe_open (trim_left trim_set [])"
    by (simp add: maybe_open_def trim_left_def hasASCIIFoldPrefix_def)
  ultimately have "push_loop f [] = ([], f)"
    using f push_loop_inside [of f "[]"] push_loop_hold [of f "[]"] by (cases "tf_inside f") simp_all
  then show ?thesis using assms unfolding push_def f by simp
qed

lemma think_all_rest:
  assumes "tf_pending f = []" and "texts cs = []" and "think_all (Some f) cs = (th, ds)"
  shows "texts (ds @ think_tail th) = []"
  using assms
proof (induction cs arbitrary: f ds)
  case Nil
  then show ?case by (auto simp: think_tail_def flush_def tf_text_def trim_left_def)
next
  case (Cons c cs)
  have c: "sc_Content c = []" "texts cs = []" using Cons.prems(2) by simp_all
  have "think_chunk (Some f) c = (Some (if finishes c then snd (flush f) else f), c)"
    using push_empty [OF Cons.prems(1)] Cons.prems(1) c(1)
    by (auto simp: think_chunk_def flush_def tf_text_def trim_left_def split: prod.splits)
  moreover have "tf_pending (if finishes c then snd (flush f) else f) = []"
    using Cons.prems(1) by (simp add: flush_def)
  ultimately show ?case using Cons.IH [OF _ c(2)] Cons.prems(3) c(1) by (auto split: prod.splits)
qed

fun text_before_finish :: "streamChunk list \<Rightarrow> bool" where
  "text_before_finish [] = True"
| "text_before_finish (c # cs) = (if finishes c then texts cs = [] else text_before_finish cs)"

lemma think_all_texts:
  assumes "text_before_finish cs" and "think_all (Some f) cs = (th, ds)"
    and "push_all f (map sc_Content cs) = (a, g)"
  shows "texts (ds @ think_tail th) = a @ fst (flush g)"
  using assms
proof (induction cs arbitrary: f ds a)
  case Nil
  then show ?case by (auto simp: think_tail_def)
next
  case (Cons c cs)
  obtain x f1 where x: "push f (sc_Content c) = (x, f1)" by fastforce
  obtain b where b: "push_all f1 (map sc_Content cs) = (b, g)" "a = x @ b"
    using Cons.prems(3) x by (auto split: prod.splits)
  show ?case
  proof (cases "finishes c")
    case False
    obtain es where e: "think_all (Some f1) cs = (th, es)" "ds = c\<lparr>sc_Content := x\<rparr> # es"
      using Cons.prems(2) x False by (auto simp: think_chunk_def split: prod.splits)
    with Cons.IH [OF _ e(1) b(1)] Cons.prems(1) False b(2) show ?thesis by simp
  next
    case True
    then have t: "texts cs = []" using Cons.prems(1) by simp
    obtain es where e: "think_all (Some (snd (flush f1))) cs = (th, es)"
        "ds = c\<lparr>sc_Content := x @ fst (flush f1)\<rparr> # es"
      using Cons.prems(2) x True by (auto simp: think_chunk_def split: prod.splits)
    have "texts (es @ think_tail th) = []"
      by (rule think_all_rest [OF _ t e(1)]) (simp add: flush_def)
    moreover have "concat (map sc_Content cs) = []" using t by (simp add: texts_def)
    then have "b = [] \<and> g = f1"
      using push_all_concat [OF push_nothing [OF x] b(1)] push_nothing [OF x] by (simp only: append_Nil) simp
    ultimately show ?thesis using e b by simp
  qed
qed

lemma think_all_none: "think_all None cs = (None, cs)"
  by (induction cs) (simp_all add: think_chunk_def)

definition due :: "target \<Rightarrow> streamChunk list \<Rightarrow> streamChunk list" where
  "due t cs =
     (let (th, ds) = think_all (if ThinkingOff (tg_Options t) then Some zero_filter else None) cs
      in ds @ think_tail th)"

lemma due_text:
  assumes "text_before_finish cs"
  shows "texts (due t cs) = (if ThinkingOff (tg_Options t) then stripThinkBlocks (texts cs) else texts cs)"
proof (cases "ThinkingOff (tg_Options t)")
  case False
  then show ?thesis by (simp add: due_def think_all_none think_tail_def)
next
  case True
  obtain th ds where d: "think_all (Some zero_filter) cs = (th, ds)" by fastforce
  obtain a g where p: "push_all zero_filter (map sc_Content cs) = (a, g)" by fastforce
  have "a @ fst (flush g) = stripThinkBlocks (texts cs)"
    using chunking_strip [of "map sc_Content cs"] p by (simp add: texts_def case_prod_beta)
  with think_all_texts [OF assms d p] True d show ?thesis by (simp add: due_def)
qed

section \<open>Properties\<close>

text \<open>
  What a streamed attempt that may answer sends: headers once, then every
  chunk of the upstream in its order, with the thoughts cut when the target's thinking is off, and
  nothing else; the silent chunks held back under a time budget are neither lost nor reordered, and a
  stream without any content is still sent whole. When the upstream sends its text before its finish
  signal, the client's text is the reply with its leading thinking blocks cut.
\<close>
theorem stream_delivers:
  "\<exists>st. stream_call log_sink late True budget t ([], []) cs None = (st, None)
     \<and> sa_sink st = (if due t cs = [] then ([], []) else ([t], due t cs))
     \<and> sa_started st = (due t cs \<noteq> [])
     \<and> (text_before_finish cs \<longrightarrow>
          texts (due t cs) = (if ThinkingOff (tg_Options t) then stripThinkBlocks (texts cs) else texts cs))"
proof -
  let ?w = "budget > 0"
  obtain th ds where d: "think_all (sa_think (attempt_init t ([] :: target list, [] :: streamChunk list))) cs = (th, ds)"
    by fastforce
  have due: "due t cs = ds @ think_tail th" using d by (simp add: due_def attempt_init_def)
  have "passed_on ?w t [] (attempt_init t ([], []))" by (simp add: passed_on_def attempt_init_def)
  from feed_passed [OF this d, of late] obtain st1 where f:
    "feed (attempt_chunk log_sink late True ?w t) (attempt_init t ([], [])) cs = (st1, None)"
    "passed_on ?w t ds st1" "sa_think st1 = th" by auto
  from tail_passed [OF f(2), of late] f(3) obtain st2 where g: "attempt_tail log_sink late True t st1 = (st2, None)"
    "if think_tail th = [] then passed_on ?w t ds st2 else sa_started st2 \<and> sa_sink st2 = ([t], ds @ think_tail th)"
    by auto
  have run: "stream_call log_sink late True budget t ([], []) cs None = attempt_held log_sink late True t st2"
    using f(1) g(1) by (simp add: stream_call_def)
  have "\<exists>st. attempt_held log_sink late True t st2 = (st, None)
      \<and> sa_sink st = (if due t cs = [] then ([], []) else ([t], due t cs)) \<and> sa_started st = (due t cs \<noteq> [])"
  proof (cases "think_tail th = []")
    case True
    with g(2) have "passed_on ?w t ds st2" by simp
    from held_passed [OF this, of late] show ?thesis unfolding due True append_Nil2 .
  next
    case False
    with g(2) due show ?thesis by (simp add: attempt_held_def)
  qed
  then show ?thesis using due_text [of cs t] unfolding run by blast
qed

definition demo_reply :: "streamChunk list" where
  "demo_reply = [zero_chunk\<lparr>sc_Role := ''assistant''\<rparr>, zero_chunk\<lparr>sc_Content := ''<thi''\<rparr>,
     zero_chunk\<lparr>sc_Content := ''nk>hm</think> yes''\<rparr>, zero_chunk\<lparr>sc_FinishReason := ''stop''\<rparr>]"

definition thinking_off_target :: target where
  "thinking_off_target =
     \<lparr>tg_Provider = ''p'', tg_UpstreamModel = ''m'', tg_UpstreamProtocol = ''openai'', tg_DisplayLabel = [],
      tg_Options = no_options\<lparr>to_Thinking := Some ''off''\<rparr>, tg_Tier = 0\<rparr>"

lemma demo_reply_text:
  "text_before_finish demo_reply \<and> texts demo_reply = ''<think>hm</think> yes''
   \<and> stripThinkBlocks ''<think>hm</think> yes'' = ''yes''"
proof (intro conjI)
  show "text_before_finish demo_reply" "texts demo_reply = ''<think>hm</think> yes''"
    by (simp_all add: demo_reply_def)
  have s1: "stripThinkBlocks '' yes'' = '' yes''"
    by (subst strip_step) (simp add: thinkOpen_def hasASCIIFoldPrefix_def trim_left_def trim_set_def
        lower_char_def is_upper_def char_code_def)
  show "stripThinkBlocks ''<think>hm</think> yes'' = ''yes''"
    by (subst strip_step) (simp add: thinkOpen_def thinkClose_def hasASCIIFoldPrefix_def trim_left_def trim_set_def
        lower_char_def is_upper_def char_code_def Let_def s1)
qed

theorem stream_delivers_witness:
  "\<exists>st. stream_call log_sink ''late'' True 1 thinking_off_target ([], []) demo_reply None = (st, None)
     \<and> texts (snd (sa_sink st)) = ''yes'' \<and> fst (sa_sink st) = [thinking_off_target]"
proof -
  have off: "ThinkingOff (tg_Options thinking_off_target)"
    by (simp add: thinking_off_target_def ThinkingOff_def)
  obtain st where s: "stream_call log_sink ''late'' True 1 thinking_off_target ([], []) demo_reply None = (st, None)"
    "sa_sink st = (if due thinking_off_target demo_reply = [] then ([], [])
       else ([thinking_off_target], due thinking_off_target demo_reply))"
    "texts (due thinking_off_target demo_reply) = ''yes''"
    using stream_delivers [of "''late''" 1 thinking_off_target demo_reply] demo_reply_text off by auto
  then have "due thinking_off_target demo_reply \<noteq> []" by auto
  with s show ?thesis by auto
qed

text \<open>An attempt that has sent nothing, and the steps that keep it so.\<close>

definition unsent :: "'k \<Rightarrow> 'k stream_attempt \<Rightarrow> bool" where
  "unsent k st \<longleftrightarrow> sa_sink st = k \<and> \<not> sa_started st"

lemma emit_uncommitted:
  assumes "unsent k st"
  shows "unsent k (fst (attempt_emit K late False t st c))"
  using assms by (simp add: attempt_emit_def unsent_def)

lemma chunk_unsent:
  assumes "unsent k st"
    and "\<not> commit \<or> (wait \<and> silent (snd (think_chunk (sa_think st) c)))"
  shows "unsent k (fst (attempt_chunk K late commit wait t st c))
    \<and> (commit \<longrightarrow> snd (attempt_chunk K late commit wait t st c) = None
        \<and> sa_think (fst (attempt_chunk K late commit wait t st c)) = fst (think_chunk (sa_think st) c))"
proof -
  obtain th d where d: "think_chunk (sa_think st) c = (th, d)" by fastforce
  let ?st1 = "st\<lparr>sa_think := th\<rparr>"
  define st2 where "st2 = (case sc_Usage d of None \<Rightarrow> ?st1 | Some u \<Rightarrow> ?st1\<lparr>sa_usage := u\<rparr>)"
  have u: "unsent k st2" "sa_think st2 = th"
    using assms(1) by (auto simp: st2_def unsent_def split: option.splits)
  have run: "attempt_chunk K late commit wait t st c =
      (if wait \<and> silent d then (st2\<lparr>sa_held := sa_held st2 @ [d]\<rparr>, None)
       else attempt_emit K late commit t st2 d)"
    using d u(1) by (simp add: attempt_chunk_def Let_def st2_def unsent_def)
  have h: "unsent k (st2\<lparr>sa_held := hs\<rparr>)" for hs using u(1) by (simp add: unsent_def)
  show ?thesis unfolding run
    using assms(2) u h emit_uncommitted [OF u(1), of K late t d] d by auto
qed

lemma feed_unsent:
  assumes "unsent k st" and "\<not> commit \<or> (wait \<and> list_all silent (snd (think_all (sa_think st) cs)))"
  shows "unsent k (fst (feed (attempt_chunk K late commit wait t) st cs))"
  using assms
proof (induction cs arbitrary: st)
  case (Cons c cs)
  let ?r = "attempt_chunk K late commit wait t st c"
  have "\<not> commit \<or> (wait \<and> silent (snd (think_chunk (sa_think st) c)))"
    using Cons.prems(2) by (auto split: prod.splits)
  note r = chunk_unsent [OF Cons.prems(1) this, of K late t]
  have "\<not> commit \<or> (wait \<and> list_all silent (snd (think_all (sa_think (fst ?r)) cs)))"
    using Cons.prems(2) r by (auto split: prod.splits)
  from Cons.IH [OF conjunct1 [OF r] this] r show ?case by (auto split: prod.splits option.splits)
qed simp

lemma tail_unsent:
  assumes "unsent k st"
  shows "unsent k (fst (attempt_tail K late False t st))" and "unsent k (fst (attempt_held K late False t st))"
proof -
  have u: "unsent k (st\<lparr>sa_think := th\<rparr>)" "unsent k (st\<lparr>sa_held := hs\<rparr>)" for th hs
    using assms by (simp_all add: unsent_def)
  show "unsent k (fst (attempt_tail K late False t st))"
    using assms emit_uncommitted [OF u(1)] u by (auto simp: attempt_tail_def Let_def split: option.split prod.split)
  show "unsent k (fst (attempt_held K late False t st))"
    using assms emit_uncommitted [OF u(2)] by (auto simp: attempt_held_def)
qed

lemma call_unsent:
  assumes "\<not> commit \<or> (budget > 0 \<and> list_all silent (due t cs) \<and> err \<noteq> None)"
  shows "unsent k (fst (stream_call K late commit budget t k cs err))"
proof -
  let ?f = "feed (attempt_chunk K late commit (budget > 0) t) (attempt_init t k) cs"
  have "unsent k (attempt_init t k)" by (simp add: unsent_def attempt_init_def)
  moreover have "\<not> commit \<or> (budget > 0 \<and> list_all silent (snd (think_all (sa_think (attempt_init t k)) cs)))"
    using assms by (auto simp: due_def attempt_init_def split: prod.splits)
  ultimately have f: "unsent k (fst ?f)" by (rule feed_unsent)
  show ?thesis
  proof (cases "snd ?f = None \<and> err = None")
    case False
    then show ?thesis using f by (auto simp: stream_call_def split: prod.splits option.splits)
  next
    case True
    then have c: "\<not> commit" using assms by auto
    note t = tail_unsent(1) [OF f, of K late t]
    from True c t tail_unsent(2) [OF t, of K late t] show ?thesis
      by (auto simp: stream_call_def split: prod.splits option.splits)
  qed
qed

text \<open>
  Nothing reaches the client of an attempt that may no longer answer, or that
  fails under a time budget before it has any content: the sink is as it was, the response is not
  started, and its usage is not charged, so the executor can still turn to another target.
\<close>
theorem stream_silent_until_commit:
  assumes "stream_call K late commit budget t k cs err = (st, e)"
    and "\<not> commit \<or> (budget > 0 \<and> list_all silent (due t cs) \<and> err \<noteq> None)"
  shows "sa_sink st = k \<and> \<not> sa_started st
    \<and> (err \<noteq> None \<longrightarrow> e \<noteq> None \<and> stream_result (sa_usage st) (sa_started st) e = (zero_usage, False))"
proof -
  have u: "sa_sink st = k \<and> \<not> sa_started st"
    using call_unsent [OF assms(2), of k K late] assms(1) by (simp add: unsent_def)
  moreover have "err \<noteq> None \<longrightarrow> e \<noteq> None"
    using assms(1) by (auto simp: stream_call_def split: prod.splits option.splits)
  ultimately show ?thesis by (cases e) (auto simp: stream_result_def)
qed

theorem stream_silent_until_commit_witness:
  "sa_sink (fst (stream_call log_sink ''late'' True 1 thinking_off_target ([], [])
      [zero_chunk\<lparr>sc_Role := ''assistant''\<rparr>] (Some ''reset''))) = ([], [])
   \<and> \<not> sa_started (fst (stream_call log_sink ''late'' True 1 thinking_off_target ([], [])
      [zero_chunk\<lparr>sc_Role := ''assistant''\<rparr>] (Some ''reset'')))"
proof -
  let ?c = "zero_chunk\<lparr>sc_Role := ''assistant''\<rparr>"
  have "push zero_filter [] = ([], zero_filter)" by (rule push_empty) (simp add: zero_filter_def)
  moreover have "fst (flush zero_filter) = []" by (simp add: flush_def zero_filter_def tf_text_def)
  ultimately have "list_all silent (due thinking_off_target [?c])"
    by (auto simp: due_def think_chunk_def think_tail_def silent_def split: prod.splits)
  with stream_silent_until_commit [OF prod.collapse [symmetric], of True 1 thinking_off_target "[?c]" "Some ''reset''"
      log_sink "''late''" "([], [])"]
  show ?thesis by simp
qed

end
