(* ===== verification/Metering.thy ===== *)
theory Metering
  imports UsageLimits Pricing Ledger Executor
begin

text \<open>
  Metering of a request (\<open>internal/httpapi/exec.go\<close>, \<open>chatEntry\<close> of \<open>dataplane.go\<close>): the token
  reservation before the call, the refusal when a limit is reached, and the settlement afterwards,
  which writes the ledger and corrects the counters. Log lines and metrics are left out.
\<close>

section \<open>Model\<close>

definition defaultTokenReservation :: int where "defaultTokenReservation = 4096"

definition reserveTokensFor :: "int option \<Rightarrow> int" where
  "reserveTokensFor maxTokens =
     (case maxTokens of Some n \<Rightarrow> if n > 0 then n else defaultTokenReservation | None \<Rightarrow> defaultTokenReservation)"

text \<open>\<open>usd\<close> renders micro-dollars as dollars with four decimals (\<open>%.4f\<close> of the quotient).\<close>

definition limitMessage :: "(int \<Rightarrow> string) \<Rightarrow> decision \<Rightarrow> string" where
  "limitMessage usd d =
     (if dUnit d = ''cost_usd'' then
        ''usage limit exceeded: cost over '' @ dWindow d @ '' ($'' @ usd (dUsed d) @ '' used, $'' @ usd (dLimit d) @ '' cap)''
      else
        ''usage limit exceeded: '' @ dUnit d @ '' over '' @ dWindow d @ '' ('' @ itoa (dUsed d) @ '' used, ''
          @ itoa (dLimit d) @ '' cap)'')"

definition zero_decision :: decision where
  "zero_decision = \<lparr>dAllowed = False, dWindow = [], dUnit = [], dLimit = 0, dUsed = 0, dReservedTokens = 0,
     dReservedBucket = 0\<rparr>"

text \<open>The message, whether the request is refused, the decision, and the limiter's store.\<close>

definition limitDenied ::
  "'s limit_ops \<Rightarrow> (int \<Rightarrow> string) \<Rightarrow> gotime \<Rightarrow> string \<Rightarrow> string \<Rightarrow> limits \<Rightarrow> int \<Rightarrow> 's
     \<Rightarrow> string \<times> bool \<times> decision \<times> 's" where
  "limitDenied L usd now token keyID lims reserveTokens s =
     (case Check L now token keyID lims reserveTokens s of
        (dec, err, s1) \<Rightarrow>
          if err then ([], False, zero_decision, s1)
          else if dAllowed dec then ([], False, dec, s1)
          else (limitMessage usd dec, True, zero_decision, s1))"

record 's accounts =
  ac_limiter :: 's
  ac_ledger :: ledger

definition finalizeUsage ::
  "'s limit_ops \<Rightarrow> 'h price_table \<Rightarrow> gotime \<Rightarrow> ledger_entry \<Rightarrow> string \<Rightarrow> string \<Rightarrow> usage \<Rightarrow> int \<Rightarrow> int
     \<Rightarrow> 's accounts \<Rightarrow> 's accounts" where
  "finalizeUsage L prices now entry0 keyID upstreamModel u reservedTokens reservedBucket a =
     (let costMicro = CostMicroUSD prices (le_ProviderName entry0) upstreamModel (PromptTokens u) (CompletionTokens u);
          entry = entry0\<lparr>le_PromptTokens := PromptTokens u, le_CompletionTokens := CompletionTokens u,
                         le_ReasoningTokens := ReasoningTokens u, le_CostUSD := of_int costMicro / 1000000\<rparr>;
          a1 = a\<lparr>ac_ledger := ledger_Record entry (ac_ledger a)\<rparr>
      in if le_Status entry = 200 \<and> (PromptTokens u > 0 \<or> CompletionTokens u > 0) then
           a1\<lparr>ac_limiter := snd (Add L now keyID (BilledTokens u) costMicro 0 0 reservedTokens reservedBucket (ac_limiter a1))\<rparr>
         else if reservedTokens \<noteq> 0 then
           a1\<lparr>ac_limiter := snd (Add L now keyID 0 0 0 0 reservedTokens reservedBucket (ac_limiter a1))\<rparr>
         else a1)"

definition finalizeAudioUsage ::
  "'s limit_ops \<Rightarrow> gotime \<Rightarrow> ledger_entry \<Rightarrow> string \<Rightarrow> int \<Rightarrow> int \<Rightarrow> int \<Rightarrow> 's accounts \<Rightarrow> 's accounts" where
  "finalizeAudioUsage L now entry0 keyID costMicro audioSeconds ttsChars a =
     (let entry = entry0\<lparr>le_CostUSD := of_int costMicro / 1000000\<rparr>;
          a1 = a\<lparr>ac_ledger := ledger_Record entry (ac_ledger a)\<rparr>
      in if costMicro \<noteq> 0 \<or> audioSeconds \<noteq> 0 \<or> ttsChars \<noteq> 0 then
           a1\<lparr>ac_limiter := snd (Add L now keyID 0 costMicro audioSeconds ttsChars 0 0 (ac_limiter a1))\<rparr>
         else a1)"

definition chatEntry :: "string \<Rightarrow> string \<Rightarrow> string \<Rightarrow> execResult \<Rightarrow> string \<Rightarrow> int \<Rightarrow> ledger_entry" where
  "chatEntry keyID userID als res ingress latencyMS =
     \<lparr>le_KeyID = keyID, le_UserID = userID, le_Alias = als, le_ProviderName = tg_Provider (xr_Target res),
      le_UpstreamModel = tg_UpstreamModel (xr_Target res), le_IngressProtocol = ingress,
      le_UpstreamProtocol = tg_UpstreamProtocol (xr_Target res), le_PromptTokens = 0, le_CompletionTokens = 0,
      le_ReasoningTokens = 0, le_Tier = tg_Tier (xr_Target res), le_Attempts = xr_Attempts res,
      le_Session = xr_Session res, le_Cached = False, le_CostUSD = 0, le_Status = 0, le_LatencyMS = latencyMS,
      le_ErrorMsg = []\<rparr>"

section \<open>Settlement\<close>

definition billed :: "int \<Rightarrow> usage \<Rightarrow> int" where
  "billed status u = (if status = 200 \<and> (PromptTokens u > 0 \<or> CompletionTokens u > 0) then BilledTokens u else 0)"

text \<open>The bucket a request's tokens end up in: that of its reservation, else the current one.\<close>

definition settled_bucket :: "decision \<Rightarrow> gotime \<Rightarrow> string" where
  "settled_bucket d now = itoa (if dReservedTokens d \<noteq> 0 then dReservedBucket d else BucketStamp now)"

lemma finalize_tokens:
  assumes "hash_server L view" and "in_int64 (billed (le_Status entry) u - dReservedTokens d)"
  shows "amount (view (ac_limiter (finalizeUsage L prices now entry key model u (dReservedTokens d) (dReservedBucket d) a)))
      (tokKey key) f
    = amount (view (ac_limiter a)) (tokKey key) f
      + (if f = settled_bucket d now then billed (le_Status entry) u - dReservedTokens d else 0)"
proof -
  let ?c = "CostMicroUSD prices (le_ProviderName entry) model (PromptTokens u) (CompletionTokens u)"
  let ?r = "dReservedTokens d" and ?b = "dReservedBucket d"
  have add: "amount (view (snd (Add L now key n c 0 0 ?r ?b s))) (tokKey key) f = amount (view s) (tokKey key) f
      + (if f = itoa (if ?r \<noteq> 0 then ?b else BucketStamp now) then (if ?r \<noteq> 0 then wrap64 (n - ?r) else n) else 0)" for n c s
    by (rule Add_effect [OF assms(1)]) (rule prod.collapse [symmetric])
  have lim: "ac_limiter (finalizeUsage L prices now entry key model u ?r ?b a) =
     (if le_Status entry = 200 \<and> (PromptTokens u > 0 \<or> CompletionTokens u > 0)
      then snd (Add L now key (BilledTokens u) ?c 0 0 ?r ?b (ac_limiter a))
      else if ?r \<noteq> 0 then snd (Add L now key 0 0 0 0 ?r ?b (ac_limiter a)) else ac_limiter a)"
    by (auto simp: finalizeUsage_def Let_def)
  show ?thesis
  proof (cases "le_Status entry = 200 \<and> (PromptTokens u > 0 \<or> CompletionTokens u > 0)")
    case True
    then have b: "billed (le_Status entry) u = BilledTokens u" by (simp add: billed_def)
    show ?thesis unfolding lim b if_P [OF True] add settled_bucket_def using assms(2) [unfolded b] by simp
  next
    case False
    then have b: "billed (le_Status entry) u = 0" unfolding billed_def by (simp only: if_False)
    show ?thesis
    proof (cases "?r = 0")
      case True
      then show ?thesis unfolding lim b if_not_P [OF False] by simp
    next
      case r: False
      show ?thesis unfolding lim b if_not_P [OF False] if_P [OF r] add settled_bucket_def
        using assms(2) [unfolded b] r by simp
    qed
  qed
qed

lemma finalize_ledger:
  "ac_ledger (finalizeUsage L prices now entry key model u r b a) =
     ledger_Record (entry\<lparr>le_PromptTokens := PromptTokens u, le_CompletionTokens := CompletionTokens u,
       le_ReasoningTokens := ReasoningTokens u,
       le_CostUSD := of_int (CostMicroUSD prices (le_ProviderName entry) model (PromptTokens u) (CompletionTokens u)) / 1000000\<rparr>)
     (ac_ledger a)"
  by (simp add: finalizeUsage_def Let_def)

lemma limitDenied_effect:
  assumes "hash_server L view" and "limitDenied L usd now token key lims r s = (msg, denied, d, s1)"
    and "live (unix_sec (now - maxWindow - BucketSize)) f"
  shows "amount (view s1) (tokKey key) f
      = amount (view s) (tokKey key) f + (if f = itoa (BucketStamp now) then dReservedTokens d else 0)"
    and "dReservedTokens d \<noteq> 0 \<longrightarrow> dReservedBucket d = BucketStamp now"
    and "denied \<longrightarrow> dReservedTokens d = 0"
proof -
  obtain dec err s' where c: "Check L now token key lims r s = (dec, err, s')" by (metis prod_cases3)
  note e = Check_effect(1,2) [OF assms(1) c assms(3)] and z = Check_no_error [OF assms(1) c]
    and n = Check_denied [OF c]
  show "amount (view s1) (tokKey key) f
      = amount (view s) (tokKey key) f + (if f = itoa (BucketStamp now) then dReservedTokens d else 0)"
    and "dReservedTokens d \<noteq> 0 \<longrightarrow> dReservedBucket d = BucketStamp now"
    and "denied \<longrightarrow> dReservedTokens d = 0"
    using assms(2) e z n unfolding limitDenied_def c by (auto simp: zero_decision_def split: if_splits)
qed

lemma check_locked_reserved: "dReservedTokens (fst (check_locked L now key lims r b s)) \<in> {0, r}"
  by (auto simp: check_locked_def Let_def allowed_decision_def check_windows_unreserved
      split: option.splits prod.splits bool.splits)

lemma Check_reserved:
  assumes "Check L now token key lims r s = (d, err, s1)"
  shows "dReservedTokens d \<in> {0, r}"
proof -
  have "d = allowed_decision \<or> (\<exists>b t. d = fst (check_locked L now key lims r b t))"
    using assms unfolding Check_def by (auto simp: Let_def split: if_splits prod.splits bool.splits) (metis fst_conv)+
  then show ?thesis using check_locked_reserved [of L now key lims r] by (elim disjE exE) (simp_all add: allowed_decision_def)
qed

lemma limitDenied_reserved: "limitDenied L usd now token key lims r s = (msg, denied, d, s1) \<Longrightarrow> dReservedTokens d \<in> {0, r}"
  using Check_reserved by (fastforce simp: limitDenied_def zero_decision_def split: if_splits prod.splits)

lemma reserve_positive [simp]: "0 < reserveTokensFor mt"
  by (auto simp: reserveTokensFor_def defaultTokenReservation_def split: option.split)

lemma limitDenied_granted:
  assumes "hash_server L view" and "limitDenied L usd now token key lims (reserveTokensFor mt) s = (msg, False, d, s1)"
    and "live (unix_sec (now - maxWindow - BucketSize)) f" and "lim_Tokens lims \<noteq> []"
  shows "dReservedTokens d = reserveTokensFor mt"
proof -
  obtain dec err s' where c: "Check L now token key lims (reserveTokensFor mt) s = (dec, err, s')" by (metis prod_cases3)
  have "\<not> err" by (rule Check_no_error [OF assms(1) c])
  then have "d = dec" "dAllowed dec" using assms(2) unfolding limitDenied_def c by (auto split: if_splits)
  then show ?thesis using Check_effect(3) [OF assms(1) c assms(3,4)] by simp
qed

end
