(* ===== verification/Regex.thy ===== *)
theory Regex
  imports GoStrings
begin

text \<open>
  The part of Go's \<open>regexp\<close> package the detectors use, on byte strings: character sets, sequences,
  alternatives, greedy and non-greedy repetition, and the ASCII word boundary. A match is the
  leftmost one, and among those the first in the order the pattern prefers its alternatives, which
  is the order of a backtracking search. \<open>ends\<close> lists the ends of the matches from a position in
  that order; the engine's own algorithm is linear-time and finds the head of the list.
\<close>

section \<open>Patterns and their matches\<close>

datatype rx =
    RSet "char \<Rightarrow> bool"
  | REps
  | RSeq rx rx
  | RAlt rx rx
  | RRep nat "nat option" bool rx
  | RWordB

definition word_char :: "char \<Rightarrow> bool" where
  "word_char c \<longleftrightarrow> is_letter c \<or> is_digit c \<or> c = CHR ''_''"

definition word_at :: "string \<Rightarrow> nat \<Rightarrow> bool" where
  "word_at s i \<longleftrightarrow> i < length s \<and> word_char (s ! i)"

definition at_boundary :: "string \<Rightarrow> nat \<Rightarrow> bool" where
  "at_boundary s i \<longleftrightarrow> (i > 0 \<and> word_at s (i - 1)) \<noteq> word_at s i"

text \<open>At least \<open>m\<close> and then up to \<open>k\<close> more rounds; an optional round must consume something.\<close>

fun rep_ends :: "(nat \<Rightarrow> nat list) \<Rightarrow> bool \<Rightarrow> nat \<Rightarrow> nat \<Rightarrow> nat \<Rightarrow> nat list" where
  "rep_ends f greedy 0 0 i = [i]"
| "rep_ends f greedy 0 (Suc k) i =
     (let more = concat (map (rep_ends f greedy 0 k) (filter (\<lambda>j. i < j) (f i)))
      in if greedy then more @ [i] else i # more)"
| "rep_ends f greedy (Suc m) k i = concat (map (rep_ends f greedy m k) (f i))"

primrec ends :: "rx \<Rightarrow> string \<Rightarrow> nat \<Rightarrow> nat list" where
  "ends (RSet P) s i = (if i < length s \<and> P (s ! i) then [Suc i] else [])"
| "ends REps s i = [i]"
| "ends (RSeq a b) s i = concat (map (ends b s) (ends a s i))"
| "ends (RAlt a b) s i = ends a s i @ ends b s i"
| "ends (RRep m n greedy a) s i =
     rep_ends (ends a s) greedy m (case n of None \<Rightarrow> length s | Some n' \<Rightarrow> n' - m) i"
| "ends RWordB s i = (if at_boundary s i then [i] else [])"

fun find_from :: "rx \<Rightarrow> string \<Rightarrow> nat \<Rightarrow> nat \<Rightarrow> (nat \<times> nat) option" where
  "find_from r s 0 i = (case ends r s i of [] \<Rightarrow> None | j # _ \<Rightarrow> Some (i, j))"
| "find_from r s (Suc n) i = (case ends r s i of [] \<Rightarrow> find_from r s n (Suc i) | j # _ \<Rightarrow> Some (i, j))"

definition find_at :: "rx \<Rightarrow> string \<Rightarrow> nat \<Rightarrow> (nat \<times> nat) option" where
  "find_at r s pos = (if pos \<le> length s then find_from r s (length s - pos) pos else None)"

text \<open>
  \<open>FindAllStringIndex\<close>: successive matches; after an empty one the search moves on a byte, and an
  empty match right after another one is not reported. The fuel is the number of positions.
\<close>

fun find_all :: "rx \<Rightarrow> string \<Rightarrow> nat \<Rightarrow> nat \<Rightarrow> nat option \<Rightarrow> (nat \<times> nat) list" where
  "find_all r s 0 pos prev = []"
| "find_all r s (Suc fuel) pos prev =
     (case find_at r s pos of
        None \<Rightarrow> []
      | Some (a, b) \<Rightarrow>
          (let accept = \<not> (b = pos \<and> prev = Some a);
               rest = find_all r s fuel (if b = pos then Suc pos else b) (Some b)
           in if accept then (a, b) # rest else rest))"

definition FindAllStringIndex :: "rx \<Rightarrow> string \<Rightarrow> (nat \<times> nat) list" where
  "FindAllStringIndex r s = find_all r s (length s + 2) 0 None"

definition MatchString :: "rx \<Rightarrow> string \<Rightarrow> bool" where
  "MatchString r s = (find_at r s 0 \<noteq> None)"

section \<open>Ranges of matches\<close>

lemma rep_ends_range:
  assumes f: "\<And>i j. \<lbrakk>i \<le> n; j \<in> set (f i)\<rbrakk> \<Longrightarrow> i \<le> j \<and> j \<le> n"
  shows "\<lbrakk>i \<le> n; j \<in> set (rep_ends f greedy m k i)\<rbrakk> \<Longrightarrow> i \<le> j \<and> j \<le> n"
proof (induction m arbitrary: i j)
  case 0
  then show ?case
  proof (induction k arbitrary: i j)
    case (Suc k)
    from Suc.prems(2) consider "j = i" | l where "l \<in> set (f i)" "i < l" "j \<in> set (rep_ends f greedy 0 k l)"
      by (auto simp: Let_def split: if_splits)
    then show ?case
    proof cases
      case 2
      have n: "i \<le> l \<and> l \<le> n" by (rule f [OF Suc.prems(1) 2(1)])
      have "l \<le> j \<and> j \<le> n" by (rule Suc.IH [OF conjunct2 [OF n] 2(3)])
      with n show ?thesis by simp
    qed (use Suc.prems(1) in simp)
  qed simp
next
  case (Suc m)
  from Suc.prems(2) obtain l where l: "l \<in> set (f i)" "j \<in> set (rep_ends f greedy m k l)" by auto
  have n: "i \<le> l \<and> l \<le> n" by (rule f [OF Suc.prems(1) l(1)])
  have "l \<le> j \<and> j \<le> n" by (rule Suc.IH [OF conjunct2 [OF n] l(2)])
  with n show ?case by simp
qed

lemma ends_range: "\<lbrakk>i \<le> length s; j \<in> set (ends r s i)\<rbrakk> \<Longrightarrow> i \<le> j \<and> j \<le> length s"
proof (induction r arbitrary: i j)
  case (RSeq a b)
  from RSeq.prems(2) obtain l where l: "l \<in> set (ends a s i)" "j \<in> set (ends b s l)" by auto
  have n: "i \<le> l \<and> l \<le> length s" by (rule RSeq.IH(1) [OF RSeq.prems(1) l(1)])
  have "l \<le> j \<and> j \<le> length s" by (rule RSeq.IH(2) [OF conjunct2 [OF n] l(2)])
  with n show ?case by simp
next
  case (RAlt a b)
  from RAlt.prems(2) consider "j \<in> set (ends a s i)" | "j \<in> set (ends b s i)" by auto
  then show ?case using RAlt.IH [OF RAlt.prems(1)] by cases
next
  case (RRep m n greedy a)
  show ?case
    by (rule rep_ends_range [where f = "ends a s", OF RRep.IH RRep.prems(1) RRep.prems(2) [unfolded ends.simps]])
qed (auto split: if_splits)

lemma find_from_range:
  "\<lbrakk>find_from r s n i = Some (a, b); i + n = length s\<rbrakk> \<Longrightarrow> i \<le> a \<and> a \<le> b \<and> b \<le> length s"
proof (induction n arbitrary: i)
  case 0
  then show ?case using ends_range [of i s b r] by (auto split: list.splits)
next
  case (Suc n)
  show ?case
  proof (cases "ends r s i")
    case Nil
    with Suc.prems Suc.IH [of "Suc i"] show ?thesis by auto
  next
    case (Cons j js)
    with Suc.prems ends_range [of i s j r] show ?thesis by auto
  qed
qed

lemma find_at_range: "find_at r s pos = Some (a, b) \<Longrightarrow> pos \<le> a \<and> a \<le> b \<and> b \<le> length s"
  using find_from_range [of r s "length s - pos" pos a b] by (auto simp: find_at_def split: if_splits)

text \<open>Spans in order that do not overlap.\<close>

fun spans_from :: "nat \<Rightarrow> nat \<Rightarrow> (nat \<times> nat) list \<Rightarrow> bool" where
  "spans_from n pos [] = True"
| "spans_from n pos ((a, b) # xs) = (pos \<le> a \<and> a \<le> b \<and> b \<le> n \<and> spans_from n b xs)"

lemma spans_from_mono: "\<lbrakk>spans_from n p xs; q \<le> p\<rbrakk> \<Longrightarrow> spans_from n q xs"
  by (cases xs) auto

lemma find_all_spans: "spans_from (length s) pos (find_all r s fuel pos prev)"
proof (induction fuel arbitrary: pos prev)
  case (Suc fuel)
  show ?case
  proof (cases "find_at r s pos")
    case (Some ab)
    obtain a b where ab: "ab = (a, b)" by fastforce
    note m = find_at_range [OF Some [unfolded ab]]
    have "spans_from (length s) b (find_all r s fuel (if b = pos then Suc pos else b) (Some b))"
      using Suc.IH [of "if b = pos then Suc pos else b" "Some b"] by (rule spans_from_mono) simp
    moreover have "spans_from (length s) pos (find_all r s fuel (if b = pos then Suc pos else b) (Some b))"
      using calculation m by (meson le_trans spans_from_mono)
    ultimately show ?thesis using Some ab m by (cases "b = pos") (auto simp: Let_def)
  qed simp
qed simp

lemma spans_from_mem: "\<lbrakk>spans_from n p xs; (a, b) \<in> set xs\<rbrakk> \<Longrightarrow> p \<le> a \<and> a \<le> b \<and> b \<le> n"
proof (induction xs arbitrary: p)
  case (Cons y ys)
  obtain c d where "y = (c, d)" by fastforce
  with Cons show ?case by (auto, meson le_trans)
qed simp

lemma FindAll_range: "(a, b) \<in> set (FindAllStringIndex r s) \<Longrightarrow> a \<le> b \<and> b \<le> length s"
  using spans_from_mem [OF find_all_spans] unfolding FindAllStringIndex_def by blast

text \<open>The fuel is enough: with more of it the search finds the same matches.\<close>

lemma find_all_fuel:
  "\<lbrakk>length s + 1 \<le> pos + fuel; fuel \<le> fuel'\<rbrakk> \<Longrightarrow> find_all r s fuel' pos prev = find_all r s fuel pos prev"
proof (induction fuel arbitrary: fuel' pos prev)
  case 0
  then have "find_at r s pos = None" by (simp add: find_at_def)
  then show ?case by (cases fuel') simp_all
next
  case (Suc fuel)
  then obtain g where g: "fuel' = Suc g" "fuel \<le> g" by (metis Suc_le_D Suc_le_mono)
  show ?case
  proof (cases "find_at r s pos")
    case (Some ab)
    obtain a b where ab: "ab = (a, b)" by fastforce
    let ?p = "if b = pos then Suc pos else b"
    have "length s + 1 \<le> ?p + fuel" using Suc.prems(1) find_at_range [OF Some [unfolded ab]] by auto
    then show ?thesis using Suc.IH [of ?p g "Some b"] Some ab g by simp
  qed (simp add: g)
qed

lemma FindAll_complete: "length s + 2 \<le> fuel \<Longrightarrow> find_all r s fuel 0 None = FindAllStringIndex r s"
  unfolding FindAllStringIndex_def by (rule find_all_fuel) simp_all

section \<open>Building patterns\<close>

definition lit :: "string \<Rightarrow> rx" where
  "lit s = foldr (\<lambda>c r. RSeq (RSet (\<lambda>x. x = c)) r) s REps"

definition lit_fold :: "string \<Rightarrow> rx" where
  "lit_fold s = foldr (\<lambda>c r. RSeq (RSet (\<lambda>x. lower_char x = c)) r) s REps"

definition seqs :: "rx list \<Rightarrow> rx" where
  "seqs rs = foldr RSeq rs REps"

definition one_of :: "string \<Rightarrow> char \<Rightarrow> bool" where
  "one_of cs c \<longleftrightarrow> c \<in> set cs"

definition alnum :: "char \<Rightarrow> bool" where
  "alnum c \<longleftrightarrow> is_letter c \<or> is_digit c"

definition alnum_or :: "string \<Rightarrow> char \<Rightarrow> bool" where
  "alnum_or cs c \<longleftrightarrow> alnum c \<or> c \<in> set cs"

definition rx_space :: "char \<Rightarrow> bool" where
  "rx_space c \<longleftrightarrow> c \<in> set [CHR 0x09, CHR 0x0A, CHR 0x0C, CHR 0x0D, CHR '' '']"

definition at_least :: "nat \<Rightarrow> (char \<Rightarrow> bool) \<Rightarrow> rx" where
  "at_least n P = RRep n None True (RSet P)"

definition exactly :: "nat \<Rightarrow> (char \<Rightarrow> bool) \<Rightarrow> rx" where
  "exactly n P = RRep n (Some n) True (RSet P)"

definition optional :: "rx \<Rightarrow> rx" where
  "optional r = RRep 0 (Some 1) True r"

text \<open>The least number of bytes a match has.\<close>

primrec minlen :: "rx \<Rightarrow> nat" where
  "minlen (RSet P) = 1"
| "minlen REps = 0"
| "minlen (RSeq a b) = minlen a + minlen b"
| "minlen (RAlt a b) = min (minlen a) (minlen b)"
| "minlen (RRep m n g a) = m * minlen a"
| "minlen RWordB = 0"

lemma rep_ends_minlen:
  assumes f: "\<And>i j. j \<in> set (f i) \<Longrightarrow> i + n \<le> j"
  shows "j \<in> set (rep_ends f greedy m k i) \<Longrightarrow> i + m * n \<le> j"
proof (induction m arbitrary: i)
  case 0
  then show ?case
  proof (induction k arbitrary: i)
    case (Suc k)
    from Suc.prems consider "j = i" | l where "l \<in> set (f i)" "i < l" "j \<in> set (rep_ends f greedy 0 k l)"
      by (auto simp: Let_def split: if_splits)
    then show ?case
    proof cases
      case 2
      have "l + 0 * n \<le> j" by (rule Suc.IH [OF 2(3)])
      with 2(2) show ?thesis by simp
    qed simp
  qed simp
next
  case (Suc m)
  from Suc.prems obtain l where l: "l \<in> set (f i)" "j \<in> set (rep_ends f greedy m k l)" by auto
  have "i + n \<le> l" "l + m * n \<le> j" by (rule f [OF l(1)], rule Suc.IH [OF l(2)])
  then show ?case by simp
qed

lemma ends_minlen: "j \<in> set (ends r s i) \<Longrightarrow> i + minlen r \<le> j"
proof (induction r arbitrary: i j)
  case (RSeq a b)
  from RSeq.prems obtain l where l: "l \<in> set (ends a s i)" "j \<in> set (ends b s l)" by auto
  have "i + minlen a \<le> l" "l + minlen b \<le> j" by (rule RSeq.IH(1) [OF l(1)], rule RSeq.IH(2) [OF l(2)])
  then show ?case by simp
next
  case (RAlt a b)
  from RAlt.prems consider "j \<in> set (ends a s i)" | "j \<in> set (ends b s i)" by auto
  then show ?case
  proof cases
    case 1
    from RAlt.IH(1) [OF 1] show ?thesis by simp
  next
    case 2
    from RAlt.IH(2) [OF 2] show ?thesis by simp
  qed
next
  case (RRep m n greedy a)
  from rep_ends_minlen [where f = "ends a s", OF RRep.IH RRep.prems [unfolded ends.simps]]
  show ?case by simp
qed (auto split: if_splits)

lemma find_all_minlen: "(a, b) \<in> set (find_all r s fuel pos prev) \<Longrightarrow> a + minlen r \<le> b"
proof (induction fuel arbitrary: pos prev)
  case (Suc fuel)
  have one: "ends r s c = d # x \<Longrightarrow> c + minlen r \<le> d" for c d x using ends_minlen [of d r s c] by simp
  have find: "find_from r s n i = Some (c, d) \<Longrightarrow> c + minlen r \<le> d" for n i c d
    by (induction n arbitrary: i) (auto split: list.splits dest: one)
  show ?case
  proof (cases "find_at r s pos")
    case (Some ab)
    obtain c d where ab: "ab = (c, d)" by fastforce
    have "c + minlen r \<le> d" using Some ab find by (auto simp: find_at_def split: if_splits)
    moreover have "(a, b) = (c, d) \<or> (a, b) \<in> set (find_all r s fuel (if d = pos then Suc pos else d) (Some d))"
      using Suc.prems Some ab by (auto simp: Let_def split: if_splits)
    ultimately show ?thesis using Suc.IH by blast
  qed (use Suc.prems in simp)
qed simp

lemma FindAll_minlen: "(a, b) \<in> set (FindAllStringIndex r s) \<Longrightarrow> a + minlen r \<le> b"
  unfolding FindAllStringIndex_def by (rule find_all_minlen)

end
