(* ===== verification/Dlp.thy ===== *)
theory Dlp
  imports Regex "HOL-Library.List_Lexorder" "HOL-Library.Char_ord"
begin

text \<open>
  The detectors of sensitive strings (\<open>internal/dlp/dlp.go\<close>) and the decoding of the model layer's
  answer (\<open>internal/dlp/model.go\<close>): the built-in patterns, their validators, the entropy check, the
  merge of overlapping findings and the redaction. Offsets are byte offsets; texts are ASCII, so
  that a byte is a character. The entropy is a real number.
\<close>

section \<open>Model\<close>

record finding =
  fi_Label :: string
  fi_Start :: nat
  fi_End :: nat

record pattern =
  pt_label :: string
  pt_category :: string
  pt_re :: rx
  pt_validate :: "(string \<Rightarrow> bool) option"
  pt_defaultOn :: bool

definition secret :: "string \<Rightarrow> rx \<Rightarrow> pattern" where
  "secret l r = \<lparr>pt_label = l, pt_category = ''secret'', pt_re = r, pt_validate = None, pt_defaultOn = True\<rparr>"

definition pii :: "string \<Rightarrow> (string \<Rightarrow> bool) option \<Rightarrow> rx \<Rightarrow> pattern" where
  "pii l v r = \<lparr>pt_label = l, pt_category = ''pii'', pt_re = r, pt_validate = v, pt_defaultOn = False\<rparr>"

text \<open>The sum of the Luhn check, from the last digit backwards.\<close>

fun luhn_sum :: "nat list \<Rightarrow> bool \<Rightarrow> nat" where
  "luhn_sum [] dbl = 0"
| "luhn_sum (d # ds) dbl =
     (if dbl then (if 2 * d > 9 then 2 * d - 9 else 2 * d) else d) + luhn_sum ds (\<not> dbl)"

definition luhnValid :: "string \<Rightarrow> bool" where
  "luhnValid s =
     (let digits = map digit_val (filter is_digit s) in
      if length digits < 13 \<or> length digits > 19 then False
      else luhn_sum (rev digits) False mod 10 = 0)"

definition octet :: "string \<Rightarrow> bool" where
  "octet p \<longleftrightarrow> p \<noteq> [] \<and> length p \<le> 3 \<and> list_all is_digit p \<and> digits_val p \<le> 255"

definition ipv4Valid :: "string \<Rightarrow> bool" where
  "ipv4Valid s = (let parts = split_on CHR ''.'' s in length parts = 4 \<and> list_all octet parts)"

definition upper_or_space :: "char \<Rightarrow> bool" where
  "upper_or_space c \<longleftrightarrow> is_upper c \<or> c = CHR '' ''"

definition digit_or_upper :: "char \<Rightarrow> bool" where
  "digit_or_upper c \<longleftrightarrow> is_digit c \<or> is_upper c"

definition any_byte :: "char \<Rightarrow> bool" where
  "any_byte c \<longleftrightarrow> True"

definition sep :: rx where
  "sep = optional (RSet (one_of '' .-''))"

definition patterns :: "pattern list" where
  "patterns =
     [secret ''private_key'' (seqs [lit ''-----BEGIN '', at_least 0 upper_or_space, lit ''PRIVATE KEY-----'',
        RRep 0 None False (RSet any_byte), lit ''-----END '', at_least 0 upper_or_space, lit ''PRIVATE KEY-----'']),
      secret ''anthropic_key'' (seqs [lit ''sk-ant-'', at_least 20 (alnum_or ''_-'')]),
      secret ''openai_key'' (seqs [lit ''sk-'', optional (lit ''proj-''), at_least 20 (alnum_or ''_-'')]),
      secret ''openrouter_key'' (seqs [lit ''sk-or-'', at_least 20 (alnum_or ''_-'')]),
      secret ''xai_key'' (seqs [lit ''xai-'', at_least 20 alnum]),
      secret ''github_token'' (seqs [lit ''gh'', RSet (one_of ''pousr''), lit ''_'', at_least 36 alnum]),
      secret ''aws_access_key'' (seqs [lit ''A'', RAlt (lit ''KIA'') (lit ''SIA''), exactly 16 digit_or_upper]),
      secret ''google_api_key'' (seqs [lit ''AIza'', exactly 35 (alnum_or ''_-'')]),
      secret ''slack_token'' (seqs [lit ''xox'', RSet (one_of ''baprs''), lit ''-'', at_least 10 (alnum_or ''-'')]),
      secret ''stripe_key'' (seqs [RSet (one_of ''rs''), lit ''k_'', RAlt (lit ''live'') (lit ''test''), lit ''_'',
        at_least 16 alnum]),
      secret ''jwt'' (seqs [lit ''eyJ'', at_least 10 (alnum_or ''_-''), lit ''.eyJ'', at_least 10 (alnum_or ''_-''),
        lit ''.'', at_least 10 (alnum_or ''_-'')]),
      secret ''bearer_token'' (seqs [lit_fold ''bearer'', at_least 1 rx_space, at_least 20 (alnum_or ''._-'')]),
      pii ''email'' None (seqs [at_least 1 (alnum_or ''._%+-''), lit ''@'', at_least 1 (alnum_or ''.-''), lit ''.'',
        at_least 2 is_letter]),
      pii ''phone'' None (seqs [optional (lit ''+''), RRep 0 (Some 3) True (RSet is_digit), sep, optional (lit ''(''),
        exactly 3 is_digit, optional (lit '')''), sep, exactly 3 is_digit, sep, exactly 4 is_digit, RWordB]),
      pii ''ssn'' None (seqs [RWordB, exactly 3 is_digit, lit ''-'', exactly 2 is_digit, lit ''-'', exactly 4 is_digit,
        RWordB]),
      pii ''credit_card'' (Some luhnValid) (seqs [RWordB, RSet is_digit,
        RRep 12 (Some 18) True (RSeq (optional (RSet (one_of '' -''))) (RSet is_digit)), RWordB]),
      pii ''ip_address'' (Some ipv4Valid) (seqs [RWordB,
        RRep 3 (Some 3) True (RSeq (RRep 1 (Some 3) True (RSet is_digit)) (lit ''.'')),
        RRep 1 (Some 3) True (RSet is_digit), RWordB])]"

definition entropyCandidate :: rx where
  "entropyCandidate = at_least 24 (alnum_or ''+/=_-'')"

definition entropyThreshold :: real where "entropyThreshold = 3.6"

definition shannon :: "string \<Rightarrow> real" where
  "shannon s =
     (if s = [] then 0
      else sum_list (map (\<lambda>b. let c = count_list s (char_of (b :: nat)) in
             if c = 0 then 0 else - (real c / real (length s)) * log 2 (real c / real (length s))) [0..<256]))"

definition mixedClasses :: "string \<Rightarrow> bool" where
  "mixedClasses s \<longleftrightarrow> list_ex is_upper s \<and> list_ex is_lower s \<and> list_ex is_digit s"

record patternSet =
  ps_Enabled :: "(string \<rightharpoonup> bool) option"
  ps_Custom :: "(string \<times> rx) list"
  ps_Entropy :: bool

definition patternEnabled :: "patternSet \<Rightarrow> string \<Rightarrow> bool \<Rightarrow> bool" where
  "patternEnabled ps label def =
     (case ps_Enabled ps of
        None \<Rightarrow> def
      | Some m \<Rightarrow> (case m label of Some v \<Rightarrow> v | None \<Rightarrow> def))"

definition BuiltinPatterns :: "(string \<times> string \<times> bool) list" where
  "BuiltinPatterns = map (\<lambda>p. (pt_label p, pt_category p, pt_defaultOn p)) patterns
     @ [(''high_entropy'', ''secret'', True)]"

definition span_of :: "string \<Rightarrow> nat \<times> nat \<Rightarrow> finding" where
  "span_of l ab = \<lparr>fi_Label = l, fi_Start = fst ab, fi_End = snd ab\<rparr>"

definition substr :: "string \<Rightarrow> nat \<Rightarrow> nat \<Rightarrow> string" where
  "substr s a b = take (b - a) (drop a s)"

definition overlapsAny :: "nat \<Rightarrow> nat \<Rightarrow> finding list \<Rightarrow> bool" where
  "overlapsAny start fin fs = list_ex (\<lambda>f. start < fi_End f \<and> fi_Start f < fin) fs"

fun index_of_label :: "string \<Rightarrow> pattern list \<Rightarrow> nat" where
  "index_of_label l [] = 0"
| "index_of_label l (p # ps) = (if pt_label p = l then 0 else Suc (index_of_label l ps))"

text \<open>The labels are distinct, and a label without an entry ranks at the number of patterns.\<close>

definition priorityOf :: "string \<Rightarrow> nat" where
  "priorityOf l = index_of_label l patterns"

definition fi_len :: "finding \<Rightarrow> int" where
  "fi_len f = int (fi_End f) - int (fi_Start f)"

definition less_ranked :: "finding \<Rightarrow> finding \<Rightarrow> bool" where
  "less_ranked a b =
     (if priorityOf (fi_Label a) \<noteq> priorityOf (fi_Label b) then priorityOf (fi_Label a) < priorityOf (fi_Label b)
      else if - fi_len a \<noteq> - fi_len b then - fi_len a < - fi_len b
      else fi_Start a < fi_Start b)"

fun keep_disjoint :: "finding list \<Rightarrow> finding list \<Rightarrow> finding list" where
  "keep_disjoint kept [] = kept"
| "keep_disjoint kept (f # fs) =
     (if overlapsAny (fi_Start f) (fi_End f) kept then keep_disjoint kept fs
      else keep_disjoint (kept @ [f]) fs)"

definition Merge :: "finding list \<Rightarrow> finding list" where
  "Merge fs =
     (if length fs \<le> 1 then fs
      else sort_stable (\<lambda>a b. fi_Start a < fi_Start b) (keep_disjoint [] (sort_stable less_ranked fs)))"

definition pattern_findings :: "string \<Rightarrow> pattern \<Rightarrow> finding list" where
  "pattern_findings s p =
     map (span_of (pt_label p))
       (filter (\<lambda>(a, b). case pt_validate p of None \<Rightarrow> True | Some v \<Rightarrow> v (substr s a b))
          (FindAllStringIndex (pt_re p) s))"

definition custom_findings :: "string \<Rightarrow> string \<times> rx \<Rightarrow> finding list" where
  "custom_findings s c =
     map (span_of (fst c)) (filter (\<lambda>(a, b). a < b) (FindAllStringIndex (snd c) s))"

definition named_findings :: "string \<Rightarrow> patternSet \<Rightarrow> finding list" where
  "named_findings s ps =
     concat (map (pattern_findings s) (filter (\<lambda>p. patternEnabled ps (pt_label p) (pt_defaultOn p)) patterns))
     @ concat (map (custom_findings s) (ps_Custom ps))"

definition entropy_findings :: "string \<Rightarrow> finding list \<Rightarrow> finding list" where
  "entropy_findings s named =
     map (span_of ''high_entropy'')
       (filter (\<lambda>(a, b). mixedClasses (substr s a b) \<and> \<not> shannon (substr s a b) < entropyThreshold
            \<and> \<not> overlapsAny a b named)
          (FindAllStringIndex entropyCandidate s))"

definition ScanWith :: "string \<Rightarrow> patternSet \<Rightarrow> finding list" where
  "ScanWith s ps =
     (let named = Merge (named_findings s ps)
      in Merge (named @ (if ps_Entropy ps then entropy_findings s named else [])))"

definition Scan :: "string \<Rightarrow> finding list" where
  "Scan s = ScanWith s \<lparr>ps_Enabled = None, ps_Custom = [], ps_Entropy = True\<rparr>"

section \<open>Redaction\<close>

definition isBlank :: "string \<Rightarrow> bool" where
  "isBlank s = list_all is_space s"

fun coalesce :: "string \<Rightarrow> finding list \<Rightarrow> finding list \<Rightarrow> finding list" where
  "coalesce s out [] = out"
| "coalesce s out (f # fs) =
     (if out \<noteq> [] \<and> fi_Label (last out) = fi_Label f \<and> fi_Start f \<ge> fi_End (last out) \<and> fi_End f \<le> length s
         \<and> isBlank (substr s (fi_End (last out)) (fi_Start f))
      then coalesce s (if fi_End f > fi_End (last out)
                       then butlast out @ [(last out)\<lparr>fi_End := fi_End f\<rparr>] else out) fs
      else coalesce s (out @ [f]) fs)"

definition coalesceAdjacent :: "string \<Rightarrow> finding list \<Rightarrow> finding list" where
  "coalesceAdjacent s fs = coalesce s [] fs"

definition marker :: "string \<Rightarrow> string" where
  "marker l = ''[REDACTED:'' @ l @ '']''"

fun redact_loop :: "string \<Rightarrow> nat \<Rightarrow> finding list \<Rightarrow> string" where
  "redact_loop s prev [] = drop prev s"
| "redact_loop s prev (f # fs) =
     (if fi_Start f < prev \<or> fi_Start f > length s \<or> fi_End f > length s then redact_loop s prev fs
      else substr s prev (fi_Start f) @ marker (fi_Label f) @ redact_loop s (fi_End f) fs)"

definition Redact :: "string \<Rightarrow> finding list \<Rightarrow> string" where
  "Redact s fs = (if fs = [] then s else redact_loop s 0 (coalesceAdjacent s fs))"

definition Labels :: "finding list \<Rightarrow> string list" where
  "Labels fs = sort (remdups (map fi_Label fs))"

section \<open>The model layer's answer\<close>

record modelFinding =
  mf_Label :: string
  mf_Start :: int
  mf_End :: int
  mf_Score :: rat

text \<open>\<open>None\<close> is a transport error, a status outside 2xx or a body that does not decode.\<close>

definition ModelScan :: "modelFinding list option \<Rightarrow> rat \<Rightarrow> string \<Rightarrow> finding list option" where
  "ModelScan answer minScore text =
     map_option (\<lambda>fs. map (\<lambda>f. \<lparr>fi_Label = ''pii:'' @ mf_Label f, fi_Start = nat (mf_Start f), fi_End = nat (mf_End f)\<rparr>)
        (filter (\<lambda>f. \<not> (mf_Score f < minScore \<or> mf_Start f < 0 \<or> mf_End f > int (length text)
                         \<or> mf_Start f \<ge> mf_End f)) fs)) answer"

section \<open>Merging\<close>

text \<open>A span inside a text, and spans that do not meet.\<close>

definition span_ok :: "nat \<Rightarrow> finding \<Rightarrow> bool" where
  "span_ok n f \<longleftrightarrow> fi_Start f < fi_End f \<and> fi_End f \<le> n"

definition meets :: "finding \<Rightarrow> finding \<Rightarrow> bool" where
  "meets f g \<longleftrightarrow> fi_Start f < fi_End g \<and> fi_Start g < fi_End f"

definition apart :: "finding list \<Rightarrow> bool" where
  "apart fs \<longleftrightarrow> distinct fs \<and> (\<forall>f \<in> set fs. \<forall>g \<in> set fs. meets f g \<longrightarrow> f = g)"

text \<open>Findings as a redaction takes them: inside the text, in order, each ending before the next.\<close>

definition laid_out :: "nat \<Rightarrow> finding list \<Rightarrow> bool" where
  "laid_out n fs \<longleftrightarrow> list_all (span_ok n) fs \<and> sorted_wrt (\<lambda>f g. fi_End f \<le> fi_Start g) fs"

lemma overlapsAny_meets: "overlapsAny (fi_Start f) (fi_End f) fs \<longleftrightarrow> (\<exists>g \<in> set fs. meets f g)"
  by (auto simp: overlapsAny_def meets_def list_ex_iff)

interpretation ranked: weak_order less_ranked
  unfolding less_ranked_def by (intro weak_order_lex weak_order_key)

interpretation by_start: weak_order "\<lambda>a b. fi_Start a < fi_Start b"
  by (rule weak_order_key)

lemma keep_disjoint_spec:
  assumes "apart kept" and "\<forall>f \<in> set (kept @ fs). fi_Start f < fi_End f"
  shows "apart (keep_disjoint kept fs) \<and> set kept \<subseteq> set (keep_disjoint kept fs)
    \<and> set (keep_disjoint kept fs) \<subseteq> set (kept @ fs)
    \<and> (\<forall>f \<in> set fs. \<exists>g \<in> set (keep_disjoint kept fs). meets f g)"
  using assms
proof (induction kept fs rule: keep_disjoint.induct)
  case (2 kept f fs)
  have self: "meets f f" using 2(4) by (simp add: meets_def)
  show ?case
  proof (cases "overlapsAny (fi_Start f) (fi_End f) kept")
    case True
    with 2(1) [OF True] 2(3,4) show ?thesis by (auto simp: overlapsAny_meets)
  next
    case False
    then have "\<forall>g \<in> set kept. \<not> meets f g" by (simp add: overlapsAny_meets)
    then have "apart (kept @ [f])" using 2(3) self by (auto simp: apart_def meets_def)
    with 2(2) [OF False] 2(4) False self show ?thesis by auto
  qed
qed simp

text \<open>A finding that is not kept meets one that is ranked before it.\<close>

lemma keep_disjoint_rank:
  assumes "\<forall>g \<in> set kept. \<forall>f \<in> set fs. p g \<le> p f" and "sorted_wrt (\<lambda>f g. p f \<le> (p g :: nat)) fs"
    and "\<forall>f \<in> set (kept @ fs). fi_Start f < fi_End f"
  shows "\<forall>f \<in> set fs. \<exists>g \<in> set (keep_disjoint kept fs). meets f g \<and> p g \<le> p f"
  using assms
proof (induction kept fs rule: keep_disjoint.induct)
  case (2 kept f fs)
  have self: "meets f f" using 2(5) by (simp add: meets_def)
  have sub: "set ks \<subseteq> set (keep_disjoint ks xs)" for ks xs by (induction ks xs rule: keep_disjoint.induct) auto
  show ?case
  proof (cases "overlapsAny (fi_Start f) (fi_End f) kept")
    case True
    then obtain g where "g \<in> set kept" "meets f g" by (auto simp: overlapsAny_meets)
    then have "\<exists>g \<in> set (keep_disjoint kept fs). meets f g \<and> p g \<le> p f" using 2(3) sub by force
    moreover have "\<forall>f \<in> set fs. \<exists>g \<in> set (keep_disjoint kept fs). meets f g \<and> p g \<le> p f"
      using 2(1) [OF True] 2(3-5) by simp
    ultimately show ?thesis using True by simp
  next
    case False
    have "f \<in> set (keep_disjoint (kept @ [f]) fs)" using sub [of "kept @ [f]" fs] by auto
    moreover have "\<forall>f' \<in> set fs. \<exists>g \<in> set (keep_disjoint (kept @ [f]) fs). meets f' g \<and> p g \<le> p f'"
      using 2(2) [OF False] 2(3-5) by auto
    ultimately show ?thesis using False self by auto
  qed
qed simp

lemma apart_sorted:
  assumes "apart fs" and "ordered_by (\<lambda>a b. fi_Start a < fi_Start b) fs" and "\<forall>f \<in> set fs. fi_Start f < fi_End f"
  shows "sorted_wrt (\<lambda>f g. fi_End f \<le> fi_Start g) fs"
  using assms
proof (induction fs)
  case (Cons f fs)
  have "fi_End f \<le> fi_Start g" if "g \<in> set fs" for g
  proof -
    have "\<not> meets f g" using Cons.prems(1) that by (auto simp: apart_def)
    moreover have "fi_Start f \<le> fi_Start g" using Cons.prems(2) that by auto
    ultimately show ?thesis using Cons.prems(3) that by (force simp: meets_def)
  qed
  moreover have "apart fs" using Cons.prems(1) by (auto simp: apart_def)
  ultimately show ?case using Cons by simp
qed simp

lemma Merge_spec:
  assumes "\<forall>f \<in> set fs. span_ok n f"
  shows "laid_out n (Merge fs) \<and> set (Merge fs) \<subseteq> set fs
    \<and> (\<forall>f \<in> set fs. \<exists>g \<in> set (Merge fs). meets f g \<and> priorityOf (fi_Label g) \<le> priorityOf (fi_Label f))"
proof (cases "length fs \<le> 1")
  case True
  then have "fs = [] \<or> (\<exists>f. fs = [f])" by (cases fs) auto
  with assms show ?thesis by (auto simp: Merge_def laid_out_def span_ok_def meets_def)
next
  case False
  let ?r = "sort_stable less_ranked fs"
  let ?k = "keep_disjoint [] ?r"
  let ?m = "sort_stable (\<lambda>a b. fi_Start a < fi_Start b) ?k"
  have m: "Merge fs = ?m" using False by (simp add: Merge_def)
  have ne: "\<forall>f \<in> set ([] @ ?r). fi_Start f < fi_End f" using assms by (auto simp: span_ok_def)
  have "apart []" by (simp add: apart_def)
  note k = keep_disjoint_spec [OF this ne]
  have "sorted_wrt (\<lambda>f g. priorityOf (fi_Label f) \<le> priorityOf (fi_Label g)) ?r"
    using ranked.sort_ordered [of fs] by (rule sorted_wrt_mono_rel [rotated]) (auto simp: less_ranked_def split: if_splits)
  from keep_disjoint_rank [OF _ this ne]
  have c: "\<forall>f \<in> set fs. \<exists>g \<in> set ?k. meets f g \<and> priorityOf (fi_Label g) \<le> priorityOf (fi_Label f)" by simp
  have s: "set ?m = set ?k" "set ?k \<subseteq> set fs" using k by auto
  have "apart ?m" using k by (simp add: apart_def)
  moreover have "\<forall>f \<in> set ?m. span_ok n f" using s assms by auto
  ultimately have "laid_out n ?m"
    using apart_sorted [of ?m] by_start.sort_ordered [of ?k] by (auto simp: laid_out_def list_all_iff span_ok_def)
  then show ?thesis unfolding m using c s by auto
qed

section \<open>Scanning\<close>

lemma minlen_lit [simp]: "minlen (lit s) = length s" "minlen (lit_fold s) = length s"
  by (induction s) (simp_all add: lit_def lit_fold_def)

lemma minlen_seqs [simp]: "minlen (seqs rs) = sum_list (map minlen rs)"
  by (induction rs) (simp_all add: seqs_def)

lemma patterns_consume: "p \<in> set patterns \<Longrightarrow> 0 < minlen (pt_re p)"
  unfolding patterns_def by (auto simp: secret_def pii_def at_least_def exactly_def optional_def)

lemma laid_out_mem: "\<lbrakk>laid_out n fs; f \<in> set fs\<rbrakk> \<Longrightarrow> span_ok n f"
  by (auto simp: laid_out_def list_all_iff)

lemma laid_out_meets:
  assumes "laid_out n fs" and "f \<in> set fs" and "g \<in> set fs" and "meets f g"
  shows "f = g"
proof (rule ccontr)
  assume "f \<noteq> g"
  obtain i j where ij: "i < length fs" "f = fs ! i" "j < length fs" "g = fs ! j"
    using assms(2,3) by (auto simp: in_set_conv_nth)
  with \<open>f \<noteq> g\<close> have "i < j \<or> j < i" by (metis linorder_neqE_nat)
  then have "fi_End f \<le> fi_Start g \<or> fi_End g \<le> fi_Start f"
    using assms(1) ij sorted_wrt_nth_less [of "\<lambda>f g. fi_End f \<le> fi_Start g" fs] by (auto simp: laid_out_def)
  with assms(4) show False by (auto simp: meets_def)
qed

lemma named_ok: "f \<in> set (named_findings s ps) \<Longrightarrow> span_ok (length s) f"
proof -
  assume "f \<in> set (named_findings s ps)"
  then consider (pat) p a b where "p \<in> set patterns" "(a, b) \<in> set (FindAllStringIndex (pt_re p) s)" "f = span_of (pt_label p) (a, b)"
    | (cus) l r a b where "(a, b) \<in> set (FindAllStringIndex r s)" "a < b" "f = span_of l (a, b)"
    by (auto simp: named_findings_def pattern_findings_def custom_findings_def)
  then show ?thesis
  proof cases
    case pat
    have "a + minlen (pt_re p) \<le> b" by (rule FindAll_minlen [OF pat(2)])
    with patterns_consume [OF pat(1)] FindAll_range [OF pat(2)] pat(3) show ?thesis
      by (simp add: span_ok_def span_of_def)
  next
    case cus
    with FindAll_range [OF cus(1)] show ?thesis by (simp add: span_ok_def span_of_def)
  qed
qed

lemma entropy_ok:
  assumes "f \<in> set (entropy_findings s named)"
  shows "span_ok (length s) f" and "\<forall>g \<in> set named. \<not> meets f g"
proof -
  obtain a b where f: "(a, b) \<in> set (FindAllStringIndex entropyCandidate s)" "\<not> overlapsAny a b named"
      "f = span_of ''high_entropy'' (a, b)"
    using assms by (auto simp: entropy_findings_def)
  have "a + 24 \<le> b" using FindAll_minlen [OF f(1)] by (simp add: entropyCandidate_def at_least_def)
  with FindAll_range [OF f(1)] f(3) show "span_ok (length s) f" by (simp add: span_ok_def span_of_def)
  show "\<forall>g \<in> set named. \<not> meets f g" using f(2) overlapsAny_meets [of f named] by (simp add: f(3) span_of_def)
qed

text \<open>The named findings of the first merge are all in the result: an entropy hit never displaces one.\<close>

lemma ScanWith_spec:
  "laid_out (length s) (ScanWith s ps) \<and> set (Merge (named_findings s ps)) \<subseteq> set (ScanWith s ps)"
proof -
  let ?named = "Merge (named_findings s ps)"
  let ?all = "?named @ (if ps_Entropy ps then entropy_findings s ?named else [])"
  have n: "laid_out (length s) ?named" using Merge_spec [of "named_findings s ps"] named_ok by blast
  have a: "\<forall>f \<in> set ?all. span_ok (length s) f" using laid_out_mem [OF n] entropy_ok(1) by auto
  note m = Merge_spec [OF a]
  have "f \<in> set (Merge ?all)" if f: "f \<in> set ?named" for f
  proof -
    obtain g where g: "g \<in> set (Merge ?all)" "meets f g" using m f by auto
    have "meets g f" using g(2) by (auto simp: meets_def)
    with g m f entropy_ok(2) have "g \<in> set ?named" by (auto split: if_splits)
    with laid_out_meets [OF n f this g(2)] g show ?thesis by simp
  qed
  with m show ?thesis by (auto simp: ScanWith_def Let_def)
qed

lemma ScanWith_covers:
  assumes "f \<in> set (named_findings s ps)"
  shows "\<exists>g \<in> set (ScanWith s ps). meets f g \<and> priorityOf (fi_Label g) \<le> priorityOf (fi_Label f)"
  using assms Merge_spec [of "named_findings s ps" "length s"] named_ok ScanWith_spec [of s ps] by blast

section \<open>Redacting\<close>

definition covered :: "finding list \<Rightarrow> nat \<Rightarrow> bool" where
  "covered fs i = list_ex (\<lambda>f. fi_Start f \<le> i \<and> i < fi_End f) fs"

text \<open>What a position of the text becomes: a marker where a span starts, nothing inside of one.\<close>

definition render :: "string \<Rightarrow> finding list \<Rightarrow> nat \<Rightarrow> string" where
  "render s fs i =
     concat (map (\<lambda>f. marker (fi_Label f)) (filter (\<lambda>f. fi_Start f = i) fs))
     @ (if covered fs i then [] else [s ! i])"

lemma render_plain: "\<forall>f \<in> set fs. i < fi_Start f \<Longrightarrow> render s fs i = [s ! i]"
  by (auto simp: render_def covered_def list_ex_iff filter_empty_conv)

lemma map_plain: "\<lbrakk>a \<le> b; b \<le> length s\<rbrakk> \<Longrightarrow> concat (map (\<lambda>i. [s ! i]) [a..<b]) = substr s a b"
proof -
  assume "a \<le> b" "b \<le> length s"
  then have "map ((!) s) [a..<b] = take (b - a) (drop a s)"
    by (intro nth_equalityI) auto
  then show ?thesis by (simp add: substr_def concat_map_singleton)
qed

lemma upt_split: "\<lbrakk>a \<le> b; b \<le> c\<rbrakk> \<Longrightarrow> [a..<c] = [a..<b] @ [b..<c]"
  using upt_add_eq_append [of a b "c - b"] by simp

lemma redact_loop_render:
  assumes "laid_out (length s) fs" and "\<forall>f \<in> set fs. prev \<le> fi_Start f" and "prev \<le> length s"
  shows "redact_loop s prev fs = concat (map (render s fs) [prev..<length s])"
  using assms
proof (induction fs arbitrary: prev)
  case Nil
  have "concat (map (render s []) [prev..<length s]) = concat (map (\<lambda>i. [s ! i]) [prev..<length s])"
    by (rule arg_cong [where f = concat], rule map_cong [OF refl]) (simp add: render_def covered_def)
  also have "\<dots> = drop prev s" using map_plain [OF Nil(3), of s] by (simp add: substr_def)
  finally show ?case by simp
next
  case (Cons f fs)
  let ?n = "length s"
  have f: "fi_Start f < fi_End f" "fi_End f \<le> ?n" "prev \<le> fi_Start f"
    using Cons.prems by (auto simp: laid_out_def span_ok_def)
  have rest: "laid_out ?n fs" "\<forall>g \<in> set fs. fi_End f \<le> fi_Start g" using Cons.prems(1) by (auto simp: laid_out_def)
  have ih: "redact_loop s (fi_End f) fs = concat (map (render s fs) [fi_End f..<?n])"
    using Cons.IH [OF rest f(2)] .
  have split: "[prev..<?n] = [prev..<fi_Start f] @ [fi_Start f..<fi_End f] @ [fi_End f..<?n]"
    using upt_split [of prev "fi_Start f" ?n] upt_split [of "fi_Start f" "fi_End f" ?n] f by simp
  have p1: "map (render s (f # fs)) [prev..<fi_Start f] = map (\<lambda>i. [s ! i]) [prev..<fi_Start f]"
    by (rule map_cong [OF refl], rule render_plain) (use rest f in force)
  have cut: "[fi_Start f..<fi_End f] = fi_Start f # [Suc (fi_Start f)..<fi_End f]" using f by (simp add: upt_conv_Cons)
  have "filter (\<lambda>g. fi_Start g = fi_Start f) fs = []" using rest f by (force simp: filter_empty_conv)
  then have p2: "render s (f # fs) (fi_Start f) = marker (fi_Label f)"
    using f by (simp add: render_def covered_def)
  have p3: "map (render s (f # fs)) [Suc (fi_Start f)..<fi_End f] = map (\<lambda>i. []) [Suc (fi_Start f)..<fi_End f]"
  proof (rule map_cong [OF refl])
    fix i assume "i \<in> set [Suc (fi_Start f)..<fi_End f]"
    then have "filter (\<lambda>g. fi_Start g = i) (f # fs) = []" "covered (f # fs) i"
      using rest by (auto simp: filter_empty_conv covered_def)
    then show "render s (f # fs) i = []" by (simp add: render_def)
  qed
  have p4: "map (render s (f # fs)) [fi_End f..<?n] = map (render s fs) [fi_End f..<?n]"
    by (rule map_cong [OF refl]) (use f in \<open>auto simp: render_def covered_def\<close>)
  have "concat (map (render s (f # fs)) [prev..<?n]) =
      substr s prev (fi_Start f) @ marker (fi_Label f) @ concat (map (render s fs) [fi_End f..<?n])"
    unfolding split cut map_append concat_append p1 p4 list.map concat.simps p2 p3
    using map_plain [of prev "fi_Start f" s] f by simp
  then show ?case using f ih by simp
qed

text \<open>Joining neighbours widens the spans by white space only.\<close>

lemma coalesce_spec:
  assumes "laid_out (length s) (out @ fs)"
  shows "laid_out (length s) (coalesce s out fs)
    \<and> (\<forall>i. covered (out @ fs) i \<longrightarrow> covered (coalesce s out fs) i)
    \<and> (\<forall>i < length s. covered (coalesce s out fs) i \<longrightarrow> covered (out @ fs) i \<or> is_space (s ! i))"
  using assms
proof (induction s out fs rule: coalesce.induct)
  case (2 s out f fs)
  let ?l = "last out"
  let ?join = "out \<noteq> [] \<and> fi_Label ?l = fi_Label f \<and> fi_Start f \<ge> fi_End ?l \<and> fi_End f \<le> length s
         \<and> isBlank (substr s (fi_End ?l) (fi_Start f))"
  show ?case
  proof (cases ?join)
    case False
    have "coalesce s out (f # fs) = coalesce s (out @ [f]) fs" using False by (simp only: coalesce.simps if_False)
    then show ?thesis using 2(2) [OF False] 2(3) by simp
  next
    case True
    let ?o = "butlast out @ [?l\<lparr>fi_End := fi_End f\<rparr>]"
    have out: "out = butlast out @ [?l]" using True by simp
    have f: "fi_Start f < fi_End f" using 2(3) by (auto simp: laid_out_def span_ok_def)
    then have lt: "fi_End f > fi_End ?l" using True by simp
    have step: "coalesce s out (f # fs) = coalesce s ?o fs"
      by (simp only: coalesce.simps if_P [OF True] if_P [OF lt])
    have lay: "laid_out (length s) (butlast out @ ?l # f # fs)" using 2(3) out by (metis append.assoc append_Cons append_Nil)
    then have lay': "laid_out (length s) (?o @ fs)"
      using True lt f by (auto simp: laid_out_def span_ok_def sorted_wrt_append)
    have eq: "covered (out @ f # fs) i \<longleftrightarrow> covered (butlast out @ ?l # f # fs) i" for i
      using out by (metis append.assoc append_Cons append_Nil)
    have sub: "covered (out @ f # fs) i \<longrightarrow> covered (?o @ fs) i" for i
      unfolding eq using True lt f lay by (auto simp: covered_def laid_out_def span_ok_def)
    have gap: "is_space (s ! i)" if "fi_End ?l \<le> i" "i < fi_Start f" "i < length s" for i
    proof -
      have "s ! i = substr s (fi_End ?l) (fi_Start f) ! (i - fi_End ?l)"
        and "i - fi_End ?l < length (substr s (fi_End ?l) (fi_Start f))" using that by (auto simp: substr_def)
      then show ?thesis using True by (auto simp: isBlank_def list_all_length)
    qed
    have sup: "covered (?o @ fs) i \<longrightarrow> covered (out @ f # fs) i \<or> is_space (s ! i)" if "i < length s" for i
      unfolding eq using gap [of i] that by (auto simp: covered_def not_less not_le)
    from 2(1) [OF True] lt lay' sub sup step show ?thesis by (simp only: if_True) blast
  qed
qed simp

lemma Redact_render:
  assumes "laid_out (length s) fs"
  shows "Redact s fs = concat (map (render s (coalesceAdjacent s fs)) [0..<length s])"
proof (cases "fs = []")
  case True
  have "concat (map (render s []) [0..<length s]) = concat (map (\<lambda>i. [s ! i]) [0..<length s])"
    by (rule arg_cong [where f = concat], rule map_cong [OF refl]) (simp add: render_def covered_def)
  then show ?thesis using True map_plain [of 0 "length s" s] by (simp add: Redact_def coalesceAdjacent_def substr_def)
next
  case False
  have "laid_out (length s) (coalesceAdjacent s fs)"
    using coalesce_spec [of s "[]" fs] assms by (simp add: coalesceAdjacent_def)
  then show ?thesis using redact_loop_render [of s "coalesceAdjacent s fs" 0] False by (simp add: Redact_def)
qed

section \<open>Properties\<close>

text \<open>
  C5: What a scan finds and what a redaction leaves. Findings lie inside the
  text, in order and without overlap; every validated match of an enabled built-in or custom pattern
  meets a finding of a pattern at least as specific. The redacted text is the text position by
  position with every byte of every finding gone and a marker where each run of findings starts;
  apart from findings only white space between two findings of one label goes.
\<close>
theorem redaction_complete:
  shows "laid_out (length s) (ScanWith s ps)
    \<and> (\<forall>f \<in> set (named_findings s ps). \<exists>g \<in> set (ScanWith s ps).
          meets f g \<and> priorityOf (fi_Label g) \<le> priorityOf (fi_Label f))
    \<and> (let cs = coalesceAdjacent s (ScanWith s ps) in
        Redact s (ScanWith s ps) = concat (map (render s cs) [0..<length s])
        \<and> (\<forall>i < length s. covered (ScanWith s ps) i \<longrightarrow> covered cs i)
        \<and> (\<forall>i < length s. covered cs i \<longrightarrow> covered (ScanWith s ps) i \<or> is_space (s ! i)))"
proof -
  have l: "laid_out (length s) (ScanWith s ps)" using ScanWith_spec by blast
  with Redact_render [OF l] coalesce_spec [of s "[]" "ScanWith s ps"] ScanWith_covers [of _ s ps]
  show ?thesis unfolding coalesceAdjacent_def Let_def by simp
qed

definition demo_custom :: patternSet where
  "demo_custom = \<lparr>ps_Enabled = Some (\<lambda>_. Some False), ps_Custom = [(''tag'', lit ''ab'')], ps_Entropy = False\<rparr>"

lemma demo_scan: "ScanWith ''xaby'' demo_custom = [\<lparr>fi_Label = ''tag'', fi_Start = 1, fi_End = 3\<rparr>]"
proof -
  have off: "filter (\<lambda>p. patternEnabled demo_custom (pt_label p) (pt_defaultOn p)) patterns = []"
    by (simp add: patternEnabled_def demo_custom_def)
  have "named_findings ''xaby'' demo_custom = [\<lparr>fi_Label = ''tag'', fi_Start = 1, fi_End = 3\<rparr>]"
    unfolding named_findings_def off
    by (simp add: demo_custom_def custom_findings_def FindAllStringIndex_def find_at_def lit_def span_of_def
        eval_nat_numeral Let_def)
  then show ?thesis by (simp add: ScanWith_def Merge_def demo_custom_def)
qed

theorem redaction_complete_witness:
  "laid_out (length ''xaby'') (ScanWith ''xaby'' demo_custom)
   \<and> covered (coalesceAdjacent ''xaby'' (ScanWith ''xaby'' demo_custom)) 1
   \<and> Redact ''xaby'' (ScanWith ''xaby'' demo_custom) = ''x[REDACTED:tag]y''"
proof -
  have "covered (ScanWith ''xaby'' demo_custom) 1" by (simp add: demo_scan covered_def)
  moreover have "Redact ''xaby'' (ScanWith ''xaby'' demo_custom) = ''x[REDACTED:tag]y''"
    by (simp add: demo_scan Redact_def coalesceAdjacent_def substr_def marker_def eval_nat_numeral)
  moreover have "(1 :: nat) < length ''xaby''" by simp
  ultimately show ?thesis using redaction_complete [of "''xaby''" demo_custom] unfolding Let_def by blast
qed

text \<open>
  The patterns are not in the order of their specificity throughout: an OpenRouter key is also
  matched by the OpenAI pattern, which comes first, so it is reported under that label.
\<close>

lemma openrouter_key_shadowed:
  "FindAllStringIndex (pt_re (patterns ! 2)) ''sk-or-abcdefghijklmnopqrst'' = [(0, 26)]"
  "FindAllStringIndex (pt_re (patterns ! 3)) ''sk-or-abcdefghijklmnopqrst'' = [(0, 26)]"
  by code_simp+

lemma openrouter_key_label:
  "Merge [span_of ''openai_key'' (0, 26), span_of ''openrouter_key'' (0, 26)] = [span_of ''openai_key'' (0, 26)]"
  by (simp add: Merge_def less_ranked_def priorityOf_def patterns_def secret_def pii_def span_of_def overlapsAny_def
      fi_len_def)

text \<open>
  A finding without a built-in label loses against a longer one that overlaps it, and what the
  longer one does not cover of it stays in the text: here the first three bytes of a custom
  pattern's match.
\<close>

lemma displaced_finding_leaks:
  "Redact ''abcdefgh'' (Merge [span_of ''ticket'' (0, 4), span_of ''pii:PER'' (3, 8)]) = ''abc[REDACTED:pii:PER]''"
  by (simp add: Merge_def less_ranked_def priorityOf_def patterns_def secret_def pii_def span_of_def overlapsAny_def
      fi_len_def Redact_def coalesceAdjacent_def substr_def marker_def eval_nat_numeral)

end
