(* ===== verification/DlpEnforce.thy ===== *)
theory DlpEnforce
  imports Dlp ChatTypes UsageLimits
begin

text \<open>
  Enforcement of the DLP policy on requests (\<open>internal/httpapi/dlp.go\<close>): the configuration, the
  custom patterns, and the scans of chat messages, of a single text and of a batch of texts. The
  regular-expression compiler, the sidecar pool's answers, the incident table, the webhook
  subscriptions and the secret store are parameters.
\<close>

section \<open>Configuration\<close>

record customPattern =
  cu_Label :: string
  cu_Regex :: string
  cu_Enabled :: bool

record dlpConfig =
  dc_Enabled :: bool
  dc_Action :: string
  dc_ScanResponses :: bool
  dc_ModelEnabled :: bool
  dc_ModelURL :: string
  dc_ModelMinScore :: rat
  dc_ModelURLs :: "string list"
  dc_ModelMaxConcurrency :: int
  dc_ModelScanScope :: string
  dc_ModelScanBudgetMS :: int
  dc_Patterns :: "(string \<rightharpoonup> bool) option"
  dc_CustomPatterns :: "customPattern list"
  dc_compiledCustom :: "(string \<times> rx) list"

definition maxCustomPatterns :: nat where "maxCustomPatterns = 50"
definition maxCustomRegexLen :: nat where "maxCustomRegexLen = 512"
definition maxCustomLabelLen :: nat where "maxCustomLabelLen = 64"

datatype custom_error = LabelRequired | LabelTooLong | RegexLength | RegexSyntax | RegexMatchesEmpty | TooMany

definition validateCustom :: "(string \<Rightarrow> rx option) \<Rightarrow> customPattern \<Rightarrow> custom_error + rx" where
  "validateCustom compile c =
     (if trim_space (cu_Label c) = [] then Inl LabelRequired
      else if length (cu_Label c) > maxCustomLabelLen then Inl LabelTooLong
      else if cu_Regex c = [] \<or> length (cu_Regex c) > maxCustomRegexLen then Inl RegexLength
      else case compile (cu_Regex c) of
             None \<Rightarrow> Inl RegexSyntax
           | Some re \<Rightarrow> if MatchString re [] then Inl RegexMatchesEmpty else Inr re)"

fun compile_all ::
  "(string \<Rightarrow> rx option) \<Rightarrow> customPattern list \<Rightarrow> (string \<times> rx) list \<Rightarrow> custom_error option
     \<Rightarrow> (string \<times> rx) list \<times> custom_error option" where
  "compile_all compile [] out firstErr = (out, firstErr)"
| "compile_all compile (c # cs) out firstErr =
     (if \<not> cu_Enabled c then compile_all compile cs out firstErr
      else case validateCustom compile c of
             Inl e \<Rightarrow> compile_all compile cs out (if firstErr = None then Some e else firstErr)
           | Inr re \<Rightarrow> compile_all compile cs (out @ [(cu_Label c, re)]) firstErr)"

definition compileCustomPatterns ::
  "(string \<Rightarrow> rx option) \<Rightarrow> customPattern list \<Rightarrow> (string \<times> rx) list \<times> custom_error option" where
  "compileCustomPatterns compile cps =
     (if length cps > maxCustomPatterns then ([], Some TooMany) else compile_all compile cps [] None)"

definition dlpToggle :: "(string \<rightharpoonup> bool) option \<Rightarrow> string \<Rightarrow> bool \<Rightarrow> bool" where
  "dlpToggle enabled label def =
     (case enabled of
        None \<Rightarrow> def
      | Some m \<Rightarrow> (case m label of Some v \<Rightarrow> v | None \<Rightarrow> def))"

definition modelToggleLabel :: "string \<Rightarrow> string" where
  "modelToggleLabel label =
     (let l = to_upper (trim_prefix label ''pii:'') in
      if l \<in> set [''PER'', ''PERSON'', ''PERS''] then ''person_name''
      else if l \<in> set [''LOC'', ''LOCATION'', ''GPE'', ''ADDRESS''] then ''address''
      else if l \<in> set [''ORG'', ''ORGANIZATION'', ''ORGANISATION''] then ''organization''
      else [])"

definition filterModelFindings :: "finding list \<Rightarrow> (string \<rightharpoonup> bool) option \<Rightarrow> finding list" where
  "filterModelFindings fs enabled =
     (if enabled = None then fs
      else filter (\<lambda>f. modelToggleLabel (fi_Label f) = [] \<or> dlpToggle enabled (modelToggleLabel (fi_Label f)) False) fs)"

definition knownPatternLabels :: "string list" where
  "knownPatternLabels = [''person_name'', ''address'', ''organization''] @ map fst BuiltinPatterns"

text \<open>Whether a set of toggles is accepted; the code names one unknown key in its error.\<close>

definition validatePatternLabels :: "(string \<times> bool) list \<Rightarrow> bool" where
  "validatePatternLabels p = list_all (\<lambda>kv. fst kv \<in> set knownPatternLabels) p"

definition defaultDLPConfig :: dlpConfig where
  "defaultDLPConfig =
     \<lparr>dc_Enabled = True, dc_Action = ''redact'', dc_ScanResponses = False, dc_ModelEnabled = False,
      dc_ModelURL = [], dc_ModelMinScore = 0, dc_ModelURLs = [], dc_ModelMaxConcurrency = 0,
      dc_ModelScanScope = ''last_user'', dc_ModelScanBudgetMS = 2000, dc_Patterns = None,
      dc_CustomPatterns = [], dc_compiledCustom = []\<rparr>"

definition effectiveModelURLs :: "dlpConfig \<Rightarrow> string list" where
  "effectiveModelURLs c =
     (let out = filter (\<lambda>u. u \<noteq> []) (map trim_space (dc_ModelURLs c)) in
      if out = [] then (let u = trim_space (dc_ModelURL c) in if u \<noteq> [] then [u] else []) else out)"

definition validDLPAction :: "string \<Rightarrow> bool" where
  "validDLPAction a = (a \<in> set [''off'', ''flag'', ''redact'', ''block''])"

text \<open>The decoder returns what it left in the configuration it was given.\<close>

definition applyDLP :: "(string \<Rightarrow> rx option) \<Rightarrow> (string \<Rightarrow> dlpConfig \<Rightarrow> dlpConfig) \<Rightarrow> string \<Rightarrow> dlpConfig" where
  "applyDLP compile decode raw =
     (let c0 = (if raw \<noteq> [] then decode raw defaultDLPConfig else defaultDLPConfig);
          c1 = (if \<not> validDLPAction (dc_Action c0) then c0\<lparr>dc_Action := ''off''\<rparr> else c0);
          c2 = (if dc_ModelScanScope c1 \<noteq> ''all'' then c1\<lparr>dc_ModelScanScope := ''last_user''\<rparr> else c1);
          c3 = (if dc_ModelScanBudgetMS c2 \<le> 0 then c2\<lparr>dc_ModelScanBudgetMS := 2000\<rparr> else c2)
      in c3\<lparr>dc_compiledCustom := fst (compileCustomPatterns compile (dc_CustomPatterns c3))\<rparr>)"

definition dlpCfg :: "dlpConfig option \<Rightarrow> dlpConfig" where
  "dlpCfg ptr = (case ptr of Some c \<Rightarrow> c | None \<Rightarrow> defaultDLPConfig)"

section \<open>Incidents\<close>

record incident =
  in_KeyID :: string
  in_UserID :: string
  in_Ingress :: string
  in_Alias :: string
  in_Action :: string
  in_Labels :: "string list"
  in_MatchCount :: nat
  in_Sample :: string

record authedKey =
  ak_KeyID :: string
  ak_UserID :: string
  ak_Policy :: key_policy

text \<open>
  What the world keeps of a scan: the incidents stored, and the alerts handed to the webhook sender
  with their endpoints (URL and signing secret). \<open>'w\<close> is the state of the sidecar pool.
\<close>

record 'w dlp_world =
  dw_incidents :: "incident list"
  dw_alerts :: "((string \<times> string) list \<times> incident) list"
  dw_pool :: 'w

datatype model_outcome = MBudget | MAllBusy | MNoEndpoints | MFailed | MFound "finding list"

record 'w dlp_env =
  de_cfg :: "dlpConfig option"
  de_stores :: "incident \<Rightarrow> bool"
  de_hooks :: "(string \<times> string) list option"
  de_open :: "string \<Rightarrow> string option"
  de_scan :: "'w \<Rightarrow> rat \<Rightarrow> string \<Rightarrow> model_outcome \<times> 'w"

definition openWebhookSecret :: "(string \<Rightarrow> string option) \<Rightarrow> string \<Rightarrow> string" where
  "openWebhookSecret open_sealed enc =
     (if enc = [] then [] else case open_sealed enc of None \<Rightarrow> [] | Some pt \<Rightarrow> pt)"

definition recordDLP :: "'w dlp_env \<Rightarrow> incident \<Rightarrow> 'w dlp_world \<Rightarrow> 'w dlp_world" where
  "recordDLP E i w =
     (let w1 = (if de_stores E i then w\<lparr>dw_incidents := dw_incidents w @ [i]\<rparr> else w) in
      case de_hooks E of
        None \<Rightarrow> w1
      | Some eps \<Rightarrow>
          if eps = [] then w1
          else w1\<lparr>dw_alerts := dw_alerts w1 @
                 [(map (\<lambda>(url, enc). (url, openWebhookSecret (de_open E) enc)) eps, i)]\<rparr>)"

definition actionPast :: "string \<Rightarrow> string" where
  "actionPast action =
     (if action = ''block'' then ''blocked'' else if action = ''redact'' then ''redacted'' else ''flagged'')"

definition excerpt :: "string \<Rightarrow> string" where
  "excerpt s = (if length s > 240 then take 240 s @ [CHR 0xE2, CHR 0x80, CHR 0xA6] else s)"

definition sortedKeys :: "string list \<Rightarrow> string list" where
  "sortedKeys ks = sort (remdups ks)"

definition blocked_message :: "string list \<Rightarrow> string" where
  "blocked_message labels = ''request blocked: sensitive content detected ('' @ join_on '', '' labels @ '')''"

definition layer1 :: "dlpConfig \<Rightarrow> string \<Rightarrow> finding list" where
  "layer1 cfg text =
     ScanWith text \<lparr>ps_Enabled = dc_Patterns cfg, ps_Custom = dc_compiledCustom cfg,
       ps_Entropy = dlpToggle (dc_Patterns cfg) ''high_entropy'' True\<rparr>"

section \<open>Chat requests\<close>

record dlpResult =
  dr_Findings :: "finding list"
  dr_MsgFindings :: "finding list list"
  dr_HadIncident :: bool
  dr_AlreadyRedacted :: bool
  dr_OriginalMessages :: "message list"

definition no_result :: dlpResult where
  "no_result = \<lparr>dr_Findings = [], dr_MsgFindings = [], dr_HadIncident = False, dr_AlreadyRedacted = False,
     dr_OriginalMessages = []\<rparr>"

definition snapshotOriginals :: "string \<Rightarrow> message list \<Rightarrow> message list" where
  "snapshotOriginals action msgs = (if action \<noteq> ''redact'' then [] else msgs)"

text \<open>The last user message, when only that one goes to the sidecar.\<close>

fun last_user_from :: "message list \<Rightarrow> nat \<Rightarrow> nat option" where
  "last_user_from msgs 0 = None"
| "last_user_from msgs (Suc i) = (if m_Role (msgs ! i) = ''user'' then Some i else last_user_from msgs i)"

definition model_on :: "dlpConfig \<Rightarrow> bool \<Rightarrow> bool" where
  "model_on cfg modelScan \<longleftrightarrow> dc_ModelEnabled cfg \<and> modelScan \<and> effectiveModelURLs cfg \<noteq> []"

definition in_model_scope :: "dlpConfig \<Rightarrow> bool \<Rightarrow> message list \<Rightarrow> nat \<Rightarrow> bool" where
  "in_model_scope cfg modelScan msgs i \<longleftrightarrow>
     model_on cfg modelScan \<and>
     (dc_ModelScanScope cfg = ''all'' \<or> last_user_from msgs (length msgs) = Some i)"

definition message_findings ::
  "'w dlp_env \<Rightarrow> dlpConfig \<Rightarrow> bool \<Rightarrow> string \<Rightarrow> 'w \<Rightarrow> finding list \<times> 'w" where
  "message_findings E cfg scoped content w =
     (let findings = layer1 cfg content in
      if \<not> scoped then (findings, w)
      else case de_scan E w (dc_ModelMinScore cfg) content of
             (MFound mf, w1) \<Rightarrow>
               (let kept = filterModelFindings mf (dc_Patterns cfg)
                in (if kept \<noteq> [] then Merge (findings @ kept) else findings, w1))
           | (_, w1) \<Rightarrow> (findings, w1))"

text \<open>The local variables of the loop over the messages.\<close>

record 'w enforce_state =
  es_labels :: "string list"
  es_total :: nat
  es_sample :: string
  es_all :: "finding list"
  es_perMsg :: "finding list list"
  es_msgs :: "message list"
  es_pool :: 'w

definition enforce_message ::
  "'w dlp_env \<Rightarrow> dlpConfig \<Rightarrow> bool \<Rightarrow> message list \<Rightarrow> nat \<Rightarrow> 'w enforce_state \<Rightarrow> 'w enforce_state" where
  "enforce_message E cfg modelScan msgs i st =
     (let content = m_Content (es_msgs st ! i) in
      if content = [] then st
      else let (findings, w) = message_findings E cfg (in_model_scope cfg modelScan msgs i) content (es_pool st);
               st1 = st\<lparr>es_pool := w\<rparr> in
           if findings = [] then st1
           else st1\<lparr>es_perMsg := (es_perMsg st1)[i := findings], es_all := es_all st1 @ findings,
                    es_total := es_total st1 + length findings, es_labels := es_labels st1 @ Labels findings,
                    es_sample := (if es_sample st1 = [] then excerpt (Redact content findings) else es_sample st1),
                    es_msgs := (if dc_Action cfg = ''redact''
                                then (es_msgs st1)[i := (es_msgs st1 ! i)\<lparr>m_Content := Redact content findings\<rparr>]
                                else es_msgs st1)\<rparr>)"

definition enforce_init :: "message list \<Rightarrow> 'w \<Rightarrow> 'w enforce_state" where
  "enforce_init msgs w =
     \<lparr>es_labels = [], es_total = 0, es_sample = [], es_all = [], es_perMsg = replicate (length msgs) [],
      es_msgs = msgs, es_pool = w\<rparr>"

text \<open>The result: blocked, the client's message, the result for the capture, the request, the world.\<close>

definition dlpEnforce ::
  "'w dlp_env \<Rightarrow> authedKey \<Rightarrow> string \<Rightarrow> chatRequest \<Rightarrow> bool \<Rightarrow> 'w dlp_world
     \<Rightarrow> bool \<times> string \<times> dlpResult \<times> chatRequest \<times> 'w dlp_world" where
  "dlpEnforce E ak ingress req modelScan w =
     (let cfg = dlpCfg (de_cfg E) in
      if \<not> dc_Enabled cfg \<or> dc_Action cfg = ''off'' then (False, [], no_result, req, w)
      else
        let msgs = cr_Messages req;
            st = fold (enforce_message E cfg modelScan msgs) [0..<length msgs] (enforce_init msgs (dw_pool w));
            req1 = req\<lparr>cr_Messages := es_msgs st\<rparr>;
            w1 = w\<lparr>dw_pool := es_pool st\<rparr>
        in if es_total st = 0 then (False, [], no_result, req1, w1)
           else
             let labels = sortedKeys (es_labels st);
                 w2 = recordDLP E \<lparr>in_KeyID = ak_KeyID ak, in_UserID = ak_UserID ak, in_Ingress = ingress,
                        in_Alias = cr_Model req, in_Action = actionPast (dc_Action cfg), in_Labels = labels,
                        in_MatchCount = es_total st, in_Sample = es_sample st\<rparr> w1
             in if dc_Action cfg = ''block'' then (True, blocked_message labels, no_result, req1, w2)
                else (False, [],
                      \<lparr>dr_Findings = es_all st, dr_MsgFindings = es_perMsg st, dr_HadIncident = True,
                       dr_AlreadyRedacted = (dc_Action cfg = ''redact''),
                       dr_OriginalMessages = snapshotOriginals (dc_Action cfg) msgs\<rparr>, req1, w2))"

section \<open>Single texts and batches\<close>

definition dlpScanText ::
  "'w dlp_env \<Rightarrow> authedKey \<Rightarrow> string \<Rightarrow> string \<Rightarrow> string \<Rightarrow> 'w dlp_world
     \<Rightarrow> bool \<times> string \<times> finding list \<times> string \<times> 'w dlp_world" where
  "dlpScanText E ak ingress als text w =
     (let cfg = dlpCfg (de_cfg E) in
      if \<not> dc_Enabled cfg \<or> dc_Action cfg = ''off'' \<or> text = [] then (False, [], [], text, w)
      else
        let findings = layer1 cfg text in
        if findings = [] then (False, [], [], text, w)
        else
          let labels = sortedKeys (Labels findings);
              w1 = recordDLP E \<lparr>in_KeyID = ak_KeyID ak, in_UserID = ak_UserID ak, in_Ingress = ingress,
                     in_Alias = als, in_Action = actionPast (dc_Action cfg), in_Labels = labels,
                     in_MatchCount = length findings, in_Sample = excerpt (Redact text findings)\<rparr> w
          in if dc_Action cfg = ''block'' then (True, blocked_message labels, findings, text, w1)
             else (False, [], findings,
                   (if dc_Action cfg = ''redact'' then Redact text findings else text), w1))"

fun scan_batch :: "dlpConfig \<Rightarrow> string list \<Rightarrow> string list \<Rightarrow> nat \<Rightarrow> string \<Rightarrow> string list \<times> nat \<times> string \<times> string list" where
  "scan_batch cfg [] labels cnt sample = (labels, cnt, sample, [])"
| "scan_batch cfg (text # texts) labels cnt sample =
     (let findings = (if text = [] then [] else layer1 cfg text) in
      if findings = [] then
        (case scan_batch cfg texts labels cnt sample of (l, t, s, out) \<Rightarrow> (l, t, s, text # out))
      else
        (case scan_batch cfg texts (labels @ Labels findings) (cnt + length findings)
                (if sample = [] then excerpt (Redact text findings) else sample) of
           (l, t, s, out) \<Rightarrow>
             (l, t, s, (if dc_Action cfg = ''redact'' then Redact text findings else text) # out)))"

definition dlpScanTexts ::
  "'w dlp_env \<Rightarrow> authedKey \<Rightarrow> string \<Rightarrow> string \<Rightarrow> string list \<Rightarrow> 'w dlp_world
     \<Rightarrow> bool \<times> string \<times> string list \<times> 'w dlp_world" where
  "dlpScanTexts E ak ingress als texts w =
     (let cfg = dlpCfg (de_cfg E) in
      if \<not> dc_Enabled cfg \<or> dc_Action cfg = ''off'' then (False, [], texts, w)
      else
        case scan_batch cfg texts [] 0 [] of (labels0, cnt, sample, out) \<Rightarrow>
          if cnt = 0 then (False, [], out, w)
          else
            let labels = sortedKeys labels0;
                w1 = recordDLP E \<lparr>in_KeyID = ak_KeyID ak, in_UserID = ak_UserID ak, in_Ingress = ingress,
                       in_Alias = als, in_Action = actionPast (dc_Action cfg), in_Labels = labels,
                       in_MatchCount = cnt, in_Sample = sample\<rparr> w
            in if dc_Action cfg = ''block'' then (True, blocked_message labels, out, w1)
               else (False, [], out, w1))"

section \<open>The scan of a request\<close>

text \<open>What is found in each message from the \<open>i\<close>-th on, the sidecar pool being asked in order.\<close>

fun scan_msgs ::
  "'w dlp_env \<Rightarrow> dlpConfig \<Rightarrow> bool \<Rightarrow> message list \<Rightarrow> nat \<Rightarrow> message list \<Rightarrow> 'w \<Rightarrow> finding list list \<times> 'w" where
  "scan_msgs E cfg modelScan all i [] w = ([], w)"
| "scan_msgs E cfg modelScan all i (m # ms) w =
     (let (fs, w1) = (if m_Content m = [] then ([], w)
                      else message_findings E cfg (in_model_scope cfg modelScan all i) (m_Content m) w);
          (fss, w2) = scan_msgs E cfg modelScan all (Suc i) ms w1
      in (fs # fss, w2))"

definition masked :: "dlpConfig \<Rightarrow> message \<Rightarrow> finding list \<Rightarrow> message" where
  "masked cfg m fs = (if dc_Action cfg = ''redact'' then m\<lparr>m_Content := Redact (m_Content m) fs\<rparr> else m)"

lemma masked_nothing: "masked cfg m [] = m"
  by (simp add: masked_def Redact_def)

lemma scan_msgs_length: "length (fst (scan_msgs E cfg ms all i xs w)) = length xs"
  by (induction xs arbitrary: i w) (simp_all add: case_prod_beta Let_def)

lemma enforce_fold:
  assumes "length pre = i" and "es_msgs st = pre @ xs" and "es_perMsg st = pm @ replicate (length xs) []" and "length pm = i"
    and "scan_msgs E cfg ms all i xs (es_pool st) = (fss, w)"
  shows "es_msgs (fold (enforce_message E cfg ms all) [i..<i + length xs] st) = pre @ map2 (masked cfg) xs fss
    \<and> es_perMsg (fold (enforce_message E cfg ms all) [i..<i + length xs] st) = pm @ fss
    \<and> es_all (fold (enforce_message E cfg ms all) [i..<i + length xs] st) = es_all st @ concat fss
    \<and> es_total (fold (enforce_message E cfg ms all) [i..<i + length xs] st) = es_total st + length (concat fss)
    \<and> es_labels (fold (enforce_message E cfg ms all) [i..<i + length xs] st) = es_labels st @ concat (map Labels fss)
    \<and> es_pool (fold (enforce_message E cfg ms all) [i..<i + length xs] st) = w"
  using assms
proof (induction xs arbitrary: i st pre pm fss)
  case Nil
  then show ?case by simp
next
  case (Cons m xs)
  let ?st = "enforce_message E cfg ms all i st"
  obtain fs w1 where f: "(if m_Content m = [] then ([], es_pool st)
      else message_findings E cfg (in_model_scope cfg ms all i) (m_Content m) (es_pool st)) = (fs, w1)" by fastforce
  obtain gss where g: "scan_msgs E cfg ms all (Suc i) xs w1 = (gss, w)" "fss = fs # gss"
    using Cons.prems(5) f by (auto split: prod.splits)
  have mi: "es_msgs st ! i = m" using Cons.prems(1,2) by (simp add: nth_append)
  have e: "es_msgs ?st = (pre @ [masked cfg m fs]) @ xs" "es_perMsg ?st = (pm @ [fs]) @ replicate (length xs) []"
    "es_all ?st = es_all st @ fs" "es_total ?st = es_total st + length fs" "es_labels ?st = es_labels st @ Labels fs"
    "es_pool ?st = w1"
    using f Cons.prems(1-4) mi
    by (auto simp: enforce_message_def Let_def masked_def Redact_def Labels_def list_update_append split: if_splits prod.splits)
  have step: "fold (enforce_message E cfg ms all) [i..<i + length (m # xs)] st =
      fold (enforce_message E cfg ms all) [Suc i..<Suc i + length xs] ?st"
    by (subst upt_conv_Cons) (simp_all del: upt_Suc)
  from Cons.IH [OF _ e(1,2) _ g(1) [folded e(6)]] Cons.prems(1,4) g e show ?case unfolding step by simp
qed

lemma ModelScan_ok: "\<lbrakk>ModelScan answer minScore text = Some fs; f \<in> set fs\<rbrakk> \<Longrightarrow> span_ok (length text) f"
  by (auto simp: ModelScan_def span_ok_def)

text \<open>What is relied on of the sidecar: its answers went through \<open>ModelScan\<close>, so they lie in the text.\<close>

definition sidecar_in_range :: "'w dlp_env \<Rightarrow> bool" where
  "sidecar_in_range E \<longleftrightarrow>
     (\<forall>w score text mf w'. de_scan E w score text = (MFound mf, w') \<longrightarrow> list_all (span_ok (length text)) mf)"

lemma message_findings_laid_out:
  assumes "sidecar_in_range E"
  shows "laid_out (length c) (fst (message_findings E cfg scoped c w))"
proof -
  have l: "laid_out (length c) (layer1 cfg c)" using ScanWith_spec by (auto simp: layer1_def)
  have m: "laid_out (length c) (Merge (layer1 cfg c @ filterModelFindings mf en))"
    if "list_all (span_ok (length c)) mf" for mf en
  proof -
    have "\<forall>f \<in> set (layer1 cfg c @ filterModelFindings mf en). span_ok (length c) f"
      using that laid_out_mem [OF l] by (auto simp: filterModelFindings_def list_all_iff split: if_splits)
    with Merge_spec show ?thesis by blast
  qed
  have r: "de_scan E v score c = (MFound mf, v') \<Longrightarrow> list_all (span_ok (length c)) mf" for v score mf v'
    using assms unfolding sidecar_in_range_def by blast
  show ?thesis using l unfolding message_findings_def Let_def
    by (auto split: prod.splits model_outcome.splits intro!: m dest: r)
qed

lemma scan_msgs_laid_out:
  assumes "sidecar_in_range E"
  shows "list_all2 (\<lambda>m fs. laid_out (length (m_Content m)) fs) xs (fst (scan_msgs E cfg ms all i xs w))"
proof (induction xs arbitrary: i w)
  case (Cons m xs)
  let ?r = "if m_Content m = [] then ([], w)
      else message_findings E cfg (in_model_scope cfg ms all i) (m_Content m) w"
  have "laid_out (length (m_Content m)) (fst ?r)"
    using message_findings_laid_out [OF assms] by (simp add: laid_out_def)
  with Cons [of "Suc i" "snd ?r"] show ?case by (auto simp: Let_def split: prod.splits)
qed simp

lemma dlpEnforce_spec:
  assumes "sidecar_in_range E" and "cfg = dlpCfg (de_cfg E)" and "dc_Enabled cfg" and "dc_Action cfg \<noteq> ''off''"
    and "scan_msgs E cfg modelScan (cr_Messages req) 0 (cr_Messages req) (dw_pool w) = (fss, pool)"
    and "dlpEnforce E ak ingress req modelScan w = (blocked, msg, res, req', w')"
  shows "req' = req\<lparr>cr_Messages := map2 (masked cfg) (cr_Messages req) fss\<rparr>
    \<and> list_all2 (\<lambda>m fs. laid_out (length (m_Content m)) fs) (cr_Messages req) fss
    \<and> (blocked \<longleftrightarrow> dc_Action cfg = ''block'' \<and> concat fss \<noteq> [])
    \<and> (concat fss = [] \<longrightarrow> w' = w\<lparr>dw_pool := pool\<rparr> \<and> res = no_result)
    \<and> (concat fss \<noteq> [] \<longrightarrow>
         (\<exists>i. w' = recordDLP E i (w\<lparr>dw_pool := pool\<rparr>) \<and> in_MatchCount i = length (concat fss)
            \<and> in_Action i = actionPast (dc_Action cfg) \<and> set (in_Labels i) = fi_Label ` set (concat fss))
         \<and> (dc_Action cfg \<noteq> ''block'' \<longrightarrow> dr_MsgFindings res = fss \<and> dr_HadIncident res
            \<and> dr_OriginalMessages res = (if dc_Action cfg = ''redact'' then cr_Messages req else [])))"
proof -
  let ?m = "cr_Messages req"
  let ?st = "fold (enforce_message E cfg modelScan ?m) [0..<length ?m] (enforce_init ?m (dw_pool w))"
  have st: "es_msgs ?st = map2 (masked cfg) ?m fss" "es_perMsg ?st = fss" "es_all ?st = concat fss"
    "es_total ?st = length (concat fss)" "es_labels ?st = concat (map Labels fss)" "es_pool ?st = pool"
    using enforce_fold [of "[]" 0 "enforce_init ?m (dw_pool w)" ?m "[]" E cfg modelScan ?m fss pool] assms(5)
    by (simp_all add: enforce_init_def)
  have lab: "set (sortedKeys (concat (map Labels fss))) = fi_Label ` set (concat fss)"
    by (auto simp: sortedKeys_def Labels_def)
  have lay: "list_all2 (\<lambda>m fs. laid_out (length (m_Content m)) fs) ?m fss"
    using scan_msgs_laid_out [OF assms(1), of ?m cfg modelScan ?m 0 "dw_pool w"] assms(5) by simp
  note run = assms(6) [unfolded dlpEnforce_def assms(2) [symmetric] Let_def st snapshotOriginals_def]
  show ?thesis
  proof (cases "concat fss = []")
    case True
    with run assms(3,4) lay show ?thesis by auto
  next
    case False
    define i where "i = \<lparr>in_KeyID = ak_KeyID ak, in_UserID = ak_UserID ak, in_Ingress = ingress,
       in_Alias = cr_Model req, in_Action = actionPast (dc_Action cfg),
       in_Labels = sortedKeys (concat (map Labels fss)), in_MatchCount = length (concat fss),
       in_Sample = es_sample ?st\<rparr>"
    note r = run [folded i_def]
    have "w' = recordDLP E i (w\<lparr>dw_pool := pool\<rparr>)" using r False assms(3,4) by (auto split: if_splits)
    moreover have "in_MatchCount i = length (concat fss) \<and> in_Action i = actionPast (dc_Action cfg)
        \<and> set (in_Labels i) = fi_Label ` set (concat fss)"
      unfolding i_def using lab by simp
    moreover have "req' = req\<lparr>cr_Messages := map2 (masked cfg) ?m fss\<rparr> \<and> (blocked \<longleftrightarrow> dc_Action cfg = ''block'')
        \<and> (dc_Action cfg \<noteq> ''block'' \<longrightarrow> dr_MsgFindings res = fss \<and> dr_HadIncident res
            \<and> dr_OriginalMessages res = (if dc_Action cfg = ''redact'' then ?m else []))"
      using r False assms(3,4) by (auto split: if_splits)
    ultimately show ?thesis using False lay by blast
  qed
qed

section \<open>Properties\<close>


definition demo_dlp_env :: "unit dlp_env" where
  "demo_dlp_env =
     \<lparr>de_cfg = Some (defaultDLPConfig\<lparr>dc_Patterns := Some (\<lambda>_. Some False), dc_compiledCustom := [(''tag'', lit ''ab'')]\<rparr>),
      de_stores = (\<lambda>_. True), de_hooks = Some [], de_open = (\<lambda>_. None), de_scan = (\<lambda>w _ _. (MAllBusy, w))\<rparr>"

definition demo_request :: chatRequest where
  "demo_request = \<lparr>cr_Model = ''gpt'', cr_Messages = [zero_message\<lparr>m_Role := ''user'', m_Content := ''xaby''\<rparr>],
     cr_Tools = [], cr_ToolChoice = [], cr_ParallelToolCalls = None, cr_Temperature = None, cr_MaxTokens = None,
     cr_Stream = False, cr_IncludeStreamUsage = False, cr_Extra = [], cr_ThinkingOff = False\<rparr>"


end
