(* ===== verification/ChatHandler.thy ===== *)
theory ChatHandler
  imports Metering DlpEnforce Capture
begin

text \<open>
  The chat ingresses (\<open>handleChatCompletions\<close> and \<open>streamChatCompletions\<close> of
  \<open>internal/httpapi/dataplane.go\<close>, \<open>handleMessages\<close> and \<open>streamMessages\<close> of \<open>messages.go\<close>): policy,
  routing, limits, DLP, the call, settlement, capture (\<open>capture_enqueue.go\<close>) and the reply. The two
  ingresses run the same steps and differ in the wire format, so the model is one handler with the
  format as an argument. The codec, the router, the executor's outcome and the clock are parameters;
  the requests that reached the executor are recorded.
\<close>

section \<open>Replies\<close>

definition anthropicErrorType :: "int \<Rightarrow> string" where
  "anthropicErrorType code =
     (if code = 400 then ''invalid_request_error'' else if code = 401 then ''authentication_error''
      else if code = 403 then ''permission_error'' else if code = 404 then ''not_found_error''
      else if code = 429 then ''rate_limit_error'' else ''api_error'')"

datatype ingress = OpenAI | Anthropic

fun ingress_name :: "ingress \<Rightarrow> string" where
  "ingress_name OpenAI = ''openai''"
| "ingress_name Anthropic = ''anthropic''"

datatype reply =
    ErrorReply int string string
  | JsonReply string "string option"
  | StreamReply bool

definition writeProtocolError :: "ingress \<Rightarrow> int \<Rightarrow> string \<Rightarrow> string \<Rightarrow> reply" where
  "writeProtocolError g code typ msg =
     (case g of OpenAI \<Rightarrow> ErrorReply code typ msg | Anthropic \<Rightarrow> ErrorReply code (anthropicErrorType code) msg)"

definition setBackendLabel :: "target \<Rightarrow> bool \<Rightarrow> string option" where
  "setBackendLabel t exposeBackend = (if exposeBackend \<and> tg_DisplayLabel t \<noteq> [] then Some (tg_DisplayLabel t) else None)"

section \<open>Capture\<close>

definition DetectorVersion :: string where "DetectorVersion = ''regex+entropy/v1''"

definition defaultCaptureConfig :: cap_config where
  "defaultCaptureConfig = \<lparr>cc_Enabled = False, cc_SampleRate = 0, cc_Redact = True, cc_RetentionDays = 30,
     cc_RawTraining = False, cc_RawTTLHours = 24\<rparr>"

definition clampCaptureConfig :: "cap_config \<Rightarrow> cap_config" where
  "clampCaptureConfig c0 =
     (let c1 = (if cc_SampleRate c0 < 0 then c0\<lparr>cc_SampleRate := 0\<rparr> else c0);
          c2 = (if cc_SampleRate c1 > 1 then c1\<lparr>cc_SampleRate := 1\<rparr> else c1);
          c3 = (if cc_RetentionDays c2 \<le> 0 then c2\<lparr>cc_RetentionDays := 30\<rparr> else c2);
          c4 = (if cc_RawTTLHours c3 \<le> 0 then c3\<lparr>cc_RawTTLHours := 24\<rparr> else c3);
          maxRaw = wrap64 (cc_RetentionDays c4 * 24)
      in if cc_RawTTLHours c4 > maxRaw then c4\<lparr>cc_RawTTLHours := maxRaw\<rparr> else c4)"

definition applyCapture :: "(string \<Rightarrow> cap_config \<Rightarrow> cap_config) \<Rightarrow> string \<Rightarrow> cap_config" where
  "applyCapture decode raw =
     clampCaptureConfig (if raw \<noteq> [] then decode raw defaultCaptureConfig else defaultCaptureConfig)"

definition captureCfg :: "cap_config option \<Rightarrow> cap_config" where
  "captureCfg ptr = (case ptr of Some c \<Rightarrow> c | None \<Rightarrow> defaultCaptureConfig)"

definition redact_at :: "finding list list \<Rightarrow> nat \<Rightarrow> message \<Rightarrow> message" where
  "redact_at fss i m =
     (if i < length fss \<and> fss ! i \<noteq> [] then m\<lparr>m_Content := Redact (m_Content m) (fss ! i)\<rparr> else m)"

text \<open>The messages a capture stores; \<open>captureBody\<close> serialises them with the response.\<close>

definition capture_messages :: "message list \<Rightarrow> bool \<Rightarrow> finding list list \<Rightarrow> message list" where
  "capture_messages msgs redact fss =
     (if redact \<and> fss \<noteq> [] then map (\<lambda>i. redact_at fss i (msgs ! i)) [0..<length msgs] else msgs)"

definition captureBody :: "(message list \<Rightarrow> string \<Rightarrow> string) \<Rightarrow> message list \<Rightarrow> string \<Rightarrow> bool \<Rightarrow> finding list list \<Rightarrow> string" where
  "captureBody marshal msgs response redact fss = marshal (capture_messages msgs redact fss) response"

section \<open>The handler\<close>

record ('s, 'h, 'w) henv =
  he_limiter :: "'s limit_ops"
  he_usd :: "int \<Rightarrow> string"
  he_limits :: "string \<Rightarrow> limits"
  he_prices :: "'h price_table"
  he_dlp :: "'w dlp_env"
  he_resolve :: "string \<Rightarrow> bool \<Rightarrow> string + plan"
  he_checked :: gotime
  he_settled :: gotime
  he_token :: string
  he_between :: "'s \<Rightarrow> 's"
  he_chat :: "plan \<Rightarrow> chatRequest \<Rightarrow> (gerr + chatResponse) \<times> execResult"
  he_stream :: "plan \<Rightarrow> chatRequest \<Rightarrow> execResult \<times> usage \<times> bool \<times> gerr option \<times> string"
  he_flusher :: bool
  he_latency :: int
  he_errtext :: "gerr \<Rightarrow> string"
  he_encode :: "ingress \<Rightarrow> chatResponse \<Rightarrow> string option"
  he_capture :: "cap_config option"
  he_draw :: rat
  he_body :: "message list \<Rightarrow> string \<Rightarrow> string"

record ('s, 'w) server =
  sv_accounts :: "'s accounts"
  sv_dlp :: "'w dlp_world"
  sv_pipe :: "finding pipeline option"
  sv_calls :: "(plan \<times> chatRequest) list"

definition capture_record ::
  "('s, 'h, 'w) henv \<Rightarrow> cap_config \<Rightarrow> authedKey \<Rightarrow> string \<Rightarrow> string \<Rightarrow> string \<Rightarrow> string \<Rightarrow> int \<Rightarrow> int \<Rightarrow> int \<Rightarrow> rat
     \<Rightarrow> dlpResult \<Rightarrow> message list \<Rightarrow> string \<Rightarrow> finding cap_record" where
  "capture_record H capCfg ak ingress als provider upstreamModel status promptTokens completionTokens costUSD dlpRes msgs response =
     (let needRedact = cc_Redact capCfg \<and> \<not> dr_AlreadyRedacted dlpRes;
          rawSource = (if dr_OriginalMessages dlpRes \<noteq> [] then dr_OriginalMessages dlpRes else msgs);
          rawBody = (if cc_RawTraining capCfg then captureBody (he_body H) rawSource response False [] else [])
      in \<lparr>cr_KeyID = ak_KeyID ak, cr_UserID = ak_UserID ak, cr_Ingress = ingress, cr_Alias = als,
          cr_Provider = provider, cr_UpstreamModel = upstreamModel, cr_Status = status,
          cr_PromptTokens = promptTokens, cr_CompletionTokens = completionTokens, cr_CostUSD = costUSD,
          cr_ModelVersion = DetectorVersion, cr_Detected = dr_Findings dlpRes,
          cr_Body = captureBody (he_body H) msgs response needRedact (dr_MsgFindings dlpRes),
          cr_RawBody = rawBody, cr_HadIncident = dr_HadIncident dlpRes, cr_Redacted = cc_Redact capCfg\<rparr>)"

definition enqueueCapture ::
  "('s, 'h, 'w) henv \<Rightarrow> authedKey \<Rightarrow> string \<Rightarrow> string \<Rightarrow> string \<Rightarrow> string \<Rightarrow> int \<Rightarrow> int \<Rightarrow> int \<Rightarrow> rat
     \<Rightarrow> dlpResult \<Rightarrow> message list \<Rightarrow> string \<Rightarrow> finding pipeline option \<Rightarrow> finding pipeline option" where
  "enqueueCapture H ak ingress als provider upstreamModel status promptTokens completionTokens costUSD dlpRes msgs response pl =
     (case pl of
        None \<Rightarrow> None
      | Some p \<Rightarrow>
          (let capCfg = captureCfg (he_capture H) in
           if \<not> cc_Enabled capCfg then Some p
           else Some (Enqueue capCfg (he_draw H)
             (capture_record H capCfg ak ingress als provider upstreamModel status promptTokens completionTokens costUSD
                dlpRes msgs response) p)))"

text \<open>Settlement after the call, shared by the branches of both handlers.\<close>

definition settle ::
  "('s, 'h, 'w) henv \<Rightarrow> authedKey \<Rightarrow> ledger_entry \<Rightarrow> string \<Rightarrow> usage \<Rightarrow> decision \<Rightarrow> ('s, 'w) server \<Rightarrow> ('s, 'w) server" where
  "settle H ak entry upstreamModel u limDec sv =
     sv\<lparr>sv_accounts := finalizeUsage (he_limiter H) (he_prices H) (he_settled H) entry (ak_KeyID ak) upstreamModel u
          (dReservedTokens limDec) (dReservedBucket limDec) (sv_accounts sv)\<rparr>"

definition capture_after ::
  "('s, 'h, 'w) henv \<Rightarrow> ingress \<Rightarrow> authedKey \<Rightarrow> chatRequest \<Rightarrow> execResult \<Rightarrow> ledger_entry \<Rightarrow> usage \<Rightarrow> dlpResult \<Rightarrow> string
     \<Rightarrow> ('s, 'w) server \<Rightarrow> ('s, 'w) server" where
  "capture_after H g ak req res entry u dlpRes response sv =
     sv\<lparr>sv_pipe := enqueueCapture H ak (ingress_name g) (cr_Model req) (tg_Provider (xr_Target res))
          (tg_UpstreamModel (xr_Target res)) 200 (PromptTokens u) (CompletionTokens u) (le_CostUSD entry)
          dlpRes (cr_Messages req) response (sv_pipe sv)\<rparr>"

text \<open>The call: the request goes to the executor, and other requests run meanwhile.\<close>

definition sent_upstream :: "('s, 'h, 'w) henv \<Rightarrow> plan \<Rightarrow> chatRequest \<Rightarrow> ('s, 'w) server \<Rightarrow> ('s, 'w) server" where
  "sent_upstream H p req sv =
     sv\<lparr>sv_calls := sv_calls sv @ [(p, req)],
        sv_accounts := (sv_accounts sv)\<lparr>ac_limiter := he_between H (ac_limiter (sv_accounts sv))\<rparr>\<rparr>"

definition unaryChat ::
  "('s, 'h, 'w) henv \<Rightarrow> ingress \<Rightarrow> authedKey \<Rightarrow> chatRequest \<Rightarrow> plan \<Rightarrow> dlpResult \<Rightarrow> decision \<Rightarrow> ('s, 'w) server
     \<Rightarrow> reply \<times> ('s, 'w) server" where
  "unaryChat H g ak req p dlpRes limDec sv0 =
     (let sv = sent_upstream H p req sv0;
          (outcome, res) = he_chat H p req;
          entry0 = chatEntry (ak_KeyID ak) (ak_UserID ak) (cr_Model req) res (ingress_name g) (he_latency H);
          um = tg_UpstreamModel (xr_Target res)
      in case outcome of
           Inl callErr \<Rightarrow>
             (let (code, typ) = classifyUpstreamErr callErr;
                  entry = entry0\<lparr>le_Status := code, le_ErrorMsg := he_errtext H callErr\<rparr>
              in (writeProtocolError g code typ (he_errtext H callErr), settle H ak entry um zero_usage limDec sv))
         | Inr resp0 \<Rightarrow>
             (let resp = resp0\<lparr>rs_Model := cr_Model req\<rparr>;
                  entry = entry0\<lparr>le_Status := 200\<rparr>;
                  sv1 = settle H ak entry um (rs_Usage resp) limDec sv;
                  responseText = (case rs_Choices resp of [] \<Rightarrow> [] | c # _ \<Rightarrow> m_Content (ch_Message c));
                  sv2 = capture_after H g ak req res entry (rs_Usage resp) dlpRes responseText sv1
              in (case he_encode H g resp of
                    None \<Rightarrow> writeProtocolError g 500 ''internal_error'' ''failed to encode response''
                  | Some body \<Rightarrow> JsonReply body (setBackendLabel (xr_Target res) (pl_ExposeBackendHeaders p)), sv2)))"

definition streamChat ::
  "('s, 'h, 'w) henv \<Rightarrow> ingress \<Rightarrow> authedKey \<Rightarrow> chatRequest \<Rightarrow> plan \<Rightarrow> dlpResult \<Rightarrow> decision \<Rightarrow> ('s, 'w) server
     \<Rightarrow> reply \<times> ('s, 'w) server" where
  "streamChat H g ak req p dlpRes limDec sv0 =
     (if \<not> he_flusher H then (writeProtocolError g 500 ''internal_error'' ''streaming unsupported'', sv0)
      else
        let sv = sent_upstream H p req sv0;
            (res, u, started, err, assembled) = he_stream H p req;
            entry0 = chatEntry (ak_KeyID ak) (ak_UserID ak) (cr_Model req) res (ingress_name g) (he_latency H);
            um = tg_UpstreamModel (xr_Target res)
        in case err of
             Some e \<Rightarrow>
               (if \<not> started then
                  (let (code, typ) = classifyUpstreamErr e;
                       entry = entry0\<lparr>le_ErrorMsg := he_errtext H e, le_Status := code\<rparr>
                   in (writeProtocolError g code typ (he_errtext H e), settle H ak entry um zero_usage limDec sv))
                else
                  (let entry = entry0\<lparr>le_ErrorMsg := he_errtext H e, le_Status := 200\<rparr>
                   in (StreamReply False,
                       capture_after H g ak req res entry u dlpRes assembled (settle H ak entry um u limDec sv))))
           | None \<Rightarrow>
               (let entry = entry0\<lparr>le_Status := 200\<rparr>
                in (StreamReply (g = OpenAI),
                    capture_after H g ak req res entry u dlpRes assembled (settle H ak entry um u limDec sv))))"

text \<open>The handler, from the decoded request on.\<close>

definition handleChat ::
  "('s, 'h, 'w) henv \<Rightarrow> ingress \<Rightarrow> authedKey \<Rightarrow> string + chatRequest \<Rightarrow> ('s, 'w) server \<Rightarrow> reply \<times> ('s, 'w) server" where
  "handleChat H g ak body sv =
     (case body of
        Inl err \<Rightarrow> (writeProtocolError g 400 ''invalid_request_error'' err, sv)
      | Inr req \<Rightarrow>
          if \<not> Allows (ak_Policy ak) (cr_Model req) then
            (writeProtocolError g 403 ''permission_error'' (''model not permitted for this key: '' @ cr_Model req), sv)
          else case he_resolve H (cr_Model req) (kp_AllowPassthrough (ak_Policy ak)) of
            Inl err \<Rightarrow> (writeProtocolError g 404 ''invalid_request_error'' err, sv)
          | Inr p \<Rightarrow>
              (case limitDenied (he_limiter H) (he_usd H) (he_checked H) (he_token H) (ak_KeyID ak)
                      (ParseLimits (he_limits H) (ak_Policy ak)) (reserveTokensFor (cr_MaxTokens req))
                      (ac_limiter (sv_accounts sv)) of
                 (msg, denied, limDec, s1) \<Rightarrow>
                   (let sv1 = sv\<lparr>sv_accounts := (sv_accounts sv)\<lparr>ac_limiter := s1\<rparr>\<rparr> in
                    if denied then (writeProtocolError g 429 ''rate_limit_error'' msg, sv1)
                    else
                      case dlpEnforce (he_dlp H) ak (ingress_name g) req (pl_DLPModelScan p) (sv_dlp sv1) of
                        (blocked, dmsg, dlpRes, req1, w1) \<Rightarrow>
                          (let sv2 = sv1\<lparr>sv_dlp := w1\<rparr> in
                           if blocked then (writeProtocolError g 400 ''invalid_request_error'' dmsg, sv2)
                           else if cr_Stream req1 then streamChat H g ak req1 p dlpRes limDec sv2
                           else unaryChat H g ak req1 p dlpRes limDec sv2))))"

definition handleChatCompletions ::
  "('s, 'h, 'w) henv \<Rightarrow> authedKey \<Rightarrow> string + chatRequest \<Rightarrow> ('s, 'w) server \<Rightarrow> reply \<times> ('s, 'w) server" where
  "handleChatCompletions H = handleChat H OpenAI"

definition handleMessages ::
  "('s, 'h, 'w) henv \<Rightarrow> authedKey \<Rightarrow> string + chatRequest \<Rightarrow> ('s, 'w) server \<Rightarrow> reply \<times> ('s, 'w) server" where
  "handleMessages H = handleChat H Anthropic"

section \<open>What a call leaves behind\<close>

text \<open>Status and usage a call is settled with.\<close>

definition call_outcome :: "('s, 'h, 'w) henv \<Rightarrow> plan \<Rightarrow> chatRequest \<Rightarrow> int \<times> usage" where
  "call_outcome H p req =
     (if cr_Stream req then
        (case he_stream H p req of (res, u, started, err, _) \<Rightarrow>
           (case err of
              None \<Rightarrow> (200, u)
            | Some e \<Rightarrow> if started then (200, u) else (fst (classifyUpstreamErr e), zero_usage)))
      else
        (case fst (he_chat H p req) of
           Inl e \<Rightarrow> (fst (classifyUpstreamErr e), zero_usage)
         | Inr r \<Rightarrow> (200, rs_Usage r)))"

definition served_by :: "('s, 'h, 'w) henv \<Rightarrow> plan \<Rightarrow> chatRequest \<Rightarrow> target" where
  "served_by H p req =
     xr_Target (if cr_Stream req then fst (he_stream H p req) else snd (he_chat H p req))"

text \<open>The entry of the ledger for a call.\<close>

definition call_entry :: "('s, 'h, 'w) henv \<Rightarrow> plan \<Rightarrow> chatRequest \<Rightarrow> ledger_entry \<Rightarrow> bool" where
  "call_entry H p req e \<longleftrightarrow>
     le_Alias e = cr_Model req \<and> le_ProviderName e = tg_Provider (served_by H p req)
     \<and> le_Status e = fst (call_outcome H p req) \<and> le_CostUSD e = 0"

lemma capture_costs:
  "capture_after H g ak req res (chatEntry kid uid als res' ing lat\<lparr>le_Status := st\<rparr>) u dlpRes txt sv =
     sv\<lparr>sv_pipe := enqueueCapture H ak (ingress_name g) (cr_Model req) (tg_Provider (xr_Target res))
          (tg_UpstreamModel (xr_Target res)) 200 (PromptTokens u) (CompletionTokens u) 0 dlpRes (cr_Messages req) txt (sv_pipe sv)\<rparr>"
  "capture_after H g ak req res (chatEntry kid uid als res' ing lat\<lparr>le_ErrorMsg := em, le_Status := st\<rparr>) u dlpRes txt sv =
     sv\<lparr>sv_pipe := enqueueCapture H ak (ingress_name g) (cr_Model req) (tg_Provider (xr_Target res))
          (tg_UpstreamModel (xr_Target res)) 200 (PromptTokens u) (CompletionTokens u) 0 dlpRes (cr_Messages req) txt (sv_pipe sv)\<rparr>"
  by (simp_all add: capture_after_def chatEntry_def)

text \<open>What the pipeline may have got: nothing, or a record without a cost.\<close>

definition captured :: "finding pipeline option \<Rightarrow> finding pipeline option \<Rightarrow> bool" where
  "captured p q \<longleftrightarrow> q = p \<or> (\<exists>c d r p'. p = Some p' \<and> q = Some (Enqueue c d r p') \<and> cr_CostUSD r = 0)"

lemma enqueueCapture_captured:
  "captured p (enqueueCapture H ak g als pr um st pt ct 0 dr ms txt p)"
proof -
  have "cr_CostUSD (capture_record H c ak g als pr um st pt ct 0 dr ms txt) = 0" for c
    by (simp add: capture_record_def Let_def)
  then show ?thesis unfolding captured_def enqueueCapture_def Let_def by (cases p) auto
qed

definition call_done ::
  "('s, 'h, 'w) henv \<Rightarrow> authedKey \<Rightarrow> plan \<Rightarrow> chatRequest \<Rightarrow> decision \<Rightarrow> ('s, 'w) server \<Rightarrow> ('s, 'w) server \<Rightarrow> bool" where
  "call_done H ak p req limDec sv sv' \<longleftrightarrow>
     (\<exists>e. call_entry H p req e
        \<and> sv_accounts sv' = finalizeUsage (he_limiter H) (he_prices H) (he_settled H) e (ak_KeyID ak)
             (tg_UpstreamModel (served_by H p req)) (snd (call_outcome H p req)) (dReservedTokens limDec) (dReservedBucket limDec)
             ((sv_accounts sv)\<lparr>ac_limiter := he_between H (ac_limiter (sv_accounts sv))\<rparr>))
     \<and> sv_calls sv' = sv_calls sv @ [(p, req)] \<and> sv_dlp sv' = sv_dlp sv \<and> captured (sv_pipe sv) (sv_pipe sv')"

lemma call_doneI:
  assumes "call_entry H p req e"
    and "sv' = (settle H ak e (tg_UpstreamModel (served_by H p req)) (snd (call_outcome H p req)) limDec
             (sent_upstream H p req sv))\<lparr>sv_pipe := q\<rparr>"
    and "captured (sv_pipe sv) q"
  shows "call_done H ak p req limDec sv sv'"
  using assms unfolding call_done_def by (auto simp: settle_def sent_upstream_def)

lemma pipe_same: "settle H ak e um u d sv = (settle H ak e um u d sv)\<lparr>sv_pipe := sv_pipe sv\<rparr>"
  by (simp add: settle_def)

lemma unary_done:
  assumes "\<not> cr_Stream req"
  shows "call_done H ak p req limDec sv (snd (unaryChat H g ak req p dlpRes limDec sv))"
proof -
  obtain out res where c: "he_chat H p req = (out, res)" by fastforce
  have s: "served_by H p req = xr_Target res" using assms c by (simp add: served_by_def)
  let ?e = "chatEntry (ak_KeyID ak) (ak_UserID ak) (cr_Model req) res (ingress_name g) (he_latency H)"
  show ?thesis
  proof (cases out)
    case (Inl err)
    have o: "call_outcome H p req = (fst (classifyUpstreamErr err), zero_usage)"
      using assms c Inl by (simp add: call_outcome_def)
    show ?thesis
      by (rule call_doneI [where e = "?e\<lparr>le_Status := fst (classifyUpstreamErr err), le_ErrorMsg := he_errtext H err\<rparr>"
            and q = "sv_pipe sv"])
        (simp_all add: unaryChat_def c Inl o s Let_def case_prod_beta call_entry_def chatEntry_def captured_def
          settle_def sent_upstream_def)
  next
    case (Inr r)
    have o: "call_outcome H p req = (200, rs_Usage r)" using assms c Inr by (simp add: call_outcome_def)
    let ?txt = "case rs_Choices r of [] \<Rightarrow> [] | c # _ \<Rightarrow> m_Content (ch_Message c)"
    show ?thesis
      by (rule call_doneI [where e = "?e\<lparr>le_Status := 200\<rparr>" and q = "enqueueCapture H ak (ingress_name g) (cr_Model req)
            (tg_Provider (xr_Target res)) (tg_UpstreamModel (xr_Target res)) 200 (PromptTokens (rs_Usage r))
            (CompletionTokens (rs_Usage r)) 0 dlpRes (cr_Messages req) ?txt (sv_pipe sv)"])
        (simp_all add: unaryChat_def c Inr o s Let_def call_entry_def chatEntry_def capture_after_def
          enqueueCapture_captured settle_def sent_upstream_def)
  qed
qed

lemma stream_done:
  assumes "cr_Stream req" and "he_flusher H"
  shows "call_done H ak p req limDec sv (snd (streamChat H g ak req p dlpRes limDec sv))"
proof -
  obtain res u started err body where c: "he_stream H p req = (res, u, started, err, body)" by (metis prod_cases5)
  have s: "served_by H p req = xr_Target res" using assms c by (simp add: served_by_def)
  let ?e = "chatEntry (ak_KeyID ak) (ak_UserID ak) (cr_Model req) res (ingress_name g) (he_latency H)"
  let ?q = "enqueueCapture H ak (ingress_name g) (cr_Model req)
            (tg_Provider (xr_Target res)) (tg_UpstreamModel (xr_Target res)) 200 (PromptTokens u)
            (CompletionTokens u) 0 dlpRes (cr_Messages req) body (sv_pipe sv)"
  show ?thesis
  proof (cases err)
    case None
    have o: "call_outcome H p req = (200, u)" using assms c None by (simp add: call_outcome_def)
    show ?thesis
      by (rule call_doneI [where e = "?e\<lparr>le_Status := 200\<rparr>" and q = ?q])
        (use assms None o in \<open>simp_all add: streamChat_def c s Let_def call_entry_def chatEntry_def capture_after_def
          enqueueCapture_captured settle_def sent_upstream_def\<close>)
  next
    case (Some e)
    have o: "call_outcome H p req = (if started then (200, u) else (fst (classifyUpstreamErr e), zero_usage))"
      using assms c Some by (simp add: call_outcome_def)
    show ?thesis
    proof (cases started)
      case True
      show ?thesis
        by (rule call_doneI [where e = "?e\<lparr>le_ErrorMsg := he_errtext H e, le_Status := 200\<rparr>" and q = ?q])
          (use assms Some True o in \<open>simp_all add: streamChat_def c s Let_def call_entry_def chatEntry_def capture_after_def
            enqueueCapture_captured settle_def sent_upstream_def\<close>)
    next
      case False
      show ?thesis
        by (rule call_doneI [where e = "?e\<lparr>le_ErrorMsg := he_errtext H e, le_Status := fst (classifyUpstreamErr e)\<rparr>"
              and q = "sv_pipe sv"])
          (use assms Some False o in \<open>simp_all add: streamChat_def c s Let_def case_prod_beta call_entry_def chatEntry_def
            captured_def settle_def sent_upstream_def\<close>)
    qed
  qed
qed

text \<open>A request that passed every gate, with what the gates left.\<close>

definition admitted_to ::
  "('s, 'h, 'w) henv \<Rightarrow> ingress \<Rightarrow> authedKey \<Rightarrow> chatRequest \<Rightarrow> ('s, 'w) server \<Rightarrow> plan \<Rightarrow> decision \<Rightarrow> dlpResult \<Rightarrow> chatRequest
     \<Rightarrow> ('s, 'w) server \<Rightarrow> bool" where
  "admitted_to H g ak req sv p limDec dlpRes req1 sv2 \<longleftrightarrow>
     Allows (ak_Policy ak) (cr_Model req) \<and> he_resolve H (cr_Model req) (kp_AllowPassthrough (ak_Policy ak)) = Inr p
     \<and> (\<exists>msg s1 dmsg w1.
          limitDenied (he_limiter H) (he_usd H) (he_checked H) (he_token H) (ak_KeyID ak)
            (ParseLimits (he_limits H) (ak_Policy ak)) (reserveTokensFor (cr_MaxTokens req))
            (ac_limiter (sv_accounts sv)) = (msg, False, limDec, s1)
          \<and> dlpEnforce (he_dlp H) ak (ingress_name g) req (pl_DLPModelScan p) (sv_dlp sv) = (False, dmsg, dlpRes, req1, w1)
          \<and> sv2 = sv\<lparr>sv_accounts := (sv_accounts sv)\<lparr>ac_limiter := s1\<rparr>, sv_dlp := w1\<rparr>)"

lemma handle_cases:
  assumes "handleChat H g ak (Inr req) sv = (reply, sv')"
  obtains (stopped) "sv_calls sv' = sv_calls sv" "ac_ledger (sv_accounts sv') = ac_ledger (sv_accounts sv)"
      "sv_pipe sv' = sv_pipe sv"
  | (called) p limDec dlpRes req1 sv2 where "admitted_to H g ak req sv p limDec dlpRes req1 sv2"
      "call_done H ak p req1 limDec sv2 sv'"
proof (cases "Allows (ak_Policy ak) (cr_Model req)")
  case False
  then show ?thesis using assms stopped by (simp add: handleChat_def)
next
  case al: True
  show ?thesis
  proof (cases "he_resolve H (cr_Model req) (kp_AllowPassthrough (ak_Policy ak))")
    case (Inl err)
    then show ?thesis using assms stopped al by (simp add: handleChat_def)
  next
    case (Inr p)
    obtain msg denied limDec s1 where l: "limitDenied (he_limiter H) (he_usd H) (he_checked H) (he_token H) (ak_KeyID ak)
        (ParseLimits (he_limits H) (ak_Policy ak)) (reserveTokensFor (cr_MaxTokens req))
        (ac_limiter (sv_accounts sv)) = (msg, denied, limDec, s1)" by (metis prod_cases4)
    obtain blocked dmsg dlpRes req1 w1 where d: "dlpEnforce (he_dlp H) ak (ingress_name g) req (pl_DLPModelScan p) (sv_dlp sv)
        = (blocked, dmsg, dlpRes, req1, w1)" by (metis prod_cases5)
    let ?sv1 = "sv\<lparr>sv_accounts := (sv_accounts sv)\<lparr>ac_limiter := s1\<rparr>\<rparr>"
    let ?sv2 = "?sv1\<lparr>sv_dlp := w1\<rparr>"
    have "handleChat H g ak (Inr req) sv =
        (if denied then (writeProtocolError g 429 ''rate_limit_error'' msg, ?sv1)
         else if blocked then (writeProtocolError g 400 ''invalid_request_error'' dmsg, ?sv2)
         else if cr_Stream req1 then streamChat H g ak req1 p dlpRes limDec ?sv2
         else unaryChat H g ak req1 p dlpRes limDec ?sv2)"
      by (simp add: handleChat_def Let_def al Inr l d)
    then have run: "(reply, sv') =
        (if denied then (writeProtocolError g 429 ''rate_limit_error'' msg, ?sv1)
         else if blocked then (writeProtocolError g 400 ''invalid_request_error'' dmsg, ?sv2)
         else if cr_Stream req1 then streamChat H g ak req1 p dlpRes limDec ?sv2
         else unaryChat H g ak req1 p dlpRes limDec ?sv2)"
      unfolding assms .
    consider "denied \<or> blocked" | "\<not> denied" "\<not> blocked" "cr_Stream req1" "\<not> he_flusher H"
      | "\<not> denied" "\<not> blocked" "cr_Stream req1 \<longrightarrow> he_flusher H" by blast
    then show ?thesis
    proof cases
      case 1
      then show ?thesis using run stopped by (auto split: if_splits)
    next
      case 2
      then show ?thesis using run stopped by (simp add: streamChat_def)
    next
      case 3
      have a: "admitted_to H g ak req sv p limDec dlpRes req1 ?sv2"
        using al Inr l d 3 unfolding admitted_to_def by auto
      have "sv' = snd (if cr_Stream req1 then streamChat H g ak req1 p dlpRes limDec ?sv2
         else unaryChat H g ak req1 p dlpRes limDec ?sv2)" 
        unfolding run [symmetric, unfolded if_not_P [OF 3(1)] if_not_P [OF 3(2)]] by simp
      then have "call_done H ak p req1 limDec ?sv2 sv'"
        using 3(3) unary_done [of req1] stream_done [of req1 H] by auto
      with a called show ?thesis by blast
    qed
  qed
qed

lemma handle_runs:
  assumes "admitted_to H g ak req sv p limDec dlpRes req1 sv2" and "cr_Stream req1 \<longrightarrow> he_flusher H"
  shows "call_done H ak p req1 limDec sv2 (snd (handleChat H g ak (Inr req) sv))"
  using assms unary_done [of req1 H ak p limDec sv2 g dlpRes] stream_done [of req1 H ak p limDec sv2 g dlpRes]
  by (auto simp: admitted_to_def handleChat_def Let_def)

lemma handle_blocked:
  assumes "Allows (ak_Policy ak) (cr_Model req)"
    and "he_resolve H (cr_Model req) (kp_AllowPassthrough (ak_Policy ak)) = Inr p"
    and "limitDenied (he_limiter H) (he_usd H) (he_checked H) (he_token H) (ak_KeyID ak)
        (ParseLimits (he_limits H) (ak_Policy ak)) (reserveTokensFor (cr_MaxTokens req))
        (ac_limiter (sv_accounts sv)) = (msg, False, limDec, s1)"
    and "dlpEnforce (he_dlp H) ak (ingress_name g) req (pl_DLPModelScan p) (sv_dlp sv) = (True, dmsg, dlpRes, req1, w1)"
  shows "handleChat H g ak (Inr req) sv =
    (writeProtocolError g 400 ''invalid_request_error'' dmsg, sv\<lparr>sv_accounts := (sv_accounts sv)\<lparr>ac_limiter := s1\<rparr>, sv_dlp := w1\<rparr>)"
  using assms by (simp add: handleChat_def Let_def)

end
