(* ===== verification/ChatProps.thy ===== *)
theory ChatProps
  imports ChatHandler
begin

text \<open>
  What the chat handler guarantees: nothing is sent on past a closed gate, every call is recorded
  once with its price, and the token counters end up with what the call used.
\<close>

section \<open>Properties\<close>


section \<open>Accounts\<close>

text \<open>
  Every executor run is entered in the ledger exactly once, with the status the
  client was told, the usage of the call and its price; a request that was stopped before the run
  leaves ledger and capture queue as they were. A captured exchange carries no price: the entry that
  the settlement prices is a copy.
\<close>
theorem chat_recorded_once:
  assumes "handleChat H g ak (Inr req) sv = (reply, sv')"
  shows "(sv_calls sv' = sv_calls sv \<and> ac_ledger (sv_accounts sv') = ac_ledger (sv_accounts sv) \<and> sv_pipe sv' = sv_pipe sv)
    \<or> (\<exists>p req1 e u. sv_calls sv' = sv_calls sv @ [(p, req1)] \<and> call_outcome H p req1 = (le_Status e, u)
         \<and> ac_ledger (sv_accounts sv') = ledger_Record e (ac_ledger (sv_accounts sv))
         \<and> le_ProviderName e = tg_Provider (served_by H p req1) \<and> le_Alias e = cr_Model req1
         \<and> le_PromptTokens e = PromptTokens u \<and> le_CompletionTokens e = CompletionTokens u
         \<and> le_CostUSD e = of_int (CostMicroUSD (he_prices H) (le_ProviderName e)
              (tg_UpstreamModel (served_by H p req1)) (PromptTokens u) (CompletionTokens u)) / 1000000
         \<and> captured (sv_pipe sv) (sv_pipe sv'))"
  using assms
proof (cases rule: handle_cases)
  case stopped
  then show ?thesis by simp
next
  case (called p limDec dlpRes req1 sv2)
  obtain st u where o: "call_outcome H p req1 = (st, u)" by fastforce
  obtain e where e: "call_entry H p req1 e"
    and a: "sv_accounts sv' = finalizeUsage (he_limiter H) (he_prices H) (he_settled H) e (ak_KeyID ak)
             (tg_UpstreamModel (served_by H p req1)) u (dReservedTokens limDec) (dReservedBucket limDec)
             ((sv_accounts sv2)\<lparr>ac_limiter := he_between H (ac_limiter (sv_accounts sv2))\<rparr>)"
    and c: "sv_calls sv' = sv_calls sv2 @ [(p, req1)]" "captured (sv_pipe sv2) (sv_pipe sv')"
    using called(2) o unfolding call_done_def by auto
  have g: "sv_calls sv2 = sv_calls sv" "sv_pipe sv2 = sv_pipe sv" "ac_ledger (sv_accounts sv2) = ac_ledger (sv_accounts sv)"
    using called(1) unfolding admitted_to_def by auto
  let ?e = "e\<lparr>le_PromptTokens := PromptTokens u, le_CompletionTokens := CompletionTokens u,
       le_ReasoningTokens := ReasoningTokens u,
       le_CostUSD := of_int (CostMicroUSD (he_prices H) (le_ProviderName e) (tg_UpstreamModel (served_by H p req1))
          (PromptTokens u) (CompletionTokens u)) / 1000000\<rparr>"
  show ?thesis
    using e o c g by (intro disjI2 exI [of _ p] exI [of _ req1] exI [of _ ?e] exI [of _ u])
      (simp add: a finalize_ledger call_entry_def)
qed

lemma chat_settled:
  assumes "hash_server (he_limiter H) view" and "admitted_to H g ak req sv p limDec dlpRes req1 sv2"
    and "call_done H ak p req1 limDec sv2 sv'" and "live (unix_sec (he_checked H - maxWindow - BucketSize)) f"
    and "\<And>s. amount (view (he_between H s)) (tokKey (ak_KeyID ak)) f = amount (view s) (tokKey (ak_KeyID ak)) f + other"
    and "call_outcome H p req1 = (st, u)" and "in_int64 (billed st u - dReservedTokens limDec)"
  shows "amount (view (ac_limiter (sv_accounts sv'))) (tokKey (ak_KeyID ak)) f
      = amount (view (ac_limiter (sv_accounts sv))) (tokKey (ak_KeyID ak)) f + other
        + (if f = settled_bucket limDec (he_settled H) then billed st u else 0)"
proof -
  let ?k = "tokKey (ak_KeyID ak)"
  obtain msg s1 where l: "limitDenied (he_limiter H) (he_usd H) (he_checked H) (he_token H) (ak_KeyID ak)
        (ParseLimits (he_limits H) (ak_Policy ak)) (reserveTokensFor (cr_MaxTokens req))
        (ac_limiter (sv_accounts sv)) = (msg, False, limDec, s1)" and s1: "ac_limiter (sv_accounts sv2) = s1"
    using assms(2) unfolding admitted_to_def by auto
  obtain e where e: "le_Status e = st"
    and a: "sv_accounts sv' = finalizeUsage (he_limiter H) (he_prices H) (he_settled H) e (ak_KeyID ak)
             (tg_UpstreamModel (served_by H p req1)) u (dReservedTokens limDec) (dReservedBucket limDec)
             ((sv_accounts sv2)\<lparr>ac_limiter := he_between H (ac_limiter (sv_accounts sv2))\<rparr>)"
    using assms(3,6) unfolding call_done_def call_entry_def by auto
  have fin: "amount (view (ac_limiter (sv_accounts sv'))) ?k f = amount (view (he_between H s1)) ?k f
      + (if f = settled_bucket limDec (he_settled H) then billed st u - dReservedTokens limDec else 0)"
    unfolding a using assms(7) by (subst finalize_tokens [OF assms(1)]) (simp_all add: e s1)
  note r = limitDenied_effect(1,2) [OF assms(1) l assms(4)]
  have "(if f = itoa (BucketStamp (he_checked H)) then dReservedTokens limDec else 0)
      = (if f = settled_bucket limDec (he_settled H) then dReservedTokens limDec else 0)"
    using r(2) by (auto simp: settled_bucket_def)
  then show ?thesis unfolding fin r(1) assms(5) by (simp split: if_splits)
qed


text \<open>
  C39: A request that DLP refuses keeps the tokens reserved for it: the counter of the
  key has grown by the whole reservation although nothing was sent, and nothing is recorded that
  would take it back.
\<close>
theorem blocked_keeps_reservation:
  assumes "hash_server (he_limiter H) view" and "Allows (ak_Policy ak) (cr_Model req)"
    and "he_resolve H (cr_Model req) (kp_AllowPassthrough (ak_Policy ak)) = Inr p"
    and "limitDenied (he_limiter H) (he_usd H) (he_checked H) (he_token H) (ak_KeyID ak)
        (ParseLimits (he_limits H) (ak_Policy ak)) (reserveTokensFor (cr_MaxTokens req))
        (ac_limiter (sv_accounts sv)) = (msg, False, limDec, s1)"
    and "dlpEnforce (he_dlp H) ak (ingress_name g) req (pl_DLPModelScan p) (sv_dlp sv) = (True, dmsg, dlpRes, req1, w1)"
    and "live (unix_sec (he_checked H - maxWindow - BucketSize)) (itoa (BucketStamp (he_checked H)))"
    and "lim_Tokens (ParseLimits (he_limits H) (ak_Policy ak)) \<noteq> []"
  shows "\<exists>sv'. handleChat H g ak (Inr req) sv = (writeProtocolError g 400 ''invalid_request_error'' dmsg, sv')
    \<and> sv_calls sv' = sv_calls sv \<and> ac_ledger (sv_accounts sv') = ac_ledger (sv_accounts sv)
    \<and> amount (view (ac_limiter (sv_accounts sv'))) (tokKey (ak_KeyID ak)) (itoa (BucketStamp (he_checked H)))
      = amount (view (ac_limiter (sv_accounts sv))) (tokKey (ak_KeyID ak)) (itoa (BucketStamp (he_checked H)))
        + reserveTokensFor (cr_MaxTokens req)"
  using handle_blocked [OF assms(2-5)] limitDenied_effect(1) [OF assms(1,4,6)]
    limitDenied_granted [OF assms(1,4,6,7)] by simp

section \<open>Example\<close>

text \<open>A key with a token limit, a provider that answers \<open>ok\<close>, and a policy that masks \<open>ab\<close>.\<close>

definition demo_key :: authedKey where
  "demo_key = \<lparr>ak_KeyID = ''k'', ak_UserID = ''u'',
     ak_Policy = \<lparr>kp_AllowedModels = [''gpt''], kp_AllowPassthrough = False, kp_Limits = ''l''\<rparr>\<rparr>"

definition demo_chat_plan :: plan where
  "demo_chat_plan = \<lparr>pl_Alias = ''gpt'', pl_Strategy = [], pl_DLPModelScan = False, pl_ExposeBackendHeaders = False,
     pl_DLPAudioScan = False, pl_Tiers = [[demo_target ''p'']], pl_SessionAffinity = False, pl_SessionAffinityTTL = 0,
     pl_SynthesisCache = False, pl_SynthesisCacheTTL = 0, pl_LCRMode = [], pl_LCRMinAvailability = 0\<rparr>"

definition demo_usage :: usage where
  "demo_usage = \<lparr>PromptTokens = 200, CompletionTokens = 50, TotalTokens = 250, ReasoningTokens = 0\<rparr>"

definition demo_henv :: "string \<Rightarrow> (demo_server, unit, unit) henv" where
  "demo_henv action =
     \<lparr>he_limiter = demo_ops, he_usd = (\<lambda>_. []), he_limits = (\<lambda>_. demo_limits), he_prices = new_table,
      he_dlp = demo_dlp_env\<lparr>de_cfg := Some ((dlpCfg (de_cfg demo_dlp_env))\<lparr>dc_Action := action\<rparr>)\<rparr>,
      he_resolve = (\<lambda>_ _. Inr demo_chat_plan), he_checked = 12 * hour, he_settled = 12 * hour + 10 * minute,
      he_token = ''t'', he_between = (\<lambda>s. s),
      he_chat = (\<lambda>p r. (Inr \<lparr>rs_ID = [], rs_Model = [], rs_Created = 0, rs_Choices = [], rs_Usage = demo_usage\<rparr>,
         \<lparr>xr_Target = demo_target ''p'', xr_Attempts = 1, xr_Session = [], xr_Cache = []\<rparr>)),
      he_stream = (\<lambda>p r. (\<lparr>xr_Target = demo_target ''p'', xr_Attempts = 1, xr_Session = [], xr_Cache = []\<rparr>,
         zero_usage, False, None, [])), he_flusher = True, he_latency = 1, he_errtext = (\<lambda>_. []),
      he_encode = (\<lambda>_ _. Some ''ok''), he_capture = None, he_draw = 0, he_body = (\<lambda>_ _. [])\<rparr>"

definition demo_sv :: "(demo_server, unit) server" where
  "demo_sv = \<lparr>sv_accounts = \<lparr>ac_limiter = (\<lambda>_. []), ac_ledger = ledger_New\<rparr>,
     sv_dlp = \<lparr>dw_incidents = [], dw_alerts = [], dw_pool = ()\<rparr>, sv_pipe = None, sv_calls = []\<rparr>"

abbreviation demo_found :: finding where "demo_found \<equiv> \<lparr>fi_Label = ''tag'', fi_Start = 1, fi_End = 3\<rparr>"
abbreviation demo_cfg :: "string \<Rightarrow> dlpConfig" where "demo_cfg action \<equiv> dlpCfg (de_cfg (he_dlp (demo_henv action)))"

lemma demo_dlp_facts:
  "sidecar_in_range (he_dlp (demo_henv action))" "dc_Enabled (demo_cfg action)" "dc_Action (demo_cfg action) = action"
  "\<not> dc_ModelEnabled (demo_cfg action)"
  by (simp_all add: sidecar_in_range_def demo_henv_def demo_dlp_env_def dlpCfg_def defaultDLPConfig_def)

lemma demo_scan_msgs:
  "scan_msgs (he_dlp (demo_henv action)) (demo_cfg action) (pl_DLPModelScan demo_chat_plan) (cr_Messages demo_request) 0
     (cr_Messages demo_request) (dw_pool (sv_dlp demo_sv)) = ([[demo_found]], ())"
proof -
  have "layer1 (demo_cfg action) ''xaby'' = [demo_found]"
    using demo_scan by (simp add: layer1_def demo_henv_def demo_dlp_env_def dlpCfg_def dlpToggle_def demo_custom_def)
  then show ?thesis
    by (simp add: demo_request_def message_findings_def in_model_scope_def model_on_def demo_dlp_facts Let_def)
qed

lemma demo_enforced:
  assumes "action \<noteq> ''off''"
  obtains dmsg res w1 where "dlpEnforce (he_dlp (demo_henv action)) demo_key (ingress_name OpenAI) demo_request
      (pl_DLPModelScan demo_chat_plan) (sv_dlp demo_sv)
    = (action = ''block'', dmsg, res,
       demo_request\<lparr>cr_Messages := map2 (masked (demo_cfg action)) (cr_Messages demo_request) [[demo_found]]\<rparr>, w1)"
proof -
  obtain b dmsg res req1 w1 where run: "dlpEnforce (he_dlp (demo_henv action)) demo_key (ingress_name OpenAI) demo_request
      (pl_DLPModelScan demo_chat_plan) (sv_dlp demo_sv) = (b, dmsg, res, req1, w1)" by (metis prod_cases5)
  have a: "dc_Action (demo_cfg action) \<noteq> ''off''" using assms by (simp add: demo_dlp_facts)
  note g = dlpEnforce_spec [OF demo_dlp_facts(1) refl demo_dlp_facts(2) a demo_scan_msgs run]
  have "b \<longleftrightarrow> action = ''block''" "req1 = demo_request\<lparr>cr_Messages :=
      map2 (masked (demo_cfg action)) (cr_Messages demo_request) [[demo_found]]\<rparr>"
    using g by (simp_all add: demo_dlp_facts)
  with run that show ?thesis by simp
qed

lemma demo_live: "live (unix_sec (12 * hour - maxWindow - BucketSize)) (itoa 43200)"
  "live (unix_sec (12 * hour - maxWindow - BucketSize)) (itoa 43800)"
  by (simp_all add: live_def unix_sec_def maxWindow_def Windows_def in_int64_def)

lemma demo_bucket: "BucketStamp (12 * hour) = 43200" "BucketStamp (12 * hour + 10 * minute) = 43800"
  by (simp_all add: BucketStamp_def unix_sec_def trunc_div_def Let_def)

lemma demo_limit:
  obtains msg d s1 where "limitDenied (he_limiter (demo_henv a)) (he_usd (demo_henv a)) (he_checked (demo_henv a))
      (he_token (demo_henv a)) (ak_KeyID demo_key) (ParseLimits (he_limits (demo_henv a)) (ak_Policy demo_key))
      (reserveTokensFor (cr_MaxTokens demo_request)) (ac_limiter (sv_accounts demo_sv)) = (msg, False, d, s1)"
proof -
  obtain d err s1 where chk: "Check demo_ops (12 * hour) ''t'' ''k'' demo_limits 4096 (\<lambda>_. []) = (d, err, s1)"
    by (metis prod_cases3)
  have "dAllowed d"
    using chk by (auto simp: Check_def check_locked_def demo_ops_def demo_limits_def no_limits_def Let_def
        lockRetries_def eval_nat_numeral Windows_def check_window_def cap_reached_def cost_cap_reached_def
        SumWindows_def sum_window_def prune_def prune_cmds_def expiredFields_def allowed_decision_def)
  then have "\<exists>msg d s1. limitDenied demo_ops (\<lambda>_. []) (12 * hour) ''t'' ''k'' demo_limits 4096 (\<lambda>_. []) = (msg, False, d, s1)"
    using Check_no_error [OF demo_hash_server chk] unfolding limitDenied_def chk by simp
  then show ?thesis
    using that by (auto simp: demo_henv_def demo_key_def ParseLimits_def demo_request_def reserveTokensFor_def
        defaultTokenReservation_def demo_sv_def)
qed

lemma demo_allowed: "Allows (ak_Policy demo_key) (cr_Model demo_request)"
  "he_resolve (demo_henv a) m b = Inr demo_chat_plan"
  by (simp_all add: demo_key_def demo_request_def Allows_def demo_henv_def)

lemma demo_called:
  obtains d sv2 where "call_done (demo_henv ''redact'') demo_key demo_chat_plan
      (demo_request\<lparr>cr_Messages := [zero_message\<lparr>m_Role := ''user'', m_Content := ''x[REDACTED:tag]y''\<rparr>]\<rparr>) d sv2
      (snd (handleChat (demo_henv ''redact'') OpenAI demo_key (Inr demo_request) demo_sv))"
    "sv_calls sv2 = []" "ac_ledger (sv_accounts sv2) = ledger_New"
proof -
  let ?H = "demo_henv ''redact''" and ?q = "demo_request\<lparr>cr_Messages := [zero_message\<lparr>m_Role := ''user'', m_Content := ''x[REDACTED:tag]y''\<rparr>]\<rparr>"
  have "Redact ''xaby'' [demo_found] = ''x[REDACTED:tag]y''"
    by (simp add: Redact_def coalesceAdjacent_def substr_def marker_def eval_nat_numeral)
  then have q: "demo_request\<lparr>cr_Messages := map2 (masked (demo_cfg ''redact'')) (cr_Messages demo_request) [[demo_found]]\<rparr> = ?q"
    by (simp add: masked_def demo_dlp_facts demo_request_def)
  obtain dmsg res w1 where e: "dlpEnforce (he_dlp ?H) demo_key (ingress_name OpenAI) demo_request
      (pl_DLPModelScan demo_chat_plan) (sv_dlp demo_sv) = (False, dmsg, res, ?q, w1)"
    using demo_enforced [of "''redact''"] unfolding q by auto
  obtain msg d s1 where l: "limitDenied (he_limiter ?H) (he_usd ?H) (he_checked ?H) (he_token ?H) (ak_KeyID demo_key)
      (ParseLimits (he_limits ?H) (ak_Policy demo_key)) (reserveTokensFor (cr_MaxTokens demo_request))
      (ac_limiter (sv_accounts demo_sv)) = (msg, False, d, s1)" by (rule demo_limit)
  let ?sv2 = "demo_sv\<lparr>sv_accounts := (sv_accounts demo_sv)\<lparr>ac_limiter := s1\<rparr>, sv_dlp := w1\<rparr>"
  have "admitted_to ?H OpenAI demo_key demo_request demo_sv demo_chat_plan d res ?q ?sv2"
    unfolding admitted_to_def using demo_allowed l e by blast
  then have "call_done ?H demo_key demo_chat_plan ?q d ?sv2 (snd (handleChat ?H OpenAI demo_key (Inr demo_request) demo_sv))"
    by (rule handle_runs) (simp add: demo_request_def)
  then show ?thesis by (rule that) (simp_all add: demo_sv_def)
qed

abbreviation demo_run :: "string \<Rightarrow> reply \<times> (demo_server, unit) server" where
  "demo_run action \<equiv> handleChat (demo_henv action) OpenAI demo_key (Inr demo_request) demo_sv"

lemma demo_run_calls:
  "sv_calls (snd (demo_run ''redact'')) = [(demo_chat_plan,
     demo_request\<lparr>cr_Messages := [zero_message\<lparr>m_Role := ''user'', m_Content := ''x[REDACTED:tag]y''\<rparr>]\<rparr>)]"
  by (rule demo_called) (simp add: call_done_def)

lemma demo_outcome: "call_outcome (demo_henv a) p (demo_request\<lparr>cr_Messages := ms\<rparr>) = (200, demo_usage)"
  by (simp add: call_outcome_def demo_henv_def demo_request_def)

lemma demo_sv_empty: "sv_calls demo_sv = []" "ac_ledger (sv_accounts demo_sv) = ledger_New"
  "ac_limiter (sv_accounts demo_sv) = (\<lambda>_. [])" "sv_pipe demo_sv = None"
  by (simp_all add: demo_sv_def)


theorem chat_recorded_once_witness:
  "map (\<lambda>e. (le_Status e, le_PromptTokens e, le_CompletionTokens e))
     (lg_ch (ac_ledger (sv_accounts (snd (demo_run ''redact''))))) = [(200, 200, 50)]"
  using chat_recorded_once [OF prod.collapse [symmetric, of "demo_run ''redact''"]] demo_run_calls
  by (auto simp: demo_sv_empty demo_outcome ledger_Record_def ledger_New_def demo_usage_def chanSize_def)


theorem blocked_keeps_reservation_witness:
  "\<exists>msg sv'. demo_run ''block'' = (ErrorReply 400 ''invalid_request_error'' msg, sv') \<and> sv_calls sv' = []
     \<and> amount (demo_view (ac_limiter (sv_accounts sv'))) (tokKey ''k'') (itoa 43200) = 4096"
proof -
  let ?H = "demo_henv ''block''"
  obtain dmsg res w1 where e: "dlpEnforce (he_dlp ?H) demo_key (ingress_name OpenAI) demo_request
      (pl_DLPModelScan demo_chat_plan) (sv_dlp demo_sv) = (True, dmsg, res,
       demo_request\<lparr>cr_Messages := map2 (masked (demo_cfg ''block'')) (cr_Messages demo_request) [[demo_found]]\<rparr>, w1)"
    using demo_enforced [of "''block''"] by auto
  obtain msg d s1 where l: "limitDenied (he_limiter ?H) (he_usd ?H) (he_checked ?H) (he_token ?H) (ak_KeyID demo_key)
      (ParseLimits (he_limits ?H) (ak_Policy demo_key)) (reserveTokensFor (cr_MaxTokens demo_request))
      (ac_limiter (sv_accounts demo_sv)) = (msg, False, d, s1)" by (rule demo_limit)
  have c: "he_checked ?H = 12 * hour" "hash_server (he_limiter ?H) demo_view"
    by (simp_all add: demo_henv_def demo_hash_server)
  have t: "lim_Tokens (ParseLimits (he_limits ?H) (ak_Policy demo_key)) \<noteq> []"
    by (simp add: demo_henv_def ParseLimits_def demo_key_def demo_limits_def)
  have v: "live (unix_sec (he_checked ?H - maxWindow - BucketSize)) (itoa (BucketStamp (he_checked ?H)))"
    unfolding c(1) demo_bucket by (rule demo_live(1))
  from blocked_keeps_reservation [OF c(2) demo_allowed l e v t]
  show ?thesis unfolding c(1) demo_bucket
    by (auto simp: writeProtocolError_def demo_sv_empty demo_key_def amount_def demo_view_def demo_request_def
        reserveTokensFor_def defaultTokenReservation_def)
qed

end
