(* ===== verification/Json.thy ===== *)
theory Json
  imports GoStrings "HOL-Library.Monad_Syntax"
begin

text \<open>
  JSON as \<open>encoding/json\<close> reads and writes it: values with their numbers as literals, the compact
  printer of \<open>json.Marshal\<close>, the parser, and the rules by which a value is decoded into a Go field.
  Strings are UTF-8; bytes above 127 are copied both ways, so the replacement of invalid sequences
  and the escapes of U+2028 and U+2029 are left out, as is the nesting limit of the parser.
\<close>

section \<open>Values and their text\<close>

datatype json =
    JNull
  | JBool bool
  | JNum string
  | JStr string
  | JArr "json list"
  | JObj "(string \<times> json) list"

definition hex_digit :: "nat \<Rightarrow> char" where
  "hex_digit n = char_of (if n < 10 then 48 + n else 87 + n)"

definition hex_val :: "char \<Rightarrow> nat option" where
  "hex_val c =
     (let n = char_code c in
      if 48 \<le> n \<and> n \<le> 57 then Some (n - 48)
      else if 97 \<le> n \<and> n \<le> 102 then Some (n - 87)
      else if 65 \<le> n \<and> n \<le> 70 then Some (n - 55)
      else None)"

abbreviation quote :: char where "quote \<equiv> CHR 0x22"
abbreviation backslash :: char where "backslash \<equiv> CHR 0x5C"

text \<open>The characters with a two-character escape, and the HTML characters \<open>Marshal\<close> escapes too.\<close>

definition short_escapes :: "(char \<times> char) list" where
  "short_escapes = [(quote, quote), (backslash, backslash), (CHR 0x08, CHR ''b''), (CHR 0x0C, CHR ''f''),
     (CHR 0x0A, CHR ''n''), (CHR 0x0D, CHR ''r''), (CHR 0x09, CHR ''t'')]"

definition esc_char :: "char \<Rightarrow> string" where
  "esc_char c =
     (case map_of short_escapes c of
        Some e \<Rightarrow> [backslash, e]
      | None \<Rightarrow>
          if char_code c < 32 \<or> c \<in> set ''<>&''
          then [backslash, CHR ''u'', CHR ''0'', CHR ''0'', hex_digit (char_code c div 16), hex_digit (char_code c mod 16)]
          else [c])"

definition jquote :: "string \<Rightarrow> string" where
  "jquote s = quote # concat (map esc_char s) @ [quote]"

fun more_items :: "string list \<Rightarrow> string \<Rightarrow> string" where
  "more_items [] e = e"
| "more_items (x # xs) e = CHR '','' # x @ more_items xs e"

fun items :: "string list \<Rightarrow> string \<Rightarrow> string" where
  "items [] e = e"
| "items (x # xs) e = x @ more_items xs e"

fun jprint :: "json \<Rightarrow> string" where
  "jprint JNull = ''null''"
| "jprint (JBool b) = (if b then ''true'' else ''false'')"
| "jprint (JNum l) = l"
| "jprint (JStr s) = jquote s"
| "jprint (JArr xs) = CHR ''['' # items (map jprint xs) '']''"
| "jprint (JObj ms) = CHR ''{'' # items (map (\<lambda>(k, v). jquote k @ CHR '':'' # jprint v) ms) ''}''"

section \<open>The parser\<close>

definition json_ws :: "char \<Rightarrow> bool" where
  "json_ws c \<longleftrightarrow> char_code c \<in> {9, 10, 13, 32}"

definition skip_ws :: "string \<Rightarrow> string" where
  "skip_ws s = dropWhile json_ws s"

definition utf8 :: "nat \<Rightarrow> string" where
  "utf8 n =
     (if n < 128 then [char_of n]
      else if n < 2048 then [char_of (192 + n div 64), char_of (128 + n mod 64)]
      else if n < 65536 then [char_of (224 + n div 4096), char_of (128 + n div 64 mod 64), char_of (128 + n mod 64)]
      else [char_of (240 + n div 262144), char_of (128 + n div 4096 mod 64), char_of (128 + n div 64 mod 64),
            char_of (128 + n mod 64)])"

definition hex4 :: "char \<Rightarrow> char \<Rightarrow> char \<Rightarrow> char \<Rightarrow> nat option" where
  "hex4 a b c d =
     (case (hex_val a, hex_val b, hex_val c, hex_val d) of
        (Some w, Some x, Some y, Some z) \<Rightarrow> Some (((w * 16 + x) * 16 + y) * 16 + z)
      | _ \<Rightarrow> None)"

definition unescape :: "char \<Rightarrow> char option" where
  "unescape e = (if e = CHR ''/'' then Some e else map_of (map prod.swap short_escapes) e)"

definition high_surrogate :: "nat \<Rightarrow> bool" where "high_surrogate n \<longleftrightarrow> 0xD800 \<le> n \<and> n < 0xDC00"
definition low_surrogate :: "nat \<Rightarrow> bool" where "low_surrogate n \<longleftrightarrow> 0xDC00 \<le> n \<and> n < 0xE000"

text \<open>The code point of an escaped unit and the rest; a lone surrogate becomes U+FFFD.\<close>

definition code_point :: "nat \<Rightarrow> string \<Rightarrow> nat \<times> string" where
  "code_point n r =
     (if low_surrogate n then (0xFFFD, r)
      else if high_surrogate n then
        (case r of
           b # u # w # x # y # z # r2 \<Rightarrow>
             (if b = backslash \<and> u = CHR ''u'' then
                case hex4 w x y z of
                  Some m \<Rightarrow> if low_surrogate m then (0x10000 + (n - 0xD800) * 1024 + (m - 0xDC00), r2) else (0xFFFD, r)
                | None \<Rightarrow> (0xFFFD, r)
              else (0xFFFD, r))
         | _ \<Rightarrow> (0xFFFD, r))
      else (n, r))"

lemma code_point_shorter: "length (snd (code_point n r)) < length (a # b # w # x # y # z # r)"
proof -
  have "length (snd (code_point n r)) \<le> length r" by (auto simp: code_point_def split: list.splits option.splits)
  then show ?thesis by simp
qed

definition prefix_text :: "string \<Rightarrow> (string \<times> 'r) option \<Rightarrow> (string \<times> 'r) option" where
  "prefix_text t = map_option (\<lambda>(s, r). (t @ s, r))"

function pstr :: "string \<Rightarrow> (string \<times> string) option" where
  "pstr s =
     (case s of
        [] \<Rightarrow> None
      | c # cs \<Rightarrow>
          if c = quote then Some ([], cs)
          else if c = backslash then
            (case cs of
               [] \<Rightarrow> None
             | e # r \<Rightarrow>
                 if e = CHR ''u'' then
                   (case r of
                      w # x # y # z # r2 \<Rightarrow>
                        (case hex4 w x y z of
                           None \<Rightarrow> None
                         | Some n \<Rightarrow> prefix_text (utf8 (fst (code_point n r2))) (pstr (snd (code_point n r2))))
                    | _ \<Rightarrow> None)
                 else
                   (case unescape e of
                      None \<Rightarrow> None
                    | Some d \<Rightarrow> prefix_text [d] (pstr r)))
          else if char_code c < 32 then None
          else prefix_text [c] (pstr cs))"
  by pat_completeness auto
termination
  using code_point_shorter by (relation "measure length") simp_all

declare pstr.simps [simp del]

definition num_char :: "char \<Rightarrow> bool" where
  "num_char c \<longleftrightarrow> is_digit c \<or> c \<in> set ''+-.eE''"

definition num_int :: "string \<Rightarrow> string option" where
  "num_int t =
     (case t of
        [] \<Rightarrow> None
      | c # r \<Rightarrow> if c = CHR ''0'' then Some r else if is_digit c then Some (dropWhile is_digit r) else None)"

definition num_frac :: "string \<Rightarrow> string option" where
  "num_frac t =
     (case t of
        c # u \<Rightarrow> if c = CHR ''.'' then (if takeWhile is_digit u = [] then None else Some (dropWhile is_digit u)) else Some t
      | [] \<Rightarrow> Some [])"

definition num_exp :: "string \<Rightarrow> string option" where
  "num_exp t =
     (case t of
        c # u \<Rightarrow>
          if c \<in> set ''eE'' then
            (let v = (case u of d # v \<Rightarrow> if d \<in> set ''+-'' then v else u | [] \<Rightarrow> []) in
             if takeWhile is_digit v = [] then None else Some (dropWhile is_digit v))
          else Some t
      | [] \<Rightarrow> Some [])"

definition valid_num :: "string \<Rightarrow> bool" where
  "valid_num s =
     (let t = (case s of c # r \<Rightarrow> if c = CHR ''-'' then r else s | [] \<Rightarrow> [])
      in Option.bind (Option.bind (num_int t) num_frac) num_exp = Some [])"

definition pnum :: "string \<Rightarrow> (json \<times> string) option" where
  "pnum s = (let l = takeWhile num_char s in if valid_num l then Some (JNum l, dropWhile num_char s) else None)"

definition pword :: "string \<Rightarrow> json \<Rightarrow> string \<Rightarrow> (json \<times> string) option" where
  "pword w v s = (if take (length w) s = w then Some (v, drop (length w) s) else None)"

text \<open>Every call consumes a character, so the length of the text is enough fuel.\<close>

fun pval :: "nat \<Rightarrow> string \<Rightarrow> (json \<times> string) option"
  and pelems :: "nat \<Rightarrow> string \<Rightarrow> (json list \<times> string) option"
  and pmems :: "nat \<Rightarrow> string \<Rightarrow> ((string \<times> json) list \<times> string) option" where
  "pval 0 s = None"
| "pval (Suc n) s =
     (case skip_ws s of
        [] \<Rightarrow> None
      | c # cs \<Rightarrow>
          if c = quote then map_option (\<lambda>(t, r). (JStr t, r)) (pstr cs)
          else if c = CHR ''['' then
            (case skip_ws cs of
               d # r \<Rightarrow> if d = CHR '']'' then Some (JArr [], r) else map_option (\<lambda>(xs, r). (JArr xs, r)) (pelems n (d # r))
             | [] \<Rightarrow> None)
          else if c = CHR ''{'' then
            (case skip_ws cs of
               d # r \<Rightarrow> if d = CHR ''}'' then Some (JObj [], r) else map_option (\<lambda>(xs, r). (JObj xs, r)) (pmems n (d # r))
             | [] \<Rightarrow> None)
          else if c = CHR ''n'' then pword ''null'' JNull (c # cs)
          else if c = CHR ''t'' then pword ''true'' (JBool True) (c # cs)
          else if c = CHR ''f'' then pword ''false'' (JBool False) (c # cs)
          else pnum (c # cs))"
| "pelems 0 s = None"
| "pelems (Suc n) s =
     (case pval n s of
        None \<Rightarrow> None
      | Some (x, r) \<Rightarrow>
          (case skip_ws r of
             [] \<Rightarrow> None
           | d # r2 \<Rightarrow>
               if d = CHR '']'' then Some ([x], r2)
               else if d = CHR '','' then map_option (\<lambda>(xs, r3). (x # xs, r3)) (pelems n r2)
               else None))"
| "pmems 0 s = None"
| "pmems (Suc n) s =
     (case skip_ws s of
        [] \<Rightarrow> None
      | c # cs \<Rightarrow>
          if c \<noteq> quote then None
          else case pstr cs of
            None \<Rightarrow> None
          | Some (k, r) \<Rightarrow>
              (case skip_ws r of
                 [] \<Rightarrow> None
               | d # r2 \<Rightarrow>
                   if d \<noteq> CHR '':'' then None
                   else case pval n r2 of
                     None \<Rightarrow> None
                   | Some (v, r3) \<Rightarrow>
                       (case skip_ws r3 of
                          [] \<Rightarrow> None
                        | e # r4 \<Rightarrow>
                            if e = CHR ''}'' then Some ([(k, v)], r4)
                            else if e = CHR '','' then map_option (\<lambda>(ms, r5). ((k, v) # ms, r5)) (pmems n r4)
                            else None)))"

definition jparse :: "string \<Rightarrow> json option" where
  "jparse s =
     (case pval (Suc (length s)) s of
        Some (j, r) \<Rightarrow> if skip_ws r = [] then Some j else None
      | None \<Rightarrow> None)"

section \<open>The round trip\<close>

lemma hex_val_digit: "n < 16 \<Longrightarrow> hex_val (hex_digit n) = Some n"
  by (auto simp: hex_val_def hex_digit_def char_code_def Let_def)

lemma char_code_div: "char_code c < 128 \<Longrightarrow> hex4 (CHR ''0'') (CHR ''0'') (hex_digit (char_code c div 16)) (hex_digit (char_code c mod 16)) = Some (char_code c)"
proof -
  assume "char_code c < 128"
  moreover have "hex_val (CHR ''0'') = Some 0" by (simp add: hex_val_def char_code_def)
  ultimately show ?thesis by (simp add: hex4_def hex_val_digit)
qed

lemma esc_char_cases:
  obtains (short) e where "map_of short_escapes c = Some e" "esc_char c = [backslash, e]"
  | (unit) "esc_char c = [backslash, CHR ''u'', CHR ''0'', CHR ''0'', hex_digit (char_code c div 16), hex_digit (char_code c mod 16)]"
      "char_code c < 128"
  | (plain) "esc_char c = [c]" "c \<noteq> quote" "c \<noteq> backslash" "\<not> char_code c < 32"
proof (cases "map_of short_escapes c")
  case (Some e)
  then show ?thesis using short by (simp add: esc_char_def)
next
  case None
  then have n: "c \<noteq> quote" "c \<noteq> backslash" by (auto simp: short_escapes_def)
  show ?thesis
  proof (cases "char_code c < 32 \<or> c \<in> set ''<>&''")
    case True
    then have "char_code c < 128" by (auto simp: char_code_def)
    with True None show ?thesis using unit by (simp add: esc_char_def)
  next
    case False
    with None n show ?thesis using plain by (simp add: esc_char_def)
  qed
qed

lemma short_unescape:
  assumes "map_of short_escapes c = Some e"
  shows "e \<noteq> CHR ''u''" "unescape e = Some c"
  using assms by (auto simp: short_escapes_def unescape_def split: if_splits)

lemma pstr_escape: "pstr (esc_char c @ r) = prefix_text [c] (pstr r)"
proof (cases c rule: esc_char_cases)
  case (short e)
  then show ?thesis using short_unescape [OF short(1)] by (subst pstr.simps) simp
next
  case unit
  have "\<not> low_surrogate (char_code c)" "\<not> high_surrogate (char_code c)"
    using unit(2) by (simp_all add: low_surrogate_def high_surrogate_def)
  then have "code_point (char_code c) r = (char_code c, r)" by (simp add: code_point_def)
  moreover have "utf8 (char_code c) = [c]" using unit(2) by (simp add: utf8_def char_code_def)
  ultimately show ?thesis using unit char_code_div [OF unit(2)] by (subst pstr.simps) simp
next
  case plain
  then show ?thesis by (subst pstr.simps) simp
qed

lemma pstr_quote: "pstr (concat (map esc_char s) @ quote # r) = Some (s, r)"
proof (induction s)
  case Nil
  show ?case by (simp add: pstr.simps)
next
  case (Cons c s)
  then show ?case by (simp add: pstr_escape prefix_text_def)
qed

fun json_ok :: "json \<Rightarrow> bool" where
  "json_ok (JNum l) = valid_num l"
| "json_ok (JArr xs) = list_all json_ok xs"
| "json_ok (JObj ms) = list_all (\<lambda>(k, v). json_ok v) ms"
| "json_ok _ = True"

text \<open>What may follow a value: nothing that could continue a number.\<close>

definition ends_value :: "string \<Rightarrow> bool" where
  "ends_value r \<longleftrightarrow> (case r of [] \<Rightarrow> True | c # _ \<Rightarrow> \<not> num_char c)"

lemma takeWhile_ends: "list_all num_char l \<Longrightarrow> ends_value r \<Longrightarrow> takeWhile num_char (l @ r) = l \<and> dropWhile num_char (l @ r) = r"
  by (induction l) (auto simp: ends_value_def split: list.splits)

lemma digits_chars: "\<forall>c \<in> set s. is_digit c \<Longrightarrow> list_all num_char s"
  by (auto simp: list_all_iff num_char_def)

lemma drop_digits_chars [simp]: "list_all num_char (dropWhile is_digit s) = list_all num_char s"
  by (induction s) (auto simp: num_char_def)

lemma num_exp_chars: "num_exp t = Some [] \<Longrightarrow> list_all num_char t"
  by (auto simp: num_exp_def Let_def digits_chars num_char_def split: list.splits if_splits)

lemma num_frac_chars: "num_frac t = Some u \<Longrightarrow> list_all num_char u \<Longrightarrow> list_all num_char t"
  by (auto simp: num_frac_def num_char_def split: list.splits if_splits)

lemma num_int_chars: "num_int t = Some u \<Longrightarrow> list_all num_char u \<Longrightarrow> list_all num_char t \<and> (\<exists>c r. t = c # r \<and> is_digit c)"
  by (auto simp: num_int_def num_char_def is_digit_def split: list.splits if_splits)

lemma valid_num_chars:
  assumes "valid_num l"
  shows "list_all num_char l" "\<exists>c r. l = c # r \<and> (is_digit c \<or> c = CHR ''-'')"
proof -
  let ?t = "case l of c # r \<Rightarrow> if c = CHR ''-'' then r else l | [] \<Rightarrow> []"
  obtain u v where "num_int ?t = Some u" "num_frac u = Some v" "num_exp v = Some []"
    using assms by (auto simp: valid_num_def Let_def Option.bind_eq_Some_conv)
  then have "list_all num_char ?t" "\<exists>c r. ?t = c # r \<and> is_digit c"
    using num_exp_chars num_frac_chars num_int_chars by blast+
  then show "list_all num_char l" "\<exists>c r. l = c # r \<and> (is_digit c \<or> c = CHR ''-'')"
    by (auto simp: num_char_def split: list.splits if_splits)
qed

lemma print_head:
  assumes "json_ok j"
  obtains c cs where "jprint j = c # cs" "\<not> json_ws c" "c \<noteq> CHR '']''" "c \<noteq> CHR ''}''"
proof (cases j)
  case (JNum l)
  then have "valid_num l" using assms by simp
  then obtain c r where "l = c # r" "is_digit c \<or> c = CHR ''-''" using valid_num_chars(2) by blast
  moreover from this have "\<not> json_ws c" "c \<noteq> CHR '']''" "c \<noteq> CHR ''}''"
    by (auto simp: json_ws_def is_digit_def char_code_def)
  ultimately show ?thesis using JNum that by simp
next
  case (JBool b)
  then show ?thesis using that by (cases b) (auto simp: json_ws_def char_code_def)
qed (use that in \<open>auto simp: json_ws_def char_code_def jquote_def\<close>)

lemma skip_ws_Cons [simp]: "\<not> json_ws c \<Longrightarrow> skip_ws (c # cs) = c # cs"
  by (simp add: skip_ws_def)

lemma punct_ws [simp]: "\<not> json_ws quote" "\<not> json_ws (CHR '','')" "\<not> json_ws (CHR '':'')" "\<not> json_ws (CHR '']'')"
  "\<not> json_ws (CHR ''}'')" "\<not> json_ws (CHR ''['')" "\<not> json_ws (CHR ''{'')"
  by (simp_all add: json_ws_def char_code_def)

lemma punct_ends [simp]: "ends_value (CHR '','' # r)" "ends_value (CHR '']'' # r)" "ends_value (CHR ''}'' # r)"
  by (simp_all add: ends_value_def num_char_def is_digit_def)

definition reads :: "json \<Rightarrow> bool" where
  "reads j \<longleftrightarrow> (\<forall>n r. json_ok j \<longrightarrow> length (jprint j) \<le> n \<longrightarrow> ends_value r \<longrightarrow> pval n (jprint j @ r) = Some (j, r))"

lemma readsD: "reads j \<Longrightarrow> json_ok j \<Longrightarrow> length (jprint j) \<le> n \<Longrightarrow> ends_value r \<Longrightarrow> pval n (jprint j @ r) = Some (j, r)"
  by (simp add: reads_def)

lemma pelems_print:
  assumes "xs \<noteq> []" and "list_all reads xs" and "list_all json_ok xs" and "length (items (map jprint xs) '']'') \<le> n"
  shows "pelems n (items (map jprint xs) '']'' @ r) = Some (xs, r)"
  using assms
proof (induction xs arbitrary: n rule: list_nonempty_induct)
  case (single x)
  then obtain m where m: "n = Suc m" "length (jprint x) \<le> m" by (cases n) auto
  have "pval m (jprint x @ CHR '']'' # r) = Some (x, CHR '']'' # r)" using single m by (intro readsD) auto
  then show ?case using m by simp
next
  case (cons x xs)
  obtain y ys where xs: "xs = y # ys" using cons by (cases xs) auto
  obtain m where m: "n = Suc m" "length (jprint x) \<le> m" "length (items (map jprint xs) '']'') \<le> m"
    using cons.prems xs by (cases n) auto
  let ?t = "items (map jprint xs) '']'' @ r"
  have "pval m (jprint x @ CHR '','' # ?t) = Some (x, CHR '','' # ?t)" using cons.prems m by (intro readsD) auto
  moreover have "pelems m ?t = Some (xs, r)" using cons.IH [of m] cons.prems m by simp
  ultimately show ?case using m xs by simp
qed

abbreviation member_text :: "string \<times> json \<Rightarrow> string" where
  "member_text \<equiv> (\<lambda>(k, v). jquote k @ CHR '':'' # jprint v)"

lemma pmems_print:
  assumes "ms \<noteq> []" and "list_all (\<lambda>(k, v). reads v) ms" and "list_all (\<lambda>(k, v). json_ok v) ms"
    and "length (items (map member_text ms) ''}'') \<le> n"
  shows "pmems n (items (map member_text ms) ''}'' @ r) = Some (ms, r)"
  using assms
proof (induction ms arbitrary: n rule: list_nonempty_induct)
  case (single x)
  obtain k v where x: "x = (k, v)" by fastforce
  obtain m where m: "n = Suc m" "length (jprint v) \<le> m" using single x by (cases n) (auto simp: jquote_def)
  have "pval m (jprint v @ CHR ''}'' # r) = Some (v, CHR ''}'' # r)" using single x m by (intro readsD) auto
  then show ?case using m x by (simp add: jquote_def pstr_quote)
next
  case (cons x ms)
  obtain k v where x: "x = (k, v)" by fastforce
  obtain y ys where ms: "ms = y # ys" using cons by (cases ms) auto
  obtain m where m: "n = Suc m" "length (jprint v) \<le> m" "length (items (map member_text ms) ''}'') \<le> m"
    using cons.prems ms x by (cases n) (auto simp: jquote_def)
  let ?t = "items (map member_text ms) ''}'' @ r"
  have "pval m (jprint v @ CHR '','' # ?t) = Some (v, CHR '','' # ?t)" using cons.prems x m by (intro readsD) auto
  moreover have "pmems m ?t = Some (ms, r)" using cons.IH [of m] cons.prems m by simp
  ultimately show ?case using m x ms by (simp add: jquote_def pstr_quote)
qed

lemma reads_all: "reads j"
proof (induction j)
  case (JNum l)
  show ?case unfolding reads_def
  proof (intro allI impI)
    fix n r assume a: "json_ok (JNum l)" "length (jprint (JNum l)) \<le> n" "ends_value r"
    then have v: "valid_num l" by simp
    obtain c s where c: "l = c # s" "is_digit c \<or> c = CHR ''-''" using valid_num_chars(2) [OF v] by blast
    have l: "list_all num_char l" by (rule valid_num_chars(1) [OF v])
    obtain m where "n = Suc m" using a(2) c by (cases n) auto
    moreover have "\<not> json_ws c" "c \<noteq> quote" "c \<noteq> CHR ''[''" "c \<noteq> CHR ''{''" "c \<noteq> CHR ''n''" "c \<noteq> CHR ''t''" "c \<noteq> CHR ''f''"
      using c(2) by (auto simp: is_digit_def json_ws_def char_code_def)
    ultimately show "pval n (jprint (JNum l) @ r) = Some (JNum l, r)"
      using takeWhile_ends [OF l a(3)] a(1) c by (simp add: pnum_def Let_def)
  qed
next
  case (JArr xs)
  show ?case unfolding reads_def
  proof (intro allI impI)
    fix n r assume a: "json_ok (JArr xs)" "length (jprint (JArr xs)) \<le> n" "ends_value r"
    obtain m where m: "n = Suc m" "length (items (map jprint xs) '']'') \<le> m" using a(2) by (cases n) auto
    show "pval n (jprint (JArr xs) @ r) = Some (JArr xs, r)"
    proof (cases xs)
      case Nil
      with m show ?thesis by simp
    next
      case (Cons x ys)
      then have "json_ok x" using a(1) by simp
      then obtain c cs where "jprint x = c # cs" "\<not> json_ws c" "c \<noteq> CHR '']''" using print_head by blast
      moreover have "pelems m (items (map jprint xs) '']'' @ r) = Some (xs, r)"
        using JArr a(1) m Cons by (intro pelems_print) (auto simp: list_all_iff)
      ultimately show ?thesis using m Cons by simp
    qed
  qed
next
  case (JObj ms)
  show ?case unfolding reads_def
  proof (intro allI impI)
    fix n r assume a: "json_ok (JObj ms)" "length (jprint (JObj ms)) \<le> n" "ends_value r"
    obtain m where m: "n = Suc m" "length (items (map member_text ms) ''}'') \<le> m" using a(2) by (cases n) auto
    show "pval n (jprint (JObj ms) @ r) = Some (JObj ms, r)"
    proof (cases ms)
      case Nil
      with m show ?thesis by simp
    next
      case (Cons x ys)
      have "pmems m (items (map member_text ms) ''}'' @ r) = Some (ms, r)"
        using JObj a(1) m Cons by (intro pmems_print) (fastforce simp: list_all_iff)+
      then show ?thesis using m Cons by (auto simp: jquote_def split: prod.splits)
    qed
  qed
next
  case (JStr t)
  show ?case unfolding reads_def
  proof (intro allI impI)
    fix n r assume "length (jprint (JStr t)) \<le> n"
    then obtain m where "n = Suc m" by (cases n) (auto simp: jquote_def)
    then show "pval n (jprint (JStr t) @ r) = Some (JStr t, r)" by (simp add: jquote_def pstr_quote)
  qed
next
  case (JBool b)
  have "\<not> json_ws (CHR ''t'')" "\<not> json_ws (CHR ''f'')" by (simp_all add: json_ws_def char_code_def)
  then have "pval (Suc m) (jprint (JBool b) @ r) = Some (JBool b, r)" for m r by (simp add: pword_def)
  then show ?case unfolding reads_def by (metis jprint.simps(2) Suc_le_D list.size(4) add_Suc_right)
next
  case JNull
  have "\<not> json_ws (CHR ''n'')" by (simp add: json_ws_def char_code_def)
  then have "pval (Suc m) (jprint JNull @ r) = Some (JNull, r)" for m r by (simp add: pword_def)
  then show ?case unfolding reads_def by (metis jprint.simps(1) Suc_le_D list.size(4) add_Suc_right)
qed

lemma jparse_print:
  assumes "json_ok j"
  shows "jparse (jprint j) = Some j"
  using readsD [OF reads_all assms, of "Suc (length (jprint j))" "[]"]
  by (simp add: jparse_def skip_ws_def ends_value_def del: pval.simps)

text \<open>A decoder reads one value and leaves what follows it.\<close>

definition jdecode :: "string \<Rightarrow> json option" where
  "jdecode s = map_option fst (pval (Suc (length s)) s)"

lemma jdecode_print: "json_ok j \<Longrightarrow> jdecode (jprint j) = Some j"
  using readsD [OF reads_all, of j "Suc (length (jprint j))" "[]"] by (simp add: jdecode_def ends_value_def del: pval.simps)

text \<open>The parser only makes values whose numbers are valid.\<close>

lemma pval_ok:
  assumes e: "\<And>s xs r. pelems n s = Some (xs, r) \<Longrightarrow> list_all json_ok xs"
    and m: "\<And>s ms r. pmems n s = Some (ms, r) \<Longrightarrow> list_all (\<lambda>(k, v). json_ok v) ms"
    and "pval (Suc n) s = Some (j, r)"
  shows "json_ok j"
proof (cases "skip_ws s")
  case Nil
  then show ?thesis using assms(3) by simp
next
  case (Cons c cs)
  note run = assms(3) [unfolded pval.simps Cons list.case]
  consider "c = CHR ''[''" | "c = CHR ''{''" | "c \<noteq> CHR ''[''" "c \<noteq> CHR ''{''" by blast
  then show ?thesis
  proof cases
    case 1
    show ?thesis using run 1 e by (cases "skip_ws cs") (auto split: if_splits)
  next
    case 2
    show ?thesis using run 2 m by (cases "skip_ws cs") (auto split: if_splits)
  next
    case 3
    then show ?thesis using run by (auto simp: pnum_def pword_def Let_def split: if_splits)
  qed
qed

lemma parsed_ok:
  "(\<forall>s j r. pval n s = Some (j, r) \<longrightarrow> json_ok j)
   \<and> (\<forall>s xs r. pelems n s = Some (xs, r) \<longrightarrow> list_all json_ok xs)
   \<and> (\<forall>s ms r. pmems n s = Some (ms, r) \<longrightarrow> list_all (\<lambda>(k, v). json_ok v) ms)"
proof (induction n)
  case (Suc n)
  then have p: "\<And>s j r. pval n s = Some (j, r) \<Longrightarrow> json_ok j"
    and e: "\<And>s xs r. pelems n s = Some (xs, r) \<Longrightarrow> list_all json_ok xs"
    and m: "\<And>s ms r. pmems n s = Some (ms, r) \<Longrightarrow> list_all (\<lambda>(k, v). json_ok v) ms" by blast+
  have "list_all json_ok xs" if "pelems (Suc n) s = Some (xs, r)" for s xs r
    using that p e by (auto split: option.splits prod.splits list.splits if_splits)
  moreover have "list_all (\<lambda>(k, v). json_ok v) ms" if "pmems (Suc n) s = Some (ms, r)" for s ms r
    using that p m by (auto split: option.splits prod.splits list.splits if_splits)
  moreover have "json_ok j" if "pval (Suc n) s = Some (j, r)" for s j r
    using e m that by (rule pval_ok)
  ultimately show ?case by blast
qed simp

lemma jparse_ok:
  assumes "jparse s = Some j"
  shows "json_ok j"
proof -
  obtain r where "pval (Suc (length s)) s = Some (j, r)"
    using assms unfolding jparse_def by (simp split: option.splits prod.splits if_splits del: pval.simps)
  then show ?thesis using parsed_ok by blast
qed

lemma jprint_nonempty [simp]: "json_ok j \<Longrightarrow> jprint j \<noteq> []"
  by (erule print_head) simp

lemma jprint_inject: "json_ok j \<Longrightarrow> json_ok k \<Longrightarrow> jprint j = jprint k \<longleftrightarrow> j = k"
  by (metis jparse_print option.inject)

lemma nat_digits_head:
  assumes "0 < n"
  obtains c cs where "nat_digits n = c # cs" "is_digit c" "c \<noteq> CHR ''0''"
  using assms
proof (induction n arbitrary: thesis rule: nat_digits.induct)
  case (1 n)
  show ?case
  proof (cases "n < 10")
    case True
    then have "nat_digits n = [digit_char n]" by (subst nat_digits.simps) simp
    moreover have "digit_char n \<noteq> CHR ''0''" using True 1(3) of_char_digit [of n] by auto
    ultimately show ?thesis using True 1(2) by simp
  next
    case False
    then have "0 < n div 10" by simp
    then obtain c cs where "nat_digits (n div 10) = c # cs" "is_digit c" "c \<noteq> CHR ''0''" using 1(1) [OF False] by blast
    moreover have "nat_digits n = nat_digits (n div 10) @ [digit_char (n mod 10)]"
      using False by (subst nat_digits.simps) simp
    ultimately show ?thesis using 1(2) by simp
  qed
qed

lemma digits_rest: "list_all is_digit cs \<Longrightarrow> dropWhile is_digit cs = []"
  by (induction cs) auto

lemma valid_num_itoa [simp]: "valid_num (itoa n)"
proof -
  have pos: "num_int (nat_digits m) = Some []" if m: "0 < m" for m
  proof -
    obtain c cs where c: "nat_digits m = c # cs" "is_digit c" "c \<noteq> CHR ''0''" using nat_digits_head [OF m] .
    have "list_all is_digit cs" using nat_digits_correct [of m] c by simp
    then show ?thesis using c digits_rest by (simp add: num_int_def)
  qed
  have z: "nat_digits 0 = ''0''" by code_simp
  have e: "num_frac [] = Some []" "num_exp [] = Some []" by (simp_all add: num_frac_def num_exp_def)
  show ?thesis
  proof (cases "n < 0")
    case True
    then show ?thesis using pos [of "nat (- n)"] e by (simp add: valid_num_def itoa_def)
  next
    case False
    show ?thesis
    proof (cases "n = 0")
      case True
      then show ?thesis using e by (simp add: valid_num_def itoa_def z num_int_def)
    next
      case n: False
      have m: "0 < nat n" using False n by simp
      obtain c cs where c: "nat_digits (nat n) = c # cs" "is_digit c" using nat_digits_head [OF m] .
      then have "c \<noteq> CHR ''-''" by (auto simp: is_digit_def)
      then show ?thesis using pos [OF m] e False c by (simp add: valid_num_def itoa_def)
    qed
  qed
qed

section \<open>Decoding into Go values\<close>

text \<open>
  A struct is decoded from an object, or left alone by \<open>null\<close>; its fields are found by their name
  without regard to case, the last one winning. A missing field and \<open>null\<close> leave the zero value.
  Numbers keep their decimal value.
\<close>

type_synonym members = "(string \<times> json) list"

definition obj_members :: "json \<Rightarrow> members option" where
  "obj_members j = (case j of JObj ms \<Rightarrow> Some ms | JNull \<Rightarrow> Some [] | _ \<Rightarrow> None)"

definition fold_key :: "string \<Rightarrow> string" where
  "fold_key k = to_lower k"

definition field :: "members \<Rightarrow> string \<Rightarrow> json option" where
  "field ms k = map_of (rev (map (\<lambda>(n, v). (fold_key n, v)) ms)) (fold_key k)"

definition get_string :: "json option \<Rightarrow> string option" where
  "get_string v = (case v of None \<Rightarrow> Some [] | Some JNull \<Rightarrow> Some [] | Some (JStr s) \<Rightarrow> Some s | _ \<Rightarrow> None)"

definition get_int :: "json option \<Rightarrow> int option" where
  "get_int v = (case v of None \<Rightarrow> Some 0 | Some JNull \<Rightarrow> Some 0 | Some (JNum l) \<Rightarrow> parse_int l | _ \<Rightarrow> None)"

definition get_bool :: "json option \<Rightarrow> bool option" where
  "get_bool v = (case v of None \<Rightarrow> Some False | Some JNull \<Rightarrow> Some False | Some (JBool b) \<Rightarrow> Some b | _ \<Rightarrow> None)"

definition get_raw :: "json option \<Rightarrow> string" where
  "get_raw v = (case v of None \<Rightarrow> [] | Some j \<Rightarrow> jprint j)"

definition get_ptr :: "(json \<Rightarrow> 'a option) \<Rightarrow> json option \<Rightarrow> 'a option option" where
  "get_ptr f v = (case v of None \<Rightarrow> Some None | Some JNull \<Rightarrow> Some None | Some j \<Rightarrow> map_option Some (f j))"

definition get_list :: "(json \<Rightarrow> 'a option) \<Rightarrow> json option \<Rightarrow> 'a list option" where
  "get_list f v =
     (case v of None \<Rightarrow> Some [] | Some JNull \<Rightarrow> Some [] | Some (JArr xs) \<Rightarrow> those (map f xs) | _ \<Rightarrow> None)"

lemmas get_defs = get_string_def get_int_def get_bool_def get_raw_def get_ptr_def get_list_def

lemma those_map: "(\<And>x. x \<in> set xs \<Longrightarrow> f (g x) = Some (h x)) \<Longrightarrow> those (map f (map g xs)) = Some (map h xs)"
  by (induction xs) auto

section \<open>Encoding Go values\<close>

text \<open>The tag \<open>omitempty\<close>, and raw text, which \<open>Marshal\<close> refuses when it is not JSON.\<close>

definition omit_str :: "string \<Rightarrow> string \<Rightarrow> members" where
  "omit_str k s = (if s = [] then [] else [(k, JStr s)])"

definition omit_list :: "string \<Rightarrow> json list \<Rightarrow> members" where
  "omit_list k xs = (if xs = [] then [] else [(k, JArr xs)])"

definition omit_raw :: "string \<Rightarrow> string \<Rightarrow> members option" where
  "omit_raw k r = (if r = [] then Some [] else map_option (\<lambda>j. [(k, j)]) (jparse r))"

definition jint :: "int \<Rightarrow> json" where "jint n = JNum (itoa n)"

text \<open>Raw text as the printer writes it.\<close>

definition raw_ok :: "string \<Rightarrow> bool" where
  "raw_ok r \<longleftrightarrow> r = [] \<or> (case jparse r of None \<Rightarrow> False | Some j \<Rightarrow> json_ok j \<and> jprint j = r)"

lemma raw_okE:
  assumes "raw_ok r"
  obtains (none) "r = []" | (some) j where "jparse r = Some j" "json_ok j" "r = jprint j" "r \<noteq> []"
  using assms by (cases "r = []") (auto simp: raw_ok_def split: option.splits)

lemma raw_ok_print: "json_ok j \<Longrightarrow> raw_ok (jprint j)"
  by (simp add: raw_ok_def jparse_print)

section \<open>Codecs\<close>

lemma field_Nil [simp]: "field [] k = None"
  by (simp add: field_def)

definition or_else :: "'a option \<Rightarrow> 'a option \<Rightarrow> 'a option" where
  "or_else a b = (case a of Some v \<Rightarrow> Some v | None \<Rightarrow> b)"

lemma or_else_simps [simp]: "or_else None b = b" "or_else (Some v) b = Some v" "or_else a None = a"
  by (simp_all add: or_else_def split: option.split)

lemma field_append [simp]: "field (xs @ ys) k = or_else (field ys k) (field xs k)"
  unfolding field_def or_else_def by (simp add: map_add_def)

lemma field_one: "field [(n, v)] k = (if fold_key n = fold_key k then Some v else None)"
  by (simp add: field_def)

lemma field_Cons: "field ((n, v) # ms) k = or_else (field ms k) (if fold_key n = fold_key k then Some v else None)"
  using field_append [of "[(n, v)]" ms k] by (simp only: field_one append_Cons append_Nil)

lemma field_omit_str: "field (omit_str n s) k = (if s \<noteq> [] \<and> fold_key n = fold_key k then Some (JStr s) else None)"
  by (simp add: omit_str_def field_one)

lemma field_omit_list: "field (omit_list n xs) k = (if xs \<noteq> [] \<and> fold_key n = fold_key k then Some (JArr xs) else None)"
  by (simp add: omit_list_def field_one)

lemmas field_simps' = field_Cons field_omit_str field_omit_list

lemma get_omitted [simp]:
  "get_string (if s \<noteq> [] \<and> b then Some (JStr s) else None) = Some (if b then s else [])"
  "get_list f (if xs \<noteq> [] \<and> b then Some (JArr xs) else None) = (if b then those (map f xs) else Some [])"
  "get_string (Some (JStr s)) = Some s" "get_string None = Some []" "get_int None = Some 0" "get_raw None = []"
  "get_list f None = Some []" "get_list f (Some (JArr xs)) = those (map f xs)" "get_ptr g None = Some None" "get_bool None = Some False"
  by (auto simp: get_defs)

lemma get_jint [simp]: "in_int64 n \<Longrightarrow> get_int (Some (jint n)) = Some n"
  by (simp add: get_int_def jint_def)

lemma json_ok_jint [simp]: "json_ok (jint n)"
  by (simp add: jint_def)

lemma members_ok [simp]:
  "list_all (\<lambda>(k, v). json_ok v) (omit_str n s)"
  "list_all json_ok xs \<Longrightarrow> list_all (\<lambda>(k, v). json_ok v) (omit_list n xs)"
  by (auto simp: omit_str_def omit_list_def)

text \<open>An encoder and the decoder that reads its output: \<open>view\<close> is what survives.\<close>

locale json_codec =
  fixes enc :: "'a \<Rightarrow> json option" and dec :: "json \<Rightarrow> 'b option" and ok :: "'a \<Rightarrow> bool" and view :: "'a \<Rightarrow> 'b"
  assumes code: "ok x \<Longrightarrow> \<exists>j. enc x = Some j \<and> json_ok j \<and> dec j = Some (view x)"
begin

lemma code_list:
  assumes "list_all ok xs"
  obtains js where "those (map enc xs) = Some js" "list_all json_ok js" "those (map dec js) = Some (map view xs)"
    "js = [] \<longleftrightarrow> xs = []"
proof -
  have "\<exists>js. those (map enc xs) = Some js \<and> list_all json_ok js \<and> those (map dec js) = Some (map view xs) \<and> (js = [] \<longleftrightarrow> xs = [])"
    using assms
  proof (induction xs)
    case (Cons x xs)
    then obtain js where "those (map enc xs) = Some js" "list_all json_ok js" "those (map dec js) = Some (map view xs)" by auto
    moreover obtain j where "enc x = Some j" "json_ok j" "dec j = Some (view x)" using code [of x] Cons.prems by auto
    ultimately show ?case by (intro exI [of _ "j # js"]) simp
  qed simp
  then show ?thesis using that by blast
qed

end

lemma omit_raw_code:
  assumes "raw_ok r"
  obtains x where "omit_raw k r = Some x" "list_all (\<lambda>(k, v). json_ok v) x" "get_raw (field x k) = r"
    "\<And>k'. fold_key k' \<noteq> fold_key k \<Longrightarrow> field x k' = None" "x = [] \<longleftrightarrow> r = []"
  using assms
proof (cases rule: raw_okE)
  case none
  then show ?thesis using that [of "[]"] by (simp add: omit_raw_def)
next
  case (some j)
  then show ?thesis using that [of "[(k, j)]"] by (auto simp: omit_raw_def field_one get_raw_def)
qed

end
