(* ===== verification/OpenAICodec.thy ===== *)
theory OpenAICodec
  imports StreamDecode Json "HOL-Library.List_Lexorder" "HOL-Library.Char_ord"
begin

text \<open>
  The OpenAI wire format (\<open>internal/openai\<close>: \<open>codec.go\<close>, \<open>client.go\<close>, \<open>stream.go\<close>) on JSON
  documents: requests from clients and to upstreams, responses and stream chunks both ways. The
  decoders that \<open>llm.Message\<close> and \<open>llm.FunctionCall\<close> ask of \<open>encoding/json\<close> are given here. How a
  float is written is a parameter; the map of extra fields is an association list.
\<close>

section \<open>Shared types\<close>

definition json_functionCall :: "functionCall \<Rightarrow> json" where
  "json_functionCall f = JObj [(''name'', JStr (fc_Name f)), (''arguments'', JStr (fc_Arguments f))]"

definition function_of_text :: function_decoders where
  "function_of_text =
     \<lparr>dec_function = (\<lambda>b. do {
        j \<leftarrow> jparse b; ms \<leftarrow> obj_members j; n \<leftarrow> get_string (field ms ''name'');
        Some (n, get_raw (field ms ''arguments''))}),
      dec_string = (\<lambda>b. do {j \<leftarrow> jparse b; get_string (Some j)})\<rparr>"

definition dec_functionCall :: "json option \<Rightarrow> functionCall option" where
  "dec_functionCall v =
     (case v of
        None \<Rightarrow> Some \<lparr>fc_Name = [], fc_Arguments = []\<rparr>
      | Some j \<Rightarrow> functionCall_UnmarshalJSON function_of_text (jprint j))"

definition json_toolCall :: "toolCall \<Rightarrow> json option" where
  "json_toolCall t = do {
     x \<leftarrow> omit_raw ''extra_content'' (tc_ExtraContent t);
     Some (JObj ([(''id'', JStr (tc_ID t)), (''type'', JStr (tc_Type t)), (''function'', json_functionCall (tc_Function t))] @ x))}"

definition dec_toolCall :: "json \<Rightarrow> toolCall option" where
  "dec_toolCall j = do {
     ms \<leftarrow> obj_members j; i \<leftarrow> get_string (field ms ''id''); t \<leftarrow> get_string (field ms ''type'');
     f \<leftarrow> dec_functionCall (field ms ''function'');
     Some \<lparr>tc_ID = i, tc_Type = t, tc_Function = f, tc_ExtraContent = get_raw (field ms ''extra_content'')\<rparr>}"

definition dec_toolCallDelta :: "json \<Rightarrow> toolCallDelta option" where
  "dec_toolCallDelta j = do {
     ms \<leftarrow> obj_members j; x \<leftarrow> get_int (field ms ''index''); i \<leftarrow> get_string (field ms ''id'');
     t \<leftarrow> get_string (field ms ''type''); f \<leftarrow> dec_functionCall (field ms ''function'');
     Some \<lparr>td_Index = x, td_ID = i, td_Type = t, td_Function = f, td_ExtraContent = get_raw (field ms ''extra_content'')\<rparr>}"

definition json_usage :: "usage \<Rightarrow> json" where
  "json_usage u =
     (let w = usage_MarshalJSON u in
      JObj ([(''prompt_tokens'', jint (uw_PromptTokens w)), (''completion_tokens'', jint (uw_CompletionTokens w)),
             (''total_tokens'', jint (uw_TotalTokens w))]
        @ (case uw_Details w of
             None \<Rightarrow> []
           | Some r \<Rightarrow> [(''completion_tokens_details'', JObj [(''reasoning_tokens'', jint r)])])))"

definition dec_usage :: "json \<Rightarrow> usage option" where
  "dec_usage j =
     (if j = JNull then Some zero_usage
      else do {
        ms \<leftarrow> obj_members j; p \<leftarrow> get_int (field ms ''prompt_tokens''); c \<leftarrow> get_int (field ms ''completion_tokens'');
        t \<leftarrow> get_int (field ms ''total_tokens'');
        d \<leftarrow> get_ptr (\<lambda>v. do {ds \<leftarrow> obj_members v; get_int (field ds ''reasoning_tokens'')})
               (field ms ''completion_tokens_details'');
        Some (usage_UnmarshalJSON zero_usage
          (Some \<lparr>uw_PromptTokens = p, uw_CompletionTokens = c, uw_TotalTokens = t, uw_Details = d\<rparr>))})"

section \<open>Messages\<close>

definition dec_part :: "json \<Rightarrow> contentPart option" where
  "dec_part j = do {
     ms \<leftarrow> obj_members j; t \<leftarrow> get_string (field ms ''type''); x \<leftarrow> get_string (field ms ''text'');
     u \<leftarrow> get_ptr (\<lambda>v. do {ds \<leftarrow> obj_members v; url \<leftarrow> get_string (field ds ''url''); d \<leftarrow> get_string (field ds ''detail'');
                        Some (url, d)}) (field ms ''image_url'');
     Some \<lparr>cp_Type = t, cp_Text = x, cp_ImageURL = u\<rparr>}"

definition message_fields :: "members \<Rightarrow> (string \<times> string \<times> toolCall list \<times> string) option" where
  "message_fields ms = do {
     r \<leftarrow> get_string (field ms ''role''); n \<leftarrow> get_string (field ms ''name'');
     ts \<leftarrow> get_list dec_toolCall (field ms ''tool_calls''); i \<leftarrow> get_string (field ms ''tool_call_id'');
     Some (r, n, ts, i)}"

definition message_of_text :: message_decoders where
  "message_of_text =
     \<lparr>dec_direct = (\<lambda>b. do {
        j \<leftarrow> jparse b; ms \<leftarrow> obj_members j; c \<leftarrow> get_string (field ms ''content''); (r, n, ts, i) \<leftarrow> message_fields ms;
        Some (zero_message\<lparr>m_Role := r, m_Content := c, m_Name := n, m_ToolCalls := ts, m_ToolCallID := i\<rparr>)}),
      dec_wire = (\<lambda>b. do {
        j \<leftarrow> jparse b; ms \<leftarrow> obj_members j; (r, n, ts, i) \<leftarrow> message_fields ms;
        Some \<lparr>mw_Role = r, mw_Content = get_raw (field ms ''content''), mw_Name = n, mw_ToolCalls = ts, mw_ToolCallID = i\<rparr>}),
      dec_parts = (\<lambda>b. do {j \<leftarrow> jparse b; get_list dec_part (Some j)})\<rparr>"

definition dec_message :: "json \<Rightarrow> message option" where
  "dec_message j = message_UnmarshalJSON message_of_text (jprint j)"

text \<open>The generic encoding of a message, which never carries its images.\<close>

definition json_message :: "message \<Rightarrow> json option" where
  "json_message m = do {
     ts \<leftarrow> those (map json_toolCall (m_ToolCalls m));
     Some (JObj ((''role'', JStr (m_Role m)) # omit_str ''content'' (m_Content m) @ omit_str ''name'' (m_Name m)
       @ omit_list ''tool_calls'' ts @ omit_str ''tool_call_id'' (m_ToolCallID m)))}"

text \<open>What a message to an upstream carries as content: nothing, a string, or parts.\<close>

datatype out_content = NoContent | TextContent string | PartsContent "json list"

record openaiOutMessage =
  om_Role :: string
  om_Content :: out_content
  om_Name :: string
  om_ToolCalls :: "toolCall list"
  om_ToolCallID :: string

definition outTextPart :: "string \<Rightarrow> json" where
  "outTextPart t = JObj [(''type'', JStr ''text''), (''text'', JStr t)]"

definition outImagePart :: "image \<Rightarrow> json" where
  "outImagePart i = JObj [(''type'', JStr ''image_url''),
     (''image_url'', JObj ((''url'', JStr (im_URL i)) # omit_str ''detail'' (im_Detail i)))]"

definition toOpenAIOutMessage :: "message \<Rightarrow> openaiOutMessage" where
  "toOpenAIOutMessage m =
     (let out = \<lparr>om_Role = m_Role m, om_Content = NoContent, om_Name = m_Name m, om_ToolCalls = m_ToolCalls m,
                 om_ToolCallID = m_ToolCallID m\<rparr>;
          images = (if m_Role m = ''tool'' \<and> m_Images m \<noteq> [] then [] else m_Images m)
      in if images = [] then
           (if m_Content m \<noteq> [] \<or> m_Role m = ''tool'' \<or> (m_Role m = ''assistant'' \<and> m_ToolCalls m = [])
            then out\<lparr>om_Content := TextContent (m_Content m)\<rparr> else out)
         else out\<lparr>om_Content := PartsContent ((if m_Content m \<noteq> [] then [outTextPart (m_Content m)] else [])
                     @ map outImagePart images)\<rparr>)"

definition json_content :: "out_content \<Rightarrow> members" where
  "json_content c =
     (case c of NoContent \<Rightarrow> [] | TextContent t \<Rightarrow> [(''content'', JStr t)] | PartsContent ps \<Rightarrow> [(''content'', JArr ps)])"

definition json_outMessage :: "openaiOutMessage \<Rightarrow> json option" where
  "json_outMessage m = do {
     ts \<leftarrow> those (map json_toolCall (om_ToolCalls m));
     Some (JObj ((''role'', JStr (om_Role m)) # json_content (om_Content m) @ omit_str ''name'' (om_Name m)
       @ omit_list ''tool_calls'' ts @ omit_str ''tool_call_id'' (om_ToolCallID m)))}"

section \<open>Requests\<close>

definition json_tool :: "tool \<Rightarrow> json option" where
  "json_tool t = (let f = tl_Function t in do {
     ps \<leftarrow> omit_raw ''parameters'' (fd_Parameters f);
     Some (JObj [(''type'', JStr (tl_Type t)),
       (''function'', JObj ((''name'', JStr (fd_Name f)) # omit_str ''description'' (fd_Description f) @ ps))])})"

definition dec_tool :: "json \<Rightarrow> tool option" where
  "dec_tool j = do {
     ms \<leftarrow> obj_members j; t \<leftarrow> get_string (field ms ''type'');
     fs \<leftarrow> (case field ms ''function'' of None \<Rightarrow> Some [] | Some v \<Rightarrow> obj_members v);
     n \<leftarrow> get_string (field fs ''name''); d \<leftarrow> get_string (field fs ''description'');
     Some \<lparr>tl_Type = t, tl_Function = \<lparr>fd_Name = n, fd_Description = d, fd_Parameters = get_raw (field fs ''parameters'')\<rparr>\<rparr>}"

text \<open>The decimal value of a number, and how a float is written.\<close>

definition num_value :: "string \<Rightarrow> rat" where
  "num_value s =
     (let neg = (s \<noteq> [] \<and> hd s = CHR ''-''); t = (if neg then tl s else s);
          ip = takeWhile is_digit t; r = dropWhile is_digit t;
          fp = (if r \<noteq> [] \<and> hd r = CHR ''.'' then takeWhile is_digit (tl r) else []);
          r2 = (if r \<noteq> [] \<and> hd r = CHR ''.'' then dropWhile is_digit (tl r) else r);
          e = (if r2 \<noteq> [] then case parse_int (tl r2) of Some n \<Rightarrow> n | None \<Rightarrow> 0 else 0);
          v = of_nat (digits_val (ip @ fp)) / 10 ^ length fp
      in (if neg then -1 else 1) * v * (if 0 \<le> e then 10 ^ nat e else 1 / 10 ^ nat (- e)))"

definition get_float :: "json \<Rightarrow> rat option" where
  "get_float j = (case j of JNum l \<Rightarrow> Some (num_value l) | _ \<Rightarrow> None)"

definition ownedRequestKeys :: "string list" where
  "ownedRequestKeys = [''model'', ''messages'', ''tools'', ''tool_choice'', ''temperature'', ''max_tokens'', ''stream'',
     ''parallel_tool_calls'', ''stream_options'', ''n'']"

record chatRequestWire =
  rw_Model :: string
  rw_Messages :: "message list"
  rw_Tools :: "tool list"
  rw_ToolChoice :: string
  rw_ParallelToolCalls :: "bool option"
  rw_Temperature :: "rat option"
  rw_MaxTokens :: "int option"
  rw_Stream :: bool
  rw_StreamOptions :: "bool option"

definition dec_chatRequestWire :: "json \<Rightarrow> chatRequestWire option" where
  "dec_chatRequestWire j = do {
     ms \<leftarrow> obj_members j; model \<leftarrow> get_string (field ms ''model''); msgs \<leftarrow> get_list dec_message (field ms ''messages'');
     tools \<leftarrow> get_list dec_tool (field ms ''tools'');
     par \<leftarrow> get_ptr (\<lambda>v. get_bool (Some v)) (field ms ''parallel_tool_calls'');
     temp \<leftarrow> get_ptr get_float (field ms ''temperature''); mt \<leftarrow> get_ptr (\<lambda>v. get_int (Some v)) (field ms ''max_tokens'');
     st \<leftarrow> get_bool (field ms ''stream'');
     so \<leftarrow> get_ptr (\<lambda>v. do {os \<leftarrow> obj_members v; get_bool (field os ''include_usage'')}) (field ms ''stream_options'');
     Some \<lparr>rw_Model = model, rw_Messages = msgs, rw_Tools = tools, rw_ToolChoice = get_raw (field ms ''tool_choice''),
       rw_ParallelToolCalls = par, rw_Temperature = temp, rw_MaxTokens = mt, rw_Stream = st, rw_StreamOptions = so\<rparr>}"

text \<open>The top-level object as a map: names are exact here, the last one of a name wins.\<close>

fun last_wins :: "(string \<times> 'a) list \<Rightarrow> (string \<times> 'a) list" where
  "last_wins [] = []"
| "last_wins ((k, v) # ms) = (if k \<in> fst ` set ms then last_wins ms else (k, v) # last_wins ms)"

definition single_choice :: "members \<Rightarrow> string option" where
  "single_choice raw =
     (case map_of raw ''n'' of
        None \<Rightarrow> None
      | Some JNull \<Rightarrow> None
      | Some (JNum l) \<Rightarrow> if num_value l \<noteq> 1 then Some ''n is not supported (single choice only)'' else None
      | Some _ \<Rightarrow> Some ''n must be a number'')"

definition request_of_wire :: "chatRequestWire \<Rightarrow> members \<Rightarrow> chatRequest" where
  "request_of_wire w raw =
     \<lparr>cr_Model = rw_Model w, cr_Messages = rw_Messages w, cr_Tools = rw_Tools w, cr_ToolChoice = rw_ToolChoice w,
      cr_ParallelToolCalls = rw_ParallelToolCalls w, cr_Temperature = rw_Temperature w, cr_MaxTokens = rw_MaxTokens w,
      cr_Stream = rw_Stream w, cr_IncludeStreamUsage = (rw_StreamOptions w = Some True),
      cr_Extra = map (\<lambda>(k, v). (k, jprint v)) (filter (\<lambda>(k, v). k \<notin> set ownedRequestKeys) raw), cr_ThinkingOff = False\<rparr>"

definition DecodeChatRequest :: "string \<Rightarrow> string + chatRequest" where
  "DecodeChatRequest body =
     (case jparse body of
        None \<Rightarrow> Inl ''invalid JSON''
      | Some j \<Rightarrow>
          (case dec_chatRequestWire j of
             None \<Rightarrow> Inl ''cannot unmarshal''
           | Some w \<Rightarrow>
               if rw_Model w = [] then Inl ''model is required''
               else if rw_Messages w = [] then Inl ''messages is required''
               else
                 (case obj_members j of
                    None \<Rightarrow> Inl ''cannot unmarshal''
                  | Some ms \<Rightarrow>
                      (let raw = last_wins ms in
                       case single_choice raw of Some err \<Rightarrow> Inl err | None \<Rightarrow> Inr (request_of_wire w raw)))))"

definition omit_opt :: "string \<Rightarrow> json option \<Rightarrow> members" where
  "omit_opt k v = (case v of None \<Rightarrow> [] | Some j \<Rightarrow> [(k, j)])"

definition upstreamChatRequest :: "(rat \<Rightarrow> string) \<Rightarrow> chatRequest \<Rightarrow> bool \<Rightarrow> members option" where
  "upstreamChatRequest ff req stream = do {
     msgs \<leftarrow> those (map (\<lambda>m. json_outMessage (toOpenAIOutMessage m)) (cr_Messages req));
     tools \<leftarrow> those (map json_tool (cr_Tools req)); tc \<leftarrow> omit_raw ''tool_choice'' (cr_ToolChoice req);
     Some ([(''model'', JStr (cr_Model req)), (''messages'', JArr msgs)] @ omit_list ''tools'' tools @ tc
       @ omit_opt ''parallel_tool_calls'' (map_option JBool (cr_ParallelToolCalls req))
       @ omit_opt ''temperature'' (map_option (\<lambda>x. JNum (ff x)) (cr_Temperature req))
       @ omit_opt ''max_tokens'' (map_option jint (cr_MaxTokens req))
       @ (if stream then [(''stream'', JBool True), (''stream_options'', JObj [(''include_usage'', JBool True)])] else []))}"

text \<open>Maps are written with their keys in order.\<close>

definition merge_extra :: "members \<Rightarrow> members \<Rightarrow> members" where
  "merge_extra ms xs = sort_key fst (filter (\<lambda>(k, v). k \<notin> fst ` set xs) ms @ xs)"

definition EncodeChatRequest :: "(rat \<Rightarrow> string) \<Rightarrow> chatRequest \<Rightarrow> bool \<Rightarrow> string option" where
  "EncodeChatRequest ff req stream = do {
     ms \<leftarrow> upstreamChatRequest ff req stream;
     if cr_Extra req = [] then Some (jprint (JObj ms))
     else do {
       xs \<leftarrow> those (map (\<lambda>(k, r). map_option (Pair k) (jparse r)) (cr_Extra req));
       Some (jprint (JObj (merge_extra ms xs)))}}"

section \<open>Responses\<close>

definition json_choice :: "choice \<Rightarrow> json option" where
  "json_choice c = do {
     m \<leftarrow> json_message (ch_Message c);
     Some (JObj [(''index'', jint (ch_Index c)), (''message'', m), (''finish_reason'', JStr (ch_FinishReason c))])}"

definition MarshalChatResponse :: "chatResponse \<Rightarrow> string option" where
  "MarshalChatResponse r = do {
     cs \<leftarrow> those (map json_choice (rs_Choices r));
     Some (jprint (JObj [(''id'', JStr (rs_ID r)), (''object'', JStr ''chat.completion''), (''created'', jint (rs_Created r)),
       (''model'', JStr (rs_Model r)), (''choices'', if cs = [] then JNull else JArr cs), (''usage'', json_usage (rs_Usage r))]))}"

definition dec_choice :: "json \<Rightarrow> choice option" where
  "dec_choice j = do {
     ms \<leftarrow> obj_members j; i \<leftarrow> get_int (field ms ''index'');
     m \<leftarrow> (case field ms ''message'' of None \<Rightarrow> Some zero_message | Some v \<Rightarrow> dec_message v);
     f \<leftarrow> get_string (field ms ''finish_reason'');
     Some \<lparr>ch_Index = i, ch_Message = m, ch_FinishReason = f\<rparr>}"

definition DecodeChatResponse :: "string \<Rightarrow> chatResponse option" where
  "DecodeChatResponse body = do {
     j \<leftarrow> jdecode body; ms \<leftarrow> obj_members j; i \<leftarrow> get_string (field ms ''id''); m \<leftarrow> get_string (field ms ''model'');
     c \<leftarrow> get_int (field ms ''created''); cs \<leftarrow> get_list dec_choice (field ms ''choices'');
     u \<leftarrow> (case field ms ''usage'' of None \<Rightarrow> Some zero_usage | Some v \<Rightarrow> dec_usage v);
     Some \<lparr>rs_ID = i, rs_Model = m, rs_Created = c, rs_Choices = cs, rs_Usage = u\<rparr>}"

section \<open>Stream chunks\<close>

record streamMeta =
  sm_ID :: string
  sm_Model :: string
  sm_Created :: int

definition json_streamToolCall :: "toolCallDelta \<Rightarrow> json option" where
  "json_streamToolCall t = do {
     x \<leftarrow> omit_raw ''extra_content'' (td_ExtraContent t);
     Some (JObj ((''index'', jint (td_Index t)) # omit_str ''id'' (td_ID t) @ omit_str ''type'' (td_Type t)
       @ [(''function'', JObj (omit_str ''name'' (fc_Name (td_Function t)) @ omit_str ''arguments'' (fc_Arguments (td_Function t))))]
       @ x))}"

definition stream_head :: "streamMeta \<Rightarrow> members" where
  "stream_head meta = [(''id'', JStr (sm_ID meta)), (''object'', JStr ''chat.completion.chunk''),
     (''created'', jint (sm_Created meta)), (''model'', JStr (sm_Model meta))]"

definition MarshalStreamChunk :: "streamMeta \<Rightarrow> streamChunk \<Rightarrow> string option" where
  "MarshalStreamChunk meta c =
     (case sc_Usage c of
        Some u \<Rightarrow> Some (jprint (JObj (stream_head meta @ [(''choices'', JArr []), (''usage'', json_usage u)])))
      | None \<Rightarrow> do {
          ts \<leftarrow> those (map json_streamToolCall (sc_ToolCalls c));
          Some (jprint (JObj (stream_head meta @ [(''choices'', JArr [JObj [(''index'', jint 0),
            (''delta'', JObj (omit_str ''role'' (sc_Role c) @ omit_str ''content'' (sc_Content c) @ omit_list ''tool_calls'' ts)),
            (''finish_reason'', if sc_FinishReason c \<noteq> [] then JStr (sc_FinishReason c) else JNull)]])])))})"

definition dec_upstreamDelta :: "json \<Rightarrow> upstreamDelta option" where
  "dec_upstreamDelta j = do {
     ms \<leftarrow> obj_members j;
     ds \<leftarrow> (case field ms ''delta'' of None \<Rightarrow> Some [] | Some v \<Rightarrow> obj_members v);
     r \<leftarrow> get_string (field ds ''role''); c \<leftarrow> get_string (field ds ''content'');
     ts \<leftarrow> get_list dec_toolCallDelta (field ds ''tool_calls'');
     f \<leftarrow> get_ptr (\<lambda>v. get_string (Some v)) (field ms ''finish_reason'');
     Some \<lparr>ud_Role = r, ud_Content = c, ud_ToolCalls = ts, ud_FinishReason = f\<rparr>}"

definition dec_upstreamChunk :: "string \<Rightarrow> upstreamChunk option" where
  "dec_upstreamChunk data = do {
     j \<leftarrow> jparse data; ms \<leftarrow> obj_members j; cs \<leftarrow> get_list dec_upstreamDelta (field ms ''choices'');
     u \<leftarrow> get_ptr dec_usage (field ms ''usage'');
     Some \<lparr>uc_Choices = cs, uc_Usage = u\<rparr>}"

section \<open>What survives the wire\<close>

lemma lower_keys [simp]:
  "fold_key ''name'' = ''name''" "fold_key ''arguments'' = ''arguments''" "fold_key ''id'' = ''id''" "fold_key ''type'' = ''type''"
  "fold_key ''function'' = ''function''" "fold_key ''extra_content'' = ''extra_content''" "fold_key ''index'' = ''index''"
  "fold_key ''prompt_tokens'' = ''prompt_tokens''" "fold_key ''completion_tokens'' = ''completion_tokens''"
  "fold_key ''total_tokens'' = ''total_tokens''" "fold_key ''completion_tokens_details'' = ''completion_tokens_details''"
  "fold_key ''reasoning_tokens'' = ''reasoning_tokens''" "fold_key ''text'' = ''text''" "fold_key ''image_url'' = ''image_url''"
  "fold_key ''url'' = ''url''" "fold_key ''detail'' = ''detail''" "fold_key ''role'' = ''role''" "fold_key ''content'' = ''content''"
  "fold_key ''tool_calls'' = ''tool_calls''" "fold_key ''tool_call_id'' = ''tool_call_id''" "fold_key ''parameters'' = ''parameters''"
  "fold_key ''description'' = ''description''" "fold_key ''model'' = ''model''" "fold_key ''messages'' = ''messages''"
  "fold_key ''tools'' = ''tools''" "fold_key ''tool_choice'' = ''tool_choice''" "fold_key ''temperature'' = ''temperature''"
  "fold_key ''max_tokens'' = ''max_tokens''" "fold_key ''stream'' = ''stream''" "fold_key ''parallel_tool_calls'' = ''parallel_tool_calls''"
  "fold_key ''stream_options'' = ''stream_options''" "fold_key ''include_usage'' = ''include_usage''" "fold_key ''n'' = ''n''"
  "fold_key ''object'' = ''object''" "fold_key ''created'' = ''created''" "fold_key ''choices'' = ''choices''" "fold_key ''usage'' = ''usage''"
  "fold_key ''message'' = ''message''" "fold_key ''finish_reason'' = ''finish_reason''" "fold_key ''delta'' = ''delta''"
  by code_simp+

lemma obj_members_JObj [simp]: "obj_members (JObj ms) = Some ms"
  by (simp add: obj_members_def)

lemma field_ok: "json_ok j \<Longrightarrow> obj_members j = Some ms \<Longrightarrow> field ms k = Some v \<Longrightarrow> json_ok v"
  by (auto simp: obj_members_def field_def list_all_iff dest!: map_of_SomeD split: json.splits)

text \<open>The custom decoders, on values.\<close>

definition call_arguments :: "json option \<Rightarrow> string" where
  "call_arguments v = (case v of None \<Rightarrow> [] | Some JNull \<Rightarrow> [] | Some (JStr s) \<Rightarrow> s | Some j \<Rightarrow> jprint j)"

lemma jprint_null: "json_ok j \<Longrightarrow> jprint j = ''null'' \<longleftrightarrow> j = JNull"
  using jprint_inject [of j JNull] by simp

lemma dec_functionCall_value:
  assumes "json_ok j"
  shows "dec_functionCall (Some j) = do {ms \<leftarrow> obj_members j; n \<leftarrow> get_string (field ms ''name'');
     Some \<lparr>fc_Name = n, fc_Arguments = call_arguments (field ms ''arguments'')\<rparr>}"
proof (cases "obj_members j")
  case None
  then show ?thesis
    by (simp add: dec_functionCall_def functionCall_UnmarshalJSON_def function_of_text_def jparse_print [OF assms])
next
  case (Some ms)
  have "(if get_raw (field ms ''arguments'') = [] \<or> get_raw (field ms ''arguments'') = ''null'' then []
       else case dec_string function_of_text (get_raw (field ms ''arguments'')) of Some s \<Rightarrow> s | None \<Rightarrow> get_raw (field ms ''arguments''))
     = call_arguments (field ms ''arguments'')"
  proof (cases "field ms ''arguments''")
    case None
    then show ?thesis by (simp add: call_arguments_def)
  next
    case v: (Some v)
    have ok: "json_ok v" by (rule field_ok [OF assms Some v])
    show ?thesis using v ok
      by (simp add: get_raw_def function_of_text_def jprint_null jparse_print [OF ok] get_string_def call_arguments_def
          del: jprint.simps split: json.split)
  qed
  note args = this
  have w: "dec_function function_of_text (jprint j) =
      do {n \<leftarrow> get_string (field ms ''name''); Some (n, get_raw (field ms ''arguments''))}"
    by (simp add: function_of_text_def jparse_print [OF assms] Some)
  show ?thesis
  proof (cases "get_string (field ms ''name'')")
    case None
    then show ?thesis using Some by (simp add: dec_functionCall_def functionCall_UnmarshalJSON_def w)
  next
    case n: (Some n)
    have "dec_functionCall (Some j) = Some \<lparr>fc_Name = n, fc_Arguments = call_arguments (field ms ''arguments'')\<rparr>"
      unfolding dec_functionCall_def functionCall_UnmarshalJSON_def option.case w n bind.bind_lunit prod.case args ..
    then show ?thesis using Some n by simp
  qed
qed

lemma functionCall_text: "json_ok (json_functionCall f)" "dec_functionCall (Some (json_functionCall f)) = Some f"
proof -
  show ok: "json_ok (json_functionCall f)" by (simp add: json_functionCall_def)
  show "dec_functionCall (Some (json_functionCall f)) = Some f"
    unfolding dec_functionCall_value [OF ok] by (simp add: json_functionCall_def field_Cons call_arguments_def)
qed

interpretation toolCalls: json_codec json_toolCall dec_toolCall "\<lambda>t. raw_ok (tc_ExtraContent t)" "\<lambda>t. t"
proof
  fix t :: toolCall assume a: "raw_ok (tc_ExtraContent t)"
  obtain x where x: "omit_raw ''extra_content'' (tc_ExtraContent t) = Some x" "list_all (\<lambda>(k, v). json_ok v) x"
    "get_raw (field x ''extra_content'') = tc_ExtraContent t"
    "\<And>k'. fold_key k' \<noteq> fold_key ''extra_content'' \<Longrightarrow> field x k' = None" by (rule omit_raw_code [OF a]) blast
  have n: "field x ''id'' = None" "field x ''type'' = None" "field x ''function'' = None" by (simp_all add: x(4))
  have f: "dec_functionCall (Some (json_functionCall (tc_Function t))) = Some (tc_Function t)" by (rule functionCall_text)
  let ?j = "JObj ([(''id'', JStr (tc_ID t)), (''type'', JStr (tc_Type t)), (''function'', json_functionCall (tc_Function t))] @ x)"
  have "json_toolCall t = Some ?j" by (simp add: json_toolCall_def x(1))
  moreover have "json_ok ?j" using x(2) functionCall_text(1) by simp
  moreover have "dec_toolCall ?j = Some t"
    unfolding dec_toolCall_def using x(3) f by (simp add: field_Cons n)
  ultimately show "\<exists>j. json_toolCall t = Some j \<and> json_ok j \<and> dec_toolCall j = Some t" by blast
qed

interpretation tools: json_codec json_tool dec_tool "\<lambda>t. raw_ok (fd_Parameters (tl_Function t))" "\<lambda>t. t"
proof
  fix t :: tool assume a: "raw_ok (fd_Parameters (tl_Function t))"
  let ?f = "tl_Function t"
  obtain x where x: "omit_raw ''parameters'' (fd_Parameters ?f) = Some x" "list_all (\<lambda>(k, v). json_ok v) x"
    "get_raw (field x ''parameters'') = fd_Parameters ?f"
    "\<And>k'. fold_key k' \<noteq> fold_key ''parameters'' \<Longrightarrow> field x k' = None" by (rule omit_raw_code [OF a]) blast
  have n: "field x ''name'' = None" "field x ''description'' = None" by (simp_all add: x(4))
  let ?j = "JObj [(''type'', JStr (tl_Type t)),
       (''function'', JObj ((''name'', JStr (fd_Name ?f)) # omit_str ''description'' (fd_Description ?f) @ x))]"
  have "json_tool t = Some ?j" by (simp add: json_tool_def x(1) Let_def)
  moreover have "json_ok ?j" using x(2) by simp
  moreover have "dec_tool ?j = Some t"
    unfolding dec_tool_def using x(3) by (simp add: field_Cons field_omit_str n)
  ultimately show "\<exists>j. json_tool t = Some j \<and> json_ok j \<and> dec_tool j = Some t" by blast
qed

lemma dec_functionCall_omitted:
  "dec_functionCall (Some (JObj (omit_str ''name'' (fc_Name f) @ omit_str ''arguments'' (fc_Arguments f)))) = Some f"
  (is "dec_functionCall (Some ?j) = _")
proof -
  have ok: "json_ok ?j" by simp
  show ?thesis unfolding dec_functionCall_value [OF ok] by (simp add: field_omit_str call_arguments_def)
qed

interpretation deltas: json_codec json_streamToolCall dec_toolCallDelta
  "\<lambda>t. raw_ok (td_ExtraContent t) \<and> in_int64 (td_Index t)" "\<lambda>t. t"
proof
  fix t :: toolCallDelta assume a: "raw_ok (td_ExtraContent t) \<and> in_int64 (td_Index t)"
  obtain x where x: "omit_raw ''extra_content'' (td_ExtraContent t) = Some x" "list_all (\<lambda>(k, v). json_ok v) x"
    "get_raw (field x ''extra_content'') = td_ExtraContent t"
    "\<And>k'. fold_key k' \<noteq> fold_key ''extra_content'' \<Longrightarrow> field x k' = None" using a by (rule omit_raw_code [OF conjunct1]) blast
  have n: "field x ''id'' = None" "field x ''type'' = None" "field x ''function'' = None" "field x ''index'' = None"
    by (simp_all add: x(4))
  let ?f = "JObj (omit_str ''name'' (fc_Name (td_Function t)) @ omit_str ''arguments'' (fc_Arguments (td_Function t)))"
  let ?j = "JObj ((''index'', jint (td_Index t)) # omit_str ''id'' (td_ID t) @ omit_str ''type'' (td_Type t)
       @ [(''function'', ?f)] @ x)"
  have "json_streamToolCall t = Some ?j" by (simp add: json_streamToolCall_def x(1))
  moreover have "json_ok ?j" using x(2) by simp
  moreover have "dec_toolCallDelta ?j = Some t"
    unfolding dec_toolCallDelta_def using x(3) dec_functionCall_omitted [of "td_Function t"] a
    by (simp add: field_Cons field_omit_str n)
  ultimately show "\<exists>j. json_streamToolCall t = Some j \<and> json_ok j \<and> dec_toolCallDelta j = Some t" by blast
qed

text \<open>Usage as the gateway holds it: normalised counts survive.\<close>

definition usage_wire_ok :: "usage \<Rightarrow> bool" where
  "usage_wire_ok u \<longleftrightarrow> sane u \<and> usage_ok u \<and> 0 \<le> ReasoningTokens u"

lemma json_usage_ok: "json_ok (json_usage u)"
  by (simp add: json_usage_def usage_MarshalJSON_def Let_def)

lemma dec_json_usage:
  assumes "usage_wire_ok u"
  shows "dec_usage (json_usage u) = Some u"
proof -
  have r: "in_int64 (PromptTokens u)" "in_int64 (CompletionTokens u)" "in_int64 (TotalTokens u)" "in_int64 (ReasoningTokens u)"
    using assms by (auto simp: usage_wire_ok_def sane_def in_int64_def)
  have f: "Normalize u = u" using assms r by (intro Normalize_fixed) (simp_all add: usage_wire_ok_def)
  obtain a b c d where u: "u = \<lparr>PromptTokens = a, CompletionTokens = b, TotalTokens = c, ReasoningTokens = d\<rparr>"
    by (cases u) auto
  show ?thesis
  proof (cases "d > 0")
    case True
    then show ?thesis using r f unfolding u
      by (simp add: json_usage_def usage_MarshalJSON_def Let_def dec_usage_def field_Cons get_ptr_def usage_UnmarshalJSON_def)
  next
    case False
    then have z: "d = 0" using assms u by (simp add: usage_wire_ok_def)
    show ?thesis using r f unfolding u z
      by (simp add: json_usage_def usage_MarshalJSON_def Let_def dec_usage_def field_Cons usage_UnmarshalJSON_def)
  qed
qed

section \<open>Messages across the wire\<close>

definition calls_ok :: "message \<Rightarrow> bool" where
  "calls_ok m \<longleftrightarrow> list_all (\<lambda>t. raw_ok (tc_ExtraContent t)) (m_ToolCalls m)"

text \<open>The decoder of a message, on values.\<close>

definition dec_message_value :: "json \<Rightarrow> message option" where
  "dec_message_value j = do {
     ms \<leftarrow> obj_members j; (r, n, ts, i) \<leftarrow> message_fields ms;
     (case get_string (field ms ''content'') of
        Some c \<Rightarrow> Some (zero_message\<lparr>m_Role := r, m_Content := c, m_Name := n, m_ToolCalls := ts, m_ToolCallID := i\<rparr>)
      | None \<Rightarrow> do {
          ps \<leftarrow> get_list dec_part (field ms ''content'');
          Some (zero_message\<lparr>m_Role := r, m_Content := concat (map text_of_part ps), m_Images := concat (map image_of_part ps),
            m_Name := n, m_ToolCalls := ts, m_ToolCallID := i\<rparr>)})}"

lemma dec_message_value:
  assumes "json_ok j"
  shows "dec_message j = dec_message_value j"
proof (cases "obj_members j")
  case None
  then show ?thesis
    by (simp add: dec_message_def message_UnmarshalJSON_def message_of_text_def dec_message_value_def jparse_print [OF assms])
next
  case (Some ms)
  show ?thesis
  proof (cases "message_fields ms")
    case None
    then show ?thesis using Some
      by (simp add: dec_message_def message_UnmarshalJSON_def message_of_text_def dec_message_value_def jparse_print [OF assms]
          split: option.split)
  next
    case f: (Some q)
    obtain r n ts i where q: "q = (r, n, ts, i)" by (metis prod_cases4)
    have d: "dec_direct message_of_text (jprint j) = do {c \<leftarrow> get_string (field ms ''content'');
        Some (zero_message\<lparr>m_Role := r, m_Content := c, m_Name := n, m_ToolCalls := ts, m_ToolCallID := i\<rparr>)}"
      by (simp add: message_of_text_def jparse_print [OF assms] Some f q)
    have w: "dec_wire message_of_text (jprint j) = Some \<lparr>mw_Role = r, mw_Content = get_raw (field ms ''content''), mw_Name = n,
        mw_ToolCalls = ts, mw_ToolCallID = i\<rparr>"
      by (simp add: message_of_text_def jparse_print [OF assms] Some f q)
    show ?thesis
    proof (cases "get_string (field ms ''content'')")
      case (Some c)
      then show ?thesis using \<open>obj_members j = Some ms\<close> f q
        by (simp add: dec_message_def message_UnmarshalJSON_def d dec_message_value_def zero_message_def)
    next
      case None
      then obtain v where v: "field ms ''content'' = Some v" by (cases "field ms ''content''") auto
      have ok: "json_ok v" by (rule field_ok [OF assms Some v])
      have "dec_parts message_of_text (get_raw (field ms ''content'')) = get_list dec_part (Some v)"
        by (simp add: message_of_text_def v get_raw_def jparse_print [OF ok])
      then show ?thesis using \<open>obj_members j = Some ms\<close> f q None v
        by (simp add: dec_message_def message_UnmarshalJSON_def d w dec_message_value_def zero_message_def split: option.split)
    qed
  qed
qed

text \<open>The members of an encoded message, and what the decoder makes of each.\<close>

abbreviation message_members :: "message \<Rightarrow> members \<Rightarrow> json list \<Rightarrow> members" where
  "message_members m c ts \<equiv> (''role'', JStr (m_Role m)) # c @ omit_str ''name'' (m_Name m)
     @ omit_list ''tool_calls'' ts @ omit_str ''tool_call_id'' (m_ToolCallID m)"

lemma message_members_fields:
  assumes "those (map dec_toolCall ts) = Some (m_ToolCalls m)" and "ts = [] \<longleftrightarrow> m_ToolCalls m = []"
    and "\<And>k. fold_key k \<noteq> ''content'' \<Longrightarrow> field c k = None"
  shows "message_fields (message_members m c ts) = Some (m_Role m, m_Name m, m_ToolCalls m, m_ToolCallID m)"
    and "field (message_members m c ts) ''content'' = field c ''content''"
proof -
  have n: "field c ''role'' = None" "field c ''name'' = None" "field c ''tool_calls'' = None" "field c ''tool_call_id'' = None"
    by (simp_all add: assms(3))
  show "message_fields (message_members m c ts) = Some (m_Role m, m_Name m, m_ToolCalls m, m_ToolCallID m)"
    using assms(1,2) by (simp add: message_fields_def field_Cons field_omit_str field_omit_list n)
  show "field (message_members m c ts) ''content'' = field c ''content''"
    by (simp add: field_Cons field_omit_str field_omit_list)
qed

interpretation messages: json_codec json_message dec_message calls_ok "\<lambda>m. m\<lparr>m_Images := []\<rparr>"
proof
  fix m assume a: "calls_ok m"
  obtain ts where ts: "those (map json_toolCall (m_ToolCalls m)) = Some ts" "list_all json_ok ts"
    "those (map dec_toolCall ts) = Some (m_ToolCalls m)" "ts = [] \<longleftrightarrow> m_ToolCalls m = []"
    by (rule toolCalls.code_list [OF a [unfolded calls_ok_def]]) (simp add: map_idI)
  let ?j = "JObj (message_members m (omit_str ''content'' (m_Content m)) ts)"
  have f: "\<And>k. fold_key k \<noteq> ''content'' \<Longrightarrow> field (omit_str ''content'' (m_Content m)) k = None" by (auto simp: field_omit_str)
  have j: "json_message m = Some ?j" by (simp add: json_message_def ts(1))
  have ok: "json_ok ?j" using ts(2) by simp
  have "dec_message ?j = Some (m\<lparr>m_Images := []\<rparr>)"
    unfolding dec_message_value [OF ok] dec_message_value_def
    by (simp add: message_members_fields [OF ts(3,4) f] field_omit_str zero_message_def)
  then show "\<exists>j. json_message m = Some j \<and> json_ok j \<and> dec_message j = Some (m\<lparr>m_Images := []\<rparr>)" using j ok by blast
qed

text \<open>What a message to an upstream keeps: everything but the images of a tool result.\<close>

definition upstream_view :: "message \<Rightarrow> message" where
  "upstream_view m = (if m_Role m = ''tool'' then m\<lparr>m_Images := []\<rparr> else m)"

lemma dec_parts_out:
  "those (map dec_part ((if t \<noteq> [] then [outTextPart t] else []) @ map outImagePart is))
     = Some ((if t \<noteq> [] then [\<lparr>cp_Type = ''text'', cp_Text = t, cp_ImageURL = None\<rparr>] else [])
         @ map (\<lambda>i. \<lparr>cp_Type = ''image_url'', cp_Text = [], cp_ImageURL = Some (im_URL i, im_Detail i)\<rparr>) is)"
proof -
  have i: "those (map dec_part (map outImagePart is))
      = Some (map (\<lambda>i. \<lparr>cp_Type = ''image_url'', cp_Text = [], cp_ImageURL = Some (im_URL i, im_Detail i)\<rparr>) is)"
    by (rule those_map) (simp add: dec_part_def outImagePart_def field_Cons field_omit_str get_ptr_def)
  have "dec_part (outTextPart t) = Some \<lparr>cp_Type = ''text'', cp_Text = t, cp_ImageURL = None\<rparr>"
    by (simp add: dec_part_def outTextPart_def field_Cons)
  with i show ?thesis by simp
qed

lemma parts_text_images:
  "concat (map text_of_part ((if t \<noteq> [] then [\<lparr>cp_Type = ''text'', cp_Text = t, cp_ImageURL = None\<rparr>] else [])
     @ map (\<lambda>i. \<lparr>cp_Type = ''image_url'', cp_Text = [], cp_ImageURL = Some (im_URL i, im_Detail i)\<rparr>) is)) = t"
  "concat (map image_of_part ((if t \<noteq> [] then [\<lparr>cp_Type = ''text'', cp_Text = t, cp_ImageURL = None\<rparr>] else [])
     @ map (\<lambda>i. \<lparr>cp_Type = ''image_url'', cp_Text = [], cp_ImageURL = Some (im_URL i, im_Detail i)\<rparr>) is)) = is"
proof -
  have "concat (map (\<lambda>i. text_of_part \<lparr>cp_Type = ''image_url'', cp_Text = [], cp_ImageURL = Some (im_URL i, im_Detail i)\<rparr>) is) = []"
    and "concat (map (\<lambda>i. image_of_part \<lparr>cp_Type = ''image_url'', cp_Text = [], cp_ImageURL = Some (im_URL i, im_Detail i)\<rparr>) is) = is"
    by (induction "is") (simp_all add: text_of_part_def image_of_part_def)
  then show
  "concat (map text_of_part ((if t \<noteq> [] then [\<lparr>cp_Type = ''text'', cp_Text = t, cp_ImageURL = None\<rparr>] else [])
     @ map (\<lambda>i. \<lparr>cp_Type = ''image_url'', cp_Text = [], cp_ImageURL = Some (im_URL i, im_Detail i)\<rparr>) is)) = t"
  "concat (map image_of_part ((if t \<noteq> [] then [\<lparr>cp_Type = ''text'', cp_Text = t, cp_ImageURL = None\<rparr>] else [])
     @ map (\<lambda>i. \<lparr>cp_Type = ''image_url'', cp_Text = [], cp_ImageURL = Some (im_URL i, im_Detail i)\<rparr>) is)) = is"
    by (simp_all add: comp_def text_of_part_def [of "\<lparr>cp_Type = ''text'', cp_Text = t, cp_ImageURL = None\<rparr>"]
        image_of_part_def [of "\<lparr>cp_Type = ''text'', cp_Text = t, cp_ImageURL = None\<rparr>"])
qed

lemma json_content_ok: "list_all (\<lambda>(k, v). json_ok v) (json_content (om_Content (toOpenAIOutMessage m)))"
  by (auto simp: toOpenAIOutMessage_def Let_def json_content_def outTextPart_def outImagePart_def list_all_iff omit_str_def)

lemma content_decoded:
  fixes m :: message
  defines "c \<equiv> json_content (om_Content (toOpenAIOutMessage m))"
  shows "(get_string (field c ''content'') = Some (m_Content m) \<and> m_Images (upstream_view m) = [])
    \<or> (\<exists>ps. get_string (field c ''content'') = None \<and> get_list dec_part (field c ''content'') = Some ps
        \<and> concat (map text_of_part ps) = m_Content m \<and> concat (map image_of_part ps) = m_Images m \<and> m_Role m \<noteq> ''tool'')"
proof (cases "m_Role m = ''tool'' \<or> m_Images m = []")
  case True
  then show ?thesis
    by (auto simp: c_def toOpenAIOutMessage_def Let_def json_content_def upstream_view_def field_one)
next
  case False
  let ?ps = "(if m_Content m \<noteq> [] then [outTextPart (m_Content m)] else []) @ map outImagePart (m_Images m)"
  have f: "field c ''content'' = Some (JArr ?ps)"
    using False by (simp add: c_def toOpenAIOutMessage_def Let_def json_content_def field_one)
  have n: "get_string (Some (JArr ?ps)) = None" by (simp add: get_string_def)
  show ?thesis unfolding f using n dec_parts_out [of "m_Content m" "m_Images m"] parts_text_images [of "m_Content m" "m_Images m"] False
    by (intro disjI2 exI conjI) (assumption | simp)+
qed

interpretation outMessages: json_codec "\<lambda>m. json_outMessage (toOpenAIOutMessage m)" dec_message calls_ok upstream_view
proof
  fix m assume a: "calls_ok m"
  obtain ts where ts: "those (map json_toolCall (m_ToolCalls m)) = Some ts" "list_all json_ok ts"
    "those (map dec_toolCall ts) = Some (m_ToolCalls m)" "ts = [] \<longleftrightarrow> m_ToolCalls m = []"
    by (rule toolCalls.code_list [OF a [unfolded calls_ok_def]]) (simp add: map_idI)
  let ?c = "json_content (om_Content (toOpenAIOutMessage m))"
  let ?j = "JObj (message_members m ?c ts)"
  have f: "\<And>k. fold_key k \<noteq> ''content'' \<Longrightarrow> field ?c k = None"
    by (auto simp: json_content_def field_one split: out_content.split)
  have s: "om_Role (toOpenAIOutMessage m) = m_Role m" "om_Name (toOpenAIOutMessage m) = m_Name m"
    "om_ToolCalls (toOpenAIOutMessage m) = m_ToolCalls m" "om_ToolCallID (toOpenAIOutMessage m) = m_ToolCallID m"
    by (simp_all add: toOpenAIOutMessage_def Let_def)
  have j: "json_outMessage (toOpenAIOutMessage m) = Some ?j" by (simp add: json_outMessage_def ts(1) s)
  have ok: "json_ok ?j" using ts(2) json_content_ok by simp
  have "dec_message ?j = Some (upstream_view m)"
    unfolding dec_message_value [OF ok] dec_message_value_def using content_decoded [of m]
    by (elim disjE exE conjE)
      (simp_all add: message_members_fields [OF ts(3,4) f] zero_message_def upstream_view_def split: if_splits)
  then show "\<exists>j. json_outMessage (toOpenAIOutMessage m) = Some j \<and> json_ok j \<and> dec_message j = Some (upstream_view m)"
    using j ok by blast
qed

end
