(* ===== verification/OpenAIWire.thy ===== *)
theory OpenAIWire
  imports OpenAICodec
begin

text \<open>
  Guarantees of the OpenAI codec: what one gateway writes another reads back unchanged, messages to
  upstreams have the shape the wire format demands, and where extra fields escape the decoder.
\<close>

section \<open>Stream chunks\<close>

definition chunk_wire_ok :: "streamChunk \<Rightarrow> bool" where
  "chunk_wire_ok c \<longleftrightarrow>
     (case sc_Usage c of
        None \<Rightarrow> list_all (\<lambda>t. raw_ok (td_ExtraContent t) \<and> in_int64 (td_Index t)) (sc_ToolCalls c)
      | Some u \<Rightarrow> c = zero_chunk\<lparr>sc_Usage := Some u\<rparr> \<and> usage_wire_ok u)"

text \<open>
  A chunk as the contract of the stream shapes it, usage alone or none, is read
  back by \<open>ParseStreamChunk\<close> exactly as \<open>MarshalStreamChunk\<close> was given it: role, text, tool call
  deltas with the vendor's extra content, finish reason and usage.
\<close>
theorem stream_chunk_roundtrip:
  assumes "chunk_wire_ok c"
  shows "\<exists>text. MarshalStreamChunk meta c = Some text \<and> ParseStreamChunk dec_upstreamChunk text = Some c"
proof (cases "sc_Usage c")
  case (Some u)
  then have c: "c = zero_chunk\<lparr>sc_Usage := Some u\<rparr>" "usage_wire_ok u" using assms by (simp_all add: chunk_wire_ok_def)
  let ?j = "JObj (stream_head meta @ [(''choices'', JArr []), (''usage'', json_usage u)])"
  have ok: "json_ok ?j" by (simp add: stream_head_def json_usage_ok)
  have n: "get_ptr dec_usage (Some (json_usage u)) = Some (Some u)"
    using dec_json_usage [OF c(2)] by (auto simp: get_ptr_def json_usage_def Let_def)
  have "dec_upstreamChunk (jprint ?j) = Some \<lparr>uc_Choices = [], uc_Usage = Some u\<rparr>"
    unfolding dec_upstreamChunk_def jparse_print [OF ok] by (simp add: stream_head_def field_Cons n)
  then show ?thesis using Some c(1)
    by (intro exI [of _ "jprint ?j"]) (simp add: MarshalStreamChunk_def ParseStreamChunk_def Let_def del: jprint.simps)
next
  case None
  obtain ts where ts: "those (map json_streamToolCall (sc_ToolCalls c)) = Some ts" "list_all json_ok ts"
    "those (map dec_toolCallDelta ts) = Some (sc_ToolCalls c)" "ts = [] \<longleftrightarrow> sc_ToolCalls c = []"
    using assms None by (auto simp: chunk_wire_ok_def elim: deltas.code_list)
  let ?d = "JObj (omit_str ''role'' (sc_Role c) @ omit_str ''content'' (sc_Content c) @ omit_list ''tool_calls'' ts)"
  let ?f = "if sc_FinishReason c \<noteq> [] then JStr (sc_FinishReason c) else JNull"
  let ?e = "JObj [(''index'', jint 0), (''delta'', ?d), (''finish_reason'', ?f)]"
  let ?j = "JObj (stream_head meta @ [(''choices'', JArr [?e])])"
  have ok: "json_ok ?j" using ts(2) by (simp add: stream_head_def)
  have e: "dec_upstreamDelta ?e = Some \<lparr>ud_Role = sc_Role c, ud_Content = sc_Content c, ud_ToolCalls = sc_ToolCalls c,
      ud_FinishReason = (if sc_FinishReason c \<noteq> [] then Some (sc_FinishReason c) else None)\<rparr>"
    unfolding dec_upstreamDelta_def using ts(3,4)
    by (simp add: field_Cons field_omit_str field_omit_list get_ptr_def)
  have "dec_upstreamChunk (jprint ?j) = Some \<lparr>uc_Choices = [\<lparr>ud_Role = sc_Role c, ud_Content = sc_Content c,
      ud_ToolCalls = sc_ToolCalls c, ud_FinishReason = (if sc_FinishReason c \<noteq> [] then Some (sc_FinishReason c) else None)\<rparr>],
      uc_Usage = None\<rparr>"
    unfolding dec_upstreamChunk_def jparse_print [OF ok] by (simp add: stream_head_def field_Cons e)
  then show ?thesis using None ts(1)
    by (intro exI [of _ "jprint ?j"])
      (simp add: MarshalStreamChunk_def ParseStreamChunk_def Let_def zero_chunk_def del: jprint.simps)
qed

theorem stream_chunk_roundtrip_witness:
  "\<exists>text. MarshalStreamChunk \<lparr>sm_ID = ''c1'', sm_Model = ''gpt'', sm_Created = 7\<rparr>
       (zero_chunk\<lparr>sc_Content := ''a<b'', sc_ToolCalls := [\<lparr>td_Index = 1, td_ID = ''x'', td_Type = ''function'',
          td_Function = \<lparr>fc_Name = ''f'', fc_Arguments = ''{}''\<rparr>, td_ExtraContent = ''[1,null]''\<rparr>]\<rparr>) = Some text
     \<and> map_option (\<lambda>c. (sc_Content c, map td_ExtraContent (sc_ToolCalls c))) (ParseStreamChunk dec_upstreamChunk text)
       = Some (''a<b'', [''[1,null]''])"
proof -
  let ?c = "zero_chunk\<lparr>sc_Content := ''a<b'', sc_ToolCalls := [\<lparr>td_Index = 1, td_ID = ''x'', td_Type = ''function'',
          td_Function = \<lparr>fc_Name = ''f'', fc_Arguments = ''{}''\<rparr>, td_ExtraContent = ''[1,null]''\<rparr>]\<rparr>"
  have "raw_ok ''[1,null]''" by code_simp
  then have "chunk_wire_ok ?c" by (simp add: chunk_wire_ok_def zero_chunk_def in_int64_def)
  from stream_chunk_roundtrip [OF this, of "\<lparr>sm_ID = ''c1'', sm_Model = ''gpt'', sm_Created = 7\<rparr>"] show ?thesis by auto
qed

section \<open>Responses\<close>

interpretation choices: json_codec json_choice dec_choice
  "\<lambda>c. calls_ok (ch_Message c) \<and> in_int64 (ch_Index c)" "\<lambda>c. c\<lparr>ch_Message := (ch_Message c)\<lparr>m_Images := []\<rparr>\<rparr>"
proof
  fix c :: choice assume a: "calls_ok (ch_Message c) \<and> in_int64 (ch_Index c)"
  obtain j where j: "json_message (ch_Message c) = Some j" "json_ok j"
    "dec_message j = Some ((ch_Message c)\<lparr>m_Images := []\<rparr>)" using messages.code a by blast
  show "\<exists>j. json_choice c = Some j \<and> json_ok j \<and> dec_choice j = Some (c\<lparr>ch_Message := (ch_Message c)\<lparr>m_Images := []\<rparr>\<rparr>)"
    using j a by (simp add: json_choice_def dec_choice_def field_Cons)
qed

definition response_wire_ok :: "chatResponse \<Rightarrow> bool" where
  "response_wire_ok r \<longleftrightarrow> in_int64 (rs_Created r) \<and> usage_wire_ok (rs_Usage r)
     \<and> list_all (\<lambda>c. calls_ok (ch_Message c) \<and> in_int64 (ch_Index c)) (rs_Choices r)"

text \<open>
  A response survives the wire: \<open>DecodeChatResponse\<close> reads what
  \<open>MarshalChatResponse\<close> wrote, with every choice, tool call and count; only images, which a
  response message never carries, would be lost.
\<close>
theorem chat_response_roundtrip:
  assumes "response_wire_ok r"
  shows "\<exists>text. MarshalChatResponse r = Some text \<and> DecodeChatResponse text =
    Some (r\<lparr>rs_Choices := map (\<lambda>c. c\<lparr>ch_Message := (ch_Message c)\<lparr>m_Images := []\<rparr>\<rparr>) (rs_Choices r)\<rparr>)"
proof -
  have a: "in_int64 (rs_Created r)" "usage_wire_ok (rs_Usage r)"
    "list_all (\<lambda>c. calls_ok (ch_Message c) \<and> in_int64 (ch_Index c)) (rs_Choices r)"
    using assms by (simp_all add: response_wire_ok_def)
  obtain cs where cs: "those (map json_choice (rs_Choices r)) = Some cs" "list_all json_ok cs"
    "those (map dec_choice cs) = Some (map (\<lambda>c. c\<lparr>ch_Message := (ch_Message c)\<lparr>m_Images := []\<rparr>\<rparr>) (rs_Choices r))"
    "cs = [] \<longleftrightarrow> rs_Choices r = []" by (rule choices.code_list [OF a(3)])
  let ?j = "JObj [(''id'', JStr (rs_ID r)), (''object'', JStr ''chat.completion''), (''created'', jint (rs_Created r)),
       (''model'', JStr (rs_Model r)), (''choices'', if cs = [] then JNull else JArr cs), (''usage'', json_usage (rs_Usage r))]"
  have ok: "json_ok ?j" using cs(2) by (simp add: json_usage_ok)
  have g: "get_list dec_choice (Some (if cs = [] then JNull else JArr cs))
      = Some (map (\<lambda>c. c\<lparr>ch_Message := (ch_Message c)\<lparr>m_Images := []\<rparr>\<rparr>) (rs_Choices r))"
    using cs(3,4) by (simp add: get_list_def)
  have "DecodeChatResponse (jprint ?j) =
      Some (r\<lparr>rs_Choices := map (\<lambda>c. c\<lparr>ch_Message := (ch_Message c)\<lparr>m_Images := []\<rparr>\<rparr>) (rs_Choices r)\<rparr>)"
    unfolding DecodeChatResponse_def jdecode_print [OF ok] using a(1) g dec_json_usage [OF a(2)]
    by (simp add: field_Cons)
  then show ?thesis using cs(1) by (intro exI [of _ "jprint ?j"]) (simp add: MarshalChatResponse_def del: jprint.simps)
qed

section \<open>Requests\<close>

text \<open>How a float is written: as a number with its value.\<close>

definition float_text :: "(rat \<Rightarrow> string) \<Rightarrow> rat \<Rightarrow> bool" where
  "float_text ff x \<longleftrightarrow> valid_num (ff x) \<and> num_value (ff x) = x"

text \<open>
  A request that can be written: raw fields are JSON text, extra fields are a map (in the order of
  their keys), and none of them spells a field of the request.
\<close>

definition request_wire_ok :: "(rat \<Rightarrow> string) \<Rightarrow> chatRequest \<Rightarrow> bool" where
  "request_wire_ok ff req \<longleftrightarrow>
     cr_Model req \<noteq> [] \<and> cr_Messages req \<noteq> [] \<and> list_all calls_ok (cr_Messages req)
     \<and> list_all (\<lambda>t. raw_ok (fd_Parameters (tl_Function t))) (cr_Tools req) \<and> raw_ok (cr_ToolChoice req)
     \<and> (case cr_Temperature req of None \<Rightarrow> True | Some x \<Rightarrow> float_text ff x)
     \<and> (case cr_MaxTokens req of None \<Rightarrow> True | Some n \<Rightarrow> in_int64 n)
     \<and> sorted_wrt (<) (map fst (cr_Extra req))
     \<and> list_all (\<lambda>(k, r). r \<noteq> [] \<and> raw_ok r \<and> fold_key k \<notin> set ownedRequestKeys) (cr_Extra req)"

lemma field_filter: "field (filter (\<lambda>m. fold_key (fst m) = fold_key k) ms) k = field ms k"
proof (induction ms)
  case (Cons m ms)
  then show ?case by (cases m) (simp add: field_Cons)
qed simp

lemma field_sorted:
  assumes "\<And>m. m \<in> set ms \<Longrightarrow> fold_key (fst m) = fold_key k \<Longrightarrow> fst m = k"
  shows "field (sort_key fst ms) k = field ms k"
proof -
  have e: "filter (\<lambda>m. fold_key (fst m) = fold_key k) xs = filter (\<lambda>m. fst m = k) xs" if "set xs = set ms" for xs
    using assms that by (intro filter_cong) auto
  have "field (sort_key fst ms) k = field (filter (\<lambda>m. fst m = k) (sort_key fst ms)) k"
    using field_filter [of k "sort_key fst ms"] by (simp add: e)
  also have "\<dots> = field (filter (\<lambda>m. fst m = k) ms) k" by (simp add: sort_key_stable)
  also have "\<dots> = field ms k" using field_filter [of k ms] by (simp add: e)
  finally show ?thesis .
qed

lemma field_absent: "(\<And>m. m \<in> set ms \<Longrightarrow> fold_key (fst m) \<noteq> fold_key k) \<Longrightarrow> field ms k = None"
  using field_filter [of k ms] by (simp add: filter_False)

lemma last_wins_distinct: "distinct (map fst ms) \<Longrightarrow> last_wins ms = ms"
  by (induction ms rule: last_wins.induct) auto

lemma fst_omit: "map fst (omit_list k xs) = (if xs = [] then [] else [k])" "map fst (omit_opt k v) = (if v = None then [] else [k])"
  by (auto simp: omit_list_def omit_opt_def split: option.split)

lemma optional_keys:
  assumes "distinct (map fst kbs)"
  shows "distinct (concat (map (\<lambda>(k, b). if b then [k] else []) kbs))"
    and "set (concat (map (\<lambda>(k, b). if b then [k] else []) kbs)) \<subseteq> set (map fst kbs)"
  using assms by (induction kbs) (auto split: if_splits)

lemma field_omit_opt: "field (omit_opt n v) k = (if fold_key n = fold_key k then v else None)"
  by (simp add: omit_opt_def field_one split: option.split)

lemma owned_folded: "k \<in> set ownedRequestKeys \<Longrightarrow> fold_key k = k"
  by (auto simp: ownedRequestKeys_def)

text \<open>The members of an upstream request and what the decoder reads from them.\<close>

lemma upstream_members:
  assumes "request_wire_ok ff req"
  obtains M where "upstreamChatRequest ff req stream = Some M" "list_all (\<lambda>(k, v). json_ok v) M" "distinct (map fst M)"
    "set (map fst M) \<subseteq> set ownedRequestKeys - {''n''}"
    "dec_chatRequestWire (JObj M) = Some \<lparr>rw_Model = cr_Model req, rw_Messages = map upstream_view (cr_Messages req),
       rw_Tools = cr_Tools req, rw_ToolChoice = cr_ToolChoice req, rw_ParallelToolCalls = cr_ParallelToolCalls req,
       rw_Temperature = cr_Temperature req, rw_MaxTokens = cr_MaxTokens req, rw_Stream = stream,
       rw_StreamOptions = (if stream then Some True else None)\<rparr>"
proof -
  note a = assms [unfolded request_wire_ok_def]
  obtain msgs where m: "those (map (\<lambda>m. json_outMessage (toOpenAIOutMessage m)) (cr_Messages req)) = Some msgs"
    "list_all json_ok msgs" "those (map dec_message msgs) = Some (map upstream_view (cr_Messages req))"
    using a by (auto elim: outMessages.code_list)
  obtain ts where t: "those (map json_tool (cr_Tools req)) = Some ts" "list_all json_ok ts"
    "those (map dec_tool ts) = Some (cr_Tools req)" "ts = [] \<longleftrightarrow> cr_Tools req = []"
    using a by (auto elim: tools.code_list)
  have rc: "raw_ok (cr_ToolChoice req)" using a by simp
  obtain tc where c: "omit_raw ''tool_choice'' (cr_ToolChoice req) = Some tc" "list_all (\<lambda>(k, v). json_ok v) tc"
    "get_raw (field tc ''tool_choice'') = cr_ToolChoice req"
    "\<And>k'. fold_key k' \<noteq> fold_key ''tool_choice'' \<Longrightarrow> field tc k' = None" by (rule omit_raw_code [OF rc]) blast
  have tk: "map fst tc = (if tc = [] then [] else [''tool_choice''])" using c(1) by (auto simp: omit_raw_def split: if_splits)
  have n: "field tc ''model'' = None" "field tc ''messages'' = None" "field tc ''tools'' = None" "field tc ''parallel_tool_calls'' = None"
    "field tc ''temperature'' = None" "field tc ''max_tokens'' = None" "field tc ''stream'' = None" "field tc ''stream_options'' = None"
    by (simp_all add: c(4))
  let ?so = "if stream then [(''stream'', JBool True), (''stream_options'', JObj [(''include_usage'', JBool True)])] else []"
  let ?M = "[(''model'', JStr (cr_Model req)), (''messages'', JArr msgs)] @ omit_list ''tools'' ts @ tc
       @ omit_opt ''parallel_tool_calls'' (map_option JBool (cr_ParallelToolCalls req))
       @ omit_opt ''temperature'' (map_option (\<lambda>x. JNum (ff x)) (cr_Temperature req))
       @ omit_opt ''max_tokens'' (map_option jint (cr_MaxTokens req)) @ ?so"
  have 1: "upstreamChatRequest ff req stream = Some ?M" by (simp add: upstreamChatRequest_def m(1) t(1) c(1))
  have 2: "list_all (\<lambda>(k, v). json_ok v) ?M" using m(2) t(2) c(2) a
    by (auto simp: omit_opt_def float_text_def split: option.splits)
  let ?K = "[(''model'', True), (''messages'', True), (''tools'', ts \<noteq> []), (''tool_choice'', tc \<noteq> []),
      (''parallel_tool_calls'', cr_ParallelToolCalls req \<noteq> None), (''temperature'', cr_Temperature req \<noteq> None),
      (''max_tokens'', cr_MaxTokens req \<noteq> None), (''stream'', stream), (''stream_options'', stream)]"
  have k: "map fst ?M = concat (map (\<lambda>(k, b). if b then [k] else []) ?K)"
    by (simp add: fst_omit tk)
  have dk: "distinct (map fst ?K)" by simp
  have 3: "distinct (map fst ?M)" unfolding k by (rule optional_keys(1) [OF dk])
  have "set (map fst ?K) \<subseteq> set ownedRequestKeys - {''n''}" by (simp add: ownedRequestKeys_def)
  with optional_keys(2) [OF dk] have 4: "set (map fst ?M) \<subseteq> set ownedRequestKeys - {''n''}" unfolding k by (rule order_trans)
  have p: "get_ptr (\<lambda>v. get_bool (Some v)) (map_option JBool b) = Some b" for b
    by (cases b) (simp_all add: get_ptr_def get_bool_def)
  have q: "get_ptr get_float (map_option (\<lambda>x. JNum (ff x)) (cr_Temperature req)) = Some (cr_Temperature req)"
    using a by (cases "cr_Temperature req") (simp_all add: get_ptr_def get_float_def float_text_def)
  have r: "get_ptr (\<lambda>v. get_int (Some v)) (map_option jint (cr_MaxTokens req)) = Some (cr_MaxTokens req)"
    using a by (cases "cr_MaxTokens req") (simp_all add: get_ptr_def jint_def get_int_def)
  have s: "get_ptr (\<lambda>v. do {os \<leftarrow> obj_members v; get_bool (field os ''include_usage'')})
      (field ?so ''stream_options'') = Some (if stream then Some True else None)"
    "get_bool (field ?so ''stream'') = Some stream"
    by (simp_all add: field_Cons get_ptr_def get_bool_def)
  have "dec_chatRequestWire (JObj ?M) = Some \<lparr>rw_Model = cr_Model req, rw_Messages = map upstream_view (cr_Messages req),
       rw_Tools = cr_Tools req, rw_ToolChoice = cr_ToolChoice req, rw_ParallelToolCalls = cr_ParallelToolCalls req,
       rw_Temperature = cr_Temperature req, rw_MaxTokens = cr_MaxTokens req, rw_Stream = stream,
       rw_StreamOptions = (if stream then Some True else None)\<rparr>"
  proof -
    have o: "field ?so k = None" if "k \<in> {''model'', ''messages'', ''tools'', ''tool_choice'', ''parallel_tool_calls'', ''temperature'', ''max_tokens''}" for k
      using that by (auto simp: field_Cons)
    have f: "field ?M ''model'' = Some (JStr (cr_Model req))" "field ?M ''messages'' = Some (JArr msgs)"
      "field ?M ''tools'' = (if ts = [] then None else Some (JArr ts))" "field ?M ''tool_choice'' = field tc ''tool_choice''"
      "field ?M ''parallel_tool_calls'' = map_option JBool (cr_ParallelToolCalls req)"
      "field ?M ''temperature'' = map_option (\<lambda>x. JNum (ff x)) (cr_Temperature req)"
      "field ?M ''max_tokens'' = map_option jint (cr_MaxTokens req)" "field ?M ''stream'' = field ?so ''stream''"
      "field ?M ''stream_options'' = field ?so ''stream_options''"
      by (simp_all only: field_append o n insert_iff simp_thms)
        (simp_all add: field_Cons field_omit_list field_omit_opt)
    show ?thesis
      unfolding dec_chatRequestWire_def obj_members_JObj bind.bind_lunit f using p q r s m(3) t(3,4) c(3)
      by (cases "ts = []") simp_all
  qed
  then show ?thesis by (rule that [OF 1 2 3 4])
qed

lemma dec_wire_cong:
  assumes "\<And>k. k \<in> set ownedRequestKeys \<Longrightarrow> field xs k = field ys k"
  shows "dec_chatRequestWire (JObj xs) = dec_chatRequestWire (JObj ys)"
  unfolding dec_chatRequestWire_def by (simp add: assms ownedRequestKeys_def)

text \<open>Decoding a written object whose other members spell no field of the request.\<close>

lemma decode_members:
  assumes "dec_chatRequestWire (JObj M) = Some w" and "rw_Model w \<noteq> []" and "rw_Messages w \<noteq> []"
    and "distinct (map fst M)" and "set (map fst M) \<subseteq> set ownedRequestKeys - {''n''}" and "list_all (\<lambda>(k, v). json_ok v) M"
    and "sorted_wrt (<) (map fst xs)" and "\<And>k v. (k, v) \<in> set xs \<Longrightarrow> fold_key k \<notin> set ownedRequestKeys \<and> json_ok v"
    and "N = (if xs = [] then M else merge_extra M xs)"
  shows "DecodeChatRequest (jprint (JObj N)) = Inr ((request_of_wire w [])\<lparr>cr_Extra := map (\<lambda>(k, v). (k, jprint v)) xs\<rparr>)"
proof -
  have own: "k \<notin> set ownedRequestKeys" if "(k, v) \<in> set xs" for k v
    using assms(8) [OF that] owned_folded by metis
  have x: "k \<noteq> k'" if "(k, v) \<in> set xs" "k' \<in> fst ` set M" for k v k' using own [OF that(1)] that(2) assms(5) by auto
  have dx: "distinct (map fst xs)" "sorted (map fst xs)" using assms(7) strict_sorted_iff by blast+
  have keep: "filter (\<lambda>(k, v). k \<notin> fst ` set xs) M = M"
    using x by (intro filter_True) (force)
  have d: "distinct (map fst (M @ xs))" using assms(4) dx(1) x by fastforce
  have "mset (map fst (sort_key fst (M @ xs))) = mset (map fst (M @ xs))" by (metis mset_map mset_sort)
  then have "distinct (map fst (sort_key fst (M @ xs)))" using d mset_eq_imp_distinct_iff by blast
  then have N: "set N = set M \<union> set xs" "distinct (map fst N)"
    using assms(4,9) by (auto simp: merge_extra_def keep)
  have f: "field N k = field M k" if k: "k \<in> set ownedRequestKeys" for k
  proof (cases "xs = []")
    case True
    then show ?thesis using assms(9) by simp
  next
    case False
    note fk = owned_folded [OF k]
    have xne: "fold_key (fst m) \<noteq> k" if "m \<in> set xs" for m
      using assms(8) [of "fst m" "snd m"] that k by auto
    have xk: "field xs k = None" by (rule field_absent) (simp add: fk xne)
    have "field (sort_key fst (M @ xs)) k = field (M @ xs) k"
    proof (rule field_sorted)
      fix m assume m: "m \<in> set (M @ xs)" "fold_key (fst m) = fold_key k"
      then have "m \<notin> set xs" using xne [of m] fk by metis
      then have "m \<in> set M" using m(1) by simp
      then have "fst m \<in> set ownedRequestKeys" using assms(5) by auto
      then show "fst m = k" using owned_folded m(2) fk by metis
    qed
    then show ?thesis using False assms(9) xk by (simp add: merge_extra_def keep)
  qed
  have ok: "json_ok (JObj N)" using assms(6,8) N(1) by (auto simp: list_all_iff)
  have w: "dec_chatRequestWire (JObj N) = Some w" using dec_wire_cong [OF f] assms(1) by simp
  have "''n'' \<notin> set ownedRequestKeys - {''n''}" by simp
  then have "map_of N ''n'' = None"
    using N(1) assms(5) own by (force simp: map_of_eq_None_iff ownedRequestKeys_def)
  then have s: "single_choice N = None" by (simp add: single_choice_def)
  have "filter (\<lambda>(k, v). k \<notin> set ownedRequestKeys) N = xs"
  proof -
    have e: "filter (\<lambda>(k, v). k \<notin> set ownedRequestKeys) M = []" using assms(5) by (intro filter_False) auto
    have "filter (\<lambda>(k, v). k \<notin> set ownedRequestKeys) xs = xs" using own by (intro filter_True) auto
    then show ?thesis using assms(9) e dx(2)
      by (simp add: merge_extra_def keep filter_sort sort_key_id_if_sorted split: if_splits)
  qed
  then have "request_of_wire w N = (request_of_wire w [])\<lparr>cr_Extra := map (\<lambda>(k, v). (k, jprint v)) xs\<rparr>"
    by (simp add: request_of_wire_def)
  then show ?thesis
    unfolding DecodeChatRequest_def jparse_print [OF ok] option.case w using assms(2,3) s last_wins_distinct [OF N(2)]
    by (simp add: Let_def)
qed

text \<open>
  C12: A request one gateway writes for its upstream is the request a gateway there
  reads: model, messages with text, images and tool calls, tools, tool choice, sampling settings and
  every extra field. Only images of tool results are dropped, and the stream flags are the writer's.
\<close>
theorem chat_request_roundtrip:
  assumes "request_wire_ok ff req"
  shows "\<exists>text. EncodeChatRequest ff req stream = Some text \<and> DecodeChatRequest text =
    Inr (req\<lparr>cr_Messages := map upstream_view (cr_Messages req), cr_Stream := stream, cr_IncludeStreamUsage := stream,
      cr_ThinkingOff := False\<rparr>)"
proof -
  obtain M where M: "upstreamChatRequest ff req stream = Some M" "list_all (\<lambda>(k, v). json_ok v) M" "distinct (map fst M)"
    "set (map fst M) \<subseteq> set ownedRequestKeys - {''n''}"
    "dec_chatRequestWire (JObj M) = Some \<lparr>rw_Model = cr_Model req, rw_Messages = map upstream_view (cr_Messages req),
       rw_Tools = cr_Tools req, rw_ToolChoice = cr_ToolChoice req, rw_ParallelToolCalls = cr_ParallelToolCalls req,
       rw_Temperature = cr_Temperature req, rw_MaxTokens = cr_MaxTokens req, rw_Stream = stream,
       rw_StreamOptions = (if stream then Some True else None)\<rparr>" (is "_ = Some ?w")
    by (rule upstream_members [OF assms])
  define xs where "xs = map (\<lambda>(k, r). (k, the (jparse r))) (cr_Extra req)"
  have e: "jparse r = Some (the (jparse r)) \<and> json_ok (the (jparse r)) \<and> jprint (the (jparse r)) = r
      \<and> fold_key k \<notin> set ownedRequestKeys" if "(k, r) \<in> set (cr_Extra req)" for k r
    using assms that by (auto simp: request_wire_ok_def list_all_iff raw_ok_def split: option.splits)
  have p: "those (map (\<lambda>(k, r). map_option (Pair k) (jparse r)) ys) = Some (map (\<lambda>(k, r). (k, the (jparse r))) ys)"
    if "set ys \<subseteq> set (cr_Extra req)" for ys using that
  proof (induction ys)
    case (Cons a ys)
    then show ?case using e [of "fst a" "snd a"] by (cases a; cases "jparse (snd a)") auto
  qed simp
  have orig: "map (\<lambda>(k, v). (k, jprint v)) xs = cr_Extra req"
    unfolding xs_def using e by (auto simp: comp_def intro!: map_idI)
  have srt: "sorted_wrt (<) (map fst xs)" using assms by (simp add: request_wire_ok_def xs_def comp_def case_prod_beta)
  have mem: "fold_key k \<notin> set ownedRequestKeys \<and> json_ok v" if "(k, v) \<in> set xs" for k v
    using that e by (auto simp: xs_def)
  let ?N = "if xs = [] then M else merge_extra M xs"
  have enc: "EncodeChatRequest ff req stream = Some (jprint (JObj ?N))"
    using p [OF order_refl] M(1) by (simp add: EncodeChatRequest_def xs_def del: jprint.simps)
  have ne: "rw_Model ?w \<noteq> []" "rw_Messages ?w \<noteq> []" using assms by (simp_all add: request_wire_ok_def)
  have "DecodeChatRequest (jprint (JObj ?N)) = Inr ((request_of_wire ?w [])\<lparr>cr_Extra := cr_Extra req\<rparr>)"
    using decode_members [OF M(5) ne M(3,4,2) srt mem refl] unfolding orig .
  then show ?thesis using enc by (intro exI conjI) (assumption, simp add: request_of_wire_def)
qed

section \<open>The shape of upstream messages\<close>

definition part_ok :: "json \<Rightarrow> bool" where
  "part_ok p =
     (case p of
        JObj [(''type'', JStr t), (k, v)] \<Rightarrow>
          (t = ''text'' \<and> k = ''text'' \<and> (case v of JStr _ \<Rightarrow> True | _ \<Rightarrow> False))
          \<or> (t = ''image_url'' \<and> k = ''image_url'' \<and> (case v of JObj ((u, JStr _) # _) \<Rightarrow> u = ''url'' | _ \<Rightarrow> False))
      | _ \<Rightarrow> False)"

text \<open>The schema the upstreams check a message against.\<close>

definition wire_message_ok :: "json \<Rightarrow> bool" where
  "wire_message_ok j =
     (case j of
        JObj ms \<Rightarrow>
          (case map_of ms ''role'' of
             Some (JStr r) \<Rightarrow>
               (case map_of ms ''content'' of
                  None \<Rightarrow> r \<noteq> ''tool'' \<and> (r = ''assistant'' \<longrightarrow> map_of ms ''tool_calls'' \<noteq> None)
                | Some (JStr _) \<Rightarrow> True
                | Some (JArr ps) \<Rightarrow> r \<noteq> ''tool'' \<and> ps \<noteq> [] \<and> list_all part_ok ps
                | _ \<Rightarrow> False)
               \<and> (case map_of ms ''tool_calls'' of None \<Rightarrow> True | Some (JArr ts) \<Rightarrow> ts \<noteq> [] | _ \<Rightarrow> False)
           | _ \<Rightarrow> False)
      | _ \<Rightarrow> False)"

lemma map_of_omit: "map_of (omit_str n s) k = (if s \<noteq> [] \<and> n = k then Some (JStr s) else None)"
  "map_of (omit_list n xs) k = (if xs \<noteq> [] \<and> n = k then Some (JArr xs) else None)"
  by (simp_all add: omit_str_def omit_list_def)

lemma parts_ok: "list_all part_ok (map outImagePart is)" "part_ok (outTextPart t)"
  by (auto simp: list_all_iff part_ok_def outImagePart_def outTextPart_def)

lemma those_length: "those xs = Some ys \<Longrightarrow> length ys = length xs"
  by (induction xs arbitrary: ys) (auto split: option.splits)

lemma out_message_typed:
  assumes "json_outMessage (toOpenAIOutMessage m) = Some j"
  shows "wire_message_ok j"
proof -
  obtain ts where ts: "those (map json_toolCall (m_ToolCalls m)) = Some ts"
    and j: "j = JObj (message_members m (json_content (om_Content (toOpenAIOutMessage m))) ts)"
    using assms by (auto simp: json_outMessage_def bind_eq_Some_conv toOpenAIOutMessage_def Let_def split: if_splits)
  have l: "ts = [] \<longleftrightarrow> m_ToolCalls m = []" using those_length [OF ts] by (metis length_0_conv length_map)
  show ?thesis
  proof (cases "m_Role m = ''tool'' \<or> m_Images m = []")
    case True
    then show ?thesis using l
      by (auto simp: j wire_message_ok_def toOpenAIOutMessage_def Let_def json_content_def map_of_omit map_add_def)
  next
    case False
    then show ?thesis using l parts_ok
      by (auto simp: j wire_message_ok_def toOpenAIOutMessage_def Let_def json_content_def map_of_omit map_add_def)
  qed
qed

lemma those_all:
  assumes "those (map f xs) = Some ys" and "\<And>x y. f x = Some y \<Longrightarrow> P y"
  shows "list_all P ys"
  using assms(1) by (induction xs arbitrary: ys) (auto simp: assms(2) split: option.splits)

lemma omit_raw_cases: "omit_raw k r = Some x \<Longrightarrow> x = [] \<or> (\<exists>j. x = [(k, j)] \<and> json_ok j)"
  by (auto simp: omit_raw_def jparse_ok split: if_splits)

lemma json_toolCall_ok: "json_toolCall t = Some j \<Longrightarrow> json_ok j"
  using functionCall_text(1) by (auto simp: json_toolCall_def bind_eq_Some_conv dest!: omit_raw_cases)

lemma json_tool_ok: "json_tool t = Some j \<Longrightarrow> json_ok j"
  by (auto simp: json_tool_def Let_def bind_eq_Some_conv dest!: omit_raw_cases)

lemma json_outMessage_ok:
  assumes "json_outMessage (toOpenAIOutMessage m) = Some j"
  shows "json_ok j"
proof -
  obtain ts where "those (map json_toolCall (om_ToolCalls (toOpenAIOutMessage m))) = Some ts"
    and j: "j = JObj ((''role'', JStr (om_Role (toOpenAIOutMessage m))) # json_content (om_Content (toOpenAIOutMessage m))
       @ omit_str ''name'' (om_Name (toOpenAIOutMessage m)) @ omit_list ''tool_calls'' ts
       @ omit_str ''tool_call_id'' (om_ToolCallID (toOpenAIOutMessage m)))"
    using assms by (auto simp: json_outMessage_def bind_eq_Some_conv)
  then have "list_all json_ok ts" using json_toolCall_ok by (blast intro: those_all)
  then show ?thesis using json_content_ok by (simp add: j)
qed

lemma upstream_members_shape:
  assumes "upstreamChatRequest ff req stream = Some M"
    and "case cr_Temperature req of None \<Rightarrow> True | Some x \<Rightarrow> valid_num (ff x)"
  obtains msgs rest where "M = (''model'', JStr (cr_Model req)) # (''messages'', JArr msgs) # rest"
    "those (map (\<lambda>m. json_outMessage (toOpenAIOutMessage m)) (cr_Messages req)) = Some msgs"
    "list_all (\<lambda>(k, v). json_ok v) M" "''messages'' \<notin> fst ` set rest" "fst ` set M \<subseteq> set ownedRequestKeys"
proof -
  obtain msgs tools tc where m: "those (map (\<lambda>m. json_outMessage (toOpenAIOutMessage m)) (cr_Messages req)) = Some msgs"
    and t: "those (map json_tool (cr_Tools req)) = Some tools" and c: "omit_raw ''tool_choice'' (cr_ToolChoice req) = Some tc"
    and M: "M = [(''model'', JStr (cr_Model req)), (''messages'', JArr msgs)] @ omit_list ''tools'' tools @ tc
       @ omit_opt ''parallel_tool_calls'' (map_option JBool (cr_ParallelToolCalls req))
       @ omit_opt ''temperature'' (map_option (\<lambda>x. JNum (ff x)) (cr_Temperature req))
       @ omit_opt ''max_tokens'' (map_option jint (cr_MaxTokens req))
       @ (if stream then [(''stream'', JBool True), (''stream_options'', JObj [(''include_usage'', JBool True)])] else [])"
    using assms(1) by (auto simp: upstreamChatRequest_def bind_eq_Some_conv)
  have ok: "list_all json_ok msgs" "list_all json_ok tools"
    using those_all [OF m json_outMessage_ok] those_all [OF t json_tool_ok] by auto
  have tcs: "list_all (\<lambda>(k, v). json_ok v) tc" "fst ` set tc \<subseteq> {''tool_choice''}" using omit_raw_cases [OF c] by auto
  have jok: "list_all (\<lambda>(k, v). json_ok v) M" using ok tcs(1) assms(2)
    by (auto simp: M omit_opt_def split: option.splits)
  have keys: "fst ` set (omit_list k xs) \<subseteq> {k}" "fst ` set (omit_opt k v) \<subseteq> {k}" for k xs v
    by (auto simp: omit_list_def omit_opt_def split: option.splits)
  let ?rest = "omit_list ''tools'' tools @ tc
       @ omit_opt ''parallel_tool_calls'' (map_option JBool (cr_ParallelToolCalls req))
       @ omit_opt ''temperature'' (map_option (\<lambda>x. JNum (ff x)) (cr_Temperature req))
       @ omit_opt ''max_tokens'' (map_option jint (cr_MaxTokens req))
       @ (if stream then [(''stream'', JBool True), (''stream_options'', JObj [(''include_usage'', JBool True)])] else [])"
  have k: "fst ` set ?rest \<subseteq> {''tools'', ''tool_choice'', ''parallel_tool_calls'', ''temperature'', ''max_tokens'', ''stream'', ''stream_options''}"
    unfolding set_append image_Un
    by (intro Un_least order_trans [OF keys(1)] order_trans [OF keys(2)] order_trans [OF tcs(2)])
      (auto split: if_splits)
  have n: "''messages'' \<notin> fst ` set ?rest" using k by (rule contra_subsetD) simp
  have o: "fst ` set M \<subseteq> set ownedRequestKeys"
    unfolding M using k by (simp only: append_Cons append_Nil list.set image_insert fst_conv insert_subset) (simp add: ownedRequestKeys_def, blast)
  have "M = (''model'', JStr (cr_Model req)) # (''messages'', JArr msgs) # ?rest" unfolding M by simp
  then show ?thesis by (rule that [OF _ m jok n o])
qed

lemma extras_parsed:
  assumes "those (map (\<lambda>(k, r). map_option (Pair k) (jparse r)) es) = Some xs"
  shows "fst ` set xs = fst ` set es" and "list_all (\<lambda>(k, v). json_ok v) xs"
    and "\<And>k r v. (k, r) \<in> set es \<Longrightarrow> jparse r = Some v \<Longrightarrow> (k, v) \<in> set xs"
proof -
  have "fst ` set xs = fst ` set es \<and> list_all (\<lambda>(k, v). json_ok v) xs
      \<and> (\<forall>k r v. (k, r) \<in> set es \<longrightarrow> jparse r = Some v \<longrightarrow> (k, v) \<in> set xs)"
    using assms
  proof (induction es arbitrary: xs)
    case (Cons e es)
    obtain k r where e: "e = (k, r)" by fastforce
    obtain v ys where "jparse r = Some v" "those (map (\<lambda>(k, r). map_option (Pair k) (jparse r)) es) = Some ys" "xs = (k, v) # ys"
      using Cons.prems by (auto simp: e split: option.splits)
    then show ?case using Cons.IH [of ys] jparse_ok [of r v] by (auto simp: e)
  qed simp
  then show "fst ` set xs = fst ` set es" and "list_all (\<lambda>(k, v). json_ok v) xs"
    and "\<And>k r v. (k, r) \<in> set es \<Longrightarrow> jparse r = Some v \<Longrightarrow> (k, v) \<in> set xs" by blast+
qed


section \<open>Fields that escape\<close>


definition demo_body :: string where
  "demo_body = jprint (JObj [(''model'', JStr ''m''), (''MESSAGES'', JArr [JObj [(''role'', JStr ''user''), (''content'', JStr ''sk'')]])])"

lemma demo_body_decoded:
  "map_option cr_Messages (case DecodeChatRequest demo_body of Inr r \<Rightarrow> Some r | Inl _ \<Rightarrow> None)
     = Some [zero_message\<lparr>m_Role := ''user'', m_Content := ''sk''\<rparr>]"
  "map_option cr_Extra (case DecodeChatRequest demo_body of Inr r \<Rightarrow> Some r | Inl _ \<Rightarrow> None)
     = Some [(''MESSAGES'', ''[{\"role\":\"user\",\"content\":\"sk\"}]'')]"
  by code_simp+


definition demo_wire_request :: chatRequest where
  "demo_wire_request = \<lparr>cr_Model = ''gpt'', cr_Messages = [zero_message\<lparr>m_Role := ''user'', m_Content := ''see'',
       m_Images := [\<lparr>im_URL = ''u'', im_Detail = ''low''\<rparr>]\<rparr>, zero_message\<lparr>m_Role := ''assistant''\<rparr>],
     cr_Tools = [], cr_ToolChoice = ''\"auto\"'', cr_ParallelToolCalls = Some True, cr_Temperature = None, cr_MaxTokens = Some 5,
     cr_Stream = False, cr_IncludeStreamUsage = False, cr_Extra = [(''seed'', ''7''), (''user'', ''\"x\"'')], cr_ThinkingOff = True\<rparr>"

lemma demo_wire_request_ok: "request_wire_ok (\<lambda>_. ''0'') demo_wire_request"
proof -
  have "raw_ok ''\"auto\"''" "raw_ok ''7''" "raw_ok ''\"x\"''" "fold_key ''seed'' \<notin> set ownedRequestKeys"
    "fold_key ''user'' \<notin> set ownedRequestKeys" "''seed'' < ''user''" by code_simp+
  then show ?thesis by (simp add: request_wire_ok_def demo_wire_request_def calls_ok_def zero_message_def in_int64_def)
qed

theorem chat_request_roundtrip_witness:
  "\<exists>text. EncodeChatRequest (\<lambda>_. ''0'') demo_wire_request True = Some text
     \<and> DecodeChatRequest text = Inr (demo_wire_request\<lparr>cr_Stream := True, cr_IncludeStreamUsage := True, cr_ThinkingOff := False\<rparr>)"
  using chat_request_roundtrip [OF demo_wire_request_ok, of True]
  by (simp add: demo_wire_request_def upstream_view_def zero_message_def)


theorem chat_response_roundtrip_witness:
  "\<exists>text. MarshalChatResponse \<lparr>rs_ID = ''r'', rs_Model = ''gpt'', rs_Created = 9,
       rs_Choices = [\<lparr>ch_Index = 0, ch_Message = zero_message\<lparr>m_Role := ''assistant'', m_Content := ''hi''\<rparr>, ch_FinishReason = ''stop''\<rparr>],
       rs_Usage = \<lparr>PromptTokens = 3, CompletionTokens = 5, TotalTokens = 8, ReasoningTokens = 2\<rparr>\<rparr> = Some text
     \<and> map_option (\<lambda>r. (rs_Usage r, map (m_Content \<circ> ch_Message) (rs_Choices r))) (DecodeChatResponse text)
       = Some (\<lparr>PromptTokens = 3, CompletionTokens = 5, TotalTokens = 8, ReasoningTokens = 2\<rparr>, [''hi''])"
proof -
  let ?r = "\<lparr>rs_ID = ''r'', rs_Model = ''gpt'', rs_Created = 9,
       rs_Choices = [\<lparr>ch_Index = 0, ch_Message = zero_message\<lparr>m_Role := ''assistant'', m_Content := ''hi''\<rparr>, ch_FinishReason = ''stop''\<rparr>],
       rs_Usage = \<lparr>PromptTokens = 3, CompletionTokens = 5, TotalTokens = 8, ReasoningTokens = 2\<rparr>\<rparr>"
  have "response_wire_ok ?r"
    by (simp add: response_wire_ok_def usage_wire_ok_def sane_def usage_ok_def calls_ok_def zero_message_def in_int64_def)
  from chat_response_roundtrip [OF this] show ?thesis by auto
qed

end
