(* ===== verification/AnthropicCodec.thy ===== *)
theory AnthropicCodec
  imports AnthropicStream OpenAICodec
begin

text \<open>
  The Anthropic Messages format (\<open>internal/anthropic/codec.go\<close>): requests into the provider-neutral
  form, responses out of it. Log lines are left out; the random identifier of a response is an
  argument.
\<close>

section \<open>Content blocks\<close>

record image_source =
  src_Type :: string
  src_MediaType :: string
  src_Data :: string
  src_URL :: string

record contentBlockWire =
  cb_Type :: string
  cb_Text :: string
  cb_ID :: string
  cb_Name :: string
  cb_Input :: string
  cb_ToolUseID :: string
  cb_Content :: string
  cb_Source :: "image_source option"

definition dec_source :: "json \<Rightarrow> image_source option" where
  "dec_source j = do {
     ms \<leftarrow> obj_members j; t \<leftarrow> get_string (field ms ''type''); m \<leftarrow> get_string (field ms ''media_type'');
     d \<leftarrow> get_string (field ms ''data''); u \<leftarrow> get_string (field ms ''url'');
     Some \<lparr>src_Type = t, src_MediaType = m, src_Data = d, src_URL = u\<rparr>}"

definition dec_block :: "json \<Rightarrow> contentBlockWire option" where
  "dec_block j = do {
     ms \<leftarrow> obj_members j; t \<leftarrow> get_string (field ms ''type''); x \<leftarrow> get_string (field ms ''text'');
     i \<leftarrow> get_string (field ms ''id''); n \<leftarrow> get_string (field ms ''name'');
     u \<leftarrow> get_string (field ms ''tool_use_id''); s \<leftarrow> get_ptr dec_source (field ms ''source'');
     Some \<lparr>cb_Type = t, cb_Text = x, cb_ID = i, cb_Name = n, cb_Input = get_raw (field ms ''input''), cb_ToolUseID = u,
       cb_Content = get_raw (field ms ''content''), cb_Source = s\<rparr>}"

definition text_value :: "string \<Rightarrow> string option" where
  "text_value raw = do {j \<leftarrow> jparse raw; get_string (Some j)}"

definition blocks_value :: "string \<Rightarrow> contentBlockWire list option" where
  "blocks_value raw = do {j \<leftarrow> jparse raw; get_list dec_block (Some j)}"

definition imageFromBlock :: "contentBlockWire \<Rightarrow> image option" where
  "imageFromBlock blk =
     (case cb_Source blk of
        None \<Rightarrow> None
      | Some s \<Rightarrow>
          if src_Type s = ''base64'' \<and> src_MediaType s \<noteq> [] \<and> src_Data s \<noteq> [] then
            Some \<lparr>im_URL = ''data:'' @ src_MediaType s @ '';base64,'' @ src_Data s, im_Detail = []\<rparr>
          else if src_Type s = ''base64'' then None
          else if src_Type s = ''url'' \<and> src_URL s \<noteq> [] then Some \<lparr>im_URL = src_URL s, im_Detail = []\<rparr>
          else None)"

definition block_image :: "contentBlockWire \<Rightarrow> image list" where
  "block_image blk =
     (if cb_Type blk = ''image'' then (case imageFromBlock blk of None \<Rightarrow> [] | Some i \<Rightarrow> [i]) else [])"

definition block_text :: "contentBlockWire \<Rightarrow> string list" where
  "block_text blk = (if cb_Type blk = ''text'' then [cb_Text blk] else [])"

definition blocksTextAndImages :: "string \<Rightarrow> string \<times> image list" where
  "blocksTextAndImages raw =
     (if raw = [] then ([], [])
      else case text_value raw of
             Some s \<Rightarrow> (s, [])
           | None \<Rightarrow>
               (case blocks_value raw of
                  Some bs \<Rightarrow> (concat (concat (map block_text bs)), concat (map block_image bs))
                | None \<Rightarrow> ([], [])))"

definition blocksText :: "string \<Rightarrow> string" where
  "blocksText raw = fst (blocksTextAndImages raw)"

section \<open>Messages\<close>

record anthropic_message =
  am_Role :: string
  am_Content :: string

text \<open>The local variables of \<open>convertMessage\<close>.\<close>

record conversion =
  cv_out :: "message list"
  cv_texts :: "string list"
  cv_images :: "image list"
  cv_calls :: "toolCall list"

definition cv_flush :: "string \<Rightarrow> conversion \<Rightarrow> conversion" where
  "cv_flush role c =
     (if cv_texts c = [] \<and> cv_images c = [] \<and> cv_calls c = [] then c
      else c\<lparr>cv_out := cv_out c @ [zero_message\<lparr>m_Role := role, m_Content := concat (cv_texts c), m_Images := cv_images c,
               m_ToolCalls := cv_calls c\<rparr>],
             cv_texts := [], cv_images := [], cv_calls := []\<rparr>)"

definition tool_use_call :: "contentBlockWire \<Rightarrow> toolCall" where
  "tool_use_call blk =
     \<lparr>tc_ID = cb_ID blk, tc_Type = ''function'',
      tc_Function = \<lparr>fc_Name = cb_Name blk, fc_Arguments = (if cb_Input blk = [] then ''{}'' else cb_Input blk)\<rparr>,
      tc_ExtraContent = []\<rparr>"

definition tool_result_message :: "contentBlockWire \<Rightarrow> message" where
  "tool_result_message blk =
     (let (text, images) = blocksTextAndImages (cb_Content blk)
      in zero_message\<lparr>m_Role := ''tool'', m_ToolCallID := cb_ToolUseID blk, m_Content := text, m_Images := images\<rparr>)"

definition cv_block :: "string \<Rightarrow> conversion \<Rightarrow> contentBlockWire \<Rightarrow> conversion" where
  "cv_block role c blk =
     (if cb_Type blk = ''text'' then c\<lparr>cv_texts := cv_texts c @ [cb_Text blk]\<rparr>
      else if cb_Type blk = ''image'' then
        (case imageFromBlock blk of None \<Rightarrow> c | Some i \<Rightarrow> c\<lparr>cv_images := cv_images c @ [i]\<rparr>)
      else if cb_Type blk = ''tool_use'' then c\<lparr>cv_calls := cv_calls c @ [tool_use_call blk]\<rparr>
      else if cb_Type blk = ''tool_result'' then
        (let c1 = cv_flush role c in c1\<lparr>cv_out := cv_out c1 @ [tool_result_message blk]\<rparr>)
      else c)"

definition convert_blocks :: "string \<Rightarrow> contentBlockWire list \<Rightarrow> message list" where
  "convert_blocks role bs =
     cv_out (cv_flush role (foldl (cv_block role) \<lparr>cv_out = [], cv_texts = [], cv_images = [], cv_calls = []\<rparr> bs))"

definition convertMessage :: "anthropic_message \<Rightarrow> message list" where
  "convertMessage mw =
     (case text_value (am_Content mw) of
        Some s \<Rightarrow> [zero_message\<lparr>m_Role := am_Role mw, m_Content := s\<rparr>]
      | None \<Rightarrow>
          (case blocks_value (am_Content mw) of
             None \<Rightarrow> [zero_message\<lparr>m_Role := am_Role mw\<rparr>]
           | Some bs \<Rightarrow> convert_blocks (am_Role mw) bs))"

section \<open>Requests\<close>

definition translateToolChoice :: "string \<Rightarrow> string" where
  "translateToolChoice raw =
     (if raw = [] then []
      else case do {j \<leftarrow> jparse raw; ms \<leftarrow> obj_members j; t \<leftarrow> get_string (field ms ''type''); n \<leftarrow> get_string (field ms ''name'');
                    Some (t, n)} of
             None \<Rightarrow> []
           | Some (t, n) \<Rightarrow>
               if t = ''auto'' then ''\"auto\"''
               else if t = ''any'' then ''\"required\"''
               else if t = ''tool'' then
                 (if n = [] then []
                  else jprint (JObj [(''function'', JObj [(''name'', JStr n)]), (''type'', JStr ''function'')]))
               else [])"

record messagesRequestWire =
  qw_Model :: string
  qw_System :: string
  qw_Messages :: "anthropic_message list"
  qw_Tools :: "functionDef list"
  qw_ToolChoice :: string
  qw_MaxTokens :: int
  qw_Temperature :: "rat option"
  qw_Stream :: bool

definition dec_anthropic_message :: "json \<Rightarrow> anthropic_message option" where
  "dec_anthropic_message j = do {
     ms \<leftarrow> obj_members j; r \<leftarrow> get_string (field ms ''role'');
     Some \<lparr>am_Role = r, am_Content = get_raw (field ms ''content'')\<rparr>}"

definition dec_toolWire :: "json \<Rightarrow> functionDef option" where
  "dec_toolWire j = do {
     ms \<leftarrow> obj_members j; n \<leftarrow> get_string (field ms ''name''); d \<leftarrow> get_string (field ms ''description'');
     Some \<lparr>fd_Name = n, fd_Description = d, fd_Parameters = get_raw (field ms ''input_schema'')\<rparr>}"

definition dec_messagesRequest :: "json \<Rightarrow> messagesRequestWire option" where
  "dec_messagesRequest j = do {
     ms \<leftarrow> obj_members j; m \<leftarrow> get_string (field ms ''model''); msgs \<leftarrow> get_list dec_anthropic_message (field ms ''messages'');
     ts \<leftarrow> get_list dec_toolWire (field ms ''tools''); mt \<leftarrow> get_int (field ms ''max_tokens'');
     t \<leftarrow> get_ptr get_float (field ms ''temperature''); s \<leftarrow> get_bool (field ms ''stream'');
     Some \<lparr>qw_Model = m, qw_System = get_raw (field ms ''system''), qw_Messages = msgs, qw_Tools = ts,
       qw_ToolChoice = get_raw (field ms ''tool_choice''), qw_MaxTokens = mt, qw_Temperature = t, qw_Stream = s\<rparr>}"

definition DecodeMessagesRequest :: "string \<Rightarrow> string + chatRequest" where
  "DecodeMessagesRequest body =
     (case do {j \<leftarrow> jdecode body; dec_messagesRequest j} of
        None \<Rightarrow> Inl ''invalid request body''
      | Some w \<Rightarrow>
          if qw_Model w = [] then Inl ''model is required''
          else if qw_Messages w = [] then Inl ''messages is required''
          else if qw_MaxTokens w \<le> 0 then Inl ''max_tokens is required and must be positive''
          else
            (let sys = blocksText (qw_System w);
                 msgs = (if sys \<noteq> [] then [zero_message\<lparr>m_Role := ''system'', m_Content := sys\<rparr>] else [])
                   @ concat (map convertMessage (qw_Messages w))
             in Inr \<lparr>cr_Model = qw_Model w, cr_Messages = msgs,
                  cr_Tools = map (\<lambda>f. \<lparr>tl_Type = ''function'', tl_Function = f\<rparr>) (qw_Tools w),
                  cr_ToolChoice = translateToolChoice (qw_ToolChoice w), cr_ParallelToolCalls = None,
                  cr_Temperature = qw_Temperature w, cr_MaxTokens = Some (qw_MaxTokens w), cr_Stream = qw_Stream w,
                  cr_IncludeStreamUsage = False, cr_Extra = [], cr_ThinkingOff = False\<rparr>))"

section \<open>Responses\<close>

definition contentBlockOut :: "string \<Rightarrow> string \<Rightarrow> string \<Rightarrow> string \<Rightarrow> string \<Rightarrow> json option" where
  "contentBlockOut typ text i name input = do {
     x \<leftarrow> omit_raw ''input'' input;
     Some (JObj ((''type'', JStr typ) # omit_str ''text'' text @ omit_str ''id'' i @ omit_str ''name'' name @ x))}"

definition tool_use_out :: "toolCall \<Rightarrow> json option" where
  "tool_use_out tc =
     (let input = fc_Arguments (tc_Function tc)
      in contentBlockOut ''tool_use'' [] (tc_ID tc) (fc_Name (tc_Function tc)) (if input = [] then ''{}'' else input))"

definition response_content :: "message \<Rightarrow> json list option" where
  "response_content m = do {
     t \<leftarrow> (if m_Content m \<noteq> [] \<or> m_ToolCalls m = [] then map_option (\<lambda>b. [b]) (contentBlockOut ''text'' (m_Content m) [] [] [])
           else Some []);
     ts \<leftarrow> those (map tool_use_out (m_ToolCalls m));
     Some (t @ ts)}"

definition MarshalMessagesResponse :: "string \<Rightarrow> chatResponse \<Rightarrow> string option" where
  "MarshalMessagesResponse randID resp =
     (let choice = (case rs_Choices resp of
                      c # _ \<Rightarrow> c | [] \<Rightarrow> \<lparr>ch_Index = 0, ch_Message = zero_message, ch_FinishReason = []\<rparr>)
      in do {
        bs \<leftarrow> response_content (ch_Message choice);
        Some (jprint (JObj [(''id'', JStr (''msg_'' @ randID)), (''type'', JStr ''message''), (''role'', JStr ''assistant''),
          (''model'', JStr (rs_Model resp)), (''content'', JArr bs), (''stop_reason'', JStr (StopReason (ch_FinishReason choice))),
          (''stop_sequence'', JNull),
          (''usage'', JObj [(''input_tokens'', jint (PromptTokens (rs_Usage resp))),
             (''output_tokens'', jint (CompletionTokens (rs_Usage resp)))])]))})"

text \<open>Runes are counted as the bytes that do not continue one.\<close>

definition rune_count :: "string \<Rightarrow> nat" where
  "rune_count s = length (filter (\<lambda>c. char_code c < 128 \<or> 192 \<le> char_code c) s)"

definition EstimateInputTokens :: "chatRequest \<Rightarrow> int" where
  "EstimateInputTokens req =
     (let t = int (sum_list (map (\<lambda>m. rune_count (m_Content m)) (cr_Messages req))) div 4
      in if t < 1 then 1 else t)"

section \<open>Conversion of a turn\<close>

definition is_result :: "contentBlockWire \<Rightarrow> bool" where
  "is_result b \<longleftrightarrow> cb_Type b = ''tool_result''"

definition block_call :: "contentBlockWire \<Rightarrow> toolCall list" where
  "block_call b = (if cb_Type b = ''tool_use'' then [tool_use_call b] else [])"

text \<open>What the blocks between two tool results become: at most one message.\<close>

definition segment :: "string \<Rightarrow> contentBlockWire list \<Rightarrow> message list" where
  "segment role bs =
     (let texts = concat (map block_text bs); images = concat (map block_image bs); calls = concat (map block_call bs)
      in if texts = [] \<and> images = [] \<and> calls = [] then []
         else [zero_message\<lparr>m_Role := role, m_Content := concat texts, m_Images := images, m_ToolCalls := calls\<rparr>])"

function regroup :: "string \<Rightarrow> contentBlockWire list \<Rightarrow> message list" where
  "regroup role bs =
     segment role (takeWhile (\<lambda>b. \<not> is_result b) bs)
     @ (case dropWhile (\<lambda>b. \<not> is_result b) bs of [] \<Rightarrow> [] | b # r \<Rightarrow> tool_result_message b # regroup role r)"
  by pat_completeness auto
termination
proof (relation "measure (length \<circ> snd)")
  fix role :: string and bs b r
  assume "dropWhile (\<lambda>b. \<not> is_result b) bs = b # r"
  then have "length (b # r) \<le> length bs" by (metis length_dropWhile_le)
  then show "((role, r), (role, bs)) \<in> measure (length \<circ> snd)" by simp
qed simp

declare regroup.simps [simp del]

lemma fold_segment:
  assumes "list_all (\<lambda>b. \<not> is_result b) bs"
  shows "foldl (cv_block role) c bs = c\<lparr>cv_texts := cv_texts c @ concat (map block_text bs),
     cv_images := cv_images c @ concat (map block_image bs), cv_calls := cv_calls c @ concat (map block_call bs)\<rparr>"
  using assms
proof (induction bs arbitrary: c)
  case (Cons b bs)
  have "cv_block role c b = c\<lparr>cv_texts := cv_texts c @ block_text b, cv_images := cv_images c @ block_image b,
      cv_calls := cv_calls c @ block_call b\<rparr>"
    using Cons.prems
    by (auto simp: cv_block_def is_result_def block_text_def block_image_def block_call_def split: option.split)
  then show ?case using Cons by simp
qed simp

lemma flush_segment:
  "cv_flush role \<lparr>cv_out = out, cv_texts = concat (map block_text bs), cv_images = concat (map block_image bs),
      cv_calls = concat (map block_call bs)\<rparr>
   = \<lparr>cv_out = out @ segment role bs, cv_texts = [], cv_images = [], cv_calls = []\<rparr>"
  unfolding cv_flush_def segment_def Let_def by (simp del: concat_eq_Nil_conv)

lemma convert_from:
  "cv_out (cv_flush role (foldl (cv_block role) \<lparr>cv_out = out, cv_texts = [], cv_images = [], cv_calls = []\<rparr> bs))
     = out @ regroup role bs"
proof (induction role bs arbitrary: out rule: regroup.induct)
  case (1 role bs)
  let ?seg = "takeWhile (\<lambda>b. \<not> is_result b) bs" and ?rest = "dropWhile (\<lambda>b. \<not> is_result b) bs"
  have s: "list_all (\<lambda>b. \<not> is_result b) ?seg" by (auto simp: list_all_iff dest: set_takeWhileD)
  have f: "foldl (cv_block role) \<lparr>cv_out = out, cv_texts = [], cv_images = [], cv_calls = []\<rparr> bs
      = foldl (cv_block role) \<lparr>cv_out = out, cv_texts = concat (map block_text ?seg),
          cv_images = concat (map block_image ?seg), cv_calls = concat (map block_call ?seg)\<rparr> ?rest"
  proof -
    have "foldl (cv_block role) c bs = foldl (cv_block role) c (?seg @ ?rest)" for c by simp
    also have "foldl (cv_block role) c (?seg @ ?rest) = foldl (cv_block role) (foldl (cv_block role) c ?seg) ?rest" for c
      by (rule foldl_append)
    finally show ?thesis unfolding fold_segment [OF s] by simp
  qed
  show ?case
  proof (cases ?rest)
    case Nil
    show ?thesis unfolding f Nil
      by (subst regroup.simps) (simp only: Nil list.case foldl_Nil flush_segment append_Nil2 conversion.select_convs)
  next
    case (Cons b r)
    then have "is_result b" using hd_dropWhile by (metis list.discI list.sel(1))
    then have "cv_block role \<lparr>cv_out = out, cv_texts = concat (map block_text ?seg),
          cv_images = concat (map block_image ?seg), cv_calls = concat (map block_call ?seg)\<rparr> b
        = \<lparr>cv_out = (out @ segment role ?seg) @ [tool_result_message b], cv_texts = [], cv_images = [], cv_calls = []\<rparr>"
      by (simp add: cv_block_def is_result_def flush_segment Let_def)
    then show ?thesis unfolding f Cons foldl_Cons using 1 [OF Cons] Cons by (subst regroup.simps) simp
  qed
qed

text \<open>
  C13: One Anthropic turn becomes, in order, one message for each run of text, image
  and tool use blocks, with their text joined, their images and calls in their order, and one tool
  message for each tool result where it stood; nothing is reordered across a tool result and no
  empty message appears.
\<close>
theorem anthropic_turn_regrouped:
  "convert_blocks role bs = regroup role bs"
  unfolding convert_blocks_def using convert_from [of role "[]" bs] by simp

section \<open>Responses read back\<close>

lemma lower_keys_anthropic [simp]:
  "fold_key ''media_type'' = ''media_type''" "fold_key ''data'' = ''data''" "fold_key ''tool_use_id'' = ''tool_use_id''"
  "fold_key ''source'' = ''source''" "fold_key ''input'' = ''input''" "fold_key ''system'' = ''system''"
  "fold_key ''input_schema'' = ''input_schema''" "fold_key ''stop_reason'' = ''stop_reason''"
  "fold_key ''stop_sequence'' = ''stop_sequence''" "fold_key ''input_tokens'' = ''input_tokens''" "fold_key ''output_tokens'' = ''output_tokens''"
  by code_simp+

definition call_wire_ok :: "toolCall \<Rightarrow> bool" where
  "call_wire_ok t \<longleftrightarrow> tc_Type t = ''function'' \<and> tc_ExtraContent t = [] \<and> fc_Arguments (tc_Function t) \<noteq> []
     \<and> raw_ok (fc_Arguments (tc_Function t))"

definition tool_block :: "toolCall \<Rightarrow> contentBlockWire" where
  "tool_block t = \<lparr>cb_Type = ''tool_use'', cb_Text = [], cb_ID = tc_ID t, cb_Name = fc_Name (tc_Function t),
     cb_Input = fc_Arguments (tc_Function t), cb_ToolUseID = [], cb_Content = [], cb_Source = None\<rparr>"

interpretation toolUses: json_codec tool_use_out dec_block call_wire_ok tool_block
proof
  fix t assume a: "call_wire_ok t"
  then have r: "raw_ok (fc_Arguments (tc_Function t))" by (simp add: call_wire_ok_def)
  obtain x where x: "omit_raw ''input'' (fc_Arguments (tc_Function t)) = Some x" "list_all (\<lambda>(k, v). json_ok v) x"
    "get_raw (field x ''input'') = fc_Arguments (tc_Function t)"
    "\<And>k'. fold_key k' \<noteq> fold_key ''input'' \<Longrightarrow> field x k' = None" by (rule omit_raw_code [OF r]) blast
  have n: "field x ''type'' = None" "field x ''text'' = None" "field x ''id'' = None" "field x ''name'' = None"
    "field x ''tool_use_id'' = None" "field x ''source'' = None" "field x ''content'' = None" by (simp_all add: x(4))
  let ?j = "JObj ((''type'', JStr ''tool_use'') # omit_str ''text'' [] @ omit_str ''id'' (tc_ID t)
      @ omit_str ''name'' (fc_Name (tc_Function t)) @ x)"
  have "tool_use_out t = Some ?j" using a by (simp add: tool_use_out_def contentBlockOut_def x(1) call_wire_ok_def Let_def)
  moreover have "json_ok ?j" using x(2) by simp
  moreover have "dec_block ?j = Some (tool_block t)"
    unfolding dec_block_def using x(3) by (simp add: field_Cons field_omit_str n tool_block_def)
  ultimately show "\<exists>j. tool_use_out t = Some j \<and> json_ok j \<and> dec_block j = Some (tool_block t)" by blast
qed

lemma text_block:
  "contentBlockOut ''text'' t [] [] [] = Some (JObj ((''type'', JStr ''text'') # omit_str ''text'' t))"
  "dec_block (JObj ((''type'', JStr ''text'') # omit_str ''text'' t)) = Some \<lparr>cb_Type = ''text'', cb_Text = t, cb_ID = [], cb_Name = [],
     cb_Input = [], cb_ToolUseID = [], cb_Content = [], cb_Source = None\<rparr>"
  by (simp_all add: contentBlockOut_def omit_raw_def dec_block_def field_Cons field_omit_str) (simp_all add: omit_str_def)

text \<open>The turn a response carries, as a client sends it back.\<close>

definition turn_ok :: "message \<Rightarrow> bool" where
  "turn_ok m \<longleftrightarrow> m_Role m = ''assistant'' \<and> m_Images m = [] \<and> m_Name m = [] \<and> m_ToolCallID m = []
     \<and> list_all call_wire_ok (m_ToolCalls m)"

lemma tool_blocks_segment:
  assumes "list_all call_wire_ok ts"
  shows "concat (map block_text (map tool_block ts)) = []" "concat (map block_image (map tool_block ts)) = []"
    "concat (map block_call (map tool_block ts)) = ts" "list_all (\<lambda>b. \<not> is_result b) (map tool_block ts)"
  using assms
  by (induction ts) (auto simp: block_text_def block_image_def block_call_def tool_block_def tool_use_call_def call_wire_ok_def is_result_def)

lemma regroup_segment: "list_all (\<lambda>b. \<not> is_result b) bs \<Longrightarrow> regroup role bs = segment role bs"
proof -
  assume "list_all (\<lambda>b. \<not> is_result b) bs"
  then have e: "takeWhile (\<lambda>b. \<not> is_result b) bs = bs" "dropWhile (\<lambda>b. \<not> is_result b) bs = []"
    by (auto simp: list_all_iff takeWhile_eq_all_conv)
  show ?thesis by (subst regroup.simps) (simp only: e list.case append_Nil2)
qed

lemma response_content_read:
  assumes "turn_ok m"
  obtains bs where "response_content m = Some bs" "list_all json_ok bs" "those (map dec_block bs) \<noteq> None"
    "convert_blocks ''assistant'' (the (those (map dec_block bs))) = [m]"
proof -
  have a: "m_Role m = ''assistant''" "m_Images m = []" "m_Name m = []" "m_ToolCallID m = []" "list_all call_wire_ok (m_ToolCalls m)"
    using assms by (simp_all add: turn_ok_def)
  obtain ts where ts: "those (map tool_use_out (m_ToolCalls m)) = Some ts" "list_all json_ok ts"
    "those (map dec_block ts) = Some (map tool_block (m_ToolCalls m))" by (rule toolUses.code_list [OF a(5)])
  let ?t = "JObj ((''type'', JStr ''text'') # omit_str ''text'' (m_Content m))"
  let ?b = "\<lparr>cb_Type = ''text'', cb_Text = m_Content m, cb_ID = [], cb_Name = [],
     cb_Input = [], cb_ToolUseID = [], cb_Content = [], cb_Source = None\<rparr>"
  note sg = tool_blocks_segment [OF a(5)]
  have tb: "block_text ?b = [m_Content m]" "block_image ?b = []" "block_call ?b = []" "\<not> is_result ?b"
    by (simp_all add: block_text_def block_image_def block_call_def is_result_def)
  have m: "m = zero_message\<lparr>m_Role := ''assistant'', m_Content := m_Content m, m_Images := [], m_ToolCalls := m_ToolCalls m\<rparr>"
    using a by (simp add: zero_message_def)
  have conv: "convert_blocks role cs = regroup role cs" for role cs
    unfolding convert_blocks_def using convert_from [of role "[]" cs] by simp
  show ?thesis
  proof (cases "m_Content m \<noteq> [] \<or> m_ToolCalls m = []")
    case True
    have "segment ''assistant'' (?b # map tool_block (m_ToolCalls m)) = [m]"
      unfolding segment_def Let_def list.map concat.simps tb sg using m by simp
    moreover have "list_all (\<lambda>b. \<not> is_result b) (?b # map tool_block (m_ToolCalls m))" using sg(4) tb(4) by simp
    ultimately have "convert_blocks ''assistant'' (?b # map tool_block (m_ToolCalls m)) = [m]"
      unfolding conv by (simp only: regroup_segment)
    then show ?thesis using True ts text_block by (intro that [of "?t # ts"]) (simp_all add: response_content_def)
  next
    case False
    then have "segment ''assistant'' (map tool_block (m_ToolCalls m)) = [m]"
      unfolding segment_def Let_def sg using m by simp
    then have "convert_blocks ''assistant'' (map tool_block (m_ToolCalls m)) = [m]"
      unfolding conv using sg(4) by (simp only: regroup_segment)
    then show ?thesis using False ts by (intro that [of ts]) (simp_all add: response_content_def)
  qed
qed

text \<open>
  The turn a client receives in a response is the turn the gateway reads when the
  client sends it back: the text and the tool calls, with their identifiers, names and arguments,
  come back as the one assistant message the provider answered with.
\<close>
theorem anthropic_turn_roundtrip:
  assumes "rs_Choices resp = c # cs" and "turn_ok (ch_Message c)"
  shows "\<exists>text ms. MarshalMessagesResponse rid resp = Some text \<and> jparse text = Some (JObj ms)
    \<and> convertMessage \<lparr>am_Role = ''assistant'', am_Content = get_raw (field ms ''content'')\<rparr> = [ch_Message c]"
proof -
  obtain bs where bs: "response_content (ch_Message c) = Some bs" "list_all json_ok bs" "those (map dec_block bs) \<noteq> None"
    "convert_blocks ''assistant'' (the (those (map dec_block bs))) = [ch_Message c]" by (rule response_content_read [OF assms(2)])
  let ?ms = "[(''id'', JStr (''msg_'' @ rid)), (''type'', JStr ''message''), (''role'', JStr ''assistant''),
          (''model'', JStr (rs_Model resp)), (''content'', JArr bs), (''stop_reason'', JStr (StopReason (ch_FinishReason c))),
          (''stop_sequence'', JNull),
          (''usage'', JObj [(''input_tokens'', jint (PromptTokens (rs_Usage resp))),
             (''output_tokens'', jint (CompletionTokens (rs_Usage resp)))])]"
  have ok: "json_ok (JObj ?ms)" "json_ok (JArr bs)" using bs(2) by simp_all
  have e: "MarshalMessagesResponse rid resp = Some (jprint (JObj ?ms))"
    using bs(1) by (simp add: MarshalMessagesResponse_def assms(1) Let_def del: jprint.simps)
  have f: "get_raw (field ?ms ''content'') = jprint (JArr bs)" by (simp add: field_Cons get_raw_def del: jprint.simps)
  have "text_value (jprint (JArr bs)) = None" "blocks_value (jprint (JArr bs)) = those (map dec_block bs)"
    by (simp_all add: text_value_def blocks_value_def jparse_print [OF ok(2)] get_string_def del: jprint.simps)
  then have "convertMessage \<lparr>am_Role = ''assistant'', am_Content = get_raw (field ?ms ''content'')\<rparr> = [ch_Message c]"
    unfolding f using bs(3,4) by (auto simp: convertMessage_def simp del: jprint.simps)
  then show ?thesis using e jparse_print [OF ok(1)] by blast
qed

definition demo_turn :: message where
  "demo_turn = zero_message\<lparr>m_Role := ''assistant'', m_Content := ''ok'', m_ToolCalls := [\<lparr>tc_ID = ''t1'', tc_Type = ''function'',
     tc_Function = \<lparr>fc_Name = ''f'', fc_Arguments = ''{\"x\":1}''\<rparr>, tc_ExtraContent = []\<rparr>]\<rparr>"

theorem anthropic_turn_roundtrip_witness:
  "\<exists>text ms. MarshalMessagesResponse ''00'' \<lparr>rs_ID = [], rs_Model = ''gpt'', rs_Created = 0,
       rs_Choices = [\<lparr>ch_Index = 0, ch_Message = demo_turn, ch_FinishReason = ''tool_calls''\<rparr>], rs_Usage = zero_usage\<rparr> = Some text
     \<and> jparse text = Some (JObj ms)
     \<and> convertMessage \<lparr>am_Role = ''assistant'', am_Content = get_raw (field ms ''content'')\<rparr> = [demo_turn]"
proof -
  let ?r = "\<lparr>rs_ID = [], rs_Model = ''gpt'', rs_Created = 0,
       rs_Choices = [\<lparr>ch_Index = 0, ch_Message = demo_turn, ch_FinishReason = ''tool_calls''\<rparr>], rs_Usage = zero_usage\<rparr>"
  have "raw_ok ''{\"x\":1}''" by code_simp
  then have t: "turn_ok (ch_Message \<lparr>ch_Index = 0, ch_Message = demo_turn, ch_FinishReason = ''tool_calls''\<rparr>)"
    by (simp add: turn_ok_def demo_turn_def zero_message_def call_wire_ok_def)
  have "rs_Choices ?r = \<lparr>ch_Index = 0, ch_Message = demo_turn, ch_FinishReason = ''tool_calls''\<rparr> # []" by simp
  from anthropic_turn_roundtrip [OF this t, of "''00''"] show ?thesis by simp
qed

section \<open>Errors\<close>

lemma those_None: "those xs = None \<longleftrightarrow> None \<in> set xs"
  by (induction xs) (auto split: option.splits)

lemma tool_use_out_None: "tool_use_out t = None \<longleftrightarrow> fc_Arguments (tc_Function t) \<noteq> [] \<and> jparse (fc_Arguments (tc_Function t)) = None"
proof -
  have "jparse ''{}'' = Some (JObj [])" using jparse_print [of "JObj []"] by simp
  then show ?thesis by (auto simp: tool_use_out_def contentBlockOut_def omit_raw_def Let_def bind_eq_None_conv)
qed

text \<open>
  A response cannot be written exactly when the arguments of one of its tool calls
  are neither empty nor JSON; otherwise the client gets the answer.
\<close>
theorem anthropic_response_refused:
  assumes "rs_Choices resp = c # cs"
  shows "MarshalMessagesResponse rid resp = None \<longleftrightarrow>
    (\<exists>t \<in> set (m_ToolCalls (ch_Message c)). fc_Arguments (tc_Function t) \<noteq> [] \<and> jparse (fc_Arguments (tc_Function t)) = None)"
proof -
  have "response_content m = None \<longleftrightarrow> those (map tool_use_out (m_ToolCalls m)) = None" for m
    by (auto simp: response_content_def text_block(1) bind_eq_None_conv)
  moreover have "MarshalMessagesResponse rid resp = None \<longleftrightarrow> response_content (ch_Message c) = None"
    by (auto simp: MarshalMessagesResponse_def assms Let_def bind_eq_None_conv simp del: jprint.simps)
  ultimately show ?thesis by (auto simp: those_None tool_use_out_None eq_commute [of None])
qed

theorem anthropic_response_refused_witness:
  "MarshalMessagesResponse ''00'' \<lparr>rs_ID = [], rs_Model = ''gpt'', rs_Created = 0,
     rs_Choices = [\<lparr>ch_Index = 0, ch_Message = demo_turn\<lparr>m_ToolCalls := [\<lparr>tc_ID = ''t1'', tc_Type = ''function'',
       tc_Function = \<lparr>fc_Name = ''f'', fc_Arguments = ''{\"x\":''\<rparr>, tc_ExtraContent = []\<rparr>]\<rparr>, ch_FinishReason = ''length''\<rparr>],
     rs_Usage = zero_usage\<rparr> = None"
proof -
  let ?t = "\<lparr>tc_ID = ''t1'', tc_Type = ''function'', tc_Function = \<lparr>fc_Name = ''f'', fc_Arguments = ''{\"x\":''\<rparr>, tc_ExtraContent = []\<rparr>"
  let ?c = "\<lparr>ch_Index = 0, ch_Message = demo_turn\<lparr>m_ToolCalls := [?t]\<rparr>, ch_FinishReason = ''length''\<rparr>"
  have "jparse (fc_Arguments (tc_Function ?t)) = None" by code_simp
  moreover have "fc_Arguments (tc_Function ?t) \<noteq> []" "?t \<in> set (m_ToolCalls (ch_Message ?c))" by simp_all
  ultimately have "\<exists>t \<in> set (m_ToolCalls (ch_Message ?c)). fc_Arguments (tc_Function t) \<noteq> [] \<and> jparse (fc_Arguments (tc_Function t)) = None"
    by blast
  moreover have "rs_Choices \<lparr>rs_ID = [], rs_Model = ''gpt'', rs_Created = 0, rs_Choices = [?c], rs_Usage = zero_usage\<rparr> = ?c # []" by simp
  ultimately show ?thesis using anthropic_response_refused by blast
qed

text \<open>
  What passes the decoder: a request names a model, carries a positive token limit
  and, first, the system prompt if there is one; every turn is converted in order; and its tool
  choice is one of the four the upstreams understand.
\<close>
theorem anthropic_request_accepted:
  assumes "DecodeMessagesRequest body = Inr req"
  shows "\<exists>w. Option.bind (jdecode body) dec_messagesRequest = Some w
    \<and> cr_Model req = qw_Model w \<and> qw_Model w \<noteq> [] \<and> cr_MaxTokens req = Some (qw_MaxTokens w) \<and> 0 < qw_MaxTokens w
    \<and> cr_Messages req = (if blocksText (qw_System w) = [] then []
          else [zero_message\<lparr>m_Role := ''system'', m_Content := blocksText (qw_System w)\<rparr>])
        @ concat (map convertMessage (qw_Messages w))
    \<and> (cr_ToolChoice req \<in> {[], ''\"auto\"'', ''\"required\"''}
       \<or> (\<exists>n. n \<noteq> [] \<and> jparse (cr_ToolChoice req)
            = Some (JObj [(''function'', JObj [(''name'', JStr n)]), (''type'', JStr ''function'')])))"
proof -
  obtain w where w: "Option.bind (jdecode body) dec_messagesRequest = Some w"
    using assms by (auto simp: DecodeMessagesRequest_def split: option.splits)
  note run = assms [unfolded DecodeMessagesRequest_def w option.case Let_def]
  have tc: "translateToolChoice raw \<in> {[], ''\"auto\"'', ''\"required\"''}
      \<or> (\<exists>n. n \<noteq> [] \<and> translateToolChoice raw = jprint (JObj [(''function'', JObj [(''name'', JStr n)]), (''type'', JStr ''function'')]))" for raw
    unfolding translateToolChoice_def by (auto simp del: jprint.simps split: option.split)
  have p: "jparse (jprint (JObj [(''function'', JObj [(''name'', JStr n)]), (''type'', JStr ''function'')]))
      = Some (JObj [(''function'', JObj [(''name'', JStr n)]), (''type'', JStr ''function'')])" for n
    by (rule jparse_print) simp
  have "cr_ToolChoice req = translateToolChoice (qw_ToolChoice w)" using run by (auto split: if_splits)
  then have "cr_ToolChoice req \<in> {[], ''\"auto\"'', ''\"required\"''}
       \<or> (\<exists>n. n \<noteq> [] \<and> jparse (cr_ToolChoice req)
            = Some (JObj [(''function'', JObj [(''name'', JStr n)]), (''type'', JStr ''function'')]))"
    using tc [of "qw_ToolChoice w"] p by metis
  moreover have "cr_Model req = qw_Model w \<and> qw_Model w \<noteq> [] \<and> cr_MaxTokens req = Some (qw_MaxTokens w) \<and> 0 < qw_MaxTokens w
    \<and> cr_Messages req = (if blocksText (qw_System w) = [] then []
          else [zero_message\<lparr>m_Role := ''system'', m_Content := blocksText (qw_System w)\<rparr>])
        @ concat (map convertMessage (qw_Messages w))"
    using run by (auto split: if_splits)
  ultimately show ?thesis using w by blast
qed

definition demo_messages_body :: string where
  "demo_messages_body = ''{\"model\":\"m\",\"max_tokens\":9,\"system\":\"s\",\"messages\":[{\"role\":\"user\",\"content\":\"hi\"}],\"tool_choice\":{\"type\":\"any\"}}''"

theorem anthropic_request_accepted_witness:
  "\<exists>req. DecodeMessagesRequest demo_messages_body = Inr req \<and> cr_Model req \<noteq> [] \<and> cr_MaxTokens req \<noteq> None
     \<and> map m_Role (cr_Messages req) = [''system'', ''user'']"
proof -
  have d: "(case DecodeMessagesRequest demo_messages_body of Inr r \<Rightarrow> map m_Role (cr_Messages r) | Inl _ \<Rightarrow> []) = [''system'', ''user'']"
    by code_simp
  then obtain req where r: "DecodeMessagesRequest demo_messages_body = Inr req"
    by (cases "DecodeMessagesRequest demo_messages_body") auto
  have "cr_Model req \<noteq> [] \<and> cr_MaxTokens req \<noteq> None" using anthropic_request_accepted [OF r] by (elim exE conjE) simp
  then show ?thesis using r d by auto
qed

end
