(* ===== verification/Wav.thy ===== *)
theory Wav
  imports GoStrings "HOL-Library.Word" "HOL-Library.Monad_Syntax"
begin

text \<open>
  The RIFF/WAVE header reader (\<open>internal/audio/wav.go\<close>). A slice out of range panics in Go; here it is
  \<open>None\<close>, and so is a walk that never ends, so that a result is a proof of both. Sizes are 32-bit words,
  offsets 64-bit integers with their wrap-around.
\<close>

unbundle bit_operations_syntax

section \<open>Model\<close>

record wavHeader =
  wh_sampleRate :: "32 word"
  wh_byteRate :: "32 word"
  wh_dataSize :: "32 word"

definition zero_header :: wavHeader where
  "zero_header = \<lparr>wh_sampleRate = 0, wh_byteRate = 0, wh_dataSize = 0\<rparr>"

definition slice :: "string \<Rightarrow> int \<Rightarrow> int \<Rightarrow> string option" where
  "slice b i j = (if 0 \<le> i \<and> i \<le> j \<and> j \<le> int (length b) then Some (take (nat (j - i)) (drop (nat i) b)) else None)"

definition le_uint32 :: "string \<Rightarrow> 32 word" where
  "le_uint32 s = word_of_int (foldr (\<lambda>c n. int (char_code c) + 256 * n) s 0)"

text \<open>One chunk: the walk ends with the header, or goes on at the next chunk.\<close>

datatype wav_step = WavEnd wavHeader bool | WavNext int wavHeader bool

definition wav_advance :: "int \<Rightarrow> 32 word \<Rightarrow> wavHeader \<Rightarrow> bool \<Rightarrow> wav_step" where
  "wav_advance off sz32 h sawFormat =
     (let nxt = wrap64 (wrap64 (wrap64 (off + 8) + uint sz32) + uint (sz32 AND 1))
      in if nxt \<le> off then WavEnd h False else WavNext nxt h sawFormat)"

text \<open>A size of zero, or one past the end, stands for what is there.\<close>

definition data_size :: "string \<Rightarrow> int \<Rightarrow> 32 word \<Rightarrow> 32 word" where
  "data_size b body sz32 =
     (let avail = word_of_int (int (length b) - body) in if sz32 = 0 \<or> sz32 > avail then avail else sz32)"

definition wav_chunk :: "string \<Rightarrow> int \<Rightarrow> wavHeader \<Rightarrow> bool \<Rightarrow> wav_step option" where
  "wav_chunk b off h sawFormat = do {
     name \<leftarrow> slice b off (off + 4);
     szb \<leftarrow> slice b (off + 4) (off + 8);
     let sz32 = le_uint32 szb; body = wrap64 (off + 8) in
     if name = ''fmt '' then
       (if wrap64 (body + 12) > int (length b) then Some (WavEnd h False)
        else do {
          sr \<leftarrow> slice b (body + 4) (body + 8);
          br \<leftarrow> slice b (body + 8) (body + 12);
          Some (wav_advance off sz32 (h\<lparr>wh_sampleRate := le_uint32 sr, wh_byteRate := le_uint32 br\<rparr>) True)})
     else if name = ''data'' then
       (if \<not> sawFormat then Some (WavEnd h False)
        else Some (WavEnd (h\<lparr>wh_dataSize := data_size b body sz32\<rparr>) True))
     else Some (wav_advance off sz32 h sawFormat)}"

partial_function (option) wav_walk :: "string \<Rightarrow> int \<Rightarrow> wavHeader \<Rightarrow> bool \<Rightarrow> (wavHeader \<times> bool) option" where
  "wav_walk b off h sawFormat =
     (if wrap64 (off + 8) \<le> int (length b) then
        (case wav_chunk b off h sawFormat of
           None \<Rightarrow> None
         | Some (WavEnd h' ok) \<Rightarrow> Some (h', ok)
         | Some (WavNext off' h' saw) \<Rightarrow> wav_walk b off' h' saw)
      else Some (h, False))"

declare wav_walk.simps [code]

definition readWAVHeader :: "string \<Rightarrow> (wavHeader \<times> bool) option" where
  "readWAVHeader b =
     (if length b < 12 then Some (zero_header, False)
      else do {
        riff \<leftarrow> slice b 0 4;
        wave \<leftarrow> slice b 8 12;
        if riff \<noteq> ''RIFF'' \<or> wave \<noteq> ''WAVE'' then Some (zero_header, False)
        else wav_walk b 12 zero_header False})"

definition WAVSampleRate :: "string \<Rightarrow> (int \<times> bool) option" where
  "WAVSampleRate b = do {
     (h, ok) \<leftarrow> readWAVHeader b;
     if \<not> ok \<or> wh_sampleRate h = 0 then Some (0, False) else Some (uint (wh_sampleRate h), True)}"

text \<open>The quotient is exact here; Go rounds it to a float.\<close>

definition WAVDuration :: "string \<Rightarrow> (rat \<times> bool) option" where
  "WAVDuration b = do {
     (h, ok) \<leftarrow> readWAVHeader b;
     if \<not> ok \<or> wh_byteRate h = 0 then Some (0, False)
     else Some (of_int (uint (wh_dataSize h)) / of_int (uint (wh_byteRate h)), True)}"

section \<open>The walk ends and stays in range\<close>

text \<open>A buffer that fits in memory; the smallest bound the proofs need is far above it.\<close>

definition fits :: "string \<Rightarrow> bool" where
  "fits b \<longleftrightarrow> int (length b) \<le> 2 ^ 62"

lemma slice_some: "\<lbrakk>0 \<le> i; i \<le> j; j \<le> int (length b)\<rbrakk> \<Longrightarrow> \<exists>s. slice b i j = Some s"
  by (simp add: slice_def)

lemma slice_append: "slice b i j = Some s \<Longrightarrow> slice (b @ r) i j = Some s"
  by (auto simp: slice_def split: if_splits)

lemma uint32_range: "0 \<le> uint (x :: 32 word)" "uint (x :: 32 word) < 2 ^ 32"
  using uint_lt2p [of x] by simp_all

lemma wav_advance_forward:
  assumes "12 \<le> off" and "off \<le> 2 ^ 62"
  shows "\<exists>n. wav_advance off sz32 h saw = WavNext n h saw \<and> off + 8 \<le> n \<and> n \<le> off + 2 ^ 34"
proof -
  have s: "0 \<le> uint (sz32 AND 1)" "uint (sz32 AND 1) < 2 ^ 32" "0 \<le> uint sz32" "uint sz32 < 2 ^ 32" by (rule uint32_range)+
  let ?n = "off + 8 + uint sz32 + uint (sz32 AND 1)"
  have e: "wrap64 (off + 8) = off + 8" "wrap64 (off + 8 + uint sz32) = off + 8 + uint sz32" "wrap64 ?n = ?n"
    using assms s by (auto intro!: wrap64_id simp: in_int64_def)
  have "\<not> ?n \<le> off" using s by linarith
  then have "wav_advance off sz32 h saw = WavNext ?n h saw" unfolding wav_advance_def Let_def e by (rule if_not_P)
  moreover have "off + 8 \<le> ?n" "?n \<le> off + 2 ^ 34" using s by auto
  ultimately show ?thesis by blast
qed

lemma wav_chunk_forward:
  assumes "fits b" and "12 \<le> off" and "off + 8 \<le> int (length b)"
  shows "(\<exists>h' ok. wav_chunk b off h saw = Some (WavEnd h' ok))
    \<or> (\<exists>n h' saw'. wav_chunk b off h saw = Some (WavNext n h' saw') \<and> off + 8 \<le> n \<and> n \<le> off + 2 ^ 34)"
proof -
  have o: "off \<le> 2 ^ 62" using assms by (simp add: fits_def)
  have w: "wrap64 (off + 8) = off + 8" "wrap64 (20 + off) = 20 + off"
    using assms(2) o by (auto intro!: wrap64_id simp: in_int64_def)
  obtain name sz where s: "slice b off (off + 4) = Some name" "slice b (off + 4) (off + 8) = Some sz"
    using slice_some [of off "off + 4" b] slice_some [of "off + 4" "off + 8" b] assms(2,3) by auto
  have adv: "\<exists>n. wav_advance off sz32 h saw = WavNext n h saw \<and> off + 8 \<le> n \<and> n \<le> off + 2 ^ 34" for sz32 h saw
    by (rule wav_advance_forward [OF assms(2) o])
  consider (fmt) "name = ''fmt ''" "off + 8 + 12 \<le> int (length b)" | (cut) "name = ''fmt ''" "\<not> off + 8 + 12 \<le> int (length b)"
    | (data) "name = ''data''" | (other) "name \<noteq> ''fmt ''" "name \<noteq> ''data''" by blast
  then show ?thesis
  proof cases
    case fmt
    obtain sr br where r: "slice b (off + 8 + 4) (off + 8 + 8) = Some sr" "slice b (off + 8 + 8) (off + 8 + 12) = Some br"
      using slice_some [of "off + 8 + 4" "off + 8 + 8" b] slice_some [of "off + 8 + 8" "off + 8 + 12" b] assms(2) fmt(2) by auto
    show ?thesis
      using adv [of "le_uint32 sz" "h\<lparr>wh_sampleRate := le_uint32 sr, wh_byteRate := le_uint32 br\<rparr>" True] fmt s r
      by (auto simp: wav_chunk_def w Let_def)
  next
    case other
    then show ?thesis using adv [of "le_uint32 sz" h saw] s by (auto simp: wav_chunk_def w Let_def)
  qed (auto simp: wav_chunk_def s w Let_def)
qed

lemma wav_walk_total:
  assumes "fits b" and "12 \<le> off" and "off \<le> 2 ^ 63 - 9"
  shows "\<exists>r. wav_walk b off h saw = Some r"
  using assms(2,3)
proof (induction "nat (int (length b) - off)" arbitrary: off h saw rule: less_induct)
  case less
  have w: "wrap64 (off + 8) = off + 8" using less.prems by (auto intro!: wrap64_id simp: in_int64_def)
  show ?case
  proof (cases "off + 8 \<le> int (length b)")
    case True
    from wav_chunk_forward [OF assms(1) less.prems(1) True, of h saw] show ?thesis
    proof (elim disjE exE conjE)
      fix n h' saw'
      assume c: "wav_chunk b off h saw = Some (WavNext n h' saw')" "off + 8 \<le> n" "n \<le> off + 2 ^ 34"
      have "\<exists>r. wav_walk b n h' saw' = Some r"
        using less.prems True c(2,3) assms(1) by (intro less.hyps) (auto simp: fits_def)
      then show ?thesis using True by (subst wav_walk.simps) (simp add: w c(1))
    next
      fix h' ok assume "wav_chunk b off h saw = Some (WavEnd h' ok)"
      then show ?thesis using True by (subst wav_walk.simps) (simp add: w)
    qed
  next
    case False
    then show ?thesis by (subst wav_walk.simps) (auto simp: w)
  qed
qed

lemma readWAVHeader_total: "fits b \<Longrightarrow> \<exists>r. readWAVHeader b = Some r"
  using wav_walk_total [of b 12 zero_header False]
  by (auto simp: readWAVHeader_def slice_def)

section \<open>More of the file does not change the format\<close>

lemma wav_chunk_append_next:
  "wav_chunk b off h saw = Some (WavNext n h' saw') \<Longrightarrow> wav_chunk (b @ r) off h saw = Some (WavNext n h' saw')"
  by (auto simp: wav_chunk_def Let_def bind_eq_Some_conv slice_append split: if_splits)

lemma wav_chunk_end:
  "wav_chunk b off h saw = Some (WavEnd h' True) \<longleftrightarrow>
     (\<exists>s. slice b off (off + 4) = Some ''data'' \<and> slice b (off + 4) (off + 8) = Some s \<and> saw
        \<and> h' = h\<lparr>wh_dataSize := data_size b (wrap64 (off + 8)) (le_uint32 s)\<rparr>)"
  unfolding wav_chunk_def wav_advance_def by (auto simp: Let_def bind_eq_Some_conv split: if_splits)

lemma wav_chunk_append_end:
  assumes "wav_chunk b off h saw = Some (WavEnd h' True)"
  shows "\<exists>d. wav_chunk (b @ r) off h saw = Some (WavEnd (h'\<lparr>wh_dataSize := d\<rparr>) True)"
proof -
  obtain s d where "slice (b @ r) off (off + 4) = Some ''data''" "slice (b @ r) (off + 4) (off + 8) = Some s" saw "h' = h\<lparr>wh_dataSize := d\<rparr>"
    using assms unfolding wav_chunk_end by (blast dest: slice_append)
  then show ?thesis unfolding wav_chunk_end by (intro exI conjI) simp_all
qed

lemma wav_walk_append:
  assumes "fits b" and "12 \<le> off" and "off \<le> 2 ^ 63 - 9" and "wav_walk b off h saw = Some (h', True)"
  shows "\<exists>d. wav_walk (b @ r) off h saw = Some (h'\<lparr>wh_dataSize := d\<rparr>, True)"
  using assms(2-4)
proof (induction "nat (int (length b) - off)" arbitrary: off h saw rule: less_induct)
  case less
  have w: "wrap64 (off + 8) = off + 8" using less.prems by (auto intro!: wrap64_id simp: in_int64_def)
  have le: "off + 8 \<le> int (length b)" using less.prems(3) by (subst (asm) wav_walk.simps) (auto simp: w split: if_splits)
  then have le': "off + 8 \<le> int (length (b @ r))" by simp
  from wav_chunk_forward [OF assms(1) less.prems(1) le, of h saw] show ?case
  proof (elim disjE exE conjE)
    fix n h1 saw1
    assume c: "wav_chunk b off h saw = Some (WavNext n h1 saw1)" "off + 8 \<le> n" "n \<le> off + 2 ^ 34"
    have "wav_walk b n h1 saw1 = Some (h', True)" using less.prems(3) le by (subst (asm) wav_walk.simps) (simp add: w c(1))
    then have "\<exists>d. wav_walk (b @ r) n h1 saw1 = Some (h'\<lparr>wh_dataSize := d\<rparr>, True)"
      using less.prems le c(2,3) assms(1) by (intro less.hyps) (auto simp: fits_def)
    then show ?thesis using le' wav_chunk_append_next [OF c(1)] by (subst wav_walk.simps) (simp add: w)
  next
    fix h1 ok assume c: "wav_chunk b off h saw = Some (WavEnd h1 ok)"
    then have "h1 = h' \<and> ok" using less.prems(3) le by (subst (asm) wav_walk.simps) (simp add: w)
    then show ?thesis using le' c wav_chunk_append_end [of b off h saw h1 r] by (subst wav_walk.simps) (auto simp: w)
  qed
qed

lemma sample_rate_append:
  assumes "fits b" and "WAVSampleRate b = Some (rate, True)"
  shows "WAVSampleRate (b @ r) = Some (rate, True)"
proof -
  obtain h where h: "readWAVHeader b = Some (h, True)" "wh_sampleRate h \<noteq> 0" "rate = uint (wh_sampleRate h)"
    using assms(2) by (auto simp: WAVSampleRate_def split: bind_splits if_splits)
  have a: "\<not> length b < 12" "slice b 0 4 = Some ''RIFF''" "slice b 8 12 = Some ''WAVE''" "wav_walk b 12 zero_header False = Some (h, True)"
    using h(1) by (auto simp: readWAVHeader_def split: if_splits bind_splits)
  obtain d where "wav_walk (b @ r) 12 zero_header False = Some (h\<lparr>wh_dataSize := d\<rparr>, True)"
    using wav_walk_append [OF assms(1) _ _ a(4)] by auto
  then show ?thesis using a h(2,3) slice_append [OF a(2), of r] slice_append [OF a(3), of r]
    by (simp add: WAVSampleRate_def readWAVHeader_def)
qed

section \<open>The length is what is there\<close>

lemma wav_chunk_data:
  assumes "wav_chunk b off h saw = Some (WavEnd h' True)" and "in_int64 (off + 8)" and "off + 8 \<le> int (length b)"
    and "int (length b) < 2 ^ 32" and "0 \<le> off"
  shows "saw \<and> uint (wh_dataSize h') \<le> int (length b) - off - 8"
proof -
  have av: "uint (word_of_int x :: 32 word) = x" if "0 \<le> x" "x < 2 ^ 32" for x :: int
    using that by (simp add: uint_word_of_int)
  have a: "uint (word_of_int (int (length b) - (off + 8)) :: 32 word) = int (length b) - (off + 8)"
    using assms(3-5) by (intro av) auto
  have "uint (data_size b (off + 8) s) \<le> int (length b) - (off + 8)" for s
    using a by (cases "s = 0 \<or> s > word_of_int (int (length b) - (off + 8))") (simp_all only: data_size_def Let_def if_True if_False order_refl, simp add: word_less_def)
  then show ?thesis using assms(1,2) unfolding wav_chunk_end by (auto simp: algebra_simps)
qed

text \<open>A format chunk lies before the data: its eight-byte head is behind the walk once it was seen.\<close>

lemma wav_walk_data:
  assumes "fits b" and "int (length b) < 2 ^ 32" and "12 \<le> off" and "off \<le> 2 ^ 63 - 9" and "saw \<longrightarrow> 20 \<le> off"
    and "wav_walk b off h saw = Some (h', True)"
  shows "28 \<le> int (length b) \<and> uint (wh_dataSize h') \<le> int (length b) - 28"
  using assms(3-6)
proof (induction "nat (int (length b) - off)" arbitrary: off h saw rule: less_induct)
  case less
  have w: "wrap64 (off + 8) = off + 8" using less.prems by (auto intro!: wrap64_id simp: in_int64_def)
  have le: "off + 8 \<le> int (length b)" using less.prems(4) by (subst (asm) wav_walk.simps) (auto simp: w split: if_splits)
  from wav_chunk_forward [OF assms(1) less.prems(1) le, of h saw] show ?case
  proof (elim disjE exE conjE)
    fix n h1 saw1
    assume c: "wav_chunk b off h saw = Some (WavNext n h1 saw1)" "off + 8 \<le> n" "n \<le> off + 2 ^ 34"
    have "wav_walk b n h1 saw1 = Some (h', True)" using less.prems(4) le by (subst (asm) wav_walk.simps) (simp add: w c(1))
    then show ?thesis using less.prems le c(2,3) assms(1) by (intro less.hyps) (auto simp: fits_def)
  next
    fix h1 ok assume c: "wav_chunk b off h saw = Some (WavEnd h1 ok)"
    then have e: "h1 = h'" "ok" using less.prems(4) le by (subst (asm) wav_walk.simps, simp add: w)+
    have "in_int64 (off + 8)" using less.prems by (auto simp: in_int64_def)
    from wav_chunk_data [OF _ this le assms(2), of h saw h'] have "saw" "uint (wh_dataSize h') \<le> int (length b) - off - 8"
      using c e less.prems(1) by auto
    moreover have "20 \<le> off" using \<open>saw\<close> less.prems(3) by simp
    ultimately show ?thesis using le by auto
  qed
qed

text \<open>
  C16: The header reader always returns, without reading outside its buffer: every chunk
  moves the walk forward, so the guard against standing still never fires. A data chunk it reports
  is no longer than the bytes behind a header, whatever size the file claims.
\<close>
theorem wav_header_read:
  assumes "fits b"
  shows "\<exists>h ok. readWAVHeader b = Some (h, ok)
    \<and> (ok \<and> int (length b) < 2 ^ 32 \<longrightarrow> 28 \<le> length b \<and> uint (wh_dataSize h) \<le> int (length b) - 28)"
proof -
  obtain h ok where r: "readWAVHeader b = Some (h, ok)" using readWAVHeader_total [OF assms] by auto
  have "28 \<le> length b \<and> uint (wh_dataSize h) \<le> int (length b) - 28" if "ok" "int (length b) < 2 ^ 32"
  proof -
    have "wav_walk b 12 zero_header False = Some (h, True)"
      using r that(1) by (auto simp: readWAVHeader_def bind_eq_Some_conv split: if_splits)
    from wav_walk_data [OF assms that(2) _ _ _ this] show ?thesis by auto
  qed
  with r show ?thesis by blast
qed

text \<open>A file of two samples, with a claimed size of all ones as streaming writers leave it.\<close>

definition demo_wav :: string where
  "demo_wav = ''RIFF'' @ replicate 4 (CHR 0xFF) @ ''WAVE'' @ ''fmt '' @ [CHR 0x10, CHR 0x00, CHR 0x00, CHR 0x00]
     @ [CHR 0x01, CHR 0x00, CHR 0x01, CHR 0x00, CHR 0x40, CHR 0x1F, CHR 0x00, CHR 0x00, CHR 0x80, CHR 0x3E, CHR 0x00, CHR 0x00,
        CHR 0x02, CHR 0x00, CHR 0x10, CHR 0x00]
     @ ''data'' @ replicate 4 (CHR 0xFF) @ ''abcd''"

lemma demo_wav_read: "WAVSampleRate demo_wav = Some (8000, True)" "length demo_wav = 48" "fits demo_wav"
  by code_simp+

theorem wav_header_read_witness:
  "\<exists>h. readWAVHeader demo_wav = Some (h, True) \<and> uint (wh_dataSize h) \<le> 20"
proof -
  note f = demo_wav_read(3,2)
  obtain h ok where h: "readWAVHeader demo_wav = Some (h, ok)"
    "ok \<and> int (length demo_wav) < 2 ^ 32 \<longrightarrow> 28 \<le> length demo_wav \<and> uint (wh_dataSize h) \<le> int (length demo_wav) - 28"
    using wav_header_read [OF f(1)] by blast
  moreover have "ok" using demo_wav_read(1) h(1) by (auto simp: WAVSampleRate_def split: if_splits)
  ultimately show ?thesis using f(2) by auto
qed

end
