(* ===== verification/Speech.thy ===== *)
theory Speech
  imports Wav Errors Routing SpeechCache
begin

text \<open>
  Speech synthesis (\<open>internal/httpapi/api_audio.go\<close>, the types of \<open>internal/audio/audio.go\<close>): the
  streaming of a provider's audio to the client (\<open>streamSpeech\<close>) and one attempt of
  \<open>runSynthesizeTo\<close> with the synthesis cache. The body of an upstream answer is the finite list of
  what its reads deliver; a read error stays. Whether the attempt may answer (\<open>commit\<close>) and which
  writes to the client fail are arguments. A write that fails counts as nothing written.
\<close>

section \<open>Requests and replies\<close>

record speechRequest =
  sr_Model :: string
  sr_Input :: string
  sr_Voice :: string
  sr_Language :: string
  sr_ResponseFormat :: string
  sr_SendLanguage :: string
  sr_Placeholder :: "bool option"
  sr_Idle :: string

record speechResponse =
  sp_Audio :: string
  sp_ContentType :: string
  sp_Model :: string

definition no_speech :: speechResponse where
  "no_speech = \<lparr>sp_Audio = [], sp_ContentType = [], sp_Model = []\<rparr>"

section \<open>The body of an upstream answer\<close>

datatype body_event = BodyBytes string | BodyLast string | BodyError gerr

datatype read_error = EOF | UnexpectedEOF | ShortBuffer | ReadError gerr

record speechStream =
  st_Body :: "body_event list"
  st_ContentType :: string

text \<open>One \<open>Read\<close> into a buffer of \<open>cap\<close> bytes.\<close>

fun body_read :: "nat \<Rightarrow> body_event list \<Rightarrow> string \<times> read_error option \<times> body_event list" where
  "body_read cap [] = ([], Some EOF, [])"
| "body_read cap (BodyBytes s # r) =
     (if length s \<le> cap then (s, None, r) else (take cap s, None, BodyBytes (drop cap s) # r))"
| "body_read cap (BodyLast s # r) =
     (if length s \<le> cap then (s, Some EOF, []) else (take cap s, None, BodyLast (drop cap s) # r))"
| "body_read cap (BodyError e # r) = ([], Some (ReadError e), BodyError e # r)"

fun body_size :: "body_event list \<Rightarrow> nat" where
  "body_size [] = 0"
| "body_size (BodyBytes s # r) = Suc (length s) + body_size r"
| "body_size (BodyLast s # r) = Suc (length s)"
| "body_size (BodyError e # r) = 0"

lemma body_read_less:
  "\<lbrakk>body_read cap body = (s, None, r); 0 < cap\<rbrakk> \<Longrightarrow> body_size r < body_size body"
  by (induction cap body rule: body_read.induct) (auto split: if_splits)

lemma body_read_le: "body_read cap body = (s, e, r) \<Longrightarrow> body_size r \<le> body_size body"
  by (induction cap body rule: body_read.induct) (auto split: if_splits)

text \<open>\<open>io.ReadAtLeast\<close>\<close>

function read_at_least :: "nat \<Rightarrow> nat \<Rightarrow> string \<Rightarrow> body_event list \<Rightarrow> string \<times> read_error option \<times> body_event list" where
  "read_at_least cap mn acc body =
     (if cap < mn then (acc, Some ShortBuffer, body)
      else if mn \<le> length acc then (acc, None, body)
      else case body_read (cap - length acc) body of
             (s, None, r) \<Rightarrow> read_at_least cap mn (acc @ s) r
           | (s, Some e, r) \<Rightarrow>
               if mn \<le> length (acc @ s) then (acc @ s, None, r)
               else (acc @ s, Some (if acc @ s \<noteq> [] \<and> e = EOF then UnexpectedEOF else e), r))"
  by pat_completeness auto
termination
  by (relation "measure (\<lambda>(cap, mn, acc, body). body_size body)") (auto dest: body_read_less [OF sym])

declare read_at_least.simps [simp del]

section \<open>Streaming to the client\<close>

definition maxStreamWAVHeader :: nat where "maxStreamWAVHeader = 64 * 2 ^ 10"

definition maxStreamCacheBytes :: nat where "maxStreamCacheBytes = 16 * 2 ^ 20"

definition streamBuffer :: nat where "streamBuffer = 32 * 2 ^ 10"

lemma streamBuffer_pos [simp]: "0 < streamBuffer" by (simp add: streamBuffer_def)

record speechSink =
  ss_begun :: bool
  ss_head :: "(target \<times> string) option"
  ss_out :: "string list"

definition sink_begin :: "target \<Rightarrow> string \<Rightarrow> speechSink \<Rightarrow> speechSink" where
  "sink_begin t contentType k = k\<lparr>ss_begun := True, ss_head := Some (t, contentType)\<rparr>"

definition sink_write :: "(nat \<Rightarrow> gerr option) \<Rightarrow> string \<Rightarrow> speechSink \<Rightarrow> speechSink \<times> gerr option" where
  "sink_write we b k =
     (case we (length (ss_out k)) of Some e \<Rightarrow> (k, Some e) | None \<Rightarrow> (k\<lparr>ss_out := ss_out k @ [b]\<rparr>, None))"

definition readable_wav :: "string \<Rightarrow> bool" where
  "readable_wav b \<longleftrightarrow> (case WAVSampleRate b of Some (_, ok) \<Rightarrow> ok | None \<Rightarrow> False)"

definition bad_magic :: "string \<Rightarrow> bool" where
  "bad_magic head \<longleftrightarrow> 12 \<le> length head \<and> (take 4 head \<noteq> ''RIFF'' \<or> take 4 (drop 8 head) \<noteq> ''WAVE'')"

text \<open>Reading on until the header reaches the data chunk.\<close>

function wav_head :: "gerr \<Rightarrow> string \<Rightarrow> bool \<Rightarrow> body_event list \<Rightarrow> gerr + string \<times> bool \<times> body_event list" where
  "wav_head notWAV head ended body =
     (if readable_wav head then Inr (head, ended, body)
      else if bad_magic head \<or> ended \<or> maxStreamWAVHeader \<le> length head then Inl notWAV
      else case body_read streamBuffer body of
             (s, None, r) \<Rightarrow> wav_head notWAV (head @ s) False r
           | (s, Some (ReadError e), r) \<Rightarrow> Inl e
           | (s, Some _, r) \<Rightarrow> wav_head notWAV (head @ s) True r)"
  by pat_completeness auto
termination
  by (relation "measure (\<lambda>(nw, head, ended, body). body_size body + (if ended then 0 else 1))")
    (auto dest: body_read_less [OF sym] body_read_le [OF sym])

declare wav_head.simps [simp del]

text \<open>What is kept for the cache once more audio has come.\<close>

definition keep_more :: "string \<Rightarrow> string option \<Rightarrow> string option" where
  "keep_more s kept =
     (case kept of
        None \<Rightarrow> None
      | Some a \<Rightarrow> if s = [] then kept else if maxStreamCacheBytes < length a + length s then None else Some (a @ s))"

function copy_rest ::
  "(nat \<Rightarrow> gerr option) \<Rightarrow> string option \<Rightarrow> speechSink \<Rightarrow> body_event list \<Rightarrow> string option \<times> gerr option \<times> speechSink" where
  "copy_rest we kept k body =
     (case body_read streamBuffer body of (s, e, r) \<Rightarrow>
        (case (if s = [] then (k, None) else sink_write we s k) of
           (k1, Some err) \<Rightarrow> (None, Some err, k1)
         | (k1, None) \<Rightarrow>
             (case e of
                None \<Rightarrow> copy_rest we (keep_more s kept) k1 r
              | Some (ReadError x) \<Rightarrow> (None, Some x, k1)
              | Some _ \<Rightarrow> (keep_more s kept, None, k1))))"
  by pat_completeness auto
termination
  by (relation "measure (\<lambda>(we, kept, k, body). body_size body)") (auto dest: body_read_less [OF sym])

declare copy_rest.simps [simp del]

definition not_wav :: "string \<Rightarrow> string \<Rightarrow> gerr" where
  "not_wav name contentType =
     ProviderErr \<lparr>pe_Status = 502, pe_Retryable = True, pe_Code = [],
       pe_Message = ''upstream '' @ name @ '' answered a wav request with '' @ contentType @ '' that is not a readable WAV'',
       pe_RetryAfter = None\<rparr>"

text \<open>The audio that goes out first, and what is left of the body.\<close>

definition speech_head :: "speechStream \<Rightarrow> string \<Rightarrow> string \<Rightarrow> gerr + string \<times> bool \<times> body_event list" where
  "speech_head st format name =
     (case read_at_least streamBuffer 64 [] (st_Body st) of
        (head, Some (ReadError e), r) \<Rightarrow> Inl e
      | (head, Some ShortBuffer, r) \<Rightarrow> Inl (ErrOther ''short buffer'')
      | (head, e, r) \<Rightarrow>
          if format = ''wav'' then wav_head (not_wav name (st_ContentType st)) head (e \<noteq> None) r
          else Inr (head, e \<noteq> None, r))"

text \<open>The kept audio, the content type, the error, the sink and whether \<open>commit\<close> was asked for.\<close>

definition streamSpeech ::
  "(nat \<Rightarrow> gerr option) \<Rightarrow> speechStream \<Rightarrow> speechRequest \<Rightarrow> string \<Rightarrow> target \<Rightarrow> bool \<Rightarrow> bool \<Rightarrow> speechSink
     \<Rightarrow> string option \<times> string \<times> gerr option \<times> speechSink \<times> bool" where
  "streamSpeech we st inp name t commit keep k =
     (case speech_head st (sr_ResponseFormat inp) name of
        Inl e \<Rightarrow> (None, [], Some e, k, False)
      | Inr (head, ended, r) \<Rightarrow>
          (let contentType = (if sr_ResponseFormat inp = ''wav'' then ''audio/wav'' else st_ContentType st) in
           if \<not> commit then (None, [], Some ErrFirstChunkLate, k, True)
           else
             let k1 = sink_begin t contentType k; kept = (if keep \<and> head \<noteq> [] then Some head else None)
             in case sink_write we head k1 of
                  (k2, Some e) \<Rightarrow> (None, contentType, Some e, k2, True)
                | (k2, None) \<Rightarrow>
                    if ended then (kept, contentType, None, k2, True)
                    else (case copy_rest we kept k2 r of (kept', e, k3) \<Rightarrow> (kept', contentType, e, k3, True))))"

section \<open>What the client hears\<close>

text \<open>The bytes a body delivers, and whether it ends without an error.\<close>

fun body_bytes :: "body_event list \<Rightarrow> string" where
  "body_bytes [] = []"
| "body_bytes (BodyBytes s # r) = s @ body_bytes r"
| "body_bytes (BodyLast s # r) = s"
| "body_bytes (BodyError e # r) = []"

fun body_clean :: "body_event list \<Rightarrow> bool" where
  "body_clean [] = True"
| "body_clean (BodyBytes s # r) = body_clean r"
| "body_clean (BodyLast s # r) = True"
| "body_clean (BodyError e # r) = False"

lemma body_read_spec:
  assumes "body_read cap body = (s, e, r)"
  shows "body_bytes body = s @ body_bytes r" and "length s \<le> cap" and "e = Some EOF \<Longrightarrow> body_bytes r = []"
    and "e = None \<or> e = Some EOF \<or> (\<exists>x. e = Some (ReadError x))" and "body_clean body \<Longrightarrow> body_clean r \<and> (e = None \<or> e = Some EOF)"
  using assms by (induction cap body rule: body_read.induct) (auto split: if_splits)

lemma read_at_least_spec:
  assumes "read_at_least cap mn acc body = (h, e, r)" and "mn \<le> cap" and "length acc \<le> cap"
  shows "acc @ body_bytes body = h @ body_bytes r \<and> length h \<le> cap \<and> (e = None \<or> e = Some EOF \<or> e = Some UnexpectedEOF \<or> (\<exists>x. e = Some (ReadError x)))
    \<and> (e = Some EOF \<or> e = Some UnexpectedEOF \<longrightarrow> body_bytes r = []) \<and> (body_clean body \<longrightarrow> body_clean r \<and> (\<forall>x. e \<noteq> Some (ReadError x)))"
  using assms
proof (induction cap mn acc body rule: read_at_least.induct)
  case (1 cap mn acc body)
  show ?case
  proof (cases "mn \<le> length acc")
    case True
    then show ?thesis using "1.prems" by (subst (asm) read_at_least.simps) auto
  next
    case False
    obtain s e1 r1 where b: "body_read (cap - length acc) body = (s, e1, r1)" by (metis prod_cases3)
    note sp = body_read_spec [OF b]
    have l: "length (acc @ s) \<le> cap" using sp(2) "1.prems"(3) by simp
    show ?thesis
    proof (cases e1)
      case None
      have "read_at_least cap mn (acc @ s) r1 = (h, e, r)"
        using "1.prems"(1,2) False b None by (subst (asm) read_at_least.simps) simp
      from "1.IH" [OF _ False b [symmetric] refl None this "1.prems"(2) l] "1.prems"(2) show ?thesis using sp by auto
    next
      case (Some x)
      have "(h, e, r) = (if mn \<le> length (acc @ s) then (acc @ s, None, r1)
               else (acc @ s, Some (if acc @ s \<noteq> [] \<and> x = EOF then UnexpectedEOF else x), r1))"
        using "1.prems"(1,2) False b Some by (subst (asm) read_at_least.simps) simp
      then show ?thesis using sp l Some by (auto split: if_splits)
    qed
  qed
qed

lemma wav_head_spec:
  assumes "wav_head nw head ended body = Inr (h, ended', r)" and "ended \<longrightarrow> body_bytes body = []"
    and "length head \<le> maxStreamWAVHeader + streamBuffer"
  shows "head @ body_bytes body = h @ body_bytes r \<and> readable_wav h \<and> (ended' \<longrightarrow> body_bytes r = [])
    \<and> length h \<le> maxStreamWAVHeader + streamBuffer \<and> (body_clean body \<longrightarrow> body_clean r)"
  using assms
proof (induction nw head ended body rule: wav_head.induct)
  case (1 nw head ended body)
  show ?case
  proof (cases "readable_wav head")
    case True
    then show ?thesis using "1.prems" by (subst (asm) wav_head.simps) auto
  next
    case False
    then have g: "\<not> (bad_magic head \<or> ended \<or> maxStreamWAVHeader \<le> length head)"
      using "1.prems"(1) by (subst (asm) wav_head.simps) (auto split: if_splits)
    obtain s e r1 where b: "body_read streamBuffer body = (s, e, r1)" by (metis prod_cases3)
    note sp = body_read_spec [OF b]
    have l: "length (head @ s) \<le> maxStreamWAVHeader + streamBuffer" using sp(2) g by simp
    from sp(4) consider "e = None" | "e = Some EOF" | x where "e = Some (ReadError x)" by blast
    then show ?thesis
    proof cases
      case 1
      have w: "wav_head nw (head @ s) False r1 = Inr (h, ended', r)"
        using "1.prems"(1) False g b 1 by (subst (asm) wav_head.simps) simp
      from "1.IH"(1) [OF False g b [symmetric] refl 1 w] l sp 1 show ?thesis by auto
    next
      case 2
      have w: "wav_head nw (head @ s) True r1 = Inr (h, ended', r)"
        using "1.prems"(1) False g b 2 by (subst (asm) wav_head.simps) simp
      from "1.IH"(2) [OF False g b [symmetric] refl 2 _ w] l sp 2 show ?thesis by auto
    next
      case 3
      then show ?thesis using "1.prems"(1) False g b by (subst (asm) wav_head.simps) simp
    qed
  qed
qed

lemma speech_head_spec:
  assumes "speech_head st format name = Inr (h, ended, r)"
  shows "body_bytes (st_Body st) = h @ body_bytes r" and "format = ''wav'' \<Longrightarrow> readable_wav h" and "ended \<Longrightarrow> body_bytes r = []"
    and "length h \<le> maxStreamWAVHeader + streamBuffer" and "body_clean (st_Body st) \<Longrightarrow> body_clean r"
proof -
  obtain h0 e r0 where b: "read_at_least streamBuffer 64 [] (st_Body st) = (h0, e, r0)" by (metis prod_cases3)
  have sp: "body_bytes (st_Body st) = h0 @ body_bytes r0" "length h0 \<le> streamBuffer"
    "e = None \<or> e = Some EOF \<or> e = Some UnexpectedEOF \<or> (\<exists>x. e = Some (ReadError x))"
    "e = Some EOF \<or> e = Some UnexpectedEOF \<Longrightarrow> body_bytes r0 = []" "body_clean (st_Body st) \<Longrightarrow> body_clean r0"
    using read_at_least_spec [OF b] by (auto simp: streamBuffer_def)
  have e: "e \<noteq> None \<Longrightarrow> body_bytes r0 = []" "\<And>x. e \<noteq> Some (ReadError x)" "e \<noteq> Some ShortBuffer"
    using assms sp(3,4) by (auto simp: speech_head_def b)
  have "body_bytes (st_Body st) = h @ body_bytes r \<and> (format = ''wav'' \<longrightarrow> readable_wav h) \<and> (ended \<longrightarrow> body_bytes r = [])
    \<and> length h \<le> maxStreamWAVHeader + streamBuffer \<and> (body_clean (st_Body st) \<longrightarrow> body_clean r)"
  proof (cases "format = ''wav''")
    case True
    have "wav_head (not_wav name (st_ContentType st)) h0 (e \<noteq> None) r0 = Inr (h, ended, r)"
      using assms sp(3) e(2) True by (auto simp: speech_head_def b)
    from wav_head_spec [OF this] e(1) sp show ?thesis by auto
  next
    case False
    then have "h0 = h" "ended \<longleftrightarrow> e \<noteq> None" "r0 = r" using assms sp(3) e(2) by (auto simp: speech_head_def b)
    with False sp e(1) show ?thesis by auto
  qed
  then show "body_bytes (st_Body st) = h @ body_bytes r" "format = ''wav'' \<Longrightarrow> readable_wav h" "ended \<Longrightarrow> body_bytes r = []"
    "length h \<le> maxStreamWAVHeader + streamBuffer" "body_clean (st_Body st) \<Longrightarrow> body_clean r" by blast+
qed

text \<open>What copying leaves in the sink and in the cache's copy.\<close>

definition copied :: "string option \<Rightarrow> speechSink \<Rightarrow> body_event list \<Rightarrow> string option \<times> gerr option \<times> speechSink \<Rightarrow> bool" where
  "copied kept k body res \<longleftrightarrow> (case res of (kept', e, k') \<Rightarrow>
     (\<exists>ws rest. ss_out k' = ss_out k @ ws \<and> body_bytes body = concat ws @ rest \<and> (e = None \<longrightarrow> rest = [])
        \<and> (\<forall>a. kept' = Some a \<longrightarrow> e = None \<and> (\<exists>a0. kept = Some a0 \<and> a = a0 @ concat ws
              \<and> (length a0 \<le> maxStreamCacheBytes \<longrightarrow> length a \<le> maxStreamCacheBytes))))
     \<and> ss_begun k' = ss_begun k \<and> ss_head k' = ss_head k)"

lemma keep_more_Some:
  "keep_more s kept = Some a \<Longrightarrow> \<exists>a0. kept = Some a0 \<and> a = a0 @ s \<and> (length a0 \<le> maxStreamCacheBytes \<longrightarrow> length a \<le> maxStreamCacheBytes)"
  by (auto simp: keep_more_def split: option.splits if_splits)

lemma sink_write_spec:
  assumes "sink_write we s k = (k', e)"
  shows "ss_begun k' = ss_begun k \<and> ss_head k' = ss_head k \<and> (if e = None then ss_out k' = ss_out k @ [s] else k' = k)"
proof (cases "we (length (ss_out k))")
  case None
  with assms have "k' = k\<lparr>ss_out := ss_out k @ [s]\<rparr>" "e = None" by (auto simp: sink_write_def)
  then show ?thesis by simp
next
  case (Some x)
  with assms have "k' = k" "e = Some x" by (auto simp: sink_write_def)
  then show ?thesis by simp
qed

lemma copy_rest_copied: "copied kept k body (copy_rest we kept k body)"
proof (induction we kept k body rule: copy_rest.induct)
  case (1 we kept k body)
  obtain s e r where b: "body_read streamBuffer body = (s, e, r)" by (metis prod_cases3)
  note sp = body_read_spec [OF b]
  obtain k1 we1 where w: "(if s = [] then (k, None) else sink_write we s k) = (k1, we1)" by (metis surj_pair)
  obtain ws where ws: "we1 = None \<longrightarrow> ss_out k1 = ss_out k @ ws \<and> concat ws = s" "ss_begun k1 = ss_begun k" "ss_head k1 = ss_head k"
    "we1 \<noteq> None \<longrightarrow> k1 = k"
  proof (cases "s = []")
    case True
    then show ?thesis using w by (intro that [of "[]"]) auto
  next
    case False
    then show ?thesis using w sink_write_spec [of we s k k1 we1] by (intro that [of "[s]"]) auto
  qed
  show ?case
  proof (cases we1)
    case (Some x)
    then show ?thesis using ws(4) w by (subst copy_rest.simps) (auto simp: b copied_def)
  next
    case None
    from sp(4) consider (more) "e = None" | (eof) "e = Some EOF" | (bad) x where "e = Some (ReadError x)" by blast
    then show ?thesis
    proof cases
      case more
      obtain kept' e' k' where c: "copy_rest we (keep_more s kept) k1 r = (kept', e', k')" by (metis prod_cases3)
      have ih: "copied (keep_more s kept) k1 r (kept', e', k')" using "1.IH" [OF b [symmetric] refl w [symmetric] None more] c by simp
      then obtain vs rest where v: "ss_out k' = ss_out k1 @ vs" "body_bytes r = concat vs @ rest" "e' = None \<longrightarrow> rest = []"
        "\<forall>a. kept' = Some a \<longrightarrow> e' = None \<and> (\<exists>a0. keep_more s kept = Some a0 \<and> a = a0 @ concat vs
           \<and> (length a0 \<le> maxStreamCacheBytes \<longrightarrow> length a \<le> maxStreamCacheBytes))"
        "ss_begun k' = ss_begun k1" "ss_head k' = ss_head k1" by (auto simp: copied_def)
      have k: "e' = None \<and> (\<exists>a0. kept = Some a0 \<and> a = a0 @ concat (ws @ vs)
          \<and> (length a0 \<le> maxStreamCacheBytes \<longrightarrow> length a \<le> maxStreamCacheBytes))" if kept: "kept' = Some a" for a
      proof -
        obtain a0 where a: "keep_more s kept = Some a0" "a = a0 @ concat vs" "e' = None"
          "length a0 \<le> maxStreamCacheBytes \<longrightarrow> length a \<le> maxStreamCacheBytes" using kept v(4) by blast
        then show ?thesis using keep_more_Some [OF a(1)] ws(1) None by auto
      qed
      have "ss_out k' = ss_out k @ (ws @ vs)" "body_bytes body = concat (ws @ vs) @ rest" "ss_begun k' = ss_begun k" "ss_head k' = ss_head k"
        using v ws None sp(1) by auto
      then have "copied kept k body (kept', e', k')" unfolding copied_def prod.case using k v(3) by blast
      then show ?thesis using c w None more by (subst copy_rest.simps) (simp add: b)
    next
      case eof
      then have "copied kept k body (keep_more s kept, None, k1)"
        unfolding copied_def prod.case using ws None sp(1,3) keep_more_Some [of s kept] by (intro conjI exI [of _ ws] exI [of _ "[]"]) auto
      then show ?thesis using w None eof by (subst copy_rest.simps) (simp add: b)
    next
      case bad
      then have "copied kept k body (None, Some x, k1)"
        unfolding copied_def prod.case using ws None sp(1) by (intro conjI exI [of _ ws] exI [of _ "body_bytes r"]) auto
      then show ?thesis using w None bad by (subst copy_rest.simps) (simp add: b)
    qed
  qed
qed

lemma readable_append: "\<lbrakk>readable_wav b; fits b\<rbrakk> \<Longrightarrow> readable_wav (b @ r)"
  using sample_rate_append [of b] by (auto simp: readable_wav_def split: option.splits prod.splits)

lemma short_fits: "length h \<le> maxStreamWAVHeader + streamBuffer \<Longrightarrow> fits h"
  by (simp add: fits_def maxStreamWAVHeader_def streamBuffer_def)

text \<open>
  C17: A streamed reply is the upstream's audio: nothing goes out before the attempt is
  committed, what goes out is the upstream's bytes in order and all of them unless an error is
  reported, a WAV request is only ever answered with a readable WAV, and what is kept for the cache
  is the whole clip, within its limit.
\<close>
theorem speech_stream_faithful:
  assumes "streamSpeech we st inp name t commit keep k = (kept, ct, err, k', asked)" and "ss_out k = []" and "\<not> ss_begun k"
  shows "(\<exists>rest. body_bytes (st_Body st) = concat (ss_out k') @ rest \<and> (err = None \<longrightarrow> rest = []))
    \<and> (ss_begun k' \<longrightarrow> commit \<and> asked \<and> ss_head k' = Some (t, ct))
    \<and> (\<not> ss_begun k' \<longrightarrow> ss_out k' = [] \<and> err \<noteq> None)
    \<and> (sr_ResponseFormat inp = ''wav'' \<and> ss_out k' \<noteq> [] \<longrightarrow> ct = ''audio/wav'' \<and> readable_wav (concat (ss_out k')))
    \<and> (\<forall>a. kept = Some a \<longrightarrow> err = None \<and> a = body_bytes (st_Body st) \<and> length a \<le> maxStreamCacheBytes)"
proof (cases "speech_head st (sr_ResponseFormat inp) name")
  case (Inl e)
  then show ?thesis using assms by (auto simp: streamSpeech_def)
next
  case (Inr hr)
  obtain h ended r where hr: "hr = (h, ended, r)" by (metis prod_cases3)
  note sp = speech_head_spec [OF Inr [unfolded hr]]
  let ?ct = "if sr_ResponseFormat inp = ''wav'' then ''audio/wav'' else st_ContentType st"
  let ?kept = "if keep \<and> h \<noteq> [] then Some h else None"
  show ?thesis
  proof (cases commit)
    case False
    then show ?thesis using assms by (auto simp: streamSpeech_def Inr hr Let_def)
  next
    case True
    obtain k2 e2 where w: "sink_write we h (sink_begin t ?ct k) = (k2, e2)" by (metis surj_pair)
    have k2: "ss_begun k2" "ss_head k2 = Some (t, ?ct)" "ss_out k2 = (if e2 = None then [h] else [])"
      using sink_write_spec [OF w] assms(2) by (auto simp: sink_begin_def split: if_splits)
    have hl: "length h \<le> maxStreamCacheBytes" using sp(4) by (simp add: maxStreamWAVHeader_def streamBuffer_def maxStreamCacheBytes_def)
    have wav: "sr_ResponseFormat inp = ''wav'' \<longrightarrow> readable_wav (h @ x)" for x
      using sp(2) readable_append short_fits [OF sp(4)] by blast
    consider (failed) "e2 \<noteq> None" | (whole) "e2 = None" ended | (more) "e2 = None" "\<not> ended" by blast
    then show ?thesis
    proof cases
      case failed
      then have "(kept, ct, err, k', asked) = (None, ?ct, e2, k2, True)"
        using assms(1) True w by (auto simp: streamSpeech_def Inr hr Let_def)
      then show ?thesis using failed k2 True by auto
    next
      case whole
      then have "(kept, ct, err, k', asked) = (?kept, ?ct, None, k2, True)"
        using assms(1) True w by (simp add: streamSpeech_def Inr hr Let_def)
      then show ?thesis using whole k2 True sp(1,3) hl wav [of "[]"] by simp
    next
      case more
      obtain kept' e3 k3 where c: "copy_rest we ?kept k2 r = (kept', e3, k3)" by (metis prod_cases3)
      then have eq: "(kept, ct, err, k', asked) = (kept', ?ct, e3, k3, True)"
        using assms(1) True w more by (simp add: streamSpeech_def Inr hr Let_def)
      obtain ws rest where v: "ss_out k3 = ss_out k2 @ ws" "body_bytes r = concat ws @ rest" "e3 = None \<longrightarrow> rest = []"
        "\<And>a. kept' = Some a \<Longrightarrow> e3 = None \<and> (\<exists>a0. ?kept = Some a0 \<and> a = a0 @ concat ws
            \<and> (length a0 \<le> maxStreamCacheBytes \<longrightarrow> length a \<le> maxStreamCacheBytes))"
        "ss_begun k3 = ss_begun k2" "ss_head k3 = ss_head k2"
        using copy_rest_copied [of ?kept k2 r we] unfolding c copied_def prod.case by blast
      have kp: "e3 = None \<and> a = h @ concat ws \<and> length a \<le> maxStreamCacheBytes" if "kept' = Some a" for a
        using v(4) [OF that] hl by (auto split: if_splits)
      then show ?thesis using eq more k2 True v sp(1) wav [of "concat ws"] by auto
    qed
  qed
qed

section \<open>A readable clip is passed on\<close>

lemma readable_magic: "readable_wav b \<Longrightarrow> 12 \<le> length b \<and> take 4 b = ''RIFF'' \<and> take 4 (drop 8 b) = ''WAVE''"
  by (auto simp: readable_wav_def WAVSampleRate_def readWAVHeader_def slice_def bind_eq_Some_conv split: if_splits option.splits)

lemma magic_prefix: "12 \<le> length a \<Longrightarrow> take 4 (a @ c) = take 4 a \<and> take 4 (drop 8 (a @ c)) = take 4 (drop 8 a)"
  by simp

lemma readable_prefix:
  assumes "readable_wav (take n b)" and "n \<le> maxStreamWAVHeader"
  shows "readable_wav b" and "b = head @ r \<Longrightarrow> \<not> bad_magic head" and "\<lbrakk>b = head @ r; maxStreamWAVHeader \<le> length head\<rbrakk> \<Longrightarrow> readable_wav head"
proof -
  have f: "fits (take n b)" using assms(2) by (simp add: fits_def maxStreamWAVHeader_def)
  then show "readable_wav b" using readable_append [OF assms(1) f, of "drop n b"] by simp
  show "\<not> bad_magic head" if "b = head @ r"
  proof
    assume m: "bad_magic head"
    then have "take 4 b = take 4 head \<and> take 4 (drop 8 b) = take 4 (drop 8 head)" using magic_prefix [of head r] that by (simp add: bad_magic_def)
    moreover have "take 4 b = take 4 (take n b) \<and> take 4 (drop 8 b) = take 4 (drop 8 (take n b))"
      using magic_prefix [of "take n b" "drop n b"] readable_magic [OF assms(1)] unfolding append_take_drop_id by metis
    ultimately show False using m readable_magic [OF assms(1)] unfolding bad_magic_def by metis
  qed
  show "readable_wav head" if "b = head @ r" "maxStreamWAVHeader \<le> length head"
    using readable_append [OF assms(1) f, of "drop n head"] that assms(2) by simp
qed

lemma wav_head_accepts:
  assumes "body_clean body" and "readable_wav (take n (head @ body_bytes body))" and "n \<le> maxStreamWAVHeader"
    and "ended \<longrightarrow> body_bytes body = []"
  shows "\<exists>x. wav_head nw head ended body = Inr x"
  using assms
proof (induction nw head ended body rule: wav_head.induct)
  case (1 nw head ended body)
  show ?case
  proof (cases "readable_wav head")
    case False
    note rp = readable_prefix [OF "1.prems"(2,3)]
    have g: "\<not> (bad_magic head \<or> ended \<or> maxStreamWAVHeader \<le> length head)"
      using rp(1) rp(2) [OF refl] rp(3) [OF refl] "1.prems"(4) False by auto
    obtain s e r where b: "body_read streamBuffer body = (s, e, r)" by (metis prod_cases3)
    note sp = body_read_spec [OF b]
    consider (more) "e = None" | (eof) "e = Some EOF" using sp(5) "1.prems"(1) by blast
    then show ?thesis
    proof cases
      case more
      have "\<exists>x. wav_head nw (head @ s) False r = Inr x"
        using "1.IH"(1) [OF False g b [symmetric] refl more] "1.prems" sp by auto
      then show ?thesis using False g b more by (subst wav_head.simps) simp
    next
      case eof
      have "\<exists>x. wav_head nw (head @ s) True r = Inr x"
        using "1.IH"(2) [OF False g b [symmetric] refl eof] "1.prems" sp eof by auto
      then show ?thesis using False g b eof by (subst wav_head.simps) simp
    qed
  qed (subst wav_head.simps, simp)
qed

lemma speech_head_accepts:
  assumes "body_clean (st_Body st)" and "format = ''wav'' \<Longrightarrow> readable_wav (take n (body_bytes (st_Body st))) \<and> n \<le> maxStreamWAVHeader"
  shows "\<exists>x. speech_head st format name = Inr x"
proof -
  obtain h e r where b: "read_at_least streamBuffer 64 [] (st_Body st) = (h, e, r)" by (metis prod_cases3)
  have sp: "body_bytes (st_Body st) = h @ body_bytes r" "body_clean r" "e = None \<or> e = Some EOF \<or> e = Some UnexpectedEOF"
    "e = Some EOF \<or> e = Some UnexpectedEOF \<longrightarrow> body_bytes r = []"
    using read_at_least_spec [OF b] assms(1) by (auto simp: streamBuffer_def)
  have "\<exists>x. wav_head nw h (e \<noteq> None) r = Inr x" if "format = ''wav''" for nw
    using wav_head_accepts [OF sp(2)] assms(2) [OF that] sp(1,3,4) by metis
  then show ?thesis using sp(3) by (auto simp: speech_head_def b)
qed

lemma copy_rest_clean:
  "\<lbrakk>\<forall>n. we n = None; body_clean body\<rbrakk> \<Longrightarrow> fst (snd (copy_rest we kept k body)) = None"
proof (induction we kept k body rule: copy_rest.induct)
  case (1 we kept k body)
  obtain s e r where b: "body_read streamBuffer body = (s, e, r)" by (metis prod_cases3)
  note sp = body_read_spec [OF b]
  have "\<exists>k1. (if s = [] then (k, None) else sink_write we s k) = (k1, None)" by (cases "s = []") (use "1.prems"(1) in \<open>simp_all add: sink_write_def\<close>)
  then obtain k1 where w: "(if s = [] then (k, None) else sink_write we s k) = (k1, None)" ..
  consider (more) "e = None" | (eof) "e = Some EOF" using sp(5) "1.prems"(2) by blast
  then show ?case
  proof cases
    case more
    have "fst (snd (copy_rest we (keep_more s kept) k1 r)) = None"
      using sp(5) "1.prems"(2) by (intro "1.IH" [OF b [symmetric] refl w [symmetric] refl more "1.prems"(1)]) blast
    then show ?thesis using more w by (subst copy_rest.simps) (simp add: b)
  qed (subst copy_rest.simps, simp add: b w)
qed

lemma stream_complete:
  assumes "body_clean (st_Body st)" and "\<forall>n. we n = None"
    and "sr_ResponseFormat inp = ''wav'' \<Longrightarrow> readable_wav (take n (body_bytes (st_Body st))) \<and> n \<le> maxStreamWAVHeader"
  shows "\<exists>kept ct k'. streamSpeech we st inp name t True keep k = (kept, ct, None, k', True)
    \<and> concat (ss_out k') = concat (ss_out k) @ body_bytes (st_Body st)"
proof -
  obtain h ended r where hr: "speech_head st (sr_ResponseFormat inp) name = Inr (h, ended, r)"
    using speech_head_accepts [OF assms(1,3)] by (metis prod_cases3)
  note sp = speech_head_spec [OF hr]
  define ct where "ct = (if sr_ResponseFormat inp = ''wav'' then ''audio/wav'' else st_ContentType st)"
  define kept where "kept = (if keep \<and> h \<noteq> [] then Some h else None)"
  define k2 where "k2 = (sink_begin t ct k)\<lparr>ss_out := ss_out k @ [h]\<rparr>"
  have w: "sink_write we h (sink_begin t ct k) = (k2, None)" by (simp add: sink_write_def assms(2) k2_def sink_begin_def)
  have s: "streamSpeech we st inp name t True keep k =
    (if ended then (kept, ct, None, k2, True) else case copy_rest we kept k2 r of (kept', e, k3) \<Rightarrow> (kept', ct, e, k3, True))"
    unfolding streamSpeech_def hr sum.case prod.case Let_def ct_def [symmetric] kept_def [symmetric] w by simp
  show ?thesis
  proof (cases ended)
    case True
    then show ?thesis using s sp(1,3) by (simp add: k2_def)
  next
    case False
    obtain kept' e k3 where c: "copy_rest we kept k2 r = (kept', e, k3)" by (metis prod_cases3)
    have "e = None" using copy_rest_clean [OF assms(2) sp(5) [OF assms(1)], where kept = kept and k = k2] c by simp
    moreover have "concat (ss_out k3) = concat (ss_out k2) @ body_bytes r"
      using copy_rest_copied [of kept k2 r we] c \<open>e = None\<close> by (auto simp: copied_def)
    ultimately show ?thesis using False s c sp(1) by (simp add: k2_def)
  qed
qed

text \<open>
  C40: Streaming refuses nothing it should pass on: a body that ends without an error is
  sent out whole, for a WAV request whenever its header is readable within the first 64 KiB, however
  the upstream cuts it into reads.
\<close>
theorem speech_stream_complete:
  assumes "body_clean (st_Body st)" and "\<forall>n. we n = None"
    and "sr_ResponseFormat inp = ''wav'' \<Longrightarrow> readable_wav (take n (body_bytes (st_Body st))) \<and> n \<le> maxStreamWAVHeader"
  shows "\<exists>kept ct k'. streamSpeech we st inp name t True keep k = (kept, ct, None, k', True)
    \<and> concat (ss_out k') = concat (ss_out k) @ body_bytes (st_Body st)"
  by (rule stream_complete [OF assms])

text \<open>The demo file in two reads, the first of which ends inside its header.\<close>

definition demo_stream :: speechStream where
  "demo_stream = \<lparr>st_Body = [BodyBytes (take 20 demo_wav), BodyLast (drop 20 demo_wav)], st_ContentType = ''audio/x-wav''\<rparr>"

definition demo_speech :: speechRequest where
  "demo_speech = \<lparr>sr_Model = ''m'', sr_Input = ''hi'', sr_Voice = ''v'', sr_Language = [], sr_ResponseFormat = ''wav'',
     sr_SendLanguage = [], sr_Placeholder = None, sr_Idle = []\<rparr>"

definition demo_speech_sink :: speechSink where
  "demo_speech_sink = \<lparr>ss_begun = False, ss_head = None, ss_out = []\<rparr>"

lemma demo_stream_ok:
  "body_clean (st_Body demo_stream)" "body_bytes (st_Body demo_stream) = demo_wav"
  "sr_ResponseFormat demo_speech = ''wav'' \<Longrightarrow> readable_wav (take 48 (body_bytes (st_Body demo_stream))) \<and> 48 \<le> maxStreamWAVHeader"
  using demo_wav_read by (simp_all add: demo_stream_def readable_wav_def maxStreamWAVHeader_def)

lemma demo_streamed:
  obtains kept ct k' where "streamSpeech (\<lambda>_. None) demo_stream demo_speech ''p'' t True True demo_speech_sink = (kept, ct, None, k', True)"
    "concat (ss_out k') = demo_wav"
  using stream_complete [where st = demo_stream and we = "\<lambda>_. None" and inp = demo_speech and n = 48 and name = "''p''" and t = t and keep = True
      and k = demo_speech_sink] demo_stream_ok
  by (auto simp: demo_stream_ok(2) demo_speech_sink_def)

theorem speech_stream_complete_witness:
  "\<exists>kept ct k'. streamSpeech (\<lambda>_. None) demo_stream demo_speech ''p'' (demo_target ''p'') True False demo_speech_sink = (kept, ct, None, k', True)
     \<and> concat (ss_out k') = demo_wav"
  using speech_stream_complete [where st = demo_stream and we = "\<lambda>_. None" and inp = demo_speech and n = 48 and name = "''p''" and t = "demo_target ''p''"
      and keep = False and k = demo_speech_sink] demo_stream_ok
  by (auto simp: demo_stream_ok(2) demo_speech_sink_def)

theorem speech_stream_faithful_witness:
  "\<exists>kept ct k'. streamSpeech (\<lambda>_. None) demo_stream demo_speech ''p'' (demo_target ''p'') True True demo_speech_sink = (kept, ct, None, k', True)
     \<and> readable_wav (concat (ss_out k')) \<and> ct = ''audio/wav'' \<and> ss_head k' = Some (demo_target ''p'', ct)"
proof -
  obtain kept ct k' where r: "streamSpeech (\<lambda>_. None) demo_stream demo_speech ''p'' (demo_target ''p'') True True demo_speech_sink = (kept, ct, None, k', True)"
    "concat (ss_out k') = demo_wav" by (rule demo_streamed)
  moreover have "demo_wav \<noteq> []" by (simp add: demo_wav_def)
  moreover have "sr_ResponseFormat demo_speech = ''wav''" by (simp add: demo_speech_def)
  ultimately show ?thesis using speech_stream_faithful [OF r(1)] by (force simp: demo_speech_sink_def)
qed

section \<open>One attempt of a synthesis\<close>

text \<open>What a provider offers; a missing operation is an interface it does not implement.\<close>

record speech_provider =
  spr_name :: string
  spr_synthesize :: "(speechRequest \<Rightarrow> gerr + speechResponse) option"
  spr_stream :: "(speechRequest \<Rightarrow> gerr + speechStream) option"
  spr_video :: "(speechRequest \<Rightarrow> gerr + speechStream) option"

definition unsupported :: "string \<Rightarrow> string \<Rightarrow> gerr" where
  "unsupported name what = ProviderErr \<lparr>pe_Status = 400, pe_Retryable = False, pe_Code = [],
     pe_Message = ''provider '' @ name @ what, pe_RetryAfter = None\<rparr>"

definition supports_speech :: "speech_provider \<Rightarrow> gerr option" where
  "supports_speech p = (if spr_synthesize p = None then Some (unsupported (spr_name p) '' does not support speech synthesis'') else None)"

definition no_voice :: "target \<Rightarrow> string \<Rightarrow> gerr" where
  "no_voice t voice = ProviderErr \<lparr>pe_Status = 400, pe_Retryable = False, pe_Code = ErrCodeVoiceNotSupported,
     pe_Message = ''target '' @ tg_Provider t @ ''/'' @ tg_UpstreamModel t @ '' has no voice for '' @ voice, pe_RetryAfter = None\<rparr>"

text \<open>The request as one target speaks it.\<close>

definition spoken_language :: "speechRequest \<Rightarrow> string" where
  "spoken_language req = (if sr_Language req = [] then VoiceLanguage (sr_Voice req) else sr_Language req)"

definition speech_for :: "speechRequest \<Rightarrow> bool \<Rightarrow> target \<Rightarrow> gerr + speechRequest" where
  "speech_for req sends t =
     (case SpeakAs (tg_Options t) (sr_Voice req) (sr_Language req) of
        None \<Rightarrow> Inl (no_voice t (sr_Voice req))
      | Some choice \<Rightarrow>
          Inr (req\<lparr>sr_Model := (if vc_Model choice \<noteq> [] then vc_Model choice else tg_UpstreamModel t),
                  sr_Voice := vc_Voice choice,
                  sr_SendLanguage := (if sends then spoken_language req else sr_SendLanguage req)\<rparr>))"

abbreviation cacheHit :: string where "cacheHit \<equiv> ''hit''"
abbreviation cacheMiss :: string where "cacheMiss \<equiv> ''miss''"
abbreviation cacheError :: string where "cacheError \<equiv> ''error''"
abbreviation cacheSkipped :: string where "cacheSkipped \<equiv> ''skipped''"

record 's speech_env =
  se_kv :: "'s skv"
  se_sha :: "nat list \<Rightarrow> string"
  se_now :: gotime
  se_wall :: gotime
  se_ctx :: bool
  se_write :: "nat \<Rightarrow> gerr option"

text \<open>The variables of the closure, the sink of the reply and the cache.\<close>

record 's speech_state =
  ps_resp :: speechResponse
  ps_streamed :: bool
  ps_served :: string
  ps_label :: string
  ps_cache :: string
  ps_key :: skey
  ps_sink :: "speechSink option"
  ps_store :: "'s scache"

definition speech_key :: "plan \<Rightarrow> target \<Rightarrow> speechRequest \<Rightarrow> skey" where
  "speech_key p t inp = \<lparr>sk_Alias = pl_Alias p, sk_Provider = tg_Provider t, sk_Model = sr_Model inp, sk_Voice = sr_Voice inp,
     sk_Language = sr_Language inp, sk_Format = sr_ResponseFormat inp, sk_Text = sr_Input inp\<rparr>"

text \<open>The provider is called: streamed to the sink where the target asks for it, else answered whole.\<close>

definition speech_call ::
  "'s speech_env \<Rightarrow> speech_provider \<Rightarrow> target \<Rightarrow> bool \<Rightarrow> speechRequest \<Rightarrow> 's speech_state \<Rightarrow> gerr option \<times> bool \<times> 's speech_state" where
  "speech_call E p t commit inp ps =
     (case (spr_stream p, ps_sink ps, StreamsSpeech (tg_Options t)) of
        (Some stream, Some k, True) \<Rightarrow>
          (case stream inp of
             Inl e \<Rightarrow> (Some e, False, ps)
           | Inr st \<Rightarrow>
               (case streamSpeech (se_write E) st inp (spr_name p) t commit (ps_cache ps = cacheMiss) k of
                  (kept, ct, err, k', asked) \<Rightarrow>
                    (err, asked, ps\<lparr>ps_sink := Some k', ps_streamed := ss_begun k',
                       ps_resp := \<lparr>sp_Audio = (case kept of None \<Rightarrow> [] | Some a \<Rightarrow> a), sp_ContentType = ct, sp_Model = []\<rparr>,
                       ps_served := sr_Model inp, ps_label := tg_DisplayLabel t,
                       ps_cache := (if kept = None \<and> ps_cache ps = cacheMiss then cacheSkipped else ps_cache ps)\<rparr>)))
      | _ \<Rightarrow>
          (case spr_synthesize p of
             None \<Rightarrow> (Some (ErrOther ''interface conversion''), False, ps)
           | Some synthesize \<Rightarrow>
               (case synthesize inp of
                  Inl e \<Rightarrow> (Some e, False, ps)
                | Inr out \<Rightarrow>
                    if sr_ResponseFormat inp = ''wav'' \<and> \<not> readable_wav (sp_Audio out)
                    then (Some (not_wav (spr_name p) (sp_ContentType out)), False, ps)
                    else (None, False, ps\<lparr>
                       ps_resp := (if sr_ResponseFormat inp = ''wav'' then out\<lparr>sp_ContentType := ''audio/wav''\<rparr> else out),
                       ps_served := (if sp_Model out \<noteq> [] then sp_Model out else sr_Model inp), ps_label := tg_DisplayLabel t\<rparr>))))"

text \<open>One attempt: the target's voice, the cache, then the provider.\<close>

definition speech_attempt ::
  "'s speech_env \<Rightarrow> plan \<Rightarrow> speechRequest \<Rightarrow> speech_provider \<Rightarrow> target \<Rightarrow> bool \<Rightarrow> 's speech_state \<Rightarrow> gerr option \<times> bool \<times> 's speech_state" where
  "speech_attempt E pl req p t commit ps0 =
     (case speech_for req (SendsLanguage (tg_Options t)) t of
        Inl e \<Rightarrow> (Some e, False, ps0)
      | Inr inp \<Rightarrow>
          (let ps = ps0\<lparr>ps_cache := []\<rparr> in
           if \<not> pl_SynthesisCache pl then speech_call E p t commit inp ps
           else
             let key = speech_key pl t inp in
             case sc_Get (se_kv E) (se_sha E) (se_now E) (se_wall E) (se_ctx E) key (ps_store ps) of
               (Inr (Some clip), c) \<Rightarrow>
                 (Some ErrServedWithoutCall, False,
                  ps\<lparr>ps_key := key, ps_store := c, ps_resp := \<lparr>sp_Audio = cl_Audio clip, sp_ContentType = cl_ContentType clip, sp_Model = []\<rparr>,
                     ps_served := cl_Model clip, ps_label := cl_Label clip, ps_cache := cacheHit\<rparr>)
             | (Inl err, c) \<Rightarrow> speech_call E p t commit inp (ps\<lparr>ps_key := key, ps_store := c, ps_cache := cacheError\<rparr>)
             | (Inr None, c) \<Rightarrow> speech_call E p t commit inp (ps\<lparr>ps_key := key, ps_store := c, ps_cache := cacheMiss\<rparr>)))"

end
