(* ===== verification/AudioHandler.thy ===== *)
theory AudioHandler
  imports ChatHandler Speech
begin

text \<open>
  The audio and video ingresses (\<open>handleAudioTranscriptions\<close>, \<open>handleAudioSpeech\<close> of
  \<open>internal/httpapi/api_audio.go\<close>, \<open>handleVideoSpeech\<close> of \<open>api_video.go\<close>) with what they do around the
  executor: the outcome of a synthesis is finished and cached, the language of a transcript is
  brought to the request's form. Bodies and forms come decoded; the executor's outcome is a
  parameter, and every request that reaches it is recorded.
\<close>

section \<open>Transcriptions\<close>

record transcriptionRequest =
  tq_Model :: string
  tq_Audio :: string
  tq_Filename :: string
  tq_Language :: string
  tq_AlternativeLanguages :: "string list"
  tq_Prompt :: string
  tq_ModelByLanguage :: "(string \<times> string) list"

record transcriptionResponse =
  ts_Text :: string
  ts_Language :: string
  ts_Confidence :: rat
  ts_DurationSeconds :: rat
  ts_Model :: string

definition RequestedLanguage :: "transcriptionRequest \<Rightarrow> string \<Rightarrow> string" where
  "RequestedLanguage r lang =
     (let want = PrimaryLanguage lang in
      if want = [] then []
      else case find (\<lambda>tag. PrimaryLanguage tag = want) (tq_Language r # tq_AlternativeLanguages r) of
             None \<Rightarrow> [] | Some tag \<Rightarrow> CanonicalLanguage tag)"

fun add_tags :: "string list \<Rightarrow> string list \<Rightarrow> string list" where
  "add_tags out [] = out"
| "add_tags out (tag # tags) =
     (let t = CanonicalLanguage tag
      in add_tags (if t \<noteq> [] \<and> t \<notin> set out then out @ [t] else out) tags)"

text \<open>\<open>form\<close> is the multipart form: the values of a field.\<close>

definition alternativeLanguages :: "(string \<Rightarrow> string list) option \<Rightarrow> string list" where
  "alternativeLanguages form =
     (case form of
        None \<Rightarrow> []
      | Some f \<Rightarrow> add_tags [] (concat (map (split_on CHR '','') (f ''alternative_languages'' @ f ''alternative_languages[]''))))"

text \<open>What follows the executor in \<open>runTranscribe\<close>.\<close>

definition finish_transcription ::
  "transcriptionRequest \<Rightarrow> transcriptionResponse \<Rightarrow> execResult \<Rightarrow> transcriptionResponse \<times> execResult" where
  "finish_transcription req resp res =
     (let res1 = (if ts_Model resp \<noteq> [] then res\<lparr>xr_Target := (xr_Target res)\<lparr>tg_UpstreamModel := ts_Model resp\<rparr>\<rparr> else res);
          tag = RequestedLanguage req (ts_Language resp);
          lang = (if ts_Language resp = [] then CanonicalLanguage (tq_Language req)
                  else if tag \<noteq> [] \<and> ts_Language resp = PrimaryLanguage (ts_Language resp) then tag
                  else ts_Language resp)
      in (resp\<lparr>ts_Language := lang\<rparr>, res1))"

section \<open>The end of a synthesis\<close>

definition served_result :: "'s speech_state \<Rightarrow> string \<Rightarrow> execResult \<Rightarrow> execResult" where
  "served_result ps cache res =
     res\<lparr>xr_Target := (xr_Target res)\<lparr>tg_UpstreamModel := ps_served ps, tg_DisplayLabel := ps_label ps\<rparr>, xr_Cache := cache\<rparr>"

text \<open>What follows the executor in \<open>runSynthesizeTo\<close>, given its result and the closure's variables.\<close>

definition finish_synthesis ::
  "'s speech_env \<Rightarrow> plan \<Rightarrow> execResult \<Rightarrow> bool \<Rightarrow> gerr option \<Rightarrow> 's speech_state
     \<Rightarrow> speechResponse \<times> execResult \<times> bool \<times> gerr option \<times> 's scache" where
  "finish_synthesis E pl res started err ps =
     (case err of
        Some e \<Rightarrow>
          (let streamed = (ps_streamed ps \<and> started);
               cache = (if ps_cache ps = cacheSkipped then cacheMiss else ps_cache ps)
           in (no_speech, (if streamed then served_result ps cache res else res), streamed, Some e, ps_store ps))
      | None \<Rightarrow>
          if ps_cache ps = cacheSkipped then (ps_resp ps, served_result ps cacheMiss res, ps_streamed ps, None, ps_store ps)
          else
            (ps_resp ps, served_result ps (ps_cache ps) res, ps_streamed ps, None,
             if ps_cache ps = cacheMiss
             then snd (sc_Put (se_kv E) (se_sha E) (se_now E) (se_wall E) False (ps_key ps)
                   \<lparr>cl_Audio = sp_Audio (ps_resp ps), cl_ContentType = sp_ContentType (ps_resp ps), cl_Model = ps_served ps,
                    cl_Label = ps_label ps\<rparr> (pl_SynthesisCacheTTL pl) (ps_store ps))
             else ps_store ps))"

text \<open>One attempt of \<open>runVideoTo\<close>: the closure's \<open>served\<close> and \<open>label\<close>, and the sink.\<close>

definition supports_video :: "speech_provider \<Rightarrow> gerr option" where
  "supports_video p = (if spr_video p = None then Some (unsupported (spr_name p) '' does not make speech video'') else None)"

definition video_attempt ::
  "(nat \<Rightarrow> gerr option) \<Rightarrow> speechRequest \<Rightarrow> speech_provider \<Rightarrow> target \<Rightarrow> bool \<Rightarrow> string \<times> string \<times> speechSink
     \<Rightarrow> gerr option \<times> bool \<times> string \<times> string \<times> speechSink" where
  "video_attempt we req p t commit vs =
     (case vs of (served, label, k) \<Rightarrow>
        case speech_for req True t of
          Inl e \<Rightarrow> (Some e, False, served, label, k)
        | Inr inp \<Rightarrow>
            (case spr_video p of
               None \<Rightarrow> (Some (ErrOther ''interface conversion''), False, served, label, k)
             | Some speak \<Rightarrow>
                 (case speak inp of
                    Inl e \<Rightarrow> (Some e, False, served, label, k)
                  | Inr st \<Rightarrow>
                      let st1 = (if st_ContentType st = [] then st\<lparr>st_ContentType := ''video/mp4''\<rparr> else st)
                      in case streamSpeech we st1 inp (spr_name p) t commit False k of
                           (kept, ct, err, k', asked) \<Rightarrow> (err, asked, sr_Model inp, tg_DisplayLabel t, k'))))"

definition finish_video :: "string \<Rightarrow> string \<Rightarrow> speechSink \<Rightarrow> execResult \<Rightarrow> bool \<Rightarrow> gerr option \<Rightarrow> execResult \<times> bool \<times> gerr option" where
  "finish_video served label k res started err =
     (res\<lparr>xr_Target := (xr_Target res)\<lparr>tg_UpstreamModel := served, tg_DisplayLabel := label\<rparr>\<rparr>, ss_begun k \<and> started, err)"

section \<open>Capabilities\<close>

record voice =
  vo_ID :: string
  vo_Language :: string
  vo_Gender :: string

text \<open>What a provider can do; \<open>cp_voices\<close> is the answer of its voice list, if it has one.\<close>

record capable_provider =
  cp_transcribes :: bool
  cp_languages :: "string list option"
  cp_synthesizes :: bool
  cp_voices :: "(gerr + voice list) option"

definition option_voice :: "string \<times> voice_choice \<Rightarrow> voice" where
  "option_voice e = (case e of (vid, v) \<Rightarrow>
     let lang = CanonicalLanguage (vc_Language v)
     in \<lparr>vo_ID = vid, vo_Language = (if lang = [] then VoiceLanguage vid else lang), vo_Gender = vc_Gender v\<rparr>)"

definition targetVoices :: "capable_provider \<Rightarrow> target \<Rightarrow> gerr + voice list" where
  "targetVoices p t =
     map_sum id (sort_key vo_ID)
       (if to_Voices (tg_Options t) \<noteq> [] then Inr (map option_voice (to_Voices (tg_Options t)))
        else case cp_voices p of None \<Rightarrow> Inr [] | Some r \<Rightarrow> r)"

text \<open>The loop over the first tier: recognition, synthesis and the last failure to list voices.\<close>

fun capabilities_loop ::
  "(string \<Rightarrow> capable_provider option) \<Rightarrow> target list \<Rightarrow> string list option \<times> voice list option \<times> gerr option
     \<Rightarrow> string list option \<times> voice list option \<times> gerr option" where
  "capabilities_loop reg [] acc = acc"
| "capabilities_loop reg (t # ts) (rec, syn, verr) =
     capabilities_loop reg ts
       (case reg (tg_Provider t) of
          None \<Rightarrow> (rec, syn, verr)
        | Some p \<Rightarrow>
            (let rec' = (if cp_transcribes p \<and> rec = None then Some (case cp_languages p of None \<Rightarrow> [] | Some l \<Rightarrow> l) else rec)
             in if cp_synthesizes p \<and> syn = None
                then (case targetVoices p t of Inl e \<Rightarrow> (rec', syn, Some e) | Inr vs \<Rightarrow> (rec', Some vs, verr))
                else (rec', syn, verr)))"

section \<open>The handlers\<close>

datatype media_call = Transcribe transcriptionRequest | Speak speechRequest | SpeakVideo speechRequest

record ('s, 'h, 'w) menv =
  me_base :: "('s, 'h, 'w) henv"
  me_transcribe :: "plan \<Rightarrow> transcriptionRequest \<Rightarrow> (gerr + transcriptionResponse) \<times> execResult"
  me_speak :: "plan \<Rightarrow> speechRequest \<Rightarrow> speechResponse \<times> execResult \<times> bool \<times> gerr option"
  me_video :: "plan \<Rightarrow> speechRequest \<Rightarrow> execResult \<times> bool \<times> gerr option"

record ('s, 'w) mserver =
  ms_server :: "('s, 'w) server"
  ms_calls :: "(plan \<times> media_call) list"

datatype media_reply =
    MediaError int string string
  | Transcript string
  | VerboseTranscript string string rat rat
  | AudioReply "string option" string string
  | MediaStreamed
  | Capabilities string "string list option" "voice list option"

definition media_error :: "int \<Rightarrow> string \<Rightarrow> string \<Rightarrow> media_reply" where
  "media_error code typ msg =
     (case writeProtocolError OpenAI code typ msg of ErrorReply c t m \<Rightarrow> MediaError c t m | _ \<Rightarrow> MediaStreamed)"

text \<open>The routing and the limit check every handler makes.\<close>

definition route_and_limit ::
  "('s, 'h, 'w) henv \<Rightarrow> authedKey \<Rightarrow> string \<Rightarrow> ('s, 'w) server \<Rightarrow> (media_reply + plan) \<times> ('s, 'w) server" where
  "route_and_limit H ak model sv =
     (case he_resolve H model (kp_AllowPassthrough (ak_Policy ak)) of
        Inl err \<Rightarrow> (Inl (media_error 404 ''invalid_request_error'' err), sv)
      | Inr p \<Rightarrow>
          (case limitDenied (he_limiter H) (he_usd H) (he_checked H) (he_token H) (ak_KeyID ak)
                  (ParseLimits (he_limits H) (ak_Policy ak)) 0 (ac_limiter (sv_accounts sv)) of
             (msg, denied, _, s1) \<Rightarrow>
               (let sv1 = sv\<lparr>sv_accounts := (sv_accounts sv)\<lparr>ac_limiter := s1\<rparr>\<rparr> in
                if denied then (Inl (media_error 429 ''rate_limit_error'' msg), sv1) else (Inr p, sv1))))"

definition not_permitted :: "string \<Rightarrow> media_reply" where
  "not_permitted model = media_error 403 ''permission_error'' (''model not permitted for this key: '' @ model)"

definition media_entry :: "authedKey \<Rightarrow> string \<Rightarrow> execResult \<Rightarrow> int \<Rightarrow> ledger_entry" where
  "media_entry ak als res latencyMS =
     (chatEntry (ak_KeyID ak) (ak_UserID ak) als res ''openai'' latencyMS)\<lparr>le_UpstreamProtocol := ''openai''\<rparr>"

text \<open>A failed call's status: the provider's own when it is not retryable.\<close>

definition media_status :: "gerr \<Rightarrow> int" where
  "media_status e =
     (case e of ProviderErr pe \<Rightarrow> if \<not> pe_Retryable pe then pe_Status pe else fst (classifyUpstreamErr e)
      | _ \<Rightarrow> fst (classifyUpstreamErr e))"

definition media_settle ::
  "('s, 'h, 'w) henv \<Rightarrow> authedKey \<Rightarrow> ledger_entry \<Rightarrow> int \<Rightarrow> int \<Rightarrow> int \<Rightarrow> ('s, 'w) server \<Rightarrow> ('s, 'w) server" where
  "media_settle H ak entry costMicro audioSeconds ttsChars sv =
     sv\<lparr>sv_accounts := finalizeAudioUsage (he_limiter H) (he_settled H) entry (ak_KeyID ak) costMicro audioSeconds ttsChars
          (sv_accounts sv)\<rparr>"

definition media_failed ::
  "('s, 'h, 'w) henv \<Rightarrow> authedKey \<Rightarrow> ledger_entry \<Rightarrow> gerr \<Rightarrow> ('s, 'w) server \<Rightarrow> media_reply \<times> ('s, 'w) server" where
  "media_failed H ak entry e sv =
     (media_error (media_status e) (snd (classifyUpstreamErr e)) (he_errtext H e),
      media_settle H ak (entry\<lparr>le_Status := media_status e, le_ErrorMsg := he_errtext H e\<rparr>) 0 0 0 sv)"

text \<open>The scan of one text where the plan asks for it.\<close>

definition media_scan ::
  "('s, 'h, 'w) henv \<Rightarrow> authedKey \<Rightarrow> plan \<Rightarrow> string \<Rightarrow> string \<Rightarrow> ('s, 'w) server
     \<Rightarrow> bool \<times> string \<times> finding list \<times> string \<times> ('s, 'w) server" where
  "media_scan H ak p model text sv =
     (if \<not> pl_DLPAudioScan p then (False, [], [], text, sv)
      else case dlpScanText (he_dlp H) ak ''openai'' model text (sv_dlp sv) of
             (blocked, msg, findings, redacted, w) \<Rightarrow> (blocked, msg, findings, redacted, sv\<lparr>sv_dlp := w\<rparr>))"

definition media_capture ::
  "('s, 'h, 'w) henv \<Rightarrow> authedKey \<Rightarrow> string \<Rightarrow> execResult \<Rightarrow> int \<Rightarrow> dlpResult \<Rightarrow> message list \<Rightarrow> string \<Rightarrow> ('s, 'w) server \<Rightarrow> ('s, 'w) server" where
  "media_capture H ak model res costMicro dlpRes msgs response sv =
     sv\<lparr>sv_pipe := enqueueCapture H ak ''openai'' model (tg_Provider (xr_Target res)) (tg_UpstreamModel (xr_Target res)) 200 0 0
          (of_int costMicro / 1000000) dlpRes msgs response (sv_pipe sv)\<rparr>"

definition handleAudioCapabilities ::
  "('s, 'h, 'w) henv \<Rightarrow> (string \<Rightarrow> capable_provider option) \<Rightarrow> authedKey \<Rightarrow> string \<Rightarrow> media_reply" where
  "handleAudioCapabilities H reg ak model =
     (if model = [] then media_error 400 ''invalid_request_error'' ''model is required''
      else if \<not> Allows (ak_Policy ak) model then not_permitted model
      else case he_resolve H model (kp_AllowPassthrough (ak_Policy ak)) of
        Inl err \<Rightarrow> media_error 404 ''invalid_request_error'' err
      | Inr p \<Rightarrow>
          (case capabilities_loop reg (case pl_Tiers p of [] \<Rightarrow> [] | tier # _ \<Rightarrow> tier) (None, None, None) of
             (rec, None, Some e) \<Rightarrow> media_error (fst (classifyUpstreamErr e)) (snd (classifyUpstreamErr e)) (he_errtext H e)
           | (rec, syn, _) \<Rightarrow> Capabilities model rec syn))"

text \<open>The first target of the tier that transcribes answers for recognition; voices are listed in order.\<close>

lemma capabilities_recognition:
  "fst (capabilities_loop reg ts (rec, syn, e)) =
     (case rec of Some r \<Rightarrow> Some r
      | None \<Rightarrow> map_option (\<lambda>t. case cp_languages (the (reg (tg_Provider t))) of None \<Rightarrow> [] | Some l \<Rightarrow> l)
          (find (\<lambda>t. case reg (tg_Provider t) of None \<Rightarrow> False | Some p \<Rightarrow> cp_transcribes p) ts))"
  by (induction reg ts "(rec, syn, e)" arbitrary: rec syn e rule: capabilities_loop.induct)
    (auto simp: Let_def split: option.splits sum.splits)

lemma targetVoices_sorted: "targetVoices p t = Inr vs \<Longrightarrow> sorted (map vo_ID vs)"
  by (auto simp: targetVoices_def split: if_splits option.splits sum.splits) (metis sum.exhaust map_sum.simps sorted_sort_key sum.inject(2) sum.distinct(1))

definition media_sent :: "('s, 'h, 'w) menv \<Rightarrow> plan \<Rightarrow> media_call \<Rightarrow> ('s, 'w) mserver \<Rightarrow> ('s, 'w) mserver" where
  "media_sent M p c ms =
     ms\<lparr>ms_calls := ms_calls ms @ [(p, c)],
        ms_server := (ms_server ms)\<lparr>sv_accounts := (sv_accounts (ms_server ms))\<lparr>ac_limiter :=
          he_between (me_base M) (ac_limiter (sv_accounts (ms_server ms)))\<rparr>\<rparr>\<rparr>"

text \<open>The form of a transcription: its model, the file with its name (\<open>None\<close> if missing), and the rest.\<close>

record transcription_form =
  tf_model :: string
  tf_file :: "(string \<times> string) option"
  tf_language :: string
  tf_prompt :: string
  tf_format :: string
  tf_values :: "(string \<Rightarrow> string list) option"

definition transcription_request :: "transcription_form \<Rightarrow> string \<times> string \<Rightarrow> transcriptionRequest" where
  "transcription_request f file = \<lparr>tq_Model = [], tq_Audio = snd file, tq_Filename = fst file,
     tq_Language = CanonicalLanguage (tf_language f), tq_AlternativeLanguages = alternativeLanguages (tf_values f),
     tq_Prompt = tf_prompt f, tq_ModelByLanguage = []\<rparr>"

text \<open>What follows the call of a transcription.\<close>

definition answer_transcription ::
  "('s, 'h, 'w) henv \<Rightarrow> authedKey \<Rightarrow> transcription_form \<Rightarrow> plan \<Rightarrow> (gerr + transcriptionResponse) \<times> execResult \<Rightarrow> ('s, 'w) server
     \<Rightarrow> media_reply \<times> ('s, 'w) server" where
  "answer_transcription H ak f p outcome sv =
     (case outcome of (r, res) \<Rightarrow>
        let entry = media_entry ak (tf_model f) res (he_latency H) in
        case r of
          Inl e \<Rightarrow> media_failed H ak entry e sv
        | Inr resp \<Rightarrow>
            (let audioSeconds = go_round (ts_DurationSeconds resp);
                 costMicro = AudioCostMicroUSD (he_prices H) (tg_Provider (xr_Target res)) (tg_UpstreamModel (xr_Target res))
                   (ts_DurationSeconds resp)
             in case media_scan H ak p (tf_model f) (ts_Text resp) sv of
                  (blocked, msg, findings, redacted, sv1) \<Rightarrow>
                    if blocked then
                      (media_error 400 ''invalid_request_error'' msg,
                       media_settle H ak (entry\<lparr>le_Status := 400, le_ErrorMsg := msg\<rparr>) costMicro audioSeconds 0 sv1)
                    else
                      let sv2 = media_settle H ak (entry\<lparr>le_Status := 200\<rparr>) costMicro audioSeconds 0 sv1;
                          dlpRes = (if findings \<noteq> [] then no_result\<lparr>dr_Findings := findings, dr_HadIncident := True\<rparr> else no_result);
                          sv3 = media_capture H ak (tf_model f) res costMicro dlpRes [] redacted sv2
                      in (if tf_format f = ''verbose_json''
                          then VerboseTranscript redacted (ts_Language resp) (ts_Confidence resp) (ts_DurationSeconds resp)
                          else Transcript redacted, sv3)))"

definition handleAudioTranscriptions ::
  "('s, 'h, 'w) menv \<Rightarrow> authedKey \<Rightarrow> string + transcription_form \<Rightarrow> ('s, 'w) mserver \<Rightarrow> media_reply \<times> ('s, 'w) mserver" where
  "handleAudioTranscriptions M ak form ms =
     (case form of
        Inl err \<Rightarrow> (media_error 400 ''invalid_request_error'' (''invalid multipart body: '' @ err), ms)
      | Inr f \<Rightarrow>
          if tf_model f = [] then (media_error 400 ''invalid_request_error'' ''model is required'', ms)
          else if \<not> Allows (ak_Policy ak) (tf_model f) then (not_permitted (tf_model f), ms)
          else case tf_file f of
            None \<Rightarrow> (media_error 400 ''invalid_request_error'' ''file is required'', ms)
          | Some file \<Rightarrow>
              (case route_and_limit (me_base M) ak (tf_model f) (ms_server ms) of
                 (Inl reply, sv1) \<Rightarrow> (reply, ms\<lparr>ms_server := sv1\<rparr>)
               | (Inr p, sv1) \<Rightarrow>
                   (let req = transcription_request f file;
                        ms1 = media_sent M p (Transcribe req) (ms\<lparr>ms_server := sv1\<rparr>);
                        (reply, sv2) = answer_transcription (me_base M) ak f p (me_transcribe M p req) (ms_server ms1)
                    in (reply, ms1\<lparr>ms_server := sv2\<rparr>))))"

text \<open>The body of a speech request, and the scan result its capture carries.\<close>

record speech_body =
  sb_Model :: string
  sb_Input :: string
  sb_Voice :: string
  sb_Language :: string
  sb_ResponseFormat :: string
  sb_Placeholder :: "bool option"
  sb_Idle :: string

definition speech_dlp :: "finding list \<Rightarrow> bool \<Rightarrow> dlpResult" where
  "speech_dlp findings redacted =
     (if findings \<noteq> [] then no_result\<lparr>dr_Findings := findings, dr_MsgFindings := [findings], dr_HadIncident := True,
                                    dr_AlreadyRedacted := redacted\<rparr>
      else no_result)"

definition speech_format :: "string \<Rightarrow> string" where
  "speech_format raw = (let f = to_lower (trim_space raw) in if f = [] then ''wav'' else f)"

definition utf8_runes :: "string \<Rightarrow> int" where
  "utf8_runes s = int (length (filter (\<lambda>c. char_code c < 128 \<or> 192 \<le> char_code c) s))"

text \<open>What follows the call of a synthesis; \<open>cached\<close> is a reply from the cache.\<close>

definition settle_speech ::
  "('s, 'h, 'w) henv \<Rightarrow> authedKey \<Rightarrow> speech_body \<Rightarrow> string \<Rightarrow> finding list \<Rightarrow> bool \<Rightarrow> execResult \<Rightarrow> gerr option \<Rightarrow> ('s, 'w) server
     \<Rightarrow> ('s, 'w) server" where
  "settle_speech H ak b input findings cached res err sv =
     (let ttsChars = utf8_runes input;
          costMicro = (if cached then 0
                       else TTSCostMicroUSD (he_prices H) (tg_Provider (xr_Target res)) (tg_UpstreamModel (xr_Target res)) ttsChars);
          entry = (media_entry ak (sb_Model b) res (he_latency H))\<lparr>le_Status := 200, le_Cached := cached,
                    le_ErrorMsg := (case err of None \<Rightarrow> [] | Some e \<Rightarrow> he_errtext H e)\<rparr>;
          sv1 = media_settle H ak entry costMicro 0 ttsChars sv
      in media_capture H ak (sb_Model b) res costMicro (speech_dlp findings (input \<noteq> sb_Input b))
           [zero_message\<lparr>m_Role := ''user'', m_Content := input\<rparr>] [] sv1)"

definition handleAudioSpeech ::
  "('s, 'h, 'w) menv \<Rightarrow> authedKey \<Rightarrow> string + speech_body \<Rightarrow> ('s, 'w) mserver \<Rightarrow> media_reply \<times> ('s, 'w) mserver" where
  "handleAudioSpeech M ak body ms =
     (case body of
        Inl err \<Rightarrow> (media_error 400 ''invalid_request_error'' (''invalid JSON body: '' @ err), ms)
      | Inr b \<Rightarrow>
          if sb_Model b = [] \<or> sb_Input b = [] then
            (media_error 400 ''invalid_request_error'' ''model and input are required'', ms)
          else if \<not> Allows (ak_Policy ak) (sb_Model b) then (not_permitted (sb_Model b), ms)
          else case route_and_limit (me_base M) ak (sb_Model b) (ms_server ms) of
            (Inl reply, sv1) \<Rightarrow> (reply, ms\<lparr>ms_server := sv1\<rparr>)
          | (Inr p, sv1) \<Rightarrow>
              (case media_scan (me_base M) ak p (sb_Model b) (sb_Input b) sv1 of
                 (blocked, msg, findings, input, sv2) \<Rightarrow>
                   if blocked then (media_error 400 ''invalid_request_error'' msg, ms\<lparr>ms_server := sv2\<rparr>)
                   else
                     let req = \<lparr>sr_Model = [], sr_Input = input, sr_Voice = sb_Voice b, sr_Language = CanonicalLanguage (sb_Language b),
                                sr_ResponseFormat = speech_format (sb_ResponseFormat b), sr_SendLanguage = [], sr_Placeholder = None,
                                sr_Idle = []\<rparr>;
                         ms1 = media_sent M p (Speak req) (ms\<lparr>ms_server := sv2\<rparr>);
                         (resp, res, streamed, err) = me_speak M p req
                     in if err \<noteq> None \<and> \<not> streamed then
                          (let (reply, sv3) = media_failed (me_base M) ak (media_entry ak (sb_Model b) res (he_latency (me_base M)))
                                 (the err) (ms_server ms1)
                           in (reply, ms1\<lparr>ms_server := sv3\<rparr>))
                        else
                          (if streamed then MediaStreamed
                           else AudioReply (setBackendLabel (xr_Target res) (pl_ExposeBackendHeaders p)) (sp_ContentType resp) (sp_Audio resp),
                           ms1\<lparr>ms_server := settle_speech (me_base M) ak b input findings (xr_Cache res = cacheHit) res err
                                 (ms_server ms1)\<rparr>)))"

definition handleVideoSpeech ::
  "('s, 'h, 'w) menv \<Rightarrow> authedKey \<Rightarrow> string + speech_body \<Rightarrow> ('s, 'w) mserver \<Rightarrow> media_reply \<times> ('s, 'w) mserver" where
  "handleVideoSpeech M ak body ms =
     (case body of
        Inl err \<Rightarrow> (media_error 400 ''invalid_request_error'' (''invalid JSON body: '' @ err), ms)
      | Inr b \<Rightarrow>
          if sb_Model b = [] \<or> sb_Input b = [] \<and> sb_Idle b = [] then
            (media_error 400 ''invalid_request_error'' ''model and input (or idle) are required'', ms)
          else if \<not> Allows (ak_Policy ak) (sb_Model b) then (not_permitted (sb_Model b), ms)
          else case route_and_limit (me_base M) ak (sb_Model b) (ms_server ms) of
            (Inl reply, sv1) \<Rightarrow> (reply, ms\<lparr>ms_server := sv1\<rparr>)
          | (Inr p, sv1) \<Rightarrow>
              (case media_scan (me_base M) ak p (sb_Model b) (sb_Input b) sv1 of
                 (blocked, msg, findings, input, sv2) \<Rightarrow>
                   if blocked then (media_error 400 ''invalid_request_error'' msg, ms\<lparr>ms_server := sv2\<rparr>)
                   else if \<not> he_flusher (me_base M) then
                     (media_error 500 ''api_error'' ''streaming is not supported here'', ms\<lparr>ms_server := sv2\<rparr>)
                   else
                     let req = \<lparr>sr_Model = [], sr_Input = input, sr_Voice = sb_Voice b, sr_Language = CanonicalLanguage (sb_Language b),
                                sr_ResponseFormat = ''mp4'', sr_SendLanguage = [], sr_Placeholder = sb_Placeholder b, sr_Idle = sb_Idle b\<rparr>;
                         ms1 = media_sent M p (SpeakVideo req) (ms\<lparr>ms_server := sv2\<rparr>);
                         (res, streamed, err) = me_video M p req
                     in if err \<noteq> None \<and> \<not> streamed then
                          (let (reply, sv3) = media_failed (me_base M) ak (media_entry ak (sb_Model b) res (he_latency (me_base M)))
                                 (the err) (ms_server ms1)
                           in (reply, ms1\<lparr>ms_server := sv3\<rparr>))
                        else (MediaStreamed, ms1\<lparr>ms_server := settle_speech (me_base M) ak b input findings False res err (ms_server ms1)\<rparr>)))"

end
