(* ===== verification/AudioProps.thy ===== *)
theory AudioProps
  imports AudioHandler ChatProps
begin

text \<open>
  What the audio and video ingresses guarantee: the gates before a provider hears a text, the gate
  before a client reads a transcript, what is charged, and that a clip that was paid for is replayed.
\<close>

section \<open>Charging\<close>

lemma audio_key_kinds:
  "costKey key \<noteq> tokKey key" "audioSecKey key \<noteq> tokKey key" "ttsCharKey key \<noteq> tokKey key"
  "costKey key \<noteq> audioSecKey key" "costKey key \<noteq> ttsCharKey key" "audioSecKey key \<noteq> ttsCharKey key"
  by (simp_all add: tokKey_def costKey_def audioSecKey_def ttsCharKey_def)

lemma Add_media:
  assumes "hash_server L view"
  shows "amount (view (snd (Add L now key 0 c a t 0 0 s))) k f = amount (view s) k f
    + (if f = itoa (BucketStamp now)
       then (if k = costKey key then c else 0) + (if k = audioSecKey key then a else 0) + (if k = ttsCharKey key then t else 0) else 0)"
proof -
  let ?cmds = "add_cmds now key 0 c a t 0 0"
  obtain ok s' where e: "lo_exec L s ?cmds = (ok, s')" by fastforce
  have only: "list_all only_counts ?cmds" by (simp add: add_cmds_def Let_def)
  have "amount (view (snd (Add L now key 0 c a t 0 0 s))) k f = amount (fold exec_cmd ?cmds (view s)) k f"
    using hash_exec [OF assms e] by (auto simp: Add_def Let_def e)
  also have "\<dots> = amount (view s) k f + sum_list (map (incr_of k f) ?cmds)" by (rule amount_fold [OF only])
  finally show ?thesis using audio_key_kinds [of key] by (auto simp: add_cmds_def Let_def)
qed

lemma media_settle_amount:
  assumes "hash_server (he_limiter H) view"
  shows "amount (view (ac_limiter (sv_accounts (media_settle H ak e c a t sv)))) k f
    = amount (view (ac_limiter (sv_accounts sv))) k f
      + (if f = itoa (BucketStamp (he_settled H))
         then (if k = costKey (ak_KeyID ak) then c else 0) + (if k = audioSecKey (ak_KeyID ak) then a else 0)
            + (if k = ttsCharKey (ak_KeyID ak) then t else 0) else 0)"
  using Add_media [OF assms] by (auto simp: media_settle_def finalizeAudioUsage_def Let_def)

lemma media_settle_ledger:
  "ac_ledger (sv_accounts (media_settle H ak e c a t sv)) = ledger_Record (e\<lparr>le_CostUSD := of_int c / 1000000\<rparr>) (ac_ledger (sv_accounts sv))"
  by (simp add: media_settle_def finalizeAudioUsage_def Let_def)

lemma media_capture_accounts [simp]: "sv_accounts (media_capture H ak m res c d ms r sv) = sv_accounts sv"
  by (simp add: media_capture_def)

section \<open>Gates\<close>

text \<open>The text a plan lets through under a policy, and whether it is stopped.\<close>

definition spoken_text :: "dlpConfig \<Rightarrow> plan \<Rightarrow> string \<Rightarrow> string" where
  "spoken_text cfg p text =
     (if pl_DLPAudioScan p \<and> dc_Enabled cfg \<and> dc_Action cfg = ''redact'' then Redact text (layer1 cfg text) else text)"

definition text_stopped :: "dlpConfig \<Rightarrow> plan \<Rightarrow> string \<Rightarrow> bool" where
  "text_stopped cfg p text \<longleftrightarrow>
     pl_DLPAudioScan p \<and> dc_Enabled cfg \<and> dc_Action cfg = ''block'' \<and> layer1 cfg text \<noteq> []"

lemma layer1_empty: "layer1 cfg [] = []"
proof -
  have "laid_out (length ([] :: string)) (layer1 cfg [])" unfolding layer1_def using ScanWith_spec by blast
  then show ?thesis by (cases "layer1 cfg []") (auto simp: laid_out_def span_ok_def)
qed

lemma media_scan_spec:
  assumes "media_scan H ak p model text sv = (blocked, msg, fs, text', sv')" and "cfg = dlpCfg (de_cfg (he_dlp H))"
  shows "blocked \<longleftrightarrow> text_stopped cfg p text" and "\<not> blocked \<Longrightarrow> text' = spoken_text cfg p text" and "sv_accounts sv' = sv_accounts sv"
  using assms layer1_empty [of cfg]
  by (auto simp: media_scan_def dlpScanText_def text_stopped_def spoken_text_def Redact_def Let_def split: if_splits)

lemma route_and_limit_granted:
  assumes "route_and_limit H ak model sv = (Inr p, sv1)"
  shows "he_resolve H model (kp_AllowPassthrough (ak_Policy ak)) = Inr p"
    and "\<exists>msg d s1. limitDenied (he_limiter H) (he_usd H) (he_checked H) (he_token H) (ak_KeyID ak)
           (ParseLimits (he_limits H) (ak_Policy ak)) 0 (ac_limiter (sv_accounts sv)) = (msg, False, d, s1)"
    and "ac_ledger (sv_accounts sv1) = ac_ledger (sv_accounts sv)"
  using assms by (auto simp: route_and_limit_def Let_def split: sum.splits prod.splits if_splits)

text \<open>What a request passed before its text was spoken.\<close>

definition speech_passed :: "('s, 'h, 'w) menv \<Rightarrow> authedKey \<Rightarrow> speech_body \<Rightarrow> ('s, 'w) mserver \<Rightarrow> plan \<Rightarrow> speechRequest \<Rightarrow> bool" where
  "speech_passed M ak b ms p req \<longleftrightarrow>
     Allows (ak_Policy ak) (sb_Model b)
     \<and> he_resolve (me_base M) (sb_Model b) (kp_AllowPassthrough (ak_Policy ak)) = Inr p
     \<and> (\<exists>msg d s1. limitDenied (he_limiter (me_base M)) (he_usd (me_base M)) (he_checked (me_base M)) (he_token (me_base M)) (ak_KeyID ak)
          (ParseLimits (he_limits (me_base M)) (ak_Policy ak)) 0 (ac_limiter (sv_accounts (ms_server ms))) = (msg, False, d, s1))
     \<and> \<not> text_stopped (dlpCfg (de_cfg (he_dlp (me_base M)))) p (sb_Input b)
     \<and> sr_Input req = spoken_text (dlpCfg (de_cfg (he_dlp (me_base M)))) p (sb_Input b)"

text \<open>What the handler did once the text may be spoken.\<close>

definition speech_done ::
  "('s, 'h, 'w) menv \<Rightarrow> authedKey \<Rightarrow> speech_body \<Rightarrow> execResult \<Rightarrow> bool \<Rightarrow> gerr option \<Rightarrow> bool \<Rightarrow> string \<Rightarrow> ('s, 'w) server \<Rightarrow> ('s, 'w) server \<Rightarrow> bool" where
  "speech_done M ak b res streamed err cached input sv sv' \<longleftrightarrow>
     (if err \<noteq> None \<and> \<not> streamed
      then sv' = snd (media_failed (me_base M) ak (media_entry ak (sb_Model b) res (he_latency (me_base M))) (the err) sv)
      else \<exists>findings. sv' = settle_speech (me_base M) ak b input findings cached res err sv)"

lemma speech_handled:
  assumes "handleAudioSpeech M ak (Inr b) ms = (reply, ms')"
  shows "ms_calls ms' = ms_calls ms \<or> (\<exists>p req sv1 sv2 resp res streamed err.
    ms_calls ms' = ms_calls ms @ [(p, Speak req)] \<and> speech_passed M ak b ms p req
    \<and> route_and_limit (me_base M) ak (sb_Model b) (ms_server ms) = (Inr p, sv1) \<and> sv_accounts sv2 = sv_accounts sv1
    \<and> me_speak M p req = (resp, res, streamed, err)
    \<and> speech_done M ak b res streamed err (xr_Cache res = cacheHit) (sr_Input req)
        (ms_server (media_sent M p (Speak req) (ms\<lparr>ms_server := sv2\<rparr>))) (ms_server ms'))"
proof (cases "sb_Model b = [] \<or> sb_Input b = [] \<or> \<not> Allows (ak_Policy ak) (sb_Model b)")
  case True
  then show ?thesis using assms by (auto simp: handleAudioSpeech_def split: if_splits)
next
  case False
  obtain r sv1 where l: "route_and_limit (me_base M) ak (sb_Model b) (ms_server ms) = (r, sv1)" by fastforce
  show ?thesis
  proof (cases r)
    case (Inl x)
    then show ?thesis using assms False l by (auto simp: handleAudioSpeech_def)
  next
    case (Inr p)
    obtain blocked msg fs input sv2 where sc: "media_scan (me_base M) ak p (sb_Model b) (sb_Input b) sv1 = (blocked, msg, fs, input, sv2)"
      by (metis prod_cases5)
    note sp = media_scan_spec [OF sc refl] and rl = route_and_limit_granted [OF l [unfolded Inr]]
    show ?thesis
    proof (cases blocked)
      case True
      then show ?thesis using assms False l sc Inr by (auto simp: handleAudioSpeech_def)
    next
      case nb: False
      define req where "req = \<lparr>sr_Model = [], sr_Input = input, sr_Voice = sb_Voice b, sr_Language = CanonicalLanguage (sb_Language b),
          sr_ResponseFormat = speech_format (sb_ResponseFormat b), sr_SendLanguage = [], sr_Placeholder = None, sr_Idle = []\<rparr>"
      obtain resp res streamed err where call: "me_speak M p req = (resp, res, streamed, err)" by (metis prod_cases4)
      have sent: "ms_calls (media_sent M p (Speak req) (ms\<lparr>ms_server := sv2\<rparr>)) = ms_calls ms @ [(p, Speak req)]"
        by (simp add: media_sent_def)
      have in_eq: "sr_Input req = input" by (simp add: req_def)
      have "ms_calls ms' = ms_calls ms @ [(p, Speak req)] \<and> speech_done M ak b res streamed err (xr_Cache res = cacheHit) (sr_Input req)
        (ms_server (media_sent M p (Speak req) (ms\<lparr>ms_server := sv2\<rparr>))) (ms_server ms')"
        using assms False l sc Inr nb sent in_eq
        by (auto simp: handleAudioSpeech_def req_def [symmetric] call speech_done_def Let_def split: if_splits prod.splits)
      moreover have "speech_passed M ak b ms p req"
        using False rl sp nb in_eq unfolding speech_passed_def by blast
      ultimately show ?thesis using l Inr sp(3) call by blast
    qed
  qed
qed

lemma video_handled:
  assumes "handleVideoSpeech M ak (Inr b) ms = (reply, ms')"
  shows "ms_calls ms' = ms_calls ms \<or> (\<exists>p req. ms_calls ms' = ms_calls ms @ [(p, SpeakVideo req)] \<and> speech_passed M ak b ms p req)"
proof (cases "sb_Model b = [] \<or> sb_Input b = [] \<and> sb_Idle b = [] \<or> \<not> Allows (ak_Policy ak) (sb_Model b)")
  case True
  then show ?thesis using assms by (auto simp: handleVideoSpeech_def split: if_splits)
next
  case False
  obtain r sv1 where l: "route_and_limit (me_base M) ak (sb_Model b) (ms_server ms) = (r, sv1)" by fastforce
  show ?thesis
  proof (cases r)
    case (Inl x)
    then show ?thesis using assms False l by (auto simp: handleVideoSpeech_def)
  next
    case (Inr p)
    obtain blocked msg fs input sv2 where sc: "media_scan (me_base M) ak p (sb_Model b) (sb_Input b) sv1 = (blocked, msg, fs, input, sv2)"
      by (metis prod_cases5)
    note sp = media_scan_spec [OF sc refl] and rl = route_and_limit_granted [OF l [unfolded Inr]]
    show ?thesis
    proof (cases "blocked \<or> \<not> he_flusher (me_base M)")
      case True
      then show ?thesis using assms False l sc Inr by (auto simp: handleVideoSpeech_def split: if_splits)
    next
      case nb: False
      define req where "req = \<lparr>sr_Model = [], sr_Input = input, sr_Voice = sb_Voice b, sr_Language = CanonicalLanguage (sb_Language b),
          sr_ResponseFormat = ''mp4'', sr_SendLanguage = [], sr_Placeholder = sb_Placeholder b, sr_Idle = sb_Idle b\<rparr>"
      obtain res streamed err where call: "me_video M p req = (res, streamed, err)" by (metis prod_cases3)
      have sent: "ms_calls (media_sent M p (SpeakVideo req) (ms\<lparr>ms_server := sv2\<rparr>)) = ms_calls ms @ [(p, SpeakVideo req)]"
        by (simp add: media_sent_def)
      have "ms_calls ms' = ms_calls ms @ [(p, SpeakVideo req)]"
        using assms False l sc Inr nb sent
        by (auto simp: handleVideoSpeech_def req_def [symmetric] call Let_def split: if_splits prod.splits)
      moreover have "speech_passed M ak b ms p req"
        using False rl sp nb unfolding speech_passed_def by (simp add: req_def)
      ultimately show ?thesis by blast
    qed
  qed
qed

text \<open>
  C18: A text is spoken, as audio or as video, only once every gate has passed it: the key
  may use the model, the model resolves to the plan it is sent with, the key is within its limits,
  and where the plan scans audio the provider gets the text as the DLP policy left it, none at all if
  a blocking policy found something. One request makes at most one executor run.
\<close>
theorem speech_gates:
  assumes "handleAudioSpeech M ak (Inr b) ms = (reply, ms') \<or> handleVideoSpeech M ak (Inr b) ms = (reply, ms')"
  shows "ms_calls ms' = ms_calls ms \<or>
    (\<exists>p c req. ms_calls ms' = ms_calls ms @ [(p, c)] \<and> c \<in> {Speak req, SpeakVideo req} \<and> speech_passed M ak b ms p req)"
  using assms speech_handled [of M ak b ms reply ms'] video_handled [of M ak b ms reply ms'] by blast


section \<open>Transcripts\<close>

lemma transcription_handled:
  assumes "handleAudioTranscriptions M ak (Inr f) ms = (reply, ms')"
  shows "ms_calls ms' = ms_calls ms \<and> (\<exists>c t m. reply = MediaError c t m) \<or> (\<exists>p req sv1.
    ms_calls ms' = ms_calls ms @ [(p, Transcribe req)] \<and> Allows (ak_Policy ak) (tf_model f)
    \<and> route_and_limit (me_base M) ak (tf_model f) (ms_server ms) = (Inr p, sv1)
    \<and> (reply, ms_server ms') = answer_transcription (me_base M) ak f p (me_transcribe M p req)
         (ms_server (media_sent M p (Transcribe req) (ms\<lparr>ms_server := sv1\<rparr>))))"
proof -
  have e: "\<exists>c t m. media_error x y z = MediaError c t m" for x y z by (simp add: media_error_def writeProtocolError_def)
  have r: "\<exists>c t m. rep = MediaError c t m" if "route_and_limit (me_base M) ak (tf_model f) (ms_server ms) = (Inl rep, sv1)" for rep sv1
    using that e by (auto simp: route_and_limit_def Let_def split: sum.splits prod.splits if_splits)
  show ?thesis
  proof (cases "tf_model f = [] \<or> \<not> Allows (ak_Policy ak) (tf_model f) \<or> tf_file f = None")
    case True
    then show ?thesis using assms e by (auto simp: handleAudioTranscriptions_def not_permitted_def split: if_splits)
  next
    case False
    then obtain upl where upl: "tf_file f = Some upl" by blast
    obtain x sv1 where l: "route_and_limit (me_base M) ak (tf_model f) (ms_server ms) = (x, sv1)" by fastforce
    show ?thesis
    proof (cases x)
      case (Inl rep)
      then show ?thesis using assms False upl l r by (auto simp: handleAudioTranscriptions_def)
    next
      case (Inr p)
      let ?req = "transcription_request f upl"
      let ?ms1 = "media_sent M p (Transcribe ?req) (ms\<lparr>ms_server := sv1\<rparr>)"
      obtain rep sv2 where a: "answer_transcription (me_base M) ak f p (me_transcribe M p ?req) (ms_server ?ms1) = (rep, sv2)" by fastforce
      then have "reply = rep" "ms' = ?ms1\<lparr>ms_server := sv2\<rparr>"
        using assms False upl l Inr by (auto simp: handleAudioTranscriptions_def Let_def)
      then have "ms_calls ms' = ms_calls ms @ [(p, Transcribe ?req)]" "(reply, ms_server ms') =
          answer_transcription (me_base M) ak f p (me_transcribe M p ?req) (ms_server ?ms1)"
        using a by (simp_all add: media_sent_def)
      then show ?thesis using False l Inr by blast
    qed
  qed
qed

text \<open>
  A transcript is shown to the client only as the DLP policy leaves it, and never
  when a blocking policy found something in it; but the provider has worked either way, so the seconds
  and the price of the recording are counted, and one ledger row is written, also for a blocked one.
\<close>
theorem transcript_gated_and_charged:
  assumes "hash_server (he_limiter (me_base M)) view" and "handleAudioTranscriptions M ak (Inr f) ms = (reply, ms')"
    and "route_and_limit (me_base M) ak (tf_model f) (ms_server ms) = (Inr p, sv1)"
    and "ms_calls ms' = ms_calls ms @ [(p, Transcribe req)]" and "me_transcribe M p req = (Inr resp, res)"
    and "cfg = dlpCfg (de_cfg (he_dlp (me_base M)))"
    and "price = AudioCostMicroUSD (he_prices (me_base M)) (tg_Provider (xr_Target res)) (tg_UpstreamModel (xr_Target res)) (ts_DurationSeconds resp)"
    and "counted = (\<lambda>k. amount (view (ac_limiter (sv_accounts (ms_server ms')))) k (itoa (BucketStamp (he_settled (me_base M))))
           - amount (view (he_between (me_base M) (ac_limiter (sv_accounts sv1)))) k (itoa (BucketStamp (he_settled (me_base M)))))"
  shows "(if text_stopped cfg p (ts_Text resp) then \<exists>msg. reply = MediaError 400 ''invalid_request_error'' msg
      else reply = (if tf_format f = ''verbose_json''
                    then VerboseTranscript (spoken_text cfg p (ts_Text resp)) (ts_Language resp) (ts_Confidence resp) (ts_DurationSeconds resp)
                    else Transcript (spoken_text cfg p (ts_Text resp))))
    \<and> counted (audioSecKey (ak_KeyID ak)) = go_round (ts_DurationSeconds resp)
    \<and> counted (costKey (ak_KeyID ak)) = price \<and> counted (tokKey (ak_KeyID ak)) = 0
    \<and> (\<exists>e. ac_ledger (sv_accounts (ms_server ms')) = ledger_Record e (ac_ledger (sv_accounts (ms_server ms)))
         \<and> le_CostUSD e = of_int price / 1000000 \<and> le_Status e = (if text_stopped cfg p (ts_Text resp) then 400 else 200))"
proof -
  obtain q rq sv0 where h: "ms_calls ms' = ms_calls ms @ [(q, Transcribe rq)]"
    "route_and_limit (me_base M) ak (tf_model f) (ms_server ms) = (Inr q, sv0)"
    "(reply, ms_server ms') = answer_transcription (me_base M) ak f q (me_transcribe M q rq)
         (ms_server (media_sent M q (Transcribe rq) (ms\<lparr>ms_server := sv0\<rparr>)))"
    using transcription_handled [OF assms(2)] assms(4) by (metis append_self_conv not_Cons_self2)
  have same: "q = p" "rq = req" "sv0 = sv1" using h(1,2) assms(3,4) by simp_all
  let ?sv = "ms_server (media_sent M p (Transcribe req) (ms\<lparr>ms_server := sv1\<rparr>))"
  obtain blocked msg fs txt' sv2 where sc: "media_scan (me_base M) ak p (tf_model f) (ts_Text resp) ?sv = (blocked, msg, fs, txt', sv2)"
    by (metis prod_cases5)
  note sp = media_scan_spec [OF sc assms(6)]
  have lim: "ac_limiter (sv_accounts sv2) = he_between (me_base M) (ac_limiter (sv_accounts sv1))"
    "ac_ledger (sv_accounts sv2) = ac_ledger (sv_accounts (ms_server ms))"
    unfolding sp(3) using route_and_limit_granted(3) [OF assms(3)] by (simp_all add: media_sent_def)
  let ?e = "media_entry ak (tf_model f) res (he_latency (me_base M))"
  have acc: "\<exists>e. le_Status e = (if blocked then 400 else 200) \<and> sv_accounts (ms_server ms') =
      sv_accounts (media_settle (me_base M) ak e price (go_round (ts_DurationSeconds resp)) 0 sv2)"
    using h(3) unfolding same assms(5,7) answer_transcription_def prod.case sum.case Let_def sc
    by (cases blocked) (simp_all, (rule exI [of _ "?e\<lparr>le_Status := 400, le_ErrorMsg := msg\<rparr>"], simp),
      (rule exI [of _ "?e\<lparr>le_Status := 200\<rparr>"], simp))
  then obtain e where e: "le_Status e = (if blocked then 400 else 200)"
    "sv_accounts (ms_server ms') = sv_accounts (media_settle (me_base M) ak e price (go_round (ts_DurationSeconds resp)) 0 sv2)" by blast
  have c: "counted k = (if k = costKey (ak_KeyID ak) then price else 0) + (if k = audioSecKey (ak_KeyID ak) then go_round (ts_DurationSeconds resp) else 0)" for k
    unfolding assms(8) e(2) media_settle_amount [OF assms(1)] lim(1) by simp
  have l: "ac_ledger (sv_accounts (ms_server ms')) = ledger_Record (e\<lparr>le_CostUSD := of_int price / 1000000\<rparr>) (ac_ledger (sv_accounts (ms_server ms)))"
    unfolding e(2) media_settle_ledger lim(2) ..
  have rp: "if blocked then \<exists>msg. reply = MediaError 400 ''invalid_request_error'' msg
      else reply = (if tf_format f = ''verbose_json'' then VerboseTranscript txt' (ts_Language resp) (ts_Confidence resp) (ts_DurationSeconds resp)
                    else Transcript txt')"
    using h(3) unfolding same assms(5) answer_transcription_def prod.case sum.case Let_def sc
    by (cases blocked) (simp_all add: media_error_def writeProtocolError_def)
  show ?thesis
    using rp sp(1,2) l e(1) c audio_key_kinds [of "ak_KeyID ak"] by (auto split: if_splits)
qed

section \<open>Replays\<close>

lemma speech_call_keeps:
  "speech_call E p t commit inp ps = (err, asked, ps') \<Longrightarrow> ps_key ps' = ps_key ps \<and> ps_store ps' = ps_store ps"
  by (auto simp: speech_call_def split: option.splits sum.splits prod.splits bool.splits if_splits)

lemma speech_attempt_missed:
  assumes "speech_attempt E pl req p t commit ps = (None, asked, ps1)" and "pl_SynthesisCache pl"
  shows "\<exists>inp. speech_for req (SendsLanguage (tg_Options t)) t = Inr inp \<and> ps_key ps1 = speech_key pl t inp"
  using assms by (auto simp: speech_attempt_def Let_def split: sum.splits prod.splits option.splits dest!: speech_call_keeps)

text \<open>
  A clip that was rendered is replayed: once a synthesis that missed the cache has been
  answered, the next attempt with the same request on the same target within the TTL is served from
  the cache, whatever its provider would do, with the same audio and content type and with the model
  and the label of the target that rendered it.
\<close>
theorem clip_replayed:
  assumes "kv_server (se_kv E) view" and "pl_SynthesisCache pl" and "0 < pl_SynthesisCacheTTL pl"
    and "speech_attempt E pl req p t commit ps = (None, asked, ps1)" and "ps_cache ps1 = cacheMiss"
    and "finish_synthesis E pl res started None ps1 = (resp, res1, streamed, err, c)"
    and "length (sp_Audio resp) \<le> MaxClipBytes"
    and "newline \<notin> set (sp_ContentType resp @ tg_UpstreamModel (xr_Target res1) @ tg_DisplayLabel (xr_Target res1))"
    and "remoteUp (se_wall E) (ps_store ps1)" and "remoteUp (se_wall E') (ps_store ps1)"
    and "se_kv E' = se_kv E" and "se_sha E' = se_sha E" and "\<not> se_ctx E'" and "se_now E' < se_now E + pl_SynthesisCacheTTL pl"
    and "ps_store ps2 = c"
  shows "\<exists>ps3. speech_attempt E' pl req p' t commit' ps2 = (Some ErrServedWithoutCall, False, ps3)
    \<and> ps_resp ps3 = \<lparr>sp_Audio = sp_Audio resp, sp_ContentType = sp_ContentType resp, sp_Model = []\<rparr>
    \<and> ps_served ps3 = tg_UpstreamModel (xr_Target res1) \<and> ps_label ps3 = tg_DisplayLabel (xr_Target res1)
    \<and> ps_cache ps3 = cacheHit"
proof -
  obtain inp where inp: "speech_for req (SendsLanguage (tg_Options t)) t = Inr inp" "ps_key ps1 = speech_key pl t inp"
    using speech_attempt_missed [OF assms(4,2)] by blast
  let ?cl = "\<lparr>cl_Audio = sp_Audio (ps_resp ps1), cl_ContentType = sp_ContentType (ps_resp ps1), cl_Model = ps_served ps1, cl_Label = ps_label ps1\<rparr>"
  have r: "resp = ps_resp ps1" "tg_UpstreamModel (xr_Target res1) = ps_served ps1" "tg_DisplayLabel (xr_Target res1) = ps_label ps1"
    "c = snd (sc_Put (se_kv E) (se_sha E) (se_now E) (se_wall E) False (ps_key ps1) ?cl (pl_SynthesisCacheTTL pl) (ps_store ps1))"
    using assms(5,6) by (auto simp: finish_synthesis_def served_result_def)
  have nl: "newline \<notin> set (cl_ContentType ?cl)" "newline \<notin> set (cl_Model ?cl)" "newline \<notin> set (cl_Label ?cl)"
    and ln: "length (cl_Audio ?cl) \<le> MaxClipBytes" using assms(7,8) unfolding r by simp_all
  have "fst (sc_Get (se_kv E) (se_sha E) (se_now E') (se_wall E') False (ps_key ps1) c) = Inr (Some ?cl)"
    using put_effect [OF assms(1,3) ln nl assms(9,10) _ assms(14), where k' = "ps_key ps1" and sha = "se_sha E" and k = "ps_key ps1"] unfolding r(4)
    by (metis prod.collapse)
  then obtain c' where g: "sc_Get (se_kv E') (se_sha E') (se_now E') (se_wall E') (se_ctx E') (speech_key pl t inp) (ps_store ps2) = (Inr (Some ?cl), c')"
    using assms(11,12,13,15) inp(2) by (metis (full_types) prod.collapse)
  show ?thesis using g assms(2) inp(1) r by (simp add: speech_attempt_def Let_def)
qed

section \<open>Example\<close>

text \<open>A plan that scans audio and keeps a synthesis cache, a speaker that answers from it, and a recogniser.\<close>

definition demo_audio_plan :: plan where
  "demo_audio_plan = demo_chat_plan\<lparr>pl_DLPAudioScan := True, pl_SynthesisCache := True, pl_SynthesisCacheTTL := hour\<rparr>"

definition demo_media_result :: "string \<Rightarrow> execResult" where
  "demo_media_result cache = \<lparr>xr_Target = demo_target ''p'', xr_Attempts = 1, xr_Session = [], xr_Cache = cache\<rparr>"

definition demo_menv :: "(demo_server, unit, unit) menv" where
  "demo_menv = \<lparr>me_base = (demo_henv ''redact'')\<lparr>he_resolve := (\<lambda>_ _. Inr demo_audio_plan)\<rparr>,
     me_transcribe = (\<lambda>p r. (Inr \<lparr>ts_Text = ''xaby'', ts_Language = ''en'', ts_Confidence = 0, ts_DurationSeconds = 7 / 2, ts_Model = []\<rparr>,
        demo_media_result [])),
     me_speak = (\<lambda>p r. (\<lparr>sp_Audio = ''ab'', sp_ContentType = ''audio/wav'', sp_Model = []\<rparr>, demo_media_result cacheHit, False, None)),
     me_video = (\<lambda>p r. (demo_media_result [], False, Some ErrCanceled))\<rparr>"

definition demo_ms :: "(demo_server, unit) mserver" where
  "demo_ms = \<lparr>ms_server = demo_sv, ms_calls = []\<rparr>"

definition demo_speech_body :: speech_body where
  "demo_speech_body = \<lparr>sb_Model = ''gpt'', sb_Input = ''xaby'', sb_Voice = ''v'', sb_Language = [], sb_ResponseFormat = [],
     sb_Placeholder = None, sb_Idle = []\<rparr>"

lemma demo_route:
  obtains sv1 where "route_and_limit (me_base demo_menv) demo_key ''gpt'' (ms_server demo_ms) = (Inr demo_audio_plan, sv1)"
proof -
  obtain d err s1 where chk: "Check demo_ops (12 * hour) ''t'' ''k'' demo_limits 0 (\<lambda>_. []) = (d, err, s1)"
    by (metis prod_cases3)
  have "dAllowed d"
    using chk by (auto simp: Check_def check_locked_def demo_ops_def demo_limits_def no_limits_def Let_def
        lockRetries_def eval_nat_numeral Windows_def check_window_def cap_reached_def cost_cap_reached_def
        SumWindows_def sum_window_def prune_def prune_cmds_def expiredFields_def allowed_decision_def)
  then have "\<exists>msg d s1. limitDenied demo_ops (\<lambda>_. []) (12 * hour) ''t'' ''k'' demo_limits 0 (\<lambda>_. []) = (msg, False, d, s1)"
    using Check_no_error [OF demo_hash_server chk] unfolding limitDenied_def chk by simp
  then show ?thesis
    using that by (auto simp: route_and_limit_def demo_menv_def demo_henv_def demo_key_def ParseLimits_def demo_ms_def demo_sv_def)
qed

abbreviation demo_audio_cfg :: dlpConfig where "demo_audio_cfg \<equiv> dlpCfg (de_cfg (he_dlp (me_base demo_menv)))"

lemma demo_audio_text: "spoken_text demo_audio_cfg demo_audio_plan ''xaby'' = ''x[REDACTED:tag]y''"
  "\<not> text_stopped demo_audio_cfg demo_audio_plan ''xaby''"
proof -
  have c: "dlpCfg (de_cfg (he_dlp (me_base demo_menv))) = demo_cfg ''redact''" by (simp add: demo_menv_def)
  have "layer1 (demo_cfg ''redact'') ''xaby'' = [demo_found]"
    using demo_scan by (simp add: layer1_def demo_henv_def demo_dlp_env_def dlpCfg_def dlpToggle_def demo_custom_def)
  moreover have "Redact ''xaby'' [demo_found] = ''x[REDACTED:tag]y''"
    by (simp add: Redact_def coalesceAdjacent_def substr_def marker_def eval_nat_numeral)
  ultimately show "spoken_text demo_audio_cfg demo_audio_plan ''xaby'' = ''x[REDACTED:tag]y''"
    "\<not> text_stopped demo_audio_cfg demo_audio_plan ''xaby''"
    unfolding c spoken_text_def text_stopped_def using demo_dlp_facts(2,3) [of "''redact''"] by (simp_all add: demo_audio_plan_def)
qed

lemma demo_spoken:
  obtains reply ms' req sv1 where "handleAudioSpeech demo_menv demo_key (Inr demo_speech_body) demo_ms = (reply, ms')"
    "ms_calls ms' = ms_calls demo_ms @ [(demo_audio_plan, Speak req)]" "sr_Input req = ''x[REDACTED:tag]y''"
    "route_and_limit (me_base demo_menv) demo_key (sb_Model demo_speech_body) (ms_server demo_ms) = (Inr demo_audio_plan, sv1)"
proof -
  obtain sv1 where l: "route_and_limit (me_base demo_menv) demo_key ''gpt'' (ms_server demo_ms) = (Inr demo_audio_plan, sv1)" by (rule demo_route)
  obtain reply ms' where h: "handleAudioSpeech demo_menv demo_key (Inr demo_speech_body) demo_ms = (reply, ms')" by fastforce
  obtain blocked msg fs input sv2 where sc: "media_scan (me_base demo_menv) demo_key demo_audio_plan ''gpt'' ''xaby'' sv1 = (blocked, msg, fs, input, sv2)"
    by (metis prod_cases5)
  have b: "\<not> blocked" "input = ''x[REDACTED:tag]y''" using media_scan_spec [OF sc refl] demo_audio_text by auto
  have body: "sb_Model demo_speech_body = ''gpt''" "sb_Input demo_speech_body = ''xaby''" by (simp_all add: demo_speech_body_def)
  have a: "Allows (ak_Policy demo_key) ''gpt''" by (simp add: demo_key_def Allows_def)
  have "\<exists>req. ms_calls ms' = ms_calls demo_ms @ [(demo_audio_plan, Speak req)] \<and> sr_Input req = ''x[REDACTED:tag]y''"
    using h sc b a l body by (auto simp: handleAudioSpeech_def Let_def demo_menv_def media_sent_def)
  then show ?thesis using that h l body by metis
qed

theorem speech_gates_witness:
  "\<exists>reply ms' req. handleAudioSpeech demo_menv demo_key (Inr demo_speech_body) demo_ms = (reply, ms')
     \<and> ms_calls ms' = [(demo_audio_plan, Speak req)] \<and> sr_Input req = ''x[REDACTED:tag]y''"
proof -
  obtain reply ms' req sv1 where r: "handleAudioSpeech demo_menv demo_key (Inr demo_speech_body) demo_ms = (reply, ms')"
    "ms_calls ms' = ms_calls demo_ms @ [(demo_audio_plan, Speak req)]" "sr_Input req = ''x[REDACTED:tag]y''" by (rule demo_spoken)
  obtain q where "q = req" "speech_passed demo_menv demo_key demo_speech_body demo_ms demo_audio_plan q"
    using speech_gates [OF disjI1 [OF r(1)]] r(2) by auto
  with r show ?thesis by (auto simp: demo_ms_def speech_passed_def)
qed


definition demo_form :: transcription_form where
  "demo_form = \<lparr>tf_model = ''gpt'', tf_file = Some (''a.wav'', ''ab''), tf_language = ''en'', tf_prompt = [], tf_format = [], tf_values = None\<rparr>"

theorem transcript_gated_and_charged_witness:
  "\<exists>ms'. handleAudioTranscriptions demo_menv demo_key (Inr demo_form) demo_ms = (Transcript ''x[REDACTED:tag]y'', ms')"
proof -
  obtain reply ms' where h: "handleAudioTranscriptions demo_menv demo_key (Inr demo_form) demo_ms = (reply, ms')" by fastforce
  obtain sv1 where l: "route_and_limit (me_base demo_menv) demo_key ''gpt'' (ms_server demo_ms) = (Inr demo_audio_plan, sv1)" by (rule demo_route)
  have b: "tf_model demo_form = ''gpt''" "tf_file demo_form = Some (''a.wav'', ''ab'')" "tf_format demo_form = []" by (simp_all add: demo_form_def)
  have a: "Allows (ak_Policy demo_key) ''gpt''" by (simp add: demo_key_def Allows_def)
  let ?req = "transcription_request demo_form (''a.wav'', ''ab'')"
  have c: "ms_calls ms' = ms_calls demo_ms @ [(demo_audio_plan, Transcribe ?req)]"
    using h l a b by (auto simp: handleAudioTranscriptions_def Let_def media_sent_def split: prod.splits)
  have t: "me_transcribe demo_menv demo_audio_plan ?req
      = (Inr \<lparr>ts_Text = ''xaby'', ts_Language = ''en'', ts_Confidence = 0, ts_DurationSeconds = 7 / 2, ts_Model = []\<rparr>, demo_media_result [])"
    and v: "hash_server (he_limiter (me_base demo_menv)) demo_view" by (simp_all add: demo_menv_def demo_henv_def demo_hash_server)
  from transcript_gated_and_charged [OF v h l [folded b(1)] c t refl refl refl] demo_audio_text h b(3) show ?thesis by simp
qed

text \<open>A speaker behind a cache in process memory.\<close>

definition demo_speaker :: speech_provider where
  "demo_speaker = \<lparr>spr_name = ''p'', spr_synthesize = Some (\<lambda>_. Inr \<lparr>sp_Audio = ''abc'', sp_ContentType = ''audio/mpeg'', sp_Model = []\<rparr>),
     spr_stream = None, spr_video = None\<rparr>"

definition demo_speech_env :: "gotime \<Rightarrow> (string \<rightharpoonup> string) speech_env" where
  "demo_speech_env now = \<lparr>se_kv = map_ops, se_sha = (\<lambda>bs. map char_of bs), se_now = now, se_wall = 0, se_ctx = False, se_write = (\<lambda>_. None)\<rparr>"

definition demo_speech_state :: "(string \<rightharpoonup> string) speech_state" where
  "demo_speech_state = \<lparr>ps_resp = no_speech, ps_streamed = False, ps_served = [], ps_label = [], ps_cache = [], ps_key = demo_skey,
     ps_sink = None, ps_store = sc_new None\<rparr>"

theorem clip_replayed_witness:
  "let req = demo_speech\<lparr>sr_ResponseFormat := ''mp3''\<rparr>; t = demo_target ''p'';
       (e1, a1, ps1) = speech_attempt (demo_speech_env 0) demo_audio_plan req demo_speaker t True demo_speech_state;
       (resp, res, st, e2, c) = finish_synthesis (demo_speech_env 0) demo_audio_plan (demo_media_result []) False None ps1;
       (e3, a3, ps3) = speech_attempt (demo_speech_env minute) demo_audio_plan req (demo_speaker\<lparr>spr_synthesize := None\<rparr>) t True
         (demo_speech_state\<lparr>ps_store := c\<rparr>)
   in e3 = Some ErrServedWithoutCall \<and> sp_Audio (ps_resp ps3) = ''abc''"
proof -
  let ?req = "demo_speech\<lparr>sr_ResponseFormat := ''mp3''\<rparr>" and ?t = "demo_target ''p''" and ?E = demo_speech_env and ?pl = demo_audio_plan
  obtain a1 ps1 where a: "speech_attempt (?E 0) ?pl ?req demo_speaker ?t True demo_speech_state = (None, a1, ps1)"
    "ps_cache ps1 = cacheMiss" "sp_Audio (ps_resp ps1) = ''abc''" "sp_ContentType (ps_resp ps1) = ''audio/mpeg''" "ps_served ps1 = ''m''"
    "ps_label ps1 = []" "sc_downTill (ps_store ps1) = None"
    by (simp add: speech_attempt_def speech_for_def SpeakAs_def demo_target_def no_options_def demo_speech_def demo_audio_plan_def
        demo_chat_plan_def sc_Get_def sc_new_def demo_speech_env_def demo_speech_state_def speech_call_def demo_speaker_def Let_def
        ForLanguage_def SendsLanguage_def StreamsSpeech_def) blast
  obtain resp res st e2 c where f: "finish_synthesis (?E 0) ?pl (demo_media_result []) False None ps1 = (resp, res, st, e2, c)" by (metis prod_cases5)
  have r: "resp = ps_resp ps1" "tg_UpstreamModel (xr_Target res) = ''m''" "tg_DisplayLabel (xr_Target res) = []"
    using f a by (auto simp: finish_synthesis_def served_result_def)
  have h: "kv_server (se_kv (?E 0)) (\<lambda>s. s)" "pl_SynthesisCache ?pl" "0 < pl_SynthesisCacheTTL ?pl" "remoteUp (se_wall (?E n)) (ps_store ps1)"
    "se_kv (?E minute) = se_kv (?E 0)" "se_sha (?E minute) = se_sha (?E 0)" "\<not> se_ctx (?E minute)" "se_now (?E minute) < se_now (?E 0) + pl_SynthesisCacheTTL ?pl"
    "ps_store (demo_speech_state\<lparr>ps_store := c\<rparr>) = c" for n
    using a(7) by (simp_all add: demo_speech_env_def map_ops_server demo_audio_plan_def remoteUp_def)
  have l: "length (sp_Audio resp) \<le> MaxClipBytes"
    "newline \<notin> set (sp_ContentType resp @ tg_UpstreamModel (xr_Target res) @ tg_DisplayLabel (xr_Target res))"
    unfolding r a by (simp_all add: MaxClipBytes_def)
  from clip_replayed [OF h(1-3) a(1,2) f l h(4,4,5-9)]
  obtain ps3 where "speech_attempt (?E minute) ?pl ?req (demo_speaker\<lparr>spr_synthesize := None\<rparr>) ?t True (demo_speech_state\<lparr>ps_store := c\<rparr>)
      = (Some ErrServedWithoutCall, False, ps3)" "sp_Audio (ps_resp ps3) = ''abc''" using a(3) r(1) by fastforce
  then show ?thesis using a(1) f by simp
qed

end
