(* ===== verification/ProviderClient.thy ===== *)
theory ProviderClient
  imports OpenAIWire Errors Language
begin

text \<open>
  The clients of OpenAI-compatible and Vertex upstreams (\<open>internal/providers/openai_compat.go\<close>,
  \<open>vertex.go\<close>, \<open>thinking.go\<close>, \<open>tool_calls.go\<close>, \<open>forward_headers.go\<close>, the request half of
  \<open>sse_decode.go\<close>), with the header forwarding that feeds them (\<open>internal/httpapi/forward_headers.go\<close>,
  \<open>parseForwardHeaders\<close> of \<open>internal/config\<close>). The HTTP client, the clock, the token source and the
  line scanner are parameters.
\<close>

section \<open>Thinking\<close>

definition reasoningFields :: "string list" where
  "reasoningFields = [''reasoning_effort'', ''reasoning'', ''think'']"

definition thinkingOffSettings :: "string \<Rightarrow> (string \<times> string) list" where
  "thinkingOffSettings kind =
     (if kind = ''ollama'' then [(''reasoning_effort'', jprint (JStr ''none''))]
      else if kind = ''vertex'' then [(''reasoning_effort'', jprint (JStr ''minimal''))]
      else if kind = ''openrouter'' then [(''reasoning'', jprint (JObj [(''effort'', JStr ''none'')]))]
      else if kind = ''xai'' then [(''reasoning_effort'', jprint (JStr ''minimal''))]
      else [])"

definition maps_copy :: "(string \<times> 'a) list \<Rightarrow> (string \<times> 'a) list \<Rightarrow> (string \<times> 'a) list" where
  "maps_copy dst src = filter (\<lambda>(k, v). k \<notin> fst ` set src) dst @ src"

definition withThinkingOff :: "string \<Rightarrow> chatRequest \<Rightarrow> chatRequest" where
  "withThinkingOff kind inp =
     (if \<not> cr_ThinkingOff inp then inp
      else
        let extra = filter (\<lambda>(k, v). k \<notin> set reasoningFields) (cr_Extra inp);
            settings = thinkingOffSettings kind
        in inp\<lparr>cr_Extra := (if settings \<noteq> [] then maps_copy extra settings else extra)\<rparr>)"

definition thinkingRejection :: "string \<Rightarrow> chatRequest \<Rightarrow> gerr \<Rightarrow> gerr" where
  "thinkingRejection kind inp err =
     (let settings = thinkingOffSettings kind in
      case err of
        ProviderErr pe \<Rightarrow>
          if \<not> cr_ThinkingOff inp \<or> settings = [] \<or> pe_Status pe \<noteq> 400 \<or> pe_Code pe \<noteq> [] then err
          else if list_ex (\<lambda>(f, v). contains_str (pe_Message pe) f) settings
          then ProviderErr (pe\<lparr>pe_Code := ErrCodeReasoningEffortUnsupported\<rparr>) else err
      | _ \<Rightarrow> err)"

section \<open>Tool calls\<close>

text \<open>\<open>edit\<close> gives \<open>None\<close> to leave a message as it is.\<close>

definition rewriteToolCalls :: "chatRequest \<Rightarrow> (toolCall list \<Rightarrow> toolCall list option) \<Rightarrow> chatRequest" where
  "rewriteToolCalls inp edit =
     inp\<lparr>cr_Messages := map (\<lambda>m. case edit (m_ToolCalls m) of None \<Rightarrow> m | Some calls \<Rightarrow> m\<lparr>m_ToolCalls := calls\<rparr>) (cr_Messages inp)\<rparr>"

definition withoutToolCallExtras :: "chatRequest \<Rightarrow> chatRequest" where
  "withoutToolCallExtras inp =
     rewriteToolCalls inp (\<lambda>calls.
       if \<not> list_ex (\<lambda>tc. tc_ExtraContent tc \<noteq> []) calls then None
       else Some (map (\<lambda>tc. tc\<lparr>tc_ExtraContent := []\<rparr>) calls))"

abbreviation vertexDefaultPublisher :: string where "vertexDefaultPublisher \<equiv> ''google''"
abbreviation skipThoughtSignature :: string where "skipThoughtSignature \<equiv> ''skip_thought_signature_validator''"

definition normalizeVertexModel :: "string \<Rightarrow> string" where
  "normalizeVertexModel model =
     (if model = [] \<or> contains_str model ''/'' then model else vertexDefaultPublisher @ ''/'' @ model)"

text \<open>
  Members with a field's name are decoded one after the other into the same struct, so a later one
  only changes what it mentions.
\<close>

fun decode_into :: "string \<Rightarrow> (json \<Rightarrow> 'a \<Rightarrow> 'a option) \<Rightarrow> members \<Rightarrow> 'a \<Rightarrow> 'a option" where
  "decode_into k f [] a = Some a"
| "decode_into k f ((n, v) # ms) a =
     (if fold_key n = fold_key k then Option.bind (f v a) (decode_into k f ms) else decode_into k f ms a)"

definition into_string :: "json \<Rightarrow> string \<Rightarrow> string option" where
  "into_string j s = (case j of JNull \<Rightarrow> Some s | JStr t \<Rightarrow> Some t | _ \<Rightarrow> None)"

definition thought_signature :: "string \<Rightarrow> string option" where
  "thought_signature extra = do {
     j \<leftarrow> jparse extra; ms \<leftarrow> obj_members j;
     decode_into ''google'' (\<lambda>g s. do {gs \<leftarrow> obj_members g; decode_into ''thought_signature'' into_string gs s}) ms []}"

definition hasThoughtSignature :: "toolCall \<Rightarrow> bool" where
  "hasThoughtSignature tc = (case thought_signature (tc_ExtraContent tc) of None \<Rightarrow> False | Some s \<Rightarrow> s \<noteq> [])"

text \<open>A map of raw values: what is not an object counts as an empty one.\<close>

definition raw_map :: "json option \<Rightarrow> members" where
  "raw_map j = (case j of Some (JObj ms) \<Rightarrow> last_wins ms | _ \<Rightarrow> [])"

definition map_set :: "string \<Rightarrow> json \<Rightarrow> members \<Rightarrow> members" where
  "map_set k v ms = sort_key fst (filter (\<lambda>m. fst m \<noteq> k) ms @ [(k, v)])"

definition withThoughtSignature :: "string \<Rightarrow> string \<Rightarrow> string" where
  "withThoughtSignature extra sig =
     (let top = raw_map (jparse extra);
          google = raw_map (map_of top ''google'')
      in jprint (JObj (map_set ''google'' (JObj (map_set ''thought_signature'' (JStr sig) google)) top)))"

definition sign_first :: "toolCall list \<Rightarrow> toolCall list option" where
  "sign_first calls =
     (case calls of
        [] \<Rightarrow> None
      | c # cs \<Rightarrow>
          if hasThoughtSignature c then None
          else Some (c\<lparr>tc_ExtraContent := withThoughtSignature (tc_ExtraContent c) skipThoughtSignature\<rparr> # cs))"

definition vertexRequest :: "chatRequest \<Rightarrow> chatRequest" where
  "vertexRequest inp =
     (let out = inp\<lparr>cr_Model := normalizeVertexModel (cr_Model inp)\<rparr>
      in if \<not> has_prefix (cr_Model out) ''google/'' then out else rewriteToolCalls out sign_first)"

section \<open>Forwarded headers\<close>

type_synonym headers = "string \<rightharpoonup> string list"

text \<open>\<open>textproto.CanonicalMIMEHeaderKey\<close>: a name with a byte no header name has is left alone.\<close>

definition header_byte :: "char \<Rightarrow> bool" where
  "header_byte c \<longleftrightarrow> is_letter c \<or> is_digit c \<or> c \<in> set ''!#$%&*+-.^_`|~'' \<or> c = CHR 39"

fun canonical_case :: "bool \<Rightarrow> string \<Rightarrow> string" where
  "canonical_case upper [] = []"
| "canonical_case upper (c # cs) = (if upper then upper_char c else lower_char c) # canonical_case (c = CHR ''-'') cs"

definition CanonicalHeaderKey :: "string \<Rightarrow> string" where
  "CanonicalHeaderKey s = (if list_all header_byte s then canonical_case True s else s)"

definition forwardHeaderDenylist :: "string list" where
  "forwardHeaderDenylist =
     [''Authorization'', ''X-Api-Key'', ''Proxy-Authorization'', ''Cookie'', ''Host'', ''Content-Length'', ''Content-Type'',
      ''Content-Encoding'', ''Transfer-Encoding'', ''Connection'', ''Te'', ''Upgrade'', ''Accept-Encoding'']"

definition isForwardHeaderDenied :: "string \<Rightarrow> bool" where
  "isForwardHeaderDenied name = list_ex (\<lambda>d. to_lower d = to_lower name) forwardHeaderDenylist"

text \<open>The names of the setting, or the first refused one.\<close>

fun collect_names :: "string list \<Rightarrow> string list \<Rightarrow> string + string list" where
  "collect_names [] out = Inr out"
| "collect_names (raw # raws) out =
     (let name = trim_space raw in
      if name = [] then collect_names raws out
      else if isForwardHeaderDenied name then Inl name
      else collect_names raws (out @ [name]))"

definition parseForwardHeaders :: "string \<Rightarrow> string + string list" where
  "parseForwardHeaders s = collect_names (split_on CHR '','' s) []"

fun withForwardedHeaders :: "headers \<Rightarrow> string list \<Rightarrow> headers \<Rightarrow> headers" where
  "withForwardedHeaders h [] out = out"
| "withForwardedHeaders h (name # allow) out =
     (let key = CanonicalHeaderKey name in
      withForwardedHeaders h allow (case h key of None \<Rightarrow> out | Some v \<Rightarrow> out(key \<mapsto> v)))"

definition setForwardedHeaders :: "headers \<Rightarrow> headers \<Rightarrow> headers" where
  "setForwardedHeaders fwd h = h ++ fwd"

section \<open>Calls\<close>

record http_request =
  hr_Method :: string
  hr_URL :: string
  hr_Header :: headers
  hr_Body :: string

record http_response =
  hs_Status :: int
  hs_Get :: "string \<Rightarrow> string"
  hs_Body :: string

text \<open>
  What surrounds a client: whether a URL makes a request, the round trip under a deadline (a failure
  tells whether the context was cancelled), and what the library says of texts and times.
\<close>

record http_env =
  hc_newreq :: "string \<Rightarrow> gerr option"
  hc_do :: "duration option \<Rightarrow> http_request \<Rightarrow> (bool \<times> string) + http_response"
  hc_decoders :: body_decoders
  hc_parseTime :: "string \<Rightarrow> gotime option"
  hc_now :: gotime
  hc_float :: "rat \<Rightarrow> string"
  hc_encerr :: gerr
  hc_jsonerr :: "string \<Rightarrow> gerr"
  hc_scan :: "string \<Rightarrow> string list \<times> gerr option"

definition http_failed :: "http_env \<Rightarrow> string \<Rightarrow> http_response \<Rightarrow> perror" where
  "http_failed C name resp =
     httpError (hc_decoders C) (hc_parseTime C) (hc_now C) name (hs_Status resp) (take 2048 (hs_Body resp))
       (Some (hs_Get resp ''Retry-After''))"

text \<open>The request, once its URL parsed, and the call with its failures; \<open>fwd\<close> are the forwarded headers.\<close>

definition round_trip :: "http_env \<Rightarrow> duration option \<Rightarrow> string \<Rightarrow> http_request \<Rightarrow> gerr + http_response" where
  "round_trip C deadline name req =
     (case hc_newreq C (hr_URL req) of
        Some e \<Rightarrow> Inl e
      | None \<Rightarrow>
          (case hc_do C deadline req of
             Inl (canceled, message) \<Rightarrow> Inl (ProviderErr (transportError canceled message))
           | Inr resp \<Rightarrow> if hs_Status resp div 100 \<noteq> 2 then Inl (ProviderErr (http_failed C name resp)) else Inr resp))"

definition chat_call :: "string \<Rightarrow> string \<Rightarrow> headers \<Rightarrow> string \<Rightarrow> bool \<Rightarrow> http_request" where
  "chat_call baseURL bearer fwd body stream =
     (let h0 = setForwardedHeaders fwd Map.empty;
          h1 = h0(''Content-Type'' \<mapsto> [''application/json'']);
          h2 = (if bearer \<noteq> [] then h1(''Authorization'' \<mapsto> [''Bearer '' @ bearer]) else h1);
          h3 = (if stream then h2(''Accept'' \<mapsto> [''text/event-stream'']) else h2)
      in \<lparr>hr_Method = ''POST'', hr_URL = baseURL @ ''/chat/completions'', hr_Header = h3, hr_Body = body\<rparr>)"

definition sendChatCompletions ::
  "http_env \<Rightarrow> duration option \<Rightarrow> string \<Rightarrow> string \<Rightarrow> string \<Rightarrow> headers \<Rightarrow> string \<Rightarrow> bool \<Rightarrow> gerr + http_response" where
  "sendChatCompletions C deadline name baseURL bearer fwd body stream =
     round_trip C deadline name (chat_call baseURL bearer fwd body stream)"

record openAICompat =
  oc_name :: string
  oc_kind :: string
  oc_baseURL :: string
  oc_apiKey :: string
  oc_chatTimeout :: duration

definition NewOpenAICompat :: "string \<Rightarrow> string \<Rightarrow> string \<Rightarrow> string \<Rightarrow> openAICompat" where
  "NewOpenAICompat name kind baseURL apiKey =
     \<lparr>oc_name = name, oc_kind = kind, oc_baseURL = trim_right (\<lambda>c. c = CHR ''/'') baseURL, oc_apiKey = apiKey, oc_chatTimeout = 0\<rparr>"

definition chat_deadline :: "duration \<Rightarrow> duration" where
  "chat_deadline timeout = (if timeout \<le> 0 then 120 * second else timeout)"

definition read_chat :: "http_env \<Rightarrow> http_response \<Rightarrow> gerr + chatResponse" where
  "read_chat C resp = (case DecodeChatResponse (hs_Body resp) of None \<Rightarrow> Inl (hc_jsonerr C (hs_Body resp)) | Some r \<Rightarrow> Inr r)"

definition oc_Chat :: "http_env \<Rightarrow> openAICompat \<Rightarrow> headers \<Rightarrow> chatRequest \<Rightarrow> gerr + chatResponse" where
  "oc_Chat C p fwd inp =
     (case EncodeChatRequest (hc_float C) (withoutToolCallExtras (withThinkingOff (oc_kind p) inp)) False of
        None \<Rightarrow> Inl (hc_encerr C)
      | Some body \<Rightarrow>
          (case sendChatCompletions C (Some (chat_deadline (oc_chatTimeout p))) (oc_name p) (oc_baseURL p) (oc_apiKey p) fwd body False of
             Inl err \<Rightarrow> Inl (thinkingRejection (oc_kind p) inp err)
           | Inr resp \<Rightarrow> read_chat C resp))"

definition read_stream ::
  "http_env \<Rightarrow> streamDecodeOptions \<Rightarrow> ('s, gerr) yielder \<Rightarrow> 's \<Rightarrow> http_response \<Rightarrow> 's \<times> gerr option" where
  "read_stream C opts yield s resp =
     (case hc_scan C (hs_Body resp) of (lines, scan_err) \<Rightarrow> decodeSSEStream dec_upstreamChunk opts yield s lines scan_err)"

definition oc_ChatStream ::
  "http_env \<Rightarrow> openAICompat \<Rightarrow> headers \<Rightarrow> chatRequest \<Rightarrow> ('s, gerr) yielder \<Rightarrow> 's \<Rightarrow> 's \<times> gerr option" where
  "oc_ChatStream C p fwd inp yield s =
     (case EncodeChatRequest (hc_float C) (withoutToolCallExtras (withThinkingOff (oc_kind p) inp)) True of
        None \<Rightarrow> (s, Some (hc_encerr C))
      | Some body \<Rightarrow>
          (case sendChatCompletions C None (oc_name p) (oc_baseURL p) (oc_apiKey p) fwd body True of
             Inl err \<Rightarrow> (s, Some (thinkingRejection (oc_kind p) inp err))
           | Inr resp \<Rightarrow> read_stream C \<lparr>opt_provider = oc_name p, coalesceUsage = False\<rparr> yield s resp))"

text \<open>A Vertex client; \<open>token\<close> is the token source's answer to this call.\<close>

record vertex =
  vx_name :: string
  vx_baseURL :: string
  vx_chatTimeout :: duration

definition NewVertex :: "string \<Rightarrow> string \<Rightarrow> vertex" where
  "NewVertex name baseURL =
     \<lparr>vx_name = name, vx_baseURL = trim_right (\<lambda>c. c = CHR ''/'') baseURL, vx_chatTimeout = 0\<rparr>"

definition vx_bearer :: "vertex \<Rightarrow> (bool \<times> string) + string \<Rightarrow> gerr + string" where
  "vx_bearer p token =
     (case token of
        Inl (canceled, err) \<Rightarrow> Inl (ProviderErr (transportError canceled (''upstream '' @ vx_name p @ '' token source: '' @ err)))
      | Inr t \<Rightarrow> Inr t)"

definition vx_Chat ::
  "http_env \<Rightarrow> vertex \<Rightarrow> (bool \<times> string) + string \<Rightarrow> headers \<Rightarrow> chatRequest \<Rightarrow> gerr + chatResponse" where
  "vx_Chat C p token fwd inp =
     (case EncodeChatRequest (hc_float C) (vertexRequest (withThinkingOff ''vertex'' inp)) False of
        None \<Rightarrow> Inl (hc_encerr C)
      | Some body \<Rightarrow>
          (case vx_bearer p token of
             Inl err \<Rightarrow> Inl err
           | Inr bearer \<Rightarrow>
               (case sendChatCompletions C (Some (chat_deadline (vx_chatTimeout p))) (vx_name p) (vx_baseURL p) bearer fwd body False of
                  Inl err \<Rightarrow> Inl (thinkingRejection ''vertex'' inp err)
                | Inr resp \<Rightarrow> read_chat C resp)))"

definition vx_ChatStream ::
  "http_env \<Rightarrow> vertex \<Rightarrow> (bool \<times> string) + string \<Rightarrow> headers \<Rightarrow> chatRequest \<Rightarrow> ('s, gerr) yielder \<Rightarrow> 's \<Rightarrow> 's \<times> gerr option" where
  "vx_ChatStream C p token fwd inp yield s =
     (case EncodeChatRequest (hc_float C) (vertexRequest (withThinkingOff ''vertex'' inp)) True of
        None \<Rightarrow> (s, Some (hc_encerr C))
      | Some body \<Rightarrow>
          (case vx_bearer p token of
             Inl err \<Rightarrow> (s, Some err)
           | Inr bearer \<Rightarrow>
               (case sendChatCompletions C None (vx_name p) (vx_baseURL p) bearer fwd body True of
                  Inl err \<Rightarrow> (s, Some (thinkingRejection ''vertex'' inp err))
                | Inr resp \<Rightarrow> read_stream C \<lparr>opt_provider = vx_name p, coalesceUsage = True\<rparr> yield s resp)))"

section \<open>Lemmas\<close>

lemma thinking_off_kinds: "fst ` set (thinkingOffSettings kind) \<subseteq> set reasoningFields"
  by (auto simp: thinkingOffSettings_def reasoningFields_def)

lemma reasoning_not_owned: "f \<in> set reasoningFields \<Longrightarrow> f \<notin> set ownedRequestKeys"
  by (auto simp: reasoningFields_def ownedRequestKeys_def)

lemma settings_parse:
  "(f, r) \<in> set (thinkingOffSettings kind) \<Longrightarrow> \<exists>j. json_ok j \<and> r = jprint j"
proof -
  assume "(f, r) \<in> set (thinkingOffSettings kind)"
  then have "r \<in> {jprint (JStr ''none''), jprint (JStr ''minimal''), jprint (JObj [(''effort'', JStr ''none'')])}"
    by (auto simp: thinkingOffSettings_def simp del: jprint.simps split: if_splits)
  then show ?thesis using json_ok.simps by (force simp del: jprint.simps)
qed

lemma thinking_off_extra:
  assumes "cr_ThinkingOff inp"
  shows "set (cr_Extra (withThinkingOff kind inp))
    = {(k, r) \<in> set (cr_Extra inp). k \<notin> set reasoningFields} \<union> set (thinkingOffSettings kind)"
  using assms thinking_off_kinds [of kind]
  by (force simp: withThinkingOff_def maps_copy_def Let_def)

lemma rewrite_fields [simp]:
  "cr_Model (rewriteToolCalls inp e) = cr_Model inp" "cr_Tools (rewriteToolCalls inp e) = cr_Tools inp"
  "cr_Extra (rewriteToolCalls inp e) = cr_Extra inp" "cr_Temperature (rewriteToolCalls inp e) = cr_Temperature inp"
  "length (cr_Messages (rewriteToolCalls inp e)) = length (cr_Messages inp)"
  by (simp_all add: rewriteToolCalls_def)

lemma without_extras_is:
  "withoutToolCallExtras inp =
     inp\<lparr>cr_Messages := map (\<lambda>m. m\<lparr>m_ToolCalls := map (\<lambda>t. t\<lparr>tc_ExtraContent := []\<rparr>) (m_ToolCalls m)\<rparr>) (cr_Messages inp)\<rparr>"
proof -
  have "map (\<lambda>t. t\<lparr>tc_ExtraContent := []\<rparr>) ts = ts" if "\<not> list_ex (\<lambda>t. tc_ExtraContent t \<noteq> []) ts" for ts :: "toolCall list"
    using that by (induction ts) auto
  then show ?thesis by (auto simp: withoutToolCallExtras_def rewriteToolCalls_def)
qed

lemma extras_origin:
  "those (map (\<lambda>(k, r). map_option (Pair k) (jparse r)) es) = Some ys \<Longrightarrow> (k, v) \<in> set ys
     \<Longrightarrow> \<exists>r. (k, r) \<in> set es \<and> jparse r = Some v"
proof (induction es arbitrary: ys)
  case (Cons e es)
  then show ?case by (auto split: prod.splits option.splits) blast+
qed simp

text \<open>The body of an encoded request, as its reader finds it.\<close>

lemma encoded_extra:
  assumes "EncodeChatRequest ff req stream = Some text"
    and "case cr_Temperature req of None \<Rightarrow> True | Some x \<Rightarrow> valid_num (ff x)"
    and "f \<notin> set ownedRequestKeys"
  obtains ms where "jparse text = Some (JObj ms)"
    "\<And>v. (f, v) \<in> set ms \<longleftrightarrow> (\<exists>r. (f, r) \<in> set (cr_Extra req) \<and> jparse r = Some v)"
proof -
  obtain M where M: "upstreamChatRequest ff req stream = Some M"
    using assms(1) by (auto simp: EncodeChatRequest_def bind_eq_Some_conv)
  obtain js rest where sh: "list_all (\<lambda>(k, v). json_ok v) M" "fst ` set M \<subseteq> set ownedRequestKeys"
    by (rule upstream_members_shape [OF M assms(2)])
  have no: "(f, v) \<notin> set M" for v using sh(2) assms(3) by force
  show ?thesis
  proof (cases "cr_Extra req = []")
    case True
    then have "jparse text = Some (JObj M)"
      using assms(1) M jparse_print [of "JObj M"] sh(1) by (simp add: EncodeChatRequest_def del: jprint.simps)
    then show ?thesis using that no True by simp
  next
    case False
    then obtain xs where xs: "those (map (\<lambda>(k, r). map_option (Pair k) (jparse r)) (cr_Extra req)) = Some xs"
      and t: "text = jprint (JObj (merge_extra M xs))"
      using assms(1) M by (auto simp: EncodeChatRequest_def bind_eq_Some_conv simp del: jprint.simps)
    note x = extras_parsed [OF xs]
    have "json_ok (JObj (merge_extra M xs))" using sh(1) x(2) by (auto simp: list_all_iff merge_extra_def)
    then have p: "jparse text = Some (JObj (merge_extra M xs))" unfolding t by (rule jparse_print)
    have m: "(f, v) \<in> set (merge_extra M xs) \<longleftrightarrow> (f, v) \<in> set xs" for v using no by (auto simp: merge_extra_def)
    show ?thesis
    proof (rule that [OF p])
      show "(f, v) \<in> set (merge_extra M xs) \<longleftrightarrow> (\<exists>r. (f, r) \<in> set (cr_Extra req) \<and> jparse r = Some v)" for v
        unfolding m using x(3) extras_origin [OF xs] by metis
    qed
  qed
qed

lemma lower_upper [simp]: "lower_char (upper_char c) = lower_char c"
  unfolding char_code_inject [symmetric] code_lower_char code_upper_char is_upper_def is_lower_def by auto

lemma canonical_lower: "to_lower (CanonicalHeaderKey s) = to_lower s"
proof -
  have "to_lower (canonical_case u s) = to_lower s" for u
    by (induction u s rule: canonical_case.induct) simp_all
  then show ?thesis by (simp add: CanonicalHeaderKey_def)
qed

lemma collected_names:
  "collect_names raws out = Inr allow \<Longrightarrow> list_all (\<lambda>n. \<not> isForwardHeaderDenied n) out
     \<Longrightarrow> list_all (\<lambda>n. \<not> isForwardHeaderDenied n) allow"
  by (induction raws out rule: collect_names.induct) (auto simp: Let_def split: if_splits)

lemma forwarded_from:
  "withForwardedHeaders h allow out k = Some v \<Longrightarrow>
     out k = Some v \<or> h k = Some v \<and> k \<in> CanonicalHeaderKey ` set allow"
  by (induction h allow out rule: withForwardedHeaders.induct) (auto simp: Let_def split: option.splits if_splits)

lemma denied_not_forwarded:
  assumes "parseForwardHeaders raw = Inr allow" and "isForwardHeaderDenied k"
  shows "withForwardedHeaders h allow Map.empty k = None"
proof (rule ccontr)
  assume "withForwardedHeaders h allow Map.empty k \<noteq> None"
  then obtain n where n: "n \<in> set allow" "k = CanonicalHeaderKey n" using forwarded_from [of h allow Map.empty k] by auto
  have "\<not> isForwardHeaderDenied n"
    using collected_names [OF assms(1) [unfolded parseForwardHeaders_def]] n(1) by (auto simp: list_all_iff)
  then show False using assms(2) canonical_lower [of n] by (auto simp: isForwardHeaderDenied_def n(2) list_ex_iff)
qed

lemma map_set_members [simp]: "set (map_set k v ms) = {m \<in> set ms. fst m \<noteq> k} \<union> {(k, v)}"
  by (auto simp: map_set_def)

lemma raw_map_ok:
  assumes "\<And>v. j = Some v \<Longrightarrow> json_ok v"
  shows "(k, v) \<in> set (raw_map j) \<Longrightarrow> json_ok v"
proof -
  have sub: "set (last_wins ms) \<subseteq> set ms" for ms :: members by (induction ms rule: last_wins.induct) auto
  assume "(k, v) \<in> set (raw_map j)"
  then obtain ms where "j = Some (JObj ms)" "(k, v) \<in> set ms" using sub by (auto simp: raw_map_def split: option.splits json.splits)
  then show ?thesis using assms [of "JObj ms"] by (auto simp: list_all_iff)
qed

text \<open>Signing: one signature, everything else as it was.\<close>

definition members_except :: "string \<Rightarrow> members \<Rightarrow> members \<Rightarrow> bool" where
  "members_except k ms ns \<longleftrightarrow> {m \<in> set ms. fst m \<noteq> k} = {m \<in> set ns. fst m \<noteq> k}"

lemma signed_extra:
  fixes extra sig :: string
  defines "outer \<equiv> raw_map (jparse extra)"
  shows "\<exists>ms gs. jparse (withThoughtSignature extra sig) = Some (JObj ms) \<and> members_except ''google'' ms (outer)
    \<and> {v. (''google'', v) \<in> set ms} = {JObj gs} \<and> members_except ''thought_signature'' gs (raw_map (map_of (outer) ''google''))
    \<and> {v. (''thought_signature'', v) \<in> set gs} = {JStr sig}"
proof -
  let ?g = "raw_map (map_of (outer) ''google'')"
  let ?gs = "map_set ''thought_signature'' (JStr sig) ?g"
  let ?ms = "map_set ''google'' (JObj ?gs) (outer)"
  have t: "(k, v) \<in> set (outer) \<Longrightarrow> json_ok v" for k v
    unfolding outer_def by (rule raw_map_ok) (auto dest: jparse_ok)
  then have "(k, v) \<in> set ?g \<Longrightarrow> json_ok v" for k v by (rule raw_map_ok) (auto dest: map_of_SomeD)
  with t have "json_ok (JObj ?ms)" by (auto simp: list_all_iff)
  then have "jparse (withThoughtSignature extra sig) = Some (JObj ?ms)"
    unfolding withThoughtSignature_def Let_def outer_def by (rule jparse_print)
  then show ?thesis by (intro exI [of _ ?ms] exI [of _ ?gs]) (auto simp: members_except_def)
qed

lemma vertex_message:
  assumes "has_prefix (normalizeVertexModel (cr_Model inp)) ''google/''" and "i < length (cr_Messages inp)"
  shows "cr_Messages (vertexRequest inp) ! i =
    (case sign_first (m_ToolCalls (cr_Messages inp ! i)) of
       None \<Rightarrow> cr_Messages inp ! i | Some calls \<Rightarrow> (cr_Messages inp ! i)\<lparr>m_ToolCalls := calls\<rparr>)"
  using assms by (simp add: vertexRequest_def rewriteToolCalls_def Let_def)

section \<open>Properties\<close>

text \<open>
  C28: A request with thinking switched off carries, on the wire, the reasoning setting
  the gateway chose for the provider kind and no other: whatever the client wrote in
  \<open>reasoning_effort\<close>, \<open>reasoning\<close> or \<open>think\<close> is gone, every other extra field is forwarded, and no
  tool call keeps Vertex's extra content.
\<close>
theorem thinking_off_on_wire:
  assumes "cr_ThinkingOff inp"
    and "EncodeChatRequest ff (withoutToolCallExtras (withThinkingOff kind inp)) stream = Some body"
    and "case cr_Temperature inp of None \<Rightarrow> True | Some x \<Rightarrow> valid_num (ff x)"
    and "f \<notin> set ownedRequestKeys"
  shows "\<exists>ms. jparse body = Some (JObj ms)
    \<and> (f \<in> set reasoningFields \<longrightarrow> {v. (f, v) \<in> set ms} = {v. \<exists>r. (f, r) \<in> set (thinkingOffSettings kind) \<and> jparse r = Some v})
    \<and> (f \<notin> set reasoningFields \<longrightarrow> {v. (f, v) \<in> set ms} = {v. \<exists>r. (f, r) \<in> set (cr_Extra inp) \<and> jparse r = Some v})
    \<and> list_all (\<lambda>m. list_all (\<lambda>t. tc_ExtraContent t = []) (m_ToolCalls m))
        (cr_Messages (withoutToolCallExtras (withThinkingOff kind inp)))"
proof -
  let ?req = "withoutToolCallExtras (withThinkingOff kind inp)"
  have e: "cr_Extra ?req = cr_Extra (withThinkingOff kind inp)" "cr_Temperature ?req = cr_Temperature inp"
    by (simp_all add: without_extras_is withThinkingOff_def Let_def)
  obtain ms where ms: "jparse body = Some (JObj ms)"
    "\<And>v. (f, v) \<in> set ms \<longleftrightarrow> (\<exists>r. (f, r) \<in> set (cr_Extra ?req) \<and> jparse r = Some v)"
    using encoded_extra [OF assms(2) _ assms(4)] assms(3) unfolding e(2) by blast
  have "fst ` set (thinkingOffSettings kind) \<subseteq> set reasoningFields" by (rule thinking_off_kinds)
  then have "f \<notin> set reasoningFields \<Longrightarrow> (f, r) \<notin> set (thinkingOffSettings kind)" for r by force
  then show ?thesis using ms unfolding e(1) thinking_off_extra [OF assms(1)]
    by (intro exI [of _ ms]) (auto simp: without_extras_is list_all_iff)
qed

text \<open>
  C22: No credential of a caller reaches an upstream: whatever headers an accepted setting
  forwards and whatever the caller sent, the call carries the gateway's own key or none, never the
  caller's \<open>Authorization\<close>, \<open>X-Api-Key\<close> or cookie; its content type is the gateway's, and every
  header beyond these three is one the setting names, with the caller's values.
\<close>
theorem caller_credentials_stay:
  assumes "parseForwardHeaders setting = Inr allow"
  shows "let h = hr_Header (chat_call baseURL bearer (withForwardedHeaders caller allow Map.empty) body stream) in
    h ''Authorization'' = (if bearer = [] then None else Some [''Bearer '' @ bearer])
    \<and> h ''X-Api-Key'' = None \<and> h ''Cookie'' = None \<and> h ''Content-Type'' = Some [''application/json'']
    \<and> (stream \<longrightarrow> h ''Accept'' = Some [''text/event-stream''])
    \<and> (\<forall>k v. h k = Some v \<longrightarrow> k \<in> {''Authorization'', ''Content-Type'', ''Accept''}
         \<or> (caller k = Some v \<and> k \<in> CanonicalHeaderKey ` set allow))"
proof -
  let ?f = "withForwardedHeaders caller allow Map.empty"
  have d: "isForwardHeaderDenied ''Authorization''" "isForwardHeaderDenied ''X-Api-Key''" "isForwardHeaderDenied ''Cookie''"
    by (simp_all add: isForwardHeaderDenied_def forwardHeaderDenylist_def)
  note n = d [THEN denied_not_forwarded [OF assms, where h = caller]]
  have h: "hr_Header (chat_call baseURL bearer ?f body stream) =
    (?f(''Content-Type'' \<mapsto> [''application/json''])) ++ (if bearer \<noteq> [] then [''Authorization'' \<mapsto> [''Bearer '' @ bearer]] else Map.empty)
      ++ (if stream then [''Accept'' \<mapsto> [''text/event-stream'']] else Map.empty)"
    by (simp add: chat_call_def setForwardedHeaders_def Let_def)
  have rest: "?f k = Some v \<Longrightarrow> caller k = Some v \<and> k \<in> CanonicalHeaderKey ` set allow" for k v
    using forwarded_from [of caller allow Map.empty k v] by auto
  show ?thesis unfolding h Let_def using n rest by (auto split: if_splits)
qed

text \<open>
  A Gemini request leaves with a thought signature on the first tool call of every
  turn that has tool calls: one the call already carries is kept as it is, and otherwise the call's
  extra content becomes an object that has \<open>google.thought_signature\<close> set to the stand-in, once,
  and every other member it had. The other calls of the turn, the number of messages and the extra
  fields are unchanged.
\<close>
theorem vertex_first_call_signed:
  assumes "has_prefix (normalizeVertexModel (cr_Model inp)) ''google/''" and "i < length (cr_Messages inp)"
    and "m_ToolCalls (cr_Messages inp ! i) = c # cs"
  shows "\<exists>x. cr_Messages (vertexRequest inp) ! i = (cr_Messages inp ! i)\<lparr>m_ToolCalls := c\<lparr>tc_ExtraContent := x\<rparr> # cs\<rparr>
    \<and> (if hasThoughtSignature c then x = tc_ExtraContent c
       else \<exists>ms gs. jparse x = Some (JObj ms) \<and> members_except ''google'' ms (raw_map (jparse (tc_ExtraContent c)))
         \<and> {v. (''google'', v) \<in> set ms} = {JObj gs}
         \<and> members_except ''thought_signature'' gs (raw_map (map_of (raw_map (jparse (tc_ExtraContent c))) ''google''))
         \<and> {v. (''thought_signature'', v) \<in> set gs} = {JStr skipThoughtSignature})
    \<and> length (cr_Messages (vertexRequest inp)) = length (cr_Messages inp) \<and> cr_Extra (vertexRequest inp) = cr_Extra inp"
proof -
  let ?m = "cr_Messages inp ! i"
  have l: "length (cr_Messages (vertexRequest inp)) = length (cr_Messages inp)" "cr_Extra (vertexRequest inp) = cr_Extra inp"
    by (simp_all add: vertexRequest_def Let_def)
  show ?thesis
  proof (cases "hasThoughtSignature c")
    case True
    have "cr_Messages (vertexRequest inp) ! i = ?m" using vertex_message [OF assms(1,2)] by (simp add: assms(3) sign_first_def True)
    moreover have "?m\<lparr>m_ToolCalls := c # cs\<rparr> = ?m" unfolding assms(3) [symmetric] by simp
    ultimately show ?thesis using l True by (intro exI [of _ "tc_ExtraContent c"]) simp
  next
    case False
    let ?x = "withThoughtSignature (tc_ExtraContent c) skipThoughtSignature"
    have "cr_Messages (vertexRequest inp) ! i = ?m\<lparr>m_ToolCalls := c\<lparr>tc_ExtraContent := ?x\<rparr> # cs\<rparr>"
      using vertex_message [OF assms(1,2)] by (simp add: assms(3) sign_first_def False)
    then show ?thesis using l False signed_extra [of "tc_ExtraContent c" skipThoughtSignature] by (intro exI [of _ ?x]) simp
  qed
qed

text \<open>
  A tier that refuses the reasoning setting the gateway chose does not fail the
  request: a 400 that names the setting's field becomes a target mismatch, which moves on to the next
  target. Nothing else changes: not the status, the text or the retry advice, no error of a request
  whose reasoning fields are the client's, and no error that already has a code.
\<close>
theorem setting_refused_moves_on:
  shows "(pe_Status pe = 400 \<and> pe_Code pe = [] \<and> cr_ThinkingOff inp \<and> (f, r) \<in> set (thinkingOffSettings kind)
        \<and> contains_str (pe_Message pe) f \<longrightarrow> IsTargetMismatch (thinkingRejection kind inp (ProviderErr pe)))
    \<and> (\<not> cr_ThinkingOff inp \<or> pe_Code pe \<noteq> [] \<or> pe_Status pe \<noteq> 400 \<or> thinkingOffSettings kind = []
        \<longrightarrow> thinkingRejection kind inp (ProviderErr pe) = ProviderErr pe)
    \<and> (\<exists>code. thinkingRejection kind inp (ProviderErr pe) = ProviderErr (pe\<lparr>pe_Code := code\<rparr>))"
proof (intro conjI impI)
  assume a: "pe_Status pe = 400 \<and> pe_Code pe = [] \<and> cr_ThinkingOff inp \<and> (f, r) \<in> set (thinkingOffSettings kind)
        \<and> contains_str (pe_Message pe) f"
  then have "list_ex (\<lambda>(f, v). contains_str (pe_Message pe) f) (thinkingOffSettings kind)" by (auto simp: list_ex_iff)
  with a show "IsTargetMismatch (thinkingRejection kind inp (ProviderErr pe))"
    by (auto simp: thinkingRejection_def Let_def IsTargetMismatch_def mismatch_codes_def)
next
  assume "\<not> cr_ThinkingOff inp \<or> pe_Code pe \<noteq> [] \<or> pe_Status pe \<noteq> 400 \<or> thinkingOffSettings kind = []"
  then show "thinkingRejection kind inp (ProviderErr pe) = ProviderErr pe" by (auto simp: thinkingRejection_def Let_def)
next
  show "\<exists>code. thinkingRejection kind inp (ProviderErr pe) = ProviderErr (pe\<lparr>pe_Code := code\<rparr>)"
    by (cases "thinkingRejection kind inp (ProviderErr pe) = ProviderErr pe")
      (auto simp: thinkingRejection_def Let_def intro: exI [of _ "pe_Code pe"])
qed

section \<open>Witnesses\<close>

definition demo_thinking :: chatRequest where
  "demo_thinking = demo_wire_request\<lparr>cr_Extra := [(''reasoning_effort'', jprint (JStr ''high''))]\<rparr>"

theorem thinking_off_on_wire_witness:
  "\<exists>body ms. EncodeChatRequest (\<lambda>_. ''0'') (withoutToolCallExtras (withThinkingOff ''ollama'' demo_thinking)) False = Some body
     \<and> jparse body = Some (JObj ms) \<and> {v. (''reasoning_effort'', v) \<in> set ms} = {JStr ''none''}"
proof -
  have "EncodeChatRequest (\<lambda>_. ''0'') (withoutToolCallExtras (withThinkingOff ''ollama'' demo_thinking)) False \<noteq> None" by code_simp
  then obtain b where e: "EncodeChatRequest (\<lambda>_. ''0'') (withoutToolCallExtras (withThinkingOff ''ollama'' demo_thinking)) False = Some b"
    by blast
  have p: "jparse (jprint (JStr ''none'')) = Some (JStr ''none'')" by (rule jparse_print) simp
  have "cr_ThinkingOff demo_thinking" "case cr_Temperature demo_thinking of None \<Rightarrow> True | Some x \<Rightarrow> valid_num ((\<lambda>_. ''0'') x)"
    "''reasoning_effort'' \<notin> set ownedRequestKeys" "''reasoning_effort'' \<in> set reasoningFields"
    by (simp_all add: demo_thinking_def demo_wire_request_def ownedRequestKeys_def reasoningFields_def)
  with thinking_off_on_wire [OF _ e] obtain ms where "jparse b = Some (JObj ms)"
    "{v. (''reasoning_effort'', v) \<in> set ms} = {v. \<exists>r. (''reasoning_effort'', r) \<in> set (thinkingOffSettings ''ollama'') \<and> jparse r = Some v}"
    by meson
  then show ?thesis using e p by (intro exI [of _ b] exI [of _ ms]) (auto simp: thinkingOffSettings_def simp del: jprint.simps)
qed

theorem caller_credentials_stay_witness:
  "let h = hr_Header (chat_call ''u'' [] (withForwardedHeaders [''Authorization'' \<mapsto> [''Bearer air_x''], ''X-Request-Id'' \<mapsto> [''7'']]
       [''x-request-id''] Map.empty) [] False) in h ''Authorization'' = None \<and> h ''Content-Type'' = Some [''application/json'']"
proof -
  have "parseForwardHeaders '' x-request-id, '' = Inr [''x-request-id'']" by code_simp
  from caller_credentials_stay [OF this, of "''u''" "[]" "[''Authorization'' \<mapsto> [''Bearer air_x''], ''X-Request-Id'' \<mapsto> [''7'']]" "[]" False]
  show ?thesis unfolding Let_def by simp
qed

definition demo_call :: toolCall where
  "demo_call = \<lparr>tc_ID = ''c'', tc_Type = ''function'', tc_Function = \<lparr>fc_Name = ''f'', fc_Arguments = ''{}''\<rparr>, tc_ExtraContent = []\<rparr>"

theorem vertex_first_call_signed_witness:
  "\<exists>x. m_ToolCalls (cr_Messages (vertexRequest (demo_wire_request\<lparr>cr_Model := ''gemini'',
       cr_Messages := [zero_message\<lparr>m_ToolCalls := [demo_call]\<rparr>]\<rparr>)) ! 0) = [demo_call\<lparr>tc_ExtraContent := x\<rparr>] \<and> x \<noteq> []"
proof -
  let ?r = "demo_wire_request\<lparr>cr_Model := ''gemini'', cr_Messages := [zero_message\<lparr>m_ToolCalls := [demo_call]\<rparr>]\<rparr>"
  have h: "\<not> hasThoughtSignature demo_call" by code_simp
  have "has_prefix (normalizeVertexModel (cr_Model ?r)) ''google/''" by (simp add: normalizeVertexModel_def has_prefix_def)
  moreover have "0 < length (cr_Messages ?r)" "m_ToolCalls (cr_Messages ?r ! 0) = demo_call # []" by simp_all
  ultimately obtain x ms where x: "cr_Messages (vertexRequest ?r) ! 0 = (cr_Messages ?r ! 0)\<lparr>m_ToolCalls := [demo_call\<lparr>tc_ExtraContent := x\<rparr>]\<rparr>"
    "jparse x = Some (JObj ms)"
    using vertex_first_call_signed [of ?r 0 demo_call "[]"] h by (simp only: if_False) blast
  have "jparse [] = None" by code_simp
  with x(2) have "x \<noteq> []" by auto
  then show ?thesis using x(1) by (intro exI [of _ x]) simp
qed

theorem setting_refused_moves_on_witness:
  "IsTargetMismatch (thinkingRejection ''vertex'' demo_thinking (ProviderErr
     \<lparr>pe_Status = 400, pe_Retryable = False, pe_Code = [], pe_Message = ''bad reasoning_effort'', pe_RetryAfter = None\<rparr>))"
proof -
  have "(''reasoning_effort'', jprint (JStr ''minimal'')) \<in> set (thinkingOffSettings ''vertex'')" "cr_ThinkingOff demo_thinking"
    "contains_str ''bad reasoning_effort'' ''reasoning_effort''"
    by (simp_all add: thinkingOffSettings_def demo_thinking_def demo_wire_request_def has_prefix_def del: jprint.simps)
  then show ?thesis using setting_refused_moves_on
      [of "\<lparr>pe_Status = 400, pe_Retryable = False, pe_Code = [], pe_Message = ''bad reasoning_effort'', pe_RetryAfter = None\<rparr>"
        demo_thinking "''reasoning_effort''" "jprint (JStr ''minimal'')" "''vertex''"]
    by simp
qed

end
