(* ===== verification/Base64.thy ===== *)
theory Base64
  imports GoStrings
begin

text \<open>
  Base64 as \<open>encoding/base64\<close> writes and reads it: the standard alphabet with padding
  (\<open>StdEncoding\<close>) and the URL alphabet without (\<open>RawURLEncoding\<close>). A reader skips line ends and does
  not look at unused bits of the last digit.
\<close>

section \<open>Alphabets\<close>

definition letters :: string where
  "letters = ''ABCDEFGHIJKLMNOPQRSTUVWXYZabcdefghijklmnopqrstuvwxyz0123456789''"

definition std_alphabet :: string where "std_alphabet = letters @ ''+/''"
definition url_alphabet :: string where "url_alphabet = letters @ ''-_''"

fun index_of :: "'a \<Rightarrow> 'a list \<Rightarrow> nat option" where
  "index_of c [] = None"
| "index_of c (x # xs) = (if x = c then Some 0 else map_option Suc (index_of c xs))"

lemma index_of_nth: "distinct xs \<Longrightarrow> n < length xs \<Longrightarrow> index_of (xs ! n) xs = Some n"
proof (induction xs arbitrary: n)
  case (Cons x xs)
  then show ?case by (cases n) auto
qed simp

section \<open>Encoding\<close>

definition digits1 :: "nat \<Rightarrow> nat list" where "digits1 a = [a div 4, (a mod 4) * 16]"
definition digits2 :: "nat \<Rightarrow> nat \<Rightarrow> nat list" where "digits2 a b = [a div 4, (a mod 4) * 16 + b div 16, (b mod 16) * 4]"
definition digits3 :: "nat \<Rightarrow> nat \<Rightarrow> nat \<Rightarrow> nat list" where
  "digits3 a b c = [a div 4, (a mod 4) * 16 + b div 16, (b mod 16) * 4 + c div 64, c mod 64]"

fun b64_encode :: "string \<Rightarrow> string \<Rightarrow> string \<Rightarrow> string" where
  "b64_encode alph pad [] = []"
| "b64_encode alph pad [a] = map ((!) alph) (digits1 (char_code a)) @ pad @ pad"
| "b64_encode alph pad [a, b] = map ((!) alph) (digits2 (char_code a) (char_code b)) @ pad"
| "b64_encode alph pad (a # b # c # r) =
     map ((!) alph) (digits3 (char_code a) (char_code b) (char_code c)) @ b64_encode alph pad r"

definition byte_char :: "nat \<Rightarrow> char" where "byte_char n = char_of n"

definition bytes1 :: "nat \<Rightarrow> nat \<Rightarrow> string" where "bytes1 w x = [byte_char (w * 4 + x div 16)]"
definition bytes2 :: "nat \<Rightarrow> nat \<Rightarrow> nat \<Rightarrow> string" where
  "bytes2 w x y = [byte_char (w * 4 + x div 16), byte_char ((x mod 16) * 16 + y div 4)]"
definition bytes3 :: "nat \<Rightarrow> nat \<Rightarrow> nat \<Rightarrow> nat \<Rightarrow> string" where
  "bytes3 w x y z = [byte_char (w * 4 + x div 16), byte_char ((x mod 16) * 16 + y div 4), byte_char ((y mod 4) * 64 + z)]"

text \<open>The digits of a text without its line ends: four at a time, the last group shorter or padded.\<close>

fun b64_groups :: "string \<Rightarrow> string \<Rightarrow> string \<Rightarrow> string option" where
  "b64_groups alph pad [] = Some []"
| "b64_groups alph pad [w, x] =
     (case (index_of w alph, index_of x alph) of (Some i, Some j) \<Rightarrow> if pad = [] then Some (bytes1 i j) else None | _ \<Rightarrow> None)"
| "b64_groups alph pad [w, x, y] =
     (case (index_of w alph, index_of x alph, index_of y alph) of
        (Some i, Some j, Some k) \<Rightarrow> if pad = [] then Some (bytes2 i j k) else None | _ \<Rightarrow> None)"
| "b64_groups alph pad (w # x # y # z # r) =
     (case (index_of w alph, index_of x alph, index_of y alph, index_of z alph) of
        (Some i, Some j, Some k, Some l) \<Rightarrow> map_option ((@) (bytes3 i j k l)) (b64_groups alph pad r)
      | (Some i, Some j, Some k, None) \<Rightarrow> if pad = [z] \<and> r = [] then Some (bytes2 i j k) else None
      | (Some i, Some j, None, _) \<Rightarrow> if pad = [y] \<and> [z] = pad \<and> r = [] then Some (bytes1 i j) else None
      | _ \<Rightarrow> None)"
| "b64_groups alph pad s = None"

definition b64_decode :: "string \<Rightarrow> string \<Rightarrow> string \<Rightarrow> string option" where
  "b64_decode alph pad s = b64_groups alph pad (filter (\<lambda>c. char_code c \<noteq> 10 \<and> char_code c \<noteq> 13) s)"

definition StdEncoding_EncodeToString :: "string \<Rightarrow> string" where
  "StdEncoding_EncodeToString = b64_encode std_alphabet ''=''"

definition StdEncoding_DecodeString :: "string \<Rightarrow> string option" where
  "StdEncoding_DecodeString = b64_decode std_alphabet ''=''"

definition RawURLEncoding_EncodeToString :: "string \<Rightarrow> string" where
  "RawURLEncoding_EncodeToString = b64_encode url_alphabet []"

definition RawURLEncoding_DecodeString :: "string \<Rightarrow> string option" where
  "RawURLEncoding_DecodeString = b64_decode url_alphabet []"

lemma triples_induct [case_names none one two more]:
  "P [] \<Longrightarrow> (\<And>a. P [a]) \<Longrightarrow> (\<And>a b. P [a, b]) \<Longrightarrow> (\<And>a b c r. P r \<Longrightarrow> P (a # b # c # r)) \<Longrightarrow> P s"
  by induction_schema (pat_completeness, lexicographic_order)

section \<open>Reading what was written\<close>

text \<open>An alphabet with its padding.\<close>

locale base64 =
  fixes alph pad :: string
  assumes len: "length alph = 64" and dist: "distinct alph" and pad_len: "length pad \<le> 1"
    and pad_out: "c \<in> set pad \<Longrightarrow> c \<notin> set alph"
    and no_line: "c \<in> set alph \<union> set pad \<Longrightarrow> char_code c \<noteq> 10 \<and> char_code c \<noteq> 13"
begin

lemma digit [simp]: "n < 64 \<Longrightarrow> index_of (alph ! n) alph = Some n"
  using index_of_nth [OF dist] len by simp

lemma not_digit: "c \<notin> set xs \<Longrightarrow> index_of c xs = None"
  by (induction xs) auto

lemma code_byte: "byte_char (char_code c) = c" "char_code c < 256"
  by (simp_all add: byte_char_def char_code_def)

lemma first_byte: "n div 4 * 4 + (n mod 4 * 16 + m div 16) div 16 = n" if "m < 256" for n m :: nat
  using that by simp

lemma second_byte: "(n mod 4 * 16 + m div 16) mod 16 * 16 + (m mod 16 * 4 + k div 64) div 4 = m" if "m < 256" "k < 256" for n m k :: nat
  using that by (simp add: mod_add_left_eq)

lemma third_byte: "(m mod 16 * 4 + k div 64) mod 4 * 64 + k mod 64 = k" if "k < 256" for m k :: nat
  using that by simp

lemma pad_cases: "pad = [] \<or> (\<exists>p. pad = [p] \<and> index_of p alph = None)"
  using pad_len pad_out not_digit by (cases pad) auto

lemma groups_encode: "b64_groups alph pad (b64_encode alph pad s) = Some s"
proof (induction s rule: triples_induct)
  case (one a)
  have "char_code a div 4 < 64" "(char_code a mod 4) * 16 < 64" using code_byte(2) [of a] by auto
  moreover have "char_code a div 4 * 4 + (char_code a mod 4 * 16) div 16 = char_code a" by simp
  ultimately show ?case using pad_cases by (auto simp: digits1_def bytes1_def code_byte(1))
next
  case (two a b)
  have lt: "char_code a div 4 < 64" "(char_code a mod 4) * 16 + char_code b div 16 < 64" "(char_code b mod 16) * 4 < 64"
    using code_byte(2) [of a] code_byte(2) [of b] by auto
  have "bytes2 (char_code a div 4) ((char_code a mod 4) * 16 + char_code b div 16) ((char_code b mod 16) * 4) = [a, b]"
    using first_byte [OF code_byte(2) [of b], of "char_code a"] second_byte [OF code_byte(2) [of b], of 0 "char_code a"]
    by (simp add: bytes2_def code_byte(1))
  then show ?case using pad_cases lt by (auto simp: digits2_def)
next
  case (more a b c r)
  have lt: "char_code a div 4 < 64" "(char_code a mod 4) * 16 + char_code b div 16 < 64" "(char_code b mod 16) * 4 + char_code c div 64 < 64"
    "char_code c mod 64 < 64" using code_byte(2) [of a] code_byte(2) [of b] code_byte(2) [of c] by auto
  have "bytes3 (char_code a div 4) ((char_code a mod 4) * 16 + char_code b div 16) ((char_code b mod 16) * 4 + char_code c div 64)
      (char_code c mod 64) = [a, b, c]"
    using first_byte [OF code_byte(2) [of b], of "char_code a"]
      second_byte [OF code_byte(2) [of b] code_byte(2) [of c], of "char_code a"] third_byte [OF code_byte(2) [of c], of "char_code b"]
    unfolding bytes3_def by (simp only: code_byte)
  then show ?case using lt more by (simp add: digits3_def)
qed simp

lemma encoded_chars: "set (b64_encode alph pad s) \<subseteq> set alph \<union> set pad"
proof (induction s rule: triples_induct)
  case (one a)
  have "char_code a div 4 < 64" "(char_code a mod 4) * 16 < 64" using code_byte(2) [of a] by auto
  then show ?case using len by (auto simp: digits1_def)
next
  case (two a b)
  have "char_code a div 4 < 64" "(char_code a mod 4) * 16 + char_code b div 16 < 64" "(char_code b mod 16) * 4 < 64"
    using code_byte(2) [of a] code_byte(2) [of b] by auto
  then show ?case using len by (auto simp: digits2_def)
next
  case (more a b c r)
  have "char_code a div 4 < 64" "(char_code a mod 4) * 16 + char_code b div 16 < 64" "(char_code b mod 16) * 4 + char_code c div 64 < 64"
    "char_code c mod 64 < 64" using code_byte(2) [of a] code_byte(2) [of b] code_byte(2) [of c] by auto
  then show ?case using len more by (auto simp: digits3_def)
qed simp

lemma read_written: "b64_decode alph pad (b64_encode alph pad s) = Some s"
proof -
  have "filter (\<lambda>c. char_code c \<noteq> 10 \<and> char_code c \<noteq> 13) (b64_encode alph pad s) = b64_encode alph pad s"
    using encoded_chars no_line by (intro filter_True) blast
  then show ?thesis by (simp add: b64_decode_def groups_encode)
qed

end

interpretation std64: base64 std_alphabet "''=''"
proof unfold_locales
  show "c \<in> set std_alphabet \<union> set ''='' \<Longrightarrow> char_code c \<noteq> 10 \<and> char_code c \<noteq> 13" for c
    by (auto simp: std_alphabet_def letters_def char_code_def)
qed (auto simp: std_alphabet_def letters_def)

interpretation url64: base64 url_alphabet "[]"
proof unfold_locales
  show "c \<in> set url_alphabet \<union> set [] \<Longrightarrow> char_code c \<noteq> 10 \<and> char_code c \<noteq> 13" for c
    by (auto simp: url_alphabet_def letters_def char_code_def)
qed (auto simp: url_alphabet_def letters_def)

lemmas std_decode_encode = std64.read_written [folded StdEncoding_EncodeToString_def StdEncoding_DecodeString_def]
lemmas url_decode_encode = url64.read_written [folded RawURLEncoding_EncodeToString_def RawURLEncoding_DecodeString_def]
lemmas url_chars = url64.encoded_chars [folded RawURLEncoding_EncodeToString_def]

end
