(* ===== verification/Embeddings.thy ===== *)
theory Embeddings
  imports ProviderClient AudioProps Base64 "HOL-Library.Word"
begin

text \<open>
  Embeddings: the request and response formats (\<open>internal/openai/embeddings_codec.go\<close>,
  \<open>embeddings_client.go\<close>), the upstream call with its checks (\<open>OpenAICompat.Embeddings\<close>) and the
  ingress (\<open>internal/httpapi/api_embeddings.go\<close>). Floating-point numbers are a type parameter with the
  operations the code applies to them.
\<close>

section \<open>Formats\<close>

record embeddingsRequest =
  er_Model :: string
  er_Input :: "string list"
  er_Dimensions :: "int option"
  er_EncodingFormat :: string

text \<open>A vector may be absent (\<open>nil\<close>).\<close>

record 'f embeddingsResponse =
  es_Model :: string
  es_Data :: "'f list option list"
  es_PromptTokens :: int

text \<open>A number's text as a float (\<open>None\<close> when out of range), its text, and its single-precision bits.\<close>

record 'f float_ops =
  fl_parse :: "string \<Rightarrow> 'f option"
  fl_text :: "'f \<Rightarrow> string"
  fl_bits :: "'f \<Rightarrow> 32 word"
  fl_zero :: 'f

definition decodeEmbeddingsInput :: "json option \<Rightarrow> string + string list" where
  "decodeEmbeddingsInput raw =
     (case raw of
        None \<Rightarrow> Inr []
      | Some j \<Rightarrow>
          (case get_string (Some j) of
             Some single \<Rightarrow> Inr (if single = [] then [] else [single])
           | None \<Rightarrow>
               (case get_list (\<lambda>v. get_string (Some v)) (Some j) of
                  Some multi \<Rightarrow> if [] \<in> set multi then Inl ''input must not contain an empty string'' else Inr multi
                | None \<Rightarrow> Inl ''input must be a string or an array of strings'')))"

text \<open>\<open>quoted\<close> is the verb \<open>%q\<close>.\<close>

definition DecodeEmbeddingsRequest :: "(string \<Rightarrow> string) \<Rightarrow> string \<Rightarrow> string + embeddingsRequest" where
  "DecodeEmbeddingsRequest quoted body =
     (case do {
        j \<leftarrow> jdecode body; ms \<leftarrow> obj_members j; model \<leftarrow> get_string (field ms ''model'');
        dims \<leftarrow> get_ptr (\<lambda>v. get_int (Some v)) (field ms ''dimensions'');
        fmt \<leftarrow> get_string (field ms ''encoding_format''); Some (model, field ms ''input'', dims, fmt)} of
        None \<Rightarrow> Inl ''invalid JSON''
      | Some (model, raw, dims, fmt) \<Rightarrow>
          if model = [] then Inl ''model is required''
          else
            let encodingFormat = (if fmt = [] then ''float'' else fmt) in
            if encodingFormat \<noteq> ''float'' \<and> encodingFormat \<noteq> ''base64''
            then Inl (''encoding_format '' @ quoted fmt @ '' is not supported; use \"float\" or \"base64\"'')
            else case decodeEmbeddingsInput raw of
                   Inl err \<Rightarrow> Inl err
                 | Inr input \<Rightarrow>
                     if input = [] then Inl ''input is required''
                     else Inr \<lparr>er_Model = model, er_Input = input, er_Dimensions = dims, er_EncodingFormat = encodingFormat\<rparr>)"

text \<open>Little-endian bytes of a single-precision number.\<close>

definition PutUint32 :: "32 word \<Rightarrow> string" where
  "PutUint32 w = map (\<lambda>i. byte_char (unat w div 256 ^ i mod 256)) [0, 1, 2, 3]"

definition encodeFloat32Base64 :: "'f float_ops \<Rightarrow> 'f list \<Rightarrow> string" where
  "encodeFloat32Base64 F vec = StdEncoding_EncodeToString (concat (map (\<lambda>f. PutUint32 (fl_bits F f)) vec))"

definition embedding_json :: "'f float_ops \<Rightarrow> string \<Rightarrow> 'f list option \<Rightarrow> json" where
  "embedding_json F fmt vec =
     (if fmt = ''base64'' then JStr (encodeFloat32Base64 F (case vec of None \<Rightarrow> [] | Some v \<Rightarrow> v))
      else case vec of None \<Rightarrow> JNull | Some v \<Rightarrow> JArr (map (\<lambda>f. JNum (fl_text F f)) v))"

definition embeddingWire :: "'f float_ops \<Rightarrow> string \<Rightarrow> nat \<times> 'f list option \<Rightarrow> json" where
  "embeddingWire F fmt iv =
     JObj [(''object'', JStr ''embedding''), (''embedding'', embedding_json F fmt (snd iv)), (''index'', jint (int (fst iv)))]"

definition MarshalEmbeddingsResponse :: "'f float_ops \<Rightarrow> 'f embeddingsResponse \<Rightarrow> string \<Rightarrow> string" where
  "MarshalEmbeddingsResponse F resp fmt =
     jprint (JObj [(''object'', JStr ''list''), (''data'', JArr (map (embeddingWire F fmt) (List.enumerate 0 (es_Data resp)))),
       (''model'', JStr (es_Model resp)),
       (''usage'', JObj [(''prompt_tokens'', jint (es_PromptTokens resp)), (''total_tokens'', jint (es_PromptTokens resp))])])"

definition EncodeEmbeddingsRequest :: "embeddingsRequest \<Rightarrow> string" where
  "EncodeEmbeddingsRequest req =
     jprint (JObj ([(''model'', JStr (er_Model req)), (''input'', JArr (map JStr (er_Input req)))]
       @ omit_opt ''dimensions'' (map_option jint (er_Dimensions req))))"

record 'f upstreamEmbedding =
  ue_Embedding :: "'f list option"
  ue_Index :: int

definition dec_vector :: "'f float_ops \<Rightarrow> json option \<Rightarrow> 'f list option option" where
  "dec_vector F v =
     (case v of
        None \<Rightarrow> Some None
      | Some JNull \<Rightarrow> Some None
      | Some (JArr xs) \<Rightarrow>
          map_option Some (those (map (\<lambda>x. case x of JNull \<Rightarrow> Some (fl_zero F) | JNum l \<Rightarrow> fl_parse F l | _ \<Rightarrow> None) xs))
      | _ \<Rightarrow> None)"

definition dec_upstreamEmbedding :: "'f float_ops \<Rightarrow> json \<Rightarrow> 'f upstreamEmbedding option" where
  "dec_upstreamEmbedding F j = do {
     ms \<leftarrow> obj_members j; v \<leftarrow> dec_vector F (field ms ''embedding''); i \<leftarrow> get_int (field ms ''index'');
     Some \<lparr>ue_Embedding = v, ue_Index = i\<rparr>}"

definition dec_upstreamEmbeddings :: "'f float_ops \<Rightarrow> string \<Rightarrow> ('f upstreamEmbedding list \<times> string \<times> int) option" where
  "dec_upstreamEmbeddings F body = do {
     j \<leftarrow> jdecode body; ms \<leftarrow> obj_members j; ds \<leftarrow> get_list (dec_upstreamEmbedding F) (field ms ''data'');
     model \<leftarrow> get_string (field ms ''model'');
     n \<leftarrow> (case field ms ''usage'' of None \<Rightarrow> Some 0 | Some u \<Rightarrow> do {us \<leftarrow> obj_members u; get_int (field us ''prompt_tokens'')});
     Some (ds, model, n)}"

fun place :: "'f upstreamEmbedding list \<Rightarrow> 'f list option list \<Rightarrow> 'f list option list" where
  "place [] out = out"
| "place (d # ds) out =
     place ds (if 0 \<le> ue_Index d \<and> ue_Index d < int (length out) then out[nat (ue_Index d) := ue_Embedding d] else out)"

definition DecodeEmbeddingsResponse :: "'f float_ops \<Rightarrow> string \<Rightarrow> 'f embeddingsResponse option" where
  "DecodeEmbeddingsResponse F body =
     (case dec_upstreamEmbeddings F body of
        None \<Rightarrow> None
      | Some (ds, model, n) \<Rightarrow>
          Some \<lparr>es_Model = model, es_Data = place ds (replicate (length ds) None), es_PromptTokens = n\<rparr>)"

section \<open>The upstream call\<close>

definition embeddings_call :: "openAICompat \<Rightarrow> headers \<Rightarrow> embeddingsRequest \<Rightarrow> http_request" where
  "embeddings_call p fwd inp =
     (let h0 = setForwardedHeaders fwd Map.empty;
          h1 = h0(''Content-Type'' \<mapsto> [''application/json'']);
          h2 = (if oc_apiKey p \<noteq> [] then h1(''Authorization'' \<mapsto> [''Bearer '' @ oc_apiKey p]) else h1)
      in \<lparr>hr_Method = ''POST'', hr_URL = oc_baseURL p @ ''/embeddings'', hr_Header = h2, hr_Body = EncodeEmbeddingsRequest inp\<rparr>)"

definition bad_gateway :: "string \<Rightarrow> gerr" where
  "bad_gateway msg = ProviderErr \<lparr>pe_Status = 502, pe_Retryable = True, pe_Code = [], pe_Message = msg, pe_RetryAfter = None\<rparr>"

definition checked_vectors :: "string \<Rightarrow> nat \<Rightarrow> 'f embeddingsResponse \<Rightarrow> gerr + 'f embeddingsResponse" where
  "checked_vectors name n out =
     (if length (es_Data out) \<noteq> n then
        Inl (bad_gateway (''upstream '' @ name @ '' returned '' @ itoa (int (length (es_Data out))) @ '' embeddings for '' @ itoa (int n) @ '' inputs''))
      else if None \<in> set (es_Data out) then
        Inl (bad_gateway (''upstream '' @ name @ '' response is missing an embedding for one or more inputs''))
      else Inr out)"

definition oc_Embeddings ::
  "http_env \<Rightarrow> 'f float_ops \<Rightarrow> openAICompat \<Rightarrow> headers \<Rightarrow> embeddingsRequest \<Rightarrow> gerr + 'f embeddingsResponse" where
  "oc_Embeddings C F p fwd inp =
     (case round_trip C (Some (chat_deadline (oc_chatTimeout p))) (oc_name p) (embeddings_call p fwd inp) of
        Inl err \<Rightarrow> Inl err
      | Inr resp \<Rightarrow>
          (case DecodeEmbeddingsResponse F (hs_Body resp) of
             None \<Rightarrow> Inl (hc_jsonerr C (hs_Body resp))
           | Some out \<Rightarrow> checked_vectors (oc_name p) (length (er_Input inp)) out))"

section \<open>The ingress\<close>

text \<open>What \<open>runEmbeddings\<close> hands the executor: the capability check and one attempt, by what a provider has to offer.\<close>

definition supports_embeddings :: "string \<Rightarrow> (embeddingsRequest \<Rightarrow> gerr + 'f embeddingsResponse) option \<Rightarrow> gerr option" where
  "supports_embeddings name embedder = (if embedder = None then Some (unsupported name '' does not support embeddings'') else None)"

definition embed_attempt ::
  "embeddingsRequest \<Rightarrow> (embeddingsRequest \<Rightarrow> gerr + 'f embeddingsResponse) \<Rightarrow> target \<Rightarrow> gerr + 'f embeddingsResponse" where
  "embed_attempt req embedder t = embedder (req\<lparr>er_Model := tg_UpstreamModel t\<rparr>)"

text \<open>
  \<open>ev_run\<close> is \<open>runEmbeddings\<close>: the executor's answer to the plan and the request, which every call
  that reaches it is recorded with.
\<close>

record ('s, 'h, 'w, 'f) eenv =
  ev_base :: "('s, 'h, 'w) henv"
  ev_quoted :: "string \<Rightarrow> string"
  ev_floats :: "'f float_ops"
  ev_run :: "plan \<Rightarrow> embeddingsRequest \<Rightarrow> (gerr + 'f embeddingsResponse) \<times> execResult"

record ('s, 'w) eserver =
  en_server :: "('s, 'w) server"
  en_calls :: "(plan \<times> embeddingsRequest) list"

datatype embed_reply = EmbedError int string string | Vectors string "string option"

definition embed_error :: "int \<Rightarrow> string \<Rightarrow> string \<Rightarrow> embed_reply" where
  "embed_error code typ msg = EmbedError code typ msg"

definition embed_refused :: "media_reply \<Rightarrow> embed_reply" where
  "embed_refused r = (case r of MediaError c t m \<Rightarrow> embed_error c t m | _ \<Rightarrow> embed_error 500 [] [])"

definition prompt_usage :: "int \<Rightarrow> usage" where
  "prompt_usage n = \<lparr>PromptTokens = n, CompletionTokens = 0, TotalTokens = n, ReasoningTokens = 0\<rparr>"

text \<open>What follows the call.\<close>

definition answer_embeddings ::
  "('s, 'h, 'w, 'f) eenv \<Rightarrow> authedKey \<Rightarrow> embeddingsRequest \<Rightarrow> plan \<Rightarrow> (gerr + 'f embeddingsResponse) \<times> execResult \<Rightarrow> ('s, 'w) server
     \<Rightarrow> embed_reply \<times> ('s, 'w) server" where
  "answer_embeddings V ak req p outcome sv =
     (case outcome of (r, res) \<Rightarrow>
        let H = ev_base V;
            entry = chatEntry (ak_KeyID ak) (ak_UserID ak) (er_Model req) res ''openai'' (he_latency H) in
        case r of
          Inl e \<Rightarrow>
            (embed_error (fst (classifyUpstreamErr e)) (snd (classifyUpstreamErr e)) (he_errtext H e),
             settle H ak (entry\<lparr>le_Status := fst (classifyUpstreamErr e), le_ErrorMsg := he_errtext H e\<rparr>)
               (tg_UpstreamModel (xr_Target res)) (prompt_usage 0) zero_decision sv)
        | Inr resp \<Rightarrow>
            (Vectors (MarshalEmbeddingsResponse (ev_floats V) (resp\<lparr>es_Model := er_Model req\<rparr>) (er_EncodingFormat req))
               (setBackendLabel (xr_Target res) (pl_ExposeBackendHeaders p)),
             settle H ak (entry\<lparr>le_Status := 200\<rparr>) (tg_UpstreamModel (xr_Target res)) (prompt_usage (es_PromptTokens resp))
               zero_decision sv))"

definition embed_sent :: "('s, 'h, 'w, 'f) eenv \<Rightarrow> plan \<Rightarrow> embeddingsRequest \<Rightarrow> ('s, 'w) eserver \<Rightarrow> ('s, 'w) eserver" where
  "embed_sent V p req es =
     es\<lparr>en_calls := en_calls es @ [(p, req)],
        en_server := (en_server es)\<lparr>sv_accounts := (sv_accounts (en_server es))\<lparr>ac_limiter :=
          he_between (ev_base V) (ac_limiter (sv_accounts (en_server es)))\<rparr>\<rparr>\<rparr>"

definition handleEmbeddings ::
  "('s, 'h, 'w, 'f) eenv \<Rightarrow> authedKey \<Rightarrow> string \<Rightarrow> ('s, 'w) eserver \<Rightarrow> embed_reply \<times> ('s, 'w) eserver" where
  "handleEmbeddings V ak body es =
     (case DecodeEmbeddingsRequest (ev_quoted V) body of
        Inl err \<Rightarrow> (embed_error 400 ''invalid_request_error'' err, es)
      | Inr req \<Rightarrow>
          if \<not> Allows (ak_Policy ak) (er_Model req) then (embed_refused (not_permitted (er_Model req)), es)
          else case route_and_limit (ev_base V) ak (er_Model req) (en_server es) of
            (Inl reply, sv1) \<Rightarrow> (embed_refused reply, es\<lparr>en_server := sv1\<rparr>)
          | (Inr p, sv1) \<Rightarrow>
              (case dlpScanTexts (he_dlp (ev_base V)) ak ''openai'' (er_Model req) (er_Input req) (sv_dlp sv1) of
                 (blocked, msg, inputs, w) \<Rightarrow>
                   let sv2 = sv1\<lparr>sv_dlp := w\<rparr> in
                   if blocked then (embed_error 400 ''invalid_request_error'' msg, es\<lparr>en_server := sv2\<rparr>)
                   else
                     let req' = req\<lparr>er_Input := inputs\<rparr>;
                         es1 = embed_sent V p req' (es\<lparr>en_server := sv2\<rparr>);
                         (reply, sv3) = answer_embeddings V ak req' p (ev_run V p req') (en_server es1)
                     in (reply, es1\<lparr>en_server := sv3\<rparr>)))"

section \<open>Vectors in their places\<close>

lemma length_place [simp]: "length (place ds out) = length out"
  by (induction ds out rule: place.induct) simp_all

lemma place_other: "int i \<notin> ue_Index ` set ds \<Longrightarrow> place ds out ! i = out ! i"
  by (induction ds out rule: place.induct) auto

lemma place_at:
  "distinct (map ue_Index ds) \<Longrightarrow> d \<in> set ds \<Longrightarrow> 0 \<le> ue_Index d \<Longrightarrow> ue_Index d < int (length out)
     \<Longrightarrow> place ds out ! nat (ue_Index d) = ue_Embedding d"
proof (induction ds out rule: place.induct)
  case (2 e ds out)
  show ?case
  proof (cases "d = e")
    case True
    have "int (nat (ue_Index d)) \<notin> ue_Index ` set ds" using 2 True by force
    then have "place ds (out[nat (ue_Index e) := ue_Embedding e]) ! nat (ue_Index d) = out[nat (ue_Index e) := ue_Embedding e] ! nat (ue_Index d)"
      by (rule place_other)
    then show ?thesis using 2 True by simp
  next
    case False
    then show ?thesis using 2 by auto
  qed
qed simp

definition one_each :: "nat \<Rightarrow> 'f upstreamEmbedding list \<Rightarrow> bool" where
  "one_each n ds \<longleftrightarrow> mset (map ue_Index ds) = mset (map int [0..<n]) \<and> list_all (\<lambda>d. ue_Embedding d \<noteq> None) ds"

lemma one_each_iff:
  "one_each n ds \<longleftrightarrow> distinct (map ue_Index ds) \<and> ue_Index ` set ds = int ` {0..<n} \<and> (\<forall>d \<in> set ds. ue_Embedding d \<noteq> None)"
proof -
  have d: "distinct (map int [0..<n])" by (simp add: distinct_map)
  have "mset (map ue_Index ds) = mset (map int [0..<n]) \<longleftrightarrow> distinct (map ue_Index ds) \<and> set (map ue_Index ds) = set (map int [0..<n])"
    by (metis d mset_eq_imp_distinct_iff set_eq_iff_mset_eq_distinct)
  then show ?thesis by (simp add: one_each_def list_all_iff)
qed

text \<open>As many entries as places, every place filled: each entry filled its own.\<close>

lemma filled_places:
  assumes "None \<notin> set (place ds (replicate (length ds) None))"
  shows "one_each (length ds) ds"
proof -
  let ?n = "length ds"
  have "int i \<in> ue_Index ` set ds" if "i < ?n" for i
  proof (rule ccontr)
    assume "int i \<notin> ue_Index ` set ds"
    then have "place ds (replicate ?n None) ! i = None" using place_other that by fastforce
    then show False using assms that by (metis length_place length_replicate nth_mem)
  qed
  then have sub: "int ` {0..<?n} \<subseteq> set (map ue_Index ds)" by auto
  have c: "card (int ` {0..<?n}) = ?n" by (simp add: card_image)
  have "card (set (map ue_Index ds)) \<le> ?n" using card_length [of "map ue_Index ds"] by simp
  then have eq: "int ` {0..<?n} = set (map ue_Index ds)" using sub c by (metis List.finite_set card_seteq)
  then have dist: "distinct (map ue_Index ds)" using c by (intro card_distinct) simp
  have "ue_Embedding d \<noteq> None" if "d \<in> set ds" for d
  proof -
    have "ue_Index d \<in> int ` {0..<?n}" unfolding eq using that by simp
    then have b: "0 \<le> ue_Index d" "ue_Index d < int ?n" by auto
    have "place ds (replicate ?n None) ! nat (ue_Index d) = ue_Embedding d" using place_at [OF dist that b(1)] b(2) by simp
    moreover have "place ds (replicate ?n None) ! nat (ue_Index d) \<in> set (place ds (replicate ?n None))" using b by simp
    ultimately show ?thesis using assms by metis
  qed
  then show ?thesis using dist eq by (simp add: one_each_iff)
qed

lemma one_each_filled:
  assumes "one_each n ds"
  shows "length ds = n" and "None \<notin> set (place ds (replicate n None))"
    and "\<And>d. d \<in> set ds \<Longrightarrow> place ds (replicate n None) ! nat (ue_Index d) = ue_Embedding d"
proof -
  note o = assms [unfolded one_each_iff]
  have "card (ue_Index ` set ds) = n" using o by (simp add: card_image)
  then show n: "length ds = n" using o distinct_card [of "map ue_Index ds"] by simp
  show at': "place ds (replicate n None) ! nat (ue_Index d) = ue_Embedding d" if "d \<in> set ds" for d
  proof -
    have "ue_Index d \<in> int ` {0..<n}" using o that by blast
    then show ?thesis using place_at [of ds d "replicate n None"] o that by auto
  qed
  show "None \<notin> set (place ds (replicate n None))"
  proof
    assume "None \<in> set (place ds (replicate n None))"
    then obtain i where i: "i < n" "place ds (replicate n None) ! i = None" by (auto simp: in_set_conv_nth)
    then obtain d where "d \<in> set ds" "ue_Index d = int i" using o by (metis (no_types, lifting) atLeastLessThan_iff image_iff le0)
    then show False using at' [of d] i o by fastforce
  qed
qed


section \<open>Replies\<close>

definition read_word :: "string \<Rightarrow> 32 word" where
  "read_word bs = word_of_nat (sum_list (map (\<lambda>i. char_code (bs ! i) * 256 ^ i) [0, 1, 2, 3]))"

text \<open>What a client's decoder finds: little-endian single-precision numbers.\<close>

fun read_words :: "string \<Rightarrow> 32 word list" where
  "read_words (a # b # c # d # r) = read_word [a, b, c, d] # read_words r"
| "read_words _ = []"

lemma four_bytes:
  fixes n :: nat
  assumes "n < 256 ^ 4"
  shows "n mod 256 + n div 256 mod 256 * 256 + n div 65536 mod 256 * 65536 + n div 16777216 mod 256 * 16777216 = n"
proof -
  have d: "n div 65536 = n div 256 div 256" "n div 16777216 = n div 256 div 256 div 256" by (simp_all add: div_mult2_eq [symmetric])
  have "n div 256 div 256 div 256 mod 256 = n div 256 div 256 div 256" using assms by (simp add: div_mult2_eq [symmetric])
  then show ?thesis
    unfolding d using div_mult_mod_eq [of n 256] div_mult_mod_eq [of "n div 256" 256] div_mult_mod_eq [of "n div 256 div 256" 256]
    by linarith
qed

lemma read_put: "read_word (PutUint32 w) = w"
proof -
  have code: "char_code (byte_char n) = n mod 256" for n by (simp add: byte_char_def char_code_def)
  have b: "unat w < 256 ^ 4" using unsigned_less [of w] by simp
  have m: "unat w div 16777216 mod 256 = unat w div 16777216" using b by simp
  from four_bytes [OF b, unfolded m] have "sum_list (map (\<lambda>i. char_code (PutUint32 w ! i) * 256 ^ i) [0, 1, 2, 3]) = unat w"
    unfolding PutUint32_def by (simp add: code add.assoc m)
  then show ?thesis by (simp add: read_word_def)
qed

lemma read_vector: "read_words (concat (map (\<lambda>f. PutUint32 (g f)) vec)) = map g vec"
proof (induction vec)
  case (Cons f vec)
  obtain a b c d where p: "PutUint32 (g f) = [a, b, c, d]" by (simp add: PutUint32_def)
  show ?case using Cons read_put [of "g f"] by (simp add: p)
qed simp

definition read_entry :: "json \<Rightarrow> (int \<times> 32 word list) option" where
  "read_entry j = do {
     ms \<leftarrow> obj_members j; i \<leftarrow> get_int (field ms ''index''); s \<leftarrow> get_string (field ms ''embedding'');
     bs \<leftarrow> StdEncoding_DecodeString s; Some (i, read_words bs)}"

definition read_vectors :: "string \<Rightarrow> (int \<times> 32 word list) list option" where
  "read_vectors body = do {j \<leftarrow> jparse body; ms \<leftarrow> obj_members j; get_list read_entry (field ms ''data'')}"

lemma read_embedding:
  assumes "int i < 2 ^ 63"
  shows "read_entry (embeddingWire F ''base64'' (i, Some v)) = Some (int i, map (fl_bits F) v)"
proof -
  have "get_int (Some (jint (int i))) = Some (int i)" using assms by (intro get_jint) (simp add: in_int64_def)
  then show ?thesis
    by (simp add: read_entry_def embeddingWire_def embedding_json_def field_Cons encodeFloat32Base64_def std_decode_encode read_vector
        obj_members_def get_string_def fold_key_def lower_char_def is_upper_def char_code_def)
qed

text \<open>
  A reply in base64 says the same as the vectors: a client that decodes each entry as
  little-endian single-precision numbers gets, in order and under the right index, the bits the
  gateway narrowed each number to.
\<close>
theorem embeddings_reply_read:
  assumes "es_Data resp = map Some vecs" and "int (length vecs) < 2 ^ 63"
  shows "read_vectors (MarshalEmbeddingsResponse F resp ''base64'')
    = Some (map (\<lambda>(i, v). (int i, map (fl_bits F) v)) (List.enumerate 0 vecs))"
proof -
  let ?ds = "map (embeddingWire F ''base64'') (List.enumerate 0 (es_Data resp))"
  let ?ms = "[(''object'', JStr ''list''), (''data'', JArr ?ds), (''model'', JStr (es_Model resp)),
       (''usage'', JObj [(''prompt_tokens'', jint (es_PromptTokens resp)), (''total_tokens'', jint (es_PromptTokens resp))])]"
  have ds: "?ds = map (\<lambda>(i, v). embeddingWire F ''base64'' (i, Some v)) (List.enumerate 0 vecs)"
    by (simp add: assms(1) enumerate_map_upt enumerate_eq_zip zip_map2 split_def)
  have "list_all json_ok ?ds" by (auto simp: list_all_iff embeddingWire_def embedding_json_def)
  then have p: "jparse (MarshalEmbeddingsResponse F resp ''base64'') = Some (JObj ?ms)"
    unfolding MarshalEmbeddingsResponse_def by (intro jparse_print) simp
  have "those (map read_entry ?ds) = Some (map (\<lambda>(i, v). (int i, map (fl_bits F) v)) (List.enumerate 0 vecs))"
    unfolding ds
  proof (rule those_map)
    fix x assume "x \<in> set (List.enumerate 0 vecs)"
    then have "int (fst x) < 2 ^ 63" using assms(2) by (auto simp: in_set_enumerate_eq)
    then show "read_entry (case x of (i, v) \<Rightarrow> embeddingWire F ''base64'' (i, Some v)) = Some (case x of (i, v) \<Rightarrow> (int i, map (fl_bits F) v))"
      using read_embedding [of "fst x" F "snd x"] by (simp add: split_def)
  qed
  moreover have "field ?ms ''data'' = Some (JArr ?ds)"
    by (simp add: field_Cons fold_key_def lower_char_def is_upper_def char_code_def)
  ultimately show ?thesis by (simp add: read_vectors_def p obj_members_def get_list_def)
qed

section \<open>Gates and charging\<close>

definition batch_text :: "dlpConfig \<Rightarrow> string \<Rightarrow> string" where
  "batch_text cfg t = (if dc_Enabled cfg \<and> dc_Action cfg = ''redact'' then Redact t (layer1 cfg t) else t)"

definition batch_stopped :: "dlpConfig \<Rightarrow> string list \<Rightarrow> bool" where
  "batch_stopped cfg ts \<longleftrightarrow> dc_Enabled cfg \<and> dc_Action cfg = ''block'' \<and> list_ex (\<lambda>t. layer1 cfg t \<noteq> []) ts"

lemma scan_batch_spec:
  "scan_batch cfg ts labels cnt sample = (labels', cnt', sample', out)
     \<Longrightarrow> out = map (\<lambda>t. if dc_Action cfg = ''redact'' then Redact t (layer1 cfg t) else t) ts
       \<and> (cnt' = cnt \<longleftrightarrow> \<not> list_ex (\<lambda>t. layer1 cfg t \<noteq> []) ts) \<and> cnt \<le> cnt'"
proof (induction ts arbitrary: labels cnt sample labels' cnt' sample' out)
  case (Cons t ts)
  define found where "found = layer1 cfg t"
  have e: "(if t = [] then [] else layer1 cfg t) = found" using layer1_empty [of cfg] by (simp add: found_def)
  show ?case
  proof (cases "found = []")
    case True
    obtain l c s o' where r: "scan_batch cfg ts labels cnt sample = (l, c, s, o')" by (metis prod_cases4)
    then show ?thesis using Cons.prems Cons.IH [OF r] True
      unfolding scan_batch.simps Let_def e r by (auto simp: found_def [symmetric] Redact_def)
  next
    case False
    obtain l c s o' where r: "scan_batch cfg ts (labels @ Labels found) (cnt + length found)
        (if sample = [] then excerpt (Redact t found) else sample) = (l, c, s, o')" by (metis prod_cases4)
    have "c = cnt' \<and> out = (if dc_Action cfg = ''redact'' then Redact t found else t) # o'"
      using Cons.prems False unfolding scan_batch.simps Let_def e by (simp add: r)
    moreover have "0 < length found" using False by simp
    ultimately show ?thesis using Cons.IH [OF r] False by (auto simp: found_def [symmetric])
  qed
qed simp

lemma scan_texts_spec:
  assumes "dlpScanTexts E ak ingress als ts w = (blocked, msg, out, w')" and "cfg = dlpCfg (de_cfg E)"
  shows "blocked \<longleftrightarrow> batch_stopped cfg ts" and "out = map (batch_text cfg) ts" and "w' = w \<or> (\<exists>i. w' = recordDLP E i w)"
proof -
  obtain l c s o' where r: "scan_batch cfg ts [] 0 [] = (l, c, s, o')" by (metis prod_cases4)
  note b = scan_batch_spec [OF r]
  have id: "map (\<lambda>t. t) ts = ts" by simp
  show "blocked \<longleftrightarrow> batch_stopped cfg ts" "out = map (batch_text cfg) ts" "w' = w \<or> (\<exists>i. w' = recordDLP E i w)"
    using assms(1) b unfolding dlpScanTexts_def assms(2) [symmetric] Let_def r
    by (auto simp: batch_stopped_def batch_text_def [abs_def] split: if_splits)
qed

definition embed_passed ::
  "('s, 'h, 'w, 'f) eenv \<Rightarrow> authedKey \<Rightarrow> embeddingsRequest \<Rightarrow> ('s, 'w) eserver \<Rightarrow> plan \<Rightarrow> embeddingsRequest \<Rightarrow> bool" where
  "embed_passed V ak req es p sent' \<longleftrightarrow>
     Allows (ak_Policy ak) (er_Model req)
     \<and> he_resolve (ev_base V) (er_Model req) (kp_AllowPassthrough (ak_Policy ak)) = Inr p
     \<and> (\<exists>msg d s1. limitDenied (he_limiter (ev_base V)) (he_usd (ev_base V)) (he_checked (ev_base V)) (he_token (ev_base V)) (ak_KeyID ak)
          (ParseLimits (he_limits (ev_base V)) (ak_Policy ak)) 0 (ac_limiter (sv_accounts (en_server es))) = (msg, False, d, s1))
     \<and> \<not> batch_stopped (dlpCfg (de_cfg (he_dlp (ev_base V)))) (er_Input req)
     \<and> sent' = req\<lparr>er_Input := map (batch_text (dlpCfg (de_cfg (he_dlp (ev_base V))))) (er_Input req)\<rparr>"

lemma embeddings_handled:
  assumes "handleEmbeddings V ak body es = (reply, es')"
  shows "(en_calls es' = en_calls es \<and> ac_ledger (sv_accounts (en_server es')) = ac_ledger (sv_accounts (en_server es)))
    \<or> (\<exists>req p req' sv1 sv2. DecodeEmbeddingsRequest (ev_quoted V) body = Inr req \<and> embed_passed V ak req es p req'
        \<and> route_and_limit (ev_base V) ak (er_Model req) (en_server es) = (Inr p, sv1) \<and> sv_accounts sv2 = sv_accounts sv1
        \<and> en_calls es' = en_calls es @ [(p, req')]
        \<and> (reply, en_server es') = answer_embeddings V ak req' p (ev_run V p req') (en_server (embed_sent V p req' (es\<lparr>en_server := sv2\<rparr>))))"
proof (cases "DecodeEmbeddingsRequest (ev_quoted V) body")
  case (Inl err)
  then show ?thesis using assms by (auto simp: handleEmbeddings_def)
next
  case req: (Inr req)
  show ?thesis
  proof (cases "Allows (ak_Policy ak) (er_Model req)")
    case False
    then show ?thesis using assms req by (auto simp: handleEmbeddings_def)
  next
    case allowed: True
    obtain r sv1 where l: "route_and_limit (ev_base V) ak (er_Model req) (en_server es) = (r, sv1)" by fastforce
    show ?thesis
    proof (cases r)
      case (Inl x)
      then have "ac_ledger (sv_accounts sv1) = ac_ledger (sv_accounts (en_server es))"
        using l by (auto simp: route_and_limit_def Let_def split: sum.splits prod.splits if_splits)
      then show ?thesis using assms req allowed l Inl by (auto simp: handleEmbeddings_def)
    next
      case (Inr p)
      note rl = route_and_limit_granted [OF l [unfolded Inr]]
      obtain blocked msg out w where sc: "dlpScanTexts (he_dlp (ev_base V)) ak ''openai'' (er_Model req) (er_Input req) (sv_dlp sv1) = (blocked, msg, out, w)"
        by (metis prod_cases4)
      note sp = scan_texts_spec [OF sc refl]
      show ?thesis
      proof (cases blocked)
        case True
        then show ?thesis using assms req allowed l sc Inr rl(3) by (auto simp: handleEmbeddings_def)
      next
        case False
        define req' where "req' = req\<lparr>er_Input := out\<rparr>"
        let ?es1 = "embed_sent V p req' (es\<lparr>en_server := sv1\<lparr>sv_dlp := w\<rparr>\<rparr>)"
        obtain rp sv3 where a: "answer_embeddings V ak req' p (ev_run V p req') (en_server ?es1) = (rp, sv3)" by fastforce
        have "reply = rp" "es' = ?es1\<lparr>en_server := sv3\<rparr>"
          using assms req allowed l sc Inr False a by (auto simp: handleEmbeddings_def req'_def [symmetric] Let_def)
        then have "en_calls es' = en_calls es @ [(p, req')]" "(reply, en_server es') = answer_embeddings V ak req' p (ev_run V p req') (en_server ?es1)"
          using a by (simp_all add: embed_sent_def)
        moreover have "embed_passed V ak req es p req'" using allowed rl sp False unfolding embed_passed_def req'_def by blast
        ultimately show ?thesis using req l Inr by (intro disjI2 exI [of _ req] exI [of _ p] exI [of _ req'] exI [of _ sv1] exI [of _ "sv1\<lparr>sv_dlp := w\<rparr>"]) simp
      qed
    qed
  qed
qed

text \<open>
  C27: Inputs reach an upstream only once every gate has passed them: the key may use the
  model, the model resolves to the plan they are sent with, the key is within its limits, and the batch
  goes out as the DLP policy left it, not at all if a blocking policy found something in one of its
  texts. A request that is turned away leaves no ledger row. One that is sent leaves exactly one, with
  the status the client sees, and its prompt tokens are counted against the key when it succeeded.
\<close>
theorem embeddings_gated_and_charged:
  assumes "hash_server (he_limiter (ev_base V)) view" and "handleEmbeddings V ak body es = (reply, es')"
    and "\<And>p req. case fst (ev_run V p req) of Inl _ \<Rightarrow> True | Inr r \<Rightarrow> 0 \<le> es_PromptTokens r \<and> in_int64 (es_PromptTokens r)"
  shows "en_calls es' = en_calls es \<and> ac_ledger (sv_accounts (en_server es')) = ac_ledger (sv_accounts (en_server es))
    \<or> (\<exists>req p req' sv1 e. DecodeEmbeddingsRequest (ev_quoted V) body = Inr req \<and> embed_passed V ak req es p req'
        \<and> en_calls es' = en_calls es @ [(p, req')]
        \<and> route_and_limit (ev_base V) ak (er_Model req) (en_server es) = (Inr p, sv1)
        \<and> ac_ledger (sv_accounts (en_server es')) = ledger_Record e (ac_ledger (sv_accounts (en_server es)))
        \<and> le_Alias e = er_Model req
        \<and> (case reply of EmbedError code _ _ \<Rightarrow> le_Status e = code | Vectors _ _ \<Rightarrow> le_Status e = 200)
        \<and> (\<forall>f. amount (view (ac_limiter (sv_accounts (en_server es')))) (tokKey (ak_KeyID ak)) f
            = amount (view (he_between (ev_base V) (ac_limiter (sv_accounts sv1)))) (tokKey (ak_KeyID ak)) f
              + (if f = itoa (BucketStamp (he_settled (ev_base V)))
                 then (case fst (ev_run V p req') of Inl _ \<Rightarrow> 0 | Inr r \<Rightarrow> es_PromptTokens r) else 0)))"
  using embeddings_handled [OF assms(2)]
proof (elim disjE exE conjE)
  fix req p req' sv1 sv2
  assume d: "DecodeEmbeddingsRequest (ev_quoted V) body = Inr req" "embed_passed V ak req es p req'"
    and rl: "route_and_limit (ev_base V) ak (er_Model req) (en_server es) = (Inr p, sv1)" and acc: "sv_accounts sv2 = sv_accounts sv1"
    and c: "en_calls es' = en_calls es @ [(p, req')]"
    and a: "(reply, en_server es') = answer_embeddings V ak req' p (ev_run V p req') (en_server (embed_sent V p req' (es\<lparr>en_server := sv2\<rparr>)))"
  let ?H = "ev_base V" and ?sv = "en_server (embed_sent V p req' (es\<lparr>en_server := sv2\<rparr>))"
  obtain r res where run: "ev_run V p req' = (r, res)" by fastforce
  define n where "n = (case r of Inl _ \<Rightarrow> 0 | Inr x \<Rightarrow> es_PromptTokens x)"
  have n: "0 \<le> n" "in_int64 n" using assms(3) [of p req'] by (auto simp: n_def run in_int64_def split: sum.splits)
  have alias': "er_Model req' = er_Model req" using d(2) by (simp add: embed_passed_def)
  have lim: "ac_limiter (sv_accounts ?sv) = he_between ?H (ac_limiter (sv_accounts sv1))"
    "ac_ledger (sv_accounts ?sv) = ac_ledger (sv_accounts (en_server es))"
    using acc route_and_limit_granted(3) [OF rl] by (simp_all add: embed_sent_def)
  obtain e where e: "en_server es' = settle ?H ak e (tg_UpstreamModel (xr_Target res)) (prompt_usage n) zero_decision ?sv"
    "le_Alias e = er_Model req" "case reply of EmbedError code _ _ \<Rightarrow> le_Status e = code | Vectors _ _ \<Rightarrow> le_Status e = 200"
    "r = Inl x \<Longrightarrow> n = 0" "\<exists>x. r = Inr x \<Longrightarrow> le_Status e = 200" for x
    using a unfolding answer_embeddings_def run prod.case Let_def
    by (cases r) (auto simp: n_def alias' chatEntry_def embed_error_def)
  have b: "billed (le_Status e) (prompt_usage n) = n"
    using n e(4,5) by (cases r) (auto simp: billed_def prompt_usage_def BilledTokens_def)
  have t: "amount (view (ac_limiter (sv_accounts (en_server es')))) (tokKey (ak_KeyID ak)) f
      = amount (view (he_between ?H (ac_limiter (sv_accounts sv1)))) (tokKey (ak_KeyID ak)) f + (if f = itoa (BucketStamp (he_settled ?H)) then n else 0)" for f
    using finalize_tokens [OF assms(1), of e "prompt_usage n" zero_decision "he_prices ?H" "he_settled ?H" "ak_KeyID ak" _ "sv_accounts ?sv" f] n(2)
    unfolding e(1) settle_def lim(1) [symmetric] b by (simp add: zero_decision_def settled_bucket_def)
  have l: "\<exists>e'. ac_ledger (sv_accounts (en_server es')) = ledger_Record e' (ac_ledger (sv_accounts (en_server es))) \<and> le_Alias e' = le_Alias e \<and> le_Status e' = le_Status e"
    unfolding e(1) settle_def by (simp add: finalize_ledger lim(2)) (intro exI conjI, rule refl, simp_all)
  then obtain e' where e': "ac_ledger (sv_accounts (en_server es')) = ledger_Record e' (ac_ledger (sv_accounts (en_server es)))"
    "le_Alias e' = er_Model req" "le_Status e' = le_Status e" using e(2) by auto
  show ?thesis
    by (rule disjI2, rule exI [of _ req], rule exI [of _ p], rule exI [of _ req'], rule exI [of _ sv1], rule exI [of _ e'])
      (use d c rl e' e(3) t in \<open>auto simp: run n_def split: embed_reply.splits\<close>)
qed blast

section \<open>Example\<close>

definition demo_floats :: "int float_ops" where
  "demo_floats = \<lparr>fl_parse = parse_int, fl_text = itoa, fl_bits = word_of_int, fl_zero = 0\<rparr>"

definition demo_vectors :: string where
  "demo_vectors = jprint (JObj [(''data'', JArr [JObj [(''index'', jint 1), (''embedding'', JArr [jint 7])],
     JObj [(''index'', jint 0), (''embedding'', JArr [jint 5, jint 6])]]), (''usage'', JObj [(''prompt_tokens'', jint 4)])])"

definition demo_upstream :: http_env where
  "demo_upstream = \<lparr>hc_newreq = (\<lambda>_. None), hc_do = (\<lambda>_ _. Inr \<lparr>hs_Status = 200, hs_Get = (\<lambda>_. []), hs_Body = demo_vectors\<rparr>),
     hc_decoders = demo_decoders, hc_parseTime = (\<lambda>_. None), hc_now = 0, hc_float = (\<lambda>_. ''0''), hc_encerr = ErrCanceled,
     hc_jsonerr = (\<lambda>_. ErrCanceled), hc_scan = (\<lambda>_. ([], None))\<rparr>"

definition demo_inputs :: embeddingsRequest where
  "demo_inputs = \<lparr>er_Model = ''gpt'', er_Input = [''a'', ''b''], er_Dimensions = None, er_EncodingFormat = ''base64''\<rparr>"


theorem embeddings_reply_read_witness:
  "read_vectors (MarshalEmbeddingsResponse demo_floats \<lparr>es_Model = ''m'', es_Data = [Some [5, 6], Some [7]], es_PromptTokens = 4\<rparr> ''base64'')
     = Some [(0, [5, 6]), (1, [7])]"
  using embeddings_reply_read [of "\<lparr>es_Model = ''m'', es_Data = [Some [5, 6], Some [7]], es_PromptTokens = 4\<rparr>" "[[5, 6], [7]]" demo_floats]
  by (simp add: demo_floats_def)

definition demo_eenv :: "(demo_server, unit, unit, int) eenv" where
  "demo_eenv = \<lparr>ev_base = me_base demo_menv, ev_quoted = jquote, ev_floats = demo_floats,
     ev_run = (\<lambda>p r. (Inr \<lparr>es_Model = [], es_Data = [Some [5]], es_PromptTokens = 4\<rparr>, demo_media_result []))\<rparr>"

definition demo_embed_body :: string where
  "demo_embed_body = jprint (JObj [(''model'', JStr ''gpt''), (''input'', JStr ''xaby'')])"

theorem embeddings_gated_and_charged_witness:
  "\<exists>reply es'. handleEmbeddings demo_eenv demo_key demo_embed_body \<lparr>en_server = demo_sv, en_calls = []\<rparr> = (reply, es')
     \<and> map (er_Input \<circ> snd) (en_calls es') = [[''x[REDACTED:tag]y'']]"
proof -
  let ?es = "\<lparr>en_server = demo_sv, en_calls = []\<rparr>"
  obtain reply es' where h: "handleEmbeddings demo_eenv demo_key demo_embed_body ?es = (reply, es')" by fastforce
  have req: "DecodeEmbeddingsRequest (ev_quoted demo_eenv) demo_embed_body
      = Inr \<lparr>er_Model = ''gpt'', er_Input = [''xaby''], er_Dimensions = None, er_EncodingFormat = ''float''\<rparr>" by code_simp
  have v: "hash_server (he_limiter (ev_base demo_eenv)) demo_view"
    "case fst (ev_run demo_eenv p r) of Inl _ \<Rightarrow> True | Inr r \<Rightarrow> 0 \<le> es_PromptTokens r \<and> in_int64 (es_PromptTokens r)" for p r
    by (simp_all add: demo_eenv_def demo_menv_def demo_henv_def demo_hash_server in_int64_def)
  obtain sv1 where l: "route_and_limit (ev_base demo_eenv) demo_key ''gpt'' (en_server ?es) = (Inr demo_audio_plan, sv1)"
    using demo_route by (auto simp: demo_eenv_def demo_ms_def)
  obtain blocked msg out w where sc: "dlpScanTexts (he_dlp (ev_base demo_eenv)) demo_key ''openai'' ''gpt'' [''xaby''] (sv_dlp sv1) = (blocked, msg, out, w)"
    by (metis prod_cases4)
  have cfg: "dlpCfg (de_cfg (he_dlp (ev_base demo_eenv))) = demo_audio_cfg" "pl_DLPAudioScan demo_audio_plan"
    by (simp_all add: demo_eenv_def demo_audio_plan_def)
  have t: "batch_text demo_audio_cfg ''xaby'' = ''x[REDACTED:tag]y''" "\<not> batch_stopped demo_audio_cfg [''xaby'']"
    using demo_audio_text cfg(2) by (simp_all add: spoken_text_def text_stopped_def batch_text_def batch_stopped_def)
  have b: "\<not> blocked" using scan_texts_spec(1) [OF sc refl] t(2) by (simp add: cfg)
  have a: "Allows (ak_Policy demo_key) ''gpt''" by (simp add: demo_key_def Allows_def)
  have "en_calls es' \<noteq> en_calls ?es"
    using h req a l sc b by (auto simp: handleEmbeddings_def Let_def embed_sent_def split: prod.splits)
  then obtain p req' where "embed_passed demo_eenv demo_key \<lparr>er_Model = ''gpt'', er_Input = [''xaby''], er_Dimensions = None, er_EncodingFormat = ''float''\<rparr> ?es p req'"
    "en_calls es' = en_calls ?es @ [(p, req')]"
    using embeddings_gated_and_charged [OF v(1) h v(2)] req by auto
  then show ?thesis using h t by (auto simp: embed_passed_def cfg)
qed

end
