(* ===== verification/UserStore.thy ===== *)
theory UserStore
  imports UsageLimits "HOL-Library.List_Lexorder" "HOL-Library.Char_ord"
begin

text \<open>
  Users, roles and keys in the database (\<open>internal/store/users.go\<close>, \<open>policy_snapshot.go\<close>) and the
  requests that change them (\<open>internal/httpapi/api_users.go\<close>, \<open>api_self.go\<close>, \<open>api_admin.go\<close>): a table is
  the list of its rows, a statement a function on it, and a transaction that fails leaves the tables as
  they were. New ids and password hashes are parameters; a snapshot is kept as the policy it encodes.
\<close>

section \<open>Tables\<close>

record user_row =
  us_ID :: string
  us_Subject :: string
  us_Email :: string
  us_Display :: string
  us_Roles :: "string list"
  us_PasswordHash :: string
  us_Disabled :: bool
  us_AuthSource :: string

record key_row =
  ky_ID :: string
  ky_UserID :: string
  ky_Name :: string
  ky_Hash :: string
  ky_Prefix :: string
  ky_Last4 :: string
  ky_Policy :: key_policy
  ky_Status :: string

record role_row =
  rl_Models :: "string list"
  rl_Passthrough :: bool
  rl_Limits :: string

record db =
  db_users :: "user_row list"
  db_keys :: "key_row list"
  db_roles :: "(string \<times> role_row) list"

abbreviation AdminRole :: string where "AdminRole \<equiv> ''airllm_admin''"
abbreviation UserRole :: string where "UserRole \<equiv> ''airllm_user''"
abbreviation AuditorRole :: string where "AuditorRole \<equiv> ''airllm_auditor''"

section \<open>Effective policies\<close>

fun merge_roles :: "role_row list \<Rightarrow> key_policy \<Rightarrow> key_policy" where
  "merge_roles [] eff = eff"
| "merge_roles (r # rs) eff =
     merge_roles rs (eff\<lparr>kp_AllowedModels := kp_AllowedModels eff @ rl_Models r,
       kp_AllowPassthrough := kp_AllowPassthrough eff \<or> rl_Passthrough r,
       kp_Limits := (if kp_Limits eff = [] \<and> rl_Limits r \<noteq> [] \<and> rl_Limits r \<noteq> ''{}'' then rl_Limits r else kp_Limits eff)\<rparr>)"

text \<open>The rows of the given roles in the order of their names (byte order, as under the collation \<open>C\<close>); the models end up sorted, each once.\<close>

definition EffectivePolicy :: "db \<Rightarrow> string list \<Rightarrow> key_policy" where
  "EffectivePolicy d roles =
     (let eff = merge_roles (map snd (sort_key fst (filter (\<lambda>(r, _). r \<in> set roles) (db_roles d)))) zero_policy
      in eff\<lparr>kp_AllowedModels := sort (remdups (kp_AllowedModels eff))\<rparr>)"

definition applyKeySnapshot :: "string \<Rightarrow> string list \<Rightarrow> db \<Rightarrow> db" where
  "applyKeySnapshot userID roles d =
     (let snap = EffectivePolicy d roles in
      d\<lparr>db_keys := map (\<lambda>k. if ky_UserID k = userID \<and> ky_Status k = ''active'' then k\<lparr>ky_Policy := snap\<rparr> else k) (db_keys d)\<rparr>)"

definition user_by_id :: "db \<Rightarrow> string \<Rightarrow> user_row option" where
  "user_by_id d uid = find (\<lambda>u. us_ID u = uid) (db_users d)"

definition RebuildKeySnapshotsUser :: "string \<Rightarrow> db \<Rightarrow> db option" where
  "RebuildKeySnapshotsUser userID d =
     (case user_by_id d userID of None \<Rightarrow> None | Some u \<Rightarrow> Some (applyKeySnapshot userID (us_Roles u) d))"

definition RebuildKeySnapshotsRole :: "string \<Rightarrow> db \<Rightarrow> db" where
  "RebuildKeySnapshotsRole role d =
     fold (\<lambda>u. applyKeySnapshot (us_ID u) (us_Roles u)) (filter (\<lambda>u. role \<in> set (us_Roles u)) (db_users d)) d"

section \<open>Statements on users\<close>

definition is_admin_row :: "user_row \<Rightarrow> bool" where
  "is_admin_row u \<longleftrightarrow> \<not> us_Disabled u \<and> AdminRole \<in> set (us_Roles u)"

definition ByUsername :: "string \<Rightarrow> db \<Rightarrow> user_row option" where
  "ByUsername name d =
     (case find (\<lambda>u. to_lower (us_Subject u) = to_lower name) (db_users d) of
        Some u \<Rightarrow> Some u
      | None \<Rightarrow> find (\<lambda>u. us_Email u \<noteq> [] \<and> to_lower (us_Email u) = to_lower name) (db_users d))"

definition CountAdmins :: "db \<Rightarrow> nat" where
  "CountAdmins d = length (filter is_admin_row (db_users d))"

definition LockAdminIDs :: "db \<Rightarrow> string list" where
  "LockAdminIDs d = map us_ID (filter is_admin_row (db_users d))"

definition subject_taken :: "string \<Rightarrow> db \<Rightarrow> bool" where
  "subject_taken sub d \<longleftrightarrow> sub \<in> us_Subject ` set (db_users d)"

text \<open>A new row gets the id the database draws; a taken subject violates the table's constraint.\<close>

definition CreateLocal :: "string \<Rightarrow> user_row \<Rightarrow> db \<Rightarrow> db option" where
  "CreateLocal uid u d =
     (if subject_taken (us_Subject u) d then None
      else Some (d\<lparr>db_users := db_users d @ [u\<lparr>us_ID := uid, us_AuthSource := ''local''\<rparr>]\<rparr>))"

definition map_user :: "string \<Rightarrow> (user_row \<Rightarrow> user_row) \<Rightarrow> db \<Rightarrow> db" where
  "map_user uid f d = d\<lparr>db_users := map (\<lambda>u. if us_ID u = uid then f u else u) (db_users d)\<rparr>"

text \<open>
  \<open>UpsertOIDC\<close>: an unknown subject is inserted, one of an OIDC user refreshed, one of a local user
  refused (\<open>Inl True\<close>); the snapshots follow in the same transaction.
\<close>

definition UpsertOIDC :: "string \<Rightarrow> string \<Rightarrow> string \<Rightarrow> string list \<Rightarrow> db \<Rightarrow> bool + db" where
  "UpsertOIDC uid sub email roles d =
     (case find (\<lambda>u. us_Subject u = sub) (db_users d) of
        None \<Rightarrow>
          (let u = \<lparr>us_ID = uid, us_Subject = sub, us_Email = email, us_Display = sub, us_Roles = roles, us_PasswordHash = [],
                    us_Disabled = False, us_AuthSource = ''oidc''\<rparr>
           in case RebuildKeySnapshotsUser uid (d\<lparr>db_users := db_users d @ [u]\<rparr>) of None \<Rightarrow> Inl False | Some d' \<Rightarrow> Inr d')
      | Some u \<Rightarrow>
          if us_AuthSource u \<noteq> ''oidc'' then Inl True
          else case RebuildKeySnapshotsUser (us_ID u) (map_user (us_ID u) (\<lambda>u. u\<lparr>us_Email := email, us_Roles := roles\<rparr>) d) of
                 None \<Rightarrow> Inl False | Some d' \<Rightarrow> Inr d')"

definition SetPassword :: "string \<Rightarrow> string \<Rightarrow> db \<Rightarrow> db option" where
  "SetPassword uid hash d =
     (if list_ex (\<lambda>u. us_ID u = uid \<and> us_AuthSource u = ''local'') (db_users d)
      then Some (map_user uid (\<lambda>u. if us_AuthSource u = ''local'' then u\<lparr>us_PasswordHash := hash\<rparr> else u) d) else None)"

text \<open>Deleting a user deletes the user's keys (\<open>ON DELETE CASCADE\<close>).\<close>

definition DeleteUser :: "string \<Rightarrow> db \<Rightarrow> db option" where
  "DeleteUser uid d =
     (if uid \<in> us_ID ` set (db_users d)
      then Some (d\<lparr>db_users := filter (\<lambda>u. us_ID u \<noteq> uid) (db_users d), db_keys := filter (\<lambda>k. ky_UserID k \<noteq> uid) (db_keys d)\<rparr>)
      else None)"

definition KeyCount :: "string \<Rightarrow> db \<Rightarrow> nat" where
  "KeyCount uid d = length (filter (\<lambda>k. ky_UserID k = uid \<and> ky_Status k = ''active'') (db_keys d))"

text \<open>The row a session belongs to, inserted with the cookie's roles when there is none.\<close>

definition ensureUser :: "string \<Rightarrow> string \<Rightarrow> string \<Rightarrow> string list \<Rightarrow> db \<Rightarrow> user_row \<times> db" where
  "ensureUser uid sub email roles d =
     (case find (\<lambda>u. us_Subject u = sub) (db_users d) of
        Some u \<Rightarrow> (u, d)
      | None \<Rightarrow>
          let u = \<lparr>us_ID = uid, us_Subject = sub, us_Email = email, us_Display = sub, us_Roles = roles, us_PasswordHash = [],
                   us_Disabled = False, us_AuthSource = ''local''\<rparr>
          in (u, d\<lparr>db_users := db_users d @ [u]\<rparr>))"

section \<open>Requests\<close>

text \<open>Replies by status; a refused or failed request leaves the tables alone.\<close>

type_synonym outcome = "int \<times> db"

definition minPasswordLen :: nat where "minPasswordLen = 8"

definition validatePassword :: "string \<Rightarrow> bool" where
  "validatePassword pw \<longleftrightarrow> minPasswordLen \<le> length pw"

definition knownRoles :: "db \<Rightarrow> string list" where
  "knownRoles d = map fst (db_roles d)"

definition validateNewUser :: "string \<Rightarrow> string list \<Rightarrow> string \<Rightarrow> string list \<Rightarrow> bool" where
  "validateNewUser username roles password known \<longleftrightarrow>
     username \<noteq> [] \<and> validatePassword password \<and> list_all (\<lambda>r. r \<in> set known) roles"

record new_user =
  nu_Username :: string
  nu_Email :: string
  nu_Display :: string
  nu_Roles :: "string list"
  nu_Password :: string

definition handleCreateUser :: "(string \<Rightarrow> string option) \<Rightarrow> string \<Rightarrow> new_user option \<Rightarrow> db \<Rightarrow> outcome" where
  "handleCreateUser hash uid body d =
     (case body of
        None \<Rightarrow> (400, d)
      | Some b \<Rightarrow>
          if \<not> validateNewUser (nu_Username b) (nu_Roles b) (nu_Password b) (knownRoles d) then (400, d)
          else case hash (nu_Password b) of
            None \<Rightarrow> (500, d)
          | Some h \<Rightarrow>
              (case CreateLocal uid \<lparr>us_ID = [], us_Subject = nu_Username b, us_Email = nu_Email b, us_Display = nu_Display b,
                   us_Roles = nu_Roles b, us_PasswordHash = h, us_Disabled = False, us_AuthSource = []\<rparr> d of
                 None \<Rightarrow> (400, d) | Some d' \<Rightarrow> (201, d')))"

text \<open>\<open>guardLastAdminTx\<close>: whether the change is refused.\<close>

definition guardLastAdmin :: "string \<Rightarrow> string list \<Rightarrow> bool \<Rightarrow> db \<Rightarrow> bool" where
  "guardLastAdmin uid newRoles disabling d \<longleftrightarrow>
     (let adminIDs = LockAdminIDs d in
      uid \<in> set adminIDs \<and> (disabling \<or> AdminRole \<notin> set newRoles) \<and> length adminIDs \<le> 1)"

record user_patch =
  up_Email :: "string option"
  up_Display :: "string option"
  up_Roles :: "string list option"
  up_Disabled :: "bool option"

definition given :: "'a option \<Rightarrow> 'a \<Rightarrow> 'a" where
  "given new old = (case new of None \<Rightarrow> old | Some v \<Rightarrow> v)"

definition handleUpdateUser :: "string \<Rightarrow> user_patch option \<Rightarrow> db \<Rightarrow> outcome" where
  "handleUpdateUser uid body d =
     (case body of
        None \<Rightarrow> (400, d)
      | Some b \<Rightarrow>
          if \<not> list_all (\<lambda>r. r \<in> set (knownRoles d)) (given (up_Roles b) []) then (400, d)
          else case user_by_id d uid of
            None \<Rightarrow> (404, d)
          | Some current \<Rightarrow>
              (let email = given (up_Email b) (us_Email current); display = given (up_Display b) (us_Display current);
                   roles = given (up_Roles b) (us_Roles current); disabled = given (up_Disabled b) (us_Disabled current)
               in if guardLastAdmin uid roles disabled d then (400, d)
                  else case RebuildKeySnapshotsUser uid (map_user uid (\<lambda>u. u\<lparr>us_Email := email, us_Display := display,
                           us_Roles := roles, us_Disabled := disabled\<rparr>) d) of
                    None \<Rightarrow> (500, d) | Some d' \<Rightarrow> (200, d')))"

definition handleResetPassword :: "(string \<Rightarrow> string option) \<Rightarrow> string \<Rightarrow> string option \<Rightarrow> db \<Rightarrow> outcome" where
  "handleResetPassword hash uid body d =
     (case body of
        None \<Rightarrow> (400, d)
      | Some pw \<Rightarrow>
          if \<not> validatePassword pw then (400, d)
          else case hash pw of
            None \<Rightarrow> (500, d)
          | Some h \<Rightarrow> (case SetPassword uid h d of None \<Rightarrow> (404, d) | Some d' \<Rightarrow> (200, d')))"

definition handleDeleteUser :: "string \<Rightarrow> db \<Rightarrow> outcome" where
  "handleDeleteUser uid d =
     (if guardLastAdmin uid [] True d then (400, d)
      else if 0 < KeyCount uid d then (400, d)
      else case DeleteUser uid d of None \<Rightarrow> (404, d) | Some d' \<Rightarrow> (200, d'))"

text \<open>\<open>check\<close> compares a password with a stored hash.\<close>

definition CheckPassword :: "(string \<Rightarrow> string \<Rightarrow> bool) \<Rightarrow> string \<Rightarrow> string \<Rightarrow> bool" where
  "CheckPassword compare hash pw \<longleftrightarrow> hash \<noteq> [] \<and> compare hash pw"

definition handleChangeOwnPassword ::
  "(string \<Rightarrow> string \<Rightarrow> bool) \<Rightarrow> (string \<Rightarrow> string option) \<Rightarrow> string \<Rightarrow> (string \<times> string) option \<Rightarrow> db \<Rightarrow> outcome" where
  "handleChangeOwnPassword compare hash uid body d =
     (case body of
        None \<Rightarrow> (400, d)
      | Some (current, new) \<Rightarrow>
          if \<not> validatePassword new then (400, d)
          else case user_by_id d uid of
            None \<Rightarrow> (500, d)
          | Some u \<Rightarrow>
              if us_AuthSource u \<noteq> ''local'' then (400, d)
              else if \<not> CheckPassword compare (us_PasswordHash u) current then (400, d)
              else case hash new of
                None \<Rightarrow> (500, d)
              | Some h \<Rightarrow> (case SetPassword uid h d of None \<Rightarrow> (404, d) | Some d' \<Rightarrow> (200, d')))"

definition handleAdminPutRole :: "string \<Rightarrow> role_row option \<Rightarrow> db \<Rightarrow> outcome" where
  "handleAdminPutRole role body d =
     (case body of
        None \<Rightarrow> (400, d)
      | Some b \<Rightarrow>
          let row = (if rl_Limits b = [] then b\<lparr>rl_Limits := ''{}''\<rparr> else b);
              d1 = d\<lparr>db_roles := filter (\<lambda>(r, _). r \<noteq> role) (db_roles d) @ [(role, row)]\<rparr>
          in (200, RebuildKeySnapshotsRole role d1))"

text \<open>The fingerprints of a fresh key, drawn before the insert.\<close>

record key_print =
  kf_ID :: string
  kf_Hash :: string
  kf_Prefix :: string
  kf_Last4 :: string

definition insert_key :: "string \<Rightarrow> string \<Rightarrow> key_print option \<Rightarrow> key_policy \<Rightarrow> db \<Rightarrow> outcome" where
  "insert_key userID name key snapshot d =
     (case key of
        None \<Rightarrow> (500, d)
      | Some k \<Rightarrow>
          if kf_Hash k \<in> ky_Hash ` set (db_keys d) \<or> userID \<notin> us_ID ` set (db_users d) then (500, d)
          else (201, d\<lparr>db_keys := db_keys d @ [\<lparr>ky_ID = kf_ID k, ky_UserID = userID, ky_Name = (if name = [] then ''key'' else name),
                  ky_Hash = kf_Hash k, ky_Prefix = kf_Prefix k, ky_Last4 = kf_Last4 k, ky_Policy = snapshot, ky_Status = ''active''\<rparr>]\<rparr>))"

definition handleCreateKey :: "string \<Rightarrow> string list \<Rightarrow> string option \<Rightarrow> key_print option \<Rightarrow> db \<Rightarrow> outcome" where
  "handleCreateKey userID roles body key d =
     (case body of None \<Rightarrow> (400, d) | Some name \<Rightarrow> insert_key userID name key (EffectivePolicy d roles) d)"

definition revoke_where :: "(key_row \<Rightarrow> bool) \<Rightarrow> db \<Rightarrow> outcome" where
  "revoke_where sel d =
     (if list_ex sel (db_keys d)
      then (200, d\<lparr>db_keys := map (\<lambda>k. if sel k then k\<lparr>ky_Status := ''revoked''\<rparr> else k) (db_keys d)\<rparr>) else (404, d))"

definition handleRevokeKey :: "string \<Rightarrow> string \<Rightarrow> db \<Rightarrow> outcome" where
  "handleRevokeKey userID kid = revoke_where (\<lambda>k. ky_ID k = kid \<and> ky_UserID k = userID)"

definition handleAdminRevokeKey :: "string \<Rightarrow> db \<Rightarrow> outcome" where
  "handleAdminRevokeKey kid = revoke_where (\<lambda>k. ky_ID k = kid)"

section \<open>First start\<close>

definition BuiltinRoles :: "(string \<times> role_row) list" where
  "BuiltinRoles =
     [(AdminRole, \<lparr>rl_Models = [''*''], rl_Passthrough = True, rl_Limits = ''{}''\<rparr>),
      (AuditorRole, \<lparr>rl_Models = [], rl_Passthrough = False, rl_Limits = ''{}''\<rparr>)]"

definition EnsureBuiltinRoles :: "db \<Rightarrow> db" where
  "EnsureBuiltinRoles d =
     fold (\<lambda>(r, row) d. if r \<in> fst ` set (db_roles d) then d else d\<lparr>db_roles := db_roles d @ [(r, row)]\<rparr>) BuiltinRoles d"

text \<open>The bootstrap administrator; a generated password is returned to be logged once.\<close>

definition EnsureBootstrapAdmin ::
  "(string \<Rightarrow> string option) \<Rightarrow> string \<Rightarrow> string \<Rightarrow> string \<Rightarrow> string \<Rightarrow> db \<Rightarrow> (bool \<times> string \<times> bool) \<times> db" where
  "EnsureBootstrapAdmin hash uid randToken username envPassword d =
     (if 0 < CountAdmins d then ((False, [], False), d)
      else
        let pw = (if envPassword = [] then randToken else envPassword);
            generated = (if envPassword = [] then randToken else [])
        in case hash pw of
             None \<Rightarrow> ((False, [], True), d)
           | Some h \<Rightarrow>
               (case CreateLocal uid \<lparr>us_ID = [], us_Subject = username, us_Email = username @ ''@local'', us_Display = username,
                    us_Roles = [AdminRole], us_PasswordHash = h, us_Disabled = False, us_AuthSource = []\<rparr> d of
                  None \<Rightarrow> ((False, [], True), d) | Some d' \<Rightarrow> ((True, generated, False), d')))"

section \<open>Sessions and what they ask for\<close>

text \<open>
  \<open>requireSession\<close> with a valid cookie: the row behind it (\<open>fresh\<close> is the id of a new one) decides,
  its roles and whether it is disabled, and the handler gets it.
\<close>

definition requireSession :: "string \<Rightarrow> string \<Rightarrow> string \<Rightarrow> string list \<Rightarrow> (user_row \<Rightarrow> db \<Rightarrow> outcome) \<Rightarrow> db \<Rightarrow> outcome" where
  "requireSession fresh sub email roles handler d =
     (case ensureUser fresh sub email roles d of (u, d1) \<Rightarrow> if us_Disabled u then (401, d1) else handler u d1)"

definition requireAdmin :: "string \<Rightarrow> string \<Rightarrow> string \<Rightarrow> string list \<Rightarrow> (user_row \<Rightarrow> db \<Rightarrow> outcome) \<Rightarrow> db \<Rightarrow> outcome" where
  "requireAdmin fresh sub email roles handler =
     requireSession fresh sub email roles (\<lambda>u d. if AdminRole \<notin> set (us_Roles u) then (403, d) else handler u d)"

definition requireAuditor :: "string \<Rightarrow> string \<Rightarrow> string \<Rightarrow> string list \<Rightarrow> (user_row \<Rightarrow> db \<Rightarrow> outcome) \<Rightarrow> db \<Rightarrow> outcome" where
  "requireAuditor fresh sub email roles handler =
     requireSession fresh sub email roles
       (\<lambda>u d. if AuditorRole \<notin> set (us_Roles u) \<and> AdminRole \<notin> set (us_Roles u) then (403, d) else handler u d)"

text \<open>The requests that change these tables; the first argument of a creation is the new row's id.\<close>

datatype admin_call =
    CreateUser string "new_user option"
  | UpdateUser string "user_patch option"
  | ResetPassword string "string option"
  | RemoveUser string
  | PutRole string "role_row option"
  | AdminRevoke string

datatype self_call =
    CreateKey "string option" "key_print option"
  | RevokeKey string
  | ChangePassword "(string \<times> string) option"
  | ReadOnly

record crypt =
  cy_hash :: "string \<Rightarrow> string option"
  cy_compare :: "string \<Rightarrow> string \<Rightarrow> bool"

fun serve_admin :: "crypt \<Rightarrow> admin_call \<Rightarrow> db \<Rightarrow> outcome" where
  "serve_admin Y (CreateUser uid body) d = handleCreateUser (cy_hash Y) uid body d"
| "serve_admin Y (UpdateUser uid body) d = handleUpdateUser uid body d"
| "serve_admin Y (ResetPassword uid body) d = handleResetPassword (cy_hash Y) uid body d"
| "serve_admin Y (RemoveUser uid) d = handleDeleteUser uid d"
| "serve_admin Y (PutRole role body) d = handleAdminPutRole role body d"
| "serve_admin Y (AdminRevoke kid) d = handleAdminRevokeKey kid d"

fun serve_self :: "crypt \<Rightarrow> self_call \<Rightarrow> user_row \<Rightarrow> db \<Rightarrow> outcome" where
  "serve_self Y (CreateKey body key) u d = handleCreateKey (us_ID u) (us_Roles u) body key d"
| "serve_self Y (RevokeKey kid) u d = handleRevokeKey (us_ID u) kid d"
| "serve_self Y (ChangePassword body) u d = handleChangeOwnPassword (cy_compare Y) (cy_hash Y) (us_ID u) body d"
| "serve_self Y ReadOnly u d = (200, d)"

record cookie =
  ck_Subject :: string
  ck_Email :: string
  ck_Roles :: "string list"

definition serve :: "crypt \<Rightarrow> string \<Rightarrow> cookie \<Rightarrow> admin_call + self_call \<Rightarrow> db \<Rightarrow> outcome" where
  "serve Y fresh c call d =
     (case call of
        Inl a \<Rightarrow> requireAdmin fresh (ck_Subject c) (ck_Email c) (ck_Roles c) (\<lambda>u. serve_admin Y a) d
      | Inr s \<Rightarrow> requireSession fresh (ck_Subject c) (ck_Email c) (ck_Roles c) (serve_self Y s) d)"

section \<open>Tables in order\<close>

definition db_ok :: "db \<Rightarrow> bool" where
  "db_ok d \<longleftrightarrow> distinct (map us_ID (db_users d)) \<and> distinct (map us_Subject (db_users d)) \<and> distinct (map ky_Hash (db_keys d))
     \<and> distinct (map fst (db_roles d)) \<and> ky_UserID ` set (db_keys d) \<subseteq> us_ID ` set (db_users d)"

text \<open>Every active key carries the policy its owner's roles give now.\<close>

definition key_current :: "db \<Rightarrow> key_row \<Rightarrow> bool" where
  "key_current d k \<longleftrightarrow> (ky_Status k = ''active'' \<longrightarrow>
     (\<forall>u \<in> set (db_users d). us_ID u = ky_UserID k \<longrightarrow> ky_Policy k = EffectivePolicy d (us_Roles u)))"

definition coherent :: "db \<Rightarrow> bool" where
  "coherent d \<longleftrightarrow> list_all (key_current d) (db_keys d)"

definition has_admin :: "db \<Rightarrow> bool" where
  "has_admin d \<longleftrightarrow> list_ex is_admin_row (db_users d)"

lemma effective_roles: "db_roles d = db_roles d' \<Longrightarrow> EffectivePolicy d rs = EffectivePolicy d' rs"
  by (simp add: EffectivePolicy_def)

lemma snapshot_fields [simp]:
  "db_users (applyKeySnapshot uid rs d) = db_users d" "db_roles (applyKeySnapshot uid rs d) = db_roles d"
  "map ky_Hash (db_keys (applyKeySnapshot uid rs d)) = map ky_Hash (db_keys d)"
  "map ky_UserID (db_keys (applyKeySnapshot uid rs d)) = map ky_UserID (db_keys d)"
  by (simp_all add: applyKeySnapshot_def Let_def)

lemma snapshot_effective [simp]: "EffectivePolicy (applyKeySnapshot uid rs d) = EffectivePolicy d"
  by (rule ext, rule effective_roles) simp

text \<open>What rebuilding some users' snapshots does to a key.\<close>

definition rebuilt :: "db \<Rightarrow> user_row list \<Rightarrow> key_row \<Rightarrow> key_row" where
  "rebuilt d us k =
     (case find (\<lambda>u. us_ID u = ky_UserID k) us of
        Some u \<Rightarrow> if ky_Status k = ''active'' then k\<lparr>ky_Policy := EffectivePolicy d (us_Roles u)\<rparr> else k
      | None \<Rightarrow> k)"

lemma snapshot_rebuilt: "db_keys (applyKeySnapshot (us_ID u) (us_Roles u) d) = map (rebuilt d [u]) (db_keys d)"
  by (auto simp: applyKeySnapshot_def rebuilt_def Let_def)

lemma rebuilt_effective: "db_roles d = db_roles d' \<Longrightarrow> rebuilt d us = rebuilt d' us"
  using effective_roles [of d d'] by (auto simp: rebuilt_def fun_eq_iff split: option.split)

lemma fold_snapshots:
  "distinct (map us_ID us) \<Longrightarrow> fold (\<lambda>u. applyKeySnapshot (us_ID u) (us_Roles u)) us d = d\<lparr>db_keys := map (rebuilt d us) (db_keys d)\<rparr>"
proof (induction us arbitrary: d)
  case Nil
  have "rebuilt d [] = id" by (simp add: rebuilt_def fun_eq_iff)
  then show ?case by simp
next
  case (Cons u us)
  let ?d1 = "applyKeySnapshot (us_ID u) (us_Roles u) d"
  have "?d1 = d\<lparr>db_keys := map (rebuilt d [u]) (db_keys d)\<rparr>" unfolding snapshot_rebuilt [symmetric] by simp
  moreover have "rebuilt ?d1 us (rebuilt d [u] k) = rebuilt d (u # us) k" for k
  proof -
    have "find (\<lambda>v. us_ID v = us_ID u) us = None" using Cons.prems by (auto simp: find_None_iff rev_image_eqI)
    moreover have "rebuilt ?d1 us = rebuilt d us" by (rule rebuilt_effective) simp
    ultimately show ?thesis by (auto simp: rebuilt_def split: option.split)
  qed
  moreover have "fold (\<lambda>u. applyKeySnapshot (us_ID u) (us_Roles u)) us ?d1 = ?d1\<lparr>db_keys := map (rebuilt ?d1 us) (db_keys ?d1)\<rparr>"
    using Cons by simp
  ultimately show ?case by (simp add: snapshot_rebuilt comp_def)
qed

lemma rebuilt_fields [simp]: "ky_UserID (rebuilt d us k) = ky_UserID k" "ky_Status (rebuilt d us k) = ky_Status k"
  "ky_Hash (rebuilt d us k) = ky_Hash k"
  by (simp_all add: rebuilt_def split: option.split)

lemma find_own:
  assumes "distinct (map us_ID us)" and "u \<in> set us"
  shows "find (\<lambda>v. us_ID v = us_ID u) us = Some u"
  using assms by (induction us) (auto simp: rev_image_eqI)

lemma rebuild_role_is:
  assumes "db_ok d"
  shows "RebuildKeySnapshotsRole role d = d\<lparr>db_keys := map (rebuilt d (filter (\<lambda>u. role \<in> set (us_Roles u)) (db_users d))) (db_keys d)\<rparr>"
  unfolding RebuildKeySnapshotsRole_def using assms by (intro fold_snapshots) (auto simp: db_ok_def distinct_map_filter)

text \<open>A table change that keeps the roles' policies.\<close>

lemma key_current_cong:
  assumes "db_roles d = db_roles d'" and "\<And>u'. u' \<in> set (db_users d') \<Longrightarrow> us_ID u' = ky_UserID k \<Longrightarrow>
    \<exists>u \<in> set (db_users d). us_ID u = ky_UserID k \<and> us_Roles u = us_Roles u'"
    and "key_current d k"
  shows "key_current d' k"
  using assms effective_roles [of d d'] by (fastforce simp: key_current_def)

lemma coherent_grow:
  assumes "coherent d" and "db_roles d' = db_roles d" and "db_keys d' = db_keys d"
    and "\<And>u'. u' \<in> set (db_users d') \<Longrightarrow> us_ID u' \<in> ky_UserID ` set (db_keys d) \<Longrightarrow>
      \<exists>u \<in> set (db_users d). us_ID u = us_ID u' \<and> us_Roles u = us_Roles u'"
  shows "coherent d'"
proof -
  have "key_current d' k" if "k \<in> set (db_keys d)" for k
    using that assms by (intro key_current_cong [of d d']) (fastforce simp: coherent_def list_all_iff)+
  then show ?thesis by (simp add: coherent_def list_all_iff assms(3))
qed

lemma rebuild_user_ok:
  assumes "RebuildKeySnapshotsUser uid d = Some d'" and "db_ok d" and "\<And>k. k \<in> set (db_keys d) \<Longrightarrow> ky_UserID k \<noteq> uid \<Longrightarrow> key_current d k"
  shows "db_ok d' \<and> coherent d' \<and> db_users d' = db_users d"
proof -
  obtain u where u: "user_by_id d uid = Some u" and d': "d' = applyKeySnapshot uid (us_Roles u) d"
    using assms(1) by (auto simp: RebuildKeySnapshotsUser_def split: option.splits)
  have uu: "us_ID u = uid" "u \<in> set (db_users d)" using u by (auto simp: user_by_id_def find_Some_iff)
  have ks: "db_keys d' = map (rebuilt d [u]) (db_keys d)" unfolding d' uu(1) [symmetric] by (rule snapshot_rebuilt)
  have f: "db_users d' = db_users d" "db_roles d' = db_roles d" by (simp_all add: d')
  have e: "EffectivePolicy d' = EffectivePolicy d" by (rule ext, rule effective_roles [OF f(2)])
  have "key_current d' (rebuilt d [u] k)" if k: "k \<in> set (db_keys d)" for k
  proof (cases "ky_UserID k = uid")
    case True
    have inj: "inj_on us_ID (set (db_users d))" using assms(2) by (simp add: db_ok_def distinct_map)
    have r: "rebuilt d [u] k = (if ky_Status k = ''active'' then k\<lparr>ky_Policy := EffectivePolicy d (us_Roles u)\<rparr> else k)"
      using True uu(1) by (simp add: rebuilt_def)
    show ?thesis unfolding key_current_def f e rebuilt_fields
    proof (intro impI ballI)
      fix v assume "ky_Status k = ''active''" "v \<in> set (db_users d)" "us_ID v = ky_UserID k"
      moreover from this have "v = u" using inj_onD [OF inj, of v u] True uu by simp
      ultimately show "ky_Policy (rebuilt d [u] k) = EffectivePolicy d (us_Roles v)" by (simp add: r)
    qed
  next
    case False
    then have "rebuilt d [u] k = k" using uu by (simp add: rebuilt_def)
    moreover have "key_current d' k" using assms(3) [OF k False] by (simp add: key_current_def f e)
    ultimately show ?thesis by simp
  qed
  then have "coherent d'" by (simp add: coherent_def ks list_all_iff)
  moreover have "db_ok d'"
  proof -
    have "map ky_Hash (db_keys d') = map ky_Hash (db_keys d)" "ky_UserID ` set (db_keys d') = ky_UserID ` set (db_keys d)"
      by (simp_all add: ks comp_def image_image)
    then show ?thesis using assms(2) by (simp add: db_ok_def f)
  qed
  ultimately show ?thesis using f by simp
qed

text \<open>A change of one user's row that keeps its id and subject, followed by the user's snapshots.\<close>

lemma update_user_ok:
  assumes "db_ok d" and "coherent d" and "RebuildKeySnapshotsUser uid (map_user uid f d) = Some d'"
    and "\<And>u. us_ID (f u) = us_ID u" and "\<And>u. us_Subject (f u) = us_Subject u"
  shows "db_ok d' \<and> coherent d' \<and> db_users d' = map (\<lambda>u. if us_ID u = uid then f u else u) (db_users d)"
proof -
  let ?d1 = "map_user uid f d"
  have ids: "map us_ID (db_users ?d1) = map us_ID (db_users d)" "map us_Subject (db_users ?d1) = map us_Subject (db_users d)"
    using assms(4,5) by (simp_all add: map_user_def)
  have img: "us_ID ` set (db_users ?d1) = us_ID ` set (db_users d)" using ids(1) by (metis list.set_map)
  have same: "db_keys ?d1 = db_keys d" "db_roles ?d1 = db_roles d" by (simp_all add: map_user_def)
  have ok: "db_ok ?d1" using assms(1) unfolding db_ok_def same ids img by simp
  have cur: "key_current ?d1 k" if "k \<in> set (db_keys ?d1)" "ky_UserID k \<noteq> uid" for k
  proof (rule key_current_cong [of d])
    show "db_roles d = db_roles ?d1" by (simp add: same)
    show "key_current d k" using that assms(2) by (simp add: same coherent_def list_all_iff)
    fix u' assume "u' \<in> set (db_users ?d1)" "us_ID u' = ky_UserID k"
    then show "\<exists>u \<in> set (db_users d). us_ID u = ky_UserID k \<and> us_Roles u = us_Roles u'"
      using that(2) assms(4) by (auto simp: map_user_def split: if_splits)
  qed
  show ?thesis using rebuild_user_ok [OF assms(3) ok cur] by (simp add: map_user_def)
qed

section \<open>Every request keeps the tables in order\<close>

lemma add_user_ok:
  assumes "db_ok d" and "coherent d" and "us_ID u \<notin> us_ID ` set (db_users d)" and "\<not> subject_taken (us_Subject u) d"
  shows "db_ok (d\<lparr>db_users := db_users d @ [u]\<rparr>) \<and> coherent (d\<lparr>db_users := db_users d @ [u]\<rparr>)"
proof
  show "db_ok (d\<lparr>db_users := db_users d @ [u]\<rparr>)" using assms by (auto simp: db_ok_def subject_taken_def)
  have "us_ID u \<notin> ky_UserID ` set (db_keys d)" using assms(1,3) by (auto simp: db_ok_def)
  then show "coherent (d\<lparr>db_users := db_users d @ [u]\<rparr>)" by (intro coherent_grow [OF assms(2)]) auto
qed

lemma find_subject_None: "find (\<lambda>u. us_Subject u = sub) us = None \<Longrightarrow> sub \<notin> us_Subject ` set us"
  by (auto simp: find_None_iff)

lemma ensure_ok:
  assumes "db_ok d" and "coherent d" and "fresh \<notin> us_ID ` set (db_users d)" and "ensureUser fresh sub email roles d = (u, d1)"
  shows "db_ok d1 \<and> coherent d1 \<and> u \<in> set (db_users d1) \<and> set (db_users d) \<subseteq> set (db_users d1)"
proof (cases "find (\<lambda>u. us_Subject u = sub) (db_users d)")
  case None
  then show ?thesis using assms add_user_ok [OF assms(1,2), of u] find_subject_None [OF None]
    by (auto simp: ensureUser_def Let_def subject_taken_def)
next
  case (Some v)
  then have "u = v" "d1 = d" using assms(4) by (simp_all add: ensureUser_def)
  moreover have "v \<in> set (db_users d)" using Some by (auto simp: find_Some_iff)
  ultimately show ?thesis using assms(1,2) by simp
qed

lemma map_user_keeps:
  assumes "db_ok d" and "coherent d" and "\<And>u. us_ID (f u) = us_ID u \<and> us_Subject (f u) = us_Subject u \<and> us_Roles (f u) = us_Roles u"
  shows "db_ok (map_user uid f d) \<and> coherent (map_user uid f d)"
proof
  let ?g = "\<lambda>u. if us_ID u = uid then f u else u"
  have g: "us_ID (?g u) = us_ID u" "us_Subject (?g u) = us_Subject u" "us_Roles (?g u) = us_Roles u" for u using assms(3) by simp_all
  have m: "map us_ID (map ?g us) = map us_ID us" "map us_Subject (map ?g us) = map us_Subject us" for us using g by simp_all
  have img: "us_ID ` set (map ?g (db_users d)) = us_ID ` set (db_users d)" using m(1) by (metis list.set_map)
  have e: "db_users (map_user uid f d) = map ?g (db_users d)" "db_keys (map_user uid f d) = db_keys d" "db_roles (map_user uid f d) = db_roles d"
    by (simp_all add: map_user_def)
  show "db_ok (map_user uid f d)" using assms(1) unfolding db_ok_def e m img .
  show "coherent (map_user uid f d)"
  proof (rule coherent_grow [OF assms(2)])
    fix u' assume "u' \<in> set (db_users (map_user uid f d))"
    then obtain u where "u \<in> set (db_users d)" "u' = ?g u" by (auto simp: map_user_def)
    then show "\<exists>u \<in> set (db_users d). us_ID u = us_ID u' \<and> us_Roles u = us_Roles u'" using g(1,3) [of u] by (intro bexI [of _ u]) simp_all
  qed (simp_all add: map_user_def)
qed

lemma set_password_ok: "db_ok d \<Longrightarrow> coherent d \<Longrightarrow> SetPassword uid h d = Some d' \<Longrightarrow> db_ok d' \<and> coherent d'"
  using map_user_keeps [of d "\<lambda>u. if us_AuthSource u = ''local'' then u\<lparr>us_PasswordHash := h\<rparr> else u" uid]
  by (simp add: SetPassword_def split: if_splits)

lemma key_current_subset:
  assumes "key_current d k" and "db_roles d' = db_roles d" and "set (db_users d') \<subseteq> set (db_users d)"
  shows "key_current d' k"
proof (rule key_current_cong [OF _ _ assms(1)])
  show "db_roles d = db_roles d'" using assms(2) by simp
qed (use assms(3) in blast)

lemma delete_user_ok: "db_ok d \<Longrightarrow> coherent d \<Longrightarrow> DeleteUser uid d = Some d' \<Longrightarrow> db_ok d' \<and> coherent d'"
proof -
  assume a: "db_ok d" "coherent d" "DeleteUser uid d = Some d'"
  then have d': "d' = d\<lparr>db_users := filter (\<lambda>u. us_ID u \<noteq> uid) (db_users d), db_keys := filter (\<lambda>k. ky_UserID k \<noteq> uid) (db_keys d)\<rparr>"
    by (auto simp: DeleteUser_def split: if_splits)
  have "key_current d' k" if "k \<in> set (db_keys d)" for k
  proof (rule key_current_subset)
    show "key_current d k" using that a(2) by (simp add: coherent_def list_all_iff)
    show "db_roles d' = db_roles d" "set (db_users d') \<subseteq> set (db_users d)" by (auto simp: d')
  qed
  then have "coherent d'" by (simp add: coherent_def d' list_all_iff)
  moreover have "db_ok d'" using a(1) by (auto simp: db_ok_def d' distinct_map_filter)
  ultimately show ?thesis by simp
qed

lemma put_role_ok:
  assumes "db_ok d" and "coherent d"
  shows "db_ok (snd (handleAdminPutRole role body d)) \<and> coherent (snd (handleAdminPutRole role body d))
    \<and> db_users (snd (handleAdminPutRole role body d)) = db_users d"
proof (cases body)
  case None
  then show ?thesis using assms by (simp add: handleAdminPutRole_def)
next
  case (Some b)
  define row where "row = (if rl_Limits b = [] then b\<lparr>rl_Limits := ''{}''\<rparr> else b)"
  let ?d1 = "d\<lparr>db_roles := filter (\<lambda>(r, _). r \<noteq> role) (db_roles d) @ [(role, row)]\<rparr>"
  let ?us = "filter (\<lambda>u. role \<in> set (us_Roles u)) (db_users d)"
  have ok1: "db_ok ?d1" using assms(1) by (auto simp: db_ok_def distinct_map_filter split_def)
  have r: "snd (handleAdminPutRole role body d) = ?d1\<lparr>db_keys := map (rebuilt ?d1 ?us) (db_keys d)\<rparr>"
    using rebuild_role_is [OF ok1, of role] by (simp add: handleAdminPutRole_def Some row_def [symmetric] Let_def)
  have eff: "EffectivePolicy ?d1 rs = EffectivePolicy d rs" if "role \<notin> set rs" for rs
  proof -
    have "filter (\<lambda>(r, _). r \<in> set rs) (db_roles ?d1) = filter (\<lambda>(r, _). r \<in> set rs) (db_roles d)"
      using that by (auto simp: split_def intro!: filter_cong)
    then show ?thesis by (simp add: EffectivePolicy_def)
  qed
  let ?d2 = "?d1\<lparr>db_keys := map (rebuilt ?d1 ?us) (db_keys d)\<rparr>"
  have e2: "EffectivePolicy ?d2 = EffectivePolicy ?d1" by (rule ext, rule effective_roles) simp
  have "key_current ?d2 (rebuilt ?d1 ?us k)" if k: "k \<in> set (db_keys d)" for k
    unfolding key_current_def e2 rebuilt_fields
  proof (intro impI ballI)
    fix u assume act: "ky_Status k = ''active''" and u: "u \<in> set (db_users ?d2)" "us_ID u = ky_UserID k"
    then have u': "u \<in> set (db_users d)" by simp
    have dist: "distinct (map us_ID (db_users d))" using assms(1) by (simp add: db_ok_def)
    show "ky_Policy (rebuilt ?d1 ?us k) = EffectivePolicy ?d1 (us_Roles u)"
    proof (cases "role \<in> set (us_Roles u)")
      case True
      then have "find (\<lambda>v. us_ID v = us_ID u) ?us = Some u" using u' dist by (intro find_own) (auto simp: distinct_map_filter)
      then show ?thesis using act u(2) by (simp add: rebuilt_def)
    next
      case False
      have "v = u" if "v \<in> set (db_users d)" "us_ID v = us_ID u" for v
        using that u' dist inj_onD [of us_ID "set (db_users d)" v u] by (simp add: distinct_map)
      then have "find (\<lambda>v. us_ID v = ky_UserID k) ?us = None" using False u(2) by (auto simp: find_None_iff)
      moreover have "ky_Policy k = EffectivePolicy d (us_Roles u)"
        using assms(2) k act u' u(2) by (auto simp: coherent_def list_all_iff key_current_def)
      ultimately show ?thesis using eff [OF False] by (simp add: rebuilt_def)
    qed
  qed
  then have "coherent ?d2" by (simp add: coherent_def list_all_iff)
  moreover have "db_ok ?d2" using ok1 by (simp add: db_ok_def comp_def image_image)
  ultimately show ?thesis unfolding r by simp
qed

lemma insert_key_ok:
  assumes "db_ok d" and "coherent d" and "u \<in> set (db_users d)"
  shows "db_ok (snd (insert_key (us_ID u) name key (EffectivePolicy d (us_Roles u)) d))
    \<and> coherent (snd (insert_key (us_ID u) name key (EffectivePolicy d (us_Roles u)) d))"
proof (cases "\<exists>k. key = Some k \<and> kf_Hash k \<notin> ky_Hash ` set (db_keys d)")
  case False
  then show ?thesis using assms by (auto simp: insert_key_def split: option.splits)
next
  case True
  then obtain k where k: "key = Some k" "kf_Hash k \<notin> ky_Hash ` set (db_keys d)" by blast
  define row where "row = \<lparr>ky_ID = kf_ID k, ky_UserID = us_ID u, ky_Name = (if name = [] then ''key'' else name), ky_Hash = kf_Hash k,
    ky_Prefix = kf_Prefix k, ky_Last4 = kf_Last4 k, ky_Policy = EffectivePolicy d (us_Roles u), ky_Status = ''active''\<rparr>"
  let ?d1 = "d\<lparr>db_keys := db_keys d @ [row]\<rparr>"
  have r: "snd (insert_key (us_ID u) name key (EffectivePolicy d (us_Roles u)) d) = ?d1"
    using k assms(3) by (simp add: insert_key_def row_def)
  have e: "EffectivePolicy ?d1 = EffectivePolicy d" by (rule ext, rule effective_roles) simp
  have inj: "inj_on us_ID (set (db_users d))" using assms(1) by (simp add: db_ok_def distinct_map)
  have "key_current ?d1 row" unfolding key_current_def e using inj_onD [OF inj] assms(3) by (auto simp: row_def)
  moreover have "key_current ?d1 k'" if "k' \<in> set (db_keys d)" for k'
    using that assms(2) by (simp add: key_current_def e coherent_def list_all_iff)
  ultimately have "coherent ?d1" by (simp add: coherent_def list_all_iff)
  moreover have "db_ok ?d1" using assms(1,3) k(2) by (auto simp: db_ok_def row_def)
  ultimately show ?thesis unfolding r by simp
qed

lemma revoke_ok:
  assumes "db_ok d" and "coherent d"
  shows "db_ok (snd (revoke_where sel d)) \<and> coherent (snd (revoke_where sel d)) \<and> db_users (snd (revoke_where sel d)) = db_users d"
proof (cases "list_ex sel (db_keys d)")
  case True
  let ?g = "\<lambda>k. if sel k then k\<lparr>ky_Status := ''revoked''\<rparr> else k"
  let ?d1 = "d\<lparr>db_keys := map ?g (db_keys d)\<rparr>"
  have e: "EffectivePolicy ?d1 = EffectivePolicy d" by (rule ext, rule effective_roles) simp
  have "key_current ?d1 (?g k)" if "k \<in> set (db_keys d)" for k
    using that assms(2) by (simp add: key_current_def e coherent_def list_all_iff)
  then have "list_all (key_current ?d1) (map ?g (db_keys d))" unfolding list_all_iff set_map ball_simps by blast
  then have "coherent ?d1" unfolding coherent_def by simp
  moreover have "db_ok ?d1"
  proof -
    have g: "ky_Hash (?g k) = ky_Hash k" "ky_UserID (?g k) = ky_UserID k" for k by simp_all
    have m: "map ky_Hash (map ?g (db_keys d)) = map ky_Hash (db_keys d)" "ky_UserID ` set (map ?g (db_keys d)) = ky_UserID ` set (db_keys d)"
      unfolding map_map comp_def g set_map image_image by simp_all
    have f: "db_keys ?d1 = map ?g (db_keys d)" "db_users ?d1 = db_users d" "db_roles ?d1 = db_roles d" by simp_all
    show ?thesis using assms(1) unfolding db_ok_def f m .
  qed
  ultimately show ?thesis using True by (simp add: revoke_where_def)
next
  case False
  then show ?thesis using assms by (simp add: revoke_where_def)
qed

lemma serve_admin_ok:
  assumes "db_ok d" and "coherent d" and "case call of CreateUser uid _ \<Rightarrow> uid \<notin> us_ID ` set (db_users d) | _ \<Rightarrow> True"
  shows "db_ok (snd (serve_admin Y call d)) \<and> coherent (snd (serve_admin Y call d))"
proof (cases call)
  case (CreateUser uid body)
  have "db_ok d' \<and> coherent d'" if "CreateLocal uid u d = Some d'" for u d'
    using that add_user_ok [OF assms(1,2), of "u\<lparr>us_ID := uid, us_AuthSource := ''local''\<rparr>"] assms(3) CreateUser
    by (auto simp: CreateLocal_def split: if_splits)
  then show ?thesis using assms(1,2) by (auto simp: CreateUser handleCreateUser_def split: option.splits)
next
  case (UpdateUser uid body)
  have "db_ok d' \<and> coherent d'" if "RebuildKeySnapshotsUser uid (map_user uid (\<lambda>u. u\<lparr>us_Email := e, us_Display := n, us_Roles := r, us_Disabled := x\<rparr>) d) = Some d'" for e n r x d'
    using update_user_ok [OF assms(1,2) that] by simp
  then show ?thesis using assms(1,2) by (auto simp: UpdateUser handleUpdateUser_def Let_def split: option.splits)
next
  case (ResetPassword uid body)
  then show ?thesis using assms(1,2) set_password_ok [OF assms(1,2)] by (auto simp: handleResetPassword_def split: option.splits)
next
  case (RemoveUser uid)
  then show ?thesis using assms(1,2) delete_user_ok [OF assms(1,2)] by (auto simp: handleDeleteUser_def split: option.splits)
next
  case (PutRole role body)
  then show ?thesis using put_role_ok [OF assms(1,2)] by simp
next
  case (AdminRevoke kid)
  then show ?thesis using revoke_ok [OF assms(1,2)] by (simp add: handleAdminRevokeKey_def)
qed

lemma serve_self_ok:
  assumes "db_ok d" and "coherent d" and "u \<in> set (db_users d)"
  shows "db_ok (snd (serve_self Y call u d)) \<and> coherent (snd (serve_self Y call u d))"
proof (cases call)
  case (CreateKey body key)
  then show ?thesis using assms insert_key_ok [OF assms] by (auto simp: handleCreateKey_def split: option.splits)
next
  case (RevokeKey kid)
  then show ?thesis using revoke_ok [OF assms(1,2)] by (simp add: handleRevokeKey_def)
next
  case (ChangePassword body)
  then show ?thesis using assms(1,2) set_password_ok [OF assms(1,2)] by (auto simp: handleChangeOwnPassword_def split: option.splits)
next
  case ReadOnly
  then show ?thesis using assms by simp
qed

text \<open>What a call draws for new rows is new.\<close>

definition fresh_ids :: "string \<Rightarrow> admin_call + self_call \<Rightarrow> db \<Rightarrow> bool" where
  "fresh_ids fresh call d \<longleftrightarrow> fresh \<notin> us_ID ` set (db_users d)
     \<and> (case call of Inl (CreateUser uid _) \<Rightarrow> uid \<notin> us_ID ` set (db_users d) \<and> uid \<noteq> fresh | _ \<Rightarrow> True)"

lemma serve_ok:
  assumes "db_ok d" and "coherent d" and "fresh_ids fresh call d"
  shows "db_ok (snd (serve Y fresh c call d)) \<and> coherent (snd (serve Y fresh c call d))"
proof -
  obtain u d1 where e: "ensureUser fresh (ck_Subject c) (ck_Email c) (ck_Roles c) d = (u, d1)" by fastforce
  have f: "fresh \<notin> us_ID ` set (db_users d)" using assms(3) by (simp add: fresh_ids_def)
  note ok = ensure_ok [OF assms(1,2) f e]
  have ids: "us_ID ` set (db_users d1) \<subseteq> insert fresh (us_ID ` set (db_users d))"
    using e by (auto simp: ensureUser_def Let_def split: option.splits)
  show ?thesis
  proof (cases call)
    case (Inl a)
    have "case a of CreateUser uid _ \<Rightarrow> uid \<notin> us_ID ` set (db_users d1) | _ \<Rightarrow> True"
      using assms(3) ids Inl by (auto simp: fresh_ids_def split: admin_call.splits)
    then show ?thesis using ok serve_admin_ok [of d1 a Y] by (simp add: serve_def Inl requireAdmin_def requireSession_def e)
  next
    case (Inr b)
    then show ?thesis using ok serve_self_ok [of d1 u Y b] by (simp add: serve_def requireSession_def e)
  qed
qed

lemma upsert_ok:
  assumes "db_ok d" and "coherent d" and "uid \<notin> us_ID ` set (db_users d)" and "UpsertOIDC uid sub email roles d = Inr d'"
  shows "db_ok d' \<and> coherent d'"
proof (cases "find (\<lambda>u. us_Subject u = sub) (db_users d)")
  case None
  let ?u = "\<lparr>us_ID = uid, us_Subject = sub, us_Email = email, us_Display = sub, us_Roles = roles, us_PasswordHash = [],
                    us_Disabled = False, us_AuthSource = ''oidc''\<rparr>"
  let ?d1 = "d\<lparr>db_users := db_users d @ [?u]\<rparr>"
  have ok: "db_ok ?d1" "coherent ?d1" using add_user_ok [OF assms(1,2), of ?u] assms(3) find_subject_None [OF None] by (simp_all add: subject_taken_def)
  have "RebuildKeySnapshotsUser uid ?d1 = Some d'" using assms(4) None by (simp add: UpsertOIDC_def Let_def split: option.splits)
  from rebuild_user_ok [OF this ok(1)] ok(2) show ?thesis by (auto simp: coherent_def list_all_iff)
next
  case (Some u)
  then have "RebuildKeySnapshotsUser (us_ID u) (map_user (us_ID u) (\<lambda>u. u\<lparr>us_Email := email, us_Roles := roles\<rparr>) d) = Some d'"
    using assms(4) by (simp add: UpsertOIDC_def split: if_splits option.splits)
  from update_user_ok [OF assms(1,2) this] show ?thesis by simp
qed

section \<open>Keys follow roles\<close>

text \<open>The tables as requests and single sign-on change them.\<close>

inductive evolves :: "crypt \<Rightarrow> db \<Rightarrow> db \<Rightarrow> bool" for Y d where
  start: "evolves Y d d"
| request: "\<lbrakk>evolves Y d d1; fresh_ids fresh call d1; serve Y fresh c call d1 = (code, d2)\<rbrakk> \<Longrightarrow> evolves Y d d2"
| sso: "\<lbrakk>evolves Y d d1; uid \<notin> us_ID ` set (db_users d1); UpsertOIDC uid sub email roles d1 = Inr d2\<rbrakk> \<Longrightarrow> evolves Y d d2"

lemma evolves_ok: "evolves Y d d' \<Longrightarrow> db_ok d \<Longrightarrow> coherent d \<Longrightarrow> db_ok d' \<and> coherent d'"
proof (induction rule: evolves.induct)
  case (request d1 fresh call c code d2)
  then show ?case using serve_ok [of d1 fresh call Y c] by simp
next
  case (sso d1 uid sub email roles d2)
  then show ?case using upsert_ok by blast
qed simp

lemma merged_roles:
  "set (kp_AllowedModels (merge_roles rs eff)) = set (kp_AllowedModels eff) \<union> \<Union>(set ` rl_Models ` set rs)"
  "kp_AllowPassthrough (merge_roles rs eff) \<longleftrightarrow> kp_AllowPassthrough eff \<or> (\<exists>r \<in> set rs. rl_Passthrough r)"
  by (induction rs eff rule: merge_roles.induct) auto

lemma allows_loop_iff: "allows_loop ms m \<longleftrightarrow> ''*'' \<in> set ms \<or> m \<in> set ms"
  by (induction ms) auto

lemma effective_allows:
  "Allows (EffectivePolicy d roles) m \<longleftrightarrow>
     (\<exists>r row. (r, row) \<in> set (db_roles d) \<and> r \<in> set roles \<and> (''*'' \<in> set (rl_Models row) \<or> m \<in> set (rl_Models row)))"
  "kp_AllowPassthrough (EffectivePolicy d roles) \<longleftrightarrow> (\<exists>r row. (r, row) \<in> set (db_roles d) \<and> r \<in> set roles \<and> rl_Passthrough row)"
  unfolding EffectivePolicy_def Let_def Allows_def allows_loop_iff
  by (auto simp: merged_roles zero_policy_def split_def)


section \<open>An administrator remains\<close>

lemma another_admin:
  assumes "db_ok d" and "has_admin d" and "\<not> (uid \<in> set (LockAdminIDs d) \<and> length (LockAdminIDs d) \<le> 1)"
  shows "\<exists>a \<in> set (db_users d). is_admin_row a \<and> us_ID a \<noteq> uid"
proof (cases "uid \<in> set (LockAdminIDs d)")
  case False
  obtain a where "a \<in> set (db_users d)" "is_admin_row a" using assms(2) by (auto simp: has_admin_def list_ex_iff)
  then show ?thesis using False by (auto simp: LockAdminIDs_def)
next
  case True
  have "distinct (LockAdminIDs d)" using assms(1) by (simp add: LockAdminIDs_def db_ok_def distinct_map_filter)
  moreover have "1 < length (LockAdminIDs d)" using assms(3) True by simp
  ultimately have "\<not> set (LockAdminIDs d) \<subseteq> {uid}" using card_mono [of "{uid}" "set (LockAdminIDs d)"] by (auto simp: distinct_card)
  then show ?thesis by (auto simp: LockAdminIDs_def)
qed

lemma admin_kept: "a \<in> set (db_users d') \<Longrightarrow> is_admin_row a \<Longrightarrow> has_admin d'"
  by (auto simp: has_admin_def list_ex_iff)

lemma map_user_admin:
  assumes "has_admin d" and "\<And>u. us_Roles (f u) = us_Roles u \<and> us_Disabled (f u) = us_Disabled u"
  shows "has_admin (map_user uid f d)"
proof -
  obtain a where "a \<in> set (db_users d)" "is_admin_row a" using assms(1) by (auto simp: has_admin_def list_ex_iff)
  then have "is_admin_row (if us_ID a = uid then f a else a)" "(if us_ID a = uid then f a else a) \<in> set (db_users (map_user uid f d))"
    using assms(2) [of a] by (auto simp: is_admin_row_def map_user_def)
  then show ?thesis by (auto simp: has_admin_def list_ex_iff)
qed

lemma update_admin:
  assumes "db_ok d" and "coherent d" and "has_admin d"
  shows "has_admin (snd (handleUpdateUser uid body d))"
proof (cases "snd (handleUpdateUser uid body d) = d")
  case False
  then obtain e n r x current where c: "user_by_id d uid = Some current" and g: "\<not> guardLastAdmin uid r x d"
    and reb: "RebuildKeySnapshotsUser uid (map_user uid (\<lambda>u. u\<lparr>us_Email := e, us_Display := n, us_Roles := r, us_Disabled := x\<rparr>) d)
      = Some (snd (handleUpdateUser uid body d))"
    by (auto simp: handleUpdateUser_def Let_def split: option.splits if_splits)
  have users: "db_users (snd (handleUpdateUser uid body d))
      = map (\<lambda>u. if us_ID u = uid then u\<lparr>us_Email := e, us_Display := n, us_Roles := r, us_Disabled := x\<rparr> else u) (db_users d)"
    using update_user_ok [OF assms(1,2) reb] by simp
  have cu: "current \<in> set (db_users d)" "us_ID current = uid" using c by (auto simp: user_by_id_def find_Some_iff)
  show ?thesis
  proof (cases "uid \<in> set (LockAdminIDs d) \<and> length (LockAdminIDs d) \<le> 1")
    case True
    then have "\<not> x" "AdminRole \<in> set r" using g by (auto simp: guardLastAdmin_def Let_def)
    then have "is_admin_row (current\<lparr>us_Email := e, us_Display := n, us_Roles := r, us_Disabled := x\<rparr>)" by (simp add: is_admin_row_def)
    moreover have "current\<lparr>us_Email := e, us_Display := n, us_Roles := r, us_Disabled := x\<rparr> \<in> set (db_users (snd (handleUpdateUser uid body d)))"
      unfolding users set_map using cu by (intro image_eqI [of _ _ current]) simp_all
    ultimately show ?thesis using admin_kept by blast
  next
    case False
    then obtain a where "a \<in> set (db_users d)" "is_admin_row a" "us_ID a \<noteq> uid" using another_admin [OF assms(1,3)] by blast
    then show ?thesis by (intro admin_kept [of a]) (force simp: users)
  qed
qed (use assms in simp)

lemma delete_admin:
  assumes "db_ok d" and "has_admin d"
  shows "has_admin (snd (handleDeleteUser uid d))"
proof (cases "guardLastAdmin uid [] True d \<or> 0 < KeyCount uid d \<or> DeleteUser uid d = None")
  case True
  then show ?thesis using assms(2) by (auto simp: handleDeleteUser_def split: option.splits)
next
  case False
  then obtain d' where d': "DeleteUser uid d = Some d'" by blast
  obtain a where "a \<in> set (db_users d)" "is_admin_row a" "us_ID a \<noteq> uid"
    using another_admin [OF assms] False by (auto simp: guardLastAdmin_def Let_def)
  then have "has_admin d'" using d' by (intro admin_kept [of a]) (auto simp: DeleteUser_def split: if_splits)
  then show ?thesis using False d' by (simp add: handleDeleteUser_def)
qed

lemma serve_admin_admin:
  assumes "db_ok d" and "coherent d" and "has_admin d"
  shows "has_admin (snd (serve_admin Y call d))"
proof (cases call)
  case (CreateUser uid body)
  have "has_admin d'" if "CreateLocal uid u d = Some d'" for u d'
    using that assms(3) by (auto simp: CreateLocal_def has_admin_def split: if_splits)
  then show ?thesis using assms(3) by (auto simp: CreateUser handleCreateUser_def split: option.splits)
next
  case (ResetPassword uid body)
  have "has_admin d'" if "SetPassword uid h d = Some d'" for h d'
    using that map_user_admin [OF assms(3)] by (auto simp: SetPassword_def split: if_splits)
  then show ?thesis using assms(3) by (auto simp: ResetPassword handleResetPassword_def split: option.splits)
next
  case (PutRole role body)
  then show ?thesis using put_role_ok [OF assms(1,2)] assms(3) by (simp add: has_admin_def)
next
  case (AdminRevoke kid)
  then show ?thesis using revoke_ok [OF assms(1,2)] assms(3) by (simp add: handleAdminRevokeKey_def has_admin_def)
qed (use assms update_admin delete_admin in simp_all)

lemma serve_self_admin:
  assumes "db_ok d" and "coherent d" and "has_admin d"
  shows "has_admin (snd (serve_self Y call u d))"
proof (cases call)
  case (CreateKey body key)
  then show ?thesis using assms(3) by (auto simp: handleCreateKey_def insert_key_def has_admin_def split: option.splits)
next
  case (RevokeKey kid)
  then show ?thesis using revoke_ok [OF assms(1,2)] assms(3) by (simp add: handleRevokeKey_def has_admin_def)
next
  case (ChangePassword body)
  have "has_admin d'" if "SetPassword uid h d = Some d'" for uid h d'
    using that map_user_admin [OF assms(3)] by (auto simp: SetPassword_def split: if_splits)
  then show ?thesis using assms(3) by (auto simp: ChangePassword handleChangeOwnPassword_def split: option.splits)
qed (use assms in simp)

lemma serve_has_admin:
  assumes "db_ok d" and "coherent d" and "has_admin d" and "fresh_ids fresh call d"
  shows "has_admin (snd (serve Y fresh c call d))"
proof -
  obtain u d1 where e: "ensureUser fresh (ck_Subject c) (ck_Email c) (ck_Roles c) d = (u, d1)" by fastforce
  have f: "fresh \<notin> us_ID ` set (db_users d)" using assms(4) by (simp add: fresh_ids_def)
  note ok = ensure_ok [OF assms(1,2) f e]
  then have h: "has_admin d1" using assms(3) by (auto simp: has_admin_def list_ex_iff)
  show ?thesis using ok h serve_admin_admin [of d1] serve_self_admin [of d1]
    by (auto simp: serve_def requireAdmin_def requireSession_def e split: sum.splits)
qed

text \<open>Requests one after the other, each drawing new ids.\<close>

fun serve_all :: "crypt \<Rightarrow> (string \<times> cookie \<times> (admin_call + self_call)) list \<Rightarrow> db \<Rightarrow> db" where
  "serve_all Y [] d = d"
| "serve_all Y ((fresh, c, call) # rs) d = serve_all Y rs (snd (serve Y fresh c call d))"

fun all_fresh :: "crypt \<Rightarrow> (string \<times> cookie \<times> (admin_call + self_call)) list \<Rightarrow> db \<Rightarrow> bool" where
  "all_fresh Y [] d = True"
| "all_fresh Y ((fresh, c, call) # rs) d = (fresh_ids fresh call d \<and> all_fresh Y rs (snd (serve Y fresh c call d)))"


section \<open>Where a row or a policy is gone\<close>

text \<open>
  C30: A user who is disabled is turned away at the next request, but a deleted one is not:
  with a cookie that is still valid the row is created again with the roles the cookie carries. A
  deleted administrator's requests keep being executed as an administrator's, and the account is back.
\<close>
theorem deleted_admin_returns:
  assumes "db_ok d" and "u \<in> set (db_users d)" and "handleDeleteUser (us_ID u) d = (200, d1)"
    and "ck_Subject c = us_Subject u" and "AdminRole \<in> set (ck_Roles c)"
  shows "(\<exists>v. us_Subject v = us_Subject u \<and> is_admin_row v
      \<and> serve Y fresh c (Inl call) d1 = serve_admin Y call (d1\<lparr>db_users := db_users d1 @ [v]\<rparr>))
    \<and> (\<forall>w. w \<in> set (db_users d) \<and> us_Subject w = ck_Subject c \<and> us_Disabled w \<longrightarrow> serve Y fresh c any d = (401, d))"
proof
  have d1: "db_users d1 = filter (\<lambda>v. us_ID v \<noteq> us_ID u) (db_users d)"
    using assms(3) by (auto simp: handleDeleteUser_def DeleteUser_def split: if_splits option.splits)
  have "v = u" if "v \<in> set (db_users d)" "us_Subject v = us_Subject u" for v
    using assms(1,2) that inj_onD [of us_Subject "set (db_users d)" v u] by (simp add: db_ok_def distinct_map)
  then have none: "find (\<lambda>v. us_Subject v = ck_Subject c) (db_users d1) = None" by (auto simp: d1 assms(4) find_None_iff)
  let ?v = "\<lparr>us_ID = fresh, us_Subject = ck_Subject c, us_Email = ck_Email c, us_Display = ck_Subject c, us_Roles = ck_Roles c,
     us_PasswordHash = [], us_Disabled = False, us_AuthSource = ''local''\<rparr>"
  show "\<exists>v. us_Subject v = us_Subject u \<and> is_admin_row v
      \<and> serve Y fresh c (Inl call) d1 = serve_admin Y call (d1\<lparr>db_users := db_users d1 @ [v]\<rparr>)"
    using none assms(4,5) by (intro exI [of _ ?v]) (simp add: serve_def requireAdmin_def requireSession_def ensureUser_def is_admin_row_def Let_def)
  show "\<forall>w. w \<in> set (db_users d) \<and> us_Subject w = ck_Subject c \<and> us_Disabled w \<longrightarrow> serve Y fresh c any d = (401, d)"
  proof (intro allI impI)
    fix w assume w: "w \<in> set (db_users d) \<and> us_Subject w = ck_Subject c \<and> us_Disabled w"
    obtain x where x: "find (\<lambda>v. us_Subject v = ck_Subject c) (db_users d) = Some x"
      using w by (cases "find (\<lambda>v. us_Subject v = ck_Subject c) (db_users d)") (auto simp: find_None_iff)
    then have xx: "x \<in> set (db_users d)" "us_Subject x = ck_Subject c" by (auto simp: find_Some_iff)
    have "x = w" using assms(1) xx w inj_onD [of us_Subject "set (db_users d)" x w] by (simp add: db_ok_def distinct_map)
    with x w show "serve Y fresh c any d = (401, d)"
      by (auto simp: serve_def requireAdmin_def requireSession_def ensureUser_def split: sum.splits)
  qed
qed

text \<open>
  The policy of a new key is read before, and not together with, the insert of the key: a
  role that is changed in between is not applied to it, and the key is left with the old policy.
\<close>
theorem new_key_misses_role_change:
  assumes "db_ok d" and "u \<in> set (db_users d)" and "snapshot = EffectivePolicy d (us_Roles u)"
    and "handleAdminPutRole role body d = (200, d1)" and "EffectivePolicy d1 (us_Roles u) \<noteq> snapshot"
    and "insert_key (us_ID u) name key snapshot d1 = (201, d2)"
  shows "\<not> coherent d2"
proof -
  obtain k where k: "db_keys d2 = db_keys d1 @ [k]" "ky_UserID k = us_ID u" "ky_Policy k = snapshot" "ky_Status k = ''active''"
    "db_users d2 = db_users d1" "db_roles d2 = db_roles d1"
    using assms(6) by (auto simp: insert_key_def split: option.splits if_splits)
  have folded: "db_users (fold (\<lambda>u. applyKeySnapshot (us_ID u) (us_Roles u)) us x) = db_users x" for us x
    by (induction us arbitrary: x) simp_all
  have "db_users d1 = db_users d"
    using assms(4) by (auto simp: handleAdminPutRole_def RebuildKeySnapshotsRole_def Let_def folded split: option.splits)
  then have "u \<in> set (db_users d2)" using assms(2) k(5) by simp
  moreover have "EffectivePolicy d2 (us_Roles u) = EffectivePolicy d1 (us_Roles u)" by (rule effective_roles) (rule k(6))
  ultimately have "\<not> key_current d2 k" using k(2-4) assms(5) unfolding key_current_def by metis
  then show ?thesis using k(1) by (simp add: coherent_def)
qed

section \<open>Example\<close>

definition demo_admin :: user_row where
  "demo_admin = \<lparr>us_ID = ''1'', us_Subject = ''root'', us_Email = [], us_Display = [], us_Roles = [AdminRole], us_PasswordHash = ''h'',
     us_Disabled = False, us_AuthSource = ''local''\<rparr>"

definition demo_user :: user_row where
  "demo_user = demo_admin\<lparr>us_ID := ''2'', us_Subject := ''ann''\<rparr>"

definition demo_tables :: db where
  "demo_tables = \<lparr>db_users = [demo_admin, demo_user], db_keys = [], db_roles = BuiltinRoles\<rparr>"

definition demo_crypt :: crypt where
  "demo_crypt = \<lparr>cy_hash = Some, cy_compare = (=)\<rparr>"

definition root_cookie :: cookie where
  "root_cookie = \<lparr>ck_Subject = ''root'', ck_Email = [], ck_Roles = [AdminRole]\<rparr>"

definition demo_print :: key_print where
  "demo_print = \<lparr>kf_ID = ''k1'', kf_Hash = ''hash'', kf_Prefix = ''air'', kf_Last4 = ''last''\<rparr>"

lemma demo_tables_ok: "db_ok demo_tables" "coherent demo_tables" "has_admin demo_tables"
  by (simp_all add: db_ok_def coherent_def has_admin_def demo_tables_def demo_user_def demo_admin_def BuiltinRoles_def is_admin_row_def)



theorem deleted_admin_returns_witness:
  "\<exists>d1 v. handleDeleteUser ''1'' demo_tables = (200, d1) \<and> is_admin_row v
     \<and> serve demo_crypt ''9'' root_cookie (Inl (RemoveUser ''2'')) d1 = serve_admin demo_crypt (RemoveUser ''2'') (d1\<lparr>db_users := db_users d1 @ [v]\<rparr>)"
proof -
  have "fst (handleDeleteUser ''1'' demo_tables) = 200" by code_simp
  then obtain d1 where d: "handleDeleteUser (us_ID demo_admin) demo_tables = (200, d1)"
    by (cases "handleDeleteUser ''1'' demo_tables") (simp add: demo_admin_def)
  have a: "demo_admin \<in> set (db_users demo_tables)" "ck_Subject root_cookie = us_Subject demo_admin" "AdminRole \<in> set (ck_Roles root_cookie)"
    by (simp_all add: demo_tables_def root_cookie_def demo_admin_def)
  obtain v where "is_admin_row v"
    "serve demo_crypt ''9'' root_cookie (Inl (RemoveUser ''2'')) d1 = serve_admin demo_crypt (RemoveUser ''2'') (d1\<lparr>db_users := db_users d1 @ [v]\<rparr>)"
    using deleted_admin_returns [OF demo_tables_ok(1) a(1) d a(2,3), of demo_crypt "''9''" "RemoveUser ''2''"] by blast
  moreover have "handleDeleteUser ''1'' demo_tables = (200, d1)" using d by (simp add: demo_admin_def)
  ultimately show ?thesis by blast
qed

theorem new_key_misses_role_change_witness:
  "\<exists>d1 d2. handleAdminPutRole AdminRole (Some \<lparr>rl_Models = [], rl_Passthrough = False, rl_Limits = []\<rparr>) demo_tables = (200, d1)
     \<and> insert_key ''1'' [] (Some demo_print) (EffectivePolicy demo_tables [AdminRole]) d1 = (201, d2) \<and> \<not> coherent d2"
proof -
  let ?body = "Some \<lparr>rl_Models = [], rl_Passthrough = False, rl_Limits = []\<rparr>"
  obtain d1 where p: "handleAdminPutRole AdminRole ?body demo_tables = (200, d1)" by (simp add: handleAdminPutRole_def Let_def)
  have r: "db_roles d1 = [(AuditorRole, \<lparr>rl_Models = [], rl_Passthrough = False, rl_Limits = ''{}''\<rparr>),
      (AdminRole, \<lparr>rl_Models = [], rl_Passthrough = False, rl_Limits = ''{}''\<rparr>)]" "db_keys d1 = []" "db_users d1 = [demo_admin, demo_user]"
    using p by (auto simp: handleAdminPutRole_def demo_tables_def BuiltinRoles_def RebuildKeySnapshotsRole_def demo_admin_def demo_user_def
        applyKeySnapshot_def Let_def)
  have "\<not> kp_AllowPassthrough (EffectivePolicy d1 (us_Roles demo_admin))" unfolding effective_allows r by auto
  moreover have "kp_AllowPassthrough (EffectivePolicy demo_tables (us_Roles demo_admin))"
    unfolding effective_allows by (auto simp: demo_tables_def BuiltinRoles_def demo_admin_def)
  ultimately have ne: "EffectivePolicy d1 (us_Roles demo_admin) \<noteq> EffectivePolicy demo_tables (us_Roles demo_admin)" by auto
  obtain d2 where i: "insert_key (us_ID demo_admin) [] (Some demo_print) (EffectivePolicy demo_tables (us_Roles demo_admin)) d1 = (201, d2)"
    by (simp add: insert_key_def r)
  have "demo_admin \<in> set (db_users demo_tables)" by (simp add: demo_tables_def)
  from new_key_misses_role_change [OF demo_tables_ok(1) this refl p ne i] p i show ?thesis by (auto simp: demo_admin_def)
qed

end
