(* ===== verification/Access.thy ===== *)
theory Access
  imports UserStore LookupCache Json Base64 DlpEnforce
begin

text \<open>
  Who may call: gateway keys (\<open>internal/apikey\<close>, \<open>internal/httpapi/auth.go\<close>), signed session cookies,
  password sign-in with its lockout and single sign-on (\<open>internal/auth\<close>, \<open>httpapi/auth_handlers.go\<close>).
  Hash functions, random bytes, the identity provider and the lockout's Redis are parameters.
\<close>

section \<open>Gateway keys\<close>

abbreviation secretLen :: nat where "secretLen \<equiv> 40"
abbreviation prefixLen :: nat where "prefixLen \<equiv> 12"

record gateway_key =
  gk_Token :: string
  gk_Hash :: string
  gk_Prefix :: string
  gk_Last4 :: string

definition hex_text :: "string \<Rightarrow> string" where
  "hex_text bs = concat (map (\<lambda>c. [hex_digit (char_code c div 16), hex_digit (char_code c mod 16)]) bs)"

text \<open>\<open>sha\<close> is SHA-256.\<close>

definition apikey_Hash :: "(string \<Rightarrow> string) \<Rightarrow> string \<Rightarrow> string" where
  "apikey_Hash sha token = hex_text (sha token)"

definition Describe :: "(string \<Rightarrow> string) \<Rightarrow> string \<Rightarrow> gateway_key" where
  "Describe sha token =
     \<lparr>gk_Token = token, gk_Hash = apikey_Hash sha token,
      gk_Prefix = (if prefixLen < length token then take prefixLen token else token),
      gk_Last4 = (if 4 < length token then drop (length token - 4) token else token)\<rparr>"

definition maxUnbiasedByte :: nat where
  "maxUnbiasedByte = (256 div length letters) * length letters"

definition unbiasedChar :: "nat \<Rightarrow> char option" where
  "unbiasedChar b = (if maxUnbiasedByte \<le> b then None else Some (letters ! (b mod length letters)))"

text \<open>The characters one block of random bytes adds, up to \<open>n\<close> in all.\<close>

fun take_chars :: "nat \<Rightarrow> nat list \<Rightarrow> string \<Rightarrow> string" where
  "take_chars n [] out = out"
| "take_chars n (b # bs) out =
     (if length out = n then out
      else take_chars n bs (case unbiasedChar b of None \<Rightarrow> out | Some c \<Rightarrow> out @ [c]))"

text \<open>
  \<open>blocks\<close> are the answers of the random source, 64 bytes each or an error; \<open>None\<close> is a loop that
  still waits for another block.
\<close>

fun randString :: "nat \<Rightarrow> (nat list option) list \<Rightarrow> string \<Rightarrow> (unit + string) option" where
  "randString n [] out = (if n \<le> length out then Some (Inr out) else None)"
| "randString n (block # rest) out =
     (if n \<le> length out then Some (Inr out)
      else case block of None \<Rightarrow> Some (Inl ()) | Some bs \<Rightarrow> randString n rest (take_chars n bs out))"

definition Generate :: "(string \<Rightarrow> string) \<Rightarrow> string \<Rightarrow> (nat list option) list \<Rightarrow> (unit + gateway_key) option" where
  "Generate sha envTag blocks =
     map_option (map_sum id (\<lambda>tail. Describe sha (''air_'' @ envTag @ ''_'' @ tail))) (randString secretLen blocks [])"

section \<open>Authenticating a call\<close>

text \<open>\<open>get\<close> reads a header, empty when absent.\<close>

definition bearerToken :: "(string \<Rightarrow> string) \<Rightarrow> string" where
  "bearerToken get =
     (let h = get ''Authorization'' in
      if h = [] then trim_space (get ''x-api-key'')
      else if 7 < length h \<and> to_lower (take 7 h) = to_lower ''Bearer '' then trim_space (drop 7 h) else [])"

text \<open>The join of keys with their owners; \<open>up\<close> tells whether the database answers.\<close>

definition owner_enabled :: "db \<Rightarrow> key_row \<Rightarrow> bool" where
  "owner_enabled d k \<longleftrightarrow> list_ex (\<lambda>u. us_ID u = ky_UserID k \<and> \<not> us_Disabled u) (db_users d)"

definition loadKey :: "bool \<Rightarrow> db \<Rightarrow> string \<Rightarrow> authedKey lc_result" where
  "loadKey up d hash =
     (if \<not> up then Inl (LoadFailed ''database'')
      else case find (\<lambda>k. ky_Hash k = hash \<and> ky_Status k = ''active'' \<and> owner_enabled d k) (db_keys d) of
             None \<Rightarrow> Inl (Miss ''no rows'')
           | Some k \<Rightarrow> Inr \<lparr>ak_KeyID = ky_ID k, ak_UserID = ky_UserID k, ak_Policy = ky_Policy k\<rparr>)"

definition lookupKey ::
  "lc_options \<Rightarrow> (string \<Rightarrow> string) \<Rightarrow> gotime \<Rightarrow> gotime \<Rightarrow> bool \<Rightarrow> db \<Rightarrow> string \<Rightarrow> authedKey lcache \<Rightarrow> authedKey lcache \<times> authedKey lc_result" where
  "lookupKey opts sha now now2 up d token c =
     (let hash = apikey_Hash sha token in lc_get opts now now2 hash (loadKey up d hash) c)"

text \<open>A call with no usable key is answered 401; otherwise the handler gets the key.\<close>

definition requireAPIKey ::
  "lc_options \<Rightarrow> (string \<Rightarrow> string) \<Rightarrow> gotime \<Rightarrow> gotime \<Rightarrow> bool \<Rightarrow> db \<Rightarrow> (string \<Rightarrow> string) \<Rightarrow> authedKey lcache
     \<Rightarrow> (string + authedKey) \<times> authedKey lcache" where
  "requireAPIKey opts sha now now2 up d get c =
     (let token = bearerToken get in
      if token = [] then (Inl ''missing API key'', c)
      else case lookupKey opts sha now now2 up d token c of
             (c', Inl _) \<Rightarrow> (Inl ''invalid API key'', c')
           | (c', Inr ak) \<Rightarrow> (Inr ak, c'))"

text \<open>What \<open>ServeHTTP\<close> does to the caches after a request.\<close>

definition purges :: "string \<Rightarrow> string \<Rightarrow> int \<Rightarrow> bool" where
  "purges meth path status \<longleftrightarrow> meth \<noteq> ''GET'' \<and> meth \<noteq> ''HEAD'' \<and> has_prefix path ''/api/'' \<and> status div 100 = 2"

definition after_request :: "string \<Rightarrow> string \<Rightarrow> int \<Rightarrow> authedKey lcache \<Rightarrow> authedKey lcache" where
  "after_request meth path status c = (if purges meth path status then lc_purge c else c)"

section \<open>Session cookies\<close>

abbreviation sessionTTL :: duration where "sessionTTL \<equiv> 12 * hour"

record principal =
  pr_Subject :: string
  pr_Email :: string
  pr_Roles :: "string list"

definition HasRole :: "principal \<Rightarrow> string \<Rightarrow> bool" where
  "HasRole p role = list_ex (\<lambda>r. r = role) (pr_Roles p)"

definition IsAdmin :: "principal \<Rightarrow> bool" where "IsAdmin p = HasRole p AdminRole"
definition IsAuditor :: "principal \<Rightarrow> bool" where "IsAuditor p = (HasRole p AuditorRole \<or> HasRole p AdminRole)"

text \<open>\<open>mac\<close> is the keyed hash of the session key.\<close>

definition macOf :: "(string \<Rightarrow> string) \<Rightarrow> string \<Rightarrow> string" where
  "macOf mac body = RawURLEncoding_EncodeToString (mac body)"

definition payload_json :: "principal \<Rightarrow> int \<Rightarrow> json" where
  "payload_json p expiry = JObj [(''sub'', JStr (pr_Subject p)), (''email'', JStr (pr_Email p)), (''roles'', JArr (map JStr (pr_Roles p))), (''exp'', jint expiry)]"

definition sign :: "(string \<Rightarrow> string) \<Rightarrow> principal \<Rightarrow> int \<Rightarrow> string" where
  "sign mac p expiry = (let body = RawURLEncoding_EncodeToString (jprint (payload_json p expiry)) in body @ ''.'' @ macOf mac body)"

definition SetSession :: "(string \<Rightarrow> string) \<Rightarrow> gotime \<Rightarrow> principal \<Rightarrow> string" where
  "SetSession mac now p = sign mac p ((now + sessionTTL) div second)"

definition dec_payload :: "json \<Rightarrow> (principal \<times> int) option" where
  "dec_payload j = do {
     ms \<leftarrow> obj_members j; sub \<leftarrow> get_string (field ms ''sub''); email \<leftarrow> get_string (field ms ''email'');
     roles \<leftarrow> get_list (\<lambda>v. get_string (Some v)) (field ms ''roles''); expiry \<leftarrow> get_int (field ms ''exp'');
     Some (\<lparr>pr_Subject = sub, pr_Email = email, pr_Roles = roles\<rparr>, expiry)}"

definition Authenticate :: "(string \<Rightarrow> string) \<Rightarrow> gotime \<Rightarrow> string option \<Rightarrow> principal option" where
  "Authenticate mac now cookie =
     (case cookie of
        None \<Rightarrow> None
      | Some v \<Rightarrow>
          (case cut_at CHR ''.'' v of (body, sig, ok) \<Rightarrow>
             if \<not> ok \<or> sig \<noteq> macOf mac body then None
             else case Option.bind (RawURLEncoding_DecodeString body) (\<lambda>raw. Option.bind (jparse raw) dec_payload) of
                    None \<Rightarrow> None
                  | Some (p, expiry) \<Rightarrow> if now div second > expiry then None else Some p))"

definition isHTTPS :: "bool \<Rightarrow> (string \<Rightarrow> string) \<Rightarrow> bool" where
  "isHTTPS tls get \<longleftrightarrow> tls \<or> to_lower (get ''X-Forwarded-Proto'') = ''https''"

section \<open>Password sign-in\<close>

abbreviation loginMaxAttempts :: int where "loginMaxAttempts \<equiv> 10"
abbreviation loginLockout :: duration where "loginLockout \<equiv> 15 * minute"

text \<open>
  The counters behind the lockout: reading gives \<open>None\<close> for a missing counter and for an error,
  incrementing \<open>None\<close> for an error.
\<close>

record 's login_ops =
  lg_get :: "gotime \<Rightarrow> string \<Rightarrow> 's \<Rightarrow> int option"
  lg_incr :: "gotime \<Rightarrow> string \<Rightarrow> 's \<Rightarrow> int option \<times> 's"
  lg_expire :: "gotime \<Rightarrow> string \<Rightarrow> duration \<Rightarrow> 's \<Rightarrow> 's"
  lg_del :: "gotime \<Rightarrow> string \<Rightarrow> 's \<Rightarrow> 's"

definition loginFailKey :: "string \<Rightarrow> string" where
  "loginFailKey username = ''air:loginfail:'' @ to_lower username"

text \<open>A limiter without a client (\<open>None\<close>) never locks and records nothing.\<close>

definition Locked :: "'s login_ops option \<Rightarrow> gotime \<Rightarrow> string \<Rightarrow> 's \<Rightarrow> bool" where
  "Locked L now username s =
     (case L of None \<Rightarrow> False
      | Some ops \<Rightarrow> (case lg_get ops now (loginFailKey username) s of None \<Rightarrow> False | Some n \<Rightarrow> loginMaxAttempts \<le> n))"

definition RecordFailure :: "'s login_ops option \<Rightarrow> gotime \<Rightarrow> string \<Rightarrow> 's \<Rightarrow> 's" where
  "RecordFailure L now username s =
     (case L of None \<Rightarrow> s
      | Some ops \<Rightarrow>
          (case lg_incr ops now (loginFailKey username) s of
             (None, s1) \<Rightarrow> s1
           | (Some n, s1) \<Rightarrow> if n = 1 then lg_expire ops now (loginFailKey username) loginLockout s1 else s1))"

definition RecordSuccess :: "'s login_ops option \<Rightarrow> gotime \<Rightarrow> string \<Rightarrow> 's \<Rightarrow> 's" where
  "RecordSuccess L now username s = (case L of None \<Rightarrow> s | Some ops \<Rightarrow> lg_del ops now (loginFailKey username) s)"

text \<open>\<open>up\<close> tells whether the user store answers.\<close>

definition Login :: "(string \<Rightarrow> string \<Rightarrow> bool) \<Rightarrow> bool \<Rightarrow> db \<Rightarrow> string \<Rightarrow> string \<Rightarrow> principal option" where
  "Login compare up d username password =
     (case (if up then ByUsername username d else None) of
        None \<Rightarrow> None
      | Some u \<Rightarrow>
          if us_Disabled u \<or> \<not> CheckPassword compare (us_PasswordHash u) password then None
          else Some \<lparr>pr_Subject = us_Subject u, pr_Email = us_Email u, pr_Roles = us_Roles u\<rparr>)"

text \<open>The status, the session that is set, and the counters.\<close>

definition handleLogin ::
  "'s login_ops option \<Rightarrow> (string \<Rightarrow> string \<Rightarrow> bool) \<Rightarrow> bool \<Rightarrow> db \<Rightarrow> gotime \<Rightarrow> (string \<times> string) option \<Rightarrow> 's
     \<Rightarrow> int \<times> principal option \<times> 's" where
  "handleLogin L compare up d now body s =
     (case body of
        None \<Rightarrow> (400, None, s)
      | Some (username, password) \<Rightarrow>
          if Locked L now username s then (429, None, s)
          else case Login compare up d username password of
            None \<Rightarrow> (401, None, RecordFailure L now username s)
          | Some p \<Rightarrow> (200, Some p, RecordSuccess L now username s))"

section \<open>Single sign-on\<close>

text \<open>A claim as decoded JSON.\<close>

definition parseRoles :: "json option \<Rightarrow> string list" where
  "parseRoles claim =
     (case claim of
        Some (JArr xs) \<Rightarrow> concat (map (\<lambda>x. case x of JStr s \<Rightarrow> [s] | _ \<Rightarrow> []) xs)
      | Some (JObj ms) \<Rightarrow> remdups (map fst ms)
      | _ \<Rightarrow> [])"

definition applyRoleMap :: "string list \<Rightarrow> (string \<times> string) list \<Rightarrow> string list" where
  "applyRoleMap roles m = (if m = [] then roles else List.map_filter (map_of m) roles)"

record id_token =
  it_Subject :: string
  it_Nonce :: string
  it_Claims :: "(string \<Rightarrow> json option) option"

text \<open>
  The identity provider: the token for a code and a verifier (\<open>None\<close> if the exchange failed), and
  what the verifier makes of it.
\<close>

record sso_env =
  so_exchange :: "string \<Rightarrow> string \<Rightarrow> string option"
  so_verify :: "string \<Rightarrow> id_token option"
  so_rolesClaim :: string
  so_roleMap :: "(string \<times> string) list"

record callback =
  cb_state :: string
  cb_code :: string
  cb_cookie :: "string \<Rightarrow> string option"

definition cookie_val :: "string option \<Rightarrow> string" where
  "cookie_val c = (case c of None \<Rightarrow> [] | Some v \<Rightarrow> v)"

text \<open>The status of the answer, the session that is set, and the tables.\<close>

definition sso_Callback :: "sso_env \<Rightarrow> string \<Rightarrow> callback \<Rightarrow> db \<Rightarrow> int \<times> principal option \<times> db" where
  "sso_Callback S uid r d =
     (if cb_state r = [] \<or> cookie_val (cb_cookie r ''air_oidc_state'') \<noteq> cb_state r then (400, None, d)
      else case so_exchange S (cb_code r) (cookie_val (cb_cookie r ''air_oidc_pkce'')) of
        None \<Rightarrow> (502, None, d)
      | Some rawID \<Rightarrow>
          (case so_verify S rawID of
             None \<Rightarrow> (401, None, d)
           | Some idt \<Rightarrow>
               (let nonce = cookie_val (cb_cookie r ''air_oidc_nonce'') in
                if nonce = [] \<or> it_Nonce idt \<noteq> nonce then (401, None, d)
                else case it_Claims idt of
                  None \<Rightarrow> (401, None, d)
                | Some claims \<Rightarrow>
                    (let roles = applyRoleMap (parseRoles (claims (so_rolesClaim S))) (so_roleMap S);
                         email = (case claims ''email'' of Some (JStr s) \<Rightarrow> s | _ \<Rightarrow> []);
                         p = \<lparr>pr_Subject = it_Subject idt, pr_Email = email, pr_Roles = roles\<rparr>
                     in case UpsertOIDC uid (it_Subject idt) email roles d of
                          Inl conflict \<Rightarrow> (if conflict then 409 else 500, None, d)
                        | Inr d' \<Rightarrow> (302, Some p, d')))))"

section \<open>Cookies\<close>

lemma cut_dot:
  assumes "CHR ''.'' \<notin> set body"
  shows "cut_at CHR ''.'' (body @ ''.'' @ sig) = (body, sig, True)"
proof -
  have "takeWhile (\<lambda>x. x \<noteq> CHR ''.'') (body @ CHR ''.'' # sig) = body" "dropWhile (\<lambda>x. x \<noteq> CHR ''.'') (body @ CHR ''.'' # sig) = CHR ''.'' # sig"
    using assms by (induction body) auto
  then show ?thesis by (simp add: cut_at_def)
qed

lemma cut_rebuilt: "cut_at c s = (body, sig, True) \<Longrightarrow> s = body @ [c] @ sig \<and> c \<notin> set body"
proof (induction s arbitrary: body)
  case (Cons x s)
  then show ?case by (cases "x = c") (auto simp: cut_at_def)
qed (simp add: cut_at_def)

lemma url_no_dot: "CHR ''.'' \<notin> set (RawURLEncoding_EncodeToString s)"
proof -
  have "CHR ''.'' \<notin> set url_alphabet" by (simp add: url_alphabet_def letters_def)
  then show ?thesis using url_chars by fastforce
qed

lemma payload_read:
  assumes "in_int64 expiry"
  shows "dec_payload (payload_json p expiry) = Some (p, expiry)" and "json_ok (payload_json p expiry)"
proof -
  have t: "those (map (\<lambda>v. get_string (Some v)) (map JStr rs)) = Some rs" for rs
    using those_map [where f = "\<lambda>v. get_string (Some v)" and g = JStr and h = id and xs = rs] by (simp add: get_string_def)
  have g: "get_string (Some (JStr x)) = Some x" for x by (simp add: get_string_def)
  have n: "get_int (Some (jint expiry)) = Some expiry" using assms by simp
  have f: "field [(''sub'', a), (''email'', b), (''roles'', c), (''exp'', e)] ''sub'' = Some a"
    "field [(''sub'', a), (''email'', b), (''roles'', c), (''exp'', e)] ''email'' = Some b"
    "field [(''sub'', a), (''email'', b), (''roles'', c), (''exp'', e)] ''roles'' = Some c"
    "field [(''sub'', a), (''email'', b), (''roles'', c), (''exp'', e)] ''exp'' = Some e" for a b c e
    by (simp_all add: field_Cons fold_key_def lower_char_def is_upper_def char_code_def)
  show "dec_payload (payload_json p expiry) = Some (p, expiry)"
    by (simp add: dec_payload_def payload_json_def obj_members_def f n g t get_list_def del: map_map)
  show "json_ok (payload_json p expiry)" by (simp add: payload_json_def list_all_iff)
qed

text \<open>
  C23: A session cookie gives back the principal it was set for until twelve hours have passed,
  and not after; and no other cookie is accepted than one that carries, after its first dot, the keyed
  hash of the payload before it, with a payload that has not expired.
\<close>
theorem session_cookies:
  assumes "in_int64 ((t + sessionTTL) div second)"
  shows "Authenticate mac now (Some (SetSession mac t p)) = (if now div second \<le> (t + sessionTTL) div second then Some p else None)
    \<and> (\<forall>c q. Authenticate mac now c = Some q \<longrightarrow>
        (\<exists>body raw j expiry. c = Some (body @ ''.'' @ macOf mac body) \<and> RawURLEncoding_DecodeString body = Some raw
           \<and> jparse raw = Some j \<and> dec_payload j = Some (q, expiry) \<and> now div second \<le> expiry))"
proof
  let ?e = "(t + sessionTTL) div second"
  let ?body = "RawURLEncoding_EncodeToString (jprint (payload_json p ?e))"
  have "cut_at CHR ''.'' (SetSession mac t p) = (?body, macOf mac ?body, True)"
    unfolding SetSession_def sign_def Let_def by (rule cut_dot) (rule url_no_dot)
  moreover have "jparse (jprint (payload_json p ?e)) = Some (payload_json p ?e)" by (rule jparse_print) (rule payload_read(2) [OF assms])
  ultimately show "Authenticate mac now (Some (SetSession mac t p)) = (if now div second \<le> ?e then Some p else None)"
    using payload_read(1) [OF assms] by (simp add: Authenticate_def url_decode_encode del: jprint.simps)
  show "\<forall>c q. Authenticate mac now c = Some q \<longrightarrow>
        (\<exists>body raw j expiry. c = Some (body @ ''.'' @ macOf mac body) \<and> RawURLEncoding_DecodeString body = Some raw
           \<and> jparse raw = Some j \<and> dec_payload j = Some (q, expiry) \<and> now div second \<le> expiry)"
  proof (intro allI impI)
    fix c q assume a: "Authenticate mac now c = Some q"
    then obtain v where c: "c = Some v" by (cases c) (auto simp: Authenticate_def)
    obtain body sig ok where cut: "cut_at CHR ''.'' v = (body, sig, ok)" by (metis prod_cases3)
    have "ok \<and> sig = macOf mac body" using a by (auto simp: Authenticate_def c cut split: if_splits)
    moreover from this have "v = body @ ''.'' @ sig" using cut_rebuilt [of "CHR ''.''" v body sig] cut by simp
    moreover have "\<exists>raw j expiry. RawURLEncoding_DecodeString body = Some raw \<and> jparse raw = Some j \<and> dec_payload j = Some (q, expiry) \<and> now div second \<le> expiry"
      using a by (auto simp: Authenticate_def c cut bind_eq_Some_conv split: if_splits option.splits)
    ultimately show "\<exists>body raw j expiry. c = Some (body @ ''.'' @ macOf mac body) \<and> RawURLEncoding_DecodeString body = Some raw
           \<and> jparse raw = Some j \<and> dec_payload j = Some (q, expiry) \<and> now div second \<le> expiry" using c by blast
  qed
qed

theorem session_cookies_witness:
  "Authenticate (\<lambda>b. rev b) (11 * hour) (Some (SetSession (\<lambda>b. rev b) 0 \<lparr>pr_Subject = ''ann'', pr_Email = [], pr_Roles = [''r'']\<rparr>))
     = Some \<lparr>pr_Subject = ''ann'', pr_Email = [], pr_Roles = [''r'']\<rparr>"
proof -
  have "in_int64 ((0 + sessionTTL) div second)" by (simp add: in_int64_def)
  from session_cookies [OF this, of "\<lambda>b. rev b" "11 * hour"] show ?thesis by simp
qed

section \<open>Revocation\<close>

text \<open>What a lookup that has nothing cached answers.\<close>

lemma lookup_uncached:
  assumes "lc_entries c (apikey_Hash sha token) = None"
  shows "snd (lookupKey opts sha now now2 up d token c) = loadKey up d (apikey_Hash sha token)"
  using assms by (auto simp: lookupKey_def lc_get_def lc_begin_def lc_return_def Let_def split: sum.splits lc_error.splits)

lemma loadKey_found:
  assumes "loadKey up d h = Inr ak"
  shows "\<exists>k \<in> set (db_keys d). ky_Hash k = h \<and> ky_Status k = ''active'' \<and> owner_enabled d k
    \<and> ak = \<lparr>ak_KeyID = ky_ID k, ak_UserID = ky_UserID k, ak_Policy = ky_Policy k\<rparr>"
  using assms by (auto simp: loadKey_def find_Some_iff split: if_splits option.splits)


section \<open>Lockout\<close>

text \<open>What the counters' server promises: a counter with its expiry, gone once it has passed.\<close>

definition live_counter :: "gotime \<Rightarrow> (int \<times> gotime option) option \<Rightarrow> (int \<times> gotime option) option" where
  "live_counter now v = (case v of Some (n, Some e) \<Rightarrow> if now < e then v else None | _ \<Rightarrow> v)"

definition counter_server :: "'s login_ops \<Rightarrow> ('s \<Rightarrow> string \<rightharpoonup> int \<times> gotime option) \<Rightarrow> bool" where
  "counter_server ops view \<longleftrightarrow>
     (\<forall>now k s. lg_get ops now k s = map_option fst (live_counter now (view s k)))
     \<and> (\<forall>now k s. case live_counter now (view s k) of
          None \<Rightarrow> fst (lg_incr ops now k s) = Some 1 \<and> view (snd (lg_incr ops now k s)) = (view s)(k \<mapsto> (1, None))
        | Some (n, e) \<Rightarrow> fst (lg_incr ops now k s) = Some (n + 1) \<and> view (snd (lg_incr ops now k s)) = (view s)(k \<mapsto> (n + 1, e)))
     \<and> (\<forall>now k ttl s. view (lg_expire ops now k ttl s)
          = (view s)(k := map_option (\<lambda>(n, _). (n, Some (now + ttl))) (live_counter now (view s k))))
     \<and> (\<forall>now k s. view (lg_del ops now k s) = (view s)(k := None))"

text \<open>Attempts one after the other: when, under which name, with which password.\<close>

fun attempts ::
  "'s login_ops \<Rightarrow> (string \<Rightarrow> string \<Rightarrow> bool) \<Rightarrow> db \<Rightarrow> (gotime \<times> string \<times> string) list \<Rightarrow> 's \<Rightarrow> int list \<times> 's" where
  "attempts ops compare d [] s = ([], s)"
| "attempts ops compare d ((now, name, pw) # as) s =
     (case handleLogin (Some ops) compare True d now (Some (name, pw)) s of
        (code, _, s1) \<Rightarrow> (case attempts ops compare d as s1 of (codes, s2) \<Rightarrow> (code # codes, s2)))"

definition wrong :: "(string \<Rightarrow> string \<Rightarrow> bool) \<Rightarrow> db \<Rightarrow> gotime \<times> string \<times> string \<Rightarrow> bool" where
  "wrong compare d a = (case a of (_, name, pw) \<Rightarrow> Login compare True d name pw = None)"

lemma counting:
  assumes "counter_server ops view"
  shows "view s k = Some (n, Some e) \<Longrightarrow> now < e \<Longrightarrow> lg_get ops now k s = Some n"
    and "view s k = Some (n, Some e) \<Longrightarrow> now < e \<Longrightarrow> fst (lg_incr ops now k s) = Some (n + 1) \<and> view (snd (lg_incr ops now k s)) k = Some (n + 1, Some e)"
    and "view s k = None \<Longrightarrow> lg_get ops now k s = None"
    and "view s k = None \<Longrightarrow> fst (lg_incr ops now k s) = Some 1 \<and> view (snd (lg_incr ops now k s)) k = Some (1, None)"
    and "view s k = Some (n, None) \<Longrightarrow> view (lg_expire ops now k ttl s) k = Some (n, Some (now + ttl))"
proof -
  note c = assms [unfolded counter_server_def]
  have l: "live_counter now (Some (n, Some e)) = (if now < e then Some (n, Some e) else None)" "live_counter now None = None"
    "live_counter now (Some (n, None)) = Some (n, None)" for now n e by (simp_all add: live_counter_def)
  show "view s k = Some (n, Some e) \<Longrightarrow> now < e \<Longrightarrow> lg_get ops now k s = Some n"
    and "view s k = None \<Longrightarrow> lg_get ops now k s = None" using c by (simp_all add: l)
  have i: "case live_counter now (view s k) of
          None \<Rightarrow> fst (lg_incr ops now k s) = Some 1 \<and> view (snd (lg_incr ops now k s)) = (view s)(k \<mapsto> (1, None))
        | Some (n, e) \<Rightarrow> fst (lg_incr ops now k s) = Some (n + 1) \<and> view (snd (lg_incr ops now k s)) = (view s)(k \<mapsto> (n + 1, e))"
    using c by blast
  show "view s k = Some (n, Some e) \<Longrightarrow> now < e \<Longrightarrow> fst (lg_incr ops now k s) = Some (n + 1) \<and> view (snd (lg_incr ops now k s)) k = Some (n + 1, Some e)"
    and "view s k = None \<Longrightarrow> fst (lg_incr ops now k s) = Some 1 \<and> view (snd (lg_incr ops now k s)) k = Some (1, None)"
    using i by (simp_all add: l)
  show "view s k = Some (n, None) \<Longrightarrow> view (lg_expire ops now k ttl s) k = Some (n, Some (now + ttl))"
    using c by (simp add: l)
qed

lemma locked_run:
  assumes "counter_server ops view" and "view s k = Some (n, Some e)" and "loginMaxAttempts \<le> n"
    and "\<forall>(now, name, pw) \<in> set as. now < e \<and> loginFailKey name = k"
  shows "attempts ops compare d as s = (replicate (length as) 429, s)"
  using assms(4)
proof (induction as)
  case (Cons a as)
  obtain now name pw where a: "a = (now, name, pw)" by (metis prod_cases3)
  have "Locked (Some ops) now name s" using Cons.prems counting(1) [OF assms(1,2), of now] assms(3) by (simp add: a Locked_def)
  then show ?case using Cons by (simp add: a handleLogin_def)
qed simp

lemma failing_run:
  assumes "counter_server ops view" and "view s k = Some (int j, Some e)" and "1 \<le> j" and "j \<le> 10"
    and "\<forall>(now, name, pw) \<in> set as. now < e \<and> loginFailKey name = k" and "list_all (wrong compare d) (take (10 - j) as)"
  shows "fst (attempts ops compare d as s) = replicate (min (length as) (10 - j)) 401 @ replicate (length as - (10 - j)) 429
    \<and> (\<exists>n. view (snd (attempts ops compare d as s)) k = Some (n, Some e))"
  using assms(2-)
proof (induction as arbitrary: s j)
  case (Cons a as)
  obtain now name pw where a: "a = (now, name, pw)" by (metis prod_cases3)
  have t: "now < e" "loginFailKey name = k" using Cons.prems(4) by (simp_all add: a)
  show ?case
  proof (cases "j = 10")
    case True
    have "attempts ops compare d (a # as) s = (replicate (length (a # as)) 429, s)"
      by (rule locked_run [OF assms(1) Cons.prems(1) _ Cons.prems(4)]) (simp add: True)
    then show ?thesis using True Cons.prems(1) by simp
  next
    case False
    then have j: "j < 10" using Cons.prems(3) by simp
    then obtain m where m: "10 - j = Suc m" by (metis Suc_diff_Suc)
    have nl: "\<not> Locked (Some ops) now name s" using counting(1) [OF assms(1) Cons.prems(1) t(1)] j by (simp add: Locked_def t)
    have w: "Login compare True d name pw = None" using Cons.prems(5) by (simp add: m a wrong_def)
    let ?s1 = "RecordFailure (Some ops) now name s"
    have inc: "fst (lg_incr ops now k s) = Some (int j + 1)" "view (snd (lg_incr ops now k s)) k = Some (int j + 1, Some e)"
      using counting(2) [OF assms(1) Cons.prems(1) t(1)] by simp_all
    have v1: "view ?s1 k = Some (int (Suc j), Some e)"
      using inc Cons.prems(2) by (cases "lg_incr ops now k s") (simp add: RecordFailure_def t add.commute)
    have IH: "fst (attempts ops compare d as ?s1) = replicate (min (length as) (10 - Suc j)) 401 @ replicate (length as - (10 - Suc j)) 429
        \<and> (\<exists>n. view (snd (attempts ops compare d as ?s1)) k = Some (n, Some e))"
    proof (rule Cons.IH [OF v1])
      have "10 - Suc j = m" using m by simp
      then show "list_all (wrong compare d) (take (10 - Suc j) as)" using Cons.prems(5) by (simp add: m a)
    qed (use Cons.prems(4) j in auto)
    have "attempts ops compare d (a # as) s = (401 # fst (attempts ops compare d as ?s1), snd (attempts ops compare d as ?s1))"
      using nl w by (simp add: a handleLogin_def split: prod.splits)
    then show ?thesis using IH m j by (simp add: Suc_diff_Suc [symmetric])
  qed
qed (simp)

text \<open>
  C25: A guesser gets ten tries a quarter of an hour per name: from the first failure on, the
  attempts under a name, whatever its case, that come within fifteen minutes are ten refusals and then
  only lockouts, whatever password they bring; after the fifteen minutes the name is free again.
\<close>
theorem login_lockout:
  assumes "counter_server ops view" and "view s (loginFailKey name0) = None"
    and "as = (t0, name0, pw0) # rest"
    and "\<forall>(now, name, pw) \<in> set as. now < t0 + loginLockout \<and> to_lower name = to_lower name0"
    and "list_all (wrong compare d) (take 10 as)"
  shows "fst (attempts ops compare d as s) = replicate (min (length as) 10) 401 @ replicate (length as - 10) 429
    \<and> \<not> Locked (Some ops) (t0 + loginLockout) name0 (snd (attempts ops compare d as s))"
proof -
  let ?k = "loginFailKey name0" and ?e = "t0 + loginLockout"
  have nl: "\<not> Locked (Some ops) t0 name0 s" using counting(3) [OF assms(1,2)] by (simp add: Locked_def)
  have w: "Login compare True d name0 pw0 = None" using assms(5) by (simp add: assms(3) wrong_def)
  let ?s1 = "RecordFailure (Some ops) t0 name0 s"
  have inc: "fst (lg_incr ops t0 ?k s) = Some 1" "view (snd (lg_incr ops t0 ?k s)) ?k = Some (1, None)"
    using counting(4) [OF assms(1,2)] by simp_all
  have v1: "view ?s1 ?k = Some (int 1, Some ?e)"
    using inc counting(5) [OF assms(1) inc(2), of t0 loginLockout] by (cases "lg_incr ops t0 ?k s") (simp add: RecordFailure_def)
  have keys: "\<forall>(now, name, pw) \<in> set rest. now < ?e \<and> loginFailKey name = ?k"
    using assms(4) unfolding assms(3) loginFailKey_def by auto
  have f: "fst (attempts ops compare d rest ?s1) = replicate (min (length rest) (10 - 1)) 401 @ replicate (length rest - (10 - 1)) 429
      \<and> (\<exists>n. view (snd (attempts ops compare d rest ?s1)) ?k = Some (n, Some ?e))"
    by (rule failing_run [OF assms(1) v1 _ _ keys]) (use assms(5) in \<open>simp_all add: assms(3)\<close>)
  have r: "attempts ops compare d as s = (401 # fst (attempts ops compare d rest ?s1), snd (attempts ops compare d rest ?s1))"
    using nl w by (simp add: assms(3) handleLogin_def split: prod.splits)
  obtain n where n: "view (snd (attempts ops compare d rest ?s1)) ?k = Some (n, Some ?e)" using f by blast
  have "lg_get ops ?e ?k (snd (attempts ops compare d rest ?s1)) = None"
    using assms(1) n by (simp add: counter_server_def live_counter_def)
  moreover have "length as = Suc (length rest)" "replicate 10 (401 :: int) = 401 # replicate 9 401" by (simp_all add: assms(3) eval_nat_numeral)
  ultimately show ?thesis using f unfolding r fst_conv snd_conv by (auto simp: Locked_def min_def)
qed

section \<open>Single sign-on sessions\<close>

lemma upsert_result:
  assumes "db_ok d" and "coherent d" and "uid \<notin> us_ID ` set (db_users d)" and "UpsertOIDC uid sub email roles d = Inr d'"
  shows "(\<forall>u \<in> set (db_users d). us_Subject u = sub \<longrightarrow> us_AuthSource u = ''oidc'')
    \<and> (\<exists>v \<in> set (db_users d'). us_Subject v = sub \<and> us_Roles v = roles \<and> us_AuthSource v = ''oidc'')"
proof (cases "find (\<lambda>u. us_Subject u = sub) (db_users d)")
  case None
  let ?u = "\<lparr>us_ID = uid, us_Subject = sub, us_Email = email, us_Display = sub, us_Roles = roles, us_PasswordHash = [],
                    us_Disabled = False, us_AuthSource = ''oidc''\<rparr>"
  have "RebuildKeySnapshotsUser uid (d\<lparr>db_users := db_users d @ [?u]\<rparr>) = Some d'"
    using assms(4) None by (simp add: UpsertOIDC_def Let_def split: option.splits)
  then have "db_users d' = db_users d @ [?u]" by (auto simp: RebuildKeySnapshotsUser_def split: option.splits)
  moreover have "\<forall>u \<in> set (db_users d). us_Subject u \<noteq> sub" using None by (auto simp: find_None_iff)
  ultimately show ?thesis by auto
next
  case (Some u)
  then have u: "u \<in> set (db_users d)" "us_Subject u = sub" by (auto simp: find_Some_iff)
  let ?f = "\<lambda>u. u\<lparr>us_Email := email, us_Roles := roles\<rparr>"
  have o: "us_AuthSource u = ''oidc''" "RebuildKeySnapshotsUser (us_ID u) (map_user (us_ID u) ?f d) = Some d'"
    using assms(4) Some by (auto simp: UpsertOIDC_def split: if_splits option.splits)
  have d': "db_users d' = map (\<lambda>v. if us_ID v = us_ID u then ?f v else v) (db_users d)"
    using update_user_ok [OF assms(1,2) o(2)] by simp
  have "?f u \<in> set (db_users d')" unfolding d' set_map using u(1) by (intro image_eqI [of _ _ u]) simp_all
  then have "\<exists>v \<in> set (db_users d'). us_Subject v = sub \<and> us_Roles v = roles \<and> us_AuthSource v = ''oidc''"
    using u o(1) by (intro bexI [of _ "?f u"]) simp_all
  moreover have "v = u" if "v \<in> set (db_users d)" "us_Subject v = sub" for v
    using assms(1) u that inj_onD [of us_Subject "set (db_users d)" v u] by (simp add: db_ok_def distinct_map)
  ultimately show ?thesis using o(1) by blast
qed

text \<open>
  C29: A single sign-on sets a session only for a callback that carries the state this browser
  was sent away with, whose code the identity provider exchanged for a token that was verified and that
  carries this browser's nonce, and never for a subject that belongs to a local user. The session's
  roles are the claim's, through the role map where there is one, and the user's row has them too.
\<close>
theorem sso_session_verified:
  assumes "db_ok d" and "coherent d" and "uid \<notin> us_ID ` set (db_users d)" and "sso_Callback S uid r d = (code, Some p, d')"
  shows "code = 302 \<and> cb_state r \<noteq> [] \<and> cb_cookie r ''air_oidc_state'' = Some (cb_state r)
    \<and> (\<exists>rawID idt claims. so_exchange S (cb_code r) (cookie_val (cb_cookie r ''air_oidc_pkce'')) = Some rawID
        \<and> so_verify S rawID = Some idt \<and> it_Nonce idt \<noteq> [] \<and> cb_cookie r ''air_oidc_nonce'' = Some (it_Nonce idt)
        \<and> it_Claims idt = Some claims \<and> pr_Subject p = it_Subject idt
        \<and> pr_Roles p = applyRoleMap (parseRoles (claims (so_rolesClaim S))) (so_roleMap S))
    \<and> (so_roleMap S \<noteq> [] \<longrightarrow> set (pr_Roles p) \<subseteq> snd ` set (so_roleMap S))
    \<and> (\<forall>u \<in> set (db_users d). us_Subject u = pr_Subject p \<longrightarrow> us_AuthSource u = ''oidc'')
    \<and> (\<exists>v \<in> set (db_users d'). us_Subject v = pr_Subject p \<and> us_Roles v = pr_Roles p)"
proof -
  have st: "cb_state r \<noteq> []" "cookie_val (cb_cookie r ''air_oidc_state'') = cb_state r"
    using assms(4) by (auto simp: sso_Callback_def split: if_splits)
  obtain rawID idt claims where x: "so_exchange S (cb_code r) (cookie_val (cb_cookie r ''air_oidc_pkce'')) = Some rawID"
    "so_verify S rawID = Some idt" "it_Nonce idt \<noteq> []" "cookie_val (cb_cookie r ''air_oidc_nonce'') = it_Nonce idt" "it_Claims idt = Some claims"
    using assms(4) by (auto simp: sso_Callback_def Let_def split: if_splits option.splits)
  define roles where "roles = applyRoleMap (parseRoles (claims (so_rolesClaim S))) (so_roleMap S)"
  define email where "email = (case claims ''email'' of Some (JStr s) \<Rightarrow> s | _ \<Rightarrow> [])"
  have res: "code = 302" "p = \<lparr>pr_Subject = it_Subject idt, pr_Email = email, pr_Roles = roles\<rparr>"
    "UpsertOIDC uid (it_Subject idt) email roles d = Inr d'"
    using assms(4) st x unfolding sso_Callback_def Let_def roles_def [symmetric] email_def [symmetric]
    by (auto simp: roles_def [symmetric] email_def [symmetric] split: sum.splits if_splits)
  have cv: "cb_cookie r n = Some v" if "cookie_val (cb_cookie r n) = v" "v \<noteq> []" for n v
    using that by (auto simp: cookie_val_def split: option.splits)
  have sub: "set roles \<subseteq> snd ` set (so_roleMap S)" if "so_roleMap S \<noteq> []"
    using that by (force simp: roles_def applyRoleMap_def map_filter_def dest: map_of_SomeD)
  show ?thesis using res(1) st(1) cv [OF st(2,1)] cv [OF x(4,3)] x sub upsert_result [OF assms(1,2,3) res(3)] unfolding res(2)
    by (auto simp: roles_def [symmetric])
qed

section \<open>Random keys\<close>

lemma letters_facts: "length letters = 62" "distinct letters" "maxUnbiasedByte = 248"
  by (simp_all add: letters_def maxUnbiasedByte_def)

lemma take_chars_spec:
  "length out \<le> n \<Longrightarrow> length (take_chars n bs out) = min n (length out + length (filter (\<lambda>b. unbiasedChar b \<noteq> None) bs))
     \<and> set (take_chars n bs out) \<subseteq> set out \<union> set letters"
proof (induction n bs out rule: take_chars.induct)
  case (2 n b bs out)
  show ?case
  proof (cases "length out = n")
    case False
    have "letters ! (b mod 62) \<in> set letters" by (rule nth_mem) (simp add: letters_facts)
    then have c: "unbiasedChar b = Some c \<Longrightarrow> c \<in> set letters" for c by (auto simp: unbiasedChar_def letters_facts split: if_splits)
    show ?thesis using 2 False c by (cases "unbiasedChar b") auto
  qed simp
qed simp

lemma randString_spec:
  "length out \<le> n \<Longrightarrow> set out \<subseteq> set letters \<Longrightarrow> randString n blocks out = Some (Inr tail) \<Longrightarrow> length tail = n \<and> set tail \<subseteq> set letters"
proof (induction n blocks out rule: randString.induct)
  case (2 n block rest out)
  show ?case
  proof (cases "n \<le> length out")
    case False
    then obtain bs where b: "block = Some bs" using 2 by (auto split: option.splits)
    have "length (take_chars n bs out) \<le> n" "set (take_chars n bs out) \<subseteq> set letters"
      using take_chars_spec [OF 2(2), of bs] 2(3) by auto
    then show ?thesis using 2(1) [OF False b] 2(4) False b by simp
  qed (use 2 in auto)
qed (auto split: if_splits)

lemma randString_returns:
  "list_all (\<lambda>b. case b of None \<Rightarrow> False | Some bs \<Rightarrow> list_ex (\<lambda>x. unbiasedChar x \<noteq> None) bs) blocks
     \<Longrightarrow> length out \<le> n \<Longrightarrow> n \<le> length out + length blocks \<Longrightarrow> \<exists>tail. randString n blocks out = Some (Inr tail)"
proof (induction n blocks out rule: randString.induct)
  case (2 n block rest out)
  show ?case
  proof (cases "n \<le> length out")
    case False
    obtain bs where b: "block = Some bs" "list_ex (\<lambda>x. unbiasedChar x \<noteq> None) bs" using 2 by (auto split: option.splits)
    then have "filter (\<lambda>x. unbiasedChar x \<noteq> None) bs \<noteq> []" by (auto simp: list_ex_iff filter_empty_conv)
    then have "0 < length (filter (\<lambda>x. unbiasedChar x \<noteq> None) bs)" by simp
    then obtain q where q: "length (filter (\<lambda>x. unbiasedChar x \<noteq> None) bs) = Suc q" by (metis gr0_implies_Suc)
    have "length (take_chars n bs out) = min n (length out + Suc q)" using take_chars_spec [OF 2(3), of bs] unfolding q by blast
    then have l: "length (take_chars n bs out) \<le> n" "n \<le> length (take_chars n bs out) + length rest" using 2(4) by auto
    then show ?thesis using 2(1) [OF False b(1)] 2(2) b(1) False by simp
  qed simp
qed simp

text \<open>
  A key's secret is forty letters and digits, drawn without bias: every one of the 62
  characters is what exactly four of the 256 byte values become, and the other eight bytes are drawn
  again. It is found as soon as forty blocks of random bytes have had a usable byte each.
\<close>
theorem key_secrets_unbiased:
  assumes "c \<in> set letters" and "Generate sha envTag blocks = Some (Inr k)"
  shows "card {b. b < 256 \<and> unbiasedChar b = Some c} = 4
    \<and> (\<exists>tail. gk_Token k = ''air_'' @ envTag @ ''_'' @ tail \<and> length tail = secretLen \<and> set tail \<subseteq> set letters)
    \<and> gk_Hash k = apikey_Hash sha (gk_Token k)
    \<and> (length blocks' = secretLen \<and> list_all (\<lambda>b. case b of None \<Rightarrow> False | Some bs \<Rightarrow> list_ex (\<lambda>x. unbiasedChar x \<noteq> None) bs) blocks'
        \<longrightarrow> (\<exists>k'. Generate sha envTag blocks' = Some (Inr k')))"
proof (intro conjI impI)
  obtain i where i: "i < 62" "letters ! i = c" using assms(1) letters_facts by (metis in_set_conv_nth)
  have "{b. b < 256 \<and> unbiasedChar b = Some c} = {i, i + 62, i + 62 + 62, i + 62 + 62 + 62}"
  proof -
    have u: "unbiasedChar b = Some c \<longleftrightarrow> b < 248 \<and> b mod 62 = i" for b
      using i letters_facts(2) nth_eq_iff_index_eq [of letters "b mod 62" i] by (auto simp: unbiasedChar_def letters_facts)
    have four: "b < 248 \<and> b mod 62 = i \<longleftrightarrow> b \<in> {i, i + 62, i + 62 + 62, i + 62 + 62 + 62}" for b
    proof
      assume b: "b < 248 \<and> b mod 62 = i"
      then have "b div 62 = 0 \<or> b div 62 = 1 \<or> b div 62 = 2 \<or> b div 62 = 3" by auto
      then show "b \<in> {i, i + 62, i + 62 + 62, i + 62 + 62 + 62}" using div_mult_mod_eq [of b 62] b by auto
    next
      assume "b \<in> {i, i + 62, i + 62 + 62, i + 62 + 62 + 62}"
      then have "b mod 62 = i" unfolding insert_iff empty_iff
        by (elim disjE FalseE) (simp_all only: mod_add_self2 mod_less [OF i(1)])
      moreover have "b < 248" using i(1) \<open>b \<in> _\<close> by auto
      ultimately show "b < 248 \<and> b mod 62 = i" by blast
    qed
    have "b < 256 \<and> b < 248 \<and> b mod 62 = i \<longleftrightarrow> b < 248 \<and> b mod 62 = i" for b by linarith
    then show ?thesis unfolding u four by blast
  qed
  then show "card {b. b < 256 \<and> unbiasedChar b = Some c} = 4" by simp
  obtain tail where r: "randString secretLen blocks [] = Some (Inr tail)" "k = Describe sha (''air_'' @ envTag @ ''_'' @ tail)"
    using assms(2) by (cases "randString secretLen blocks []") (auto simp: Generate_def map_sum_def split: sum.splits)
  then show "\<exists>tail. gk_Token k = ''air_'' @ envTag @ ''_'' @ tail \<and> length tail = secretLen \<and> set tail \<subseteq> set letters"
    using randString_spec [of "[]" secretLen blocks tail] by (auto simp: Describe_def)
  show "gk_Hash k = apikey_Hash sha (gk_Token k)" by (simp add: r(2) Describe_def)
  assume "length blocks' = secretLen \<and> list_all (\<lambda>b. case b of None \<Rightarrow> False | Some bs \<Rightarrow> list_ex (\<lambda>x. unbiasedChar x \<noteq> None) bs) blocks'"
  then obtain s' where "randString secretLen blocks' [] = Some (Inr s')" using randString_returns [of blocks' "[]" secretLen] by auto
  then show "\<exists>k'. Generate sha envTag blocks' = Some (Inr k')" by (simp add: Generate_def)
qed

section \<open>Example\<close>

definition mem_counters :: "(string \<rightharpoonup> int \<times> gotime option) login_ops" where
  "mem_counters =
     \<lparr>lg_get = (\<lambda>now k s. map_option fst (live_counter now (s k))),
      lg_incr = (\<lambda>now k s. case live_counter now (s k) of
        None \<Rightarrow> (Some 1, s(k \<mapsto> (1, None))) | Some (n, e) \<Rightarrow> (Some (n + 1), s(k \<mapsto> (n + 1, e)))),
      lg_expire = (\<lambda>now k ttl s. s(k := map_option (\<lambda>(n, _). (n, Some (now + ttl))) (live_counter now (s k)))),
      lg_del = (\<lambda>now k s. s(k := None))\<rparr>"

lemma mem_counters_ok: "counter_server mem_counters (\<lambda>s. s)"
  unfolding counter_server_def mem_counters_def by (intro conjI allI) (simp_all split: option.split prod.split)

theorem login_lockout_witness:
  "fst (attempts mem_counters (=) demo_tables (replicate 12 (0, ''Root'', ''guess'')) Map.empty) = replicate 10 401 @ [429, 429]"
proof -
  let ?as = "replicate 12 (0 :: int, ''Root'', ''guess'')"
  have r: "?as = (0, ''Root'', ''guess'') # replicate 11 (0, ''Root'', ''guess'')" by (simp add: eval_nat_numeral)
  have "wrong (=) demo_tables (0 :: int, ''Root'', ''guess'')" by code_simp
  then have w: "list_all (wrong (=) demo_tables) (take 10 ?as)" by (simp add: list_all_iff)
  have "\<forall>a \<in> set ?as. a = (0, ''Root'', ''guess'')" by simp
  then have "\<forall>(now, name, pw) \<in> set ?as. now < 0 + loginLockout \<and> to_lower name = to_lower ''Root''" by fastforce
  from login_lockout [where s = Map.empty, OF mem_counters_ok _ r this w] refl
  have "fst (attempts mem_counters (=) demo_tables ?as Map.empty) = replicate (min (length ?as) 10) 401 @ replicate (length ?as - 10) 429" by metis
  then show ?thesis by (simp add: eval_nat_numeral)
qed

definition demo_key_row :: key_row where
  "demo_key_row = \<lparr>ky_ID = ''k1'', ky_UserID = ''1'', ky_Name = ''n'', ky_Hash = apikey_Hash (\<lambda>t. t) ''tok'', ky_Prefix = [], ky_Last4 = [],
     ky_Policy = zero_policy, ky_Status = ''active''\<rparr>"

definition demo_headers :: "string \<Rightarrow> string" where
  "demo_headers h = (if h = ''Authorization'' then ''bearer tok'' else [])"

text \<open>The cache after the key was used once.\<close>

definition demo_cached :: "authedKey lcache" where
  "demo_cached = snd (requireAPIKey \<lparr>opt_ttl = second, opt_max_stale = minute\<rparr> (\<lambda>t. t) 0 0 True (demo_tables\<lparr>db_keys := [demo_key_row]\<rparr>) demo_headers lc_new)"


definition demo_sso :: sso_env where
  "demo_sso = \<lparr>so_exchange = (\<lambda>code verifier. if code = ''c'' \<and> verifier = ''v'' then Some ''t'' else None),
     so_verify = (\<lambda>t. Some \<lparr>it_Subject = ''sam'', it_Nonce = ''n'', it_Claims = Some [''roles'' \<mapsto> JArr [JStr ''ops'', JStr ''dev'']]\<rparr>),
     so_rolesClaim = ''roles'', so_roleMap = [(''ops'', AdminRole)]\<rparr>"

definition demo_callback :: callback where
  "demo_callback = \<lparr>cb_state = ''s'', cb_code = ''c'',
     cb_cookie = [''air_oidc_state'' \<mapsto> ''s'', ''air_oidc_nonce'' \<mapsto> ''n'', ''air_oidc_pkce'' \<mapsto> ''v'']\<rparr>"

theorem sso_session_verified_witness:
  "\<exists>p d'. sso_Callback demo_sso ''7'' demo_callback demo_tables = (302, Some p, d') \<and> set (pr_Roles p) \<subseteq> {AdminRole}
     \<and> (\<exists>v \<in> set (db_users d'). us_Subject v = pr_Subject p \<and> us_Roles v = pr_Roles p)"
proof -
  have "\<exists>p d'. sso_Callback demo_sso ''7'' demo_callback demo_tables = (302, Some p, d')"
    by (simp add: sso_Callback_def demo_sso_def demo_callback_def cookie_val_def Let_def UpsertOIDC_def demo_tables_def demo_admin_def
        demo_user_def RebuildKeySnapshotsUser_def user_by_id_def)
  then obtain p d' where c: "sso_Callback demo_sso ''7'' demo_callback demo_tables = (302, Some p, d')" by blast
  have "''7'' \<notin> us_ID ` set (db_users demo_tables)" by (simp add: demo_tables_def demo_admin_def demo_user_def)
  from sso_session_verified [OF demo_tables_ok(1,2) this c] c show ?thesis by (auto simp: demo_sso_def)
qed

theorem key_secrets_unbiased_witness:
  "card {b. b < 256 \<and> unbiasedChar b = Some CHR ''A''} = 4 \<and> (\<exists>k. Generate (\<lambda>t. t) ''dev'' [Some (replicate 64 7)] = Some (Inr k))"
proof -
  have "take_chars 40 (replicate 64 7) [] = replicate 40 (CHR ''H'')" by code_simp
  then have "randString secretLen [Some (replicate 64 7)] [] = Some (Inr (replicate 40 (CHR ''H'')))" by simp
  then obtain k where g: "Generate (\<lambda>t. t) ''dev'' [Some (replicate 64 7)] = Some (Inr k)" by (simp add: Generate_def)
  have "CHR ''A'' \<in> set letters" by (simp add: letters_def)
  from key_secrets_unbiased [OF this g] g show ?thesis by blast
qed

end
