(* ===== verification/CatalogStore.thy ===== *)
theory CatalogStore
  imports Routing Registry Pricing Access ProviderClient
begin

text \<open>
  The provider and alias tables under administration (\<open>internal/httpapi/api_admin.go\<close>), the registry
  built from the provider rows (\<open>internal/providers\<close>: \<open>registry_load.go\<close>, \<open>vertex_config.go\<close>,
  \<open>vertex_token.go\<close>) and the refresh that keeps what a replica holds in memory in step with the
  database (\<open>internal/httpapi/config_refresh.go\<close>). The sealer, Google's credential resolution, SHA-256
  and PostgreSQL's \<open>jsonb\<close> cast are parameters.
\<close>

section \<open>Provider configuration\<close>

record googleCloudConfig =
  gc_Project :: string
  gc_Location :: string

abbreviation vertexGlobalLocation :: string where "vertexGlobalLocation \<equiv> ''global''"
abbreviation vertexAPIHost :: string where "vertexAPIHost \<equiv> ''aiplatform.googleapis.com''"
abbreviation KindGoogleSpeech :: string where "KindGoogleSpeech \<equiv> ''google-speech''"
abbreviation KindGoogleTTS :: string where "KindGoogleTTS \<equiv> ''google-tts''"

definition parseGoogleCloudConfig :: "string \<Rightarrow> string + googleCloudConfig" where
  "parseGoogleCloudConfig raw =
     (if trim_space raw = [] then Inr \<lparr>gc_Project = [], gc_Location = []\<rparr>
      else case do {j \<leftarrow> jparse raw; ms \<leftarrow> obj_members j; p \<leftarrow> get_string (field ms ''project''); l \<leftarrow> get_string (field ms ''location''); Some (p, l)} of
             None \<Rightarrow> Inl ''parse provider config''
           | Some (p, l) \<Rightarrow> Inr \<lparr>gc_Project = trim_space p, gc_Location = trim_space l\<rparr>)"

definition validateVertexConfig :: "string \<Rightarrow> googleCloudConfig \<Rightarrow> string option" where
  "validateVertexConfig baseURL cfg =
     (if gc_Project cfg = [] \<and> baseURL = [] then Some ''vertex provider needs a cloud project (or an explicit base_url)'' else None)"

definition validateGoogleSpeechConfig :: "googleCloudConfig \<Rightarrow> string option" where
  "validateGoogleSpeechConfig cfg = (if gc_Project cfg = [] then Some ''google-speech provider needs a cloud project'' else None)"

definition validateGoogleTTSConfig :: "googleCloudConfig \<Rightarrow> string option" where
  "validateGoogleTTSConfig cfg = (if gc_Project cfg = [] then Some ''google-tts provider needs a cloud project'' else None)"

text \<open>\<open>None\<close> accepts.\<close>

definition ValidateProviderConfig :: "string \<Rightarrow> string \<Rightarrow> string \<Rightarrow> string option" where
  "ValidateProviderConfig kind raw baseURL =
     (let check = (\<lambda>validate. case parseGoogleCloudConfig raw of Inl e \<Rightarrow> Some e | Inr cfg \<Rightarrow> validate cfg) in
      if kind = ''vertex'' then check (validateVertexConfig baseURL)
      else if kind = KindGoogleSpeech then check validateGoogleSpeechConfig
      else if kind = KindGoogleTTS then check validateGoogleTTSConfig
      else None)"

definition location :: "googleCloudConfig \<Rightarrow> string" where
  "location cfg = (if gc_Location cfg = [] then vertexGlobalLocation else gc_Location cfg)"

definition vertexBaseURL :: "googleCloudConfig \<Rightarrow> string \<Rightarrow> string" where
  "vertexBaseURL cfg explicit =
     (if explicit \<noteq> [] then trim_right (\<lambda>c. c = CHR ''/'') explicit
      else let loc = location cfg; host = (if loc \<noteq> vertexGlobalLocation then loc @ ''-'' @ vertexAPIHost else vertexAPIHost)
           in ''https://'' @ host @ ''/v1/projects/'' @ gc_Project cfg @ ''/locations/'' @ loc @ ''/endpoints/openapi'')"

definition googleSpeechBaseURL :: "googleCloudConfig \<Rightarrow> string \<Rightarrow> string" where
  "googleSpeechBaseURL cfg explicit =
     (if explicit \<noteq> [] then trim_right (\<lambda>c. c = CHR ''/'') explicit
      else if location cfg \<noteq> vertexGlobalLocation then ''https://'' @ location cfg @ ''-speech.googleapis.com''
      else ''https://speech.googleapis.com'')"

definition googleTTSBaseURL :: "googleCloudConfig \<Rightarrow> string \<Rightarrow> string" where
  "googleTTSBaseURL cfg explicit =
     (if explicit \<noteq> [] then trim_right (\<lambda>c. c = CHR ''/'') explicit
      else if location cfg \<noteq> vertexGlobalLocation then ''https://'' @ location cfg @ ''-texttospeech.googleapis.com''
      else ''https://texttospeech.googleapis.com'')"

section \<open>Tables\<close>

record provider_row =
  pv_Name :: string
  pv_Kind :: string
  pv_BaseURL :: string
  pv_Enabled :: bool
  pv_MaxConcurrency :: int
  pv_Config :: string
  pv_CredEnc :: "string option"

record aliasTarget =
  at_Priority :: int
  at_Provider :: string
  at_UpstreamModel :: string
  at_DisplayLabel :: string
  at_Options :: string

text \<open>Providers by name, aliases with their protocol, targets with the alias they belong to.\<close>

record catalog_db =
  cd_providers :: "provider_row list"
  cd_aliases :: "(string \<times> string \<times> alias_row) list"
  cd_targets :: "(string \<times> aliasTarget) list"

text \<open>The columns \<open>priority\<close> and \<open>max_concurrency\<close> are 32 bits wide; \<open>jsonb\<close> is the cast to JSON as text reads it back.\<close>

abbreviation in_int32 :: "int \<Rightarrow> bool" where "in_int32 n \<equiv> - (2 ^ 31) \<le> n \<and> n < 2 ^ 31"

definition provider_by_name :: "catalog_db \<Rightarrow> string \<Rightarrow> provider_row option" where
  "provider_by_name d name = find (\<lambda>p. pv_Name p = name) (cd_providers d)"

datatype credentialChange = credentialKept | credentialSet | credentialCleared

definition credentialToStore :: "string \<Rightarrow> string \<Rightarrow> bool \<Rightarrow> string + (string \<times> credentialChange)" where
  "credentialToStore apiKey credentialJSON clear =
     (if apiKey \<noteq> [] \<and> credentialJSON \<noteq> [] then Inl ''set api_key or credential_json, not both''
      else let cred = (if credentialJSON \<noteq> [] then credentialJSON else apiKey) in
           if clear \<and> cred \<noteq> [] then Inl ''set a credential or clear_credential, not both''
           else if clear then Inr ([], credentialCleared)
           else if cred \<noteq> [] then Inr (cred, credentialSet)
           else Inr ([], credentialKept))"

definition providerConfigToStore :: "string \<Rightarrow> string \<Rightarrow> string \<Rightarrow> string \<Rightarrow> string + string" where
  "providerConfigToStore kind supplied stored baseURL =
     (let c0 = trim_space supplied;
          c1 = (if c0 = [] \<or> c0 = ''null'' then trim_space stored else c0);
          config = (if c1 = [] then ''{}'' else c1)
      in case ValidateProviderConfig kind config baseURL of Some e \<Rightarrow> Inl e | None \<Rightarrow> Inr config)"

record provider_body =
  pb_Kind :: string
  pb_BaseURL :: string
  pb_Enabled :: bool
  pb_MaxConcurrency :: int
  pb_Config :: string
  pb_APIKey :: string
  pb_CredentialJSON :: string
  pb_ClearCredential :: bool

text \<open>The statement of a save: a new row, or the old one with its credential replaced, kept or removed.\<close>

definition upsert_provider :: "provider_row \<Rightarrow> bool \<Rightarrow> catalog_db \<Rightarrow> catalog_db" where
  "upsert_provider row cleared d =
     (case provider_by_name d (pv_Name row) of
        None \<Rightarrow> d\<lparr>cd_providers := cd_providers d @ [row]\<rparr>
      | Some _ \<Rightarrow>
          d\<lparr>cd_providers := map (\<lambda>p. if pv_Name p = pv_Name row
              then row\<lparr>pv_CredEnc := (if cleared then None else case pv_CredEnc row of None \<Rightarrow> pv_CredEnc p | Some c \<Rightarrow> Some c)\<rparr>
              else p) (cd_providers d)\<rparr>)"

text \<open>The checks of a save and its transaction.\<close>

definition save_provider ::
  "(string \<Rightarrow> string option) \<Rightarrow> (string \<Rightarrow> string option) \<Rightarrow> string \<Rightarrow> provider_body option \<Rightarrow> catalog_db \<Rightarrow> int \<times> catalog_db" where
  "save_provider jsonb seal name body d =
     (case body of
        None \<Rightarrow> (400, d)
      | Some b \<Rightarrow>
          if pb_Kind b = [] \<or> pb_MaxConcurrency b < 0 then (400, d)
          else case credentialToStore (pb_APIKey b) (pb_CredentialJSON b) (pb_ClearCredential b) of
            Inl _ \<Rightarrow> (400, d)
          | Inr (cred, change) \<Rightarrow>
              (case providerConfigToStore (pb_Kind b) (pb_Config b)
                   (case provider_by_name d name of None \<Rightarrow> [] | Some p \<Rightarrow> pv_Config p) (pb_BaseURL b) of
                 Inl _ \<Rightarrow> (400, d)
               | Inr config \<Rightarrow>
                   if change = credentialSet \<and> seal cred = None then (500, d)
                   else case jsonb config of
                     None \<Rightarrow> (500, d)
                   | Some stored \<Rightarrow>
                       if \<not> in_int32 (pb_MaxConcurrency b) then (500, d)
                       else (200, upsert_provider
                         \<lparr>pv_Name = name, pv_Kind = pb_Kind b, pv_BaseURL = pb_BaseURL b, pv_Enabled = pb_Enabled b,
                          pv_MaxConcurrency = pb_MaxConcurrency b, pv_Config = stored,
                          pv_CredEnc = (if change = credentialSet then seal cred else None)\<rparr>
                         (change = credentialCleared) d)))"

record alias_body =
  ab_Protocol :: string
  ab_Strategy :: string
  ab_DLPModelScan :: "bool option"
  ab_ExposeBackendHeaders :: bool
  ab_DLPAudioScan :: "bool option"
  ab_SessionAffinity :: bool
  ab_SessionAffinityTTLS :: int
  ab_SynthesisCache :: bool
  ab_SynthesisCacheTTLS :: int
  ab_LCRMode :: string
  ab_LCRMinAvailability :: "rat option"
  ab_Targets :: "aliasTarget list"

definition alias_strategy :: "alias_body \<Rightarrow> string" where
  "alias_strategy b = (if ab_Strategy b \<in> {''least_busy'', ''lcr''} then ab_Strategy b else ''round_robin'')"

definition target_text :: "aliasTarget \<Rightarrow> string" where
  "target_text t = (let trimmed = trim_space (at_Options t) in if trimmed = [] \<or> trimmed = ''null'' then ''{}'' else at_Options t)"

text \<open>The row an alias is saved as.\<close>

definition saved_alias :: "alias_body \<Rightarrow> alias_row" where
  "saved_alias b =
     \<lparr>ar_strategy = alias_strategy b, ar_lcr_mode = ab_LCRMode b, ar_lcr_min_availability = given (ab_LCRMinAvailability b) (1 / 2),
      ar_dlp_model_scan = given (ab_DLPModelScan b) True, ar_expose_backend_headers = ab_ExposeBackendHeaders b,
      ar_dlp_audio_scan = given (ab_DLPAudioScan b) True, ar_session_affinity = ab_SessionAffinity b,
      ar_session_affinity_ttl_s = ab_SessionAffinityTTLS b, ar_synthesis_cache = ab_SynthesisCache b,
      ar_synthesis_cache_ttl_s = ab_SynthesisCacheTTLS b\<rparr>"

text \<open>What the checks before the transaction refuse.\<close>

definition alias_refused :: "(string \<Rightarrow> string + target_options) \<Rightarrow> alias_body \<Rightarrow> bool" where
  "alias_refused unmarshal b \<longleftrightarrow>
     ab_SessionAffinityTTLS b < 0 \<or> MaxAffinityTTLSeconds < ab_SessionAffinityTTLS b
     \<or> ab_SynthesisCacheTTLS b < 0 \<or> MaxSynthesisCacheTTLSeconds < ab_SynthesisCacheTTLS b
     \<or> (alias_strategy b = ''lcr'' \<and> ab_LCRMode b \<notin> {''price'', ''availability'', ''both''})
     \<or> given (ab_LCRMinAvailability b) (1 / 2) < 0 \<or> 1 < given (ab_LCRMinAvailability b) (1 / 2)
     \<or> list_ex (\<lambda>t. isl (ParseTargetOptions unmarshal (at_Options t))) (ab_Targets b)"

text \<open>One row of \<open>alias_targets\<close>; the insert fails when the provider does not exist or a column refuses its value.\<close>

definition insert_target :: "(string \<Rightarrow> string option) \<Rightarrow> catalog_db \<Rightarrow> aliasTarget \<Rightarrow> aliasTarget option" where
  "insert_target jsonb d t =
     (if provider_by_name d (at_Provider t) = None \<or> \<not> in_int32 (at_Priority t) then None
      else map_option (\<lambda>c. t\<lparr>at_Options := c\<rparr>) (jsonb (target_text t)))"

definition handleAdminPutAlias ::
  "(string \<Rightarrow> string option) \<Rightarrow> (string \<Rightarrow> string + target_options) \<Rightarrow> string \<Rightarrow> alias_body option \<Rightarrow> catalog_db \<Rightarrow> int \<times> catalog_db" where
  "handleAdminPutAlias jsonb unmarshal alias body d =
     (case body of
        None \<Rightarrow> (400, d)
      | Some b \<Rightarrow>
          if alias_refused unmarshal b then (400, d)
          else case those (map (insert_target jsonb d) (ab_Targets b)) of
            None \<Rightarrow> (400, d)
          | Some ts \<Rightarrow>
              (200, d\<lparr>cd_aliases := filter (\<lambda>(a, _). a \<noteq> alias) (cd_aliases d)
                        @ [(alias, if ab_Protocol b = [] then ''openai'' else ab_Protocol b, saved_alias b)],
                      cd_targets := filter (\<lambda>(a, _). a \<noteq> alias) (cd_targets d) @ map (Pair alias) ts\<rparr>))"

definition handleAdminDeleteAlias :: "string \<Rightarrow> catalog_db \<Rightarrow> int \<times> catalog_db" where
  "handleAdminDeleteAlias alias d =
     (if alias \<notin> fst ` set (cd_aliases d) then (404, d)
      else (200, d\<lparr>cd_aliases := filter (\<lambda>(a, _). a \<noteq> alias) (cd_aliases d),
                   cd_targets := filter (\<lambda>(a, _). a \<noteq> alias) (cd_targets d)\<rparr>))"

section \<open>What the router reads\<close>

definition joined_row :: "aliasTarget \<Rightarrow> provider_row \<Rightarrow> target_row" where
  "joined_row t p =
     \<lparr>tr_priority = at_Priority t, tr_provider = at_Provider t, tr_upstream_model = at_UpstreamModel t, tr_kind = pv_Kind p,
      tr_display_label = at_DisplayLabel t, tr_options = at_Options t\<rparr>"

definition joined :: "catalog_db \<Rightarrow> string \<Rightarrow> target_row list" where
  "joined d alias =
     concat (map (\<lambda>(a, t). if a = alias then map (joined_row t) (filter (\<lambda>p. pv_Name p = at_Provider t \<and> pv_Enabled p) (cd_providers d)) else [])
       (cd_targets d))"

text \<open>The query orders by priority and leaves the order within a priority to the database.\<close>

definition answers :: "catalog_db \<Rightarrow> string \<Rightarrow> target_row list \<Rightarrow> bool" where
  "answers d alias rows \<longleftrightarrow> mset rows = mset (joined d alias) \<and> sorted (map tr_priority rows)"

definition catalog_of :: "catalog_db \<Rightarrow> (string \<Rightarrow> target_row list) \<Rightarrow> catalog" where
  "catalog_of d rows =
     \<lparr>cat_alias = (\<lambda>a. Inr (map_option snd (map_of (cd_aliases d) a))),
      cat_targets = (\<lambda>a. Inr (rows a)),
      cat_provider = (\<lambda>n. Inr (map_option (\<lambda>p. (pv_Kind p, pv_Enabled p)) (provider_by_name d n)))\<rparr>"

section \<open>The registry\<close>

record googleSpeech =
  gs_name :: string
  gs_baseURL :: string
  gs_project :: string
  gs_location :: string

record googleTTS =
  gt_name :: string
  gt_baseURL :: string
  gt_project :: string

definition NewGoogleSpeech :: "string \<Rightarrow> string \<Rightarrow> string \<Rightarrow> string \<Rightarrow> googleSpeech" where
  "NewGoogleSpeech name baseURL project loc =
     \<lparr>gs_name = name, gs_baseURL = trim_right (\<lambda>c. c = CHR ''/'') baseURL, gs_project = project,
      gs_location = (if loc = [] then vertexGlobalLocation else loc)\<rparr>"

definition NewGoogleTTS :: "string \<Rightarrow> string \<Rightarrow> string \<Rightarrow> googleTTS" where
  "NewGoogleTTS name baseURL project =
     \<lparr>gt_name = name, gt_baseURL = trim_right (\<lambda>c. c = CHR ''/'') baseURL, gt_project = project\<rparr>"

text \<open>Clients; \<open>'ts\<close> are token sources.\<close>

datatype 'ts client =
    MockClient string
  | CompatClient openAICompat
  | VertexClient vertex 'ts
  | SpeechClient googleSpeech 'ts
  | TTSClient googleTTS 'ts

abbreviation cloudPlatformScope :: string where "cloudPlatformScope \<equiv> ''https://www.googleapis.com/auth/cloud-platform''"

definition googleTokenFingerprint :: "(string \<Rightarrow> string) \<Rightarrow> string \<Rightarrow> string" where
  "googleTokenFingerprint sha credJSON = hex_text (sha (cloudPlatformScope @ [CHR 0x00] @ credJSON))"

text \<open>
  A source from the cache of live sources, or a fresh one: \<open>resolve\<close> is what the library makes of the
  credential now (empty: the ambient identity).
\<close>

definition GoogleTokenSource ::
  "(string \<Rightarrow> string) \<Rightarrow> (string \<Rightarrow> string + 'ts) \<Rightarrow> string \<Rightarrow> (string \<rightharpoonup> 'ts) \<Rightarrow> (string + 'ts) \<times> (string \<rightharpoonup> 'ts)" where
  "GoogleTokenSource sha resolve credJSON cache =
     (let fp = googleTokenFingerprint sha credJSON in
      case cache fp of
        Some ts \<Rightarrow> (Inr ts, cache)
      | None \<Rightarrow> (case resolve credJSON of Inl e \<Rightarrow> (Inl e, cache) | Inr ts \<Rightarrow> (Inr ts, cache(fp \<mapsto> ts))))"

definition PruneGoogleTokenSources :: "string list \<Rightarrow> (string \<rightharpoonup> 'ts) \<Rightarrow> (string \<rightharpoonup> 'ts)" where
  "PruneGoogleTokenSources keep cache = cache |` set keep"

definition defaultBaseURL :: "string \<Rightarrow> string" where
  "defaultBaseURL kind =
     (if kind = ''openai'' then ''https://api.openai.com/v1''
      else if kind = ''openrouter'' then ''https://openrouter.ai/api/v1''
      else if kind = ''xai'' then ''https://api.x.ai/v1''
      else if kind = ''groq'' then ''https://api.groq.com/openai/v1''
      else if kind = ''ollama'' then ''http://localhost:11434/v1''
      else if kind = ''muse'' then ''https://api.meta.ai/v1''
      else [])"

definition compat_kinds :: "string list" where
  "compat_kinds = [''openai'', ''openrouter'', ''xai'', ''groq'', ''ollama'', ''muse'']"

text \<open>A row's credential: the decrypted text and whether a stored one could not be decrypted.\<close>

definition row_credential :: "(string \<Rightarrow> string option) \<Rightarrow> provider_row \<Rightarrow> string \<times> bool" where
  "row_credential unseal p =
     (case pv_CredEnc p of
        None \<Rightarrow> ([], False)
      | Some c \<Rightarrow> if c = [] then ([], False) else (case unseal c of Some pt \<Rightarrow> (pt, False) | None \<Rightarrow> ([], True)))"

definition googleCloudFromRow ::
  "(string \<Rightarrow> string) \<Rightarrow> (string \<Rightarrow> string + 'ts) \<Rightarrow> provider_row \<Rightarrow> string \<Rightarrow> bool \<Rightarrow> (googleCloudConfig \<Rightarrow> string option) \<Rightarrow> (string \<rightharpoonup> 'ts)
     \<Rightarrow> (string + googleCloudConfig \<times> 'ts) \<times> (string \<rightharpoonup> 'ts)" where
  "googleCloudFromRow sha resolve p cred credErr validate cache =
     (if credErr then (Inl ''stored credential could not be decrypted'', cache)
      else case parseGoogleCloudConfig (pv_Config p) of
        Inl e \<Rightarrow> (Inl e, cache)
      | Inr cfg \<Rightarrow>
          (case validate cfg of
             Some e \<Rightarrow> (Inl e, cache)
           | None \<Rightarrow>
               (case GoogleTokenSource sha resolve cred cache of
                  (Inl e, cache') \<Rightarrow> (Inl e, cache')
                | (Inr ts, cache') \<Rightarrow> (Inr (cfg, ts), cache'))))"

record 'ts build_env =
  be_sha :: "string \<Rightarrow> string"
  be_unseal :: "string \<Rightarrow> string option"
  be_resolve :: "string \<Rightarrow> string + 'ts"
  be_chatTimeout :: duration

definition compat_client :: "'ts build_env \<Rightarrow> provider_row \<Rightarrow> openAICompat" where
  "compat_client V p =
     (let base = (if pv_BaseURL p = [] then defaultBaseURL (pv_Kind p) else pv_BaseURL p)
      in (NewOpenAICompat (pv_Name p) (pv_Kind p) base (fst (row_credential (be_unseal V) p)))\<lparr>oc_chatTimeout := be_chatTimeout V\<rparr>)"

text \<open>The client of one row, if it has one, the fingerprint it keeps alive, and the cache.\<close>

definition google_client ::
  "'ts build_env \<Rightarrow> provider_row \<Rightarrow> (googleCloudConfig \<Rightarrow> string option) \<Rightarrow> (googleCloudConfig \<Rightarrow> 'ts \<Rightarrow> 'ts client) \<Rightarrow> (string \<rightharpoonup> 'ts)
     \<Rightarrow> 'ts client option \<times> string list \<times> (string \<rightharpoonup> 'ts)" where
  "google_client V p validate mk cache =
     (case row_credential (be_unseal V) p of (cred, credErr) \<Rightarrow>
        (case googleCloudFromRow (be_sha V) (be_resolve V) p cred credErr validate cache of
           (Inl _, cache') \<Rightarrow> (None, [], cache')
         | (Inr (cfg, ts), cache') \<Rightarrow> (Some (mk cfg ts), [googleTokenFingerprint (be_sha V) cred], cache')))"

definition build_client :: "'ts build_env \<Rightarrow> provider_row \<Rightarrow> (string \<rightharpoonup> 'ts) \<Rightarrow> 'ts client option \<times> string list \<times> (string \<rightharpoonup> 'ts)" where
  "build_client V p cache =
     (if pv_Kind p = ''mock'' then (Some (MockClient (pv_Name p)), [], cache)
      else if pv_Kind p \<in> set compat_kinds then (Some (CompatClient (compat_client V p)), [], cache)
      else if pv_Kind p = ''vertex'' then
        google_client V p (validateVertexConfig (pv_BaseURL p))
          (\<lambda>cfg ts. VertexClient ((NewVertex (pv_Name p) (vertexBaseURL cfg (pv_BaseURL p)))\<lparr>vx_chatTimeout := be_chatTimeout V\<rparr>) ts) cache
      else if pv_Kind p = KindGoogleSpeech then
        google_client V p validateGoogleSpeechConfig
          (\<lambda>cfg ts. SpeechClient (NewGoogleSpeech (pv_Name p) (googleSpeechBaseURL cfg (pv_BaseURL p)) (gc_Project cfg) (location cfg)) ts) cache
      else if pv_Kind p = KindGoogleTTS then
        google_client V p validateGoogleTTSConfig
          (\<lambda>cfg ts. TTSClient (NewGoogleTTS (pv_Name p) (googleTTSBaseURL cfg (pv_BaseURL p)) (gc_Project cfg)) ts) cache
      else (None, [], cache))"

fun build_rows ::
  "'ts build_env \<Rightarrow> provider_row list \<Rightarrow> 'ts client registry \<Rightarrow> string list \<Rightarrow> (string \<rightharpoonup> 'ts)
     \<Rightarrow> 'ts client registry \<times> string list \<times> (string \<rightharpoonup> 'ts)" where
  "build_rows V [] reg kept cache = (reg, kept, cache)"
| "build_rows V (p # ps) reg kept cache =
     (case build_client V p cache of
        (None, fps, cache') \<Rightarrow> build_rows V ps reg (kept @ fps) cache'
      | (Some c, fps, cache') \<Rightarrow> build_rows V ps (Register (pv_Name p) c (pv_MaxConcurrency p) reg) (kept @ fps) cache')"

definition Build :: "'ts build_env \<Rightarrow> provider_row list \<Rightarrow> (string \<rightharpoonup> 'ts) \<Rightarrow> 'ts client registry \<times> (string \<rightharpoonup> 'ts)" where
  "Build V rows cache =
     (case build_rows V rows NewRegistry [] cache of (reg, kept, cache') \<Rightarrow>
        (if registry_Get reg ''mock'' = None then Register ''mock'' (MockClient ''mock'') 0 reg else reg, PruneGoogleTokenSources kept cache'))"

definition ListProvidersForRegistry :: "catalog_db \<Rightarrow> provider_row list" where
  "ListProvidersForRegistry d = sort_key pv_Name (filter pv_Enabled (cd_providers d))"

definition enc_provider :: "provider_row \<Rightarrow> nat list" where
  "enc_provider p =
     enc_str (pv_Name p) @ enc_str (pv_Kind p) @ enc_str (pv_BaseURL p) @ enc_str (cookie_val (pv_CredEnc p))
     @ enc_str (itoa (pv_MaxConcurrency p)) @ enc_str (pv_Config p)"

definition Fingerprint :: "(nat list \<Rightarrow> 'h) \<Rightarrow> provider_row list \<Rightarrow> 'h" where
  "Fingerprint hash rows = hash (concat (map enc_provider rows))"

section \<open>What a replica holds\<close>

text \<open>
  \<open>'h\<close> are fingerprints, \<open>'c\<close> what a settings row is parsed into. A settings row that is missing
  in the database is \<open>None\<close>.
\<close>

record ('h, 'ts, 'c) configState =
  cs_registry :: "'ts client registry"
  cs_tokens :: "string \<rightharpoonup> 'ts"
  cs_providersFP :: 'h
  cs_prices :: "'h price_table"
  cs_settings :: "string \<rightharpoonup> string option"
  cs_cells :: "string \<Rightarrow> 'c"

record ('h, 'c) refresh_env =
  re_hash :: "nat list \<Rightarrow> 'h"
  re_bits :: "rat \<Rightarrow> nat"
  re_apply :: "string \<Rightarrow> string option \<Rightarrow> 'c"

definition settingAppliers :: "string list" where
  "settingAppliers = [''dlp'', ''capture'', ''secondpass'', ''failover'']"

definition install_setting :: "('h, 'c) refresh_env \<Rightarrow> string \<Rightarrow> string option \<Rightarrow> ('h, 'ts, 'c) configState \<Rightarrow> ('h, 'ts, 'c) configState" where
  "install_setting R name raw st = st\<lparr>cs_cells := (cs_cells st)(name := re_apply R name raw)\<rparr>"

definition rememberSetting :: "string \<Rightarrow> string option \<Rightarrow> ('h, 'ts, 'c) configState \<Rightarrow> ('h, 'ts, 'c) configState" where
  "rememberSetting name raw st = st\<lparr>cs_settings := (cs_settings st)(name \<mapsto> raw)\<rparr>"

text \<open>\<open>raw\<close> is the row read, \<open>None\<close> if it could not be read.\<close>

definition loadSetting ::
  "('h, 'c) refresh_env \<Rightarrow> string \<Rightarrow> string option option \<Rightarrow> ('h, 'ts, 'c) configState \<Rightarrow> ('h, 'ts, 'c) configState" where
  "loadSetting R name raw st =
     (case raw of
        None \<Rightarrow> if cs_settings st name \<noteq> None then st else install_setting R name None st
      | Some v \<Rightarrow> install_setting R name v (rememberSetting name v st))"

definition loadProvidersLocked ::
  "('h, 'c) refresh_env \<Rightarrow> 'ts build_env \<Rightarrow> bool \<Rightarrow> provider_row list option \<Rightarrow> ('h, 'ts, 'c) configState \<Rightarrow> ('h, 'ts, 'c) configState" where
  "loadProvidersLocked R V force rows st =
     (case rows of
        None \<Rightarrow> st
      | Some ps \<Rightarrow>
          let fp = Fingerprint (re_hash R) ps in
          if \<not> force \<and> fp = cs_providersFP st then st
          else case Build V ps (cs_tokens st) of (reg, tokens) \<Rightarrow>
                 st\<lparr>cs_registry := reg, cs_tokens := tokens, cs_providersFP := fp\<rparr>)"

definition ReloadProviders ::
  "('h, 'c) refresh_env \<Rightarrow> 'ts build_env \<Rightarrow> provider_row list option \<Rightarrow> ('h, 'ts, 'c) configState \<Rightarrow> ('h, 'ts, 'c) configState" where
  "ReloadProviders R V rows st = loadProvidersLocked R V True rows st"

definition setPrices :: "row list \<Rightarrow> ('h, 'ts, 'c) configState \<Rightarrow> ('h, 'ts, 'c) configState" where
  "setPrices rows st =
     st\<lparr>cs_prices := fold (\<lambda>r. price_Set (row_Provider r) (row_Model r) (row_Price r)) rows (cs_prices st)\<rparr>"

definition refresh_setting ::
  "('h, 'c) refresh_env \<Rightarrow> (string \<Rightarrow> string option) \<Rightarrow> string \<Rightarrow> ('h, 'ts, 'c) configState \<Rightarrow> ('h, 'ts, 'c) configState" where
  "refresh_setting R raws name st =
     (if cs_settings st name = Some (raws name) then st
      else rememberSetting name (raws name) (install_setting R name (raws name) st))"

text \<open>What the three reads of one refresh gave, \<open>None\<close> for a read that failed.\<close>

record refresh_reads =
  rr_providers :: "provider_row list option"
  rr_prices :: "row list option"
  rr_settings :: "(string \<Rightarrow> string option) option"

definition RefreshConfig ::
  "('h, 'c) refresh_env \<Rightarrow> 'ts build_env \<Rightarrow> refresh_reads \<Rightarrow> ('h, 'ts, 'c) configState \<Rightarrow> ('h, 'ts, 'c) configState" where
  "RefreshConfig R V rd st =
     (let st1 = loadProvidersLocked R V False (rr_providers rd) st;
          st2 = (case rr_prices rd of None \<Rightarrow> st1
                 | Some rows \<Rightarrow> st1\<lparr>cs_prices := fst (Replace (re_hash R) (re_bits R) rows (cs_prices st1))\<rparr>)
      in case rr_settings rd of None \<Rightarrow> st2 | Some raws \<Rightarrow> fold (refresh_setting R raws) settingAppliers st2)"

text \<open>
  The whole save: what was committed is read back and the registry of this replica rebuilt from it;
  a reload that cannot read the rows (\<open>reread\<close> false) leaves the registry as it was.
\<close>

definition handleAdminPutProvider ::
  "('h, 'c) refresh_env \<Rightarrow> 'ts build_env \<Rightarrow> (string \<Rightarrow> string option) \<Rightarrow> (string \<Rightarrow> string option) \<Rightarrow> bool \<Rightarrow> string \<Rightarrow> provider_body option
     \<Rightarrow> catalog_db \<times> ('h, 'ts, 'c) configState \<Rightarrow> int \<times> catalog_db \<times> ('h, 'ts, 'c) configState" where
  "handleAdminPutProvider R V jsonb seal reread name body w =
     (case save_provider jsonb seal name body (fst w) of (status, d') \<Rightarrow>
        (status, d', if status = 200 then ReloadProviders R V (if reread then Some (ListProvidersForRegistry d') else None) (snd w) else snd w))"

section \<open>Saved aliases\<close>

lemma find_provider:
  assumes "distinct (map pv_Name ps)"
  shows "find (\<lambda>p. pv_Name p = n) ps = Some p \<longleftrightarrow> p \<in> set ps \<and> pv_Name p = n"
  using assms by (induction ps) auto

lemma filter_by_name:
  assumes "distinct (map pv_Name ps)"
  shows "filter (\<lambda>p. pv_Name p = n \<and> Q p) ps = (case find (\<lambda>p. pv_Name p = n) ps of Some p \<Rightarrow> if Q p then [p] else [] | None \<Rightarrow> [])"
  using assms
proof (induction ps)
  case (Cons p ps)
  have "filter (\<lambda>q. pv_Name q = n \<and> Q q) ps = []" if "pv_Name p = n"
  proof -
    have "pv_Name q \<noteq> n" if "q \<in> set ps" for q using Cons.prems \<open>pv_Name p = n\<close> that by (metis distinct.simps(2) image_eqI list.simps(9) set_map)
    then show ?thesis by (simp add: filter_empty_conv)
  qed
  with Cons show ?case by auto
qed simp

text \<open>The target the operator described, as the router sees it.\<close>

definition described :: "(string \<Rightarrow> string + target_options) \<Rightarrow> catalog_db \<Rightarrow> aliasTarget \<Rightarrow> target" where
  "described unmarshal d t =
     \<lparr>tg_Provider = at_Provider t, tg_UpstreamModel = at_UpstreamModel t,
      tg_UpstreamProtocol = protocol_of (case provider_by_name d (at_Provider t) of None \<Rightarrow> [] | Some p \<Rightarrow> pv_Kind p),
      tg_DisplayLabel = at_DisplayLabel t, tg_Options = projr (ParseTargetOptions unmarshal (at_Options t)), tg_Tier = at_Priority t\<rparr>"

definition available :: "catalog_db \<Rightarrow> aliasTarget \<Rightarrow> bool" where
  "available d t \<longleftrightarrow> (case provider_by_name d (at_Provider t) of None \<Rightarrow> False | Some p \<Rightarrow> pv_Enabled p)"

lemma those_Some: "those xs = Some ys \<Longrightarrow> map Some ys = xs"
  by (induction xs arbitrary: ys) (auto split: option.splits)

lemma stored_options:
  assumes "\<not> isl (ParseTargetOptions unmarshal (at_Options t))" and "unmarshal ''{}'' = Inr no_options"
  shows "ParseTargetOptions unmarshal (target_text t) = ParseTargetOptions unmarshal (at_Options t)"
proof (cases "trim_space (at_Options t) = [] \<or> trim_space (at_Options t) = ''null''")
  case True
  have v: "breaker_Validate None = None" by (simp add: breaker_Validate_def)
  have "ParseTargetOptions unmarshal ''{}'' = Inr no_options"
    using assms(2) v by (simp add: ParseTargetOptions_def Let_def trim_space_def trim_left_def trim_right_def is_space_def char_code_def has_prefix_def no_options_def)
  moreover have "ParseTargetOptions unmarshal (at_Options t) = Inr no_options" using True by (auto simp: ParseTargetOptions_def Let_def)
  ultimately show ?thesis using True by (auto simp: target_text_def Let_def)
qed (simp add: target_text_def Let_def)

lemma saved_row:
  assumes "insert_target jsonb d t = Some t'" and "provider_by_name d (at_Provider t) = Some p"
    and "\<not> isl (ParseTargetOptions unmarshal (at_Options t))" and "unmarshal ''{}'' = Inr no_options"
    and "\<forall>s. jsonb (target_text t) = Some s \<longrightarrow> ParseTargetOptions unmarshal s = ParseTargetOptions unmarshal (target_text t)"
  shows "at_Provider t' = at_Provider t \<and> row_target unmarshal (joined_row t' p) = described unmarshal d t"
proof -
  obtain c where c: "jsonb (target_text t) = Some c" "t' = t\<lparr>at_Options := c\<rparr>"
    using assms(1) by (auto simp: insert_target_def split: if_splits)
  then have "ParseTargetOptions unmarshal c = ParseTargetOptions unmarshal (at_Options t)" using assms(5) stored_options [where unmarshal = unmarshal, OF assms(3,4)] by simp
  then show ?thesis using c(2) assms(2,3)
    by (cases "ParseTargetOptions unmarshal (at_Options t)") (simp_all add: row_target_def joined_row_def described_def)
qed

lemma targets_joined:
  assumes "map Some ts = map (insert_target jsonb d) bs" and "distinct (map pv_Name (cd_providers d))"
    and "\<forall>t \<in> set bs. \<not> isl (ParseTargetOptions unmarshal (at_Options t))
      \<and> (\<forall>s. jsonb (target_text t) = Some s \<longrightarrow> ParseTargetOptions unmarshal s = ParseTargetOptions unmarshal (target_text t))"
    and "unmarshal ''{}'' = Inr no_options"
  shows "map (row_target unmarshal) (concat (map (\<lambda>t. map (joined_row t) (filter (\<lambda>p. pv_Name p = at_Provider t \<and> pv_Enabled p) (cd_providers d))) ts))
    = map (described unmarshal d) (filter (available d) bs)"
  using assms(1,3)
proof (induction bs arbitrary: ts)
  case (Cons t bs)
  then obtain t' ts' where ts: "ts = t' # ts'" "insert_target jsonb d t = Some t'" "map Some ts' = map (insert_target jsonb d) bs" by (cases ts) auto
  then obtain p where p: "provider_by_name d (at_Provider t) = Some p" by (auto simp: insert_target_def split: if_splits)
  have r: "at_Provider t' = at_Provider t" "row_target unmarshal (joined_row t' p) = described unmarshal d t"
    using saved_row [where unmarshal = unmarshal, OF ts(2) p _ assms(4)] Cons.prems(2) by simp_all
  have "filter (\<lambda>q. pv_Name q = at_Provider t' \<and> pv_Enabled q) (cd_providers d) = (if pv_Enabled p then [p] else [])"
    using p filter_by_name [OF assms(2)] by (simp add: r(1) provider_by_name_def)
  moreover have "available d t \<longleftrightarrow> pv_Enabled p" using p by (simp add: available_def)
  ultimately show ?case using Cons.IH [OF ts(3)] Cons.prems(2) r(2) by (simp add: ts(1))
qed simp

lemma saved_alias_state:
  assumes "handleAdminPutAlias jsonb unmarshal alias (Some b) d = (200, d')"
  obtains ts where "those (map (insert_target jsonb d) (ab_Targets b)) = Some ts" "\<not> alias_refused unmarshal b"
    "cd_providers d' = cd_providers d" "map_option snd (map_of (cd_aliases d') alias) = Some (saved_alias b)"
    "cd_targets d' = filter (\<lambda>(a, _). a \<noteq> alias) (cd_targets d) @ map (Pair alias) ts"
proof -
  have "map_of (filter (\<lambda>(a, _). a \<noteq> alias) xs @ [(alias, x)]) alias = Some x" for xs :: "(string \<times> string \<times> alias_row) list" and x
    by (induction xs) auto
  then show thesis using assms that by (auto simp: handleAdminPutAlias_def split: if_splits option.splits)
qed

lemma joined_saved:
  assumes "cd_targets d' = filter (\<lambda>(a, _). a \<noteq> alias) old @ map (Pair alias) ts" and "cd_providers d' = cd_providers d"
  shows "joined d' alias = concat (map (\<lambda>t. map (joined_row t) (filter (\<lambda>p. pv_Name p = at_Provider t \<and> pv_Enabled p) (cd_providers d))) ts)"
proof -
  have "concat (map (\<lambda>(a, t). if a = alias then f t else []) (filter (\<lambda>(a, _). a \<noteq> alias) xs)) = []"
    for f :: "aliasTarget \<Rightarrow> target_row list" and xs by (induction xs) auto
  then show ?thesis by (simp add: joined_def assms comp_def)
qed

lemma saved_ttls:
  assumes "\<not> alias_refused unmarshal b"
  shows "AffinityTTL (ab_SessionAffinityTTLS b) = (if ab_SessionAffinityTTLS b = 0 then DefaultAffinityTTL else ab_SessionAffinityTTLS b * second)"
    and "SynthesisCacheTTL (ab_SynthesisCacheTTLS b) = (if ab_SynthesisCacheTTLS b = 0 then DefaultSynthesisCacheTTL else ab_SynthesisCacheTTLS b * second)"
proof -
  have r: "0 \<le> ab_SessionAffinityTTLS b" "ab_SessionAffinityTTLS b \<le> 604800" "0 \<le> ab_SynthesisCacheTTLS b" "ab_SynthesisCacheTTLS b \<le> 2592000"
    using assms by (simp_all add: alias_refused_def MaxAffinityTTLSeconds_def MaxSynthesisCacheTTLSeconds_def)
  have w: "wrap64 (n * second) = n * second" if "0 \<le> n" "n \<le> 2592000" for n :: int
    using that by (simp add: in_int64_def)
  show "AffinityTTL (ab_SessionAffinityTTLS b) = (if ab_SessionAffinityTTLS b = 0 then DefaultAffinityTTL else ab_SessionAffinityTTLS b * second)"
    "SynthesisCacheTTL (ab_SynthesisCacheTTLS b) = (if ab_SynthesisCacheTTLS b = 0 then DefaultSynthesisCacheTTL else ab_SynthesisCacheTTLS b * second)"
    using r w by (auto simp: AffinityTTL_def SynthesisCacheTTL_def)
qed

text \<open>
  C31: An alias that was saved is what requests are routed by: for every order in which the database
  returns targets of equal priority, the plan has exactly the saved targets whose provider is enabled,
  with the options the operator wrote, one tier per priority in increasing order, the strategy and
  scans that were asked for (scans are on unless switched off) and lifetimes as given, zero being the
  default; without such a target the alias resolves to nothing.
\<close>
theorem saved_alias_resolves:
  assumes "handleAdminPutAlias jsonb unmarshal alias (Some b) d = (200, d')" and "distinct (map pv_Name (cd_providers d))"
    and "\<forall>t \<in> set (ab_Targets b). \<forall>s. jsonb (target_text t) = Some s \<longrightarrow> ParseTargetOptions unmarshal s = ParseTargetOptions unmarshal (target_text t)"
    and "unmarshal ''{}'' = Inr no_options" and "answers d' alias (rows alias)"
  shows "case resolveAlias unmarshal (catalog_of d' rows) alias of
      Inl e \<Rightarrow> e = Miss (''no available targets: '' @ alias) \<and> filter (available d) (ab_Targets b) = []
    | Inr p \<Rightarrow>
        mset (concat (pl_Tiers p)) = mset (map (described unmarshal d) (filter (available d) (ab_Targets b)))
        \<and> (\<forall>tier \<in> set (pl_Tiers p). \<forall>t \<in> set tier. tg_Tier t = tg_Tier (hd tier))
        \<and> sorted_wrt (<) (map (\<lambda>tier. tg_Tier (hd tier)) (pl_Tiers p))
        \<and> pl_Strategy p = alias_strategy b \<and> pl_DLPModelScan p = (ab_DLPModelScan b \<noteq> Some False)
        \<and> pl_DLPAudioScan p = (ab_DLPAudioScan b \<noteq> Some False)
        \<and> pl_SessionAffinityTTL p = (if ab_SessionAffinityTTLS b = 0 then DefaultAffinityTTL else ab_SessionAffinityTTLS b * second)
        \<and> pl_SynthesisCacheTTL p = (if ab_SynthesisCacheTTLS b = 0 then DefaultSynthesisCacheTTL else ab_SynthesisCacheTTLS b * second)"
proof -
  obtain ts where s: "those (map (insert_target jsonb d) (ab_Targets b)) = Some ts" "\<not> alias_refused unmarshal b"
    "cd_providers d' = cd_providers d" "map_option snd (map_of (cd_aliases d') alias) = Some (saved_alias b)"
    "cd_targets d' = filter (\<lambda>(a, _). a \<noteq> alias) (cd_targets d) @ map (Pair alias) ts"
    using saved_alias_state [OF assms(1)] .
  have ok: "\<forall>t \<in> set (ab_Targets b). \<not> isl (ParseTargetOptions unmarshal (at_Options t))"
    using s(2) by (auto simp: alias_refused_def list_ex_iff)
  have j: "map (row_target unmarshal) (joined d' alias) = map (described unmarshal d) (filter (available d) (ab_Targets b))"
    unfolding joined_saved [OF s(5,3)] using targets_joined [where unmarshal = unmarshal, OF those_Some [OF s(1)] assms(2) _ assms(4)] ok assms(3) by blast
  have rows: "mset (map (row_target unmarshal) (rows alias)) = mset (map (row_target unmarshal) (joined d' alias))" "sorted (map tr_priority (rows alias))"
    using assms(5) by (simp_all add: answers_def)
  let ?tiers = "group_tiers unmarshal [] (- 1) (rows alias)"
  obtain lp where tiers: "tiers_ok ?tiers lp"
    using group_tiers_ok [of "[]" "- 1" "rows alias" unmarshal] rows(2) by (auto simp: tiers_ok_def)
  have c: "concat ?tiers = map (row_target unmarshal) (rows alias)" using group_tiers_concat [of unmarshal "[]"] by simp
  have cat: "cat_alias (catalog_of d' rows) alias = Inr (Some (saved_alias b))" "cat_targets (catalog_of d' rows) alias = Inr (rows alias)"
    unfolding catalog_of_def catalog.simps s(4) by (rule refl)+
  have scans: "given x True = (x \<noteq> Some False)" for x by (cases x) (simp_all add: given_def)
  show ?thesis
  proof (cases "?tiers = []")
    case True
    then have "rows alias = []" using c by simp
    then have "filter (available d) (ab_Targets b) = []" using rows(1) j by simp
    then show ?thesis using True by (simp add: resolveAlias_def cat Let_def)
  next
    case False
    have "mset (concat ?tiers) = mset (map (described unmarshal d) (filter (available d) (ab_Targets b)))"
      unfolding c rows(1) j ..
    then show ?thesis using False tiers saved_ttls [OF s(2)]
      by (simp add: resolveAlias_def cat Let_def tiers_ok_def saved_alias_def scans)
  qed
qed

section \<open>Saved providers\<close>

text \<open>Provider rows in order: one per name, each with a configuration its kind accepts.\<close>

definition providers_ok :: "catalog_db \<Rightarrow> bool" where
  "providers_ok d \<longleftrightarrow> distinct (map pv_Name (cd_providers d))
     \<and> (\<forall>p \<in> set (cd_providers d). ValidateProviderConfig (pv_Kind p) (pv_Config p) (pv_BaseURL p) = None)"

definition kept_credential :: "provider_row \<Rightarrow> bool \<Rightarrow> catalog_db \<Rightarrow> string option" where
  "kept_credential row cleared d =
     (if cleared then None
      else case pv_CredEnc row of Some c \<Rightarrow> Some c
           | None \<Rightarrow> (case provider_by_name d (pv_Name row) of None \<Rightarrow> None | Some p \<Rightarrow> pv_CredEnc p))"

lemma find_map_named:
  assumes "\<And>p. pv_Name (f p) = n"
  shows "find (\<lambda>p. pv_Name p = m) (map (\<lambda>p. if pv_Name p = n then f p else p) ps)
    = (if m = n then map_option f (find (\<lambda>p. pv_Name p = n) ps) else find (\<lambda>p. pv_Name p = m) ps)"
  using assms by (induction ps) auto

lemma upsert_lookup:
  assumes "cleared \<Longrightarrow> pv_CredEnc row = None"
  shows "provider_by_name (upsert_provider row cleared d) n
    = (if n = pv_Name row then Some (row\<lparr>pv_CredEnc := kept_credential row cleared d\<rparr>) else provider_by_name d n)"
proof (cases "provider_by_name d (pv_Name row)")
  case None
  have "find P (xs @ [y]) = (case find P xs of Some x \<Rightarrow> Some x | None \<Rightarrow> if P y then Some y else None)" for P xs and y :: provider_row
    by (induction xs) auto
  moreover have "row\<lparr>pv_CredEnc := kept_credential row cleared d\<rparr> = row"
    using None assms by (cases "pv_CredEnc row") (auto simp: kept_credential_def)
  ultimately show ?thesis using None by (auto simp: upsert_provider_def provider_by_name_def split: option.splits)
next
  case (Some p)
  then show ?thesis
    by (auto simp: upsert_provider_def provider_by_name_def find_map_named kept_credential_def split: option.splits)
qed

lemma upsert_names:
  "distinct (map pv_Name (cd_providers d)) \<Longrightarrow> distinct (map pv_Name (cd_providers (upsert_provider row cleared d)))"
proof -
  assume d: "distinct (map pv_Name (cd_providers d))"
  have same: "map pv_Name (map (\<lambda>p. if pv_Name p = pv_Name row then row\<lparr>pv_CredEnc := f p\<rparr> else p) ps) = map pv_Name ps" for f ps
    by (induction ps) simp_all
  show ?thesis
  proof (cases "provider_by_name d (pv_Name row)")
    case None
    then have "pv_Name row \<notin> pv_Name ` set (cd_providers d)" by (auto simp: provider_by_name_def find_None_iff)
    then show ?thesis using d None by (simp add: upsert_provider_def)
  next
    case (Some p)
    then show ?thesis using d by (simp add: upsert_provider_def same del: map_map)
  qed
qed

lemma by_name_set:
  "distinct (map pv_Name (cd_providers d)) \<Longrightarrow> p \<in> set (cd_providers d) \<longleftrightarrow> provider_by_name d (pv_Name p) = Some p"
  using find_provider by (auto simp: provider_by_name_def)

lemma same_config: "parseGoogleCloudConfig a = parseGoogleCloudConfig b \<Longrightarrow> ValidateProviderConfig kind a base = ValidateProviderConfig kind b base"
  by (simp add: ValidateProviderConfig_def Let_def)

lemma saved_provider_state:
  assumes "save_provider jsonb seal name (Some b) d = (200, d')"
  obtains cred change config stored where
    "credentialToStore (pb_APIKey b) (pb_CredentialJSON b) (pb_ClearCredential b) = Inr (cred, change)"
    "providerConfigToStore (pb_Kind b) (pb_Config b) (case provider_by_name d name of None \<Rightarrow> [] | Some p \<Rightarrow> pv_Config p) (pb_BaseURL b) = Inr config"
    "jsonb config = Some stored" "change = credentialSet \<longrightarrow> seal cred \<noteq> None"
    "d' = upsert_provider \<lparr>pv_Name = name, pv_Kind = pb_Kind b, pv_BaseURL = pb_BaseURL b, pv_Enabled = pb_Enabled b,
            pv_MaxConcurrency = pb_MaxConcurrency b, pv_Config = stored, pv_CredEnc = (if change = credentialSet then seal cred else None)\<rparr>
          (change = credentialCleared) d"
  using assms that by (auto simp: save_provider_def split: if_splits sum.splits option.splits)

text \<open>What a save does to the stored credential, in the operator's terms.\<close>

definition asked_credential :: "(string \<Rightarrow> string option) \<Rightarrow> provider_body \<Rightarrow> string option \<Rightarrow> string option" where
  "asked_credential seal b old =
     (if pb_ClearCredential b then None
      else if pb_APIKey b \<noteq> [] then seal (pb_APIKey b)
      else if pb_CredentialJSON b \<noteq> [] then seal (pb_CredentialJSON b)
      else old)"

lemma save_provider_rows:
  assumes "save_provider jsonb seal name (Some b) d = (status, d')" and "providers_ok d"
    and "\<forall>config s. providerConfigToStore (pb_Kind b) (pb_Config b) (case provider_by_name d name of None \<Rightarrow> [] | Some p \<Rightarrow> pv_Config p) (pb_BaseURL b) = Inr config
      \<longrightarrow> jsonb config = Some s \<longrightarrow> parseGoogleCloudConfig s = parseGoogleCloudConfig config"
  shows "providers_ok d' \<and> (\<forall>n. n \<noteq> name \<longrightarrow> provider_by_name d' n = provider_by_name d n)
    \<and> cd_aliases d' = cd_aliases d \<and> cd_targets d' = cd_targets d
    \<and> (if status = 200 then \<exists>p. provider_by_name d' name = Some p \<and> pv_Kind p = pb_Kind b \<and> pv_BaseURL p = pb_BaseURL b
         \<and> pv_Enabled p = pb_Enabled b \<and> pv_MaxConcurrency p = pb_MaxConcurrency b \<and> 0 \<le> pv_MaxConcurrency p
         \<and> pv_CredEnc p = asked_credential seal b (case provider_by_name d name of None \<Rightarrow> None | Some q \<Rightarrow> pv_CredEnc q)
       else d' = d)"
proof (cases "status = 200")
  case False
  then have "d' = d" using assms(1) by (auto simp: save_provider_def split: if_splits sum.splits option.splits)
  then show ?thesis using False assms(2) by simp
next
  case True
  obtain cred change config stored where s:
    "credentialToStore (pb_APIKey b) (pb_CredentialJSON b) (pb_ClearCredential b) = Inr (cred, change)"
    "providerConfigToStore (pb_Kind b) (pb_Config b) (case provider_by_name d name of None \<Rightarrow> [] | Some p \<Rightarrow> pv_Config p) (pb_BaseURL b) = Inr config"
    "jsonb config = Some stored" "change = credentialSet \<longrightarrow> seal cred \<noteq> None"
    "d' = upsert_provider \<lparr>pv_Name = name, pv_Kind = pb_Kind b, pv_BaseURL = pb_BaseURL b, pv_Enabled = pb_Enabled b,
            pv_MaxConcurrency = pb_MaxConcurrency b, pv_Config = stored, pv_CredEnc = (if change = credentialSet then seal cred else None)\<rparr>
          (change = credentialCleared) d" (is "d' = upsert_provider ?row _ _")
    using saved_provider_state [OF assms(1) [unfolded True]] .
  have mc: "0 \<le> pb_MaxConcurrency b" using assms(1) True by (auto simp: save_provider_def split: if_splits)
  have look: "provider_by_name d' n = (if n = name then Some (?row\<lparr>pv_CredEnc := kept_credential ?row (change = credentialCleared) d\<rparr>) else provider_by_name d n)" for n
    unfolding s(5) by (subst upsert_lookup) (auto simp: s(5))
  have kept: "kept_credential ?row (change = credentialCleared) d = asked_credential seal b (case provider_by_name d name of None \<Rightarrow> None | Some q \<Rightarrow> pv_CredEnc q)"
    using s(1,4) by (auto simp: credentialToStore_def Let_def kept_credential_def asked_credential_def split: if_splits option.splits)
  have dist: "distinct (map pv_Name (cd_providers d'))" using upsert_names assms(2) by (simp add: s(5) providers_ok_def)
  have "ValidateProviderConfig (pb_Kind b) config (pb_BaseURL b) = None"
    using s(2) by (auto simp: providerConfigToStore_def Let_def split: option.splits)
  then have valid: "ValidateProviderConfig (pb_Kind b) stored (pb_BaseURL b) = None" using assms(3) s(2,3) same_config by metis
  have "ValidateProviderConfig (pv_Kind p) (pv_Config p) (pv_BaseURL p) = None" if "p \<in> set (cd_providers d')" for p
  proof (cases "pv_Name p = name")
    case True
    then have "p = ?row\<lparr>pv_CredEnc := kept_credential ?row (change = credentialCleared) d\<rparr>" using that look by_name_set [OF dist] by auto
    then show ?thesis using valid by simp
  next
    case False
    then have "p \<in> set (cd_providers d)" using that look by_name_set [OF dist, of p] by_name_set [of d p] assms(2) by (simp add: providers_ok_def)
    then show ?thesis using assms(2) by (simp add: providers_ok_def)
  qed
  moreover have "cd_aliases d' = cd_aliases d" "cd_targets d' = cd_targets d" by (simp_all add: s(5) upsert_provider_def split: option.split)
  ultimately show ?thesis using True dist look kept mc by (simp add: providers_ok_def)
qed

section \<open>Identities\<close>

primrec client_source :: "'ts client \<Rightarrow> 'ts option" where
  "client_source (MockClient _) = None"
| "client_source (CompatClient _) = None"
| "client_source (VertexClient _ ts) = Some ts"
| "client_source (SpeechClient _ ts) = Some ts"
| "client_source (TTSClient _ ts) = Some ts"

text \<open>\<open>src\<close> tells the credential a token source authenticates with; the cache files each source under it.\<close>

definition sources_ok :: "(string \<Rightarrow> string) \<Rightarrow> ('ts \<Rightarrow> string) \<Rightarrow> string set \<Rightarrow> (string \<rightharpoonup> 'ts) \<Rightarrow> bool" where
  "sources_ok sha src C cache \<longleftrightarrow> (\<forall>fp ts. cache fp = Some ts \<longrightarrow> fp = googleTokenFingerprint sha (src ts) \<and> src ts \<in> C)"

lemma token_source_own:
  assumes "sources_ok sha src C cache" and "\<forall>c ts. resolve c = Inr ts \<longrightarrow> src ts = c" and "inj_on (googleTokenFingerprint sha) C"
    and "cred \<in> C" and "GoogleTokenSource sha resolve cred cache = (r, cache')"
  shows "sources_ok sha src C cache' \<and> (\<forall>ts. r = Inr ts \<longrightarrow> src ts = cred)"
proof (cases "cache (googleTokenFingerprint sha cred)")
  case (Some ts)
  then have "src ts = cred" using assms(1,3,4) by (auto simp: sources_ok_def dest: inj_onD)
  then show ?thesis using Some assms(1,5) by (auto simp: GoogleTokenSource_def)
next
  case None
  show ?thesis
  proof (cases "resolve cred")
    case (Inl e)
    then show ?thesis using None assms(1,5) by (auto simp: GoogleTokenSource_def)
  next
    case (Inr ts)
    then have "src ts = cred" using assms(2) by blast
    moreover have "r = Inr ts" "cache' = cache(googleTokenFingerprint sha cred \<mapsto> ts)"
      using None Inr assms(5) by (simp_all add: GoogleTokenSource_def)
    ultimately show ?thesis using assms(1,4) by (simp add: sources_ok_def)
  qed
qed

lemma google_row_own:
  assumes "sources_ok sha src C cache" and "\<forall>c ts. resolve c = Inr ts \<longrightarrow> src ts = c" and "inj_on (googleTokenFingerprint sha) C"
    and "cred \<in> C" and "googleCloudFromRow sha resolve p cred credErr validate cache = (r, cache')"
  shows "sources_ok sha src C cache' \<and> (\<forall>cfg ts. r = Inr (cfg, ts) \<longrightarrow> src ts = cred \<and> \<not> credErr \<and> parseGoogleCloudConfig (pv_Config p) = Inr cfg \<and> validate cfg = None)"
  using assms(1,5) token_source_own [OF assms(1-4)]
  by (fastforce simp: googleCloudFromRow_def split: if_splits sum.splits option.splits prod.splits)

text \<open>A row's own source: its credential was stored readably (or not at all) and its configuration is valid.\<close>

definition row_own :: "'ts build_env \<Rightarrow> ('ts \<Rightarrow> string) \<Rightarrow> provider_row \<Rightarrow> 'ts \<Rightarrow> bool" where
  "row_own V src p ts \<longleftrightarrow> row_credential (be_unseal V) p = (src ts, False)
     \<and> ValidateProviderConfig (pv_Kind p) (pv_Config p) (pv_BaseURL p) = None"

definition row_print :: "'ts build_env \<Rightarrow> provider_row \<Rightarrow> string" where
  "row_print V p = googleTokenFingerprint (be_sha V) (fst (row_credential (be_unseal V) p))"

lemma google_client_own:
  assumes "sources_ok (be_sha V) src C cache" and "\<forall>c ts. be_resolve V c = Inr ts \<longrightarrow> src ts = c" and "inj_on (googleTokenFingerprint (be_sha V)) C"
    and "fst (row_credential (be_unseal V) p) \<in> C" and "google_client V p validate mk cache = (co, fps, cache')"
    and "\<And>cfg ts. client_source (mk cfg ts) = Some ts"
    and "\<And>cfg. parseGoogleCloudConfig (pv_Config p) = Inr cfg \<Longrightarrow> validate cfg = None \<Longrightarrow> ValidateProviderConfig (pv_Kind p) (pv_Config p) (pv_BaseURL p) = None"
  shows "sources_ok (be_sha V) src C cache' \<and> set fps \<subseteq> {row_print V p} \<and> (\<forall>c ts. co = Some c \<longrightarrow> client_source c = Some ts \<longrightarrow> row_own V src p ts)"
proof -
  obtain cred err where rc: "row_credential (be_unseal V) p = (cred, err)" by fastforce
  obtain r cache1 where g: "googleCloudFromRow (be_sha V) (be_resolve V) p cred err validate cache = (r, cache1)" by fastforce
  have own: "sources_ok (be_sha V) src C cache1"
    "\<forall>cfg ts. r = Inr (cfg, ts) \<longrightarrow> src ts = cred \<and> \<not> err \<and> parseGoogleCloudConfig (pv_Config p) = Inr cfg \<and> validate cfg = None"
    using google_row_own [OF assms(1-3) _ g] assms(4) rc by auto
  show ?thesis
  proof (cases r)
    case (Inl e)
    then show ?thesis using assms(5) own(1) by (simp add: google_client_def rc g)
  next
    case (Inr x)
    then obtain cfg ts where r: "r = Inr (cfg, ts)" by (cases x) simp
    then have o: "src ts = cred" "\<not> err" "ValidateProviderConfig (pv_Kind p) (pv_Config p) (pv_BaseURL p) = None"
      using own(2) assms(7) by auto
    with g r have "googleCloudFromRow (be_sha V) (be_resolve V) p cred False validate cache = (Inr (cfg, ts), cache1)" by simp
    then show ?thesis using o assms(5,6) own(1) by (auto simp: google_client_def rc row_own_def row_print_def)
  qed
qed

lemma build_client_own:
  assumes "sources_ok (be_sha V) src C cache" and "\<forall>c ts. be_resolve V c = Inr ts \<longrightarrow> src ts = c" and "inj_on (googleTokenFingerprint (be_sha V)) C"
    and "fst (row_credential (be_unseal V) p) \<in> C" and "build_client V p cache = (co, fps, cache')"
  shows "sources_ok (be_sha V) src C cache' \<and> set fps \<subseteq> {row_print V p} \<and> (\<forall>c ts. co = Some c \<longrightarrow> client_source c = Some ts \<longrightarrow> row_own V src p ts)"
proof -
  note g = google_client_own [OF assms(1-4)]
  have k: "\<not> ''vertex'' \<in> set compat_kinds" "\<not> KindGoogleSpeech \<in> set compat_kinds" "\<not> KindGoogleTTS \<in> set compat_kinds" by (simp_all add: compat_kinds_def)
  consider "pv_Kind p = ''vertex''" | "pv_Kind p = KindGoogleSpeech" | "pv_Kind p = KindGoogleTTS" | "pv_Kind p \<notin> {''vertex'', KindGoogleSpeech, KindGoogleTTS}" by blast
  then show ?thesis
  proof cases
    case 1
    with assms(5) k have "google_client V p (validateVertexConfig (pv_BaseURL p))
          (\<lambda>cfg ts. VertexClient ((NewVertex (pv_Name p) (vertexBaseURL cfg (pv_BaseURL p)))\<lparr>vx_chatTimeout := be_chatTimeout V\<rparr>) ts) cache = (co, fps, cache')"
      by (simp add: build_client_def)
    from g [OF this] 1 show ?thesis by (simp add: ValidateProviderConfig_def)
  next
    case 2
    with assms(5) k have "google_client V p validateGoogleSpeechConfig
          (\<lambda>cfg ts. SpeechClient (NewGoogleSpeech (pv_Name p) (googleSpeechBaseURL cfg (pv_BaseURL p)) (gc_Project cfg) (location cfg)) ts) cache = (co, fps, cache')"
      by (simp add: build_client_def)
    from g [OF this] 2 show ?thesis by (simp add: ValidateProviderConfig_def)
  next
    case 3
    with assms(5) k have "google_client V p validateGoogleTTSConfig
          (\<lambda>cfg ts. TTSClient (NewGoogleTTS (pv_Name p) (googleTTSBaseURL cfg (pv_BaseURL p)) (gc_Project cfg)) ts) cache = (co, fps, cache')"
      by (simp add: build_client_def)
    from g [OF this] 3 show ?thesis by (simp add: ValidateProviderConfig_def)
  next
    case 4
    then show ?thesis using assms(1,5) by (auto simp: build_client_def split: if_splits)
  qed
qed

definition registered :: "'ts build_env \<Rightarrow> ('ts \<Rightarrow> string) \<Rightarrow> provider_row list \<Rightarrow> string \<Rightarrow> 'ts client entry \<Rightarrow> bool" where
  "registered V src rows n e \<longleftrightarrow>
     (\<exists>p \<in> set rows. pv_Name p = n \<and> en_maxConc e = pv_MaxConcurrency p \<and> (\<forall>ts. client_source (en_Provider e) = Some ts \<longrightarrow> row_own V src p ts))"

lemma build_rows_own:
  assumes "\<forall>c ts. be_resolve V c = Inr ts \<longrightarrow> src ts = c" and "inj_on (googleTokenFingerprint (be_sha V)) C"
    and "\<forall>p \<in> set rows. fst (row_credential (be_unseal V) p) \<in> C"
    and "sources_ok (be_sha V) src C cache" and "build_rows V rows reg keep cache = (reg', keep', cache')"
  shows "sources_ok (be_sha V) src C cache' \<and> set keep' \<subseteq> set keep \<union> row_print V ` set rows
    \<and> (\<forall>n e. reg' n = Some e \<longrightarrow> reg n = Some e \<or> registered V src rows n e)"
  using assms(3-5)
proof (induction rows arbitrary: reg keep cache)
  case (Cons p rows)
  obtain co fps cache1 where b: "build_client V p cache = (co, fps, cache1)" by (metis prod_cases3)
  have own: "sources_ok (be_sha V) src C cache1" "set fps \<subseteq> {row_print V p}" "\<And>c ts. co = Some c \<Longrightarrow> client_source c = Some ts \<Longrightarrow> row_own V src p ts"
    using build_client_own [OF Cons.prems(2) assms(1,2) _ b] Cons.prems(1) by auto
  have mono: "registered V src rows n e \<Longrightarrow> registered V src (p # rows) n e" for n e by (auto simp: registered_def)
  define reg1 where "reg1 = (case co of None \<Rightarrow> reg | Some c \<Rightarrow> Register (pv_Name p) c (pv_MaxConcurrency p) reg)"
  have "build_rows V rows reg1 (keep @ fps) cache1 = (reg', keep', cache')" using Cons.prems(3) b by (cases co) (simp_all add: reg1_def)
  from Cons.IH [OF _ own(1) this] Cons.prems(1)
  have ih: "sources_ok (be_sha V) src C cache'" "set keep' \<subseteq> set (keep @ fps) \<union> row_print V ` set rows"
    "\<forall>n e. reg' n = Some e \<longrightarrow> reg1 n = Some e \<or> registered V src rows n e" by auto
  have "reg n = Some e \<or> registered V src (p # rows) n e" if "reg1 n = Some e" for n e
    using that own(3) by (cases co) (auto simp: reg1_def Register_def registered_def split: if_splits)
  then have "\<forall>n e. reg' n = Some e \<longrightarrow> reg n = Some e \<or> registered V src (p # rows) n e" using ih(3) mono by blast
  then show ?case using ih(1,2) own(2) by auto
qed auto

lemma build_rows_other: "n \<notin> pv_Name ` set rows \<Longrightarrow> fst (build_rows V rows reg keep cache) n = reg n"
proof (induction rows arbitrary: reg keep cache)
  case (Cons p rows)
  then show ?case by (auto simp: Register_def split: prod.split option.split)
qed simp

lemma build_rows_compat:
  assumes "distinct (map pv_Name rows)" and "p \<in> set rows" and "pv_Kind p \<in> set compat_kinds"
  shows "\<exists>e. fst (build_rows V rows reg keep cache) (pv_Name p) = Some e \<and> en_Provider e = CompatClient (compat_client V p) \<and> en_maxConc e = pv_MaxConcurrency p"
  using assms(1,2)
proof (induction rows arbitrary: reg keep cache)
  case (Cons q rows)
  show ?case
  proof (cases "q = p")
    case True
    have "''mock'' \<notin> set compat_kinds" by (simp add: compat_kinds_def)
    then have "build_client V p cache = (Some (CompatClient (compat_client V p)), [], cache)" using assms(3) by (auto simp: build_client_def)
    moreover have "pv_Name p \<notin> pv_Name ` set rows" using Cons.prems(1) True by simp
    ultimately show ?thesis using True by (simp add: build_rows_other Register_def)
  next
    case False
    then show ?thesis using Cons by (auto split: prod.split option.split)
  qed
qed simp

text \<open>
  C32: A registry runs every provider under the identity its operator configured: a client that asks
  Google for tokens belongs to a row whose credential, if one is stored, could be decrypted, and
  its tokens are that credential's, the pod's own identity only where none is stored; its
  configuration is valid and its slots are the row's. The other kinds always have their client, a mock
  provider is always there, and no token source of a credential that is no longer configured is kept.
\<close>
theorem configured_identities:
  assumes "\<forall>c ts. be_resolve V c = Inr ts \<longrightarrow> src ts = c" and "inj_on (googleTokenFingerprint (be_sha V)) C"
    and "\<forall>p \<in> set rows. fst (row_credential (be_unseal V) p) \<in> C" and "sources_ok (be_sha V) src C cache"
    and "distinct (map pv_Name rows)" and "Build V rows cache = (reg, cache')"
  shows "(\<forall>n e. reg n = Some e \<longrightarrow> (n = ''mock'' \<and> en_Provider e = MockClient ''mock'') \<or> registered V src rows n e)
    \<and> reg ''mock'' \<noteq> None
    \<and> (\<forall>p \<in> set rows. pv_Kind p \<in> set compat_kinds \<longrightarrow> (\<exists>e. reg (pv_Name p) = Some e \<and> en_Provider e = CompatClient (compat_client V p)))
    \<and> sources_ok (be_sha V) src C cache' \<and> dom cache' \<subseteq> row_print V ` set rows"
proof -
  obtain reg1 keep cache1 where b: "build_rows V rows NewRegistry [] cache = (reg1, keep, cache1)" by (metis prod_cases3)
  have r: "reg = (if reg1 ''mock'' = None then Register ''mock'' (MockClient ''mock'') 0 reg1 else reg1)" "cache' = cache1 |` set keep"
    using assms(6) b by (auto simp: Build_def registry_Get_def PruneGoogleTokenSources_def)
  have own: "sources_ok (be_sha V) src C cache1" "set keep \<subseteq> row_print V ` set rows" "\<forall>n e. reg1 n = Some e \<longrightarrow> registered V src rows n e"
    using build_rows_own [OF assms(1-4) b] by (auto simp: NewRegistry_def)
  have "\<exists>e. reg (pv_Name p) = Some e \<and> en_Provider e = CompatClient (compat_client V p)" if p: "p \<in> set rows" "pv_Kind p \<in> set compat_kinds" for p
  proof -
    obtain e where e: "reg1 (pv_Name p) = Some e" "en_Provider e = CompatClient (compat_client V p)"
      using build_rows_compat [OF assms(5) p, of V NewRegistry "[]" cache] b by auto
    then have "reg (pv_Name p) = Some e" by (cases "pv_Name p = ''mock''") (auto simp: r(1) Register_def)
    then show ?thesis using e(2) by blast
  qed
  moreover have "sources_ok (be_sha V) src C cache'" using own(1) by (auto simp: r(2) sources_ok_def restrict_map_def)
  moreover have "dom cache' \<subseteq> row_print V ` set rows" using own(2) by (auto simp: r(2) restrict_map_def split: if_splits)
  ultimately show ?thesis using own(3) by (auto simp: r(1) Register_def)
qed

section \<open>Refreshing\<close>

text \<open>A registry in step with rows: their clients under their names with their slots, and no other names.\<close>

definition in_step :: "'ts build_env \<Rightarrow> provider_row list \<Rightarrow> 'ts client registry \<Rightarrow> bool" where
  "in_step V rows reg \<longleftrightarrow>
     (\<forall>p \<in> set rows. pv_Kind p \<in> set compat_kinds \<longrightarrow>
        (\<exists>e. reg (pv_Name p) = Some e \<and> en_Provider e = CompatClient (compat_client V p) \<and> en_maxConc e = pv_MaxConcurrency p))
     \<and> (\<forall>n \<in> dom reg. n = ''mock'' \<or> n \<in> pv_Name ` set rows)"

definition settings_ok :: "('h, 'c) refresh_env \<Rightarrow> ('h, 'ts, 'c) configState \<Rightarrow> bool" where
  "settings_ok R st \<longleftrightarrow> (\<forall>name raw. cs_settings st name = Some raw \<longrightarrow> cs_cells st name = re_apply R name raw)"

lemma build_in_step:
  assumes "distinct (map pv_Name rows)"
  shows "in_step V rows (fst (Build V rows cache))"
proof -
  obtain reg1 keep cache1 where b: "build_rows V rows NewRegistry [] cache = (reg1, keep, cache1)" by (metis prod_cases3)
  have r: "fst (Build V rows cache) = (if reg1 ''mock'' = None then Register ''mock'' (MockClient ''mock'') 0 reg1 else reg1)"
    by (simp add: Build_def b registry_Get_def)
  have c: "\<exists>e. reg1 (pv_Name p) = Some e \<and> en_Provider e = CompatClient (compat_client V p) \<and> en_maxConc e = pv_MaxConcurrency p"
    if "p \<in> set rows" "pv_Kind p \<in> set compat_kinds" for p
    using build_rows_compat [OF assms that, of V NewRegistry "[]" cache] b by simp
  have d: "n \<in> pv_Name ` set rows" if "n \<in> dom reg1" for n
  proof (rule ccontr)
    assume "n \<notin> pv_Name ` set rows"
    from build_rows_other [OF this, of V NewRegistry "[]" cache] show False using that b by (auto simp: NewRegistry_def)
  qed
  have "\<exists>e. fst (Build V rows cache) (pv_Name p) = Some e \<and> en_Provider e = CompatClient (compat_client V p) \<and> en_maxConc e = pv_MaxConcurrency p"
    if "p \<in> set rows" "pv_Kind p \<in> set compat_kinds" for p
    using c [OF that] by (cases "pv_Name p = ''mock''") (auto simp: r Register_def)
  then show ?thesis using d by (auto simp: in_step_def r Register_def split: if_splits)
qed

text \<open>What a fingerprint covers of a row, as it is hashed.\<close>

definition hashed_fields :: "provider_row \<Rightarrow> string \<times> string \<times> string \<times> string \<times> string \<times> string" where
  "hashed_fields p = (pv_Name p, pv_Kind p, pv_BaseURL p, cookie_val (pv_CredEnc p), itoa (pv_MaxConcurrency p), pv_Config p)"

definition fields_sized :: "string \<times> string \<times> string \<times> string \<times> string \<times> string \<Rightarrow> bool" where
  "fields_sized = (\<lambda>(a, b, c, d, e, f). length a < 2 ^ 64 \<and> length b < 2 ^ 64 \<and> length c < 2 ^ 64 \<and> length d < 2 ^ 64 \<and> length e < 2 ^ 64 \<and> length f < 2 ^ 64)"

lemma same_bytes_same_fields:
  assumes "list_all (\<lambda>p. fields_sized (hashed_fields p)) xs" and "list_all (\<lambda>p. fields_sized (hashed_fields p)) ys"
    and "concat (map enc_provider xs) = concat (map enc_provider ys)"
  shows "map hashed_fields xs = map hashed_fields ys"
proof -
  let ?enc = "\<lambda>(a, b, c, d, e, f). enc_str a @ enc_str b @ enc_str c @ enc_str d @ enc_str e @ enc_str f"
  have e: "enc_provider p = ?enc (hashed_fields p)" for p by (simp add: enc_provider_def hashed_fields_def)
  note code = prefix_code_pair [OF prefix_code_str prefix_code_pair [OF prefix_code_str prefix_code_pair [OF prefix_code_str
      prefix_code_pair [OF prefix_code_str prefix_code_pair [OF prefix_code_str prefix_code_str]]]]]
  have c: "prefix_code fields_sized ?enc" using code by (simp add: fields_sized_def split_def)
  have "length (enc_str a) \<ge> 8" for a by (simp add: enc_str_def len_str_def)
  then have "enc_str a \<noteq> []" for a by (metis list.size(3) not_numeral_le_zero)
  then have ne: "?enc t \<noteq> []" for t by (cases t) simp
  have m: "map ?enc (map hashed_fields zs) = map enc_provider zs" for zs by (induction zs) (simp_all add: e)
  show ?thesis
  proof (rule prefix_code_concat [OF c ne])
    show "list_all fields_sized (map hashed_fields xs)" "list_all fields_sized (map hashed_fields ys)"
      using assms(1,2) by (simp_all add: list_all_iff)
    show "concat (map ?enc (map hashed_fields xs)) = concat (map ?enc (map hashed_fields ys))"
      unfolding m by (rule assms(3))
  qed
qed

lemma in_step_same_fields:
  assumes "map hashed_fields rows = map hashed_fields rows0" and "in_step V rows0 reg"
  shows "in_step V rows reg"
proof -
  have f: "pv_Name p = pv_Name q \<and> pv_Kind p = pv_Kind q \<and> pv_MaxConcurrency p = pv_MaxConcurrency q \<and> compat_client V p = compat_client V q"
    if "hashed_fields p = hashed_fields q" for p q
  proof -
    have "cookie_val (pv_CredEnc p) = cookie_val (pv_CredEnc q)" using that by (simp add: hashed_fields_def)
    then have "row_credential (be_unseal V) p = row_credential (be_unseal V) q"
      by (cases "pv_CredEnc p"; cases "pv_CredEnc q") (auto simp: row_credential_def cookie_val_def split: option.splits)
    then show ?thesis using that by (simp add: hashed_fields_def compat_client_def)
  qed
  have s: "hashed_fields ` set rows = hashed_fields ` set rows0" using assms(1) by (metis set_map)
  have "\<exists>e. reg (pv_Name p) = Some e \<and> en_Provider e = CompatClient (compat_client V p) \<and> en_maxConc e = pv_MaxConcurrency p"
    if p: "p \<in> set rows" "pv_Kind p \<in> set compat_kinds" for p
  proof -
    have "hashed_fields p \<in> hashed_fields ` set rows0" using p(1) s by blast
    then obtain q where q: "q \<in> set rows0" "hashed_fields p = hashed_fields q" by blast
    then show ?thesis using f [OF q(2)] p(2) assms(2) by (auto simp: in_step_def)
  qed
  moreover have "n \<in> pv_Name ` set rows" if n: "n \<in> pv_Name ` set rows0" for n
  proof -
    obtain q where q: "q \<in> set rows0" "n = pv_Name q" using n by blast
    then have "hashed_fields q \<in> hashed_fields ` set rows" using s by blast
    then obtain p where p: "p \<in> set rows" "hashed_fields p = hashed_fields q" by (elim imageE) simp
    then have "n = pv_Name p" using f [OF p(2)] q(2) by simp
    then show ?thesis using p(1) by blast
  qed
  ultimately show ?thesis using assms(2) by (auto simp: in_step_def)
qed

lemma load_in_step:
  assumes "distinct (map pv_Name rows)" and "list_all (\<lambda>p. fields_sized (hashed_fields p)) rows" and "list_all (\<lambda>p. fields_sized (hashed_fields p)) rows0"
    and "inj_on (re_hash R) {concat (map enc_provider rows0), concat (map enc_provider rows)}"
    and "force \<or> (in_step V rows0 (cs_registry st) \<and> cs_providersFP st = Fingerprint (re_hash R) rows0)"
  shows "in_step V rows (cs_registry (loadProvidersLocked R V force (Some rows) st))
    \<and> cs_providersFP (loadProvidersLocked R V force (Some rows) st) = Fingerprint (re_hash R) rows"
proof (cases "\<not> force \<and> Fingerprint (re_hash R) rows = cs_providersFP st")
  case True
  then have "re_hash R (concat (map enc_provider rows)) = re_hash R (concat (map enc_provider rows0))"
    using assms(5) by (simp add: Fingerprint_def)
  then have "concat (map enc_provider rows) = concat (map enc_provider rows0)"
    by (rule inj_onD [OF assms(4)]) simp_all
  then have "map hashed_fields rows = map hashed_fields rows0" using same_bytes_same_fields [OF assms(2,3)] by simp
  then have "in_step V rows (cs_registry st)" using True assms(5) by (intro in_step_same_fields [of rows rows0]) simp_all
  moreover have "loadProvidersLocked R V force (Some rows) st = st" using True by (simp add: loadProvidersLocked_def)
  ultimately show ?thesis using True by simp
next
  case False
  then show ?thesis using build_in_step [OF assms(1), of V "cs_tokens st"]
    by (auto simp: loadProvidersLocked_def Let_def split: prod.split)
qed

lemma listed_names: "providers_ok d \<Longrightarrow> distinct (map pv_Name (ListProvidersForRegistry d))"
  unfolding ListProvidersForRegistry_def by (auto simp: providers_ok_def distinct_map intro: inj_on_subset)


lemma refresh_setting_fields:
  "cs_registry (refresh_setting R raws name st) = cs_registry st" "cs_providersFP (refresh_setting R raws name st) = cs_providersFP st"
  "cs_settings (refresh_setting R raws name st) n = (if n = name then Some (raws name) else cs_settings st n)"
  by (auto simp: refresh_setting_def rememberSetting_def install_setting_def)

lemma refresh_setting_ok: "settings_ok R st \<Longrightarrow> settings_ok R (refresh_setting R raws name st)"
  by (auto simp: settings_ok_def refresh_setting_def rememberSetting_def install_setting_def)

lemma refresh_settings:
  "settings_ok R st \<Longrightarrow> settings_ok R (fold (refresh_setting R raws) names st)
     \<and> (\<forall>n \<in> set names. cs_settings (fold (refresh_setting R raws) names st) n = Some (raws n))
     \<and> cs_registry (fold (refresh_setting R raws) names st) = cs_registry st
     \<and> cs_providersFP (fold (refresh_setting R raws) names st) = cs_providersFP st"
proof (induction names rule: rev_induct)
  case (snoc name names)
  then show ?case using refresh_setting_ok by (auto simp: refresh_setting_fields)
qed simp

lemma refresh_settings_registry: "cs_registry (fold (refresh_setting R raws) names st) = cs_registry st"
  by (induction names arbitrary: st) (simp_all add: refresh_setting_fields)

lemma load_settings:
  "cs_settings (loadProvidersLocked R V force rows st) = cs_settings st" "cs_cells (loadProvidersLocked R V force rows st) = cs_cells st"
  by (auto simp: loadProvidersLocked_def Let_def split: option.split prod.split)


section \<open>A provider that could not be built\<close>

definition google_kinds :: "string list" where
  "google_kinds = [''vertex'', KindGoogleSpeech, KindGoogleTTS]"

lemma unresolved_source:
  assumes "be_resolve V cred = Inl e" and "cache (googleTokenFingerprint (be_sha V) cred) = None"
    and "row_print V q = googleTokenFingerprint (be_sha V) cred \<longrightarrow> fst (row_credential (be_unseal V) q) = cred"
    and "google_client V q validate mk cache = (co, fps, cache')"
  shows "cache' (googleTokenFingerprint (be_sha V) cred) = None \<and> (row_credential (be_unseal V) q = (cred, False) \<longrightarrow> co = None)"
proof -
  obtain c err where rc: "row_credential (be_unseal V) q = (c, err)" by fastforce
  obtain r cache1 where t: "GoogleTokenSource (be_sha V) (be_resolve V) c cache = (r, cache1)" by fastforce
  have k: "cache1 (googleTokenFingerprint (be_sha V) cred) = None \<and> (c = cred \<longrightarrow> r = Inl e)"
    using t assms(1-3) rc by (auto simp: GoogleTokenSource_def Let_def row_print_def split: option.splits sum.splits)
  show ?thesis using assms(2,4) k t rc
    by (auto simp: google_client_def googleCloudFromRow_def split: if_splits sum.splits option.splits prod.splits)
qed

lemma unresolved_client:
  assumes "be_resolve V cred = Inl e" and "cache (googleTokenFingerprint (be_sha V) cred) = None"
    and "row_print V q = googleTokenFingerprint (be_sha V) cred \<longrightarrow> fst (row_credential (be_unseal V) q) = cred"
    and "build_client V q cache = (co, fps, cache')"
  shows "cache' (googleTokenFingerprint (be_sha V) cred) = None
    \<and> (pv_Kind q \<in> set google_kinds \<longrightarrow> row_credential (be_unseal V) q = (cred, False) \<longrightarrow> co = None)"
proof -
  note u = unresolved_source [where V = V and cache = cache, OF assms(1-3)]
  have k: "pv_Kind q \<in> set google_kinds \<Longrightarrow> pv_Kind q \<noteq> ''mock'' \<and> pv_Kind q \<notin> set compat_kinds" by (auto simp: google_kinds_def compat_kinds_def)
  show ?thesis
  proof (cases "pv_Kind q \<in> set google_kinds")
    case True
    then show ?thesis using k assms(4) by (auto simp: build_client_def google_kinds_def dest!: u)
  next
    case False
    then show ?thesis using assms(2,4) by (auto simp: build_client_def google_kinds_def split: if_splits)
  qed
qed

lemma unresolved_rows:
  assumes "be_resolve V cred = Inl e" and "\<forall>q \<in> set rows. row_print V q = googleTokenFingerprint (be_sha V) cred \<longrightarrow> fst (row_credential (be_unseal V) q) = cred"
    and "distinct (map pv_Name rows)" and "p \<in> set rows" and "pv_Kind p \<in> set google_kinds" and "row_credential (be_unseal V) p = (cred, False)"
    and "cache (googleTokenFingerprint (be_sha V) cred) = None" and "reg (pv_Name p) = None"
  shows "fst (build_rows V rows reg keep cache) (pv_Name p) = None"
  using assms(2-4,7,8)
proof (induction rows arbitrary: reg keep cache)
  case (Cons q rows)
  obtain co fps cache1 where b: "build_client V q cache = (co, fps, cache1)" by (metis prod_cases3)
  have u: "cache1 (googleTokenFingerprint (be_sha V) cred) = None" "q = p \<Longrightarrow> co = None"
    using unresolved_client [where V = V and cache = cache, OF assms(1) Cons.prems(4) _ b] Cons.prems(1) assms(5,6) by auto
  show ?case
  proof (cases "q = p")
    case True
    have n: "pv_Name p \<notin> pv_Name ` set rows" using Cons.prems(2) True by simp
    have "co = None" using u(2) True by simp
    then show ?thesis using b Cons.prems(5) by (simp add: build_rows_other [OF n])
  next
    case False
    then have p: "p \<in> set rows" using Cons.prems(3) by simp
    then have n: "pv_Name q \<noteq> pv_Name p" using Cons.prems(2) by auto
    have "fst (build_rows V rows reg1 keep1 cache1) (pv_Name p) = None" if "reg1 (pv_Name p) = None" for reg1 keep1
      using Cons.IH [where cache = cache1 and reg = reg1, OF _ _ p u(1) that] Cons.prems(1,2) by simp
    then show ?thesis using b n Cons.prems(5) by (cases co) (simp_all add: Register_def)
  qed
qed simp

text \<open>
  C35: A Google provider whose credential could not be resolved when the registry was built (an
  unreachable metadata server at start, say) stays out of it on every refresh that reads the same
  rows, although the credential resolves by then: the rows' fingerprint has not changed, so nothing is
  rebuilt.
\<close>
theorem unresolved_provider_stays_out:
  assumes "p \<in> set rows" and "pv_Kind p \<in> set google_kinds" and "pv_Name p \<noteq> ''mock''" and "distinct (map pv_Name rows)"
    and "row_credential (be_unseal V0) p = (cred, False)" and "be_resolve V0 cred = Inl e"
    and "\<forall>q \<in> set rows. row_print V0 q = row_print V0 p \<longrightarrow> fst (row_credential (be_unseal V0) q) = cred"
    and "cs_tokens st (row_print V0 p) = None" and "rr_providers rd = Some rows"
  shows "cs_registry (RefreshConfig R V rd (ReloadProviders R V0 (Some rows) st)) (pv_Name p) = None"
proof -
  have f: "row_print V0 p = googleTokenFingerprint (be_sha V0) cred" using assms(5) by (simp add: row_print_def)
  have "fst (build_rows V0 rows NewRegistry [] (cs_tokens st)) (pv_Name p) = None"
    using unresolved_rows [where V = V0, OF assms(6) _ assms(4,1,2,5), of "cs_tokens st" NewRegistry "[]"] assms(7,8) f by (simp add: NewRegistry_def)
  then have b: "fst (Build V0 rows (cs_tokens st)) (pv_Name p) = None"
    using assms(3) by (auto simp: Build_def Register_def split: prod.splits)
  let ?st = "ReloadProviders R V0 (Some rows) st"
  have l: "cs_registry ?st (pv_Name p) = None" "cs_providersFP ?st = Fingerprint (re_hash R) rows"
    using b by (auto simp: ReloadProviders_def loadProvidersLocked_def Let_def split: prod.splits)
  then have s: "loadProvidersLocked R V False (Some rows) ?st = ?st" by (simp add: loadProvidersLocked_def)
  then show ?thesis using l(1) by (simp add: RefreshConfig_def assms(9) Let_def refresh_settings_registry split: option.split)
qed

section \<open>Example\<close>

definition demo_provider :: "string \<Rightarrow> string \<Rightarrow> bool \<Rightarrow> provider_row" where
  "demo_provider name kind on = \<lparr>pv_Name = name, pv_Kind = kind, pv_BaseURL = [], pv_Enabled = on, pv_MaxConcurrency = 2,
     pv_Config = (if kind = ''openai'' then ''{}'' else ''{\"project\":\"acme\"}''), pv_CredEnc = Some ''sealed''\<rparr>"

definition demo_cd :: catalog_db where
  "demo_cd = \<lparr>cd_providers = [demo_provider ''a'' ''openai'' True, demo_provider ''b'' ''openai'' False], cd_aliases = [], cd_targets = []\<rparr>"

definition demo_alias :: alias_body where
  "demo_alias = \<lparr>ab_Protocol = [], ab_Strategy = ''weird'', ab_DLPModelScan = None, ab_ExposeBackendHeaders = False, ab_DLPAudioScan = Some False,
     ab_SessionAffinity = True, ab_SessionAffinityTTLS = 60, ab_SynthesisCache = False, ab_SynthesisCacheTTLS = 0, ab_LCRMode = [],
     ab_LCRMinAvailability = None,
     ab_Targets = [\<lparr>at_Priority = 1, at_Provider = ''a'', at_UpstreamModel = ''m'', at_DisplayLabel = [], at_Options = []\<rparr>,
       \<lparr>at_Priority = 0, at_Provider = ''b'', at_UpstreamModel = ''m'', at_DisplayLabel = [], at_Options = ''null''\<rparr>]\<rparr>"

theorem saved_alias_resolves_witness:
  "\<exists>d' p. handleAdminPutAlias Some (\<lambda>_. Inr no_options) ''fast'' (Some demo_alias) demo_cd = (200, d')
     \<and> resolveAlias (\<lambda>_. Inr no_options) (catalog_of d' (\<lambda>a. joined d' a)) ''fast'' = Inr p
     \<and> length (concat (pl_Tiers p)) = 1 \<and> pl_Strategy p = ''round_robin'' \<and> pl_DLPModelScan p \<and> \<not> pl_DLPAudioScan p
     \<and> pl_SessionAffinityTTL p = 60 * second"
proof -
  let ?um = "\<lambda>_ :: string. Inr no_options :: string + target_options"
  have q: "ParseTargetOptions ?um [] = Inr no_options" "ParseTargetOptions ?um ''null'' = Inr no_options" by code_simp+
  have "\<not> alias_refused ?um demo_alias"
    by (simp add: alias_refused_def demo_alias_def MaxAffinityTTLSeconds_def MaxSynthesisCacheTTLSeconds_def given_def alias_strategy_def q)
  moreover have t: "those (map (insert_target Some demo_cd) (ab_Targets demo_alias)) \<noteq> None"
    by (simp add: insert_target_def demo_alias_def demo_cd_def demo_provider_def provider_by_name_def)
  ultimately obtain d' where s: "handleAdminPutAlias Some ?um ''fast'' (Some demo_alias) demo_cd = (200, d')"
    by (auto simp: handleAdminPutAlias_def)
  obtain ts where ts: "those (map (insert_target Some demo_cd) (ab_Targets demo_alias)) = Some ts" "cd_providers d' = cd_providers demo_cd"
    "cd_targets d' = filter (\<lambda>(a, _). a \<noteq> ''fast'') (cd_targets demo_cd) @ map (Pair ''fast'') ts"
    using saved_alias_state [OF s] by metis
  have "length (joined d' ''fast'') \<le> 1"
    unfolding joined_saved [OF ts(3,2)] using ts(1)
    by (auto simp: insert_target_def demo_alias_def demo_cd_def demo_provider_def provider_by_name_def)
  then have "answers d' ''fast'' (joined d' ''fast'')" by (cases "joined d' ''fast''") (auto simp: answers_def)
  moreover have dist: "distinct (map pv_Name (cd_providers demo_cd))" by (simp add: demo_cd_def demo_provider_def)
  ultimately have r: "case resolveAlias ?um (catalog_of d' (\<lambda>a. joined d' a)) ''fast'' of
      Inl e \<Rightarrow> e = Miss (''no available targets: '' @ ''fast'') \<and> filter (available demo_cd) (ab_Targets demo_alias) = []
    | Inr p \<Rightarrow> mset (concat (pl_Tiers p)) = mset (map (described ?um demo_cd) (filter (available demo_cd) (ab_Targets demo_alias)))
        \<and> (\<forall>tier \<in> set (pl_Tiers p). \<forall>t \<in> set tier. tg_Tier t = tg_Tier (hd tier))
        \<and> sorted_wrt (<) (map (\<lambda>tier. tg_Tier (hd tier)) (pl_Tiers p))
        \<and> pl_Strategy p = alias_strategy demo_alias \<and> pl_DLPModelScan p = (ab_DLPModelScan demo_alias \<noteq> Some False)
        \<and> pl_DLPAudioScan p = (ab_DLPAudioScan demo_alias \<noteq> Some False)
        \<and> pl_SessionAffinityTTL p = (if ab_SessionAffinityTTLS demo_alias = 0 then DefaultAffinityTTL else ab_SessionAffinityTTLS demo_alias * second)
        \<and> pl_SynthesisCacheTTL p = (if ab_SynthesisCacheTTLS demo_alias = 0 then DefaultSynthesisCacheTTL else ab_SynthesisCacheTTLS demo_alias * second)"
    by (intro saved_alias_resolves [OF s]) simp_all
  have f: "length (filter (available demo_cd) (ab_Targets demo_alias)) = 1"
    by (simp add: available_def demo_cd_def demo_alias_def demo_provider_def provider_by_name_def)
  then have ne: "filter (available demo_cd) (ab_Targets demo_alias) \<noteq> []" by (metis list.size(3) zero_neq_one)
  show ?thesis
  proof (cases "resolveAlias ?um (catalog_of d' (\<lambda>a. joined d' a)) ''fast''")
    case (Inl e)
    then show ?thesis using r ne by simp
  next
    case (Inr p)
    then have m: "mset (concat (pl_Tiers p)) = mset (map (described ?um demo_cd) (filter (available demo_cd) (ab_Targets demo_alias)))"
      "pl_Strategy p = alias_strategy demo_alias" "pl_DLPModelScan p = (ab_DLPModelScan demo_alias \<noteq> Some False)"
      "pl_DLPAudioScan p = (ab_DLPAudioScan demo_alias \<noteq> Some False)"
      "pl_SessionAffinityTTL p = (if ab_SessionAffinityTTLS demo_alias = 0 then DefaultAffinityTTL else ab_SessionAffinityTTLS demo_alias * second)"
      using r by auto
    have "length (concat (pl_Tiers p)) = 1" using mset_eq_length [OF m(1)] f by (simp only: length_map)
    then show ?thesis using s Inr m(2-) by (auto simp: demo_alias_def alias_strategy_def)
  qed
qed

definition demo_save :: provider_body where
  "demo_save = \<lparr>pb_Kind = ''vertex'', pb_BaseURL = [], pb_Enabled = True, pb_MaxConcurrency = 4, pb_Config = ''{\"project\":\"acme\"}'',
     pb_APIKey = [], pb_CredentialJSON = [], pb_ClearCredential = False\<rparr>"

lemma demo_config: "parseGoogleCloudConfig ''{\"project\":\"acme\"}'' = Inr \<lparr>gc_Project = ''acme'', gc_Location = []\<rparr>"
  by code_simp

lemma demo_cd_ok: "providers_ok demo_cd"
  by (auto simp: providers_ok_def demo_cd_def demo_provider_def ValidateProviderConfig_def)

definition demo_build :: "(string \<Rightarrow> string + string) \<Rightarrow> string build_env" where
  "demo_build resolve = \<lparr>be_sha = (\<lambda>t. t), be_unseal = Some, be_resolve = resolve, be_chatTimeout = 0\<rparr>"

definition demo_rows :: "provider_row list" where
  "demo_rows = [demo_provider ''a'' ''openai'' True, demo_provider ''v'' ''vertex'' True]"

lemma demo_credential: "row_credential (be_unseal (demo_build resolve)) (demo_provider n k on) = (''sealed'', False)"
  by (simp add: row_credential_def demo_build_def demo_provider_def)

lemma demo_rows_names: "distinct (map pv_Name demo_rows)" by (simp add: demo_rows_def demo_provider_def)

theorem configured_identities_witness:
  "\<exists>reg cache'. Build (demo_build Inr) demo_rows Map.empty = (reg, cache') \<and> reg ''mock'' \<noteq> None \<and> reg ''a'' \<noteq> None
     \<and> sources_ok (\<lambda>t. t) (\<lambda>ts. ts) {''sealed''} cache' \<and> dom cache' \<subseteq> row_print (demo_build Inr) ` set demo_rows"
proof -
  obtain reg cache' where b: "Build (demo_build Inr) demo_rows Map.empty = (reg, cache')" by fastforce
  have o: "\<forall>c ts. be_resolve (demo_build Inr) c = Inr ts \<longrightarrow> ts = c" by (simp add: demo_build_def)
  have c: "\<forall>p \<in> set demo_rows. fst (row_credential (be_unseal (demo_build Inr)) p) \<in> {''sealed''}" by (simp add: demo_rows_def demo_credential)
  have e: "sources_ok (be_sha (demo_build Inr)) (\<lambda>ts. ts) {''sealed''} Map.empty" by (simp add: sources_ok_def)
  have p: "demo_provider ''a'' ''openai'' True \<in> set demo_rows" "pv_Kind (demo_provider ''a'' ''openai'' True) \<in> set compat_kinds"
    "pv_Name (demo_provider ''a'' ''openai'' True) = ''a''" by (simp_all add: demo_rows_def demo_provider_def compat_kinds_def)
  have i: "inj_on (googleTokenFingerprint (be_sha (demo_build Inr))) {''sealed''}" by simp
  note r = configured_identities [where src = "\<lambda>ts. ts", OF o i c e demo_rows_names b]
  have "reg ''mock'' \<noteq> None" "sources_ok (\<lambda>t. t) (\<lambda>ts. ts) {''sealed''} cache'" "dom cache' \<subseteq> row_print (demo_build Inr) ` set demo_rows"
    using r by (simp_all add: demo_build_def)
  moreover have "reg ''a'' \<noteq> None" using r p by auto
  ultimately show ?thesis using b by blast
qed

definition demo_refresh :: "(nat list, string option) refresh_env" where
  "demo_refresh = \<lparr>re_hash = (\<lambda>bs. bs), re_bits = (\<lambda>_. 0), re_apply = (\<lambda>name raw. raw)\<rparr>"

definition demo_config_state :: "(nat list, string, string option) configState" where
  "demo_config_state = \<lparr>cs_registry = Map.empty, cs_tokens = Map.empty, cs_providersFP = [], cs_prices = new_table, cs_settings = Map.empty,
     cs_cells = (\<lambda>_. None)\<rparr>"


lemma demo_sized: "list_all (\<lambda>p. fields_sized (hashed_fields p)) demo_rows"
  by (simp add: demo_rows_def demo_provider_def hashed_fields_def fields_sized_def cookie_val_def itoa_def nat_digits.simps)


theorem unresolved_provider_stays_out_witness:
  "cs_registry (RefreshConfig demo_refresh (demo_build Inr) \<lparr>rr_providers = Some demo_rows, rr_prices = None, rr_settings = None\<rparr>
       (ReloadProviders demo_refresh (demo_build (\<lambda>_. Inl ''down'')) (Some demo_rows) demo_config_state)) ''v'' = None
   \<and> fst (Build (demo_build Inr) demo_rows Map.empty) ''v'' \<noteq> None"
proof -
  let ?V0 = "demo_build (\<lambda>_. Inl ''down'')" and ?p = "demo_provider ''v'' ''vertex'' True"
  have p: "?p \<in> set demo_rows" "pv_Kind ?p \<in> set google_kinds" "pv_Name ?p \<noteq> ''mock''" "pv_Name ?p = ''v''"
    by (simp_all add: demo_rows_def demo_provider_def google_kinds_def)
  have q: "be_resolve ?V0 ''sealed'' = Inl ''down''" by (simp add: demo_build_def)
  have same: "\<forall>q \<in> set demo_rows. row_print ?V0 q = row_print ?V0 ?p \<longrightarrow> fst (row_credential (be_unseal ?V0) q) = ''sealed''"
    by (simp add: demo_rows_def demo_credential)
  have t: "cs_tokens demo_config_state (row_print ?V0 ?p) = None" by (simp add: demo_config_state_def)
  have rd: "rr_providers \<lparr>rr_providers = Some demo_rows, rr_prices = None, rr_settings = None\<rparr> = Some demo_rows" by simp
  have out: "cs_registry (RefreshConfig demo_refresh (demo_build Inr) \<lparr>rr_providers = Some demo_rows, rr_prices = None, rr_settings = None\<rparr>
       (ReloadProviders demo_refresh ?V0 (Some demo_rows) demo_config_state)) ''v'' = None"
    using unresolved_provider_stays_out [where V = "demo_build Inr" and R = demo_refresh, OF p(1,2,3) demo_rows_names demo_credential q same t rd] by (simp only: p(4))
  have k: "pv_Kind ?p = ''vertex''" "pv_Config ?p = ''{\"project\":\"acme\"}''" "pv_BaseURL ?p = []" by (simp_all add: demo_provider_def)
  have "\<exists>c fps cache'. build_client (demo_build Inr) ?p Map.empty = (Some c, fps, cache')"
    by (simp add: build_client_def k compat_kinds_def google_client_def demo_credential googleCloudFromRow_def demo_config validateVertexConfig_def
        GoogleTokenSource_def Let_def) (simp add: demo_build_def)
  moreover have "build_client (demo_build Inr) (demo_provider ''a'' ''openai'' True) Map.empty
      = (Some (CompatClient (compat_client (demo_build Inr) (demo_provider ''a'' ''openai'' True))), [], Map.empty)"
    by (simp add: build_client_def compat_kinds_def demo_provider_def)
  ultimately have "fst (Build (demo_build Inr) demo_rows Map.empty) ''v'' \<noteq> None"
    using p(4) by (auto simp: Build_def demo_rows_def Register_def)
  then show ?thesis using out by simp
qed

end
